(* ===== verification/Twan_Prelude.thy ===== *)
theory Twan_Prelude
  imports Main "HOL-Library.Word"
begin

text \<open>
  Shared ground of the development: the C integer types of \<open>include/types.h\<close>, the error
  codes of \<open>include/errno.h\<close> that the modelled code returns, the fact collections the
  component theories extend, and the generic lemmas on lists, options and words they use.
  A pointer is an \<open>option\<close> over the type of the addresses it may hold, with \<open>None\<close> for
  \<^verbatim>\<open>NULL\<close>; memory of one struct type is a total function from addresses to records.
\<close>

unbundle bit_operations_syntax

section \<open>Machine types\<close>

type_synonym u8 = "8 word"
type_synonym u16 = "16 word"
type_synonym u32 = "32 word"
type_synonym u64 = "64 word"

section \<open>Error codes\<close>

text \<open>The constants of \<^verbatim>\<open>errcode_t\<close> that the modelled functions return, negated, as \<open>int\<close>.\<close>

definition EPERM :: int where
  "EPERM = 1"

definition ENOMEM :: int where
  "ENOMEM = 12"

definition EFAULT :: int where
  "EFAULT = 14"

definition EINVAL :: int where
  "EINVAL = 22"

definition ENOSPC :: int where
  "ENOSPC = 28"

definition EOPNOTSUPP :: int where
  "EOPNOTSUPP = 48"

definition EALREADY :: int where
  "EALREADY = 66"

section \<open>Fact collections\<close>

named_theorems errno_simps
named_theorems repr_intros
named_theorems model_defs

lemmas errno_defs [errno_simps] =
  EPERM_def ENOMEM_def EFAULT_def EINVAL_def ENOSPC_def EOPNOTSUPP_def
  EALREADY_def

section \<open>List ends as pointers\<close>

text \<open>The first and the last element of a list as a pointer, with the pointer to use when
  the list is empty.\<close>

fun first_or :: "'a list \<Rightarrow> 'a option \<Rightarrow> 'a option" where
  "first_or [] d = d"
| "first_or (x # xs) d = Some x"

fun last_or :: "'a option \<Rightarrow> 'a list \<Rightarrow> 'a option" where
  "last_or d [] = d"
| "last_or d (x # xs) = last_or (Some x) xs"

lemma first_or_append [simp]: "first_or (xs @ ys) d = first_or xs (first_or ys d)"
  by (cases xs) auto

lemma last_or_append [simp]: "last_or d (xs @ ys) = last_or (last_or d xs) ys"
  by (induction xs arbitrary: d) auto

lemma first_or_None_iff [simp]: "first_or xs None = None \<longleftrightarrow> xs = []"
  by (cases xs) auto

lemma last_or_Some [simp]: "\<exists>y. last_or (Some x) xs = Some y"
  by (induction xs arbitrary: x) auto

lemma last_or_None_iff [simp]: "last_or None xs = None \<longleftrightarrow> xs = []"
  by (cases xs) (auto simp: not_None_eq)

lemma last_or_set: "last_or d xs = Some y \<Longrightarrow> y \<in> set xs \<or> d = Some y"
  by (induction xs arbitrary: d) fastforce+

lemma first_or_set: "first_or xs d = Some y \<Longrightarrow> y \<in> set xs \<or> d = Some y"
  by (cases xs) auto

lemma filter_remove1_distinct:
  "distinct xs \<Longrightarrow> filter P (remove1 x xs) = remove1 x (filter P xs)"
  by (induction xs) (auto simp: remove1_idem)

section \<open>Words\<close>

text \<open>Comparing two numbers by quotient and remainder, as the indexed bit arrays do.\<close>

lemma le_div_mod:
  "(a::nat) \<le> b \<longleftrightarrow> a div 64 < b div 64 \<or> (a div 64 = b div 64 \<and> a mod 64 \<le> b mod 64)"
proof -
  have "a = a div 64 * 64 + a mod 64" "b = b div 64 * 64 + b mod 64" by simp_all
  moreover have "a mod 64 < 64" "b mod 64 < 64" by simp_all
  ultimately show ?thesis by linarith
qed

lemma uint_not_minus_one [simp]: "uint w \<noteq> -1" for w :: "'a::len word"
  using uint_ge_0 [of w] by linarith

lemma unat_word_of_uint_u8 [simp]: "unat (word_of_int (uint p) :: u32) = unat p" for p :: u8
  by transfer (simp add: take_bit_take_bit)

lemma unat_ucast_u8_u32 [simp]: "unat (ucast p :: u32) = unat p" for p :: u8
  by transfer (simp add: take_bit_take_bit)

lemma word_nonzero_bit: "v \<noteq> 0 \<Longrightarrow> \<exists>i < LENGTH('a). bit v i" for v :: "'a::len word"
  by (metis bit_0_eq bit_eq_iff bit_imp_le_length bot_apply bot_bool_def)

lemma word_and_zero_bits: "v AND m = 0 \<longleftrightarrow> (\<forall>i. \<not> (bit v i \<and> bit m i))" for v :: "'a::len word"
  by (auto simp: bit_eq_iff bit_simps dest: bit_imp_le_length)

end
