(* ===== verification/Twan_Dq.thy ===== *)
theory Twan_Dq
  imports Twan_Prelude
begin

text \<open>
  The intrusive doubly linked queue of \<open>include/lib/dsa/dq.h\<close> on an explicit store: \<open>'n\<close> is
  the type of node addresses, the store maps every address to its \<^verbatim>\<open>struct list_double\<close>.
  \<open>dq_repr h d xs\<close> says that the queue \<open>d\<close> links exactly the nodes \<open>xs\<close>, in this order, in
  the store \<open>h\<close>; each operation refines the operation on the list. The locale \<open>node_queue\<close>
  is the contract the priority queue and the schedulers use, with the lemmas on a family
  of queues that share one store.
\<close>

section \<open>Definitions\<close>

record 'n list_double =
  ld_next :: "'n option"
  ld_prev :: "'n option"

record 'n dq =
  dq_front :: "'n option"
  dq_rear :: "'n option"

type_synonym 'n ld_mem = "'n \<Rightarrow> 'n list_double"

text \<open>Field assignments \<^verbatim>\<open>n->next = v\<close> and \<^verbatim>\<open>n->prev = v\<close>.\<close>

definition set_next :: "'n ld_mem \<Rightarrow> 'n \<Rightarrow> 'n option \<Rightarrow> 'n ld_mem" where
  "set_next h n v = h(n := (h n)\<lparr>ld_next := v\<rparr>)"

definition set_prev :: "'n ld_mem \<Rightarrow> 'n \<Rightarrow> 'n option \<Rightarrow> 'n ld_mem" where
  "set_prev h n v = h(n := (h n)\<lparr>ld_prev := v\<rparr>)"

definition dq_pushfront :: "'n ld_mem \<times> 'n dq \<Rightarrow> 'n \<Rightarrow> 'n ld_mem \<times> 'n dq" where
  "dq_pushfront = (\<lambda>(h, dq) node.
     let h = set_prev h node None;
         h = set_next h node (dq_front dq);
         dq = dq\<lparr>dq_front := Some node\<rparr>
     in case ld_next (h node) of
          Some nx \<Rightarrow> (set_prev h nx (Some node), dq)
        | None \<Rightarrow> (h, dq\<lparr>dq_rear := Some node\<rparr>))"

definition dq_pushback :: "'n ld_mem \<times> 'n dq \<Rightarrow> 'n \<Rightarrow> 'n ld_mem \<times> 'n dq" where
  "dq_pushback = (\<lambda>(h, dq) node.
     let h = set_next h node None;
         h = set_prev h node (dq_rear dq);
         dq = dq\<lparr>dq_rear := Some node\<rparr>
     in case ld_prev (h node) of
          Some pv \<Rightarrow> (set_next h pv (Some node), dq)
        | None \<Rightarrow> (h, dq\<lparr>dq_front := Some node\<rparr>))"

text \<open>\<^verbatim>\<open>PUSHFRONT\<close> is \<open>True\<close>, \<^verbatim>\<open>PUSHBACK\<close> is \<open>False\<close>.\<close>

definition dq_push :: "'n ld_mem \<times> 'n dq \<Rightarrow> 'n \<Rightarrow> bool \<Rightarrow> 'n ld_mem \<times> 'n dq" where
  "dq_push s node direction =
     (if direction then dq_pushfront s node else dq_pushback s node)"

definition dq_dequeue :: "'n ld_mem \<times> 'n dq \<Rightarrow> 'n \<Rightarrow> 'n ld_mem \<times> 'n dq" where
  "dq_dequeue = (\<lambda>(h, dq) node.
     let (h, dq) =
           (case ld_next (h node) of
              Some nx \<Rightarrow> (set_prev h nx (ld_prev (h node)), dq)
            | None \<Rightarrow> (h, dq\<lparr>dq_rear := ld_prev (h node)\<rparr>));
         (h, dq) =
           (case ld_prev (h node) of
              Some pv \<Rightarrow> (set_next h pv (ld_next (h node)), dq)
            | None \<Rightarrow> (h, dq\<lparr>dq_front := ld_next (h node)\<rparr>));
         h = set_next h node None;
         h = set_prev h node None
     in (h, dq))"

definition dq_peekfront :: "'n dq \<Rightarrow> 'n option" where
  "dq_peekfront dq = dq_front dq"

definition dq_popfront :: "'n ld_mem \<times> 'n dq \<Rightarrow> 'n option \<times> 'n ld_mem \<times> 'n dq" where
  "dq_popfront = (\<lambda>(h, dq).
     case dq_front dq of
       None \<Rightarrow> (None, h, dq)
     | Some node \<Rightarrow>
         let dq = dq\<lparr>dq_front := ld_next (h node)\<rparr>;
             (h, dq) =
               (case dq_front dq of
                  Some f \<Rightarrow> (set_prev h f None, dq)
                | None \<Rightarrow> (h, dq\<lparr>dq_rear := None\<rparr>));
             h = set_prev h node None;
             h = set_next h node None
         in (Some node, h, dq))"

definition dq_insert ::
  "'n ld_mem \<times> 'n dq \<Rightarrow> 'n \<Rightarrow> 'n option \<Rightarrow> 'n option \<Rightarrow> 'n ld_mem \<times> 'n dq" where
  "dq_insert = (\<lambda>(h, dq) node pv nx.
     let h = set_prev h node pv;
         h = set_next h node nx;
         (h, dq) =
           (case nx of Some n \<Rightarrow> (set_prev h n (Some node), dq)
            | None \<Rightarrow> (h, dq\<lparr>dq_rear := Some node\<rparr>))
     in case pv of Some p \<Rightarrow> (set_next h p (Some node), dq)
        | None \<Rightarrow> (h, dq\<lparr>dq_front := Some node\<rparr>))"

definition dq_is_queued :: "'n ld_mem \<Rightarrow> 'n dq \<Rightarrow> 'n \<Rightarrow> bool" where
  "dq_is_queued h dq node \<longleftrightarrow>
     ld_prev (h node) \<noteq> None \<or> ld_next (h node) \<noteq> None \<or> dq_front dq = Some node"

definition dq_is_empty :: "'n dq \<Rightarrow> bool" where
  "dq_is_empty dq \<longleftrightarrow> dq_front dq = None"

text \<open>The loop of \<^verbatim>\<open>dq_clear\<close> follows the links of the store; it may only be cut off by a
  \<^verbatim>\<open>NULL\<close> link, so it is a partial function.\<close>

partial_function (option) dq_clear_loop :: "'n ld_mem \<Rightarrow> 'n option \<Rightarrow> 'n ld_mem option" where
  "dq_clear_loop h cur =
     (case cur of None \<Rightarrow> Some h
      | Some c \<Rightarrow>
          dq_clear_loop (set_next (set_prev h c None) c None) (ld_next (h c)))"

definition dq_clear :: "'n ld_mem \<times> 'n dq \<Rightarrow> ('n ld_mem \<times> 'n dq) option" where
  "dq_clear = (\<lambda>(h, dq).
     case dq_clear_loop h (dq_front dq) of
       None \<Rightarrow> None
     | Some h \<Rightarrow> Some (h, dq\<lparr>dq_front := None, dq_rear := None\<rparr>))"

section \<open>What a queue represents\<close>

definition unlinked :: "'n ld_mem \<Rightarrow> 'n \<Rightarrow> bool" where
  "unlinked h n \<longleftrightarrow> ld_next (h n) = None \<and> ld_prev (h n) = None"

text \<open>A segment of linked nodes between the pointers \<open>p\<close> (before) and \<open>n\<close> (after).\<close>

fun dseg :: "'n ld_mem \<Rightarrow> 'n option \<Rightarrow> 'n list \<Rightarrow> 'n option \<Rightarrow> bool" where
  "dseg h p [] n = True"
| "dseg h p (x # xs) n =
     (ld_prev (h x) = p \<and> ld_next (h x) = first_or xs n \<and> dseg h (Some x) xs n)"

definition dq_repr :: "'n ld_mem \<Rightarrow> 'n dq \<Rightarrow> 'n list \<Rightarrow> bool" where
  "dq_repr h dq xs \<longleftrightarrow> distinct xs \<and> dseg h None xs None \<and>
     dq_front dq = first_or xs None \<and> dq_rear dq = last_or None xs"

definition empty_dq :: "'n dq" where
  "empty_dq = \<lparr>dq_front = None, dq_rear = None\<rparr>"

section \<open>Segments\<close>

lemma set_next_simps [simp]:
  "ld_next (set_next h n v m) = (if m = n then v else ld_next (h m))"
  "ld_prev (set_next h n v m) = ld_prev (h m)"
  "m \<noteq> n \<Longrightarrow> set_next h n v m = h m"
  by (simp_all add: set_next_def)

lemma set_prev_simps [simp]:
  "ld_prev (set_prev h n v m) = (if m = n then v else ld_prev (h m))"
  "ld_next (set_prev h n v m) = ld_next (h m)"
  "m \<noteq> n \<Longrightarrow> set_prev h n v m = h m"
  by (simp_all add: set_prev_def)

lemma dseg_append [simp]:
  "dseg h p (xs @ ys) n \<longleftrightarrow> dseg h p xs (first_or ys n) \<and> dseg h (last_or p xs) ys n"
  by (induction xs arbitrary: p) auto

lemma dseg_cong: "(\<And>x. x \<in> set xs \<Longrightarrow> h' x = h x) \<Longrightarrow> dseg h' p xs n = dseg h p xs n"
  by (induction xs arbitrary: p) auto

lemma dseg_set_next [simp]: "x \<notin> set xs \<Longrightarrow> dseg (set_next h x v) p xs n = dseg h p xs n"
  by (rule dseg_cong) (auto simp: set_next_def)

lemma dseg_set_prev [simp]: "x \<notin> set xs \<Longrightarrow> dseg (set_prev h x v) p xs n = dseg h p xs n"
  by (rule dseg_cong) (auto simp: set_prev_def)

lemma dq_repr_distinct: "dq_repr h dq xs \<Longrightarrow> distinct xs"
  by (simp add: dq_repr_def)

lemma dq_repr_frame:
  "dq_repr h dq xs \<Longrightarrow> (\<And>x. x \<in> set xs \<Longrightarrow> h' x = h x) \<Longrightarrow> dq_repr h' dq xs"
  using dseg_cong [of xs h' h] by (simp add: dq_repr_def)

lemma dq_repr_front: "dq_repr h dq xs \<Longrightarrow> dq_front dq = first_or xs None"
  by (simp add: dq_repr_def)

lemma dq_repr_empty [simp]: "dq_repr h empty_dq []"
  by (simp add: dq_repr_def empty_dq_def)

lemma dq_is_empty_repr: "dq_repr h dq xs \<Longrightarrow> dq_is_empty dq \<longleftrightarrow> xs = []"
  by (simp add: dq_repr_def dq_is_empty_def)

section \<open>Each operation refines a list operation\<close>

lemma dq_pushfront_repr:
  assumes r: "dq_repr h dq xs" and x: "x \<notin> set xs" and e: "dq_pushfront (h, dq) x = (h', dq')"
  shows "dq_repr h' dq' (x # xs) \<and> (\<forall>n. n \<notin> insert x (set xs) \<longrightarrow> h' n = h n)"
proof (cases xs)
  case Nil
  with assms show ?thesis by (auto simp: dq_pushfront_def dq_repr_def Let_def)
next
  case (Cons y ys)
  with assms show ?thesis by (auto simp: dq_pushfront_def dq_repr_def Let_def)
qed

lemma dq_pushback_repr:
  assumes r: "dq_repr h dq xs" and x: "x \<notin> set xs" and e: "dq_pushback (h, dq) x = (h', dq')"
  shows "dq_repr h' dq' (xs @ [x]) \<and> (\<forall>n. n \<notin> insert x (set xs) \<longrightarrow> h' n = h n)"
proof (cases xs rule: rev_cases)
  case Nil
  with assms show ?thesis by (auto simp: dq_pushback_def dq_repr_def Let_def)
next
  case (snoc ys y)
  with assms show ?thesis by (auto simp: dq_pushback_def dq_repr_def Let_def)
qed

lemma dq_dequeue_repr:
  assumes r: "dq_repr h dq (as @ x # bs)" and e: "dq_dequeue (h, dq) x = (h', dq')"
  shows "dq_repr h' dq' (as @ bs) \<and> unlinked h' x \<and> (\<forall>n. n \<notin> set (as @ x # bs) \<longrightarrow> h' n = h n)"
proof (cases as rule: rev_cases)
  case Nil
  with assms show ?thesis
    by (cases bs) (auto simp: dq_dequeue_def dq_repr_def Let_def unlinked_def)
next
  case (snoc cs c)
  with assms show ?thesis
    by (cases bs) (auto simp: dq_dequeue_def dq_repr_def Let_def unlinked_def)
qed

lemma dq_popfront_repr:
  assumes r: "dq_repr h dq (x # xs)" and e: "dq_popfront (h, dq) = (res, h', dq')"
  shows "res = Some x \<and> dq_repr h' dq' xs \<and> unlinked h' x \<and>
     (\<forall>n. n \<notin> set (x # xs) \<longrightarrow> h' n = h n)"
  using assms
  by (cases xs) (auto simp: dq_popfront_def dq_repr_def Let_def unlinked_def)

lemma dq_popfront_empty: "dq_repr h dq [] \<Longrightarrow> dq_popfront (h, dq) = (None, h, dq)"
  by (simp add: dq_popfront_def dq_repr_def)

lemma dq_insert_repr:
  assumes r: "dq_repr h dq (as @ bs)" and x: "x \<notin> set (as @ bs)"
    and e: "dq_insert (h, dq) x (last_or None as) (first_or bs None) = (h', dq')"
  shows "dq_repr h' dq' (as @ x # bs) \<and> (\<forall>n. n \<notin> set (as @ x # bs) \<longrightarrow> h' n = h n)"
proof (cases as rule: rev_cases)
  case Nil
  with assms show ?thesis by (cases bs) (auto simp: dq_insert_def dq_repr_def Let_def)
next
  case (snoc cs c)
  with assms show ?thesis by (cases bs) (auto simp: dq_insert_def dq_repr_def Let_def)
qed

lemma dq_is_queued_repr:
  assumes r: "dq_repr h dq xs" and u: "x \<notin> set xs \<Longrightarrow> unlinked h x"
  shows "dq_is_queued h dq x \<longleftrightarrow> x \<in> set xs"
proof
  assume q: "dq_is_queued h dq x"
  show "x \<in> set xs"
  proof (rule ccontr)
    assume "x \<notin> set xs"
    with q r u show False
      by (cases xs) (auto simp: dq_is_queued_def dq_repr_def unlinked_def)
  qed
next
  assume "x \<in> set xs"
  then obtain as bs where xs: "xs = as @ x # bs" by (meson split_list)
  with r show "dq_is_queued h dq x"
    by (cases as rule: rev_cases) (auto simp: dq_is_queued_def dq_repr_def)
qed

lemma dq_clear_loop_repr:
  "dseg h p xs None \<Longrightarrow> distinct xs \<Longrightarrow>
   \<exists>h'. dq_clear_loop h (first_or xs None) = Some h' \<and> (\<forall>x \<in> set xs. unlinked h' x) \<and>
     (\<forall>n. n \<notin> set xs \<longrightarrow> h' n = h n)"
proof (induction xs arbitrary: h p)
  case Nil
  then show ?case by (simp add: dq_clear_loop.simps)
next
  case (Cons x xs)
  let ?h = "set_next (set_prev h x None) x None"
  from Cons.prems have "dseg ?h (Some x) xs None" by simp
  from Cons.IH [OF this] Cons.prems obtain h' where
    h': "dq_clear_loop ?h (first_or xs None) = Some h'" "\<forall>x \<in> set xs. unlinked h' x"
      "\<forall>n. n \<notin> set xs \<longrightarrow> h' n = ?h n" by auto
  have "unlinked h' x" using h'(3) Cons.prems by (simp add: unlinked_def)
  then show ?case using h' Cons.prems by (auto simp: dq_clear_loop.simps [of h])
qed

lemma dq_clear_repr:
  assumes "dq_repr h dq xs"
  shows "\<exists>h' dq'. dq_clear (h, dq) = Some (h', dq') \<and> dq_repr h' dq' [] \<and>
     (\<forall>x \<in> set xs. unlinked h' x) \<and> (\<forall>n. n \<notin> set xs \<longrightarrow> h' n = h n)"
proof -
  obtain h' where "dq_clear_loop h (dq_front dq) = Some h'" "\<forall>x \<in> set xs. unlinked h' x"
    "\<forall>n. n \<notin> set xs \<longrightarrow> h' n = h n"
    using assms dq_clear_loop_repr [of h None xs] by (auto simp: dq_repr_def)
  then show ?thesis by (auto simp: dq_clear_def dq_repr_def)
qed

section \<open>The contract of a queue of intrusive nodes\<close>

text \<open>
  \<open>repr h d xs\<close> ties a queue to the list of its nodes in the store \<open>h\<close>; \<open>free\<close> tells that a
  node is in no queue. The clients use only these laws. A family \<open>ds\<close> of queues in one store
  holds pairwise disjoint node lists \<open>f\<close>; pushing to or removing from one of them leaves the
  others alone.
\<close>

locale node_queue =
  fixes repr :: "('n \<Rightarrow> 'v) \<Rightarrow> 'd \<Rightarrow> 'n list \<Rightarrow> bool"
    and free :: "('n \<Rightarrow> 'v) \<Rightarrow> 'n \<Rightarrow> bool"
    and pushf :: "('n \<Rightarrow> 'v) \<times> 'd \<Rightarrow> 'n \<Rightarrow> ('n \<Rightarrow> 'v) \<times> 'd"
    and pushb :: "('n \<Rightarrow> 'v) \<times> 'd \<Rightarrow> 'n \<Rightarrow> ('n \<Rightarrow> 'v) \<times> 'd"
    and remove :: "('n \<Rightarrow> 'v) \<times> 'd \<Rightarrow> 'n \<Rightarrow> ('n \<Rightarrow> 'v) \<times> 'd"
    and front :: "'d \<Rightarrow> 'n option"
  assumes repr_distinct: "repr h d xs \<Longrightarrow> distinct xs"
    and repr_frame: "repr h d xs \<Longrightarrow> (\<And>x. x \<in> set xs \<Longrightarrow> h' x = h x) \<Longrightarrow> repr h' d xs"
    and free_local: "h' x = h x \<Longrightarrow> free h' x = free h x"
    and front_repr: "repr h d xs \<Longrightarrow> front d = first_or xs None"
    and pushf_repr: "repr h d xs \<Longrightarrow> x \<notin> set xs \<Longrightarrow> pushf (h, d) x = (h', d') \<Longrightarrow>
      repr h' d' (x # xs) \<and> (\<forall>n. n \<notin> insert x (set xs) \<longrightarrow> h' n = h n)"
    and pushb_repr: "repr h d xs \<Longrightarrow> x \<notin> set xs \<Longrightarrow> pushb (h, d) x = (h', d') \<Longrightarrow>
      repr h' d' (xs @ [x]) \<and> (\<forall>n. n \<notin> insert x (set xs) \<longrightarrow> h' n = h n)"
    and remove_repr: "repr h d xs \<Longrightarrow> x \<in> set xs \<Longrightarrow> remove (h, d) x = (h', d') \<Longrightarrow>
      repr h' d' (remove1 x xs) \<and> free h' x \<and> (\<forall>n. n \<notin> set xs \<longrightarrow> h' n = h n)"
begin

definition fam_repr :: "('n \<Rightarrow> 'v) \<Rightarrow> ('i \<Rightarrow> 'd) \<Rightarrow> ('i \<Rightarrow> 'n list) \<Rightarrow> bool" where
  "fam_repr h ds f \<longleftrightarrow> (\<forall>i. repr h (ds i) (f i)) \<and>
     (\<forall>i j. i \<noteq> j \<longrightarrow> set (f i) \<inter> set (f j) = {})"

lemma fam_reprI:
  assumes fam: "fam_repr h ds f" and own: "repr h' d' xs'"
    and frame: "\<And>n. n \<notin> insert x (set (f i)) \<Longrightarrow> h' n = h n"
    and fresh: "\<And>j. j \<noteq> i \<Longrightarrow> x \<notin> set (f j)" and sub: "set xs' \<subseteq> insert x (set (f i))"
  shows "fam_repr h' (ds(i := d')) (f(i := xs'))"
proof -
  have "repr h' (ds j) (f j)" if j: "j \<noteq> i" for j
  proof (rule repr_frame)
    show "repr h (ds j) (f j)" using fam by (simp add: fam_repr_def)
    fix n assume n: "n \<in> set (f j)"
    moreover have "set (f j) \<inter> set (f i) = {}" using fam j by (simp add: fam_repr_def)
    ultimately show "h' n = h n" using fresh [OF j] by (intro frame) auto
  qed
  moreover have dj: "set (f j) \<inter> set xs' = {}" if "j \<noteq> i" for j
  proof -
    have "set (f j) \<inter> set (f i) = {}" using fam that by (simp add: fam_repr_def)
    then show ?thesis using fresh [OF that] sub by auto
  qed
  moreover have "set xs' \<inter> set (f j) = {}" if "j \<noteq> i" for j using dj [OF that] by blast
  ultimately show ?thesis using own fam by (simp add: fam_repr_def)
qed

lemma fam_pushb:
  assumes "fam_repr h ds f" and "\<And>j. x \<notin> set (f j)" and "pushb (h, ds i) x = (h', d')"
  shows "fam_repr h' (ds(i := d')) (f(i := f i @ [x]))"
    and "\<And>n. n \<notin> insert x (set (f i)) \<Longrightarrow> h' n = h n"
proof -
  have "repr h (ds i) (f i)" using assms(1) by (simp add: fam_repr_def)
  note p = pushb_repr [OF this assms(2,3)]
  then show fr: "\<And>n. n \<notin> insert x (set (f i)) \<Longrightarrow> h' n = h n" by blast
  show "fam_repr h' (ds(i := d')) (f(i := f i @ [x]))"
    using p fr assms by (intro fam_reprI [where x = x]) auto
qed

lemma fam_pushf:
  assumes "fam_repr h ds f" and "\<And>j. x \<notin> set (f j)" and "pushf (h, ds i) x = (h', d')"
  shows "fam_repr h' (ds(i := d')) (f(i := x # f i))"
    and "\<And>n. n \<notin> insert x (set (f i)) \<Longrightarrow> h' n = h n"
proof -
  have "repr h (ds i) (f i)" using assms(1) by (simp add: fam_repr_def)
  note p = pushf_repr [OF this assms(2,3)]
  then show fr: "\<And>n. n \<notin> insert x (set (f i)) \<Longrightarrow> h' n = h n" by blast
  show "fam_repr h' (ds(i := d')) (f(i := x # f i))"
    using p fr assms by (intro fam_reprI [where x = x]) auto
qed

lemma fam_remove:
  assumes "fam_repr h ds f" and "x \<in> set (f i)" and "remove (h, ds i) x = (h', d')"
  shows "fam_repr h' (ds(i := d')) (f(i := remove1 x (f i)))" and "free h' x"
    and "\<And>n. n \<notin> set (f i) \<Longrightarrow> h' n = h n"
proof -
  have "repr h (ds i) (f i)" using assms(1) by (simp add: fam_repr_def)
  note p = remove_repr [OF this assms(2,3)]
  then show "free h' x" and fr: "\<And>n. n \<notin> set (f i) \<Longrightarrow> h' n = h n" by blast+
  have "x \<notin> set (f j)" if "j \<noteq> i" for j using assms(1,2) that by (fastforce simp: fam_repr_def)
  then show "fam_repr h' (ds(i := d')) (f(i := remove1 x (f i)))"
    using p fr assms by (intro fam_reprI [where x = x]) (auto dest: notin_set_remove1)
qed

lemma fam_front: "fam_repr h ds f \<Longrightarrow> front (ds i) = first_or (f i) None"
  using front_repr by (auto simp: fam_repr_def)

lemma fam_distinct: "fam_repr h ds f \<Longrightarrow> distinct (f i)"
  using repr_distinct by (auto simp: fam_repr_def)

lemma fam_frame:
  "fam_repr h ds f \<Longrightarrow> (\<And>i x. x \<in> set (f i) \<Longrightarrow> h' x = h x) \<Longrightarrow> fam_repr h' ds f"
  unfolding fam_repr_def using repr_frame by blast

end

lemma dq_dequeue_remove1:
  assumes "dq_repr h dq xs" "x \<in> set xs" "dq_dequeue (h, dq) x = (h', dq')"
  shows "dq_repr h' dq' (remove1 x xs) \<and> unlinked h' x \<and> (\<forall>n. n \<notin> set xs \<longrightarrow> h' n = h n)"
proof -
  obtain as bs where xs: "xs = as @ x # bs" using assms(2) by (meson split_list)
  then have "remove1 x xs = as @ bs"
    using dq_repr_distinct [OF assms(1)] by (simp add: remove1_append)
  then show ?thesis using dq_dequeue_repr [of h dq as x bs] assms xs by metis
qed

interpretation dqi: node_queue dq_repr unlinked dq_pushfront dq_pushback dq_dequeue dq_front
proof (unfold_locales, goal_cases)
  case (1 h d xs)
  then show ?case by (rule dq_repr_distinct)
next
  case (2 h d xs h')
  then show ?case by (rule dq_repr_frame)
next
  case (3 h' x h)
  then show ?case by (simp add: unlinked_def)
next
  case (4 h d xs)
  then show ?case by (rule dq_repr_front)
next
  case (5 h d xs x h' d')
  then show ?case by (rule dq_pushfront_repr)
next
  case (6 h d xs x h' d')
  then show ?case by (rule dq_pushback_repr)
next
  case (7 h d xs x h' d')
  then show ?case by (rule dq_dequeue_remove1)
qed

end
