(* ===== verification/Twan_Listq.thy ===== *)
theory Twan_Listq
  imports Twan_Dq
begin

text \<open>
  The list queue of \<open>include/lib/dsa/listq.h\<close>, a queue that has no head of its own: its first node knows the last one, the last
  one the first. \<open>listq_repr l xs\<close> says that the nodes \<open>xs\<close> are such a queue in the store \<open>l\<close>; appending, removing a node
  anywhere and removing all of them refine the operations on the list.
\<close>

section \<open>Definitions\<close>

record 'n listq =
  lq_prev :: "'n option"
  lq_next :: "'n option"
  lq_rear :: "'n option"
  lq_front :: "'n option"

type_synonym 'n lq_mem = "'n \<Rightarrow> 'n listq"

definition lq_null :: "'n listq" where
  "lq_null = \<lparr>lq_prev = None, lq_next = None, lq_rear = None, lq_front = None\<rparr>"

definition lq_upd :: "'n \<Rightarrow> ('n listq \<Rightarrow> 'n listq) \<Rightarrow> 'n lq_mem \<Rightarrow> 'n lq_mem" where
  "lq_upd n f l = l(n := f (l n))"

text \<open>An assignment through a pointer; through null it has no result.\<close>

definition lq_via :: "'n option \<Rightarrow> ('n listq \<Rightarrow> 'n listq) \<Rightarrow> 'n lq_mem \<Rightarrow> 'n lq_mem option" where
  "lq_via p f l = map_option (\<lambda>n. lq_upd n f l) p"

definition listq_pushback :: "'n \<Rightarrow> 'n \<Rightarrow> 'n lq_mem \<Rightarrow> 'n lq_mem" where
  "listq_pushback front node l =
     (let l = lq_upd node (\<lambda>_. lq_null) l;
          l = (case lq_rear (l front) of
                 Some rear \<Rightarrow>
                   let l = lq_upd rear (\<lambda>x. x\<lparr>lq_front := None\<rparr>) l;
                       l = lq_upd rear (\<lambda>x. x\<lparr>lq_next := Some node\<rparr>) l
                   in lq_upd node (\<lambda>x. x\<lparr>lq_prev := Some rear\<rparr>) l
               | None \<Rightarrow>
                   let l = lq_upd front (\<lambda>x. x\<lparr>lq_next := Some node\<rparr>) l
                   in lq_upd node (\<lambda>x. x\<lparr>lq_prev := Some front\<rparr>) l);
          l = lq_upd node (\<lambda>x. x\<lparr>lq_front := Some front\<rparr>) l
      in lq_upd front (\<lambda>x. x\<lparr>lq_rear := Some node\<rparr>) l)"

definition listq_disconnect :: "'n \<Rightarrow> 'n lq_mem \<Rightarrow> ('n option \<times> 'n lq_mem) option" where
  "listq_disconnect node l =
     (let prv = lq_prev (l node); nxt = lq_next (l node); rear = lq_rear (l node); front = lq_front (l node)
      in map_option (\<lambda>l. (nxt, lq_upd node (\<lambda>_. lq_null) l))
        (case front of
           Some f \<Rightarrow>
             Option.bind
               (if prv \<noteq> front
                then map_option (lq_upd f (\<lambda>x. x\<lparr>lq_rear := prv\<rparr>)) (lq_via prv (\<lambda>x. x\<lparr>lq_front := front\<rparr>) l)
                else Some (lq_upd f (\<lambda>x. x\<lparr>lq_rear := None\<rparr>) l))
               (lq_via prv (\<lambda>x. x\<lparr>lq_next := None\<rparr>))
         | None \<Rightarrow> (case rear of
             Some r \<Rightarrow>
               Option.bind
                 (if nxt \<noteq> rear
                  then map_option (lq_upd r (\<lambda>x. x\<lparr>lq_front := nxt\<rparr>)) (lq_via nxt (\<lambda>x. x\<lparr>lq_rear := rear\<rparr>) l)
                  else Some (lq_upd r (\<lambda>x. x\<lparr>lq_front := None\<rparr>) l))
                 (lq_via nxt (\<lambda>x. x\<lparr>lq_prev := None\<rparr>))
           | None \<Rightarrow> Some (case nxt of
               Some n \<Rightarrow>
                 (case prv of
                    Some p \<Rightarrow> lq_upd p (\<lambda>x. x\<lparr>lq_next := nxt\<rparr>) (lq_upd n (\<lambda>x. x\<lparr>lq_prev := prv\<rparr>) l)
                  | None \<Rightarrow> lq_upd n (\<lambda>x. x\<lparr>lq_prev := None\<rparr>) l)
             | None \<Rightarrow>
                 (case prv of
                    Some p \<Rightarrow> lq_upd p (\<lambda>x. x\<lparr>lq_next := None\<rparr>) l
                  | None \<Rightarrow> l)))))"

text \<open>The callback \<^verbatim>\<open>func\<close> works on state \<open>'s\<close> besides the list.\<close>

partial_function (option) listq_disconnect_all ::
  "('n \<Rightarrow> 's \<Rightarrow> 's option) \<Rightarrow> 'n option \<Rightarrow> 'n lq_mem \<Rightarrow> 's \<Rightarrow> ('n lq_mem \<times> 's) option" where
  "listq_disconnect_all func front l s =
     (case front of
        None \<Rightarrow> Some (l, s)
      | Some f \<Rightarrow>
          (case func f s of
             None \<Rightarrow> None
           | Some s \<Rightarrow> listq_disconnect_all func (lq_next (l f)) (lq_upd f (\<lambda>_. lq_null) l) s))"

section \<open>What a queue represents\<close>

fun lseg :: "'n lq_mem \<Rightarrow> 'n option \<Rightarrow> 'n list \<Rightarrow> 'n option \<Rightarrow> bool" where
  "lseg l p [] n = True"
| "lseg l p (x # xs) n = (lq_prev (l x) = p \<and> lq_next (l x) = first_or xs n \<and> lseg l (Some x) xs n)"

definition listq_repr :: "'n lq_mem \<Rightarrow> 'n list \<Rightarrow> bool" where
  "listq_repr l xs \<longleftrightarrow> distinct xs \<and> xs \<noteq> [] \<and> lseg l None xs None \<and>
     (\<forall>x \<in> set xs. lq_rear (l x) = (if x = hd xs \<and> x \<noteq> last xs then Some (last xs) else None) \<and>
        lq_front (l x) = (if x = last xs \<and> x \<noteq> hd xs then Some (hd xs) else None))"

lemma lseg_append [simp]:
  "lseg l p (xs @ ys) n \<longleftrightarrow> lseg l p xs (first_or ys n) \<and> lseg l (last_or p xs) ys n"
  by (induction xs arbitrary: p) auto

lemma lseg_cong:
  "(\<And>x. x \<in> set xs \<Longrightarrow> lq_prev (l' x) = lq_prev (l x) \<and> lq_next (l' x) = lq_next (l x)) \<Longrightarrow> lseg l' p xs n = lseg l p xs n"
  by (induction xs arbitrary: p) auto

lemma lseg_upd [simp]: "x \<notin> set xs \<Longrightarrow> lseg (lq_upd x f l) p xs n = lseg l p xs n"
  by (rule lseg_cong) (auto simp: lq_upd_def)

lemma lq_upd_apply [simp]: "lq_upd n f l m = (if m = n then f (l m) else l m)"
  by (simp add: lq_upd_def)

lemma listq_repr_frame: "listq_repr l xs \<Longrightarrow> (\<And>x. x \<in> set xs \<Longrightarrow> l' x = l x) \<Longrightarrow> listq_repr l' xs"
  using lseg_cong [of xs l' l] by (simp add: listq_repr_def)

lemma listq_repr_single [simp]: "listq_repr l [x] \<longleftrightarrow> l x = lq_null"
  by (cases "l x") (auto simp: listq_repr_def lq_null_def)

section \<open>Each operation refines a list operation\<close>

lemma listq_pushback_repr:
  assumes "listq_repr l (x # xs)" and "y \<notin> set (x # xs)"
  shows "listq_repr (listq_pushback x y l) (x # xs @ [y])"
    and "n \<notin> set (x # xs @ [y]) \<Longrightarrow> listq_pushback x y l n = l n"
proof -
  show "listq_repr (listq_pushback x y l) (x # xs @ [y])"
  proof (cases xs rule: rev_cases)
    case Nil
    with assms show ?thesis by (auto simp: listq_repr_def listq_pushback_def lq_null_def Let_def)
  next
    case (snoc zs z)
    with assms show ?thesis by (auto simp: listq_repr_def listq_pushback_def lq_null_def Let_def)
  qed
  show "n \<notin> set (x # xs @ [y]) \<Longrightarrow> listq_pushback x y l n = l n"
    using assms by (cases xs rule: rev_cases) (auto simp: listq_repr_def listq_pushback_def Let_def)
qed

lemma listq_disconnect_repr:
  assumes "listq_repr l (as @ x # bs)"
  shows "\<exists>l'. listq_disconnect x l = Some (first_or bs None, l') \<and> (as @ bs \<noteq> [] \<longrightarrow> listq_repr l' (as @ bs)) \<and>
    l' x = lq_null \<and> (\<forall>n. n \<notin> set (as @ x # bs) \<longrightarrow> l' n = l n)"
proof (cases as rule: rev_cases)
  case Nil
  show ?thesis
  proof (cases bs)
    case Nil
    with \<open>as = []\<close> assms show ?thesis by (auto simp: listq_disconnect_def lq_null_def Let_def)
  next
    case (Cons b ds)
    with \<open>as = []\<close> assms show ?thesis
      by (cases ds rule: rev_cases) (auto simp: listq_repr_def listq_disconnect_def lq_via_def lq_null_def Let_def)
  qed
next
  case as: (snoc cs c)
  show ?thesis
  proof (cases bs)
    case Nil
    with as assms show ?thesis
      by (cases cs) (auto simp: listq_repr_def listq_disconnect_def lq_via_def lq_null_def Let_def)
  next
    case (Cons b ds)
    with as assms show ?thesis
      by (cases cs; cases ds rule: rev_cases) (auto simp: listq_repr_def listq_disconnect_def lq_null_def Let_def)
  qed
qed

lemma listq_disconnect_single: "l x = lq_null \<Longrightarrow> listq_disconnect x l = Some (None, l)"
  by (auto simp: listq_disconnect_def lq_null_def lq_upd_def fun_eq_iff Let_def)

text \<open>Removing all nodes ends, calls the function once for each node, in order, and clears the nodes.\<close>

fun fold_opt :: "('n \<Rightarrow> 's \<Rightarrow> 's option) \<Rightarrow> 'n list \<Rightarrow> 's \<Rightarrow> 's option" where
  "fold_opt func [] s = Some s"
| "fold_opt func (x # xs) s = Option.bind (func x s) (fold_opt func xs)"

lemma fold_opt_append: "fold_opt func (xs @ ys) s = Option.bind (fold_opt func xs s) (fold_opt func ys)"
  by (induction xs arbitrary: s) (auto intro: arg_cong2 [where f = Option.bind])

lemma listq_disconnect_all_seg:
  assumes "lseg l p xs None" and "distinct xs"
  shows "listq_disconnect_all func (first_or xs None) l s =
    map_option (Pair (\<lambda>n. if n \<in> set xs then lq_null else l n)) (fold_opt func xs s)"
  using assms
proof (induction xs arbitrary: l p s)
  case Nil
  then show ?case by (simp add: listq_disconnect_all.simps)
next
  case (Cons x xs)
  show ?case
  proof (cases "func x s")
    case None
    then show ?thesis by (simp add: listq_disconnect_all.simps)
  next
    case (Some s')
    have "(\<lambda>n. if n \<in> set xs then lq_null else lq_upd x (\<lambda>_. lq_null) l n) = (\<lambda>n. if n \<in> set (x # xs) then lq_null else l n)"
      by auto
    moreover have "lseg (lq_upd x (\<lambda>_. lq_null) l) (Some x) xs None" using Cons.prems by simp
    note Cons.IH [OF this, of s']
    ultimately show ?thesis using Cons.prems Some
      by (simp add: listq_disconnect_all.simps [of func "Some x"] del: lq_upd_apply)
  qed
qed

lemma listq_disconnect_all_repr:
  assumes "listq_repr l (x # xs)"
  shows "listq_disconnect_all func (Some x) l s =
    map_option (Pair (\<lambda>n. if n \<in> set (x # xs) then lq_null else l n)) (fold_opt func (x # xs) s)"
  using listq_disconnect_all_seg [of l None "x # xs" func s] assms by (simp add: listq_repr_def)

end
