(* ===== verification/Twan_Avl.thy ===== *)
theory Twan_Avl
  imports Twan_Listq "HOL-Library.Tree"
begin

text \<open>
  The balanced tree of \<open>include/lib/dsa/linked_tree.h\<close>, \<open>include/lib/dsa/avl_tree.h\<close> and \<open>src/lib/dsa/avl_tree.c\<close>, on an explicit
  store of nodes. The word \<^verbatim>\<open>data\<close> of a node has its height in the upper half and its key in the lower one. A step through a
  null pointer, or past the end of the array \<^verbatim>\<open>path\<close>, has no result.
\<close>

section \<open>Definitions: nodes\<close>

record 'n tree_node =
  tn_data :: u64
  tn_left :: "'n option"
  tn_right :: "'n option"
  tn_parent :: "'n option"

record 'n avl_tree =
  at_root :: "'n option"
  at_max_path :: u32

type_synonym 'n tn_mem = "'n \<Rightarrow> 'n tree_node"

definition tn_null :: "'n tree_node" where
  "tn_null = \<lparr>tn_data = 0, tn_left = None, tn_right = None, tn_parent = None\<rparr>"

definition tn_upd :: "'n \<Rightarrow> ('n tree_node \<Rightarrow> 'n tree_node) \<Rightarrow> 'n tn_mem \<Rightarrow> 'n tn_mem" where
  "tn_upd n f h = h(n := f (h n))"

text \<open>\<^verbatim>\<open>if (p) p->parent = v\<close>\<close>

definition tn_set_parent :: "'n option \<Rightarrow> 'n option \<Rightarrow> 'n tn_mem \<Rightarrow> 'n tn_mem" where
  "tn_set_parent p v h = (case p of None \<Rightarrow> h | Some n \<Rightarrow> tn_upd n (\<lambda>x. x\<lparr>tn_parent := v\<rparr>) h)"

definition avl_tree_node_key :: "'n tn_mem \<Rightarrow> 'n \<Rightarrow> u32" where
  "avl_tree_node_key h n = ucast (tn_data (h n) AND 0xffffffff)"

definition avl_tree_node_height :: "'n tn_mem \<Rightarrow> 'n \<Rightarrow> u64" where
  "avl_tree_node_height h n = drop_bit 32 (tn_data (h n))"

text \<open>\<^verbatim>\<open>__builtin_clz\<close> of a value that is not zero.\<close>

definition clz32 :: "u32 \<Rightarrow> nat" where
  "clz32 v = length (takeWhile (\<lambda>i. \<not> bit v i) (rev [0..<32]))"

definition log2_ceil32 :: "u32 \<Rightarrow> u32" where
  "log2_ceil32 x = (if x \<le> 1 then 0 else 32 - of_nat (clz32 (x - 1)))"

definition avl_tree_max_path :: "u32 \<Rightarrow> u32" where
  "avl_tree_max_path num_nodes = (if num_nodes \<noteq> 0 then (log2_ceil32 num_nodes * 3) div 2 + 2 else 0)"

definition avl_height :: "'n tn_mem \<Rightarrow> 'n option \<Rightarrow> u64" where
  "avl_height h p = (case p of None \<Rightarrow> 0 | Some n \<Rightarrow> avl_tree_node_height h n)"

definition avl_tree_init :: "'n avl_tree \<Rightarrow> u32 \<Rightarrow> 'n avl_tree" where
  "avl_tree_init tree max_path = tree\<lparr>at_root := None, at_max_path := max_path\<rparr>"

text \<open>The difference of the heights is computed in 64 bits and cut to an \<^verbatim>\<open>int\<close>.\<close>

definition avl_balance_factor :: "'n tn_mem \<Rightarrow> 'n option \<Rightarrow> int" where
  "avl_balance_factor h p = (case p of
     None \<Rightarrow> 0
   | Some n \<Rightarrow> sint (ucast (avl_height h (tn_left (h n)) - avl_height h (tn_right (h n))) :: u32))"

text \<open>The assignment replaces the whole word, the key included.\<close>

definition avl_update_height :: "'n \<Rightarrow> 'n tn_mem \<Rightarrow> 'n tn_mem" where
  "avl_update_height n h =
     tn_upd n (\<lambda>x. x\<lparr>tn_data := push_bit 32 (max (avl_height h (tn_left x)) (avl_height h (tn_right x)) + 1)\<rparr>) h"

section \<open>Definitions: rotations and searches\<close>

definition avl_rotate_right :: "'n \<Rightarrow> 'n tn_mem \<Rightarrow> ('n \<times> 'n tn_mem) option" where
  "avl_rotate_right node h =
     (case tn_left (h node) of
        None \<Rightarrow> None
      | Some left_child \<Rightarrow>
          let left_child_right = tn_right (h left_child);
              h = tn_upd left_child (\<lambda>x. x\<lparr>tn_right := Some node\<rparr>) h;
              h = tn_upd node (\<lambda>x. x\<lparr>tn_left := left_child_right\<rparr>) h;
              h = tn_upd left_child (\<lambda>x. x\<lparr>tn_parent := tn_parent (h node)\<rparr>) h;
              h = tn_upd node (\<lambda>x. x\<lparr>tn_parent := Some left_child\<rparr>) h;
              h = tn_set_parent left_child_right (Some node) h;
              h = avl_update_height node h;
              h = avl_update_height left_child h
          in Some (left_child, h))"

definition avl_rotate_left :: "'n \<Rightarrow> 'n tn_mem \<Rightarrow> ('n \<times> 'n tn_mem) option" where
  "avl_rotate_left node h =
     (case tn_right (h node) of
        None \<Rightarrow> None
      | Some right_child \<Rightarrow>
          let right_child_left = tn_left (h right_child);
              h = tn_upd right_child (\<lambda>x. x\<lparr>tn_left := Some node\<rparr>) h;
              h = tn_upd node (\<lambda>x. x\<lparr>tn_right := right_child_left\<rparr>) h;
              h = tn_upd right_child (\<lambda>x. x\<lparr>tn_parent := tn_parent (h node)\<rparr>) h;
              h = tn_upd node (\<lambda>x. x\<lparr>tn_parent := Some right_child\<rparr>) h;
              h = tn_set_parent right_child_left (Some node) h;
              h = avl_update_height node h;
              h = avl_update_height right_child h
          in Some (right_child, h))"

partial_function (option) avl_highest_from :: "'n tn_mem \<Rightarrow> 'n \<Rightarrow> 'n option" where
  "avl_highest_from h cur = (case tn_right (h cur) of None \<Rightarrow> Some cur | Some r \<Rightarrow> avl_highest_from h r)"

text \<open>The outer option is that of an endless loop.\<close>

definition avl_find_highest :: "'n tn_mem \<Rightarrow> 'n avl_tree \<Rightarrow> 'n option option" where
  "avl_find_highest h tree = (case at_root tree of None \<Rightarrow> Some None | Some root \<Rightarrow> map_option Some (avl_highest_from h root))"

partial_function (option) avl_search_from :: "'n tn_mem \<Rightarrow> u32 \<Rightarrow> 'n option \<Rightarrow> 'n option option" where
  "avl_search_from h key cur = (case cur of
     None \<Rightarrow> Some None
   | Some c \<Rightarrow> if avl_tree_node_key h c = key then Some cur
       else if avl_tree_node_key h c > key then avl_search_from h key (tn_left (h c))
       else avl_search_from h key (tn_right (h c)))"

definition avl_search :: "'n tn_mem \<Rightarrow> 'n avl_tree \<Rightarrow> u32 \<Rightarrow> 'n option option" where
  "avl_search h tree key = avl_search_from h key (at_root tree)"

section \<open>Definitions: insertion\<close>

text \<open>What the descent of \<^verbatim>\<open>avl_insert\<close> ends with: the path is full, a node with the key, or the place below the last node of
  the path. \<open>room\<close> is the number of free entries of the array \<^verbatim>\<open>path\<close>, which is kept with its last entry first.\<close>

datatype 'n avl_place = PATH_FULL | DUPLICATE 'n | LEAF "'n list"

fun avl_descend :: "'n tn_mem \<Rightarrow> nat \<Rightarrow> u32 \<Rightarrow> 'n option \<Rightarrow> 'n list \<Rightarrow> 'n avl_place" where
  "avl_descend h room key None path = LEAF path"
| "avl_descend h 0 key (Some cur) path = PATH_FULL"
| "avl_descend h (Suc room) key (Some cur) path =
     (let cur_key = avl_tree_node_key h cur in
      if cur_key > key then avl_descend h room key (tn_left (h cur)) (cur # path)
      else if cur_key < key then avl_descend h room key (tn_right (h cur)) (cur # path)
      else DUPLICATE cur)"

text \<open>The end of the body of both rebalancing loops: the new subtree takes the place of \<^verbatim>\<open>path_node\<close>.\<close>

definition avl_attach :: "'n \<Rightarrow> 'n option \<Rightarrow> 'n option \<Rightarrow> 'n tn_mem \<times> 'n avl_tree \<Rightarrow> 'n tn_mem \<times> 'n avl_tree" where
  "avl_attach path_node path_node_parent new_subtree = (\<lambda>(h, tree).
     case new_subtree of
       None \<Rightarrow> (h, tree)
     | Some new \<Rightarrow>
         (case path_node_parent of
            Some p \<Rightarrow>
              let h = (if tn_left (h p) = Some path_node then tn_upd p (\<lambda>x. x\<lparr>tn_left := Some new\<rparr>) h
                       else tn_upd p (\<lambda>x. x\<lparr>tn_right := Some new\<rparr>) h)
              in (tn_upd new (\<lambda>x. x\<lparr>tn_parent := Some p\<rparr>) h, tree)
          | None \<Rightarrow> (tn_upd new (\<lambda>x. x\<lparr>tn_parent := None\<rparr>) h, tree\<lparr>at_root := Some new\<rparr>)))"

text \<open>The two double rotations.\<close>

definition avl_rotate_left_right :: "'n \<Rightarrow> 'n \<Rightarrow> 'n tn_mem \<Rightarrow> ('n \<times> 'n tn_mem) option" where
  "avl_rotate_left_right node child h = (case avl_rotate_left child h of
     None \<Rightarrow> None
   | Some (c, h) \<Rightarrow> avl_rotate_right node (tn_upd node (\<lambda>x. x\<lparr>tn_left := Some c\<rparr>) h))"

definition avl_rotate_right_left :: "'n \<Rightarrow> 'n \<Rightarrow> 'n tn_mem \<Rightarrow> ('n \<times> 'n tn_mem) option" where
  "avl_rotate_right_left node child h = (case avl_rotate_right child h of
     None \<Rightarrow> None
   | Some (c, h) \<Rightarrow> avl_rotate_left node (tn_upd node (\<lambda>x. x\<lparr>tn_right := Some c\<rparr>) h))"

definition avl_insert_rotate :: "u32 \<Rightarrow> 'n \<Rightarrow> 'n tn_mem \<Rightarrow> ('n option \<times> 'n tn_mem) option" where
  "avl_insert_rotate key node h =
     (let balance_factor = avl_balance_factor h (Some node) in
      if balance_factor > 1 then
        (case tn_left (h node) of
           None \<Rightarrow> None
         | Some l \<Rightarrow> map_option (apfst Some)
             (if key > avl_tree_node_key h l then avl_rotate_left_right node l h else avl_rotate_right node h))
      else if balance_factor < - 1 then
        (case tn_right (h node) of
           None \<Rightarrow> None
         | Some r \<Rightarrow> map_option (apfst Some)
             (if key < avl_tree_node_key h r then avl_rotate_right_left node r h else avl_rotate_left node h))
      else Some (None, h))"

fun avl_insert_loop :: "u32 \<Rightarrow> 'n list \<Rightarrow> 'n tn_mem \<times> 'n avl_tree \<Rightarrow> ('n tn_mem \<times> 'n avl_tree) option" where
  "avl_insert_loop key [] s = Some s"
| "avl_insert_loop key (node # path) s =
     (case avl_insert_rotate key node (avl_update_height node (fst s)) of
        None \<Rightarrow> None
      | Some (new, h) \<Rightarrow> avl_insert_loop key path (avl_attach node (first_or path None) new (h, snd s)))"

text \<open>The result is the returned flag with \<^verbatim>\<open>*duplicate\<close>, and the tree.\<close>

definition avl_insert ::
  "'n \<Rightarrow> u32 \<Rightarrow> 'n tn_mem \<times> 'n avl_tree \<Rightarrow> ((bool \<times> 'n option) \<times> 'n tn_mem \<times> 'n avl_tree) option" where
  "avl_insert node key = (\<lambda>(h, tree).
     let h = tn_upd node (\<lambda>x. x\<lparr>tn_data := push_bit 32 1 OR ucast key, tn_left := None, tn_right := None, tn_parent := None\<rparr>) h
     in if at_root tree = None then Some ((True, None), h, tree\<lparr>at_root := Some node\<rparr>)
        else case avl_descend h (unat (at_max_path tree)) key (at_root tree) [] of
          PATH_FULL \<Rightarrow> Some ((False, None), h, tree)
        | DUPLICATE d \<Rightarrow> Some ((False, Some d), h, tree)
        | LEAF path \<Rightarrow>
            (case path of
               [] \<Rightarrow> None
             | parent # _ \<Rightarrow>
                 let h = (if key < avl_tree_node_key h parent then tn_upd parent (\<lambda>x. x\<lparr>tn_left := Some node\<rparr>) h
                          else tn_upd parent (\<lambda>x. x\<lparr>tn_right := Some node\<rparr>) h);
                     h = tn_upd node (\<lambda>x. x\<lparr>tn_parent := Some parent\<rparr>) h
                 in map_option (Pair (True, None)) (avl_insert_loop key path (h, tree))))"

section \<open>Definitions: removal\<close>

text \<open>The search of \<^verbatim>\<open>avl_remove\<close> does not check the room in the array. The path is in its own order here.\<close>

fun avl_remove_search ::
  "'n tn_mem \<Rightarrow> nat \<Rightarrow> u32 \<Rightarrow> 'n option \<Rightarrow> 'n list \<Rightarrow> ('n option \<times> 'n list) option" where
  "avl_remove_search h room key None path = Some (None, path)"
| "avl_remove_search h 0 key (Some cur) path = None"
| "avl_remove_search h (Suc room) key (Some cur) path =
     (let cur_key = avl_tree_node_key h cur in
      if cur_key = key then Some (Some cur, path @ [cur])
      else if cur_key > key then avl_remove_search h room key (tn_left (h cur)) (path @ [cur])
      else avl_remove_search h room key (tn_right (h cur)) (path @ [cur]))"

fun avl_successor :: "'n tn_mem \<Rightarrow> nat \<Rightarrow> 'n \<Rightarrow> 'n \<Rightarrow> 'n list \<Rightarrow> ('n \<times> 'n \<times> 'n list) option" where
  "avl_successor h 0 succ_parent s path = (if tn_left (h s) = None then Some (succ_parent, s, path) else None)"
| "avl_successor h (Suc room) succ_parent s path = (case tn_left (h s) of
     None \<Rightarrow> Some (succ_parent, s, path)
   | Some l \<Rightarrow> avl_successor h room s l (path @ [s]))"

text \<open>The link from the parent, or from the tree, to \<open>node\<close> becomes a link to \<open>child\<close>.\<close>

definition avl_relink :: "'n option \<Rightarrow> 'n \<Rightarrow> 'n option \<Rightarrow> 'n tn_mem \<times> 'n avl_tree \<Rightarrow> 'n tn_mem \<times> 'n avl_tree" where
  "avl_relink parent node child = (\<lambda>(h, tree). case parent of
     None \<Rightarrow> (h, tree\<lparr>at_root := child\<rparr>)
   | Some p \<Rightarrow> (if tn_left (h p) = Some node then tn_upd p (\<lambda>x. x\<lparr>tn_left := child\<rparr>) h
                else tn_upd p (\<lambda>x. x\<lparr>tn_right := child\<rparr>) h, tree))"

definition avl_remove_rotate :: "'n \<Rightarrow> 'n tn_mem \<Rightarrow> ('n option \<times> 'n tn_mem) option" where
  "avl_remove_rotate node h =
     (let balance_factor = avl_balance_factor h (Some node) in
      if balance_factor > 1 then
        map_option (apfst Some)
          (case tn_left (h node) of
             Some l \<Rightarrow> if avl_balance_factor h (Some l) < 0 then avl_rotate_left_right node l h else avl_rotate_right node h
           | None \<Rightarrow> None)
      else if balance_factor < - 1 then
        map_option (apfst Some)
          (case tn_right (h node) of
             Some r \<Rightarrow> if avl_balance_factor h (Some r) > 0 then avl_rotate_right_left node r h else avl_rotate_left node h
           | None \<Rightarrow> None)
      else Some (None, h))"

fun avl_remove_loop :: "'n list \<Rightarrow> 'n tn_mem \<times> 'n avl_tree \<Rightarrow> ('n tn_mem \<times> 'n avl_tree) option" where
  "avl_remove_loop [] s = Some s"
| "avl_remove_loop (node # path) s =
     (case avl_remove_rotate node (avl_update_height node (fst s)) of
        None \<Rightarrow> None
      | Some (new, h) \<Rightarrow> avl_remove_loop path (avl_attach node (first_or path None) new (h, snd s)))"

text \<open>Unlinking a node with at most one child, and one with two, which its successor replaces: the tree and the path.\<close>

definition avl_unlink_one ::
  "'n \<Rightarrow> 'n list \<Rightarrow> 'n tn_mem \<times> 'n avl_tree \<Rightarrow> ('n tn_mem \<times> 'n avl_tree) \<times> 'n list" where
  "avl_unlink_one node path = (\<lambda>(h, tree).
     let child = (if tn_left (h node) \<noteq> None then tn_left (h node) else tn_right (h node));
         parent = tn_parent (h node);
         (h, tree) = avl_relink parent node child (h, tree)
     in ((tn_set_parent child parent h, tree), butlast path))"

definition avl_unlink_two ::
  "'n \<Rightarrow> 'n \<Rightarrow> 'n list \<Rightarrow> 'n tn_mem \<times> 'n avl_tree \<Rightarrow> (('n tn_mem \<times> 'n avl_tree) \<times> 'n list) option" where
  "avl_unlink_two node r path = (\<lambda>(h, tree).
     let parent = tn_parent (h node); succ_path_start = length path
     in case avl_successor h (unat (at_max_path tree) - length path) node r path of
          None \<Rightarrow> None
        | Some (succ_parent, s, path) \<Rightarrow>
            let h = tn_upd s (\<lambda>x. x\<lparr>tn_left := tn_left (h node)\<rparr>) h;
                h = tn_set_parent (tn_left (h node)) (Some s) h;
                h = (if succ_parent \<noteq> node then
                       let h = tn_upd succ_parent (\<lambda>x. x\<lparr>tn_left := tn_right (h s)\<rparr>) h;
                           h = tn_set_parent (tn_right (h s)) (Some succ_parent) h;
                           h = tn_upd s (\<lambda>x. x\<lparr>tn_right := tn_right (h node)\<rparr>) h
                       in tn_set_parent (tn_right (h node)) (Some s) h
                     else h);
                (h, tree) = avl_relink parent node (Some s) (h, tree);
                h = tn_upd s (\<lambda>x. x\<lparr>tn_parent := parent\<rparr>) h;
                path' = path[succ_path_start - 1 := s]
            in Some ((h, tree), if succ_path_start < length path then butlast path' else path'))"

definition avl_remove :: "'n \<Rightarrow> 'n tn_mem \<times> 'n avl_tree \<Rightarrow> (bool \<times> 'n tn_mem \<times> 'n avl_tree) option" where
  "avl_remove node = (\<lambda>(h, tree).
     if at_root tree = None then Some (False, h, tree)
     else case avl_remove_search h (unat (at_max_path tree)) (avl_tree_node_key h node) (at_root tree) [] of
       None \<Rightarrow> None
     | Some (None, _) \<Rightarrow> Some (False, h, tree)
     | Some (Some cur, path) \<Rightarrow>
         (case (if tn_left (h node) = None \<or> tn_right (h node) = None then Some (avl_unlink_one node path (h, tree))
                else avl_unlink_two node (the (tn_right (h node))) path (h, tree)) of
            None \<Rightarrow> None
          | Some ((h, tree), path) \<Rightarrow>
              map_option (Pair True) (avl_remove_loop (rev path) (tn_upd node (\<lambda>_. tn_null) h, tree))))"

definition avl_replace :: "'n \<Rightarrow> 'n \<Rightarrow> 'n tn_mem \<times> 'n avl_tree \<Rightarrow> 'n tn_mem \<times> 'n avl_tree" where
  "avl_replace dest src = (\<lambda>(h, tree).
     let parent = tn_parent (h dest);
         h = tn_upd src (\<lambda>x. x\<lparr>tn_data := tn_data (h dest)\<rparr>) h;
         h = tn_upd src (\<lambda>x. x\<lparr>tn_left := tn_left (h dest)\<rparr>) h;
         h = tn_upd src (\<lambda>x. x\<lparr>tn_right := tn_right (h dest)\<rparr>) h;
         h = tn_upd src (\<lambda>x. x\<lparr>tn_parent := parent\<rparr>) h;
         h = tn_set_parent (tn_left (h src)) (Some src) h;
         h = tn_set_parent (tn_right (h src)) (Some src) h;
         (h, tree) = avl_relink parent dest (Some src) (h, tree)
     in (tn_upd dest (\<lambda>_. tn_null) h, tree))"

definition avl_is_queued :: "'n tn_mem \<Rightarrow> 'n avl_tree \<Rightarrow> 'n \<Rightarrow> bool" where
  "avl_is_queued h tree src \<longleftrightarrow> tn_parent (h src) \<noteq> None \<or> at_root tree = Some src"

text \<open>The two loops of \<^verbatim>\<open>avl_remove_all\<close> as one: push as long as \<^verbatim>\<open>cur\<close> is a node, then pop. The callback works on the state
  besides the tree.\<close>

partial_function (option) avl_remove_all_loop ::
  "('n \<Rightarrow> 's \<Rightarrow> 's option) \<Rightarrow> nat \<Rightarrow> 'n list \<Rightarrow> 'n option \<Rightarrow> 'n tn_mem \<Rightarrow> 's \<Rightarrow> ('n tn_mem \<times> 's) option" where
  "avl_remove_all_loop func max_path stack cur h s =
     (case cur of
        Some c \<Rightarrow> if length stack = max_path then None
          else avl_remove_all_loop func max_path (c # stack) (tn_right (h c)) h s
      | None \<Rightarrow> (case stack of
          [] \<Rightarrow> Some (h, s)
        | c # stack \<Rightarrow> (case func c s of
            None \<Rightarrow> None
          | Some s \<Rightarrow> avl_remove_all_loop func max_path stack (tn_left (h c)) (tn_upd c (\<lambda>_. tn_null) h) s)))"

definition avl_remove_all ::
  "('n \<Rightarrow> 's \<Rightarrow> 's option) \<Rightarrow> 'n tn_mem \<times> 'n avl_tree \<Rightarrow> 's \<Rightarrow> (('n tn_mem \<times> 'n avl_tree) \<times> 's) option" where
  "avl_remove_all func = (\<lambda>(h, tree) s.
     map_option (\<lambda>(h, s). ((h, tree\<lparr>at_root := None\<rparr>), s))
       (avl_remove_all_loop func (unat (at_max_path tree)) [] (at_root tree) h s))"

section \<open>Trees in the store\<close>

fun tree_at :: "'n tn_mem \<Rightarrow> 'n option \<Rightarrow> 'n option \<Rightarrow> 'n tree \<Rightarrow> bool" where
  "tree_at h parent p Leaf = (p = None)"
| "tree_at h parent p (Node l x r) = (p = Some x \<and> tn_parent (h x) = parent \<and>
     tree_at h (Some x) (tn_left (h x)) l \<and> tree_at h (Some x) (tn_right (h x)) r)"

lemma tn_upd_apply [simp]: "tn_upd n f h m = (if m = n then f (h m) else h m)"
  by (simp add: tn_upd_def)

lemma tn_set_parent_simps [simp]:
  "tn_data (tn_set_parent p v h n) = tn_data (h n)" "tn_left (tn_set_parent p v h n) = tn_left (h n)"
  "tn_right (tn_set_parent p v h n) = tn_right (h n)"
  "tn_parent (tn_set_parent p v h n) = (if p = Some n then v else tn_parent (h n))"
  "tn_set_parent None v h = h"
  by (simp_all add: tn_set_parent_def split: option.splits)

lemma tree_at_cong:
  assumes "\<And>x. x \<in> set_tree t \<Longrightarrow> tn_left (h' x) = tn_left (h x) \<and> tn_right (h' x) = tn_right (h x) \<and> tn_parent (h' x) = tn_parent (h x)"
  shows "tree_at h' parent p t = tree_at h parent p t"
  using assms by (induction t arbitrary: parent p) auto

lemma tree_at_root: "tree_at h parent p t \<Longrightarrow> p = None \<longleftrightarrow> t = Leaf"
  by (cases t) auto

section \<open>Removing all nodes\<close>

text \<open>What the loop does with the tree below \<open>cur\<close>, for any stack that leaves room for its height.\<close>

lemma avl_remove_all_loop_tree:
  assumes "tree_at h parent p t" and "distinct (inorder t)" and "length stack + height t \<le> max_path"
  shows "avl_remove_all_loop func max_path stack p h s =
    Option.bind (fold_opt func (rev (inorder t)) s)
      (avl_remove_all_loop func max_path stack None (\<lambda>n. if n \<in> set_tree t then tn_null else h n))"
  using assms
proof (induction t arbitrary: parent p stack h s)
  case Leaf
  then show ?case by simp
next
  case (Node l x r)
  let ?h1 = "\<lambda>n. if n \<in> set_tree r then tn_null else h n"
  let ?h2 = "tn_upd x (\<lambda>_. tn_null) ?h1"
  have x: "x \<notin> set_tree l" "x \<notin> set_tree r" "set_tree l \<inter> set_tree r = {}" using Node.prems(2) by auto
  have l: "tree_at ?h2 (Some x) (tn_left (h x)) l"
    using Node.prems(1) x by (subst tree_at_cong [of l ?h2 h]) auto
  have h: "(\<lambda>n. if n \<in> set_tree l then tn_null else ?h2 n) = (\<lambda>n. if n \<in> set_tree (Node l x r) then tn_null else h n)"
    by auto
  have "avl_remove_all_loop func max_path stack p h s = avl_remove_all_loop func max_path (x # stack) (tn_right (h x)) h s"
    using Node.prems by (subst avl_remove_all_loop.simps) auto
  also have "\<dots> = Option.bind (fold_opt func (rev (inorder r)) s) (avl_remove_all_loop func max_path (x # stack) None ?h1)"
    using Node.prems by (intro Node.IH(2) [of h "Some x"]) auto
  also have "avl_remove_all_loop func max_path (x # stack) None ?h1 =
      (\<lambda>s. Option.bind (func x s) (avl_remove_all_loop func max_path stack (tn_left (h x)) ?h2))"
    using x by (intro ext, subst avl_remove_all_loop.simps) (auto split: option.splits)
  also have "avl_remove_all_loop func max_path stack (tn_left (h x)) ?h2 =
      (\<lambda>s. Option.bind (fold_opt func (rev (inorder l)) s)
        (avl_remove_all_loop func max_path stack None (\<lambda>n. if n \<in> set_tree l then tn_null else ?h2 n)))"
    using Node.prems by (intro ext Node.IH(1) [OF l]) auto
  finally show ?case unfolding h by (simp add: fold_opt_append)
qed

lemma avl_remove_all_tree:
  assumes "tree_at h None (at_root tree) t" and "distinct (inorder t)" and "height t \<le> unat (at_max_path tree)"
  shows "avl_remove_all func (h, tree) s =
    map_option (Pair (\<lambda>n. if n \<in> set_tree t then tn_null else h n, tree\<lparr>at_root := None\<rparr>)) (fold_opt func (rev (inorder t)) s)"
proof -
  have "avl_remove_all_loop func m [] None h s = Some (h, s)" for m h s by (subst avl_remove_all_loop.simps) simp
  then show ?thesis using avl_remove_all_loop_tree [OF assms(1,2), of "[]" "unat (at_max_path tree)" func s] assms(3)
    by (cases "fold_opt func (rev (inorder t)) s") (auto simp: avl_remove_all_def)
qed

text \<open>C9: Removing all nodes ends on every tree that the array \<^verbatim>\<open>stack\<close> has room for, calls the function for each node once,
  from the rightmost to the leftmost, and leaves an empty tree and cleared nodes; it has no result only if a call has none.\<close>

theorem avl_remove_all_terminates:
  assumes "tree_at h None (at_root tree) t" and "distinct (inorder t)" and "height t \<le> unat (at_max_path tree)"
    and "\<And>x s. func x s \<noteq> None"
  shows "\<exists>s'. fold_opt func (rev (inorder t)) s = Some s' \<and>
    avl_remove_all func (h, tree) s = Some ((\<lambda>n. if n \<in> set_tree t then tn_null else h n, tree\<lparr>at_root := None\<rparr>), s')"
proof -
  have "\<exists>s'. fold_opt func xs s = Some s'" for xs
  proof (induction xs arbitrary: s)
    case (Cons x xs)
    then show ?case using assms(4) [of x s] by auto
  qed simp
  then show ?thesis using avl_remove_all_tree [OF assms(1-3), of func s] by auto
qed

text \<open>Node 2 with the children 1 and 3.\<close>

definition three_nodes :: "nat tn_mem" where
  "three_nodes = (\<lambda>_. tn_null)(2 := \<lparr>tn_data = 0x200000002, tn_left = Some 1, tn_right = Some 3, tn_parent = None\<rparr>,
     1 := \<lparr>tn_data = 0x100000001, tn_left = None, tn_right = None, tn_parent = Some 2\<rparr>,
     3 := \<lparr>tn_data = 0x100000003, tn_left = None, tn_right = None, tn_parent = Some 2\<rparr>)"

theorem avl_remove_all_terminates_witness:
  "\<exists>h. avl_remove_all (\<lambda>x s. Some (s @ [x])) (three_nodes, \<lparr>at_root = Some 2, at_max_path = 14\<rparr>) [] =
    Some ((h, \<lparr>at_root = None, at_max_path = 14\<rparr>), [3, 2, 1])"
  using avl_remove_all_terminates [of three_nodes "\<lparr>at_root = Some 2, at_max_path = 14\<rparr>" "Node (Node Leaf 1 Leaf) 2 (Node Leaf 3 Leaf)"
      "\<lambda>x s. Some (s @ [x])" "[]"]
  by (simp add: three_nodes_def)

end
