(* ===== verification/Twan_Flatq.thy ===== *)
theory Twan_Flatq
  imports Twan_Avl
begin

text \<open>
  The priority queue of waiting tasks, \<open>include/lib/dsa/flat_priorityq.h\<close>: a balanced tree with one node per priority, and behind
  each node of the tree the list of the other nodes of its priority. For nodes of one priority the queue is first in, first
  out; for several priorities it is not a priority queue, since updating a height erases the key.
\<close>

section \<open>Definitions\<close>

record 'n flat_mem =
  fm_tree :: "'n tn_mem"
  fm_list :: "'n lq_mem"

type_synonym 'n flat = "'n flat_mem \<times> 'n avl_tree"

definition on_tree :: "('n tn_mem \<times> 'n avl_tree \<Rightarrow> ('r \<times> 'n tn_mem \<times> 'n avl_tree) option) \<Rightarrow> 'n flat \<Rightarrow> ('r \<times> 'n flat) option" where
  "on_tree f = (\<lambda>(m, tree). map_option (\<lambda>(r, h, tree). (r, m\<lparr>fm_tree := h\<rparr>, tree)) (f (fm_tree m, tree)))"

definition INITIALIZE_FLAT_PRIORITYQ :: "'n avl_tree" where
  "INITIALIZE_FLAT_PRIORITYQ = \<lparr>at_root = None, at_max_path = avl_tree_max_path 256\<rparr>"

definition flat_priorityq_init :: "'n flat \<Rightarrow> 'n flat" where
  "flat_priorityq_init = (\<lambda>(m, tree). (m, avl_tree_init tree (avl_tree_max_path 256)))"

text \<open>When the path is full, the pointer to the duplicate is null and the list is at an address near zero.\<close>

definition flat_priorityq_insert :: "'n \<Rightarrow> u8 \<Rightarrow> 'n flat \<Rightarrow> 'n flat option" where
  "flat_priorityq_insert node priority q =
     (case on_tree (avl_insert node (ucast priority)) q of
        None \<Rightarrow> None
      | Some ((True, _), q) \<Rightarrow> Some q
      | Some ((False, None), q) \<Rightarrow> None
      | Some ((False, Some duplicate), (m, tree)) \<Rightarrow>
          Some (m\<lparr>fm_list := listq_pushback duplicate node (fm_list m)\<rparr>, tree))"

definition flat_priorityq_dequeue :: "'n \<Rightarrow> 'n flat \<Rightarrow> 'n flat option" where
  "flat_priorityq_dequeue node = (\<lambda>(m, tree).
     case listq_disconnect node (fm_list m) of
       None \<Rightarrow> None
     | Some (listq_next, l) \<Rightarrow>
         let m = m\<lparr>fm_list := l\<rparr> in
         if avl_is_queued (fm_tree m) tree node then
           (case listq_next of
              None \<Rightarrow> map_option snd (on_tree (avl_remove node) (m, tree))
            | Some next_node \<Rightarrow>
                let (h, tree) = avl_replace node next_node (fm_tree m, tree) in Some (m\<lparr>fm_tree := h\<rparr>, tree))
         else Some (m, tree))"

definition flat_priorityq_popfront :: "'n flat \<Rightarrow> ('n option \<times> 'n flat) option" where
  "flat_priorityq_popfront = (\<lambda>(m, tree).
     case avl_find_highest (fm_tree m) tree of
       None \<Rightarrow> None
     | Some None \<Rightarrow> Some (None, m, tree)
     | Some (Some node) \<Rightarrow> map_option (Pair (Some node)) (flat_priorityq_dequeue node (m, tree)))"

definition flat_priorityq_is_queued :: "'n flat \<Rightarrow> 'n \<Rightarrow> bool" where
  "flat_priorityq_is_queued = (\<lambda>(m, tree) node. avl_is_queued (fm_tree m) tree node \<or> lq_prev (fm_list m node) \<noteq> None)"

text \<open>\<^verbatim>\<open>flat_priorityq_avl_remove_func\<close> and \<^verbatim>\<open>flat_priorityq_listq_remove_func\<close>, on the lists and the state of the callback.\<close>

definition flat_priorityq_avl_remove_func ::
  "('n \<Rightarrow> 's \<Rightarrow> 's option) \<Rightarrow> 'n \<Rightarrow> 'n lq_mem \<times> 's \<Rightarrow> ('n lq_mem \<times> 's) option" where
  "flat_priorityq_avl_remove_func func node = (\<lambda>(l, s). listq_disconnect_all func (Some node) l s)"

definition flat_priorityq_dequeue_all :: "('n \<Rightarrow> 's \<Rightarrow> 's option) \<Rightarrow> 'n flat \<Rightarrow> 's \<Rightarrow> ('n flat \<times> 's) option" where
  "flat_priorityq_dequeue_all func = (\<lambda>(m, tree) s.
     map_option (\<lambda>((h, tree), l, s). ((m\<lparr>fm_tree := h, fm_list := l\<rparr>, tree), s))
       (avl_remove_all (flat_priorityq_avl_remove_func func) (fm_tree m, tree) (fm_list m, s)))"

section \<open>Nodes of one priority\<close>

text \<open>The first node is the root of the tree, the others are in its list only.\<close>

definition flat_node :: "u8 \<Rightarrow> 'n tree_node" where
  "flat_node p = \<lparr>tn_data = push_bit 32 1 OR ucast (ucast p :: u32), tn_left = None, tn_right = None, tn_parent = None\<rparr>"

definition flat_repr :: "u8 \<Rightarrow> 'n flat \<Rightarrow> 'n list \<Rightarrow> bool" where
  "flat_repr p = (\<lambda>(m, tree) xs. 0 < at_max_path tree \<and> at_root tree = first_or xs None \<and>
     (xs \<noteq> [] \<longrightarrow> listq_repr (fm_list m) xs \<and> fm_tree m (hd xs) = flat_node p \<and> (\<forall>x \<in> set (tl xs). tn_parent (fm_tree m x) = None)))"

lemma key_of_data: "ucast ((push_bit 32 x OR ucast k) AND 0xffffffff :: u64) = (k :: u32)"
proof -
  have "(0xffffffff :: u64) = mask 32" by (simp add: mask_eq_exp_minus_1)
  then have "ucast ((push_bit 32 x OR ucast k) AND 0xffffffff) = ucast ((push_bit 32 x OR ucast k) AND mask 32 :: u64)"
    by (rule arg_cong)
  also have "\<dots> = k" by (rule bit_word_eqI) (auto simp: bit_simps)
  finally show ?thesis .
qed

lemma flat_node_simps [simp]:
  "tn_left (flat_node p) = None" "tn_right (flat_node p) = None" "tn_parent (flat_node p) = None"
  "(flat_node p)\<lparr>tn_parent := None\<rparr> = flat_node p"
  by (simp_all add: flat_node_def)

lemma flat_node_key: "h n = flat_node p \<Longrightarrow> avl_tree_node_key h n = ucast p"
  using key_of_data [of 1 "ucast p"] by (simp add: avl_tree_node_key_def flat_node_def)

lemma flat_new [simp]: "x\<lparr>tn_data := 4294967296 OR ucast (ucast p :: u32), tn_left := None, tn_right := None, tn_parent := None\<rparr> = flat_node p"
  by (cases x) (simp add: flat_node_def)

lemma flat_insert_repr:
  assumes "flat_repr p q xs" and "x \<notin> set xs" and "fm_list (fst q) x = lq_null"
  shows "\<exists>q'. flat_priorityq_insert x p q = Some q' \<and> flat_repr p q' (xs @ [x]) \<and>
    (\<forall>n. n \<notin> set (xs @ [x]) \<longrightarrow> fm_tree (fst q') n = fm_tree (fst q) n \<and> fm_list (fst q') n = fm_list (fst q) n)"
proof (cases xs)
  case Nil
  with assms show ?thesis
    by (auto simp: flat_repr_def flat_priorityq_insert_def on_tree_def avl_insert_def tn_upd_def split: prod.splits)
next
  case (Cons y ys)
  obtain m tree where q: "q = (m, tree)" by (cases q)
  have y: "fm_tree m y = flat_node p" "x \<noteq> y" "at_root tree = Some y" "listq_repr (fm_list m) (y # ys)"
    using assms Cons q by (auto simp: flat_repr_def)
  obtain room where room: "unat (at_max_path tree) = Suc room"
    using assms(1) q by (cases "unat (at_max_path tree)") (auto simp: flat_repr_def unat_eq_0 word_gt_0)
  have k: "avl_tree_node_key ((fm_tree m)(x := flat_node p)) y = ucast p" using y by (simp add: flat_node_key)
  have "flat_priorityq_insert x p q = Some (m\<lparr>fm_tree := (fm_tree m)(x := flat_node p), fm_list := listq_pushback y x (fm_list m)\<rparr>, tree)"
    using y room k q
    by (simp add: flat_priorityq_insert_def on_tree_def avl_insert_def tn_upd_def)
  moreover note listq_pushback_repr [OF y(4), of x]
  ultimately show ?thesis using assms Cons q y by (auto simp: flat_repr_def)
qed

text \<open>Removing a node anywhere: the last node empties the tree, the first one is replaced in the tree by the next one, any other
  is in the list only.\<close>

lemma flat_remove_root:
  assumes "h x = flat_node p" and "at_root tree = Some x" and "0 < at_max_path tree"
  shows "avl_remove x (h, tree) = Some (True, h(x := tn_null), tree\<lparr>at_root := None\<rparr>)"
proof -
  obtain room where "unat (at_max_path tree) = Suc room"
    using assms(3) by (cases "unat (at_max_path tree)") (auto simp: unat_eq_0 word_gt_0)
  then show ?thesis using assms(1,2) by (simp add: avl_remove_def avl_unlink_one_def avl_relink_def tn_upd_def)
qed

lemma flat_replace_root:
  assumes "h x = flat_node p" and "at_root tree = Some x" and "x \<noteq> y"
  shows "avl_replace x y (h, tree) = (h(x := tn_null, y := flat_node p), tree\<lparr>at_root := Some y\<rparr>)"
proof -
  have "(h y)\<lparr>tn_data := tn_data (flat_node p), tn_left := None, tn_right := None, tn_parent := None\<rparr> = flat_node p"
    by (cases "h y") (simp add: flat_node_def)
  then show ?thesis using assms by (auto simp: avl_replace_def avl_relink_def Let_def fun_eq_iff)
qed

lemma flat_dequeue_repr:
  assumes "flat_repr p q (as @ x # bs)"
  shows "\<exists>q'. flat_priorityq_dequeue x q = Some q' \<and> flat_repr p q' (as @ bs) \<and> fm_list (fst q') x = lq_null \<and>
    (\<forall>n. n \<notin> set (as @ x # bs) \<longrightarrow> fm_tree (fst q') n = fm_tree (fst q) n \<and> fm_list (fst q') n = fm_list (fst q) n)"
proof -
  obtain m tree where q: "q = (m, tree)" by (cases q)
  have l: "listq_repr (fm_list m) (as @ x # bs)" and d: "distinct (as @ x # bs)" and pos: "0 < at_max_path tree"
    using assms q by (auto simp: flat_repr_def listq_repr_def)
  obtain l' where l': "listq_disconnect x (fm_list m) = Some (first_or bs None, l')" "as @ bs \<noteq> [] \<longrightarrow> listq_repr l' (as @ bs)"
    "l' x = lq_null" "\<forall>n. n \<notin> set (as @ x # bs) \<longrightarrow> l' n = fm_list m n"
    using listq_disconnect_repr [OF l] by blast
  show ?thesis
  proof (cases as)
    case Nil
    then have x: "fm_tree m x = flat_node p" "at_root tree = Some x" using assms q by (auto simp: flat_repr_def)
    show ?thesis
    proof (cases bs)
      case bs: Nil
      then show ?thesis using Nil q l' x pos flat_remove_root [of "fm_tree m" x p tree]
        by (auto simp: flat_priorityq_dequeue_def on_tree_def avl_is_queued_def flat_repr_def)
    next
      case (Cons b cs)
      have "x \<noteq> b" using Cons d by auto
      then show ?thesis using Nil Cons q l' x pos d assms flat_replace_root [of "fm_tree m" x p tree b]
        by (auto simp: flat_priorityq_dequeue_def avl_is_queued_def flat_repr_def)
    qed
  next
    case (Cons a cs)
    then have "\<not> avl_is_queued (fm_tree m) tree x" using assms q d by (auto simp: flat_repr_def avl_is_queued_def)
    then show ?thesis using Cons q l' pos assms by (auto simp: flat_priorityq_dequeue_def flat_repr_def)
  qed
qed

lemma flat_popfront_repr:
  assumes "flat_repr p q (x # xs)"
  shows "\<exists>q'. flat_priorityq_popfront q = Some (Some x, q') \<and> flat_repr p q' xs \<and> fm_list (fst q') x = lq_null \<and>
    (\<forall>n. n \<notin> set (x # xs) \<longrightarrow> fm_tree (fst q') n = fm_tree (fst q) n \<and> fm_list (fst q') n = fm_list (fst q) n)"
proof -
  have "avl_find_highest (fm_tree (fst q)) (snd q) = Some (Some x)"
    using assms by (auto simp: flat_repr_def avl_find_highest_def avl_highest_from.simps split: prod.splits)
  then show ?thesis using flat_dequeue_repr [of p q "[]" x xs] assms
    by (auto simp: flat_priorityq_popfront_def split: prod.splits)
qed

lemma flat_popfront_empty: "flat_repr p q [] \<Longrightarrow> flat_priorityq_popfront q = Some (None, q)"
  by (auto simp: flat_repr_def flat_priorityq_popfront_def avl_find_highest_def split: prod.splits)

lemma flat_dequeue_all_repr:
  assumes "flat_repr p q xs"
  shows "\<exists>q'. flat_priorityq_dequeue_all func q s = map_option (Pair q') (fold_opt func xs s) \<and> flat_repr p q' [] \<and>
    (\<forall>x \<in> set xs. fm_list (fst q') x = lq_null) \<and>
    (\<forall>n. n \<notin> set xs \<longrightarrow> fm_tree (fst q') n = fm_tree (fst q) n \<and> fm_list (fst q') n = fm_list (fst q) n)"
proof (cases xs)
  case Nil
  with assms show ?thesis
    by (auto simp: flat_repr_def flat_priorityq_dequeue_all_def avl_remove_all_def avl_remove_all_loop.simps split: prod.splits)
next
  case (Cons x ys)
  obtain m tree where q: "q = (m, tree)" by (cases q)
  have x: "fm_tree m x = flat_node p" "at_root tree = Some x" "listq_repr (fm_list m) (x # ys)" "0 < at_max_path tree"
    using assms Cons q by (auto simp: flat_repr_def)
  have t: "tree_at (fm_tree m) None (at_root tree) (Node Leaf x Leaf)" "height (Node Leaf x Leaf) \<le> unat (at_max_path tree)"
    using x by (auto simp: word_less_nat_alt)
  let ?q = "(m\<lparr>fm_tree := (\<lambda>n. if n = x then tn_null else fm_tree m n),
       fm_list := (\<lambda>n. if n \<in> set xs then lq_null else fm_list m n)\<rparr>, tree\<lparr>at_root := None\<rparr>)"
  have "flat_priorityq_dequeue_all func q s = map_option (Pair ?q) (fold_opt func xs s)"
    using avl_remove_all_tree [OF t(1) _ t(2), of "flat_priorityq_avl_remove_func func" "(fm_list m, s)"]
      listq_disconnect_all_repr [OF x(3), of func s] Cons q
    by (cases "fold_opt func xs s") (auto simp: flat_priorityq_dequeue_all_def flat_priorityq_avl_remove_func_def)
  then show ?thesis using Cons q x by (intro exI [of _ ?q]) (auto simp: flat_repr_def)
qed

section \<open>First in, first out\<close>

text \<open>Sequences of operations on a queue, and on the list it stands for. A node may be inserted only while it is not in the queue.\<close>

datatype 'n qop = ENQ 'n | DEQ | REM 'n

fun run_ops ::
  "('n \<Rightarrow> 'q \<Rightarrow> 'q option) \<Rightarrow> ('q \<Rightarrow> ('n option \<times> 'q) option) \<Rightarrow> ('n \<Rightarrow> 'q \<Rightarrow> 'q option) \<Rightarrow> 'n qop list \<Rightarrow> 'q
     \<Rightarrow> ('n option list \<times> 'q) option" where
  "run_ops ins pop rm [] q = Some ([], q)"
| "run_ops ins pop rm (ENQ x # ops) q = Option.bind (ins x q) (run_ops ins pop rm ops)"
| "run_ops ins pop rm (REM x # ops) q = Option.bind (rm x q) (run_ops ins pop rm ops)"
| "run_ops ins pop rm (DEQ # ops) q = Option.bind (pop q) (\<lambda>(x, q). map_option (apfst (Cons x)) (run_ops ins pop rm ops q))"

fun list_ops :: "'n qop list \<Rightarrow> 'n list \<Rightarrow> 'n option list \<times> 'n list" where
  "list_ops [] xs = ([], xs)"
| "list_ops (ENQ x # ops) xs = list_ops ops (xs @ [x])"
| "list_ops (REM x # ops) xs = list_ops ops (remove1 x xs)"
| "list_ops (DEQ # ops) xs = apfst (Cons (first_or xs None)) (list_ops ops (tl xs))"

fun legal_ops :: "'n qop list \<Rightarrow> 'n list \<Rightarrow> bool" where
  "legal_ops [] xs = True"
| "legal_ops (ENQ x # ops) xs = (x \<notin> set xs \<and> legal_ops ops (xs @ [x]))"
| "legal_ops (REM x # ops) xs = (x \<in> set xs \<and> legal_ops ops (remove1 x xs))"
| "legal_ops (DEQ # ops) xs = legal_ops ops (tl xs)"

text \<open>The contract of such a queue; \<open>ready\<close> says that the links of a node are clear.\<close>

locale fifo_queue =
  fixes repr :: "'q \<Rightarrow> 'n list \<Rightarrow> bool" and ready :: "'q \<Rightarrow> 'n \<Rightarrow> bool"
    and ins :: "'n \<Rightarrow> 'q \<Rightarrow> 'q option" and pop :: "'q \<Rightarrow> ('n option \<times> 'q) option" and rm :: "'n \<Rightarrow> 'q \<Rightarrow> 'q option"
  assumes repr_distinct: "repr q xs \<Longrightarrow> distinct xs"
    and ins_repr: "repr q xs \<Longrightarrow> x \<notin> set xs \<Longrightarrow> ready q x \<Longrightarrow>
      \<exists>q'. ins x q = Some q' \<and> repr q' (xs @ [x]) \<and> (\<forall>n. n \<notin> set (xs @ [x]) \<longrightarrow> ready q' n = ready q n)"
    and pop_repr: "repr q (x # xs) \<Longrightarrow>
      \<exists>q'. pop q = Some (Some x, q') \<and> repr q' xs \<and> ready q' x \<and> (\<forall>n. n \<notin> set (x # xs) \<longrightarrow> ready q' n = ready q n)"
    and pop_empty: "repr q [] \<Longrightarrow> pop q = Some (None, q)"
    and rm_repr: "repr q (as @ x # bs) \<Longrightarrow>
      \<exists>q'. rm x q = Some q' \<and> repr q' (as @ bs) \<and> ready q' x \<and> (\<forall>n. n \<notin> set (as @ x # bs) \<longrightarrow> ready q' n = ready q n)"
begin

lemma run_refines:
  assumes "repr q xs" and "\<forall>n. n \<notin> set xs \<longrightarrow> ready q n" and "legal_ops ops xs"
  shows "\<exists>q'. run_ops ins pop rm ops q = Some (fst (list_ops ops xs), q') \<and> repr q' (snd (list_ops ops xs))"
  using assms
proof (induction ops xs arbitrary: q rule: legal_ops.induct)
  case (1 xs)
  then show ?case by simp
next
  case (2 x ops xs)
  then obtain q' where q': "ins x q = Some q'" "repr q' (xs @ [x])" "\<forall>n. n \<notin> set (xs @ [x]) \<longrightarrow> ready q' n = ready q n"
    using ins_repr [of q xs x] by auto
  then show ?case using "2.IH" [OF q'(2)] "2.prems" by auto
next
  case (3 x ops xs)
  then obtain as bs where xs: "xs = as @ x # bs" "x \<notin> set as" by (auto dest: split_list_first)
  obtain q' where q': "rm x q = Some q'" "repr q' (as @ bs)" "ready q' x" "\<forall>n. n \<notin> set (as @ x # bs) \<longrightarrow> ready q' n = ready q n"
    using rm_repr "3.prems"(1) xs by blast
  then have "\<forall>n. n \<notin> set (as @ bs) \<longrightarrow> ready q' n" using "3.prems"(2) xs by auto
  then show ?case using "3.IH" [of q'] q' xs "3.prems"(3) by (simp add: remove1_append)
next
  case (4 ops xs)
  show ?case
  proof (cases xs)
    case Nil
    then show ?thesis using 4 pop_empty [of q] by auto
  next
    case (Cons x ys)
    then obtain q' where q': "pop q = Some (Some x, q')" "repr q' ys" "ready q' x" "\<forall>n. n \<notin> set (x # ys) \<longrightarrow> ready q' n = ready q n"
      using pop_repr "4.prems"(1) by blast
    then have "\<forall>n. n \<notin> set ys \<longrightarrow> ready q' n" using "4.prems"(2) Cons by auto
    then show ?thesis using "4.IH" [of q'] q' Cons "4.prems"(3) by auto
  qed
qed

end

abbreviation flat_ready :: "'n flat \<Rightarrow> 'n \<Rightarrow> bool" where
  "flat_ready q n \<equiv> fm_list (fst q) n = lq_null"

interpretation flat: fifo_queue "flat_repr p" flat_ready "\<lambda>x. flat_priorityq_insert x p" flat_priorityq_popfront flat_priorityq_dequeue
  for p
proof (unfold_locales, goal_cases)
  case (1 q xs)
  then show ?case by (cases xs) (auto simp: flat_repr_def listq_repr_def split: prod.splits)
next
  case (2 q xs x)
  then show ?case using flat_insert_repr [of p q xs x] by auto
next
  case (3 q x xs)
  then show ?case using flat_popfront_repr [of p q x xs] by auto
next
  case (4 q)
  then show ?case by (rule flat_popfront_empty)
next
  case (5 q as x bs)
  then show ?case using flat_dequeue_repr [of p q as x bs] by auto
qed

text \<open>C8: Nodes of one priority: every sequence of insertions, removals from the front and removals anywhere succeeds, starting from an
  initialised queue, and hands out the nodes in the order of a list; no node is lost and none is handed out twice.\<close>

theorem flat_fifo:
  assumes "\<forall>n. fm_list (fst q) n = lq_null" and "legal_ops ops []"
  shows "\<exists>q'. run_ops (\<lambda>x. flat_priorityq_insert x p) flat_priorityq_popfront flat_priorityq_dequeue ops (flat_priorityq_init q) =
      Some (fst (list_ops ops []), q') \<and> flat_repr p q' (snd (list_ops ops []))"
proof (rule flat.run_refines)
  have "0 < avl_tree_max_path 256" by code_simp
  then show "flat_repr p (flat_priorityq_init q) []" by (simp add: flat_priorityq_init_def flat_repr_def avl_tree_init_def split: prod.splits)
qed (use assms in \<open>auto simp: flat_priorityq_init_def split: prod.splits\<close>)

definition no_nodes :: "nat flat" where
  "no_nodes = (\<lparr>fm_tree = (\<lambda>_. tn_null), fm_list = (\<lambda>_. lq_null)\<rparr>, \<lparr>at_root = None, at_max_path = 0\<rparr>)"

theorem flat_fifo_witness:
  "\<exists>q'. run_ops (\<lambda>x. flat_priorityq_insert x 7) flat_priorityq_popfront flat_priorityq_dequeue
     [ENQ 1, ENQ 2, ENQ 3, REM 2, DEQ, ENQ 1, DEQ, DEQ, DEQ] (flat_priorityq_init no_nodes) =
     Some ([Some 1, Some 3, Some 1, None], q') \<and> flat_repr 7 q' []"
  using flat_fifo [of no_nodes "[ENQ 1, ENQ 2, ENQ 3, REM 2, DEQ, ENQ 1, DEQ, DEQ, DEQ]" 7] by (simp add: no_nodes_def)

section \<open>Nodes of several priorities\<close>

lemma flat_node_height: "h n = flat_node p \<Longrightarrow> avl_tree_node_height h n = 1"
proof -
  have "drop_bit 32 (push_bit 32 1 OR ucast k) = (1 :: u64)" for k :: u32
    by (rule bit_word_eqI) (auto simp: bit_simps dest: bit_imp_le_length)
  then show "h n = flat_node p \<Longrightarrow> avl_tree_node_height h n = 1" by (simp add: avl_tree_node_height_def flat_node_def)
qed

text \<open>The tree after a second insertion with a lower priority: the first node has lost its key.\<close>

definition flat_erased :: "'n option \<Rightarrow> 'n option \<Rightarrow> 'n tree_node" where
  "flat_erased l r = \<lparr>tn_data = push_bit 32 2, tn_left = l, tn_right = r, tn_parent = None\<rparr>"

lemma flat_erased_simps [simp]:
  "tn_left (flat_erased l r) = l" "tn_right (flat_erased l r) = r" "tn_parent (flat_erased l r) = None"
  "(flat_erased l r)\<lparr>tn_left := l'\<rparr> = flat_erased l' r" "(flat_erased l r)\<lparr>tn_right := r'\<rparr> = flat_erased l r'"
  by (simp_all add: flat_erased_def)

lemma flat_erased_key: "h n = flat_erased l r \<Longrightarrow> avl_tree_node_key h n = 0"
  by (simp add: avl_tree_node_key_def flat_erased_def)

lemma flat_insert_first:
  "at_root tree = None \<Longrightarrow> flat_priorityq_insert a p (m, tree) = Some (m\<lparr>fm_tree := (fm_tree m)(a := flat_node p)\<rparr>, tree\<lparr>at_root := Some a\<rparr>)"
  by (simp add: flat_priorityq_insert_def on_tree_def avl_insert_def tn_upd_def)

lemma flat_room: "1 < m \<Longrightarrow> \<exists>room. unat (m :: u32) = Suc (Suc room)"
  by (intro exI [of _ "unat m - 2"]) (auto simp: word_less_nat_alt)

lemma ucast_u8_less: "(q :: u8) < p \<Longrightarrow> ucast q < (ucast p :: u32)"
  by (simp add: word_less_nat_alt unsigned_ucast_eq take_bit_word_eq_self)

lemma flat_child_height: "h n = (flat_node q)\<lparr>tn_parent := v\<rparr> \<Longrightarrow> avl_tree_node_height h n = 1"
  using flat_node_height [of "\<lambda>_. flat_node q" n q] by (simp add: avl_tree_node_height_def)

text \<open>A node with children of height 1 is balanced; updating its height erases its key.\<close>

lemma flat_balanced:
  assumes "h a = x\<lparr>tn_left := l, tn_right := r, tn_parent := None\<rparr>" and "l \<noteq> Some a" and "r \<noteq> Some a" and "l \<noteq> None \<or> r \<noteq> None"
    and "l \<noteq> None \<longrightarrow> avl_height h l = 1" and "r \<noteq> None \<longrightarrow> avl_height h r = 1"
  shows "avl_insert_loop key [a] (h, tree) = Some (h(a := flat_erased l r), tree)"
    and "avl_remove_loop [a] (h, tree) = Some (h(a := flat_erased l r), tree)"
proof -
  let ?h = "h(a := flat_erased l r)"
  have lr: "avl_height h l \<in> {0, 1}" "avl_height h r \<in> {0, 1}" using assms(5,6) by (auto simp: avl_height_def split: option.splits)
  then have "max (avl_height h l) (avl_height h r) = 1" using assms(4-6) by (auto simp: max_def)
  then have u: "avl_update_height a h = ?h" using assms(1) by (cases x) (simp add: avl_update_height_def tn_upd_def flat_erased_def)
  have eq: "avl_height ?h l = avl_height h l" "avl_height ?h r = avl_height h r"
    using assms(2,3) by (auto simp: avl_height_def avl_tree_node_height_def split: option.splits)
  moreover have "ucast (- 1 :: u64) = (- 1 :: u32)" by (rule bit_word_eqI) (simp add: bit_simps)
  ultimately have "avl_balance_factor ?h (Some a) \<in> {-1, 0, 1}" using lr by (auto simp: avl_balance_factor_def)
  then have "avl_insert_rotate key a ?h = Some (None, ?h)" "avl_remove_rotate a ?h = Some (None, ?h)"
    by (auto simp: avl_insert_rotate_def avl_remove_rotate_def)
  then show "avl_insert_loop key [a] (h, tree) = Some (?h, tree)" "avl_remove_loop [a] (h, tree) = Some (?h, tree)"
    by (simp_all add: u avl_attach_def)
qed

lemma flat_insert_lower:
  assumes "fm_tree m a = flat_node p" and "at_root tree = Some a" and "1 < at_max_path tree" and "q < p" and "a \<noteq> b"
  shows "flat_priorityq_insert b q (m, tree) =
    Some (m\<lparr>fm_tree := (fm_tree m)(a := flat_erased (Some b) None, b := (flat_node q)\<lparr>tn_parent := Some a\<rparr>)\<rparr>, tree)"
proof -
  obtain room where room: "unat (at_max_path tree) = Suc (Suc room)" using flat_room [OF assms(3)] by blast
  let ?h = "(fm_tree m)(b := flat_node q)"
  let ?h1 = "?h(a := (flat_node p)\<lparr>tn_left := Some b\<rparr>, b := (flat_node q)\<lparr>tn_parent := Some a\<rparr>)"
  have k: "avl_tree_node_key ?h a = ucast p" using assms by (simp add: flat_node_key)
  have "avl_insert_loop (ucast q) [a] (?h1, tree) = Some (?h1(a := flat_erased (Some b) None), tree)"
    using assms(5) by (intro flat_balanced(1) [where x = "flat_node p"]) (auto simp: avl_height_def flat_child_height flat_node_def)
  then have "avl_insert b (ucast q) (fm_tree m, tree) = Some ((True, None), ?h1(a := flat_erased (Some b) None), tree)"
    using assms room k ucast_u8_less [OF assms(4)] by (simp add: avl_insert_def tn_upd_def)
  then show ?thesis using assms(5) by (simp add: flat_priorityq_insert_def on_tree_def fun_upd_twist)
qed

lemma flat_insert_erased:
  assumes "fm_tree m a = flat_erased (Some b) None" and "fm_tree m b = (flat_node q)\<lparr>tn_parent := Some a\<rparr>" and "at_root tree = Some a"
    and "1 < at_max_path tree" and "0 < r" and "a \<noteq> b" and "a \<noteq> c" and "b \<noteq> c"
  shows "flat_priorityq_insert c r (m, tree) =
    Some (m\<lparr>fm_tree := (fm_tree m)(a := flat_erased (Some b) (Some c), c := (flat_node r)\<lparr>tn_parent := Some a\<rparr>)\<rparr>, tree)"
proof -
  obtain room where room: "unat (at_max_path tree) = Suc (Suc room)" using flat_room [OF assms(4)] by blast
  let ?h = "(fm_tree m)(c := flat_node r)"
  let ?h1 = "?h(a := (flat_erased (Some b) None)\<lparr>tn_right := Some c\<rparr>, c := (flat_node r)\<lparr>tn_parent := Some a\<rparr>)"
  have k: "avl_tree_node_key ?h a = 0" using assms by (simp add: flat_erased_key)
  have z: "0 < (ucast r :: u32)" using ucast_u8_less [OF assms(5)] by simp
  have "avl_insert_loop (ucast r) [a] (?h1, tree) = Some (?h1(a := flat_erased (Some b) (Some c)), tree)"
    using assms by (intro flat_balanced(1) [where x = "flat_erased None None"]) (auto simp: avl_height_def flat_child_height)
  then have "avl_insert c (ucast r) (fm_tree m, tree) = Some ((True, None), ?h1(a := flat_erased (Some b) (Some c)), tree)"
    using assms room k z by (simp add: avl_insert_def tn_upd_def)
  then show ?thesis using assms(7) by (simp add: flat_priorityq_insert_def on_tree_def fun_upd_twist)
qed

text \<open>C39: Priorities are lost: of three waiting nodes with the priorities \<open>p > r > q\<close>, inserted in the order \<open>p\<close>, \<open>q\<close>, \<open>r\<close>, the one taken
  first is that of priority \<open>r\<close>, while the one of the highest priority waits on.\<close>

theorem flat_priority_lost:
  assumes "at_root tree = None" and "1 < at_max_path tree" and "q < r" and "r < p" and "distinct [a, b, c]"
    and "\<forall>x \<in> {a, b, c}. fm_list m x = lq_null"
  shows "\<exists>s1 s2 s3 s4. flat_priorityq_insert a p (m, tree) = Some s1 \<and> flat_priorityq_insert b q s1 = Some s2 \<and>
    flat_priorityq_insert c r s2 = Some s3 \<and> flat_priorityq_popfront s3 = Some (Some c, s4) \<and> flat_priorityq_is_queued s4 a"
proof -
  let ?m1 = "m\<lparr>fm_tree := (fm_tree m)(a := flat_node p)\<rparr>" and ?t = "tree\<lparr>at_root := Some a\<rparr>"
  let ?m2 = "m\<lparr>fm_tree := (fm_tree m)(a := flat_erased (Some b) None, b := (flat_node q)\<lparr>tn_parent := Some a\<rparr>)\<rparr>"
  let ?h3 = "(fm_tree m)(a := flat_erased (Some b) (Some c), b := (flat_node q)\<lparr>tn_parent := Some a\<rparr>, c := (flat_node r)\<lparr>tn_parent := Some a\<rparr>)"
  let ?m3 = "m\<lparr>fm_tree := ?h3\<rparr>"
  have pos: "0 < r" using assms(3) by (auto intro: le_less_trans)
  have i2: "flat_priorityq_insert b q (?m1, ?t) = Some (?m2, ?t)"
    using flat_insert_lower [of ?m1 a p ?t q b] assms by (simp add: fun_upd_twist)
  have i3: "flat_priorityq_insert c r (?m2, ?t) = Some (?m3, ?t)"
  proof -
    have "(fm_tree ?m2)(a := flat_erased (Some b) (Some c), c := (flat_node r)\<lparr>tn_parent := Some a\<rparr>) = ?h3"
      using assms(5) by (auto simp: fun_eq_iff)
    then show ?thesis using flat_insert_erased [of ?m2 a b q ?t r c] assms(2,5) pos by simp
  qed
  have top: "avl_highest_from ?h3 a = Some c"
    using assms(5) by (simp add: avl_highest_from.simps [of _ a] avl_highest_from.simps [of _ c])
  let ?h4 = "(fm_tree m)(a := flat_erased (Some b) None, b := (flat_node q)\<lparr>tn_parent := Some a\<rparr>, c := tn_null)"
  obtain room where room: "unat (at_max_path tree) = Suc (Suc room)" using flat_room [OF assms(2)] by blast
  have k: "avl_tree_node_key ?h3 a = 0" "avl_tree_node_key ?h3 c = ucast r" using assms(5) key_of_data [of 1 "ucast r"]
    by (auto simp: flat_erased_key avl_tree_node_key_def flat_erased_def flat_node_def)
  have z: "0 < (ucast r :: u32)" using ucast_u8_less [OF pos] by simp
  have "avl_remove_loop [a] (?h4, ?t) = Some (?h4(a := flat_erased (Some b) None), ?t)"
    using assms(5) by (intro flat_balanced(2) [where x = "flat_erased None None"]) (auto simp: avl_height_def flat_child_height)
  moreover have "?h3(a := flat_erased (Some b) None, c := tn_null) = ?h4" "?h4(a := flat_erased (Some b) None) = ?h4"
    using assms(5) by (auto simp: fun_eq_iff)
  ultimately have "avl_remove c (?h3, ?t) = Some (True, ?h4, ?t)"
    using assms(5) room k z by (simp add: avl_remove_def avl_unlink_one_def avl_relink_def tn_upd_def Let_def)
  then show ?thesis using i2 i3 top assms listq_disconnect_single [of "fm_list m" c]
    by (auto simp: flat_insert_first flat_priorityq_popfront_def flat_priorityq_dequeue_def avl_find_highest_def on_tree_def
        flat_priorityq_is_queued_def avl_is_queued_def)
qed

text \<open>A node cannot be removed: of two waiting nodes the one with the lower priority, inserted second, is still in the queue after it
  has been dequeued, and is handed out once more after the other one.\<close>

theorem flat_dequeue_lost:
  assumes "at_root tree = None" and "1 < at_max_path tree" and "0 < q" and "q < p" and "a \<noteq> b"
    and "\<forall>x \<in> {a, b}. fm_list m x = lq_null"
  shows "\<exists>s1 s2 s3 s4 s5. flat_priorityq_insert a p (m, tree) = Some s1 \<and> flat_priorityq_insert b q s1 = Some s2 \<and>
    flat_priorityq_dequeue b s2 = Some s3 \<and> flat_priorityq_is_queued s3 b \<and>
    flat_priorityq_popfront s3 = Some (Some a, s4) \<and> flat_priorityq_popfront s4 = Some (Some b, s5)"
proof -
  let ?m1 = "m\<lparr>fm_tree := (fm_tree m)(a := flat_node p)\<rparr>" and ?t = "tree\<lparr>at_root := Some a\<rparr>"
  let ?h2 = "(fm_tree m)(a := flat_erased (Some b) None, b := (flat_node q)\<lparr>tn_parent := Some a\<rparr>)"
  let ?h4 = "(fm_tree m)(a := tn_null, b := flat_node q)"
  obtain room where room: "unat (at_max_path tree) = Suc (Suc room)" using flat_room [OF assms(2)] by blast
  have i2: "flat_priorityq_insert b q (?m1, ?t) = Some (m\<lparr>fm_tree := ?h2\<rparr>, ?t)"
    using flat_insert_lower [of ?m1 a p ?t q b] assms by (simp add: fun_upd_twist)
  have k: "avl_tree_node_key ?h2 a = 0" "avl_tree_node_key ?h2 b = ucast q" using assms(5) key_of_data [of 1 "ucast q"]
    by (auto simp: avl_tree_node_key_def flat_erased_def flat_node_def)
  have z: "0 < (ucast q :: u32)" using ucast_u8_less [OF assms(3)] by simp
  have b: "avl_remove b (?h2, ?t) = Some (False, ?h2, ?t)" using k z room by (auto simp: avl_remove_def)
  have a: "avl_remove a (?h2, ?t) = Some (True, ?h4, ?t\<lparr>at_root := Some b\<rparr>)"
    using k room assms(5) by (auto simp: avl_remove_def avl_unlink_one_def avl_relink_def tn_set_parent_def tn_upd_def Let_def fun_upd_twist [of a b])
  have b': "avl_remove b (?h4, ?t\<lparr>at_root := Some b\<rparr>) = Some (True, ?h4(b := tn_null), ?t\<lparr>at_root := None\<rparr>)"
    using flat_remove_root [of ?h4 b q "?t\<lparr>at_root := Some b\<rparr>"] assms(2) by (simp add: word_less_nat_alt)
  have top: "avl_highest_from ?h2 a = Some a" "avl_highest_from ?h4 b = Some b"
    using assms(5) by (simp_all add: avl_highest_from.simps [of _ a] avl_highest_from.simps [of _ b])
  show ?thesis using i2 a b b' top assms listq_disconnect_single [of "fm_list m"]
    by (auto simp: flat_insert_first flat_priorityq_popfront_def flat_priorityq_dequeue_def avl_find_highest_def on_tree_def
        flat_priorityq_is_queued_def avl_is_queued_def)
qed

text \<open>The priorities 9, 3 and 5 for the nodes 1, 2 and 3 of an initialised queue.\<close>

theorem flat_priority_lost_witness:
  "\<exists>s1 s2 s3 s4. flat_priorityq_insert 1 9 (flat_priorityq_init no_nodes) = Some s1 \<and> flat_priorityq_insert 2 3 s1 = Some s2 \<and>
    flat_priorityq_insert 3 5 s2 = Some s3 \<and> flat_priorityq_popfront s3 = Some (Some 3, s4) \<and> flat_priorityq_is_queued s4 1"
proof -
  have "1 < avl_tree_max_path 256" by code_simp
  then show ?thesis
    using flat_priority_lost [of "snd (flat_priorityq_init no_nodes)" 3 5 9 1 2 3 "fst (flat_priorityq_init no_nodes)"]
    by (simp add: no_nodes_def flat_priorityq_init_def avl_tree_init_def)
qed

theorem flat_dequeue_lost_witness:
  "\<exists>s1 s2 s3 s4 s5. flat_priorityq_insert 1 9 (flat_priorityq_init no_nodes) = Some s1 \<and> flat_priorityq_insert 2 3 s1 = Some s2 \<and>
    flat_priorityq_dequeue 2 s2 = Some s3 \<and> flat_priorityq_is_queued s3 2 \<and>
    flat_priorityq_popfront s3 = Some (Some 1, s4) \<and> flat_priorityq_popfront s4 = Some (Some 2, s5)"
proof -
  have "1 < avl_tree_max_path 256" by code_simp
  then show ?thesis
    using flat_dequeue_lost [of "snd (flat_priorityq_init no_nodes)" 3 9 1 2 "fst (flat_priorityq_init no_nodes)"]
    by (simp add: no_nodes_def flat_priorityq_init_def avl_tree_init_def)
qed

end
