(* ===== verification/Twan_Delta.thy ===== *)
theory Twan_Delta
  imports Twan_Dq
begin

text \<open>
  The delta chain of \<open>include/lib/dsa/delta_chain.h\<close>, the timer queue behind sleeping,
  time-outs and virtual timers. A node stores the ticks that separate it from the node
  before it. \<open>delta_repr\<close> reads a chain as the list of its nodes with their absolute
  expiry times; inserting and removing a node leave every other expiry time as it is, and
  a tick brings every expiry one tick closer and hands the expired nodes to the callback.
\<close>

section \<open>Definitions\<close>

text \<open>\<^verbatim>\<open>struct delta_node\<close> is split: its link is in the node store, its \<^verbatim>\<open>delta\<close> in \<open>dc_delta\<close>.\<close>

record 'n delta_chain =
  dc_mem :: "'n ld_mem"
  dc_delta :: "'n \<Rightarrow> u64"
  dc_dq :: "'n dq"

definition delta_chain_init :: "'n delta_chain \<Rightarrow> 'n delta_chain" where
  "delta_chain_init chain = chain\<lparr>dc_dq := \<lparr>dq_front = None, dq_rear = None\<rparr>\<rparr>"

text \<open>The search loop of \<^verbatim>\<open>delta_chain_insert\<close>: the deltas, the remaining ticks, \<^verbatim>\<open>prev\<close> and \<^verbatim>\<open>cur\<close>
  at its end. It follows the links of the store, so it is a partial function.\<close>

partial_function (option) delta_insert_loop ::
  "'n ld_mem \<Rightarrow> ('n \<Rightarrow> u64) \<Rightarrow> u64 \<Rightarrow> 'n option \<Rightarrow> 'n option
     \<Rightarrow> (('n \<Rightarrow> u64) \<times> u64 \<times> 'n option \<times> 'n option) option" where
  "delta_insert_loop h dl remaining pv cur =
     (case cur of
        None \<Rightarrow> Some (dl, remaining, pv, None)
      | Some c \<Rightarrow>
          if remaining < dl c
          then Some (dl(c := dl c - remaining), remaining, pv, Some c)
          else delta_insert_loop h dl (remaining - dl c) (Some c) (ld_next (h c)))"

definition delta_chain_insert :: "'n delta_chain \<Rightarrow> 'n \<Rightarrow> u64 \<Rightarrow> 'n delta_chain option" where
  "delta_chain_insert chain node ticks =
     (let h = set_next (set_prev (dc_mem chain) node None) node None in
      if dq_is_empty (dc_dq chain) then
        let (h, dq) = dq_pushfront (h, dc_dq chain) node
        in Some (chain\<lparr>dc_mem := h, dc_dq := dq, dc_delta := (dc_delta chain)(node := ticks)\<rparr>)
      else
        case delta_insert_loop h (dc_delta chain) ticks None (dq_front (dc_dq chain)) of
          None \<Rightarrow> None
        | Some (dl, remaining, pv, cur) \<Rightarrow>
            let (h, dq) = dq_insert (h, dc_dq chain) node pv cur
            in Some (chain\<lparr>dc_mem := h, dc_dq := dq, dc_delta := dl(node := remaining)\<rparr>))"

text \<open>The callback \<^verbatim>\<open>func\<close> may touch the chain and state \<open>'s\<close> outside it; a null callback is
  \<open>None\<close>. The loop ends at the first node with a non-zero delta.\<close>

definition delta_pop :: "'n delta_chain \<Rightarrow> 'n option \<times> 'n delta_chain" where
  "delta_pop chain =
     (let (node, h, dq) = dq_popfront (dc_mem chain, dc_dq chain)
      in (node, chain\<lparr>dc_mem := h, dc_dq := dq\<rparr>))"

partial_function (option) delta_chain_advance ::
  "('n \<Rightarrow> 'n delta_chain \<times> 's \<Rightarrow> 'n delta_chain \<times> 's) option
     \<Rightarrow> 'n delta_chain \<times> 's \<Rightarrow> ('n delta_chain \<times> 's) option" where
  "delta_chain_advance func st =
     (case dq_peekfront (dc_dq (fst st)) of
        None \<Rightarrow> Some st
      | Some node \<Rightarrow>
          if dc_delta (fst st) node \<noteq> 0 then Some st
          else delta_chain_advance func
            (let st = (snd (delta_pop (fst st)), snd st)
             in case func of None \<Rightarrow> st | Some f \<Rightarrow> f node st))"

definition delta_chain_tick ::
  "('n \<Rightarrow> 'n delta_chain \<times> 's \<Rightarrow> 'n delta_chain \<times> 's) option
     \<Rightarrow> 'n delta_chain \<times> 's \<Rightarrow> ('n delta_chain \<times> 's) option" where
  "delta_chain_tick func = (\<lambda>(chain, s).
     case dq_front (dc_dq chain) of
       None \<Rightarrow> Some (chain, s)
     | Some node \<Rightarrow>
         if dc_delta chain node = 0 then delta_chain_advance func (chain, s)
         else
           let chain = chain\<lparr>dc_delta := (dc_delta chain)(node := dc_delta chain node - 1)\<rparr>
           in if dc_delta chain node = 0 then delta_chain_advance func (chain, s)
              else Some (chain, s))"

definition delta_chain_dequeue_no_callback :: "'n delta_chain \<Rightarrow> 'n \<Rightarrow> 'n delta_chain" where
  "delta_chain_dequeue_no_callback chain node =
     (let dl = (case ld_next (dc_mem chain node) of
                  Some nx \<Rightarrow> (dc_delta chain)(nx := dc_delta chain nx + dc_delta chain node)
                | None \<Rightarrow> dc_delta chain);
          (h, dq) = dq_dequeue (dc_mem chain, dc_dq chain) node
      in chain\<lparr>dc_mem := h, dc_dq := dq, dc_delta := dl\<rparr>)"

definition delta_chain_is_queued :: "'n delta_chain \<Rightarrow> 'n \<Rightarrow> bool" where
  "delta_chain_is_queued chain node = dq_is_queued (dc_mem chain) (dc_dq chain) node"

definition delta_chain_is_empty :: "'n delta_chain \<Rightarrow> bool" where
  "delta_chain_is_empty chain = dq_is_empty (dc_dq chain)"

definition delta_chain_peekfront :: "'n delta_chain \<Rightarrow> 'n option" where
  "delta_chain_peekfront chain = dq_peekfront (dc_dq chain)"

definition delta_chain_is_front :: "'n delta_chain \<Rightarrow> 'n \<Rightarrow> bool" where
  "delta_chain_is_front chain node \<longleftrightarrow> delta_chain_peekfront chain = Some node"

definition delta_chain_popfront_noupdate :: "'n delta_chain \<Rightarrow> 'n option \<times> 'n delta_chain" where
  "delta_chain_popfront_noupdate chain = delta_pop chain"

section \<open>Absolute expiry times\<close>

fun expiries :: "('n \<Rightarrow> u64) \<Rightarrow> nat \<Rightarrow> 'n list \<Rightarrow> ('n \<times> nat) list" where
  "expiries dl acc [] = []"
| "expiries dl acc (x # xs) = (x, acc + unat (dl x)) # expiries dl (acc + unat (dl x)) xs"

definition delta_repr :: "'n delta_chain \<Rightarrow> ('n \<times> nat) list \<Rightarrow> bool" where
  "delta_repr chain es \<longleftrightarrow> dq_repr (dc_mem chain) (dc_dq chain) (map fst es) \<and>
     es = expiries (dc_delta chain) 0 (map fst es)"

text \<open>The specification of insertion: after every node that expires no later.\<close>

definition timer_insert :: "('n \<times> nat) list \<Rightarrow> 'n \<Rightarrow> nat \<Rightarrow> ('n \<times> nat) list" where
  "timer_insert es n t =
     takeWhile (\<lambda>(_, u). u \<le> t) es @ (n, t) # dropWhile (\<lambda>(_, u). u \<le> t) es"

definition dsum :: "('n \<Rightarrow> u64) \<Rightarrow> 'n list \<Rightarrow> nat" where
  "dsum dl xs = (\<Sum>x \<leftarrow> xs. unat (dl x))"

lemma dsum_simps [simp]: "dsum dl [] = 0" "dsum dl (x # xs) = unat (dl x) + dsum dl xs"
  by (simp_all add: dsum_def)

lemma expiries_append [simp]:
  "expiries dl acc (xs @ ys) = expiries dl acc xs @ expiries dl (acc + dsum dl xs) ys"
  by (induction xs arbitrary: acc) (auto simp: add.assoc)

lemma map_fst_expiries [simp]: "map fst (expiries dl acc xs) = xs"
  by (induction xs arbitrary: acc) auto

lemma expiries_cong: "(\<And>x. x \<in> set xs \<Longrightarrow> dl' x = dl x) \<Longrightarrow> expiries dl' acc xs = expiries dl acc xs"
  by (induction xs arbitrary: acc) auto

lemma dsum_cong: "(\<And>x. x \<in> set xs \<Longrightarrow> dl' x = dl x) \<Longrightarrow> dsum dl' xs = dsum dl xs"
  by (induction xs) auto

lemma expiries_mono: "(n, t) \<in> set (expiries dl acc xs) \<Longrightarrow> acc \<le> t"
  by (induction xs arbitrary: acc) fastforce+

lemma expiries_sorted: "sorted (map snd (expiries dl acc xs))"
  by (induction xs arbitrary: acc) (auto dest: expiries_mono)

lemma expiries_last_bound: "(n, t) \<in> set (expiries dl acc xs) \<Longrightarrow> t \<le> acc + dsum dl xs"
  by (induction xs arbitrary: acc) (auto simp: add.assoc dest: trans_le_add1, fastforce)

lemma delta_reprI:
  "dq_repr (dc_mem c) (dc_dq c) xs \<Longrightarrow> es = expiries (dc_delta c) 0 xs \<Longrightarrow> delta_repr c es"
  by (simp add: delta_repr_def)

lemma delta_reprE:
  assumes "delta_repr c es"
  obtains xs where "dq_repr (dc_mem c) (dc_dq c) xs" "es = expiries (dc_delta c) 0 xs"
  using assms by (auto simp: delta_repr_def)


section \<open>Insertion\<close>

text \<open>Where the search stops: \<open>as\<close> are the nodes that expire no later, \<open>bs\<close> the ones after.\<close>

lemma delta_insert_loop_spec:
  "dseg h p xs None \<Longrightarrow>
   \<exists>as bs r'. xs = as @ bs \<and> unat r = dsum dl as + unat r' \<and>
     (\<forall>b bs'. bs = b # bs' \<longrightarrow> r' < dl b) \<and>
     delta_insert_loop h dl r pv (first_or xs None) =
       Some (case bs of [] \<Rightarrow> dl | b # _ \<Rightarrow> dl(b := dl b - r'), r', last_or pv as, first_or bs None)"
proof (induction xs arbitrary: p r pv)
  case Nil
  then show ?case by (simp add: delta_insert_loop.simps)
next
  case (Cons x xs)
  show ?case
  proof (cases "r < dl x")
    case True
    then show ?thesis
      by (rule_tac x = "[]" in exI, rule_tac x = "x # xs" in exI, rule_tac x = r in exI)
        (simp add: delta_insert_loop.simps fun_upd_def)
  next
    case False
    from Cons.prems have "dseg h (Some x) xs None" and nx: "ld_next (h x) = first_or xs None" by auto
    from Cons.IH [OF this(1), of "r - dl x" "Some x"] obtain as bs r' where
      "xs = as @ bs" "unat (r - dl x) = dsum dl as + unat r'"
      "\<forall>b bs'. bs = b # bs' \<longrightarrow> r' < dl b"
      "delta_insert_loop h dl (r - dl x) (Some x) (first_or xs None) =
         Some (case bs of [] \<Rightarrow> dl | b # _ \<Rightarrow> dl(b := dl b - r'), r', last_or (Some x) as, first_or bs None)"
      by blast
    moreover have "unat (r - dl x) = unat r - unat (dl x)" "unat (dl x) \<le> unat r"
      using False by (simp_all add: unat_sub word_le_nat_alt not_less)
    ultimately show ?thesis
      using False nx
      by (rule_tac x = "x # as" in exI, rule_tac x = bs in exI, rule_tac x = r' in exI)
        (simp add: delta_insert_loop.simps [of h dl r])
  qed
qed

lemma expiries_split_insert:
  assumes "unat r = dsum dl as + unat r'" and "n \<notin> set (as @ bs)" and "distinct bs"
    and "\<forall>b bs'. bs = b # bs' \<longrightarrow> r' < dl b" and "set as \<inter> set bs = {}"
    and dl': "dl' = (case bs of [] \<Rightarrow> dl | b # _ \<Rightarrow> dl(b := dl b - r'))(n := r')"
  shows "expiries dl' 0 (as @ n # bs) = expiries dl 0 as @ (n, unat r) # expiries dl (dsum dl as) bs"
proof -
  have as: "expiries dl' 0 as = expiries dl 0 as" "dsum dl' as = dsum dl as"
    using assms by (auto intro!: expiries_cong dsum_cong split: list.splits)
  have "expiries dl' (unat r) bs = expiries dl (dsum dl as) bs"
  proof (cases bs)
    case (Cons b bs')
    have "unat r + unat (dl b - r') = dsum dl as + unat (dl b)"
      using assms(1,4) Cons by (auto simp: unat_sub word_le_nat_alt word_less_nat_alt)
    moreover have "expiries dl' t bs' = expiries dl t bs'" for t
      using assms Cons by (intro expiries_cong) auto
    ultimately show ?thesis using assms Cons by (auto simp: add.assoc)
  qed simp
  then show ?thesis using as assms(1) dl' by (simp add: add.assoc)
qed

lemma takeWhile_expiries:
  assumes "unat r = dsum dl as + unat r'" and "\<forall>b bs'. bs = b # bs' \<longrightarrow> r' < dl b"
  shows "timer_insert (expiries dl 0 (as @ bs)) n (unat r) =
     expiries dl 0 as @ (n, unat r) # expiries dl (dsum dl as) bs"
proof -
  have "\<And>a t. (a, t) \<in> set (expiries dl 0 as) \<Longrightarrow> t \<le> unat r"
    using expiries_last_bound assms(1) by fastforce
  then have 1: "takeWhile (\<lambda>(_, u). u \<le> unat r) (expiries dl 0 as) = expiries dl 0 as"
    "dropWhile (\<lambda>(_, u). u \<le> unat r) (expiries dl 0 as) = []"
    by (auto intro!: takeWhile_eq_all_conv [THEN iffD2] dropWhile_eq_Nil_conv [THEN iffD2])
  have "takeWhile (\<lambda>(_, u). u \<le> unat r) (expiries dl (dsum dl as) bs) = [] \<and>
    dropWhile (\<lambda>(_, u). u \<le> unat r) (expiries dl (dsum dl as) bs) = expiries dl (dsum dl as) bs"
    using assms by (cases bs) (auto simp: word_less_nat_alt)
  then show ?thesis using 1 unfolding timer_insert_def expiries_append
    by (subst takeWhile_append2 dropWhile_append2; fastforce)+
qed

lemma delta_chain_insert_core:
  assumes r: "delta_repr chain es" and n: "n \<notin> fst ` set es"
  shows "\<exists>chain'. delta_chain_insert chain n ticks = Some chain' \<and>
     delta_repr chain' (timer_insert es n (unat ticks))"
proof -
  obtain xs where xs: "dq_repr (dc_mem chain) (dc_dq chain) xs"
    and es: "es = expiries (dc_delta chain) 0 xs" using r by (rule delta_reprE)
  let ?h = "set_next (set_prev (dc_mem chain) n None) n None"
  have nx: "n \<notin> set xs" using n es by (metis map_fst_expiries set_map)
  have h: "dq_repr ?h (dc_dq chain) xs"
    by (rule dq_repr_frame [OF xs]) (use nx in \<open>auto simp: set_next_def set_prev_def\<close>)
  show ?thesis
  proof (cases "xs = []")
    case True
    obtain h' dq' where p: "dq_pushfront (?h, dc_dq chain) n = (h', dq')" by fastforce
    have "dq_repr h' dq' [n]" using dq_pushfront_repr [OF h nx p] True by simp
    then show ?thesis
      using True es p dq_is_empty_repr [OF xs]
      by (auto simp: delta_chain_insert_def timer_insert_def Let_def intro!: delta_reprI)
  next
    case False
    have seg: "dseg ?h None xs None" using h by (simp add: dq_repr_def)
    from delta_insert_loop_spec [OF seg, of ticks "dc_delta chain" None] obtain as bs r'
      where ab: "xs = as @ bs" and t: "unat ticks = dsum (dc_delta chain) as + unat r'"
        and b: "\<forall>b bs'. bs = b # bs' \<longrightarrow> r' < dc_delta chain b"
        and loop: "delta_insert_loop ?h (dc_delta chain) ticks None (first_or xs None) =
          Some (case bs of [] \<Rightarrow> dc_delta chain | b # _ \<Rightarrow> (dc_delta chain)(b := dc_delta chain b - r'),
            r', last_or None as, first_or bs None)" by blast
    obtain h' dq' where i: "dq_insert (?h, dc_dq chain) n (last_or None as) (first_or bs None) = (h', dq')"
      by fastforce
    have rep: "dq_repr h' dq' (as @ n # bs)" using dq_insert_repr [of ?h "dc_dq chain" as bs n] h nx i ab by simp
    have dis: "distinct bs" "set as \<inter> set bs = {}" using dq_repr_distinct [OF xs] ab by auto
    show ?thesis
      using False loop i rep nx ab es dis dq_is_empty_repr [OF xs] dq_repr_front [OF xs]
        takeWhile_expiries [OF t b, of n] expiries_split_insert [OF t _ dis(1) b dis(2) refl, of n]
      by (auto simp: delta_chain_insert_def Let_def intro!: delta_reprI [where xs = "as @ n # bs"])
  qed
qed

text \<open>C12: Inserting a timer always returns and yields the chain in which the timer follows every
  timer that expires no later, all other expiry times being unchanged.\<close>

theorem delta_chain_insert_spec:
  assumes r: "delta_repr chain es" and n: "n \<notin> fst ` set es"
  shows "\<exists>chain'. delta_chain_insert chain n ticks = Some chain' \<and>
     delta_repr chain' (timer_insert es n (unat ticks))"
  using r n by (rule delta_chain_insert_core)


section \<open>Ticks\<close>

lemma delta_pop_repr:
  assumes "delta_repr chain ((n, 0) # es)"
  shows "delta_repr (snd (delta_pop chain)) es \<and> dc_delta (snd (delta_pop chain)) = dc_delta chain"
proof -
  from assms have d: "dc_delta chain n = 0" and q: "dq_repr (dc_mem chain) (dc_dq chain) (n # map fst es)"
    and es: "es = expiries (dc_delta chain) 0 (map fst es)"
    by (auto simp: delta_repr_def unat_eq_0)
  obtain res h dq where p: "dq_popfront (dc_mem chain, dc_dq chain) = (res, h, dq)"
    by (metis prod_cases3)
  from dq_popfront_repr [OF q p] show ?thesis
    using p es by (auto simp: delta_pop_def delta_repr_def)
qed

text \<open>A callback that leaves the chain alone, as the wake-up callbacks of the sleep and the
  time-out queues do, sees the expired nodes in queue order.\<close>

definition quiet :: "('n \<Rightarrow> 's \<Rightarrow> 's) \<Rightarrow> 'n \<Rightarrow> 'n delta_chain \<times> 's \<Rightarrow> 'n delta_chain \<times> 's" where
  "quiet g n = (\<lambda>(c, s). (c, g n s))"

lemma delta_chain_advance_spec:
  "delta_repr chain es \<Longrightarrow>
   \<exists>chain'. delta_chain_advance (Some (quiet g)) (chain, s) =
       Some (chain', fold g (map fst (takeWhile (\<lambda>(_, t). t = 0) es)) s) \<and>
     delta_repr chain' (dropWhile (\<lambda>(_, t). t = 0) es)"
proof (induction es arbitrary: chain s)
  case Nil
  then have "dq_peekfront (dc_dq chain) = None"
    by (simp add: delta_repr_def dq_repr_def dq_peekfront_def)
  then show ?case using Nil by (simp add: delta_chain_advance.simps)
next
  case (Cons e es)
  obtain n t where e: "e = (n, t)" by fastforce
  from Cons.prems e have t: "t = unat (dc_delta chain n)" and f: "dq_peekfront (dc_dq chain) = Some n"
    by (auto simp: delta_repr_def dq_repr_def dq_peekfront_def)
  show ?case
  proof (cases "dc_delta chain n = 0")
    case True
    then have "delta_repr (snd (delta_pop chain)) es"
      using delta_pop_repr [of chain n es] Cons.prems e t by simp
    from Cons.IH [OF this, of "g n s"] show ?thesis
      using True e t f by (simp add: delta_chain_advance.simps [of _ "(chain, s)"] quiet_def)
  next
    case False
    then show ?thesis
      using e t f Cons.prems by (simp add: delta_chain_advance.simps [of _ "(chain, s)"] unat_eq_0)
  qed
qed

lemma expiries_head_dec:
  assumes "x \<notin> set xs" and "dl x \<noteq> 0"
  shows "expiries (dl(x := dl x - 1)) 0 (x # xs) = map (\<lambda>(n, t). (n, t - 1)) (expiries dl 0 (x # xs))"
proof -
  have u: "unat (dl x - 1) = unat (dl x) - 1" "0 < unat (dl x)"
    using assms(2) by (auto simp: unat_minus_one unat_gt_0)
  have shift: "expiries dl' (k - 1) ys = map (\<lambda>(n, t). (n, t - 1)) (expiries dl k ys)"
    if "0 < k" "\<And>y. y \<in> set ys \<Longrightarrow> dl' y = dl y" for k ys and dl' :: "'a \<Rightarrow> u64"
    using that
  proof (induction ys arbitrary: k)
    case (Cons y ys)
    then show ?case using Cons.IH [of "k + unat (dl y)"] by simp
  qed simp
  have "expiries (dl(x := dl x - 1)) (unat (dl x) - 1) xs =
    map (\<lambda>(n, t). (n, t - 1)) (expiries dl (unat (dl x)) xs)"
    by (rule shift) (use u assms(1) in auto)
  then show ?thesis using u by simp
qed

lemma delta_tick_dec_repr:
  assumes "delta_repr chain ((n, t) # es)" and "dc_delta chain n \<noteq> 0"
  shows "delta_repr (chain\<lparr>dc_delta := (dc_delta chain)(n := dc_delta chain n - 1)\<rparr>)
     (map (\<lambda>(n, t). (n, t - 1)) ((n, t) # es))"
proof -
  have d: "n \<notin> set (map fst es)" using assms(1) dq_repr_distinct by (fastforce simp: delta_repr_def)
  have e: "(n, t) # es = expiries (dc_delta chain) 0 (n # map fst es)"
    using assms(1) by (simp add: delta_repr_def)
  show ?thesis
  proof (rule delta_reprI [where xs = "n # map fst es"])
    show "dq_repr (dc_mem (chain\<lparr>dc_delta := (dc_delta chain)(n := dc_delta chain n - 1)\<rparr>))
      (dc_dq (chain\<lparr>dc_delta := (dc_delta chain)(n := dc_delta chain n - 1)\<rparr>)) (n # map fst es)"
      using assms(1) by (simp add: delta_repr_def)
    show "map (\<lambda>(n, t). (n, t - 1)) ((n, t) # es) =
      expiries (dc_delta (chain\<lparr>dc_delta := (dc_delta chain)(n := dc_delta chain n - 1)\<rparr>)) 0 (n # map fst es)"
      unfolding e using expiries_head_dec [where dl = "dc_delta chain", OF d assms(2)] by (simp del: expiries.simps list.map)
  qed
qed

text \<open>What one tick does to the expiry times: it counts every timer down, unless the first
  one has already expired; then it only drops the expired ones.\<close>

definition tick_times :: "('n \<times> nat) list \<Rightarrow> ('n \<times> nat) list" where
  "tick_times es = (case es of (_, Suc _) # _ \<Rightarrow> map (\<lambda>(n, t). (n, t - 1)) es | _ \<Rightarrow> es)"

text \<open>C13: A tick counts every timer of the chain down by one, unless the first one has expired already, in which case it counts nothing
  down. It hands exactly the timers that have now expired to the callback, in order of expiry, and removes them. The callback does not
  change the chain.\<close>

theorem delta_chain_tick_spec:
  assumes r: "delta_repr chain es"
  shows "\<exists>chain'. delta_chain_tick (Some (quiet g)) (chain, s) =
       Some (chain', fold g (map fst (takeWhile (\<lambda>(_, t). t = 0) (tick_times es))) s) \<and>
     delta_repr chain' (dropWhile (\<lambda>(_, t). t = 0) (tick_times es))"
proof (cases es)
  case Nil
  then show ?thesis using r
    by (simp add: delta_chain_tick_def tick_times_def delta_repr_def dq_repr_def)
next
  case (Cons e es')
  obtain n t where e: "e = (n, t)" by fastforce
  from r Cons e have t: "t = unat (dc_delta chain n)" and f: "dq_front (dc_dq chain) = Some n"
    by (auto simp: delta_repr_def dq_repr_def)
  show ?thesis
  proof (cases "dc_delta chain n = 0")
    case True
    then show ?thesis using delta_chain_advance_spec [OF r, of g s] Cons e t f
      by (simp add: delta_chain_tick_def tick_times_def)
  next
    case nz: False
    let ?c = "chain\<lparr>dc_delta := (dc_delta chain)(n := dc_delta chain n - 1)\<rparr>"
    have tt: "tick_times es = map (\<lambda>(n, t). (n, t - 1)) es"
      using nz Cons e t by (auto simp: tick_times_def unat_eq_0 split: nat.splits)
    have c: "delta_repr ?c (tick_times es)"
      unfolding tt using delta_tick_dec_repr [of chain n t es'] r nz Cons e by simp
    show ?thesis
    proof (cases "dc_delta chain n - 1 = 0")
      case True
      then show ?thesis using delta_chain_advance_spec [OF c, of g s] nz f
        by (simp add: delta_chain_tick_def Let_def)
    next
      case False
      have "t - 1 = unat (dc_delta chain n - 1)" using t nz by (simp add: unat_minus_one)
      then have "t - 1 \<noteq> 0" using False by (simp only: unat_eq_0 not_False_eq_True)
      then show ?thesis using nz f False c Cons e tt
        by (simp add: delta_chain_tick_def Let_def)
    qed
  qed
qed

section \<open>Removal\<close>

text \<open>Removing a queued timer keeps the expiry times of all others, when the summed delta of
  its successor fits the 64 bits of the field.\<close>

lemma delta_chain_dequeue_core:
  assumes r: "delta_repr chain (es @ (n, t) # fs)"
    and fits: "\<And>m u. (m, u) \<in> set fs \<Longrightarrow> u < 2 ^ 64"
  shows "delta_repr (delta_chain_dequeue_no_callback chain n) (es @ fs)"
proof -
  let ?dl = "dc_delta chain" and ?as = "map fst es" and ?bs = "map fst fs"
  have q: "dq_repr (dc_mem chain) (dc_dq chain) (?as @ n # ?bs)"
    and ex: "es @ (n, t) # fs = expiries ?dl 0 (?as @ n # ?bs)"
    using r by (simp_all add: delta_repr_def)
  have dis: "distinct (?as @ n # ?bs)" using q by (rule dq_repr_distinct)
  have es: "es = expiries ?dl 0 ?as" and fs: "fs = expiries ?dl (dsum ?dl ?as + unat (?dl n)) ?bs"
  proof -
    have "length es = length (expiries ?dl 0 ?as)"
      using map_fst_expiries [of ?dl 0 ?as] by (metis length_map)
    with ex show "es = expiries ?dl 0 ?as" "fs = expiries ?dl (dsum ?dl ?as + unat (?dl n)) ?bs"
      by (auto simp: append_eq_append_conv)
  qed
  obtain h' dq' where d: "dq_dequeue (dc_mem chain, dc_dq chain) n = (h', dq')" by fastforce
  have rep: "dq_repr h' dq' (?as @ ?bs)" using dq_dequeue_repr [OF q d] by simp
  define dl' where "dl' = (case ?bs of [] \<Rightarrow> ?dl | b # _ \<Rightarrow> ?dl(b := ?dl b + ?dl n))"
  have nx: "ld_next (dc_mem chain n) = first_or ?bs None" using q by (simp add: dq_repr_def)
  have c: "delta_chain_dequeue_no_callback chain n = chain\<lparr>dc_mem := h', dc_dq := dq', dc_delta := dl'\<rparr>"
    using d nx by (cases "?bs") (auto simp: delta_chain_dequeue_no_callback_def dl'_def Let_def)
  have "expiries dl' 0 ?as = expiries ?dl 0 ?as" "dsum dl' ?as = dsum ?dl ?as"
    using dis by (auto simp: dl'_def intro!: expiries_cong dsum_cong split: list.splits)
  moreover have "expiries dl' (dsum ?dl ?as) ?bs = expiries ?dl (dsum ?dl ?as + unat (?dl n)) ?bs"
  proof (cases "?bs")
    case (Cons b bs')
    have "(b, dsum ?dl ?as + unat (?dl n) + unat (?dl b)) \<in> set fs"
      by (subst fs) (simp add: Cons)
    then have "unat (?dl b) + unat (?dl n) < 2 ^ 64" using fits by fastforce
    then have "unat (?dl b + ?dl n) = unat (?dl b) + unat (?dl n)"
      by (simp add: unat_word_ariths)
    moreover have "expiries dl' k bs' = expiries ?dl k bs'" for k
      using dis Cons by (intro expiries_cong) (auto simp: dl'_def)
    ultimately show ?thesis using Cons by (simp add: dl'_def ac_simps)
  qed simp
  ultimately show ?thesis
    unfolding c by (intro delta_reprI [where xs = "?as @ ?bs"]) (use rep es fs in auto)
qed

text \<open>Removing a timer keeps the expiry times of all other timers.\<close>

theorem delta_chain_dequeue_spec:
  assumes r: "delta_repr chain (es @ (n, t) # fs)"
    and fits: "\<And>m u. (m, u) \<in> set fs \<Longrightarrow> u < 2 ^ 64"
  shows "delta_repr (delta_chain_dequeue_no_callback chain n) (es @ fs)"
  using r fits by (rule delta_chain_dequeue_core)


section \<open>A chain, for examples\<close>

text \<open>Timers 1 and 2 that expire after 3 and 5 ticks.\<close>

definition two_timers :: "nat delta_chain" where
  "two_timers = \<lparr>dc_mem = (\<lambda>n. if n = 1 then \<lparr>ld_next = Some 2, ld_prev = None\<rparr>
       else if n = 2 then \<lparr>ld_next = None, ld_prev = Some 1\<rparr> else \<lparr>ld_next = None, ld_prev = None\<rparr>),
     dc_delta = (\<lambda>n. if n = 1 then 3 else 2), dc_dq = \<lparr>dq_front = Some 1, dq_rear = Some 2\<rparr>\<rparr>"

lemma two_timers_repr: "delta_repr two_timers [(1, 3), (2, 5)]"
  by (simp add: delta_repr_def two_timers_def dq_repr_def)

theorem delta_chain_insert_spec_witness:
  "\<exists>chain'. delta_chain_insert two_timers 7 4 = Some chain' \<and> delta_repr chain' [(1, 3), (7, 4), (2, 5)]"
  using delta_chain_insert_spec [OF two_timers_repr, of 7 4] by (simp add: timer_insert_def)

text \<open>With one tick left for the first timer, a tick hands it to the callback.\<close>

definition timer_due :: "nat delta_chain" where
  "timer_due = two_timers\<lparr>dc_delta := (\<lambda>n. if n = 1 then 1 else 2)\<rparr>"

lemma timer_due_repr: "delta_repr timer_due [(1, 1), (2, 3)]"
  by (simp add: delta_repr_def timer_due_def two_timers_def dq_repr_def)

theorem delta_chain_tick_spec_witness:
  "\<exists>chain'. delta_chain_tick (Some (quiet (\<lambda>n ns. n # ns))) (timer_due, []) = Some (chain', [1]) \<and> delta_repr chain' [(2, 2)]"
  using delta_chain_tick_spec [OF timer_due_repr, of "\<lambda>n ns. n # ns" "[]"]
  by (simp add: tick_times_def eval_nat_numeral)

theorem delta_chain_dequeue_spec_witness:
  "delta_repr (delta_chain_dequeue_no_callback two_timers 1) [(2, 5)]"
  using delta_chain_dequeue_spec [of two_timers "[]" 1 3 "[(2, 5)]"] two_timers_repr by simp

end
