(* ===== verification/Twan_Bits.thy ===== *)
theory Twan_Bits
  imports Twan_Prelude
begin

text \<open>
  The arithmetic helpers of \<open>include/std.h\<close> and \<open>include/compiler.h\<close>: find-first-set and
  find-last-set by halving, the ceiling logarithm, power-of-two alignment and the
  canonical-address test, with the specification each of them meets.
\<close>

section \<open>Definitions\<close>

subsection \<open>Find last set\<close>

text \<open>One narrowing step of \<^verbatim>\<open>fls32\<close>/\<^verbatim>\<open>fls64\<close>: if no bit under the mask is set, shift the
  value left and lower the bit number.\<close>

definition fls_narrow :: "'a::len word \<Rightarrow> nat \<Rightarrow> 'a word \<times> int \<Rightarrow> 'a word \<times> int" where
  "fls_narrow m k = (\<lambda>(val, bit).
     if val AND m = 0 then (push_bit k val, bit - int k) else (val, bit))"

definition fls32 :: "u32 \<Rightarrow> int" where
  "fls32 v =
     (if v = 0 then -1
      else
        let s = (v, 31);
            s = fls_narrow 0xffff0000 16 s;
            s = fls_narrow 0xff000000 8 s;
            s = fls_narrow 0xf0000000 4 s;
            (val, bit) = fls_narrow 0xc0000000 2 s
        in if val AND 0x80000000 = 0 then bit - 1 else bit)"

definition fls64 :: "u64 \<Rightarrow> int" where
  "fls64 v =
     (if v = 0 then -1
      else
        let s = (v, 63);
            s = fls_narrow 0xffffffff00000000 32 s;
            s = fls_narrow 0xffff000000000000 16 s;
            s = fls_narrow 0xff00000000000000 8 s;
            s = fls_narrow 0xf000000000000000 4 s;
            (val, bit) = fls_narrow 0xc000000000000000 2 s
        in if val AND 0x8000000000000000 = 0 then bit - 1 else bit)"

subsection \<open>Find first set\<close>

definition ffs_narrow :: "'a::len word \<Rightarrow> nat \<Rightarrow> 'a word \<times> int \<Rightarrow> 'a word \<times> int" where
  "ffs_narrow m k = (\<lambda>(val, bit).
     if val AND m = 0 then (drop_bit k val, bit + int k) else (val, bit))"

definition ffs32 :: "u32 \<Rightarrow> int" where
  "ffs32 v =
     (if v = 0 then -1
      else
        let s = (v, 0);
            s = ffs_narrow 0x0000ffff 16 s;
            s = ffs_narrow 0x000000ff 8 s;
            s = ffs_narrow 0x0000000f 4 s;
            (val, bit) = ffs_narrow 0x00000003 2 s
        in if val AND 0x00000001 = 0 then bit + 1 else bit)"

definition ffs64 :: "u64 \<Rightarrow> int" where
  "ffs64 v =
     (if v = 0 then -1
      else
        let s = (v, 0);
            s = ffs_narrow 0x00000000ffffffff 32 s;
            s = ffs_narrow 0x000000000000ffff 16 s;
            s = ffs_narrow 0x00000000000000ff 8 s;
            s = ffs_narrow 0x000000000000000f 4 s;
            (val, bit) = ffs_narrow 0x0000000000000003 2 s
        in if val AND 0x0000000000000001 = 0 then bit + 1 else bit)"

subsection \<open>Powers of two, alignment, addresses\<close>

definition is_pow2 :: "'a::len word \<Rightarrow> bool" where
  "is_pow2 x \<longleftrightarrow> x AND (x - 1) = 0"

definition p2align_up :: "'a::len word \<Rightarrow> 'a word \<Rightarrow> 'a word" where
  "p2align_up x y = (x + y - 1) AND NOT (y - 1)"

definition p2align_down :: "'a::len word \<Rightarrow> 'a word \<Rightarrow> 'a word" where
  "p2align_down x y = x AND NOT (y - 1)"

text \<open>The \<^verbatim>\<open>while (temp != 0)\<close> loop of \<^verbatim>\<open>log2\<close>.\<close>

function log2_loop :: "u64 \<Rightarrow> u64 \<Rightarrow> u64" where
  "log2_loop temp order =
     (if temp \<noteq> 0 then log2_loop (drop_bit 1 temp) (order + 1) else order)"
  by pat_completeness auto
termination
  by (relation "measure (\<lambda>(temp, order). unat temp)")
     (auto simp: unat_drop_bit_eq drop_bit_eq_div unat_gt_0 unat_div_distrib)

definition log2 :: "u64 \<Rightarrow> u64" where
  "log2 sz =
     (if sz = 0 then 0
      else
        let order = log2_loop (drop_bit 1 sz) 0
        in if \<not> is_pow2 sz then order + 1 else order)"

definition is_canonical :: "u64 \<Rightarrow> bool" where
  "is_canonical va =
     (let b = (drop_bit 47 va AND 1) \<noteq> 0
      in if b then drop_bit 48 va = 0xffff else drop_bit 48 va = 0)"

definition bcd_to_decimal :: "u8 \<Rightarrow> u8" where
  "bcd_to_decimal bcd = drop_bit 4 bcd * 10 + (bcd AND 0xf)"

definition decimal_to_bcd :: "u8 \<Rightarrow> u8" where
  "decimal_to_bcd d = push_bit 4 (d div 10) OR (d mod 10)"

section \<open>Find last set is the highest set bit\<close>

definition msb_is :: "'a::len word \<Rightarrow> int \<Rightarrow> bool" where
  "msb_is v b \<longleftrightarrow> 0 \<le> b \<and> bit v (nat b) \<and> (\<forall>i. bit v i \<longrightarrow> int i \<le> b)"

definition lsb_is :: "'a::len word \<Rightarrow> int \<Rightarrow> bool" where
  "lsb_is v b \<longleftrightarrow> 0 \<le> b \<and> bit v (nat b) \<and> (\<forall>i. bit v i \<longrightarrow> b \<le> int i)"

text \<open>The loop invariant of the halving: the value is the input shifted left so that bit
  \<open>n\<close> is on top, nothing above \<open>n\<close> is set, and one of the \<open>j\<close> bits below is.\<close>

definition fls_inv :: "'a::len word \<Rightarrow> nat \<Rightarrow> 'a word \<times> int \<Rightarrow> bool" where
  "fls_inv v j = (\<lambda>(val, b). \<exists>n. b = int n \<and> n < LENGTH('a) \<and>
     val = push_bit (LENGTH('a) - 1 - n) v \<and> (\<forall>i > n. \<not> bit v i) \<and>
     (\<exists>i \<le> n. n < i + j \<and> bit v i))"

lemma fls_inv_top:
  fixes v :: "'a::len word"
  assumes "n < LENGTH('a)" and "\<forall>i > n. \<not> bit v i" and "0 < k" and "k \<le> LENGTH('a)"
  shows "push_bit (LENGTH('a) - 1 - n) v AND NOT (mask (LENGTH('a) - k)) = 0
     \<longleftrightarrow> (\<forall>i \<le> n. n < i + k \<longrightarrow> \<not> bit v i)" (is "?L = ?R")
proof
  assume L: ?L
  show ?R
  proof (intro allI impI)
    fix i assume i: "i \<le> n" "n < i + k"
    then have "\<not> bit (push_bit (LENGTH('a) - 1 - n) v AND NOT (mask (LENGTH('a) - k)))
        (LENGTH('a) - 1 - n + i)"
      using L by simp
    with i assms(1,3,4) show "\<not> bit v i"
      by (auto simp: bit_simps)
  qed
next
  assume R: ?R
  show ?L
  proof (rule bit_word_eqI)
    fix m assume m: "m < LENGTH('a)"
    show "bit (push_bit (LENGTH('a) - 1 - n) v AND NOT (mask (LENGTH('a) - k))) m
        \<longleftrightarrow> bit (0 :: 'a word) m"
    proof -
      have "m < LENGTH('a) - k" if "bit v (m - (LENGTH('a) - Suc n))" "LENGTH('a) - Suc n \<le> m"
        using R [rule_format, of "m - (LENGTH('a) - Suc n)"] that m assms by linarith
      with m show ?thesis by (auto simp: bit_simps)
    qed
  qed
qed

lemma fls_narrow_inv:
  fixes v :: "'a::len word"
  assumes inv: "fls_inv v (2 * k) s" and m: "m = NOT (mask (LENGTH('a) - k))"
    and k: "0 < k" "k \<le> LENGTH('a)"
  shows "fls_inv v k (fls_narrow m k s)"
proof -
  obtain val n where s: "s = (val, int n)" and n: "n < LENGTH('a)"
    and val: "val = push_bit (LENGTH('a) - 1 - n) v" and above: "\<forall>i > n. \<not> bit v i"
    and ex: "\<exists>i \<le> n. n < i + 2 * k \<and> bit v i"
    using inv by (cases s) (auto simp: fls_inv_def)
  have top: "val AND m = 0 \<longleftrightarrow> (\<forall>i \<le> n. n < i + k \<longrightarrow> \<not> bit v i)"
    using fls_inv_top [OF n above k] val m by simp
  show ?thesis
  proof (cases "val AND m = 0")
    case True
    with ex top obtain i where i: "i \<le> n" "n < i + 2 * k" "bit v i" "i + k \<le> n"
      by (meson not_less)
    have "\<forall>i > n - k. \<not> bit v i"
      using True top above by (metis add.commute less_diff_conv2 not_le_imp_less i(4) le_add2 le_trans)
    moreover have "push_bit k val = push_bit (LENGTH('a) - 1 - (n - k)) v"
      using val i n by (simp add: push_bit_push_bit add.commute)
    moreover have "\<exists>i \<le> n - k. n - k < i + k \<and> bit v i"
      using i by (intro exI [of _ i]) auto
    moreover have "fls_narrow m k s = (push_bit k val, int (n - k))"
      using True s i by (simp add: fls_narrow_def)
    moreover have "n - k < LENGTH('a)" using n by simp
    ultimately show ?thesis
      by (simp only: fls_inv_def case_prod_conv) blast
  next
    case False
    with top ex show ?thesis
      using s n val above by (auto simp: fls_narrow_def fls_inv_def)
  qed
qed

lemma fls_inv_start: "v \<noteq> 0 \<Longrightarrow> fls_inv v (LENGTH('a)) (v, int (LENGTH('a) - 1))"
  for v :: "'a::len word"
  using word_nonzero_bit [of v] by (auto simp: fls_inv_def bit_imp_le_length dest: bit_imp_le_length)

lemma fls_inv_one: "fls_inv v (Suc 0) (val, b) \<Longrightarrow> msb_is v b"
proof -
  assume "fls_inv v (Suc 0) (val, b)"
  then obtain n i where n: "b = int n" "\<forall>i > n. \<not> bit v i" "i \<le> n" "n < i + Suc 0" "bit v i"
    by (auto simp: fls_inv_def)
  then have "i = n" by simp
  with n show ?thesis by (auto simp: msb_is_def intro: leI)
qed

lemma fls_inv_final:
  fixes v :: "'a::len word"
  assumes "fls_inv v 2 s" and "m = NOT (mask (LENGTH('a) - 1))"
  shows "msb_is v (case s of (val, b) \<Rightarrow> if val AND m = 0 then b - 1 else b)"
proof -
  have "fls_inv v (Suc 0) (fls_narrow m (Suc 0) s)"
    using assms by (intro fls_narrow_inv) (simp_all add: Suc_le_eq)
  then show ?thesis
    by (cases s) (auto dest: fls_inv_one simp: fls_narrow_def split: if_splits)
qed

lemma top_masks32:
  "0xffff0000 = NOT (mask (LENGTH(32) - 16) :: u32)" "0xff000000 = NOT (mask (LENGTH(32) - 8) :: u32)"
  "0xf0000000 = NOT (mask (LENGTH(32) - 4) :: u32)" "0xc0000000 = NOT (mask (LENGTH(32) - 2) :: u32)"
  "0x80000000 = NOT (mask (LENGTH(32) - 1) :: u32)"
  by (simp_all add: mask_eq_exp_minus_1)

lemma top_masks64:
  "0xffffffff00000000 = NOT (mask (LENGTH(64) - 32) :: u64)"
  "0xffff000000000000 = NOT (mask (LENGTH(64) - 16) :: u64)"
  "0xff00000000000000 = NOT (mask (LENGTH(64) - 8) :: u64)"
  "0xf000000000000000 = NOT (mask (LENGTH(64) - 4) :: u64)"
  "0xc000000000000000 = NOT (mask (LENGTH(64) - 2) :: u64)"
  "0x8000000000000000 = NOT (mask (LENGTH(64) - 1) :: u64)"
  by (simp_all add: mask_eq_exp_minus_1)

lemma fls32_spec: "v \<noteq> 0 \<Longrightarrow> msb_is v (fls32 v)"
proof -
  assume "v \<noteq> 0"
  then have "fls_inv v (2 * 16) (v, 31)" using fls_inv_start [of v] by simp
  then have "fls_inv v (2 * 8) (fls_narrow 0xffff0000 16 (v, 31))" (is "fls_inv v _ ?a")
    using fls_narrow_inv [OF _ top_masks32(1)] by simp
  then have "fls_inv v (2 * 4) (fls_narrow 0xff000000 8 ?a)" (is "fls_inv v _ ?b")
    using fls_narrow_inv [OF _ top_masks32(2)] by simp
  then have "fls_inv v (2 * 2) (fls_narrow 0xf0000000 4 ?b)" (is "fls_inv v _ ?c")
    using fls_narrow_inv [OF _ top_masks32(3)] by simp
  then have "fls_inv v 2 (fls_narrow 0xc0000000 2 ?c)" (is "fls_inv v _ ?d")
    using fls_narrow_inv [OF _ top_masks32(4)] by simp
  then have "msb_is v (case ?d of (val, b) \<Rightarrow> if val AND 0x80000000 = 0 then b - 1 else b)"
    by (rule fls_inv_final [OF _ top_masks32(5)])
  with \<open>v \<noteq> 0\<close> show ?thesis by (simp add: fls32_def Let_def split_def)
qed

lemma fls64_spec: "v \<noteq> 0 \<Longrightarrow> msb_is v (fls64 v)"
proof -
  assume "v \<noteq> 0"
  then have "fls_inv v (2 * 32) (v, 63)" using fls_inv_start [of v] by simp
  then have "fls_inv v (2 * 16) (fls_narrow 0xffffffff00000000 32 (v, 63))" (is "fls_inv v _ ?a")
    using fls_narrow_inv [OF _ top_masks64(1)] by simp
  then have "fls_inv v (2 * 8) (fls_narrow 0xffff000000000000 16 ?a)" (is "fls_inv v _ ?b")
    using fls_narrow_inv [OF _ top_masks64(2)] by simp
  then have "fls_inv v (2 * 4) (fls_narrow 0xff00000000000000 8 ?b)" (is "fls_inv v _ ?c")
    using fls_narrow_inv [OF _ top_masks64(3)] by simp
  then have "fls_inv v (2 * 2) (fls_narrow 0xf000000000000000 4 ?c)" (is "fls_inv v _ ?d")
    using fls_narrow_inv [OF _ top_masks64(4)] by simp
  then have "fls_inv v 2 (fls_narrow 0xc000000000000000 2 ?d)" (is "fls_inv v _ ?e")
    using fls_narrow_inv [OF _ top_masks64(5)] by simp
  then have "msb_is v (case ?e of (val, b) \<Rightarrow>
      if val AND 0x8000000000000000 = 0 then b - 1 else b)"
    by (rule fls_inv_final [OF _ top_masks64(6)])
  with \<open>v \<noteq> 0\<close> show ?thesis by (simp add: fls64_def Let_def split_def)
qed

section \<open>Find first set is the lowest set bit\<close>

definition ffs_inv :: "'a::len word \<Rightarrow> nat \<Rightarrow> 'a word \<times> int \<Rightarrow> bool" where
  "ffs_inv v j = (\<lambda>(val, b). \<exists>n. b = int n \<and> val = drop_bit n v \<and>
     (\<forall>i < n. \<not> bit v i) \<and> (\<exists>i \<ge> n. i < n + j \<and> bit v i))"

lemma ffs_inv_low: "drop_bit n v AND mask k = 0 \<longleftrightarrow> (\<forall>i \<ge> n. i < n + k \<longrightarrow> \<not> bit v i)"
  for v :: "'a::len word"
proof -
  have "drop_bit n v AND mask k = 0 \<longleftrightarrow> (\<forall>i. \<not> (bit v (n + i) \<and> i < k))"
    using bit_imp_le_length [of v] by (fastforce simp: word_and_zero_bits bit_simps)
  also have "\<dots> \<longleftrightarrow> (\<forall>i \<ge> n. i < n + k \<longrightarrow> \<not> bit v i)"
    by (metis add_less_cancel_left le_add1 le_add_diff_inverse)
  finally show ?thesis .
qed

lemma ffs_narrow_inv:
  fixes v :: "'a::len word"
  assumes inv: "ffs_inv v (2 * k) s" and m: "m = mask k"
  shows "ffs_inv v k (ffs_narrow m k s)"
proof -
  obtain val n where s: "s = (val, int n)" and val: "val = drop_bit n v"
    and below: "\<forall>i < n. \<not> bit v i" and ex: "\<exists>i \<ge> n. i < n + 2 * k \<and> bit v i"
    using inv by (cases s) (auto simp: ffs_inv_def)
  have low: "val AND m = 0 \<longleftrightarrow> (\<forall>i \<ge> n. i < n + k \<longrightarrow> \<not> bit v i)"
    using ffs_inv_low val m by simp
  show ?thesis
  proof (cases "val AND m = 0")
    case True
    with ex low obtain i where i: "n + k \<le> i" "i < n + 2 * k" "bit v i"
      by (meson not_less)
    have "\<forall>i < n + k. \<not> bit v i" using True low below by (metis not_le_imp_less)
    moreover have "\<exists>i \<ge> n + k. i < n + k + k \<and> bit v i"
      using i by (intro exI [of _ i]) simp
    moreover have "ffs_narrow m k s = (drop_bit (n + k) v, int (n + k))"
      using True s val by (simp add: ffs_narrow_def drop_bit_drop_bit add.commute)
    ultimately show ?thesis
      by (simp only: ffs_inv_def case_prod_conv) blast
  next
    case False
    with low s val below show ?thesis by (auto simp: ffs_narrow_def ffs_inv_def)
  qed
qed

lemma ffs_inv_start: "v \<noteq> 0 \<Longrightarrow> ffs_inv v (LENGTH('a)) (v, 0)" for v :: "'a::len word"
  using word_nonzero_bit [of v] by (auto simp: ffs_inv_def)

lemma ffs_inv_one: "ffs_inv v (Suc 0) (val, b) \<Longrightarrow> lsb_is v b"
proof -
  assume "ffs_inv v (Suc 0) (val, b)"
  then obtain n i where n: "b = int n" "\<forall>i < n. \<not> bit v i" "n \<le> i" "i < n + Suc 0" "bit v i"
    by (auto simp: ffs_inv_def)
  then have "i = n" by simp
  with n show ?thesis by (auto simp: lsb_is_def intro: leI)
qed

lemma ffs_inv_final:
  assumes "ffs_inv v 2 s"
  shows "lsb_is v (case s of (val, b) \<Rightarrow> if val AND 1 = 0 then b + 1 else b)"
proof -
  have "ffs_inv v (Suc 0) (ffs_narrow 1 (Suc 0) s)"
    using assms by (intro ffs_narrow_inv) (simp_all add: mask_eq_exp_minus_1)
  then show ?thesis
    by (cases s) (auto dest: ffs_inv_one simp: ffs_narrow_def add.commute split: if_splits)
qed

lemma ffs32_spec: "v \<noteq> 0 \<Longrightarrow> lsb_is v (ffs32 v)"
proof -
  assume "v \<noteq> 0"
  then have "ffs_inv v (2 * 16) (v, 0)" using ffs_inv_start [of v] by simp
  then have "ffs_inv v (2 * 8) (ffs_narrow 0xffff 16 (v, 0))" (is "ffs_inv v _ ?a")
    using ffs_narrow_inv [of v 16] by (simp add: mask_eq_exp_minus_1)
  then have "ffs_inv v (2 * 4) (ffs_narrow 0xff 8 ?a)" (is "ffs_inv v _ ?b")
    using ffs_narrow_inv [of v 8] by (simp add: mask_eq_exp_minus_1)
  then have "ffs_inv v (2 * 2) (ffs_narrow 0xf 4 ?b)" (is "ffs_inv v _ ?c")
    using ffs_narrow_inv [of v 4] by (simp add: mask_eq_exp_minus_1)
  then have "ffs_inv v 2 (ffs_narrow 3 2 ?c)" (is "ffs_inv v _ ?d")
    using ffs_narrow_inv [of v 2] by (simp add: mask_eq_exp_minus_1)
  then have "lsb_is v (case ?d of (val, b) \<Rightarrow> if val AND 1 = 0 then b + 1 else b)"
    by (rule ffs_inv_final)
  with \<open>v \<noteq> 0\<close> show ?thesis by (simp add: ffs32_def Let_def split_def)
qed

lemma ffs64_spec: "v \<noteq> 0 \<Longrightarrow> lsb_is v (ffs64 v)"
proof -
  assume "v \<noteq> 0"
  then have "ffs_inv v (2 * 32) (v, 0)" using ffs_inv_start [of v] by simp
  then have "ffs_inv v (2 * 16) (ffs_narrow 0xffffffff 32 (v, 0))" (is "ffs_inv v _ ?a")
    using ffs_narrow_inv [of v 32] by (simp add: mask_eq_exp_minus_1)
  then have "ffs_inv v (2 * 8) (ffs_narrow 0xffff 16 ?a)" (is "ffs_inv v _ ?b")
    using ffs_narrow_inv [of v 16] by (simp add: mask_eq_exp_minus_1)
  then have "ffs_inv v (2 * 4) (ffs_narrow 0xff 8 ?b)" (is "ffs_inv v _ ?c")
    using ffs_narrow_inv [of v 8] by (simp add: mask_eq_exp_minus_1)
  then have "ffs_inv v (2 * 2) (ffs_narrow 0xf 4 ?c)" (is "ffs_inv v _ ?d")
    using ffs_narrow_inv [of v 4] by (simp add: mask_eq_exp_minus_1)
  then have "ffs_inv v 2 (ffs_narrow 3 2 ?d)" (is "ffs_inv v _ ?e")
    using ffs_narrow_inv [of v 2] by (simp add: mask_eq_exp_minus_1)
  then have "lsb_is v (case ?e of (val, b) \<Rightarrow> if val AND 1 = 0 then b + 1 else b)"
    by (rule ffs_inv_final)
  with \<open>v \<noteq> 0\<close> show ?thesis by (simp add: ffs64_def Let_def split_def)
qed

section \<open>Search results as options\<close>

text \<open>The return value \<open>-1\<close> of a search stands for an empty word; every other value is the
  number of a set bit.\<close>

lemma fls64_zero [simp]: "fls64 0 = -1"
  by (simp add: fls64_def)

lemma ffs64_zero [simp]: "ffs64 0 = -1"
  by (simp add: ffs64_def)

lemma fls64_neg [simp]: "fls64 v = -1 \<longleftrightarrow> v = 0"
  by (cases "v = 0") (auto dest!: fls64_spec simp: msb_is_def)

lemma ffs64_neg [simp]: "ffs64 v = -1 \<longleftrightarrow> v = 0"
  by (cases "v = 0") (auto dest!: ffs64_spec simp: lsb_is_def)

lemma msb_is_bounds: "msb_is v b \<Longrightarrow> 0 \<le> b \<and> b < int (LENGTH('a))" for v :: "'a::len word"
  by (auto simp: msb_is_def zless_nat_eq_int_zless dest!: bit_imp_le_length)

lemma lsb_is_bounds: "lsb_is v b \<Longrightarrow> 0 \<le> b \<and> b < int (LENGTH('a))" for v :: "'a::len word"
  by (auto simp: lsb_is_def zless_nat_eq_int_zless dest!: bit_imp_le_length)

lemma msb_is_natE:
  fixes v :: "'a::len word"
  assumes "msb_is v b"
  obtains n where "b = int n" "n < LENGTH('a)" "bit v n" "\<And>i. bit v i \<Longrightarrow> i \<le> n"
  using assms msb_is_bounds [OF assms] by (cases b) (auto simp: msb_is_def)

lemma lsb_is_natE:
  fixes v :: "'a::len word"
  assumes "lsb_is v b"
  obtains n where "b = int n" "n < LENGTH('a)" "bit v n" "\<And>i. bit v i \<Longrightarrow> n \<le> i"
  using assms lsb_is_bounds [OF assms] by (cases b) (auto simp: lsb_is_def)

end
