(* ===== verification/Twan_Bitmap.thy ===== *)
theory Twan_Bitmap
  imports Twan_Bits
begin

text \<open>
  The bitmaps of \<open>include/lib/dsa/bmp256.h\<close> and \<open>include/lib/dsa/bmp512.h\<close>. An array is a
  function of its index; only the indices below the array's length are ever used. The
  locale \<open>bitset\<close> is the contract the clients rely on (a finite set of bit numbers with
  insertion, removal, minimum and maximum); both bitmaps interpret it.
\<close>

section \<open>Definitions: 256 bits\<close>

record bmp256 =
  bmp :: "nat \<Rightarrow> u64"

definition bmp256_and :: "bmp256 \<Rightarrow> bmp256 \<Rightarrow> bmp256" where
  "bmp256_and dest src = dest\<lparr>bmp := (bmp dest)
     (0 := bmp dest 0 AND bmp src 0,
      1 := bmp dest 1 AND bmp src 1,
      2 := bmp dest 2 AND bmp src 2,
      3 := bmp dest 3 AND bmp src 3)\<rparr>"

definition bmp256_or :: "bmp256 \<Rightarrow> bmp256 \<Rightarrow> bmp256" where
  "bmp256_or dest src = dest\<lparr>bmp := (bmp dest)
     (0 := bmp dest 0 OR bmp src 0,
      1 := bmp dest 1 OR bmp src 1,
      2 := bmp dest 2 OR bmp src 2,
      3 := bmp dest 3 OR bmp src 3)\<rparr>"

definition bmp256_test :: "bmp256 \<Rightarrow> u8 \<Rightarrow> bool" where
  "bmp256_test b n =
     (let index = unat (n div 64); off = unat (n mod 64)
      in drop_bit off (bmp b index) AND 1 \<noteq> 0)"

definition bmp256_set :: "bmp256 \<Rightarrow> u8 \<Rightarrow> bmp256" where
  "bmp256_set b n =
     (let index = unat (n div 64); off = unat (n mod 64)
      in b\<lparr>bmp := (bmp b)(index := bmp b index OR push_bit off 1)\<rparr>)"

definition bmp256_unset :: "bmp256 \<Rightarrow> u8 \<Rightarrow> bmp256" where
  "bmp256_unset b n =
     (let index = unat (n div 64); off = unat (n mod 64)
      in b\<lparr>bmp := (bmp b)(index := bmp b index AND NOT (push_bit off 1))\<rparr>)"

definition bmp256_ffs :: "bmp256 \<Rightarrow> int" where
  "bmp256_ffs b =
     (let base = ffs64 (bmp b 0) in if base \<noteq> -1 then base
      else let base = ffs64 (bmp b 1) in if base \<noteq> -1 then base + 64
      else let base = ffs64 (bmp b 2) in if base \<noteq> -1 then base + 128
      else let base = ffs64 (bmp b 3) in if base \<noteq> -1 then base + 192
      else base)"

definition bmp256_fls :: "bmp256 \<Rightarrow> int" where
  "bmp256_fls b =
     (let base = fls64 (bmp b 3) in if base \<noteq> -1 then base + 192
      else let base = fls64 (bmp b 2) in if base \<noteq> -1 then base + 128
      else let base = fls64 (bmp b 1) in if base \<noteq> -1 then base + 64
      else fls64 (bmp b 0))"

text \<open>\<^verbatim>\<open>memset\<close> with \<^verbatim>\<open>0xff\<close> and \<^verbatim>\<open>0\<close> over the whole array.\<close>

definition bmp256_set_all :: "bmp256 \<Rightarrow> bmp256" where
  "bmp256_set_all b = b\<lparr>bmp := (\<lambda>_. 0xffffffffffffffff)\<rparr>"

definition bmp256_unset_all :: "bmp256 \<Rightarrow> bmp256" where
  "bmp256_unset_all b = b\<lparr>bmp := (\<lambda>_. 0)\<rparr>"

definition bmp256_unset_all_above :: "bmp256 \<Rightarrow> u8 \<Rightarrow> bmp256" where
  "bmp256_unset_all_above b n =
     (let index = unat (n div 64); off = unat (n mod 64);
          m = (if off = 63 then NOT 0 else push_bit (off + 1) 1 - 1);
          b = b\<lparr>bmp := (bmp b)(index := bmp b index AND m)\<rparr>;
          b = (if index < 3 then b\<lparr>bmp := (bmp b)(3 := 0)\<rparr> else b);
          b = (if index < 2 then b\<lparr>bmp := (bmp b)(2 := 0)\<rparr> else b)
      in if index < 1 then b\<lparr>bmp := (bmp b)(1 := 0)\<rparr> else b)"

section \<open>Definitions: 512 bits\<close>

record bmp512 =
  high256 :: bmp256
  low256 :: bmp256

definition bmp512_and :: "bmp512 \<Rightarrow> bmp512 \<Rightarrow> bmp512" where
  "bmp512_and dest src =
     dest\<lparr>low256 := bmp256_and (low256 dest) (low256 src),
          high256 := bmp256_and (high256 dest) (high256 src)\<rparr>"

definition bmp512_or :: "bmp512 \<Rightarrow> bmp512 \<Rightarrow> bmp512" where
  "bmp512_or dest src =
     dest\<lparr>low256 := bmp256_or (low256 dest) (low256 src),
          high256 := bmp256_or (high256 dest) (high256 src)\<rparr>"

text \<open>The \<^verbatim>\<open>int\<close> bit number is truncated to the \<^verbatim>\<open>u8\<close> parameter of the 256-bit operations.\<close>

definition bmp512_set :: "bmp512 \<Rightarrow> int \<Rightarrow> bmp512" where
  "bmp512_set b n =
     (if n \<ge> 256 then b\<lparr>high256 := bmp256_set (high256 b) (word_of_int (n - 256))\<rparr>
      else b\<lparr>low256 := bmp256_set (low256 b) (word_of_int n)\<rparr>)"

definition bmp512_unset :: "bmp512 \<Rightarrow> int \<Rightarrow> bmp512" where
  "bmp512_unset b n =
     (if n \<ge> 256 then b\<lparr>high256 := bmp256_unset (high256 b) (word_of_int (n - 256))\<rparr>
      else b\<lparr>low256 := bmp256_unset (low256 b) (word_of_int n)\<rparr>)"

definition bmp512_ffs :: "bmp512 \<Rightarrow> int" where
  "bmp512_ffs b =
     (let bit = bmp256_ffs (low256 b) in if bit \<noteq> -1 then bit
      else let bit = bmp256_ffs (high256 b) in if bit = -1 then bit
      else bit + 256)"

definition bmp512_fls :: "bmp512 \<Rightarrow> int" where
  "bmp512_fls b =
     (let bit = bmp256_fls (high256 b) in if bit \<noteq> -1 then bit + 256
      else let bit = bmp256_fls (low256 b) in if bit = -1 then bit
      else bit)"

definition bmp512_set_all :: "bmp512 \<Rightarrow> bmp512" where
  "bmp512_set_all b =
     b\<lparr>high256 := bmp256_set_all (high256 b), low256 := bmp256_set_all (low256 b)\<rparr>"

definition bmp512_unset_all :: "bmp512 \<Rightarrow> bmp512" where
  "bmp512_unset_all b =
     b\<lparr>high256 := bmp256_unset_all (high256 b), low256 := bmp256_unset_all (low256 b)\<rparr>"

definition bmp512_set2 :: "bmp512 \<Rightarrow> int \<Rightarrow> bmp512" where
  "bmp512_set2 b first_bit = bmp512_set (bmp512_set b first_bit) (first_bit + 1)"

definition bmp512_unset2 :: "bmp512 \<Rightarrow> int \<Rightarrow> bmp512" where
  "bmp512_unset2 b first_bit = bmp512_unset (bmp512_unset b first_bit) (first_bit + 1)"

definition bmp512_ffs_unset :: "bmp512 \<Rightarrow> int \<times> bmp512" where
  "bmp512_ffs_unset b =
     (let bit = bmp512_ffs b in (bit, if bit \<noteq> -1 then bmp512_unset b bit else b))"

text \<open>The search loop of \<^verbatim>\<open>bmp512_ffs2\<close>, on its private copy of the bitmap. Each turn unsets at
  least one of the 512 bits, so 512 turns always suffice (lemma \<open>ffs2_loop_enough\<close>); the
  fuel is the number of turns left.\<close>

fun bmp512_ffs2_loop :: "nat \<Rightarrow> bmp512 \<Rightarrow> int option" where
  "bmp512_ffs2_loop 0 tmp = (if bmp512_ffs tmp = -1 then Some (-1) else None)"
| "bmp512_ffs2_loop (Suc n) tmp =
     (let bit = bmp512_ffs tmp in
      if bit = -1 then Some (-1)
      else
        let tmp = bmp512_unset tmp bit; next = bmp512_ffs tmp in
        if next = -1 then Some (-1)
        else if next = bit + 1 then Some bit
        else bmp512_ffs2_loop n (bmp512_unset tmp next))"

definition bmp512_ffs2 :: "bmp512 \<Rightarrow> int option" where
  "bmp512_ffs2 b = bmp512_ffs2_loop 512 b"

definition bmp512_ffs2_unset2 :: "bmp512 \<Rightarrow> (int \<times> bmp512) option" where
  "bmp512_ffs2_unset2 b =
     (case bmp512_ffs2 b of None \<Rightarrow> None
      | Some n \<Rightarrow> Some (n, if n \<noteq> -1 then bmp512_unset2 b n else b))"

section \<open>The contract of a bitmap\<close>

text \<open>\<open>members\<close> is the set of set bits, \<open>width\<close> the number of bits.\<close>

locale bitset =
  fixes members :: "'b \<Rightarrow> int set"
    and add :: "'b \<Rightarrow> int \<Rightarrow> 'b"
    and del :: "'b \<Rightarrow> int \<Rightarrow> 'b"
    and lowest :: "'b \<Rightarrow> int"
    and highest :: "'b \<Rightarrow> int"
    and width :: int
  assumes members_range: "members b \<subseteq> {0..<width}"
    and members_add: "0 \<le> i \<Longrightarrow> i < width \<Longrightarrow> members (add b i) = insert i (members b)"
    and members_del: "0 \<le> i \<Longrightarrow> i < width \<Longrightarrow> members (del b i) = members b - {i}"
    and lowest_empty: "members b = {} \<Longrightarrow> lowest b = -1"
    and lowest_Min: "members b \<noteq> {} \<Longrightarrow> lowest b = Min (members b)"
    and highest_empty: "members b = {} \<Longrightarrow> highest b = -1"
    and highest_Max: "members b \<noteq> {} \<Longrightarrow> highest b = Max (members b)"
begin

lemma finite_members [simp]: "finite (members b)"
  using members_range finite_subset by blast

lemma lowest_neg: "lowest b = -1 \<longleftrightarrow> members b = {}"
  using members_range [of b] Min_in [of "members b"] lowest_empty lowest_Min by fastforce

lemma highest_neg: "highest b = -1 \<longleftrightarrow> members b = {}"
  using members_range [of b] Max_in [of "members b"] highest_empty highest_Max by fastforce

lemma lowest_mem: "lowest b \<noteq> -1 \<Longrightarrow> lowest b \<in> members b"
  using Min_in [of "members b"] lowest_neg lowest_Min by auto

lemma highest_mem: "highest b \<noteq> -1 \<Longrightarrow> highest b \<in> members b"
  using Max_in [of "members b"] highest_neg highest_Max by auto

lemma lowest_le: "i \<in> members b \<Longrightarrow> lowest b \<le> i"
  by (metis Min_le empty_iff finite_members lowest_Min)

lemma highest_ge: "i \<in> members b \<Longrightarrow> i \<le> highest b"
  by (metis Max_ge empty_iff finite_members highest_Max)

lemma mem_range: "i \<in> members b \<Longrightarrow> 0 \<le> i \<and> i < width"
  using members_range by force

lemma highest_range: "-1 \<le> highest b \<and> highest b < width \<or> highest b = -1"
  using mem_range highest_mem by fastforce

text \<open>Taking the lowest member out: the allocation pattern of the clients.\<close>

lemma members_del_lowest:
  "lowest b \<noteq> -1 \<Longrightarrow> members (del b (lowest b)) = members b - {lowest b}"
  using members_del mem_range lowest_mem by blast

lemma members_add_lowest:
  "lowest b \<noteq> -1 \<Longrightarrow> members (add (del b (lowest b)) (lowest b)) = members b"
  using members_del_lowest [of b] members_add mem_range lowest_mem [of b] by auto

lemma card_del_lowest:
  "lowest b \<noteq> -1 \<Longrightarrow> card (members (del b (lowest b))) < card (members b)"
  by (metis card_Diff1_less finite_members lowest_mem members_del_lowest)

end

section \<open>The 256-bit map meets the contract\<close>

lemma bmp256_index: "unat (i div 64) = unat i div 64" "unat (i mod 64) = unat i mod 64" for i :: u8
  by (simp_all add: unat_div_distrib unat_mod_distrib)

lemma bmp256_test_bit: "bmp256_test b i \<longleftrightarrow> bit (bmp b (unat i div 64)) (unat i mod 64)"
proof -
  have "drop_bit n w AND 1 \<noteq> 0 \<longleftrightarrow> bit w n" for n and w :: u64
    by (simp add: and_one_eq bit_iff_odd_drop_bit odd_iff_mod_2_eq_one)
  then show ?thesis by (simp add: bmp256_test_def bmp256_index Let_def)
qed

lemma u8_index_inj:
  fixes i j :: u8
  assumes "unat i div 64 = unat j div 64" and "unat i mod 64 = unat j mod 64"
  shows "i = j"
  using assms by (metis div_mult_mod_eq word_unat_eq_iff)

lemma bmp256_test_upd:
  "bmp256_test (b\<lparr>bmp := (bmp b)(unat i div 64 := w)\<rparr>) j \<longleftrightarrow>
     (if unat j div 64 = unat i div 64 then bit w (unat j mod 64) else bmp256_test b j)"
  by (simp add: bmp256_test_bit)

lemma bit_one_shifted: "bit (2 ^ k :: u64) n \<longleftrightarrow> n = k \<and> k < 64"
  by (auto simp: bit_simps)

lemma bmp256_test_set [simp]: "bmp256_test (bmp256_set b i) j \<longleftrightarrow> j = i \<or> bmp256_test b j"
proof (cases "unat j div 64 = unat i div 64")
  case True
  then have "unat j mod 64 = unat i mod 64 \<longleftrightarrow> j = i" using u8_index_inj by blast
  with True show ?thesis
    by (auto simp: bmp256_set_def bmp256_index Let_def bmp256_test_upd bit_or_iff bit_one_shifted
        bmp256_test_bit [of b])
next
  case False
  then show ?thesis by (auto simp: bmp256_set_def bmp256_index Let_def bmp256_test_upd)
qed

lemma bmp256_test_unset [simp]: "bmp256_test (bmp256_unset b i) j \<longleftrightarrow> j \<noteq> i \<and> bmp256_test b j"
proof (cases "unat j div 64 = unat i div 64")
  case True
  then have "unat j mod 64 = unat i mod 64 \<longleftrightarrow> j = i" using u8_index_inj by blast
  moreover have "unat j mod 64 < 64" by simp
  ultimately show ?thesis using True
    by (auto simp: bmp256_unset_def bmp256_index Let_def bmp256_test_upd bit_and_iff
        bit_not_iff bit_one_shifted possible_bit_word bmp256_test_bit [of b])
next
  case False
  then show ?thesis by (auto simp: bmp256_unset_def bmp256_index Let_def bmp256_test_upd)
qed

lemma bmp256_test_set_all [simp]: "bmp256_test (bmp256_set_all b) i"
proof -
  have "(0xffffffffffffffff :: u64) = NOT 0" by simp
  moreover have "bit (NOT 0 :: u64) (unat i mod 64)" by (simp add: bit_not_iff possible_bit_word del: bit.compl_zero)
  ultimately have "bit (0xffffffffffffffff :: u64) (unat i mod 64)" by metis
  then show ?thesis by (simp add: bmp256_test_bit bmp256_set_all_def)
qed

lemma bmp256_test_unset_all [simp]: "\<not> bmp256_test (bmp256_unset_all b) i"
  by (simp add: bmp256_test_bit bmp256_unset_all_def)

lemma u8_div64_cases: "unat i div 64 \<in> {0, 1, 2, 3}" for i :: u8
proof -
  have "unat i < 256" using unsigned_less [of i] by simp
  then have "unat i div 64 < 4" by simp
  then show ?thesis by auto
qed

lemma bmp256_test_and [simp]:
  "bmp256_test (bmp256_and a b) i \<longleftrightarrow> bmp256_test a i \<and> bmp256_test b i"
  using u8_div64_cases [of i] by (auto simp: bmp256_test_bit bmp256_and_def bit_simps)

lemma bmp256_test_or [simp]:
  "bmp256_test (bmp256_or a b) i \<longleftrightarrow> bmp256_test a i \<or> bmp256_test b i"
  using u8_div64_cases [of i] by (auto simp: bmp256_test_bit bmp256_or_def bit_simps)

definition bmp256_members :: "bmp256 \<Rightarrow> int set" where
  "bmp256_members b = uint ` {i. bmp256_test b i}"

lemma mem_bmp256_test: "uint i \<in> bmp256_members b \<longleftrightarrow> bmp256_test b i"
  by (auto simp: bmp256_members_def simp flip: word_uint_eq_iff)

lemma bmp256_members_range: "bmp256_members b \<subseteq> {0..<256}"
  using uint_bounded by (auto simp: bmp256_members_def uint_lt2p [where 'a = 8, simplified])

lemma mem_bmp256_iff:
  "k \<in> bmp256_members b \<longleftrightarrow> 0 \<le> k \<and> k < 256 \<and> bmp256_test b (word_of_int k)"
proof
  assume "k \<in> bmp256_members b"
  then show "0 \<le> k \<and> k < 256 \<and> bmp256_test b (word_of_int k)"
    using bmp256_members_range by (fastforce simp: bmp256_members_def)
next
  assume k: "0 \<le> k \<and> k < 256 \<and> bmp256_test b (word_of_int k)"
  then have "uint (word_of_int k :: u8) = k" by (simp add: uint_word_of_int)
  then show "k \<in> bmp256_members b" using k mem_bmp256_test by metis
qed

lemma mem_bmp256_bit:
  "k \<in> bmp256_members b \<longleftrightarrow> 0 \<le> k \<and> k < 256 \<and> bit (bmp b (nat k div 64)) (nat k mod 64)"
proof -
  have "unat (word_of_int k :: u8) = nat k" if "0 \<le> k" "k < 256"
    using that by (simp add: unat_eq_nat_uint uint_word_of_int)
  then show ?thesis by (auto simp: mem_bmp256_iff bmp256_test_bit)
qed

lemma bmp256_Max_word:
  assumes w: "w < 4" "bmp b w \<noteq> 0" "\<forall>v < 4. w < v \<longrightarrow> bmp b v = 0"
  shows "Max (bmp256_members b) = fls64 (bmp b w) + 64 * int w \<and> bmp256_members b \<noteq> {}"
proof -
  obtain n where n: "fls64 (bmp b w) = int n" "n < 64" "bit (bmp b w) n"
    "\<And>i. bit (bmp b w) i \<Longrightarrow> i \<le> n"
    using msb_is_natE [OF fls64_spec [OF w(2)]] by auto
  have mem: "int (64 * w + n) \<in> bmp256_members b"
    using w(1) n by (simp only: mem_bmp256_bit nat_int) auto
  have "k \<le> int (64 * w + n)" if mem_k: "k \<in> bmp256_members b" for k
  proof -
    obtain m where m: "k = int m" "m < 256" "bit (bmp b (m div 64)) (m mod 64)"
      using mem_k by (cases k) (auto simp: mem_bmp256_bit)
    then have "m div 64 \<le> w" using w(3) by (cases "w < m div 64") auto
    moreover have "m div 64 = w \<Longrightarrow> m mod 64 \<le> n" using m n by blast
    ultimately have "m \<le> 64 * w + n" using n(2) by (auto simp: le_div_mod [of m])
    then show ?thesis using m(1) by simp
  qed
  moreover have "finite (bmp256_members b)"
    using bmp256_members_range finite_subset by blast
  ultimately have "Max (bmp256_members b) = int (64 * w + n)"
    using mem by (intro Max_eqI) auto
  with n mem show ?thesis by auto
qed

lemma bmp256_Min_word:
  assumes w: "w < 4" "bmp b w \<noteq> 0" "\<forall>v < 4. v < w \<longrightarrow> bmp b v = 0"
  shows "Min (bmp256_members b) = ffs64 (bmp b w) + 64 * int w \<and> bmp256_members b \<noteq> {}"
proof -
  obtain n where n: "ffs64 (bmp b w) = int n" "n < 64" "bit (bmp b w) n"
    "\<And>i. bit (bmp b w) i \<Longrightarrow> n \<le> i"
    using lsb_is_natE [OF ffs64_spec [OF w(2)]] by auto
  have mem: "int (64 * w + n) \<in> bmp256_members b"
    using w(1) n by (simp only: mem_bmp256_bit nat_int) auto
  have "int (64 * w + n) \<le> k" if mem_k: "k \<in> bmp256_members b" for k
  proof -
    obtain m where m: "k = int m" "m < 256" "bit (bmp b (m div 64)) (m mod 64)"
      using mem_k by (cases k) (auto simp: mem_bmp256_bit)
    then have "w \<le> m div 64" using w(3) by (cases "m div 64 < w") auto
    moreover have "m div 64 = w \<Longrightarrow> n \<le> m mod 64" using m n by blast
    ultimately have "64 * w + n \<le> m" using n(2) by (auto simp: le_div_mod [of _ m])
    then show ?thesis using m(1) by simp
  qed
  moreover have "finite (bmp256_members b)"
    using bmp256_members_range finite_subset by blast
  ultimately have "Min (bmp256_members b) = int (64 * w + n)"
    using mem by (intro Min_eqI) auto
  with n mem show ?thesis by auto
qed

lemma bmp256_empty_words:
  "bmp256_members b = {} \<longleftrightarrow> bmp b 0 = 0 \<and> bmp b 1 = 0 \<and> bmp b 2 = 0 \<and> bmp b 3 = 0"
proof
  assume e: "bmp256_members b = {}"
  have "bmp b w = 0" if "w < 4" for w
  proof (rule ccontr)
    assume "bmp b w \<noteq> 0"
    then obtain n where "n < 64" "bit (bmp b w) n" using word_nonzero_bit [of "bmp b w"] by auto
    with that have "int (64 * w + n) \<in> bmp256_members b"
      by (simp only: mem_bmp256_bit nat_int) auto
    with e show False by simp
  qed
  then show "bmp b 0 = 0 \<and> bmp b 1 = 0 \<and> bmp b 2 = 0 \<and> bmp b 3 = 0" by simp
next
  assume z: "bmp b 0 = 0 \<and> bmp b 1 = 0 \<and> bmp b 2 = 0 \<and> bmp b 3 = 0"
  have "bmp b w = 0" if "w < 4" for w
  proof -
    from that have "w = 0 \<or> w = 1 \<or> w = 2 \<or> w = 3" by auto
    with z show ?thesis by auto
  qed
  then have "bmp b (nat k div 64) = 0" if "0 \<le> k" "k < 256" for k using that by simp
  then show "bmp256_members b = {}" by (auto simp: mem_bmp256_bit)
qed

lemma all_less4: "(\<forall>v < 4. P v) \<longleftrightarrow> P 0 \<and> P 1 \<and> P 2 \<and> P (3 :: nat)"
  by (auto simp: numeral_eq_Suc less_Suc_eq)

lemma bmp256_fls_Max:
  assumes "bmp256_members b \<noteq> {}"
  shows "bmp256_fls b = Max (bmp256_members b)"
proof -
  consider "bmp b 3 \<noteq> 0" | "bmp b 3 = 0" "bmp b 2 \<noteq> 0"
    | "bmp b 3 = 0" "bmp b 2 = 0" "bmp b 1 \<noteq> 0"
    | "bmp b 3 = 0" "bmp b 2 = 0" "bmp b 1 = 0" "bmp b 0 \<noteq> 0"
    using assms bmp256_empty_words by blast
  then show ?thesis
  proof cases
    case 1
    then show ?thesis using bmp256_Max_word [of 3 b]
      by (simp add: bmp256_fls_def all_less4)
  next
    case 2
    then show ?thesis using bmp256_Max_word [of 2 b]
      by (simp add: bmp256_fls_def all_less4)
  next
    case 3
    then show ?thesis using bmp256_Max_word [of 1 b]
      by (simp add: bmp256_fls_def all_less4)
  next
    case 4
    then show ?thesis using bmp256_Max_word [of 0 b]
      by (simp add: bmp256_fls_def all_less4)
  qed
qed

lemma bmp256_ffs_Min:
  assumes "bmp256_members b \<noteq> {}"
  shows "bmp256_ffs b = Min (bmp256_members b)"
proof -
  consider "bmp b 0 \<noteq> 0" | "bmp b 0 = 0" "bmp b 1 \<noteq> 0"
    | "bmp b 0 = 0" "bmp b 1 = 0" "bmp b 2 \<noteq> 0"
    | "bmp b 0 = 0" "bmp b 1 = 0" "bmp b 2 = 0" "bmp b 3 \<noteq> 0"
    using assms bmp256_empty_words by blast
  then show ?thesis
  proof cases
    case 1
    then show ?thesis using bmp256_Min_word [of 0 b]
      by (simp add: bmp256_ffs_def all_less4)
  next
    case 2
    then show ?thesis using bmp256_Min_word [of 1 b]
      by (simp add: bmp256_ffs_def all_less4)
  next
    case 3
    then show ?thesis using bmp256_Min_word [of 2 b]
      by (simp add: bmp256_ffs_def all_less4)
  next
    case 4
    then show ?thesis using bmp256_Min_word [of 3 b]
      by (simp add: bmp256_ffs_def all_less4)
  qed
qed

lemma u8_of_int_inj:
  "(word_of_int x :: u8) = word_of_int y \<Longrightarrow> 0 \<le> x \<Longrightarrow> x < 256 \<Longrightarrow> 0 \<le> y \<Longrightarrow> y < 256 \<Longrightarrow> x = y"
  by (drule arg_cong [of _ _ uint]) (simp add: uint_word_of_int)

interpretation b256: bitset bmp256_members "\<lambda>b i. bmp256_set b (word_of_int i)"
  "\<lambda>b i. bmp256_unset b (word_of_int i)" bmp256_ffs bmp256_fls 256
proof (unfold_locales, goal_cases)
  case (1 b)
  show ?case by (rule bmp256_members_range)
next
  case (2 i b)
  then show ?case by (auto simp: mem_bmp256_iff dest: u8_of_int_inj)
next
  case (3 i b)
  then show ?case by (auto simp: mem_bmp256_iff dest: u8_of_int_inj)
next
  case (4 b)
  then show ?case by (simp add: bmp256_empty_words bmp256_ffs_def)
next
  case (5 b)
  then show ?case by (rule bmp256_ffs_Min)
next
  case (6 b)
  then show ?case by (simp add: bmp256_empty_words bmp256_fls_def)
next
  case (7 b)
  then show ?case by (rule bmp256_fls_Max)
qed

section \<open>The 512-bit map meets the contract\<close>

definition bmp512_members :: "bmp512 \<Rightarrow> int set" where
  "bmp512_members b = bmp256_members (low256 b) \<union> (\<lambda>i. i + 256) ` bmp256_members (high256 b)"

lemma mem_bmp512_iff:
  "k \<in> bmp512_members b \<longleftrightarrow>
     (if k < 256 then k \<in> bmp256_members (low256 b) else k - 256 \<in> bmp256_members (high256 b))"
  using b256.mem_range by (force simp: bmp512_members_def)

lemma mem_bmp512_parts:
  "0 \<le> i \<Longrightarrow> i < 256 \<Longrightarrow> i \<in> bmp512_members b \<longleftrightarrow> i \<in> bmp256_members (low256 b)"
  "256 \<le> i \<Longrightarrow> i \<in> bmp512_members b \<longleftrightarrow> i - 256 \<in> bmp256_members (high256 b)"
  by (auto simp: mem_bmp512_iff)

lemma bmp512_ffs_Min:
  assumes "bmp512_members b \<noteq> {}"
  shows "bmp512_ffs b = Min (bmp512_members b)"
proof (cases "bmp256_members (low256 b) = {}")
  case True
  with assms have ne: "bmp256_members (high256 b) \<noteq> {}" by (auto simp: bmp512_members_def)
  have "Min (bmp512_members b) = bmp256_ffs (high256 b) + 256"
  proof (rule Min_eqI)
    show "bmp256_ffs (high256 b) + 256 \<in> bmp512_members b"
      using ne b256.lowest_mem b256.lowest_neg by (auto simp: bmp512_members_def)
  qed (auto simp: bmp512_members_def True b256.lowest_le)
  with True ne show ?thesis by (simp add: bmp512_ffs_def b256.lowest_neg b256.lowest_empty)
next
  case False
  have "Min (bmp512_members b) = bmp256_ffs (low256 b)"
  proof (rule Min_eqI)
    show "bmp256_ffs (low256 b) \<in> bmp512_members b"
      using False b256.lowest_mem b256.lowest_neg by (auto simp: bmp512_members_def)
    show "bmp256_ffs (low256 b) \<le> k" if "k \<in> bmp512_members b" for k
    proof -
      have "bmp256_ffs (low256 b) < 256"
        using False b256.lowest_neg b256.mem_range [OF b256.lowest_mem] by blast
      then show ?thesis
        using that b256.lowest_le b256.mem_range by (fastforce simp: bmp512_members_def)
    qed
  qed (auto simp: bmp512_members_def)
  with False show ?thesis by (simp add: bmp512_ffs_def b256.lowest_neg)
qed

lemma bmp512_fls_Max:
  assumes "bmp512_members b \<noteq> {}"
  shows "bmp512_fls b = Max (bmp512_members b)"
proof (cases "bmp256_members (high256 b) = {}")
  case True
  with assms show ?thesis
    by (simp add: bmp512_fls_def b256.highest_neg b256.highest_empty b256.highest_Max bmp512_members_def)
next
  case False
  have "Max (bmp512_members b) = bmp256_fls (high256 b) + 256"
  proof (rule Max_eqI)
    show "bmp256_fls (high256 b) + 256 \<in> bmp512_members b"
      using False b256.highest_mem b256.highest_neg by (auto simp: bmp512_members_def)
    show "k \<le> bmp256_fls (high256 b) + 256" if "k \<in> bmp512_members b" for k
    proof -
      have "0 \<le> bmp256_fls (high256 b)"
        using False b256.highest_neg b256.mem_range [OF b256.highest_mem] by blast
      then show ?thesis
        using that b256.highest_ge b256.mem_range by (fastforce simp: bmp512_members_def)
    qed
  qed (auto simp: bmp512_members_def)
  with False show ?thesis by (simp add: bmp512_fls_def b256.highest_neg)
qed

lemma bmp512_members_set:
  assumes "0 \<le> i" "i < 512"
  shows "bmp512_members (bmp512_set b i) = insert i (bmp512_members b)"
proof (cases "i < 256")
  case True
  with assms show ?thesis by (auto simp: bmp512_members_def bmp512_set_def b256.members_add)
next
  case False
  with assms have "bmp256_members (high256 (bmp512_set b i)) = insert (i - 256) (bmp256_members (high256 b))"
    using b256.members_add [of "i - 256" "high256 b"] by (simp add: bmp512_set_def)
  with False show ?thesis by (auto simp: bmp512_members_def bmp512_set_def)
qed

lemma bmp512_members_unset:
  assumes "0 \<le> i" "i < 512"
  shows "bmp512_members (bmp512_unset b i) = bmp512_members b - {i}"
proof (cases "i < 256")
  case True
  with assms show ?thesis
    by (auto simp: bmp512_members_def bmp512_unset_def b256.members_del dest: b256.mem_range)
next
  case False
  with assms have "bmp256_members (high256 (bmp512_unset b i)) = bmp256_members (high256 b) - {i - 256}"
    using b256.members_del [of "i - 256" "high256 b"] by (simp add: bmp512_unset_def)
  moreover have "low256 (bmp512_unset b i) = low256 b" using False by (simp add: bmp512_unset_def)
  ultimately show ?thesis using False by (simp add: set_eq_iff mem_bmp512_iff)
qed

interpretation b512: bitset bmp512_members bmp512_set bmp512_unset bmp512_ffs bmp512_fls 512
proof (unfold_locales, goal_cases)
  case (1 b)
  show ?case using b256.mem_range by (fastforce simp: bmp512_members_def)
next
  case (2 i b)
  then show ?case by (rule bmp512_members_set)
next
  case (3 i b)
  then show ?case by (rule bmp512_members_unset)
next
  case (4 b)
  then show ?case by (simp add: bmp512_members_def bmp512_ffs_def b256.lowest_empty)
next
  case (5 b)
  then show ?case by (rule bmp512_ffs_Min)
next
  case (6 b)
  then show ?case by (simp add: bmp512_members_def bmp512_fls_def b256.highest_empty)
next
  case (7 b)
  then show ?case by (rule bmp512_fls_Max)
qed

section \<open>Clearing above a bit\<close>

lemma low_bits_mask:
  "off < 64 \<Longrightarrow> n < 64 \<Longrightarrow>
     bit (if off = 63 then NOT 0 else push_bit (off + 1) 1 - 1 :: u64) n \<longleftrightarrow> n \<le> off"
proof -
  assume off: "off < 64" "n < 64"
  have "push_bit (off + 1) 1 - 1 = (mask (off + 1) :: u64)"
    by (simp add: mask_eq_exp_minus_1)
  then show ?thesis using off by (auto simp: bit_simps)
qed

lemma unset_above_words:
  assumes "index < 4" "v < 4"
  shows "bmp (let b = b\<lparr>bmp := (bmp b)(index := w)\<rparr>;
          b = (if index < 3 then b\<lparr>bmp := (bmp b)(3 := 0)\<rparr> else b);
          b = (if index < 2 then b\<lparr>bmp := (bmp b)(2 := 0)\<rparr> else b)
      in if index < 1 then b\<lparr>bmp := (bmp b)(1 := 0)\<rparr> else b) v =
    (if v = index then w else if index < v then 0 else bmp b v)"
  using assms by (auto simp: Let_def)

lemma bmp256_test_unset_all_above [simp]:
  "bmp256_test (bmp256_unset_all_above b i) j \<longleftrightarrow> j \<le> i \<and> bmp256_test b j"
proof -
  have le: "j \<le> i \<longleftrightarrow> unat j div 64 < unat i div 64 \<or>
      (unat j div 64 = unat i div 64 \<and> unat j mod 64 \<le> unat i mod 64)"
    unfolding word_le_nat_alt by (rule le_div_mod)
  have m: "bit (if unat i mod 64 = 63 then NOT 0 else push_bit (unat i mod 64 + 1) 1 - 1 :: u64)
      (unat j mod 64) \<longleftrightarrow> unat j mod 64 \<le> unat i mod 64"
    by (rule low_bits_mask) simp_all
  have w: "bmp (bmp256_unset_all_above b i) (unat j div 64) =
      (if unat j div 64 = unat i div 64
       then bmp b (unat i div 64) AND
         (if unat i mod 64 = 63 then NOT 0 else push_bit (unat i mod 64 + 1) 1 - 1)
       else if unat i div 64 < unat j div 64 then 0 else bmp b (unat j div 64))"
    using u8_div64_cases [of i] u8_div64_cases [of j]
    unfolding bmp256_unset_all_above_def bmp256_index Let_def
    by (intro unset_above_words [unfolded Let_def]) auto
  show ?thesis
    unfolding bmp256_test_bit w le by (auto simp: m bit_and_iff)
qed

section \<open>The pair search\<close>

text \<open>Each turn that goes on has removed two members, so the number of members bounds the
  number of turns, and the loop always returns.\<close>

lemma ffs2_loop_returns:
  "card (bmp512_members b) \<le> n \<Longrightarrow> \<exists>r. bmp512_ffs2_loop n b = Some r"
proof (induction n arbitrary: b)
  case 0
  then show ?case by (simp add: b512.lowest_neg)
next
  case (Suc n)
  let ?b1 = "bmp512_unset b (bmp512_ffs b)"
  let ?b2 = "bmp512_unset ?b1 (bmp512_ffs ?b1)"
  have "card (bmp512_members ?b2) \<le> n" if "bmp512_ffs b \<noteq> -1" "bmp512_ffs ?b1 \<noteq> -1"
    using that Suc.prems b512.card_del_lowest [of b] b512.card_del_lowest [of ?b1] by linarith
  then show ?case using Suc.IH [of ?b2] by (simp add: Let_def)
qed

lemma ffs2_loop_enough: "\<exists>r. bmp512_ffs2 b = Some r"
proof -
  have "card (bmp512_members b) \<le> card {0..<512 :: int}"
    by (rule card_mono) (simp_all add: b512.members_range)
  then show ?thesis unfolding bmp512_ffs2_def by (intro ffs2_loop_returns) simp
qed

lemma ffs2_loop_sound:
  "bmp512_ffs2_loop n b = Some r \<Longrightarrow> r = -1 \<or> r \<in> bmp512_members b \<and> r + 1 \<in> bmp512_members b"
proof (induction n arbitrary: b)
  case 0
  then show ?case by (simp split: if_splits)
next
  case (Suc n)
  let ?b1 = "bmp512_unset b (bmp512_ffs b)"
  let ?b2 = "bmp512_unset ?b1 (bmp512_ffs ?b1)"
  show ?case
  proof (cases "bmp512_ffs b = -1 \<or> bmp512_ffs ?b1 = -1")
    case True
    with Suc.prems show ?thesis by (auto simp: Let_def split: if_splits)
  next
    case False
    then have b1: "bmp512_members ?b1 = bmp512_members b - {bmp512_ffs b}"
      and b2: "bmp512_members ?b2 \<subseteq> bmp512_members ?b1"
      and in0: "bmp512_ffs b \<in> bmp512_members b" and in1: "bmp512_ffs ?b1 \<in> bmp512_members ?b1"
      using b512.lowest_mem [of b] b512.lowest_mem [of ?b1]
      by (simp_all add: b512.members_del_lowest)
    show ?thesis
    proof (cases "bmp512_ffs ?b1 = bmp512_ffs b + 1")
      case True
      with Suc.prems False in0 in1 b1 show ?thesis by (auto simp: Let_def)
    next
      case neq: False
      with Suc.prems False have "bmp512_ffs2_loop n ?b2 = Some r" by (simp add: Let_def)
      with Suc.IH b1 b2 show ?thesis by blast
    qed
  qed
qed

end
