(* ===== verification/Twan_Priorityq.thy ===== *)
theory Twan_Priorityq
  imports Twan_Bitmap Twan_Dq
begin

text \<open>
  The 256-level priority queue of \<open>include/lib/dsa/priorityq.h\<close>: one queue per priority and
  a bitmap of the non-empty ones. \<open>pq_repr h pq f\<close> says that the level \<open>p\<close> holds the nodes
  \<open>f p\<close> and that the bitmap marks exactly the non-empty levels. Every operation keeps it, and
  popping returns the oldest node of the highest non-empty level.
\<close>

section \<open>Definitions\<close>

record 'n priorityq =
  priority_bins :: "u8 \<Rightarrow> 'n dq"
  priority_bitmap :: bmp256

definition priorityq_set_priority :: "'n priorityq \<Rightarrow> u8 \<Rightarrow> 'n priorityq" where
  "priorityq_set_priority pq priority =
     pq\<lparr>priority_bitmap := bmp256_set (priority_bitmap pq) priority\<rparr>"

definition priorityq_unset_priority :: "'n priorityq \<Rightarrow> u8 \<Rightarrow> 'n priorityq" where
  "priorityq_unset_priority pq priority =
     pq\<lparr>priority_bitmap := bmp256_unset (priority_bitmap pq) priority\<rparr>"

definition priorityq_awaiting_priority :: "'n priorityq \<Rightarrow> int" where
  "priorityq_awaiting_priority pq = bmp256_fls (priority_bitmap pq)"

text \<open>Writing back the bin that an operation on \<^verbatim>\<open>&priorityq->priority_bins[priority]\<close> changed.\<close>

definition pq_put_bin :: "'n priorityq \<Rightarrow> u8 \<Rightarrow> 'n dq \<Rightarrow> 'n priorityq" where
  "pq_put_bin pq priority dq = pq\<lparr>priority_bins := (priority_bins pq)(priority := dq)\<rparr>"

definition priorityq_pushfront ::
  "'n ld_mem \<times> 'n priorityq \<Rightarrow> 'n \<Rightarrow> u8 \<Rightarrow> 'n ld_mem \<times> 'n priorityq" where
  "priorityq_pushfront = (\<lambda>(h, pq) node priority.
     let (h, dq) = dq_pushfront (h, priority_bins pq priority) node;
         pq = pq_put_bin pq priority dq
     in (h, priorityq_set_priority pq priority))"

definition priorityq_pushback ::
  "'n ld_mem \<times> 'n priorityq \<Rightarrow> 'n \<Rightarrow> u8 \<Rightarrow> 'n ld_mem \<times> 'n priorityq" where
  "priorityq_pushback = (\<lambda>(h, pq) node priority.
     let (h, dq) = dq_pushback (h, priority_bins pq priority) node;
         pq = pq_put_bin pq priority dq
     in (h, priorityq_set_priority pq priority))"

definition priorityq_push ::
  "'n ld_mem \<times> 'n priorityq \<Rightarrow> 'n \<Rightarrow> u8 \<Rightarrow> bool \<Rightarrow> 'n ld_mem \<times> 'n priorityq" where
  "priorityq_push = (\<lambda>(h, pq) node priority direction.
     let (h, dq) = dq_push (h, priority_bins pq priority) node direction;
         pq = pq_put_bin pq priority dq
     in (h, priorityq_set_priority pq priority))"

definition priorityq_dequeue ::
  "'n ld_mem \<times> 'n priorityq \<Rightarrow> 'n \<Rightarrow> u8 \<Rightarrow> 'n ld_mem \<times> 'n priorityq" where
  "priorityq_dequeue = (\<lambda>(h, pq) node priority.
     let (h, dq) = dq_dequeue (h, priority_bins pq priority) node;
         pq = pq_put_bin pq priority dq
     in (h, if dq_is_empty dq then priorityq_unset_priority pq priority else pq))"

definition priorityq_peekfront :: "'n priorityq \<Rightarrow> 'n option" where
  "priorityq_peekfront pq =
     (let priority = priorityq_awaiting_priority pq
      in if priority = -1 then None
         else dq_peekfront (priority_bins pq (word_of_int priority)))"

definition priorityq_popfront ::
  "'n ld_mem \<times> 'n priorityq \<Rightarrow> 'n option \<times> 'n ld_mem \<times> 'n priorityq" where
  "priorityq_popfront = (\<lambda>(h, pq).
     let priority = priorityq_awaiting_priority pq
     in if priority = -1 then (None, h, pq)
        else
          let p = word_of_int priority;
              (node, h, dq) = dq_popfront (h, priority_bins pq p);
              pq = pq_put_bin pq p dq
          in (node, h, if dq_is_empty dq then priorityq_unset_priority pq p else pq))"

definition priorityq_is_queued :: "'n ld_mem \<Rightarrow> 'n priorityq \<Rightarrow> 'n \<Rightarrow> u8 \<Rightarrow> bool" where
  "priorityq_is_queued h pq node priority = dq_is_queued h (priority_bins pq priority) node"

definition priorityq_requeue ::
  "'n ld_mem \<times> 'n priorityq \<Rightarrow> 'n \<Rightarrow> u8 \<Rightarrow> u8 \<Rightarrow> bool \<Rightarrow> 'n ld_mem \<times> 'n priorityq" where
  "priorityq_requeue s node new_priority old_priority direction =
     priorityq_push (priorityq_dequeue s node old_priority) node new_priority direction"

section \<open>What a priority queue represents\<close>

definition pq_repr :: "'n ld_mem \<Rightarrow> 'n priorityq \<Rightarrow> (u8 \<Rightarrow> 'n list) \<Rightarrow> bool" where
  "pq_repr h pq f \<longleftrightarrow> dqi.fam_repr h (priority_bins pq) f \<and>
     (\<forall>p. bmp256_test (priority_bitmap pq) p \<longleftrightarrow> f p \<noteq> [])"

definition pq_nodes :: "(u8 \<Rightarrow> 'n list) \<Rightarrow> 'n set" where
  "pq_nodes f = (\<Union>p. set (f p))"

text \<open>The level \<open>p\<close> is the highest non-empty one.\<close>

definition top_level :: "(u8 \<Rightarrow> 'n list) \<Rightarrow> u8 \<Rightarrow> bool" where
  "top_level f p \<longleftrightarrow> f p \<noteq> [] \<and> (\<forall>q. f q \<noteq> [] \<longrightarrow> q \<le> p)"

lemma pq_nodes_upd:
  "pq_nodes (f(p := xs)) = set xs \<union> (\<Union>q \<in> - {p}. set (f q))"
  by (auto simp: pq_nodes_def split: if_splits)

lemma not_pq_nodes: "x \<notin> pq_nodes f \<longleftrightarrow> (\<forall>p. x \<notin> set (f p))"
  by (auto simp: pq_nodes_def)

lemma pq_reprD:
  assumes "pq_repr h pq f"
  shows "dqi.fam_repr h (priority_bins pq) f" and "dq_repr h (priority_bins pq p) (f p)"
    and "bmp256_test (priority_bitmap pq) p \<longleftrightarrow> f p \<noteq> []"
  using assms by (simp_all add: pq_repr_def dqi.fam_repr_def)

lemma pq_repr_frame:
  assumes "pq_repr h pq f" and same: "\<And>x. x \<in> pq_nodes f \<Longrightarrow> h' x = h x"
  shows "pq_repr h' pq f"
proof -
  have "dqi.fam_repr h' (priority_bins pq) f"
  proof (rule dqi.fam_frame)
    show "dqi.fam_repr h (priority_bins pq) f" using assms(1) by (rule pq_reprD)
    show "h' x = h x" if "x \<in> set (f i)" for i x
      using that by (intro same) (auto simp: pq_nodes_def)
  qed
  then show ?thesis using assms(1) by (simp add: pq_repr_def)
qed

lemma pq_repr_distinct: "pq_repr h pq f \<Longrightarrow> distinct (f p)"
  by (rule dqi.fam_distinct) (rule pq_reprD(1))

section \<open>The highest waiting priority\<close>

lemma awaiting_none: "pq_repr h pq f \<Longrightarrow> priorityq_awaiting_priority pq = -1 \<longleftrightarrow> (\<forall>p. f p = [])"
  by (auto simp: priorityq_awaiting_priority_def b256.highest_neg pq_repr_def bmp256_members_def)

lemma awaiting_top:
  assumes "pq_repr h pq f" and "priorityq_awaiting_priority pq \<noteq> -1"
  shows "top_level f (word_of_int (priorityq_awaiting_priority pq))"
proof -
  let ?a = "priorityq_awaiting_priority pq"
  have mem: "?a \<in> bmp256_members (priority_bitmap pq)"
    using assms(2) b256.highest_mem by (simp add: priorityq_awaiting_priority_def)
  then have a: "0 \<le> ?a" "?a < 256" using b256.mem_range by auto
  then have u: "uint (word_of_int ?a :: u8) = ?a" by (simp add: uint_word_of_int)
  have "f (word_of_int ?a) \<noteq> []"
    using mem pq_reprD(3) [OF assms(1)] by (simp add: mem_bmp256_iff)
  moreover have "q \<le> word_of_int ?a" if "f q \<noteq> []" for q
  proof -
    have "uint q \<in> bmp256_members (priority_bitmap pq)"
      using that pq_reprD(3) [OF assms(1)] by (simp add: mem_bmp256_test)
    then have "uint q \<le> ?a" unfolding priorityq_awaiting_priority_def by (rule b256.highest_ge)
    then show ?thesis using u by (simp add: word_le_def)
  qed
  ultimately show ?thesis by (simp add: top_level_def)
qed

lemma top_level_unique: "top_level f p \<Longrightarrow> top_level f q \<Longrightarrow> p = q"
  by (meson antisym top_level_def)

lemma awaiting_range: "priorityq_awaiting_priority pq = -1 \<or>
    0 \<le> priorityq_awaiting_priority pq \<and> priorityq_awaiting_priority pq < 256"
  using b256.highest_mem [of "priority_bitmap pq"] b256.mem_range
  by (auto simp: priorityq_awaiting_priority_def)

section \<open>Every operation keeps the representation\<close>

lemma pq_put_bin_simps [simp]:
  "priority_bins (pq_put_bin pq p d) = (priority_bins pq)(p := d)"
  "priority_bitmap (pq_put_bin pq p d) = priority_bitmap pq"
  by (simp_all add: pq_put_bin_def)

lemma pq_priority_simps [simp]:
  "priority_bins (priorityq_set_priority pq p) = priority_bins pq"
  "priority_bins (priorityq_unset_priority pq p) = priority_bins pq"
  "priority_bitmap (priorityq_set_priority pq p) = bmp256_set (priority_bitmap pq) p"
  "priority_bitmap (priorityq_unset_priority pq p) = bmp256_unset (priority_bitmap pq) p"
  by (simp_all add: priorityq_set_priority_def priorityq_unset_priority_def)

lemma priorityq_pushback_repr:
  assumes r: "pq_repr h pq f" and x: "x \<notin> pq_nodes f"
    and e: "priorityq_pushback (h, pq) x p = (h', pq')"
  shows "pq_repr h' pq' (f(p := f p @ [x])) \<and> (\<forall>n. n \<notin> insert x (set (f p)) \<longrightarrow> h' n = h n)"
proof -
  obtain d where d: "dq_pushback (h, priority_bins pq p) x = (h', d)"
    and pq': "pq' = priorityq_set_priority (pq_put_bin pq p d) p"
    using e by (auto simp: priorityq_pushback_def Let_def split: prod.splits)
  show ?thesis
    using dqi.fam_pushb [OF pq_reprD(1) [OF r] _ d] x pq_reprD(3) [OF r]
    by (auto simp: pq_repr_def pq' not_pq_nodes)
qed

lemma priorityq_pushfront_repr:
  assumes r: "pq_repr h pq f" and x: "x \<notin> pq_nodes f"
    and e: "priorityq_pushfront (h, pq) x p = (h', pq')"
  shows "pq_repr h' pq' (f(p := x # f p)) \<and> (\<forall>n. n \<notin> insert x (set (f p)) \<longrightarrow> h' n = h n)"
proof -
  obtain d where d: "dq_pushfront (h, priority_bins pq p) x = (h', d)"
    and pq': "pq' = priorityq_set_priority (pq_put_bin pq p d) p"
    using e by (auto simp: priorityq_pushfront_def Let_def split: prod.splits)
  show ?thesis
    using dqi.fam_pushf [OF pq_reprD(1) [OF r] _ d] x pq_reprD(3) [OF r]
    by (auto simp: pq_repr_def pq' not_pq_nodes)
qed

lemma priorityq_push_cases:
  "priorityq_push s x p dir = (if dir then priorityq_pushfront s x p else priorityq_pushback s x p)"
  by (cases s) (simp add: priorityq_push_def priorityq_pushfront_def priorityq_pushback_def dq_push_def)

lemma priorityq_dequeue_repr:
  assumes r: "pq_repr h pq f" and x: "x \<in> set (f p)"
    and e: "priorityq_dequeue (h, pq) x p = (h', pq')"
  shows "pq_repr h' pq' (f(p := remove1 x (f p))) \<and> unlinked h' x \<and>
     (\<forall>n. n \<notin> set (f p) \<longrightarrow> h' n = h n)"
proof -
  obtain d where d: "dq_dequeue (h, priority_bins pq p) x = (h', d)"
    and pq': "pq' = (if dq_is_empty d then priorityq_unset_priority (pq_put_bin pq p d) p
       else pq_put_bin pq p d)"
    using e by (auto simp: priorityq_dequeue_def Let_def split: prod.splits)
  note m = dqi.fam_remove [OF pq_reprD(1) [OF r] x d]
  have "dq_repr h' d (remove1 x (f p))"
    using m(1) by (auto simp: dqi.fam_repr_def dest!: spec [of _ p])
  then have "dq_is_empty d \<longleftrightarrow> remove1 x (f p) = []" by (rule dq_is_empty_repr)
  moreover have "f p \<noteq> []" using x by auto
  ultimately show ?thesis
    using m pq_reprD(3) [OF r] by (auto simp: pq_repr_def pq')
qed

lemma priorityq_popfront_empty:
  "pq_repr h pq f \<Longrightarrow> \<forall>p. f p = [] \<Longrightarrow> priorityq_popfront (h, pq) = (None, h, pq)"
  by (simp add: priorityq_popfront_def awaiting_none Let_def)

lemma dq_popfront_dequeue:
  assumes "dq_repr h d (x # xs)"
  shows "dq_popfront (h, d) = (Some x, dq_dequeue (h, d) x)"
  using assms
  by (cases xs) (auto simp: dq_popfront_def dq_dequeue_def dq_repr_def Let_def set_next_def set_prev_def)

lemma priorityq_popfront_dequeue:
  assumes r: "pq_repr h pq f" and t: "top_level f p" and x: "f p = x # xs"
  shows "priorityq_popfront (h, pq) = (Some x, priorityq_dequeue (h, pq) x p)"
proof -
  have ne: "priorityq_awaiting_priority pq \<noteq> -1" using awaiting_none [OF r] x by auto
  then have p: "word_of_int (priorityq_awaiting_priority pq) = p"
    using awaiting_top [OF r] t top_level_unique by blast
  have "dq_popfront (h, priority_bins pq p) = (Some x, dq_dequeue (h, priority_bins pq p) x)"
    using dq_popfront_dequeue pq_reprD(2) [OF r, of p] x by simp
  then show ?thesis
    using ne p by (simp add: priorityq_popfront_def priorityq_dequeue_def Let_def split_def)
qed

lemma priorityq_peekfront_repr:
  assumes r: "pq_repr h pq f"
  shows "priorityq_peekfront pq = None \<longleftrightarrow> (\<forall>p. f p = [])"
    and "top_level f p \<Longrightarrow> f p = x # xs \<Longrightarrow> priorityq_peekfront pq = Some x"
proof -
  show top: "priorityq_peekfront pq = Some x" if t: "top_level f p" and x: "f p = x # xs" for p x xs
  proof -
    have ne: "priorityq_awaiting_priority pq \<noteq> -1" using awaiting_none [OF r] x by auto
    then have "word_of_int (priorityq_awaiting_priority pq) = p"
      using awaiting_top [OF r] t top_level_unique by blast
    then show ?thesis
      using ne dqi.fam_front [OF pq_reprD(1) [OF r], of p] x
      by (simp add: priorityq_peekfront_def dq_peekfront_def)
  qed
  then show "priorityq_peekfront pq = None \<longleftrightarrow> (\<forall>p. f p = [])"
  proof (cases "priorityq_awaiting_priority pq = -1")
    case True
    then show ?thesis using awaiting_none [OF r] by (simp add: priorityq_peekfront_def)
  next
    case False
    then obtain p x xs where "top_level f p" "f p = x # xs"
      using awaiting_top [OF r] by (meson neq_Nil_conv top_level_def)
    with top show ?thesis by fastforce
  qed
qed

end
