(* ===== verification/Twan_Task.thy ===== *)
theory Twan_Task
  imports Twan_Priorityq
begin

text \<open>
  The data of the kernel scheduler (\<open>include/arch.h\<close>, \<open>include/kernel/sched/task.h\<close>,
  \<open>include/kernel/sched/sched_dsa.h\<close>, \<open>include/kernel/kernel.h\<close>): saved contexts, tasks, run
  queues, per-CPU data and the kernel state that holds them, with the creation of a task and
  the saving and restoring of its context. A task is known by its address; the array
  \<^verbatim>\<open>nodes\<close> of a task is in the node store of the state, at the addresses \<open>(task, index)\<close>.
\<close>

section \<open>Contexts\<close>

record fxsave64 =
  fx_fcw :: u16
  fx_mxcsr :: u32
  fx_mxcsr_mask :: u32
  fx_rest :: "nat \<Rightarrow> u8"

text \<open>\<^verbatim>\<open>struct regs\<close>: what the interrupt entry pushes below the frame of the processor.\<close>

record regs =
  rg_cr8 :: u64
  rg_r15 :: u64
  rg_r14 :: u64
  rg_r13 :: u64
  rg_r12 :: u64
  rg_r11 :: u64
  rg_r10 :: u64
  rg_r9 :: u64
  rg_r8 :: u64
  rg_rsi :: u64
  rg_rdi :: u64
  rg_rdx :: u64
  rg_rcx :: u64
  rg_rbx :: u64
  rg_rax :: u64
  rg_rbp :: u64
  rg_fxsave_region :: fxsave64

record interrupt_info =
  ii_regs :: regs
  ii_alignment :: u64
  ii_dispatch_info :: u64
  ii_errcode :: u64
  ii_rip :: u64
  ii_cs :: u64
  ii_rflags :: u64
  ii_rsp :: u64
  ii_ss :: u64

record cpu_context =
  cx_cr8 :: u64
  cx_r15 :: u64
  cx_r14 :: u64
  cx_r13 :: u64
  cx_r12 :: u64
  cx_r11 :: u64
  cx_r10 :: u64
  cx_r9 :: u64
  cx_r8 :: u64
  cx_rsi :: u64
  cx_rdi :: u64
  cx_rdx :: u64
  cx_rcx :: u64
  cx_rbx :: u64
  cx_rax :: u64
  cx_rbp :: u64
  cx_rsp :: u64
  cx_rflags :: u64
  cx_rip :: u64
  cx_fp_context :: fxsave64

section \<open>Tasks, run queues and the kernel state\<close>

type_synonym task_ptr = nat
type_synonym waitq_ptr = nat

text \<open>The addresses of the callbacks a task may register.\<close>

type_synonym func_ptr = nat

record task =
  task_mempool :: u64
  task_context :: cpu_context
  task_preemption_count :: u32
  task_yield_request :: bool
  task_preempted_early :: bool
  task_timed_out :: bool
  task_put_callback_func :: "func_ptr option"
  task_set_callback_func :: "func_ptr option"
  task_real_priority :: u8
  task_priority :: u8
  task_real_criticality :: u8
  task_criticality :: u8
  task_queue_id :: u32
  task_waitq :: "waitq_ptr option"

type_synonym task_node = "task_ptr \<times> nat"

text \<open>\<^verbatim>\<open>aging_bitmap\<close> and \<^verbatim>\<open>iteration\<close> are only there, and only used, when
  \<^verbatim>\<open>CONFIG_KERNEL_SCHED_AGING\<close> is set.\<close>

record sched_priorityq =
  sq_bins :: "nat \<Rightarrow> task_node priorityq"
  sq_criticality_level :: u8
  sq_aging_bitmap :: bmp256
  sq_iteration :: u32

record per_cpu =
  pc_handling_isr :: bool
  pc_sched_ticks :: u32
  pc_current_task :: "task_ptr option"
  pc_task_ctx :: interrupt_info
  pc_active :: bool
  pc_enabled :: bool
  pc_sched_init :: bool
  pc_mxcsr_mask :: u32
  pc_vtimer_frequency_hz :: u64
  pc_worker :: task_ptr
  pc_worker_stack_top :: u64

record kernel =
  k_task :: "task_ptr \<Rightarrow> task"
  k_node :: "task_node ld_mem"
  k_queue :: "u32 \<Rightarrow> sched_priorityq"
  k_cpu :: "u32 \<Rightarrow> per_cpu"
  k_num_cpus :: u32
  k_twanvisor_on :: bool

text \<open>The build options of \<open>Kconfig\<close> that the scheduler depends on.\<close>

record kconfig =
  num_criticalities :: nat
  cfg_aging :: bool
  cfg_global_queue :: bool
  task_stack_size :: u64
  task_struct_size :: u64
  time_slice_ms :: u32

text \<open>\<^verbatim>\<open>#define\<close>s of \<open>sched_dsa.h\<close> and \<open>kernel.h\<close>.\<close>

definition SCHED_MAX_CRITICALITY :: "kconfig \<Rightarrow> nat" where
  "SCHED_MAX_CRITICALITY cfg = num_criticalities cfg - 1"

definition cpu_to_queue_id :: "kconfig \<Rightarrow> u32 \<Rightarrow> u32" where
  "cpu_to_queue_id cfg processor_id = (if cfg_global_queue cfg then 0 else processor_id)"

definition queue_to_cpu_id :: "kconfig \<Rightarrow> u32 \<Rightarrow> u32" where
  "queue_to_cpu_id cfg queue_id = (if cfg_global_queue cfg then 0 else queue_id)"

definition cpu_valid :: "'a kernel_scheme \<Rightarrow> u32 \<Rightarrow> bool" where
  "cpu_valid k processor_id \<longleftrightarrow> processor_id < k_num_cpus k"

definition cpu_data :: "'a kernel_scheme \<Rightarrow> u32 \<Rightarrow> per_cpu option" where
  "cpu_data k processor_id =
     (if cpu_valid k processor_id then Some (k_cpu k processor_id) else None)"

text \<open>Field updates through a task pointer and through the per-CPU base.\<close>

definition upd_task :: "task_ptr \<Rightarrow> (task \<Rightarrow> task) \<Rightarrow> 'a kernel_scheme \<Rightarrow> 'a kernel_scheme" where
  "upd_task t f k = k\<lparr>k_task := (k_task k)(t := f (k_task k t))\<rparr>"

definition upd_cpu :: "u32 \<Rightarrow> (per_cpu \<Rightarrow> per_cpu) \<Rightarrow> 'a kernel_scheme \<Rightarrow> 'a kernel_scheme" where
  "upd_cpu c f k = k\<lparr>k_cpu := (k_cpu k)(c := f (k_cpu k c))\<rparr>"

definition current_task :: "'a kernel_scheme \<Rightarrow> u32 \<Rightarrow> task_ptr option" where
  "current_task k cpu = pc_current_task (k_cpu k cpu)"

definition set_current_task :: "u32 \<Rightarrow> task_ptr option \<Rightarrow> 'a kernel_scheme \<Rightarrow> 'a kernel_scheme" where
  "set_current_task cpu t = upd_cpu cpu (\<lambda>c. c\<lparr>pc_current_task := t\<rparr>)"

section \<open>Task creation\<close>

definition DEFAULT_FCW :: u16 where
  "DEFAULT_FCW = 0x037f"

definition DEFAULT_MXCSR :: u32 where
  "DEFAULT_MXCSR = 0x1f80"

definition zero_fxsave :: fxsave64 where
  "zero_fxsave = \<lparr>fx_fcw = 0, fx_mxcsr = 0, fx_mxcsr_mask = 0, fx_rest = (\<lambda>_. 0)\<rparr>"

definition zero_context :: cpu_context where
  "zero_context = \<lparr>cx_cr8 = 0, cx_r15 = 0, cx_r14 = 0, cx_r13 = 0, cx_r12 = 0, cx_r11 = 0,
     cx_r10 = 0, cx_r9 = 0, cx_r8 = 0, cx_rsi = 0, cx_rdi = 0, cx_rdx = 0, cx_rcx = 0, cx_rbx = 0,
     cx_rax = 0, cx_rbp = 0, cx_rsp = 0, cx_rflags = 0, cx_rip = 0, cx_fp_context = zero_fxsave\<rparr>"

definition zero_task :: task where
  "zero_task = \<lparr>task_mempool = 0, task_context = zero_context, task_preemption_count = 0,
     task_yield_request = False, task_preempted_early = False, task_timed_out = False,
     task_put_callback_func = None, task_set_callback_func = None, task_real_priority = 0,
     task_priority = 0, task_real_criticality = 0, task_criticality = 0, task_queue_id = 0,
     task_waitq = None\<rparr>"

text \<open>\<^verbatim>\<open>memset(task, 0, sizeof(struct task))\<close>, its \<^verbatim>\<open>nodes\<close> included.\<close>

definition task_clear :: "task_ptr \<Rightarrow> 'a kernel_scheme \<Rightarrow> 'a kernel_scheme" where
  "task_clear t k = k\<lparr>k_task := (k_task k)(t := zero_task),
     k_node := (\<lambda>n. if fst n = t then \<lparr>ld_next = None, ld_prev = None\<rparr> else k_node k n)\<rparr>"

text \<open>\<^verbatim>\<open>rflags\<close>: the interrupt flag is bit 9, the reserved bit that reads as one is bit 1.\<close>

definition task_init ::
  "kconfig \<Rightarrow> u32 \<Rightarrow> 'a kernel_scheme \<Rightarrow> task_ptr \<Rightarrow> u32 \<Rightarrow> u64 \<Rightarrow> u64 \<Rightarrow> u64 \<Rightarrow> u64 \<Rightarrow> u8 \<Rightarrow> u8
     \<Rightarrow> func_ptr option \<Rightarrow> func_ptr option \<Rightarrow> int \<times> 'a kernel_scheme" where
  "task_init cfg this k task processor_id mempool stack_top func arg priority criticality
     put_callback_func set_callback_func =
     (case cpu_data k processor_id of
        None \<Rightarrow> (- EINVAL, k)
      | Some cpu \<Rightarrow>
          if \<not> pc_active cpu \<or> unat criticality \<ge> num_criticalities cfg then (- EINVAL, k)
          else
            let k = task_clear task k;
                fp = (cx_fp_context (task_context (k_task k task)))
                  \<lparr>fx_fcw := DEFAULT_FCW, fx_mxcsr := DEFAULT_MXCSR,
                   fx_mxcsr_mask := pc_mxcsr_mask (k_cpu k this)\<rparr>;
                cx = (task_context (k_task k task))
                  \<lparr>cx_rip := func, cx_rsp := stack_top, cx_rbp := stack_top, cx_rdi := arg,
                   cx_rflags := push_bit 9 1 OR push_bit 1 1, cx_fp_context := fp\<rparr>
            in (0, upd_task task (\<lambda>t. t
                 \<lparr>task_mempool := mempool, task_context := cx, task_preemption_count := 0,
                  task_put_callback_func := put_callback_func,
                  task_set_callback_func := set_callback_func,
                  task_queue_id := cpu_to_queue_id cfg processor_id,
                  task_real_priority := priority, task_priority := priority,
                  task_real_criticality := criticality, task_criticality := criticality\<rparr>) k))"

section \<open>Saving and restoring a context\<close>

definition sched_save_current_ctx ::
  "task_ptr \<Rightarrow> interrupt_info \<Rightarrow> 'a kernel_scheme \<Rightarrow> 'a kernel_scheme" where
  "sched_save_current_ctx current ctx = upd_task current (\<lambda>t. t\<lparr>task_context := (task_context t)
     \<lparr>cx_cr8 := rg_cr8 (ii_regs ctx),
      cx_r15 := rg_r15 (ii_regs ctx),
      cx_r14 := rg_r14 (ii_regs ctx),
      cx_r13 := rg_r13 (ii_regs ctx),
      cx_r12 := rg_r12 (ii_regs ctx),
      cx_r11 := rg_r11 (ii_regs ctx),
      cx_r10 := rg_r10 (ii_regs ctx),
      cx_r9 := rg_r9 (ii_regs ctx),
      cx_r8 := rg_r8 (ii_regs ctx),
      cx_rsi := rg_rsi (ii_regs ctx),
      cx_rdi := rg_rdi (ii_regs ctx),
      cx_rdx := rg_rdx (ii_regs ctx),
      cx_rcx := rg_rcx (ii_regs ctx),
      cx_rbx := rg_rbx (ii_regs ctx),
      cx_rax := rg_rax (ii_regs ctx),
      cx_rbp := rg_rbp (ii_regs ctx),
      cx_rsp := ii_rsp ctx,
      cx_rflags := ii_rflags ctx,
      cx_rip := ii_rip ctx,
      cx_fp_context := rg_fxsave_region (ii_regs ctx)\<rparr>\<rparr>)"

text \<open>The register part of \<^verbatim>\<open>sched_set_ctx\<close>.\<close>

definition load_ctx :: "cpu_context \<Rightarrow> interrupt_info \<Rightarrow> interrupt_info" where
  "load_ctx cx ctx = ctx
     \<lparr>ii_regs := (ii_regs ctx)
        \<lparr>rg_cr8 := cx_cr8 cx,
         rg_r15 := cx_r15 cx,
         rg_r14 := cx_r14 cx,
         rg_r13 := cx_r13 cx,
         rg_r12 := cx_r12 cx,
         rg_r11 := cx_r11 cx,
         rg_r10 := cx_r10 cx,
         rg_r9 := cx_r9 cx,
         rg_r8 := cx_r8 cx,
         rg_rsi := cx_rsi cx,
         rg_rdi := cx_rdi cx,
         rg_rdx := cx_rdx cx,
         rg_rcx := cx_rcx cx,
         rg_rbx := cx_rbx cx,
         rg_rax := cx_rax cx,
         rg_rbp := cx_rbp cx,
         rg_fxsave_region := cx_fp_context cx\<rparr>,
      ii_rsp := cx_rsp cx,
      ii_rflags := cx_rflags cx,
      ii_rip := cx_rip cx\<rparr>"

section \<open>Basic facts\<close>

lemma upd_task_simps [simp]:
  "k_task (upd_task t f k) = (k_task k)(t := f (k_task k t))"
  "k_node (upd_task t f k) = k_node k" "k_queue (upd_task t f k) = k_queue k"
  "k_cpu (upd_task t f k) = k_cpu k" "k_num_cpus (upd_task t f k) = k_num_cpus k"
  by (simp_all add: upd_task_def)

lemma upd_cpu_simps [simp]:
  "k_cpu (upd_cpu c g k) = (k_cpu k)(c := g (k_cpu k c))"
  "k_node (upd_cpu c g k) = k_node k" "k_queue (upd_cpu c g k) = k_queue k"
  "k_task (upd_cpu c g k) = k_task k" "k_num_cpus (upd_cpu c g k) = k_num_cpus k"
  by (simp_all add: upd_cpu_def)

lemma set_current_task_simps [simp]:
  "k_node (set_current_task c t k) = k_node k" "k_queue (set_current_task c t k) = k_queue k"
  "k_task (set_current_task c t k) = k_task k" "k_num_cpus (set_current_task c t k) = k_num_cpus k"
  "current_task (set_current_task c t k) d = (if d = c then t else current_task k d)"
  by (simp_all add: set_current_task_def current_task_def)

lemma sched_save_current_ctx_simps [simp]:
  "k_node (sched_save_current_ctx t ctx k) = k_node k"
  "k_queue (sched_save_current_ctx t ctx k) = k_queue k"
  "k_cpu (sched_save_current_ctx t ctx k) = k_cpu k"
  "task_criticality (k_task (sched_save_current_ctx t ctx k) u) = task_criticality (k_task k u)"
  "task_priority (k_task (sched_save_current_ctx t ctx k) u) = task_priority (k_task k u)"
  "task_queue_id (k_task (sched_save_current_ctx t ctx k) u) = task_queue_id (k_task k u)"
  "task_yield_request (k_task (sched_save_current_ctx t ctx k) u) = task_yield_request (k_task k u)"
  "task_preemption_count (k_task (sched_save_current_ctx t ctx k) u) = task_preemption_count (k_task k u)"
  by (simp_all add: sched_save_current_ctx_def)

text \<open>What was saved is what comes back: only the fields the entry code rebuilds
  (\<^verbatim>\<open>alignment\<close>, \<^verbatim>\<open>dispatch_info\<close>, \<^verbatim>\<open>errcode\<close>, \<^verbatim>\<open>cs\<close> and \<^verbatim>\<open>ss\<close>) are those of the interrupt that resumes it.\<close>

lemma load_saved_ctx:
  "load_ctx (task_context (k_task (sched_save_current_ctx t ctx k) t)) ctx' =
     ctx\<lparr>ii_alignment := ii_alignment ctx', ii_dispatch_info := ii_dispatch_info ctx',
       ii_errcode := ii_errcode ctx', ii_cs := ii_cs ctx', ii_ss := ii_ss ctx'\<rparr>"
  by (cases ctx, cases "ii_regs ctx") (simp add: load_ctx_def sched_save_current_ctx_def)

lemma task_init_cases:
  assumes "task_init cfg this k t c mp st f a pr cr pcb scb = (r, k')"
  shows "r = 0 \<and> c < k_num_cpus k \<and> pc_active (k_cpu k c) \<and> unat cr < num_criticalities cfg \<and>
       task_criticality (k_task k' t) = cr \<and> task_priority (k_task k' t) = pr \<and>
       task_queue_id (k_task k' t) = cpu_to_queue_id cfg c \<and> task_waitq (k_task k' t) = None \<and>
       task_preemption_count (k_task k' t) = 0 \<and> (\<forall>i. unlinked (k_node k') (t, i))
     \<or> r = - EINVAL \<and> k' = k \<and>
       (\<not> c < k_num_cpus k \<or> \<not> pc_active (k_cpu k c) \<or> num_criticalities cfg \<le> unat cr)"
  using assms
  by (auto simp: task_init_def cpu_data_def cpu_valid_def task_clear_def zero_task_def Let_def
      unlinked_def split: if_splits)

end
