(* ===== verification/Twan_Sched_Queue.thy ===== *)
theory Twan_Sched_Queue
  imports Twan_Task
begin

text \<open>
  The run queues of the kernel (\<open>src/kernel/sched/sched_dsa.c\<close>, \<open>sched_queue.c\<close> and
  \<open>sched_mcs.c\<close>). A queue has one priority queue per criticality; a task of criticality \<open>c\<close> is
  linked into the bins \<open>0..c\<close>, so that the bin of the current criticality level holds exactly
  the tasks that level admits. \<open>sched_repr k Q\<close> reads the queues as one FIFO list of tasks per
  queue and priority. Each function runs under the lock of the queue it works on, and is one
  atomic step here.
\<close>

section \<open>Definitions: one run queue\<close>

definition node_to_task :: "task_node \<Rightarrow> task_ptr" where
  "node_to_task n = fst n"

text \<open>The bin is \<^verbatim>\<open>bins[next_criticality]\<close>; \<open>None\<close> is the null pointer.\<close>

definition sched_priorityq_get_bin :: "sched_priorityq \<Rightarrow> (u8 \<times> u8) option" where
  "sched_priorityq_get_bin sq =
     (let criticality = sq_criticality_level sq;
          priority = priorityq_awaiting_priority (sq_bins sq (unat criticality))
      in if priority \<noteq> -1 then Some (word_of_int priority, criticality)
         else if criticality = 0 then None
         else
           let priority = priorityq_awaiting_priority (sq_bins sq 0)
           in if priority = -1 then None else Some (word_of_int priority, 0))"

definition upd_queue ::
  "u32 \<Rightarrow> (sched_priorityq \<Rightarrow> sched_priorityq) \<Rightarrow> 'a kernel_scheme \<Rightarrow> 'a kernel_scheme" where
  "upd_queue q f k = k\<lparr>k_queue := (k_queue k)(q := f (k_queue k q))\<rparr>"

text \<open>Running an operation of the priority queue in the bin \<open>i\<close> of the queue \<open>q\<close>.\<close>

definition on_bin ::
  "u32 \<Rightarrow> nat \<Rightarrow> (task_node ld_mem \<times> task_node priorityq \<Rightarrow> task_node ld_mem \<times> task_node priorityq)
     \<Rightarrow> 'a kernel_scheme \<Rightarrow> 'a kernel_scheme" where
  "on_bin q i f k =
     (let (h, pq) = f (k_node k, sq_bins (k_queue k q) i)
      in upd_queue q (\<lambda>s. s\<lparr>sq_bins := (sq_bins s)(i := pq)\<rparr>) (k\<lparr>k_node := h\<rparr>))"

definition sched_priorityq_push :: "u32 \<Rightarrow> task_ptr \<Rightarrow> 'a kernel_scheme \<Rightarrow> 'a kernel_scheme" where
  "sched_priorityq_push q task k =
     (let priority = task_priority (k_task k task);
          criticality = task_criticality (k_task k task)
      in fold (\<lambda>i. on_bin q i (\<lambda>s. priorityq_push s (task, i) priority False))
           [0..<Suc (unat criticality)] k)"

definition sched_priorityq_dequeue :: "task_ptr \<Rightarrow> 'a kernel_scheme \<Rightarrow> 'a kernel_scheme" where
  "sched_priorityq_dequeue task k =
     (let priority = task_priority (k_task k task);
          criticality = task_criticality (k_task k task);
          queue_id = task_queue_id (k_task k task)
      in fold (\<lambda>i. on_bin queue_id i (\<lambda>s. priorityq_dequeue s (task, i) priority))
           [0..<Suc (unat criticality)] k)"

text \<open>The bin that \<^verbatim>\<open>get_bin\<close> returns has a front node; a null front would be dereferenced.\<close>

definition sched_priorityq_pop ::
  "u32 \<Rightarrow> 'a kernel_scheme \<Rightarrow> task_ptr option \<times> 'a kernel_scheme" where
  "sched_priorityq_pop q k =
     (case sched_priorityq_get_bin (k_queue k q) of
        None \<Rightarrow> (None, k)
      | Some (priority, criticality) \<Rightarrow>
          case priorityq_peekfront (sq_bins (k_queue k q) (unat criticality)) of
            None \<Rightarrow> (None, k)
          | Some node \<Rightarrow>
              let task = node_to_task node
              in (Some task, sched_priorityq_dequeue task k))"

definition sched_reset_age :: "sched_priorityq \<Rightarrow> sched_priorityq" where
  "sched_reset_age sq =
     sq\<lparr>sq_aging_bitmap := bmp256_set_all (sq_aging_bitmap sq), sq_iteration := 0\<rparr>"

definition sched_init_queue :: "kconfig \<Rightarrow> sched_priorityq \<Rightarrow> sched_priorityq" where
  "sched_init_queue cfg sq = (if cfg_aging cfg then sched_reset_age sq else sq)"

definition sched_age :: "u8 \<Rightarrow> sched_priorityq \<Rightarrow> sched_priorityq" where
  "sched_age last_priority sq =
     (let iteration = sq_iteration sq;
          sq = sq\<lparr>sq_aging_bitmap := bmp256_unset_all_above (sq_aging_bitmap sq) last_priority\<rparr>;
          priority = bmp256_fls (sq_aging_bitmap sq)
      in if priority = -1 \<or> priority = 0 then sched_reset_age sq
         else if iteration = word_of_int priority * 2 then
           sq\<lparr>sq_aging_bitmap := bmp256_unset (sq_aging_bitmap sq) (word_of_int priority),
              sq_iteration := 0\<rparr>
         else sq\<lparr>sq_iteration := sq_iteration sq + 1\<rparr>)"

text \<open>Assigning the bitmap of the bin \<open>i\<close>.\<close>

definition set_bin_bitmap :: "nat \<Rightarrow> bmp256 \<Rightarrow> sched_priorityq \<Rightarrow> sched_priorityq" where
  "set_bin_bitmap i b sq =
     sq\<lparr>sq_bins := (sq_bins sq)(i := (sq_bins sq i)\<lparr>priority_bitmap := b\<rparr>)\<rparr>"

definition sched_priorityq_pop_age ::
  "u32 \<Rightarrow> 'a kernel_scheme \<Rightarrow> task_ptr option \<times> 'a kernel_scheme" where
  "sched_priorityq_pop_age q k =
     (case sched_priorityq_get_bin (k_queue k q) of
        None \<Rightarrow> (None, k)
      | Some (_, criticality) \<Rightarrow>
          let i = unat criticality;
              saved = priority_bitmap (sq_bins (k_queue k q) i);
              k = upd_queue q (\<lambda>s. set_bin_bitmap i (bmp256_and saved (sq_aging_bitmap s)) s) k;
              next_priority = priorityq_awaiting_priority (sq_bins (k_queue k q) i);
              k = (if next_priority = -1
                   then upd_queue q (\<lambda>s. set_bin_bitmap i saved (sched_reset_age s)) k else k);
              next_priority = priorityq_awaiting_priority (sq_bins (k_queue k q) i)
          in if next_priority = -1 then (None, k)
             else
               let (task, k) = sched_priorityq_pop q k;
                   saved = (if \<not> bmp256_test (priority_bitmap (sq_bins (k_queue k q) i))
                                  (word_of_int next_priority)
                            then bmp256_unset saved (word_of_int next_priority) else saved);
                   k = upd_queue q (sched_age (word_of_int next_priority)) k;
                   k = upd_queue q (set_bin_bitmap i saved) k
               in (task, k))"

definition sched_priorityq_highest_priority :: "sched_priorityq \<Rightarrow> int" where
  "sched_priorityq_highest_priority sq =
     (let criticality = sq_criticality_level sq;
          ret = priorityq_awaiting_priority (sq_bins sq (unat criticality))
      in if ret = -1 \<and> criticality > 0 then priorityq_awaiting_priority (sq_bins sq 0) else ret)"

definition sched_priorityq_is_queued :: "'a kernel_scheme \<Rightarrow> task_ptr \<Rightarrow> bool" where
  "sched_priorityq_is_queued k task =
     priorityq_is_queued (k_node k) (sq_bins (k_queue k (task_queue_id (k_task k task))) 0)
       (task, 0) (task_priority (k_task k task))"

section \<open>Definitions: pushing and popping on a CPU\<close>

definition sched_do_push ::
  "kconfig \<Rightarrow> task_ptr \<Rightarrow> u32 \<Rightarrow> 'a kernel_scheme \<Rightarrow> 'a kernel_scheme" where
  "sched_do_push cfg task processor_id k =
     (let queue_id = cpu_to_queue_id cfg processor_id;
          k = upd_task task (\<lambda>t. t\<lparr>task_queue_id := queue_id\<rparr>) k
      in sched_priorityq_push (cpu_to_queue_id cfg processor_id) task k)"

definition sched_push :: "kconfig \<Rightarrow> task_ptr \<Rightarrow> 'a kernel_scheme \<Rightarrow> 'a kernel_scheme" where
  "sched_push cfg task k =
     sched_do_push cfg task (queue_to_cpu_id cfg (task_queue_id (k_task k task))) k"

definition sched_pop_clean ::
  "kconfig \<Rightarrow> u32 \<Rightarrow> 'a kernel_scheme \<Rightarrow> task_ptr option \<times> 'a kernel_scheme" where
  "sched_pop_clean cfg this k =
     (let q = cpu_to_queue_id cfg this
      in if cfg_aging cfg then sched_priorityq_pop_age q k
         else if sched_priorityq_highest_priority (k_queue k q) \<noteq> -1 then sched_priorityq_pop q k
         else (None, k))"

text \<open>The comparison that \<^verbatim>\<open>sched_pop\<close> and \<^verbatim>\<open>sched_should_request_yield\<close> both make.\<close>

definition sched_admits :: "kconfig \<Rightarrow> u8 \<Rightarrow> u8 \<Rightarrow> u8 \<Rightarrow> u8 \<Rightarrow> u8 \<Rightarrow> bool" where
  "sched_admits cfg criticality priority next_criticality next_priority criticality_level =
     (if cfg_aging cfg
      then next_criticality \<ge> criticality_level \<or> criticality < criticality_level
      else if criticality \<ge> criticality_level
      then next_criticality \<ge> criticality_level \<and> next_priority \<ge> priority
      else next_criticality \<ge> criticality_level \<or> next_priority \<ge> priority)"

definition sched_pop ::
  "kconfig \<Rightarrow> u32 \<Rightarrow> task_ptr \<Rightarrow> 'a kernel_scheme \<Rightarrow> task_ptr option \<times> 'a kernel_scheme" where
  "sched_pop cfg this current k =
     (let q = cpu_to_queue_id cfg this
      in case sched_priorityq_get_bin (k_queue k q) of
           None \<Rightarrow> (None, k)
         | Some (next_priority, next_criticality) \<Rightarrow>
             if sched_admits cfg (task_criticality (k_task k current))
                  (task_priority (k_task k current)) next_criticality next_priority
                  (sq_criticality_level (k_queue k q))
             then (if cfg_aging cfg then sched_priorityq_pop_age q k else sched_priorityq_pop q k)
             else (None, k))"

section \<open>Definitions: the criticality level\<close>

definition sched_mcs_read_criticality_level :: "kconfig \<Rightarrow> u32 \<Rightarrow> 'a kernel_scheme \<Rightarrow> u8" where
  "sched_mcs_read_criticality_level cfg this k =
     sq_criticality_level (k_queue k (cpu_to_queue_id cfg this))"

definition sched_mcs_write_criticality_level ::
  "kconfig \<Rightarrow> u32 \<Rightarrow> u8 \<Rightarrow> 'a kernel_scheme \<Rightarrow> int \<times> 'a kernel_scheme" where
  "sched_mcs_write_criticality_level cfg this criticality k =
     (if unat criticality > SCHED_MAX_CRITICALITY cfg then (- EINVAL, k)
      else (0, upd_queue (cpu_to_queue_id cfg this)
                 (\<lambda>s. s\<lparr>sq_criticality_level := criticality\<rparr>) k))"

definition sched_mcs_inc_criticality_level ::
  "kconfig \<Rightarrow> u32 \<Rightarrow> 'a kernel_scheme \<Rightarrow> bool \<times> 'a kernel_scheme" where
  "sched_mcs_inc_criticality_level cfg this k =
     (let q = cpu_to_queue_id cfg this; criticality_level = sq_criticality_level (k_queue k q)
      in if unat criticality_level < SCHED_MAX_CRITICALITY cfg
         then (True, upd_queue q
                (\<lambda>s. s\<lparr>sq_criticality_level := sq_criticality_level s + 1\<rparr>) k)
         else (False, k))"

definition sched_mcs_dec_criticality_level ::
  "kconfig \<Rightarrow> u32 \<Rightarrow> 'a kernel_scheme \<Rightarrow> bool \<times> 'a kernel_scheme" where
  "sched_mcs_dec_criticality_level cfg this k =
     (let q = cpu_to_queue_id cfg this; criticality_level = sq_criticality_level (k_queue k q)
      in if criticality_level > 0
         then (True, upd_queue q
                (\<lambda>s. s\<lparr>sq_criticality_level := sq_criticality_level s - 1\<rparr>) k)
         else (False, k))"


section \<open>A family of priority queues in one node store\<close>

text \<open>\<open>F q i p\<close> lists the nodes of the queue \<open>q\<close>, bin \<open>i\<close> and level \<open>p\<close>. Nodes in no bin are
  unlinked.\<close>

definition kq_repr ::
  "task_node ld_mem \<Rightarrow> (u32 \<Rightarrow> sched_priorityq) \<Rightarrow> (u32 \<Rightarrow> nat \<Rightarrow> u8 \<Rightarrow> task_node list) \<Rightarrow> bool" where
  "kq_repr h qs F \<longleftrightarrow> (\<forall>q i. pq_repr h (sq_bins (qs q) i) (F q i)) \<and>
     (\<forall>q i q' i'. (q, i) \<noteq> (q', i') \<longrightarrow> pq_nodes (F q i) \<inter> pq_nodes (F q' i') = {}) \<and>
     (\<forall>n. (\<forall>q i. n \<notin> pq_nodes (F q i)) \<longrightarrow> unlinked h n)"

lemma kq_reprD:
  assumes "kq_repr h qs F"
  shows "pq_repr h (sq_bins (qs q) i) (F q i)"
    and "(q, i) \<noteq> (q', i') \<Longrightarrow> pq_nodes (F q i) \<inter> pq_nodes (F q' i') = {}"
    and "(\<And>q i. n \<notin> pq_nodes (F q i)) \<Longrightarrow> unlinked h n"
  using assms unfolding kq_repr_def by blast+

lemma upd_queue_simps [simp]:
  "k_node (upd_queue q f k) = k_node k" "k_task (upd_queue q f k) = k_task k"
  "k_cpu (upd_queue q f k) = k_cpu k" "k_num_cpus (upd_queue q f k) = k_num_cpus k"
  "k_queue (upd_queue q f k) = (k_queue k)(q := f (k_queue k q))"
  by (simp_all add: upd_queue_def)

lemma on_bin_simps [simp]:
  "k_task (on_bin q i f k) = k_task k" "k_cpu (on_bin q i f k) = k_cpu k"
  "k_num_cpus (on_bin q i f k) = k_num_cpus k"
  by (simp_all add: on_bin_def split_def Let_def)

text \<open>Replacing one bin's contents by others over the same nodes and \<open>x\<close>.\<close>

lemma kq_repr_update:
  assumes kq: "kq_repr h qs F" and pq: "pq_repr h' pq' f'"
    and same: "\<And>n. n \<notin> insert x (pq_nodes (F q i)) \<Longrightarrow> h' n = h n"
    and fresh: "\<And>q' i'. (q', i') \<noteq> (q, i) \<Longrightarrow> x \<notin> pq_nodes (F q' i')"
    and sub: "pq_nodes f' \<subseteq> insert x (pq_nodes (F q i))"
    and keep: "pq_nodes (F q i) - {x} \<subseteq> pq_nodes f'"
    and out: "x \<notin> pq_nodes f' \<Longrightarrow> unlinked h' x"
  shows "kq_repr h' (qs(q := (qs q)\<lparr>sq_bins := (sq_bins (qs q))(i := pq')\<rparr>)) (F(q := (F q)(i := f')))"
    (is "kq_repr h' ?qs ?F")
proof -
  have F: "?F q' i' = (if (q', i') = (q, i) then f' else F q' i')" for q' i' by simp
  have other: "pq_repr h' (sq_bins (qs q') i') (F q' i')" if ne: "(q', i') \<noteq> (q, i)" for q' i'
  proof (rule pq_repr_frame [OF kq_reprD(1) [OF kq]])
    fix n assume "n \<in> pq_nodes (F q' i')"
    then show "h' n = h n" using kq_reprD(2) [OF kq ne] fresh [OF ne] by (intro same) auto
  qed
  have "pq_repr h' (sq_bins (?qs q') i') (?F q' i')" for q' i'
    using other [of q' i'] pq by (cases "q' = q"; cases "i' = i") auto
  moreover have "pq_nodes (?F a b) \<inter> pq_nodes (?F c d) = {}" if "(a, b) \<noteq> (c, d)" for a b c d
    using kq_reprD(2) [OF kq that] kq_reprD(2) [OF kq, of a b q i] kq_reprD(2) [OF kq, of q i c d]
      fresh [of a b] fresh [of c d] sub that unfolding F by (auto split: if_splits)
  moreover have "unlinked h' n" if n: "\<And>q i. n \<notin> pq_nodes (?F q i)" for n
  proof (cases "n = x")
    case True
    then show ?thesis using n [of q i] out by simp
  next
    case False
    have no: "n \<notin> pq_nodes (F q' i')" for q' i'
      using n [of q' i'] keep False unfolding F by (auto split: if_splits)
    then have "h' n = h n" using False by (intro same) auto
    then show ?thesis using kq_reprD(3) [OF kq no] by (simp add: unlinked_def)
  qed
  ultimately show ?thesis unfolding kq_repr_def by blast
qed

lemma pq_nodes_add: "pq_nodes (f(p := f p @ [x])) = insert x (pq_nodes f)"
  by (auto simp: pq_nodes_def split: if_splits)

lemma on_bin_push:
  assumes kq: "kq_repr (k_node k) (k_queue k) F" and x: "\<And>q i. x \<notin> pq_nodes (F q i)"
  shows "kq_repr (k_node (on_bin q i (\<lambda>s. priorityq_push s x p False) k))
     (k_queue (on_bin q i (\<lambda>s. priorityq_push s x p False) k))
     (F(q := (F q)(i := (F q i)(p := F q i p @ [x]))))"
proof -
  obtain h' pq' where e: "priorityq_pushback (k_node k, sq_bins (k_queue k q) i) x p = (h', pq')"
    by fastforce
  note r = priorityq_pushback_repr [OF kq_reprD(1) [OF kq] x e]
  have fr: "h' n = k_node k n" if "n \<notin> insert x (pq_nodes (F q i))" for n
    using that r by (cases n) (auto simp: pq_nodes_def)
  have "kq_repr h' ((k_queue k)(q := (k_queue k q)\<lparr>sq_bins := (sq_bins (k_queue k q))(i := pq')\<rparr>))
    (F(q := (F q)(i := (F q i)(p := F q i p @ [x]))))"
    by (rule kq_repr_update [OF kq _ fr x]) (use r in \<open>auto simp: pq_nodes_add\<close>)
  then show ?thesis by (simp add: on_bin_def priorityq_push_cases e upd_queue_def)
qed

lemma on_bin_dequeue:
  assumes kq: "kq_repr (k_node k) (k_queue k) F" and x: "x \<in> set (F q i p)"
  shows "kq_repr (k_node (on_bin q i (\<lambda>s. priorityq_dequeue s x p) k))
     (k_queue (on_bin q i (\<lambda>s. priorityq_dequeue s x p) k))
     (F(q := (F q)(i := (F q i)(p := remove1 x (F q i p)))))"
proof -
  obtain h' pq' where e: "priorityq_dequeue (k_node k, sq_bins (k_queue k q) i) x p = (h', pq')"
    by fastforce
  note pr = kq_reprD(1) [OF kq, of q i]
  note r = priorityq_dequeue_repr [OF pr x e]
  have fr: "h' n = k_node k n" if "n \<notin> insert x (pq_nodes (F q i))" for n
    using that r by (cases n) (auto simp: pq_nodes_def)
  have xin: "x \<in> pq_nodes (F q i)" using x by (auto simp: pq_nodes_def)
  have fresh: "x \<notin> pq_nodes (F q' i')" if "(q', i') \<noteq> (q, i)" for q' i'
    using kq_reprD(2) [OF kq that] xin by blast
  have nodes: "pq_nodes ((F q i)(p := remove1 x (F q i p))) = pq_nodes (F q i) - {x}"
  proof -
    have "x \<notin> set (F q i r)" if "r \<noteq> p" for r
      using pq_reprD(1) [OF pr] x that by (fastforce simp: dqi.fam_repr_def)
    then show ?thesis
      using pq_repr_distinct [OF pr, of p] by (auto simp: pq_nodes_def split: if_splits)
  qed
  have "kq_repr h' ((k_queue k)(q := (k_queue k q)\<lparr>sq_bins := (sq_bins (k_queue k q))(i := pq')\<rparr>))
    (F(q := (F q)(i := (F q i)(p := remove1 x (F q i p)))))"
    by (rule kq_repr_update [OF kq _ fr fresh]) (use r in \<open>auto simp: nodes\<close>)
  then show ?thesis by (simp add: on_bin_def e upd_queue_def)
qed

section \<open>The loops over the criticalities\<close>

lemma fold_on_bin_simps [simp]:
  "k_task (fold (\<lambda>i. on_bin q i (f i)) is k) = k_task k"
  "k_cpu (fold (\<lambda>i. on_bin q i (f i)) is k) = k_cpu k"
  "k_num_cpus (fold (\<lambda>i. on_bin q i (f i)) is k) = k_num_cpus k"
  by (induction "is" arbitrary: k) simp_all

lemma on_bin_level [simp]:
  "sq_criticality_level (k_queue (on_bin q i f k) r) = sq_criticality_level (k_queue k r)"
  "sq_aging_bitmap (k_queue (on_bin q i f k) r) = sq_aging_bitmap (k_queue k r)"
  "sq_iteration (k_queue (on_bin q i f k) r) = sq_iteration (k_queue k r)"
  by (simp_all add: on_bin_def split_def Let_def)

lemma fold_on_bin_level [simp]:
  "sq_criticality_level (k_queue (fold (\<lambda>i. on_bin q i (f i)) is k) r) = sq_criticality_level (k_queue k r)"
  "sq_aging_bitmap (k_queue (fold (\<lambda>i. on_bin q i (f i)) is k) r) = sq_aging_bitmap (k_queue k r)"
  "sq_iteration (k_queue (fold (\<lambda>i. on_bin q i (f i)) is k) r) = sq_iteration (k_queue k r)"
  by (induction "is" arbitrary: k) simp_all

lemma push_loop:
  assumes kq: "kq_repr (k_node k) (k_queue k) F" and x: "\<And>i q i'. (t, i) \<notin> pq_nodes (F q i')"
  shows "kq_repr (k_node (fold (\<lambda>i. on_bin q i (\<lambda>s. priorityq_push s (t, i) p False)) [0..<n] k))
     (k_queue (fold (\<lambda>i. on_bin q i (\<lambda>s. priorityq_push s (t, i) p False)) [0..<n] k))
     (F(q := (\<lambda>i. if i < n then (F q i)(p := F q i p @ [(t, i)]) else F q i)))"
proof (induction n)
  case 0
  then show ?case using kq by simp
next
  case (Suc n)
  have new: "(t, n) \<notin> pq_nodes ((F(q := (\<lambda>i. if i < n then (F q i)(p := F q i p @ [(t, i)]) else F q i))) r j)"
    for r j using x by (auto simp: pq_nodes_add)
  have "(F(q := (\<lambda>i. if i < Suc n then (F q i)(p := F q i p @ [(t, i)]) else F q i))) =
    (let G = F(q := (\<lambda>i. if i < n then (F q i)(p := F q i p @ [(t, i)]) else F q i))
     in G(q := (G q)(n := (G q n)(p := G q n p @ [(t, n)]))))"
    by (auto simp: Let_def fun_eq_iff less_Suc_eq)
  then show ?case using on_bin_push [OF Suc new, of q n p] by (simp add: Let_def fun_upd_def)
qed

lemma dequeue_loop:
  assumes kq: "kq_repr (k_node k) (k_queue k) F" and x: "\<And>i. i < n \<Longrightarrow> (t, i) \<in> set (F q i p)"
  shows "kq_repr (k_node (fold (\<lambda>i. on_bin q i (\<lambda>s. priorityq_dequeue s (t, i) p)) [0..<n] k))
     (k_queue (fold (\<lambda>i. on_bin q i (\<lambda>s. priorityq_dequeue s (t, i) p)) [0..<n] k))
     (F(q := (\<lambda>i. if i < n then (F q i)(p := remove1 (t, i) (F q i p)) else F q i)))"
  using x
proof (induction n)
  case 0
  then show ?case using kq by simp
next
  case (Suc n)
  have IH: "kq_repr (k_node (fold (\<lambda>i. on_bin q i (\<lambda>s. priorityq_dequeue s (t, i) p)) [0..<n] k))
     (k_queue (fold (\<lambda>i. on_bin q i (\<lambda>s. priorityq_dequeue s (t, i) p)) [0..<n] k))
     (F(q := (\<lambda>i. if i < n then (F q i)(p := remove1 (t, i) (F q i p)) else F q i)))"
    using Suc by (simp add: fun_upd_def)
  have mem: "(t, n) \<in> set ((F(q := (\<lambda>i. if i < n then (F q i)(p := remove1 (t, i) (F q i p)) else F q i))) q n p)"
    using Suc.prems by simp
  have "(F(q := (\<lambda>i. if i < Suc n then (F q i)(p := remove1 (t, i) (F q i p)) else F q i))) =
    (let G = F(q := (\<lambda>i. if i < n then (F q i)(p := remove1 (t, i) (F q i p)) else F q i))
     in G(q := (G q)(n := (G q n)(p := remove1 (t, n) (G q n p)))))"
    by (auto simp: Let_def fun_eq_iff less_Suc_eq)
  then show ?case using on_bin_dequeue [OF IH mem] by (simp add: Let_def fun_upd_def)
qed


section \<open>The run queues as lists of tasks\<close>

type_synonym run_lists = "u32 \<Rightarrow> u8 \<Rightarrow> task_ptr list"

abbreviation crit :: "'a kernel_scheme \<Rightarrow> task_ptr \<Rightarrow> nat" where
  "crit k t \<equiv> unat (task_criticality (k_task k t))"

text \<open>The tasks of a list that the criticality \<open>i\<close> admits.\<close>

definition admitted :: "'a kernel_scheme \<Rightarrow> nat \<Rightarrow> task_ptr list \<Rightarrow> task_ptr list" where
  "admitted k i ts = filter (\<lambda>t. i \<le> crit k t) ts"

definition bin_lists :: "'a kernel_scheme \<Rightarrow> run_lists \<Rightarrow> u32 \<Rightarrow> nat \<Rightarrow> u8 \<Rightarrow> task_node list" where
  "bin_lists k Q q i p = map (\<lambda>t. (t, i)) (admitted k i (Q q p))"

definition sched_repr :: "'a kernel_scheme \<Rightarrow> run_lists \<Rightarrow> bool" where
  "sched_repr k Q \<longleftrightarrow> kq_repr (k_node k) (k_queue k) (bin_lists k Q) \<and>
     (\<forall>q p. \<forall>t \<in> set (Q q p). task_priority (k_task k t) = p \<and> task_queue_id (k_task k t) = q)"

definition queued :: "run_lists \<Rightarrow> task_ptr set" where
  "queued Q = (\<Union>q p. set (Q q p))"

definition enq :: "u32 \<Rightarrow> u8 \<Rightarrow> task_ptr \<Rightarrow> run_lists \<Rightarrow> run_lists" where
  "enq q p t Q = Q(q := (Q q)(p := Q q p @ [t]))"

definition deq :: "task_ptr \<Rightarrow> run_lists \<Rightarrow> run_lists" where
  "deq t Q = (\<lambda>q p. remove1 t (Q q p))"

lemma queuedI: "t \<in> set (Q q p) \<Longrightarrow> t \<in> queued Q"
  by (auto simp: queued_def)

lemma queued_iff: "t \<in> queued Q \<longleftrightarrow> (\<exists>q p. t \<in> set (Q q p))"
  by (auto simp: queued_def)

lemma set_enq: "set (enq q p t Q q' p') = (if q' = q \<and> p' = p then {t} else {}) \<union> set (Q q' p')"
  by (auto simp: enq_def)

lemma bin_lists_mem:
  "n \<in> pq_nodes (bin_lists k Q q i) \<longleftrightarrow> snd n = i \<and> i \<le> crit k (fst n) \<and> (\<exists>p. fst n \<in> set (Q q p))"
  by (cases n) (auto simp: pq_nodes_def bin_lists_def admitted_def)

lemma sched_reprD:
  assumes "sched_repr k Q"
  shows "kq_repr (k_node k) (k_queue k) (bin_lists k Q)"
    and "t \<in> set (Q q p) \<Longrightarrow> task_priority (k_task k t) = p"
    and "t \<in> set (Q q p) \<Longrightarrow> task_queue_id (k_task k t) = q"
  using assms by (auto simp: sched_repr_def)

lemma sched_repr_bin: "sched_repr k Q \<Longrightarrow> pq_repr (k_node k) (sq_bins (k_queue k q) i) (bin_lists k Q q i)"
  by (rule kq_reprD(1)) (rule sched_reprD(1))

lemma distinct_map_pair: "distinct (map (\<lambda>t. (t, i)) xs) \<longleftrightarrow> distinct xs"
  by (simp add: distinct_map inj_on_def)

lemma sched_repr_distinct: "sched_repr k Q \<Longrightarrow> distinct (Q q p)"
  using pq_repr_distinct [OF sched_repr_bin, of k Q q 0 p]
  by (simp add: bin_lists_def admitted_def distinct_map_pair)

lemma map_pair_remove1: "map (\<lambda>t. (t, i)) (remove1 x xs) = remove1 (x, i) (map (\<lambda>t. (t, i)) xs)"
  by (induction xs) auto

lemma admitted_0 [simp]: "admitted k 0 ts = ts"
  by (simp add: admitted_def)

lemma admitted_remove1: "distinct ts \<Longrightarrow> admitted k i (remove1 t ts) = remove1 t (admitted k i ts)"
  by (simp add: admitted_def filter_remove1_distinct)

lemma bin_lists_cong:
  "(\<And>t. t \<in> queued Q \<Longrightarrow> crit k' t = crit k t) \<Longrightarrow> bin_lists k' Q = bin_lists k Q"
  unfolding bin_lists_def admitted_def
  by (intro ext arg_cong [where f = "map _"] filter_cong refl) (simp add: queuedI)

text \<open>Changes outside the queues, the queued tasks' scheduling data and the node store.\<close>

lemma sched_repr_frame:
  assumes "sched_repr k Q" and "k_node k' = k_node k"
    and "\<And>q. sq_bins (k_queue k' q) = sq_bins (k_queue k q)"
    and "\<And>t. t \<in> queued Q \<Longrightarrow> task_criticality (k_task k' t) = task_criticality (k_task k t) \<and>
      task_priority (k_task k' t) = task_priority (k_task k t) \<and>
      task_queue_id (k_task k' t) = task_queue_id (k_task k t)"
  shows "sched_repr k' Q"
proof -
  have "bin_lists k' Q = bin_lists k Q" using assms(4) by (intro bin_lists_cong) simp
  moreover have "t \<in> queued Q" if "t \<in> set (Q q p)" for t q p using that by (auto simp: queued_def)
  ultimately show ?thesis using assms by (simp add: sched_repr_def kq_repr_def)
qed

lemma queued_enq [simp]: "queued (enq q p t Q) = insert t (queued Q)"
  by (rule set_eqI) (auto simp: queued_iff set_enq)

lemma queued_deq: "sched_repr k Q \<Longrightarrow> queued (deq t Q) = queued Q - {t}"
  using sched_repr_distinct by (fastforce simp: queued_def deq_def)

section \<open>Pushing and removing a task\<close>

lemma sched_priorityq_push_frame [simp]:
  "k_task (sched_priorityq_push q t k) = k_task k" "k_cpu (sched_priorityq_push q t k) = k_cpu k"
  "k_num_cpus (sched_priorityq_push q t k) = k_num_cpus k"
  "sq_criticality_level (k_queue (sched_priorityq_push q t k) r) = sq_criticality_level (k_queue k r)"
  "sq_aging_bitmap (k_queue (sched_priorityq_push q t k) r) = sq_aging_bitmap (k_queue k r)"
  "sq_iteration (k_queue (sched_priorityq_push q t k) r) = sq_iteration (k_queue k r)"
  unfolding sched_priorityq_push_def Let_def by simp_all

lemma sched_priorityq_dequeue_frame [simp]:
  "k_task (sched_priorityq_dequeue t k) = k_task k" "k_cpu (sched_priorityq_dequeue t k) = k_cpu k"
  "k_num_cpus (sched_priorityq_dequeue t k) = k_num_cpus k"
  "sq_criticality_level (k_queue (sched_priorityq_dequeue t k) r) = sq_criticality_level (k_queue k r)"
  "sq_aging_bitmap (k_queue (sched_priorityq_dequeue t k) r) = sq_aging_bitmap (k_queue k r)"
  "sq_iteration (k_queue (sched_priorityq_dequeue t k) r) = sq_iteration (k_queue k r)"
  unfolding sched_priorityq_dequeue_def Let_def by simp_all

lemma sched_priorityq_push_repr:
  assumes r: "sched_repr k Q" and t: "t \<notin> queued Q" and q: "task_queue_id (k_task k t) = q"
  shows "sched_repr (sched_priorityq_push q t k) (enq q (task_priority (k_task k t)) t Q)"
proof -
  let ?k = "sched_priorityq_push q t k" and ?p = "task_priority (k_task k t)"
  have out: "(t, i) \<notin> pq_nodes (bin_lists k Q q i')" for i q i'
    using t by (auto simp: bin_lists_mem queued_def)
  have "bin_lists ?k (enq q ?p t Q) = (bin_lists k Q)
    (q := \<lambda>i. if i < Suc (crit k t) then (bin_lists k Q q i)(?p := bin_lists k Q q i ?p @ [(t, i)])
      else bin_lists k Q q i)"
    by (auto simp: bin_lists_def admitted_def enq_def fun_eq_iff)
  then have "kq_repr (k_node ?k) (k_queue ?k) (bin_lists ?k (enq q ?p t Q))"
    using push_loop [OF sched_reprD(1) [OF r] out, of q ?p "Suc (crit k t)"]
    by (simp add: sched_priorityq_push_def Let_def)
  moreover have "task_priority (k_task k u) = p' \<and> task_queue_id (k_task k u) = q'"
    if "u \<in> set (enq q ?p t Q q' p')" for u q' p'
    using that sched_reprD(2,3) [OF r] q by (auto simp: enq_def split: if_splits)
  ultimately show ?thesis by (simp add: sched_repr_def)
qed

lemma deq_once:
  assumes r: "sched_repr k Q" and t: "t \<in> set (Q q p)"
  shows "deq t Q = Q(q := (Q q)(p := remove1 t (Q q p)))"
proof -
  have "t \<notin> set (Q q' p')" if "(q', p') \<noteq> (q, p)" for q' p'
    using sched_reprD(2,3) [OF r t] sched_reprD(2,3) [OF r, of t q' p'] that by auto
  then have "deq t Q q' p' = (Q(q := (Q q)(p := remove1 t (Q q p)))) q' p'" for q' p'
    by (auto simp: deq_def remove1_idem)
  then show ?thesis by (intro ext)
qed

lemma sched_priorityq_dequeue_repr:
  assumes r: "sched_repr k Q" and t: "t \<in> set (Q q p)"
  shows "sched_repr (sched_priorityq_dequeue t k) (deq t Q)"
proof -
  let ?k = "sched_priorityq_dequeue t k"
  have p: "task_priority (k_task k t) = p" and q: "task_queue_id (k_task k t) = q"
    using sched_reprD(2,3) [OF r t] by auto
  have mem: "(t, i) \<in> set (bin_lists k Q q i p)" if "i < Suc (crit k t)" for i
    using t that by (auto simp: bin_lists_def admitted_def)
  have "bin_lists ?k (deq t Q) = (bin_lists k Q)
    (q := \<lambda>i. if i < Suc (crit k t) then (bin_lists k Q q i)(p := remove1 (t, i) (bin_lists k Q q i p))
      else bin_lists k Q q i)"
  proof -
    have "remove1 (t, i) (map (\<lambda>t. (t, i)) (filter (\<lambda>t. i \<le> crit k t) xs)) =
      map (\<lambda>t. (t, i)) (filter (\<lambda>t. i \<le> crit k t) xs)" if "\<not> i \<le> crit k t" for i xs
      using that by (intro remove1_idem) auto
    then show ?thesis
      unfolding deq_once [OF r t]
      using sched_repr_distinct [OF r, of q p]
      by (auto simp: bin_lists_def admitted_def fun_eq_iff filter_remove1_distinct map_pair_remove1)
  qed
  then have "kq_repr (k_node ?k) (k_queue ?k) (bin_lists ?k (deq t Q))"
    using dequeue_loop [OF sched_reprD(1) [OF r], of "Suc (crit k t)" t q p] mem p q
    by (simp add: sched_priorityq_dequeue_def Let_def)
  moreover have "task_priority (k_task k u) = p' \<and> task_queue_id (k_task k u) = q'"
    if "u \<in> set (deq t Q q' p')" for u q' p'
    using that sched_reprD(2,3) [OF r] by (metis deq_def notin_set_remove1)
  ultimately show ?thesis by (simp add: sched_repr_def)
qed

lemma sched_priorityq_is_queued_repr:
  assumes r: "sched_repr k Q"
  shows "sched_priorityq_is_queued k t \<longleftrightarrow> t \<in> queued Q"
proof -
  let ?q = "task_queue_id (k_task k t)" and ?p = "task_priority (k_task k t)"
  have dq: "dq_repr (k_node k) (priority_bins (sq_bins (k_queue k ?q) 0) ?p) (bin_lists k Q ?q 0 ?p)"
    using pq_reprD(2) [OF sched_repr_bin [OF r]] .
  have mem: "(t, 0) \<in> set (bin_lists k Q ?q 0 ?p) \<longleftrightarrow> t \<in> queued Q"
    using sched_reprD(2,3) [OF r] by (auto simp: bin_lists_def queued_def)
  have "unlinked (k_node k) (t, 0)" if "t \<notin> queued Q"
    using that by (intro kq_reprD(3) [OF sched_reprD(1) [OF r]]) (auto simp: bin_lists_mem queued_def)
  then show ?thesis
    using dq_is_queued_repr [OF dq, of "(t, 0)"] mem
    by (auto simp: sched_priorityq_is_queued_def priorityq_is_queued_def)
qed


section \<open>Which task is popped\<close>

text \<open>The candidates of a queue: the tasks the criticality level admits, or all tasks when it
  admits none. With aging, only the levels in the aging bitmap count, unless that leaves none.\<close>

definition level_of :: "'a kernel_scheme \<Rightarrow> u32 \<Rightarrow> nat" where
  "level_of k q = unat (sq_criticality_level (k_queue k q))"

definition chosen_bin :: "'a kernel_scheme \<Rightarrow> run_lists \<Rightarrow> u32 \<Rightarrow> nat" where
  "chosen_bin k Q q = (if \<forall>p. admitted k (level_of k q) (Q q p) = [] then 0 else level_of k q)"

definition cands :: "'a kernel_scheme \<Rightarrow> run_lists \<Rightarrow> u32 \<Rightarrow> u8 \<Rightarrow> task_ptr list" where
  "cands k Q q p = admitted k (chosen_bin k Q q) (Q q p)"

definition age_blocked :: "'a kernel_scheme \<Rightarrow> run_lists \<Rightarrow> u32 \<Rightarrow> bool" where
  "age_blocked k Q q \<longleftrightarrow> (\<forall>p. bmp256_test (sq_aging_bitmap (k_queue k q)) p \<longrightarrow> cands k Q q p = [])"

definition age_cands :: "'a kernel_scheme \<Rightarrow> run_lists \<Rightarrow> u32 \<Rightarrow> u8 \<Rightarrow> task_ptr list" where
  "age_cands k Q q p = (if age_blocked k Q q \<or> bmp256_test (sq_aging_bitmap (k_queue k q)) p
     then cands k Q q p else [])"

lemma cands_sub: "set (cands k Q q p) \<subseteq> set (Q q p)"
  by (auto simp: cands_def admitted_def)

lemma cands_empty: "(\<forall>p. cands k Q q p = []) \<longleftrightarrow> (\<forall>p. Q q p = [])"
  by (auto simp: cands_def chosen_bin_def admitted_def filter_empty_conv)

lemma age_cands_empty: "(\<forall>p. age_cands k Q q p = []) \<longleftrightarrow> (\<forall>p. Q q p = [])"
  unfolding cands_empty [of k Q q, symmetric] by (auto simp: age_cands_def age_blocked_def)

lemma bin_lists_Nil: "bin_lists k Q q i p = [] \<longleftrightarrow> admitted k i (Q q p) = []"
  by (simp add: bin_lists_def)

lemma top_level_bin: "top_level (bin_lists k Q q i) p \<longleftrightarrow> top_level (\<lambda>p. admitted k i (Q q p)) p"
  by (simp add: top_level_def bin_lists_Nil)

lemma get_bin_cases:
  assumes r: "sched_repr k Q"
  shows "(\<forall>p. Q q p = []) \<and> sched_priorityq_get_bin (k_queue k q) = None \<or>
     (\<exists>p. top_level (cands k Q q) p \<and>
        sched_priorityq_get_bin (k_queue k q) = Some (p, of_nat (chosen_bin k Q q)))"
proof -
  let ?l = "level_of k q" and ?s = "k_queue k q"
  note b = sched_repr_bin [OF r, of q]
  have none: "priorityq_awaiting_priority (sq_bins ?s i) = -1 \<longleftrightarrow> (\<forall>p. admitted k i (Q q p) = [])" for i
    using awaiting_none [OF b] by (simp add: bin_lists_Nil)
  have top: "top_level (\<lambda>p. admitted k i (Q q p)) (word_of_int (priorityq_awaiting_priority (sq_bins ?s i)))"
    if "priorityq_awaiting_priority (sq_bins ?s i) \<noteq> -1" for i
    using awaiting_top [OF b that] by (simp add: top_level_bin)
  show ?thesis
  proof (cases "\<forall>p. admitted k ?l (Q q p) = []")
    case lvl: True
    then have c: "chosen_bin k Q q = 0" by (simp add: chosen_bin_def)
    show ?thesis
    proof (cases "\<forall>p. Q q p = []")
      case True
      then show ?thesis using none [of 0] none [of ?l] lvl
        by (simp add: sched_priorityq_get_bin_def level_of_def Let_def)
    next
      case False
      then have ne: "priorityq_awaiting_priority (sq_bins ?s 0) \<noteq> -1" using none [of 0] by simp
      have "sq_criticality_level ?s \<noteq> 0" using False lvl by (auto simp: level_of_def)
      then show ?thesis using ne top [OF ne] none [of ?l] lvl c
        by (intro disjI2 exI [of _ "word_of_int (priorityq_awaiting_priority (sq_bins ?s 0))"])
          (simp add: sched_priorityq_get_bin_def level_of_def Let_def cands_def [abs_def])
    qed
  next
    case False
    then have ne: "priorityq_awaiting_priority (sq_bins ?s ?l) \<noteq> -1" using none by blast
    have "chosen_bin k Q q = ?l" using False by (auto simp: chosen_bin_def)
    then show ?thesis using ne top [OF ne]
      by (intro disjI2 exI [of _ "word_of_int (priorityq_awaiting_priority (sq_bins ?s ?l))"])
        (simp add: sched_priorityq_get_bin_def level_of_def Let_def cands_def [abs_def])
  qed
qed

lemma get_bin_None: "sched_repr k Q \<Longrightarrow> sched_priorityq_get_bin (k_queue k q) = None \<longleftrightarrow> (\<forall>p. Q q p = [])"
  using get_bin_cases [of k Q q] by (auto simp: cands_def top_level_def admitted_def)

lemma get_bin_Some:
  assumes r: "sched_repr k Q" and p: "top_level (cands k Q q) p"
  shows "sched_priorityq_get_bin (k_queue k q) = Some (p, of_nat (chosen_bin k Q q))"
proof -
  have "\<not> (\<forall>p. Q q p = [])" using p cands_empty [of k Q q] by (auto simp: top_level_def)
  then obtain p' where "top_level (cands k Q q) p'"
    "sched_priorityq_get_bin (k_queue k q) = Some (p', of_nat (chosen_bin k Q q))"
    using get_bin_cases [OF r, of q] by blast
  then show ?thesis using top_level_unique [OF p] by simp
qed

lemma chosen_bin_u8: "unat (of_nat (chosen_bin k Q q) :: u8) = chosen_bin k Q q"
  by (simp add: chosen_bin_def level_of_def)

lemma sched_priorityq_pop_eq:
  assumes r: "sched_repr k Q" and p: "top_level (cands k Q q) p" and t: "cands k Q q p = t # ts"
  shows "sched_priorityq_pop q k = (Some t, sched_priorityq_dequeue t k)"
proof -
  have "priorityq_peekfront (sq_bins (k_queue k q) (chosen_bin k Q q)) = Some (t, chosen_bin k Q q)"
    using p t
    by (intro priorityq_peekfront_repr(2) [OF sched_repr_bin [OF r], where p = p])
      (auto simp: top_level_bin cands_def [abs_def] bin_lists_def)
  then show ?thesis
    using get_bin_Some [OF r p] chosen_bin_u8 [of k Q q]
    by (simp add: sched_priorityq_pop_def node_to_task_def del: of_nat_unat)
qed

lemma sched_priorityq_pop_None:
  "sched_repr k Q \<Longrightarrow> \<forall>p. Q q p = [] \<Longrightarrow> sched_priorityq_pop q k = (None, k)"
  using get_bin_None [of k Q q] by (simp add: sched_priorityq_pop_def)

lemma top_level_ex: "\<not> (\<forall>p. f p = []) \<Longrightarrow> \<exists>p. top_level f p"
proof -
  assume ne: "\<not> (\<forall>p. f p = [])"
  let ?S = "{p. f p \<noteq> []}"
  have "finite ?S" "?S \<noteq> {}" using ne by auto
  then have "Max ?S \<in> ?S" "\<And>q. q \<in> ?S \<Longrightarrow> q \<le> Max ?S" by (rule Max_in, simp)
  then show ?thesis by (intro exI [of _ "Max ?S"]) (simp add: top_level_def)
qed

lemma top_level_head:
  assumes "top_level f p"
  obtains t ts where "f p = t # ts"
  using assms by (auto simp: top_level_def neq_Nil_conv)

lemma pop_cases:
  assumes "\<not> (\<forall>p. f p = [])"
  obtains p t ts where "top_level f p" "f p = t # ts"
  using top_level_ex [OF assms] top_level_head by metis

lemma sched_priorityq_highest_priority_repr:
  assumes r: "sched_repr k Q"
  shows "sched_priorityq_highest_priority (k_queue k q) = -1 \<longleftrightarrow> (\<forall>p. Q q p = [])"
    and "top_level (cands k Q q) p \<Longrightarrow> sched_priorityq_highest_priority (k_queue k q) = uint p"
proof -
  let ?g = "sched_priorityq_get_bin (k_queue k q)"
  have e: "?g = None \<longleftrightarrow> sched_priorityq_highest_priority (k_queue k q) = -1"
    by (auto simp: sched_priorityq_get_bin_def sched_priorityq_highest_priority_def Let_def word_gt_0)
  then show "sched_priorityq_highest_priority (k_queue k q) = -1 \<longleftrightarrow> (\<forall>p. Q q p = [])"
    using get_bin_None [OF r] by simp
  have "?g = Some (p', c) \<Longrightarrow> uint p' = sched_priorityq_highest_priority (k_queue k q)" for p' c
    using awaiting_range
    by (auto simp: sched_priorityq_get_bin_def sched_priorityq_highest_priority_def Let_def word_gt_0
        uint_word_of_int split: if_splits) (smt (verit) awaiting_range mod_pos_pos_trivial)+
  then show "top_level (cands k Q q) p \<Longrightarrow> sched_priorityq_highest_priority (k_queue k q) = uint p"
    using get_bin_Some [OF r] by metis
qed


section \<open>Popping with aging\<close>

text \<open>Removing a task commutes with replacing the bitmap of one bin, up to the bit of the
  task's own level.\<close>

definition drop_if_empty :: "task_node priorityq \<Rightarrow> u8 \<Rightarrow> bmp256 \<Rightarrow> bmp256" where
  "drop_if_empty pq p b = (if dq_is_empty (priority_bins pq p) then bmp256_unset b p else b)"

lemma priorityq_dequeue_bitmap:
  assumes "priorityq_dequeue (h, pq) x p = (h', pq')"
  shows "priorityq_dequeue (h, pq\<lparr>priority_bitmap := b\<rparr>) x p =
     (h', pq'\<lparr>priority_bitmap := drop_if_empty pq' p b\<rparr>)"
  using assms
  by (auto simp: priorityq_dequeue_def drop_if_empty_def pq_put_bin_def priorityq_unset_priority_def
      Let_def split: prod.splits)

lemma on_bin_bitmap_other:
  "j \<noteq> i \<Longrightarrow> on_bin q j f (upd_queue q (set_bin_bitmap i b) k) =
     upd_queue q (set_bin_bitmap i b) (on_bin q j f k)"
  by (simp add: on_bin_def upd_queue_def set_bin_bitmap_def split_def Let_def fun_upd_twist)

lemma on_bin_bitmap_same:
  "on_bin q i (\<lambda>s. priorityq_dequeue s x p) (upd_queue q (set_bin_bitmap i b) k) =
     upd_queue q (\<lambda>s. set_bin_bitmap i (drop_if_empty (sq_bins s i) p b) s)
       (on_bin q i (\<lambda>s. priorityq_dequeue s x p) k)"
proof -
  obtain h' pq' where e: "priorityq_dequeue (k_node k, sq_bins (k_queue k q) i) x p = (h', pq')"
    by fastforce
  then show ?thesis
    by (simp add: on_bin_def upd_queue_def set_bin_bitmap_def priorityq_dequeue_bitmap [OF e])
qed

lemma on_bin_bins_other: "j \<noteq> i \<Longrightarrow> sq_bins (k_queue (on_bin q j f k) q) i = sq_bins (k_queue k q) i"
  by (simp add: on_bin_def split_def Let_def)

lemma dequeue_loop_bitmap:
  fixes k :: "'a kernel_scheme" and q :: u32 and t :: task_ptr and p :: u8
  defines "L \<equiv> \<lambda>n. fold (\<lambda>i. on_bin q i (\<lambda>s. priorityq_dequeue s (t, i) p)) [0..<n]"
  shows "L n (upd_queue q (set_bin_bitmap i b) k) =
     upd_queue q (\<lambda>s. set_bin_bitmap i (if i < n then drop_if_empty (sq_bins s i) p b else b) s) (L n k)"
proof (induction n)
  case 0
  then show ?case by (simp add: L_def upd_queue_def)
next
  case (Suc n)
  have step: "L (Suc n) k' = on_bin q n (\<lambda>s. priorityq_dequeue s (t, n) p) (L n k')" for k' :: "'a kernel_scheme"
    by (simp add: L_def)
  consider "n < i" | "n = i" | "i < n" by linarith
  then show ?case
  proof cases
    case 1
    then show ?thesis unfolding step Suc by (simp add: on_bin_bitmap_other)
  next
    case 2
    then show ?thesis unfolding step Suc by (simp add: on_bin_bitmap_same)
  next
    case 3
    have "upd_queue q (\<lambda>s. set_bin_bitmap i (drop_if_empty (sq_bins s i) p b) s) k' =
      upd_queue q (set_bin_bitmap i (drop_if_empty (sq_bins (k_queue k' q) i) p b)) k'"
      for k' :: "'a kernel_scheme" by (simp add: upd_queue_def)
    then show ?thesis unfolding step Suc using 3
      by (simp add: on_bin_bitmap_other on_bin_bins_other)
  qed
qed

lemma sched_priorityq_dequeue_bitmap:
  assumes "task_queue_id (k_task k t) = q" and "i \<le> crit k t"
  shows "sched_priorityq_dequeue t (upd_queue q (set_bin_bitmap i b) k) =
     upd_queue q (\<lambda>s. set_bin_bitmap i (drop_if_empty (sq_bins s i) (task_priority (k_task k t)) b) s)
       (sched_priorityq_dequeue t k)"
  unfolding sched_priorityq_dequeue_def Let_def
  using assms dequeue_loop_bitmap [of q t "task_priority (k_task k t)" "Suc (crit k t)" i b k]
  by (simp del: upt_Suc)

lemma set_bin_bitmap_id [simp]: "set_bin_bitmap i (priority_bitmap (sq_bins s i)) s = s"
  by (simp add: set_bin_bitmap_def)

lemma set_bin_bitmap_twice [simp]: "set_bin_bitmap i b (set_bin_bitmap i c s) = set_bin_bitmap i b s"
  by (simp add: set_bin_bitmap_def)

lemma set_bin_bitmap_bins [simp]:
  "sq_bins (set_bin_bitmap i b s) j = (if j = i then (sq_bins s i)\<lparr>priority_bitmap := b\<rparr> else sq_bins s j)"
  "sq_criticality_level (set_bin_bitmap i b s) = sq_criticality_level s"
  "sq_aging_bitmap (set_bin_bitmap i b s) = sq_aging_bitmap s"
  "sq_iteration (set_bin_bitmap i b s) = sq_iteration s"
  by (simp_all add: set_bin_bitmap_def)

lemma sched_age_bins [simp]: "sq_bins (sched_age p s) = sq_bins s"
  "sq_criticality_level (sched_age p s) = sq_criticality_level s"
  by (simp_all add: sched_age_def sched_reset_age_def Let_def)

lemma sched_reset_age_bins [simp]: "sq_bins (sched_reset_age s) = sq_bins s"
  "sq_criticality_level (sched_reset_age s) = sq_criticality_level s"
  by (simp_all add: sched_reset_age_def)

lemma sched_age_set_bin: "set_bin_bitmap i b (sched_age p s) = sched_age p (set_bin_bitmap i b s)"
  by (simp add: sched_age_def set_bin_bitmap_def sched_reset_age_def Let_def)

lemma reset_age_set_bin:
  "sched_reset_age (set_bin_bitmap i b s) = set_bin_bitmap i b (sched_reset_age s)"
  by (simp add: set_bin_bitmap_def sched_reset_age_def)

lemma upd_queue_upd [simp]: "upd_queue q f (upd_queue q g k) = upd_queue q (\<lambda>s. f (g s)) k"
  by (simp add: upd_queue_def)

lemma upd_queue_id: "f (k_queue k q) = k_queue k q \<Longrightarrow> upd_queue q f k = k"
  by (simp add: upd_queue_def)

text \<open>The same frame without the bitmap: what popping a task from a masked bin leaves, once
  the saved bitmap is restored, is what removing the task leaves.\<close>

lemma dequeue_restores_bitmap:
  assumes q: "task_queue_id (k_task k t) = q" and i: "i \<le> crit k t" and p: "task_priority (k_task k t) = p"
  shows "set_bin_bitmap i (drop_if_empty (sq_bins (k_queue (sched_priorityq_dequeue t k) q) i) p
       (priority_bitmap (sq_bins (k_queue k q) i))) (k_queue (sched_priorityq_dequeue t k) q) =
     k_queue (sched_priorityq_dequeue t k) q"
proof -
  have "upd_queue q (set_bin_bitmap i (priority_bitmap (sq_bins (k_queue k q) i))) k = k"
    by (rule upd_queue_id) simp
  then have "k_queue (sched_priorityq_dequeue t k) q = k_queue (upd_queue q (\<lambda>s. set_bin_bitmap i
     (drop_if_empty (sq_bins s i) p (priority_bitmap (sq_bins (k_queue k q) i))) s) (sched_priorityq_dequeue t k)) q"
    using sched_priorityq_dequeue_bitmap [OF q i, of "priority_bitmap (sq_bins (k_queue k q) i)"] p by simp
  then show ?thesis by simp
qed


lemma bmp256_fls_top:
  assumes "bmp256_test b p" and "\<And>p'. bmp256_test b p' \<Longrightarrow> p' \<le> p"
  shows "bmp256_fls b = uint p"
proof -
  have m: "uint p \<in> bmp256_members b" using assms(1) by (simp add: mem_bmp256_test)
  then have ge: "uint p \<le> bmp256_fls b" by (rule b256.highest_ge)
  then have "bmp256_fls b \<noteq> -1" using uint_ge_0 [of p] by linarith
  then have f: "bmp256_fls b \<in> bmp256_members b" by (rule b256.highest_mem)
  then have r: "0 \<le> bmp256_fls b" "bmp256_fls b < 256" using b256.mem_range by auto
  then have "bmp256_test b (word_of_int (bmp256_fls b))" using f by (simp add: mem_bmp256_iff)
  then have "word_of_int (bmp256_fls b) \<le> p" by (rule assms(2))
  then show ?thesis using ge r by (simp add: word_le_def uint_word_of_int)
qed

lemma bmp256_fls_none: "bmp256_fls b = -1 \<longleftrightarrow> (\<forall>p. \<not> bmp256_test b p)"
  by (auto simp: b256.highest_neg bmp256_members_def)

lemma pop_age_masked:
  fixes k :: "'a kernel_scheme"
  assumes r: "sched_repr k Q" and i: "i = chosen_bin k Q q"
    and b: "\<And>p. bmp256_test b p \<Longrightarrow> cands k Q q p \<noteq> []"
    and p: "bmp256_test b p" "\<And>p'. bmp256_test b p' \<Longrightarrow> p' \<le> p" and t: "cands k Q q p = t # ts"
  shows "sched_priorityq_pop q (upd_queue q (set_bin_bitmap i b) k) =
     (Some t, sched_priorityq_dequeue t (upd_queue q (set_bin_bitmap i b) k))"
proof -
  let ?s = "set_bin_bitmap i b (k_queue k q)"
  have await: "priorityq_awaiting_priority (sq_bins ?s i) = uint p"
    using bmp256_fls_top [OF p] by (simp add: priorityq_awaiting_priority_def)
  have ne: "uint p \<noteq> -1" using uint_ge_0 [of p] by linarith
  have bin: "sched_priorityq_get_bin ?s = Some (p, of_nat i)"
  proof (cases "\<forall>p. admitted k (level_of k q) (Q q p) = []")
    case True
    then have i0: "i = 0" using i by (simp add: chosen_bin_def)
    have none: "priorityq_awaiting_priority (sq_bins (k_queue k q) (level_of k q)) = -1"
      using awaiting_none [OF sched_repr_bin [OF r]] True by (simp add: bin_lists_Nil)
    have "level_of k q \<noteq> 0"
      using True t i0 i by (metis admitted_0 cands_def list.distinct(1))
    then show ?thesis using none await i0 ne
      by (auto simp: sched_priorityq_get_bin_def Let_def level_of_def uint_word_of_int
          unat_eq_0)
  next
    case False
    then have "i = level_of k q" using i by (auto simp: chosen_bin_def)
    then show ?thesis using await ne
      by (auto simp: sched_priorityq_get_bin_def Let_def level_of_def)
  qed
  have "priorityq_peekfront (sq_bins ?s i) = Some (t, i)"
    using dqi.fam_front [OF pq_reprD(1) [OF sched_repr_bin [OF r]], of q i p] await t i ne
    by (auto simp: priorityq_peekfront_def dq_peekfront_def bin_lists_def cands_def Let_def)
  then show ?thesis
    using bin chosen_bin_u8 [of k Q q] i by (simp add: sched_priorityq_pop_def node_to_task_def del: of_nat_unat)
qed

text \<open>Popping from the masked bin and restoring the bitmap that was saved.\<close>

lemma pop_age_restore:
  fixes k :: "'a kernel_scheme"
  assumes r: "sched_repr k Q" and i: "i = chosen_bin k Q q"
    and b: "\<And>p. bmp256_test b p \<Longrightarrow> cands k Q q p \<noteq> []"
    and p: "bmp256_test b p" "\<And>p'. bmp256_test b p' \<Longrightarrow> p' \<le> p" and t: "cands k Q q p = t # ts"
    and sv: "sv = priority_bitmap (sq_bins (k_queue k q) i)"
  obtains k3 where "sched_priorityq_pop q (upd_queue q (set_bin_bitmap i b) k) = (Some t, k3)"
    and "upd_queue q (set_bin_bitmap i
         (if bmp256_test (priority_bitmap (sq_bins (k_queue k3 q) i)) p then sv else bmp256_unset sv p))
       (upd_queue q (sched_age p) k3) = upd_queue q (sched_age p) (sched_priorityq_dequeue t k)"
proof -
  have tQ: "t \<in> set (Q q p)" using t cands_sub [of k Q q p] by simp
  have meta: "task_priority (k_task k t) = p" "task_queue_id (k_task k t) = q"
    using sched_reprD(2,3) [OF r tQ] by auto
  have "t \<in> set (cands k Q q p)" using t by simp
  then have ic: "i \<le> crit k t" by (simp add: cands_def admitted_def i)
  let ?d = "sched_priorityq_dequeue t k"
  have test: "bmp256_test (drop_if_empty (sq_bins (k_queue ?d q) i) p b) p \<longleftrightarrow>
    \<not> dq_is_empty (priority_bins (sq_bins (k_queue ?d q) i) p)"
    using p(1) by (simp add: drop_if_empty_def)
  then have saved: "(if bmp256_test (drop_if_empty (sq_bins (k_queue ?d q) i) p b) p
     then sv else bmp256_unset sv p) = drop_if_empty (sq_bins (k_queue ?d q) i) p sv"
    by (simp add: drop_if_empty_def)
  have pop: "sched_priorityq_pop q (upd_queue q (set_bin_bitmap i b) k) = (Some t,
     upd_queue q (\<lambda>s. set_bin_bitmap i (drop_if_empty (sq_bins s i) p b) s) ?d)"
    using pop_age_masked [OF r i b p t] sched_priorityq_dequeue_bitmap [OF meta(2) ic, of b] meta(1)
    by simp
  show ?thesis
    by (rule that [OF pop])
      (use dequeue_restores_bitmap [OF meta(2) ic meta(1)] saved sv in
        \<open>simp add: sched_age_set_bin upd_queue_def\<close>)
qed

lemma sched_repr_upd_queue:
  assumes "sched_repr k Q" and "sq_bins (f (k_queue k q)) = sq_bins (k_queue k q)"
  shows "sched_repr (upd_queue q f k) Q"
  by (rule sched_repr_frame [OF assms(1)]) (use assms(2) in auto)

lemma cands_upd_queue:
  "sq_criticality_level (f (k_queue k q)) = sq_criticality_level (k_queue k q) \<Longrightarrow>
     cands (upd_queue q f k) Q q = cands k Q q \<and> chosen_bin (upd_queue q f k) Q q = chosen_bin k Q q"
  by (simp add: cands_def [abs_def] chosen_bin_def level_of_def admitted_def)

lemma sched_priorityq_pop_age_eq:
  fixes k :: "'a kernel_scheme"
  assumes r: "sched_repr k Q" and p: "top_level (age_cands k Q q) p" and t: "age_cands k Q q p = t # ts"
  shows "sched_priorityq_pop_age q k = (Some t, upd_queue q (sched_age p) (sched_priorityq_dequeue t
     (if age_blocked k Q q then upd_queue q sched_reset_age k else k)))"
proof -
  define i where "i = chosen_bin k Q q"
  define sv where "sv = priority_bitmap (sq_bins (k_queue k q) i)"
  define kr where "kr = (if age_blocked k Q q then upd_queue q sched_reset_age k else k)"
  let ?m = "bmp256_and sv (sq_aging_bitmap (k_queue k q))"
  define b where "b = (if age_blocked k Q q then sv else ?m)"
  have kr: "sched_repr kr Q" "cands kr Q q = cands k Q q" "i = chosen_bin kr Q q"
    "sv = priority_bitmap (sq_bins (k_queue kr q) i)"
    using r cands_upd_queue [of sched_reset_age k q Q]
    by (auto simp: kr_def i_def sv_def intro: sched_repr_upd_queue)
  have sv: "bmp256_test sv p' \<longleftrightarrow> cands k Q q p' \<noteq> []" for p'
    using pq_reprD(3) [OF sched_repr_bin [OF r], of q i p'] by (simp add: sv_def i_def bin_lists_Nil cands_def)
  have bt: "bmp256_test b p' \<longleftrightarrow> age_cands k Q q p' \<noteq> []" for p'
    using sv by (auto simp: b_def age_cands_def)
  have ct: "cands kr Q q p = t # ts" using t by (auto simp: kr age_cands_def split: if_splits)
  then have tQ: "t \<in> set (Q q p)" using cands_sub [of kr Q q p] by simp
  have bp: "bmp256_test b p" "\<And>p'. bmp256_test b p' \<Longrightarrow> p' \<le> p" using bt p by (auto simp: top_level_def)
  have bc: "\<And>p'. bmp256_test b p' \<Longrightarrow> cands kr Q q p' \<noteq> []"
    using bt by (auto simp: kr age_cands_def split: if_splits)
  have "\<not> (\<forall>p. Q q p = [])" using tQ by (metis empty_iff list.set(1))
  then obtain p0 where g: "sched_priorityq_get_bin (k_queue k q) = Some (p0, of_nat i)"
    using get_bin_cases [OF r, of q] by (auto simp: i_def)
  have first: "bmp256_fls ?m = -1 \<longleftrightarrow> age_blocked k Q q"
    using sv by (auto simp: bmp256_fls_none age_blocked_def)
  have fl: "bmp256_fls b = uint p" by (rule bmp256_fls_top [OF bp])
  have k1: "upd_queue q (\<lambda>s. set_bin_bitmap i (bmp256_and sv (sq_aging_bitmap s)) s) k =
    upd_queue q (set_bin_bitmap i ?m) k" by (simp add: upd_queue_def)
  have iu: "unat (of_nat i :: u8) = i" using chosen_bin_u8 [of k Q q] by (simp add: i_def)
  have ne: "uint p \<noteq> -1" using uint_ge_0 [of p] by linarith
  obtain k3 where pop: "sched_priorityq_pop q (upd_queue q (set_bin_bitmap i b) kr) = (Some t, k3)"
    and fin: "upd_queue q (set_bin_bitmap i
         (if bmp256_test (priority_bitmap (sq_bins (k_queue k3 q) i)) p then sv else bmp256_unset sv p))
       (upd_queue q (sched_age p) k3) = upd_queue q (sched_age p) (sched_priorityq_dequeue t kr)"
    by (rule pop_age_restore [OF kr(1) kr(3) bc bp ct kr(4)])
  show ?thesis
  proof (cases "age_blocked k Q q")
    case True
    then show ?thesis
      using pop fin first fl ne unfolding sched_priorityq_pop_age_def g
      by (cases "bmp256_test (priority_bitmap (sq_bins (k_queue k3 q) i)) p")
        (simp_all add: Let_def iu sv_def [symmetric] priorityq_awaiting_priority_def
          b_def kr_def reset_age_set_bin)
  next
    case False
    then show ?thesis
      using pop fin first fl ne unfolding sched_priorityq_pop_age_def g
      by (cases "bmp256_test (priority_bitmap (sq_bins (k_queue k3 q) i)) p")
        (simp_all add: Let_def iu sv_def [symmetric] priorityq_awaiting_priority_def
          b_def kr_def k1)
  qed
qed

lemma sched_priorityq_pop_age_None:
  "sched_repr k Q \<Longrightarrow> \<forall>p. Q q p = [] \<Longrightarrow> sched_priorityq_pop_age q k = (None, k)"
  using get_bin_None [of k Q q] by (simp add: sched_priorityq_pop_age_def)


section \<open>Pushing and popping on a CPU\<close>

lemma sched_repr_upd_task:
  assumes "sched_repr k Q" and "t \<notin> queued Q"
  shows "sched_repr (upd_task t f k) Q"
  by (rule sched_repr_frame [OF assms(1)]) (use assms(2) in auto)

lemma sched_do_push_repr:
  assumes "sched_repr k Q" and "t \<notin> queued Q"
  shows "sched_repr (sched_do_push cfg t cpu k)
     (enq (cpu_to_queue_id cfg cpu) (task_priority (k_task k t)) t Q)"
  using sched_priorityq_push_repr [OF sched_repr_upd_task [OF assms] assms(2),
      of "\<lambda>s. s\<lparr>task_queue_id := cpu_to_queue_id cfg cpu\<rparr>"]
  by (simp add: sched_do_push_def)

lemma sched_push_repr:
  assumes "sched_repr k Q" and "t \<notin> queued Q"
  shows "sched_repr (sched_push cfg t k)
     (enq (cpu_to_queue_id cfg (task_queue_id (k_task k t))) (task_priority (k_task k t)) t Q)"
  using sched_do_push_repr [OF assms, of cfg "queue_to_cpu_id cfg (task_queue_id (k_task k t))"]
  by (cases "cfg_global_queue cfg") (simp_all add: sched_push_def queue_to_cpu_id_def cpu_to_queue_id_def)

text \<open>The candidates of the configured scheduler, and the task it takes from them.\<close>

definition pop_cands :: "kconfig \<Rightarrow> 'a kernel_scheme \<Rightarrow> run_lists \<Rightarrow> u32 \<Rightarrow> u8 \<Rightarrow> task_ptr list" where
  "pop_cands cfg k Q q = (if cfg_aging cfg then age_cands k Q q else cands k Q q)"

definition takes :: "kconfig \<Rightarrow> 'a kernel_scheme \<Rightarrow> run_lists \<Rightarrow> u32 \<Rightarrow> task_ptr \<Rightarrow> bool" where
  "takes cfg k Q q t \<longleftrightarrow>
     (\<exists>p ts. top_level (pop_cands cfg k Q q) p \<and> pop_cands cfg k Q q p = t # ts)"

lemma pop_cands_empty: "(\<forall>p. pop_cands cfg k Q q p = []) \<longleftrightarrow> (\<forall>p. Q q p = [])"
  using cands_empty [of k Q q] age_cands_empty [of k Q q] by (simp add: pop_cands_def)

lemma pop_cands_sub: "set (pop_cands cfg k Q q p) \<subseteq> set (cands k Q q p)"
  by (auto simp: pop_cands_def age_cands_def)

lemma takes_cand: "takes cfg k Q q t \<Longrightarrow> \<exists>p. t \<in> set (cands k Q q p)"
  using pop_cands_sub unfolding takes_def by (metis list.set_intros(1) subsetD)

lemma takes_queued: "takes cfg k Q q t \<Longrightarrow> \<exists>p. t \<in> set (Q q p)"
  using takes_cand cands_sub by blast

lemma takes_ex: "\<not> (\<forall>p. Q q p = []) \<Longrightarrow> \<exists>t. takes cfg k Q q t"
  using pop_cases [of "pop_cands cfg k Q q"] unfolding pop_cands_empty takes_def by metis

text \<open>One pop of the configured scheduler.\<close>

lemma configured_pop:
  fixes k :: "'a kernel_scheme"
  assumes r: "sched_repr k Q"
    and e: "(if cfg_aging cfg then sched_priorityq_pop_age q k else sched_priorityq_pop q k) = (res, k')"
  shows "if \<forall>p. Q q p = [] then res = None \<and> k' = k
     else \<exists>t. res = Some t \<and> takes cfg k Q q t \<and> sched_repr k' (deq t Q) \<and> k_task k' = k_task k \<and>
       k_cpu k' = k_cpu k \<and> (\<forall>r. sq_criticality_level (k_queue k' r) = sq_criticality_level (k_queue k r))"
proof (cases "\<forall>p. Q q p = []")
  case True
  then show ?thesis using e sched_priorityq_pop_None [OF r True] sched_priorityq_pop_age_None [OF r True]
    by (auto split: if_splits)
next
  case False
  then obtain p t ts where p: "top_level (pop_cands cfg k Q q) p" and t: "pop_cands cfg k Q q p = t # ts"
    using pop_cases [of "pop_cands cfg k Q q"] unfolding pop_cands_empty by metis
  have tk: "takes cfg k Q q t" using p t by (auto simp: takes_def)
  have tQ: "t \<in> set (Q q p)"
    using t pop_cands_sub [of cfg k Q q p] cands_sub [of k Q q p] by auto
  define kr where "kr = (if age_blocked k Q q then upd_queue q sched_reset_age k else k)"
  have kr: "sched_repr kr Q" "k_task kr = k_task k" "k_cpu kr = k_cpu k"
    "\<And>r. sq_criticality_level (k_queue kr r) = sq_criticality_level (k_queue k r)"
    using r by (auto simp: kr_def intro: sched_repr_upd_queue)
  show ?thesis
  proof (cases "cfg_aging cfg")
    case True
    then have "res = Some t" "k' = upd_queue q (sched_age p) (sched_priorityq_dequeue t kr)"
      using e sched_priorityq_pop_age_eq [OF r] p t by (auto simp: pop_cands_def kr_def)
    moreover have "sched_repr (sched_priorityq_dequeue t kr) (deq t Q)"
      using sched_priorityq_dequeue_repr [OF kr(1) tQ] .
    ultimately show ?thesis using False tk kr(2-4) by (auto intro!: sched_repr_upd_queue)
  next
    case False
    then have "res = Some t" "k' = sched_priorityq_dequeue t k"
      using e sched_priorityq_pop_eq [OF r] p t by (auto simp: pop_cands_def)
    then show ?thesis using \<open>\<not> (\<forall>p. Q q p = [])\<close> tk sched_priorityq_dequeue_repr [OF r tQ] by auto
  qed
qed

lemma sched_pop_clean_repr:
  assumes r: "sched_repr k Q" and e: "sched_pop_clean cfg cpu k = (res, k')"
    and q: "q = cpu_to_queue_id cfg cpu"
  shows "if \<forall>p. Q q p = [] then res = None \<and> k' = k
     else \<exists>t. res = Some t \<and> takes cfg k Q q t \<and> sched_repr k' (deq t Q) \<and> k_task k' = k_task k \<and>
       k_cpu k' = k_cpu k \<and> (\<forall>r. sq_criticality_level (k_queue k' r) = sq_criticality_level (k_queue k r))"
proof -
  have "(if cfg_aging cfg then sched_priorityq_pop_age q k else sched_priorityq_pop q k) = (res, k')"
    using e q sched_priorityq_highest_priority_repr(1) [OF r, of q] sched_priorityq_pop_None [OF r, of q]
    by (auto simp: sched_pop_clean_def split: if_splits)
  then show ?thesis by (rule configured_pop [OF r])
qed

lemma sched_pop_repr:
  assumes r: "sched_repr k Q" and e: "sched_pop cfg cpu current k = (res, k')"
    and q: "q = cpu_to_queue_id cfg cpu"
  shows "(case res of None \<Rightarrow> k' = k | Some t \<Rightarrow> takes cfg k Q q t \<and> sched_repr k' (deq t Q) \<and>
       k_task k' = k_task k \<and> k_cpu k' = k_cpu k)"
    and "res \<noteq> None \<longleftrightarrow> (\<exists>p. top_level (cands k Q q) p \<and>
       sched_admits cfg (task_criticality (k_task k current)) (task_priority (k_task k current))
         (of_nat (chosen_bin k Q q)) p (sq_criticality_level (k_queue k q)))"
proof -
  let ?ok = "\<lambda>p. sched_admits cfg (task_criticality (k_task k current)) (task_priority (k_task k current))
    (of_nat (chosen_bin k Q q)) p (sq_criticality_level (k_queue k q))"
  have "(case res of None \<Rightarrow> k' = k | Some t \<Rightarrow> takes cfg k Q q t \<and> sched_repr k' (deq t Q) \<and>
       k_task k' = k_task k \<and> k_cpu k' = k_cpu k) \<and>
    (res \<noteq> None \<longleftrightarrow> (\<exists>p. top_level (cands k Q q) p \<and> ?ok p))"
  proof (cases "\<forall>p. Q q p = []")
    case True
    then have "sched_priorityq_get_bin (k_queue k q) = None" using get_bin_None [OF r] by simp
    moreover have "\<not> top_level (cands k Q q) p" for p
      using True cands_empty [of k Q q] by (auto simp: top_level_def)
    ultimately show ?thesis using e q by (auto simp: sched_pop_def)
  next
    case False
    then obtain p where p: "top_level (cands k Q q) p"
      "sched_priorityq_get_bin (k_queue k q) = Some (p, of_nat (chosen_bin k Q q))"
      using get_bin_cases [OF r, of q] by blast
    then have e': "(if ?ok p then (if cfg_aging cfg then sched_priorityq_pop_age q k
       else sched_priorityq_pop q k) else (None, k)) = (res, k')"
      using e q p(2) by (simp add: sched_pop_def Let_def split: if_splits)
    have "(\<exists>p. top_level (cands k Q q) p \<and> ?ok p) \<longleftrightarrow> ?ok p"
      using p(1) top_level_unique by blast
    then show ?thesis
      using e' configured_pop [OF r, of cfg q res k'] False by (cases "?ok p") auto
  qed
  then show "case res of None \<Rightarrow> k' = k | Some t \<Rightarrow> takes cfg k Q q t \<and> sched_repr k' (deq t Q) \<and>
       k_task k' = k_task k \<and> k_cpu k' = k_cpu k"
    and "res \<noteq> None \<longleftrightarrow> (\<exists>p. top_level (cands k Q q) p \<and> ?ok p)" by blast+
qed

section \<open>The candidates\<close>

text \<open>Mixed criticality: a task below the level is only a candidate when no queued task
  reaches the level.\<close>

lemma cands_criticality:
  assumes "t \<in> set (cands k Q q p)" and "u \<in> set (Q q p')" and "level_of k q \<le> crit k u"
  shows "level_of k q \<le> crit k t"
proof -
  have "u \<in> set (admitted k (level_of k q) (Q q p'))" using assms(2,3) by (simp add: admitted_def)
  then have "chosen_bin k Q q = level_of k q" unfolding chosen_bin_def by (metis empty_iff list.set(1))
  then show ?thesis using assms(1) by (simp add: cands_def admitted_def)
qed

lemma chosen_bin_level: "chosen_bin k Q q \<ge> level_of k q \<Longrightarrow> t \<in> set (cands k Q q p) \<Longrightarrow> level_of k q \<le> crit k t"
  by (auto simp: cands_def admitted_def)


section \<open>Aging\<close>

lemma sched_age_step:
  assumes top: "bmp256_test (sq_aging_bitmap s) p" and p: "p \<noteq> 0"
  shows "sched_age p s =
     (let s = s\<lparr>sq_aging_bitmap := bmp256_unset_all_above (sq_aging_bitmap s) p\<rparr>
      in if unat (sq_iteration s) = 2 * unat p
         then s\<lparr>sq_aging_bitmap := bmp256_unset (sq_aging_bitmap s) p, sq_iteration := 0\<rparr>
         else s\<lparr>sq_iteration := sq_iteration s + 1\<rparr>)"
proof -
  have f: "bmp256_fls (bmp256_unset_all_above (sq_aging_bitmap s) p) = uint p"
    by (rule bmp256_fls_top) (use top in auto)
  have "uint p \<noteq> 0" using p by (simp add: uint_0_iff)
  moreover have "sq_iteration s = word_of_int (uint p) * 2 \<longleftrightarrow> unat (sq_iteration s) = 2 * unat p"
    using unsigned_less [of p, where 'a = nat] by (simp add: word_unat_eq_iff unat_word_ariths mult.commute)
  ultimately show ?thesis by (simp add: sched_age_def Let_def f)
qed

text \<open>Serving a level \<open>n\<close> times in a row, from the count \<open>c\<close> on, while its quota lasts.\<close>

lemma sched_age_count:
  assumes top: "bmp256_test (sq_aging_bitmap s) p" and p: "p \<noteq> 0"
    and quota: "\<And>m. m < n \<Longrightarrow> unat (sq_iteration s) + m \<noteq> 2 * unat p"
    and fits: "unat (sq_iteration s) + n < 2 ^ 32"
  shows "unat (sq_iteration ((sched_age p ^^ n) s)) = unat (sq_iteration s) + n \<and>
     (\<forall>x. bmp256_test (sq_aging_bitmap ((sched_age p ^^ n) s)) x \<longleftrightarrow>
        bmp256_test (sq_aging_bitmap s) x \<and> (n = 0 \<or> x \<le> p))"
  using quota fits
proof (induction n)
  case (Suc n)
  let ?s = "(sched_age p ^^ n) s"
  have IH: "unat (sq_iteration ?s) = unat (sq_iteration s) + n"
    "\<And>x. bmp256_test (sq_aging_bitmap ?s) x \<longleftrightarrow> bmp256_test (sq_aging_bitmap s) x \<and> (n = 0 \<or> x \<le> p)"
    using Suc by auto
  have t: "bmp256_test (sq_aging_bitmap ?s) p" using IH(2) top by simp
  have "unat (sq_iteration ?s) \<noteq> 2 * unat p" using Suc.prems(1) [of n] IH(1) by simp
  moreover have "unat (sq_iteration ?s + 1) = unat (sq_iteration s) + Suc n"
    using IH(1) Suc.prems(2) by (simp add: unat_word_ariths)
  ultimately show ?case using IH(2) by (auto simp: sched_age_step [OF t p] Let_def)
qed auto

section \<open>The criticality level stays in range\<close>

definition levels_ok :: "kconfig \<Rightarrow> 'a kernel_scheme \<Rightarrow> bool" where
  "levels_ok cfg k \<longleftrightarrow> (\<forall>q. unat (sq_criticality_level (k_queue k q)) \<le> SCHED_MAX_CRITICALITY cfg)"

lemma unat_inc_u8: "unat (l :: u8) < m \<Longrightarrow> m < 256 \<Longrightarrow> unat (l + 1) = Suc (unat l)"
  by (simp add: unat_word_ariths)

lemma unat_dec_u8: "l > 0 \<Longrightarrow> unat (l - 1) = unat l - 1" for l :: u8
  by (simp add: unat_minus_one word_gt_0)

section \<open>A booted kernel, for examples\<close>

definition boot_queue :: sched_priorityq where
  "boot_queue = \<lparr>sq_bins = (\<lambda>_. \<lparr>priority_bins = (\<lambda>_. empty_dq), priority_bitmap = \<lparr>bmp = (\<lambda>_. 0)\<rparr>\<rparr>),
     sq_criticality_level = 0, sq_aging_bitmap = \<lparr>bmp = (\<lambda>_. 0xffffffffffffffff)\<rparr>, sq_iteration = 0\<rparr>"

definition boot_cpu :: per_cpu where
  "boot_cpu = \<lparr>pc_handling_isr = False, pc_sched_ticks = 0, pc_current_task = None,
     pc_task_ctx = \<lparr>ii_regs = \<lparr>rg_cr8 = 0, rg_r15 = 0, rg_r14 = 0, rg_r13 = 0, rg_r12 = 0, rg_r11 = 0,
       rg_r10 = 0, rg_r9 = 0, rg_r8 = 0, rg_rsi = 0, rg_rdi = 0, rg_rdx = 0, rg_rcx = 0, rg_rbx = 0,
       rg_rax = 0, rg_rbp = 0, rg_fxsave_region = zero_fxsave\<rparr>, ii_alignment = 0, ii_dispatch_info = 0,
       ii_errcode = 0, ii_rip = 0, ii_cs = 8, ii_rflags = 2, ii_rsp = 0, ii_ss = 16\<rparr>,
     pc_active = True, pc_enabled = True, pc_sched_init = True, pc_mxcsr_mask = 0xffff,
     pc_vtimer_frequency_hz = 1000000, pc_worker = 0, pc_worker_stack_top = 0x8000\<rparr>"

text \<open>The task \<open>t\<close> has the priority and the criticality \<open>t\<close>.\<close>

definition boot_kernel :: kernel where
  "boot_kernel = \<lparr>k_task = (\<lambda>t. zero_task\<lparr>task_priority := of_nat t, task_criticality := of_nat t\<rparr>),
     k_node = (\<lambda>_. \<lparr>ld_next = None, ld_prev = None\<rparr>), k_queue = (\<lambda>_. boot_queue),
     k_cpu = (\<lambda>_. boot_cpu), k_num_cpus = 2, k_twanvisor_on = False\<rparr>"

definition no_tasks :: run_lists where
  "no_tasks = (\<lambda>_ _. [])"

definition default_config :: kconfig where
  "default_config = \<lparr>num_criticalities = 5, cfg_aging = False, cfg_global_queue = False,
     task_stack_size = 2048, task_struct_size = 1024, time_slice_ms = 10\<rparr>"

lemma bmp256_test_zero: "\<not> bmp256_test \<lparr>bmp = (\<lambda>_. 0)\<rparr> p"
  by (simp add: bmp256_test_def)

lemma boot_repr: "sched_repr boot_kernel no_tasks"
  by (simp add: sched_repr_def no_tasks_def kq_repr_def pq_repr_def dqi.fam_repr_def boot_kernel_def
      boot_queue_def bin_lists_def admitted_def pq_nodes_def bmp256_test_zero unlinked_def)

lemma queued_no_tasks [simp]: "queued no_tasks = {}"
  by (simp add: queued_def no_tasks_def)


section \<open>Properties of the run queues\<close>

text \<open>Pushing a task appends it to the FIFO of its priority on the queue of the CPU and it
  then counts as queued.\<close>

theorem sched_do_push_fifo:
  assumes "sched_repr k Q" and "t \<notin> queued Q"
  shows "sched_repr (sched_do_push cfg t cpu k)
       (enq (cpu_to_queue_id cfg cpu) (task_priority (k_task k t)) t Q) \<and>
     sched_priorityq_is_queued (sched_do_push cfg t cpu k) t"
  using sched_do_push_repr [OF assms] sched_priorityq_is_queued_repr [OF sched_do_push_repr [OF assms]]
  by simp

theorem sched_do_push_fifo_witness:
  "sched_repr (sched_do_push default_config 3 1 boot_kernel) (enq 1 3 3 no_tasks) \<and>
     sched_priorityq_is_queued (sched_do_push default_config 3 1 boot_kernel) 3"
  using sched_do_push_fifo [OF boot_repr, of 3 default_config 1]
  by (simp add: boot_kernel_def default_config_def cpu_to_queue_id_def)

text \<open>C2: Popping from a run queue returns nothing exactly when the queue is empty; otherwise it
  returns the oldest task of the highest priority among the candidates of the criticality
  level (and of the aging bitmap) and removes exactly this task.\<close>

theorem sched_pop_clean_spec:
  assumes "sched_repr k Q"
  shows "\<exists>res k'. sched_pop_clean cfg cpu k = (res, k') \<and>
     (if \<forall>p. Q (cpu_to_queue_id cfg cpu) p = [] then res = None \<and> k' = k
      else \<exists>t. res = Some t \<and> takes cfg k Q (cpu_to_queue_id cfg cpu) t \<and> sched_repr k' (deq t Q))"
proof -
  obtain res k' where e: "sched_pop_clean cfg cpu k = (res, k')" by fastforce
  show ?thesis using e sched_pop_clean_repr [OF assms e refl] by (auto split: if_splits)
qed

theorem sched_pop_clean_spec_witness:
  "\<exists>res k'. sched_pop_clean default_config 1 (sched_do_push default_config 3 1 boot_kernel) = (res, k') \<and>
     (\<exists>t. res = Some t \<and> sched_repr k' (deq t (enq 1 3 3 no_tasks)))"
proof -
  have "sched_repr (sched_do_push default_config 3 1 boot_kernel) (enq 1 3 3 no_tasks)"
    using sched_do_push_repr [OF boot_repr, of 3 default_config 1]
    by (simp add: boot_kernel_def default_config_def cpu_to_queue_id_def)
  from sched_pop_clean_spec [OF this, of default_config 1] show ?thesis
    by (auto simp: enq_def no_tasks_def default_config_def cpu_to_queue_id_def split: if_splits)
qed

text \<open>C3: While a task at or above the criticality level is queued, no task below the level is
  popped; without aging, no task of a lower priority than it either.\<close>

theorem sched_pop_clean_mixed_criticality:
  assumes r: "sched_repr k Q" and e: "sched_pop_clean cfg cpu k = (Some t, k')"
    and u: "u \<in> set (Q (cpu_to_queue_id cfg cpu) p)"
    and lvl: "sched_mcs_read_criticality_level cfg cpu k \<le> task_criticality (k_task k u)"
  shows "sched_mcs_read_criticality_level cfg cpu k \<le> task_criticality (k_task k t) \<and>
     (\<not> cfg_aging cfg \<longrightarrow> task_priority (k_task k u) \<le> task_priority (k_task k t))"
proof -
  let ?q = "cpu_to_queue_id cfg cpu"
  have ne: "\<not> (\<forall>p. Q ?q p = [])" using u by (metis empty_iff list.set(1))
  then have tk: "takes cfg k Q ?q t" using sched_pop_clean_repr [OF r e refl] by (auto split: if_splits)
  have l: "level_of k ?q \<le> crit k u"
    using lvl by (simp add: level_of_def sched_mcs_read_criticality_level_def word_le_nat_alt)
  obtain p' where p': "t \<in> set (cands k Q ?q p')" using takes_cand [OF tk] by blast
  have "level_of k ?q \<le> crit k t" by (rule cands_criticality [OF p' u l])
  moreover have "task_priority (k_task k u) \<le> task_priority (k_task k t)" if na: "\<not> cfg_aging cfg"
  proof -
    obtain p'' ts where top: "top_level (cands k Q ?q) p''" and h: "cands k Q ?q p'' = t # ts"
      using tk na by (auto simp: takes_def pop_cands_def)
    have "u \<in> set (admitted k (level_of k ?q) (Q ?q p))" using u l by (simp add: admitted_def)
    then have "chosen_bin k Q ?q = level_of k ?q" unfolding chosen_bin_def by (metis empty_iff list.set(1))
    then have "cands k Q ?q p \<noteq> []"
      using \<open>u \<in> set (admitted k (level_of k ?q) (Q ?q p))\<close> by (auto simp: cands_def)
    then have "p \<le> p''" using top by (simp add: top_level_def)
    moreover have "t \<in> set (Q ?q p'')" using h cands_sub [of k Q ?q p''] by simp
    ultimately show ?thesis using sched_reprD(2) [OF r u] sched_reprD(2) [OF r] by metis
  qed
  ultimately show ?thesis
    by (simp add: level_of_def sched_mcs_read_criticality_level_def word_le_nat_alt)
qed

text \<open>Two tasks of the priorities and criticalities 2 and 3 on CPU 0; 3 is popped.\<close>

definition two_tasks :: kernel where
  "two_tasks = sched_do_push default_config 3 0 (sched_do_push default_config 2 0 boot_kernel)"

lemma two_tasks_repr: "sched_repr two_tasks (enq 0 3 3 (enq 0 2 2 no_tasks))"
proof -
  have "sched_repr (sched_do_push default_config 2 0 boot_kernel) (enq 0 2 2 no_tasks)"
    using sched_do_push_repr [OF boot_repr, of 2 default_config 0]
    by (simp add: boot_kernel_def default_config_def cpu_to_queue_id_def)
  from sched_do_push_repr [OF this, of 3 default_config 0] show ?thesis
    by (simp add: two_tasks_def boot_kernel_def default_config_def cpu_to_queue_id_def
        sched_do_push_def)
qed

lemma two_tasks_fields:
  "task_priority (k_task two_tasks t) = of_nat t" "task_criticality (k_task two_tasks t) = of_nat t"
  "sq_criticality_level (k_queue two_tasks q) = 0"
  by (simp_all add: two_tasks_def sched_do_push_def boot_kernel_def boot_queue_def)

lemma two_tasks_pop: "sched_pop_clean default_config 0 two_tasks = (Some 3, sched_priorityq_dequeue 3 two_tasks)"
proof -
  let ?Q = "enq 0 3 3 (enq 0 2 2 no_tasks)"
  have c: "cands two_tasks ?Q 0 p = ?Q 0 p" for p
    by (simp add: cands_def chosen_bin_def level_of_def two_tasks_fields)
  have t: "top_level (cands two_tasks ?Q 0) 3"
    unfolding top_level_def c by (auto simp: enq_def no_tasks_def)
  have "cands two_tasks ?Q 0 3 = [3]" unfolding c by (simp add: enq_def no_tasks_def)
  from sched_priorityq_pop_eq [OF two_tasks_repr t this] show ?thesis
    using sched_priorityq_highest_priority_repr(2) [OF two_tasks_repr t]
    by (simp add: sched_pop_clean_def default_config_def cpu_to_queue_id_def)
qed

theorem sched_pop_clean_mixed_criticality_witness:
  "sched_mcs_read_criticality_level default_config 0 two_tasks \<le> task_criticality (k_task two_tasks 3) \<and>
     task_priority (k_task two_tasks 2) \<le> task_priority (k_task two_tasks 3)"
  using sched_pop_clean_mixed_criticality [OF two_tasks_repr two_tasks_pop, of 2 2]
  by (simp add: two_tasks_fields enq_def no_tasks_def default_config_def cpu_to_queue_id_def
      sched_mcs_read_criticality_level_def)


lemma takes_priority:
  assumes "sched_repr k Q" and "takes cfg k Q q t" and "\<not> cfg_aging cfg" and "top_level (cands k Q q) p"
  shows "task_priority (k_task k t) = p"
proof -
  obtain p' ts where "top_level (cands k Q q) p'" and h: "cands k Q q p' = t # ts"
    using assms(2,3) by (auto simp: takes_def pop_cands_def)
  then have "p' = p" using assms(4) top_level_unique by blast
  moreover have "t \<in> set (Q q p')" using h cands_sub [of k Q q p'] by simp
  ultimately show ?thesis using sched_reprD(2) [OF assms(1)] by blast
qed

text \<open>C4: A running task at or above the criticality level is only replaced by a task at or above
  the level and, without aging, of at least its priority.\<close>

theorem sched_pop_no_inversion:
  assumes r: "sched_repr k Q" and e: "sched_pop cfg cpu current k = (Some t, k')"
    and cur: "sched_mcs_read_criticality_level cfg cpu k \<le> task_criticality (k_task k current)"
  shows "sched_mcs_read_criticality_level cfg cpu k \<le> task_criticality (k_task k t) \<and>
     (\<not> cfg_aging cfg \<longrightarrow> task_priority (k_task k current) \<le> task_priority (k_task k t)) \<and>
     sched_repr k' (deq t Q)"
proof -
  define q where "q = cpu_to_queue_id cfg cpu"
  note pr = sched_pop_repr [OF r e q_def]
  have tk: "takes cfg k Q q t" and r': "sched_repr k' (deq t Q)" using pr(1) by auto
  obtain p where p: "top_level (cands k Q q) p"
    and ok: "sched_admits cfg (task_criticality (k_task k current)) (task_priority (k_task k current))
       (of_nat (chosen_bin k Q q)) p (sq_criticality_level (k_queue k q))"
    using pr(2) by auto
  have ge: "sq_criticality_level (k_queue k q) \<le> of_nat (chosen_bin k Q q)"
    and pri: "\<not> cfg_aging cfg \<longrightarrow> task_priority (k_task k current) \<le> p"
    using ok cur by (auto simp: sched_admits_def sched_mcs_read_criticality_level_def q_def split: if_splits)
  have "level_of k q \<le> chosen_bin k Q q"
    using ge by (simp add: word_le_nat_alt level_of_def chosen_bin_u8 del: of_nat_unat)
  then have "level_of k q \<le> crit k t" using takes_cand [OF tk] chosen_bin_level by blast
  then show ?thesis
    using pri r' takes_priority [OF r tk _ p]
    by (auto simp: level_of_def sched_mcs_read_criticality_level_def word_le_nat_alt q_def)
qed

theorem sched_pop_no_inversion_witness:
  "\<exists>t k'. sched_pop default_config 0 1 two_tasks = (Some t, k') \<and>
     task_priority (k_task two_tasks 1) \<le> task_priority (k_task two_tasks t)"
proof -
  let ?Q = "enq 0 3 3 (enq 0 2 2 no_tasks)"
  have t: "top_level (cands two_tasks ?Q 0) 3"
    by (auto simp: top_level_def cands_def chosen_bin_def level_of_def two_tasks_fields enq_def no_tasks_def)
  obtain res k' where e: "sched_pop default_config 0 1 two_tasks = (res, k')" by fastforce
  have "res \<noteq> None"
    using sched_pop_repr(2) [OF two_tasks_repr e refl] t
    by (auto simp: default_config_def cpu_to_queue_id_def sched_admits_def two_tasks_fields
        intro!: exI [of _ 3])
  then obtain t where "sched_pop default_config 0 1 two_tasks = (Some t, k')" using e by auto
  moreover from sched_pop_no_inversion [OF two_tasks_repr this]
  have "task_priority (k_task two_tasks 1) \<le> task_priority (k_task two_tasks t)"
    by (simp add: default_config_def sched_mcs_read_criticality_level_def two_tasks_fields)
  ultimately show ?thesis by blast
qed

lemma sched_pop_ready:
  assumes r: "sched_repr k Q" and u: "u \<in> set (Q (cpu_to_queue_id cfg cpu) p)"
    and lvl: "sched_mcs_read_criticality_level cfg cpu k \<le> task_criticality (k_task k u)"
    and pri: "cfg_aging cfg \<or> task_priority (k_task k current) \<le> task_priority (k_task k u)"
  shows "\<exists>t k'. sched_pop cfg cpu current k = (Some t, k')"
proof -
  define q where "q = cpu_to_queue_id cfg cpu"
  obtain res k' where e: "sched_pop cfg cpu current k = (res, k')" by fastforce
  have uadm: "u \<in> set (admitted k (level_of k q) (Q q p))"
    using u lvl by (simp add: admitted_def level_of_def sched_mcs_read_criticality_level_def
        word_le_nat_alt q_def)
  then have c: "chosen_bin k Q q = level_of k q" unfolding chosen_bin_def by (metis empty_iff list.set(1))
  then have ne: "cands k Q q p \<noteq> []" using uadm by (auto simp: cands_def)
  then obtain p' where p': "top_level (cands k Q q) p'" using top_level_ex [of "cands k Q q"] by blast
  then have "p \<le> p'" using ne by (simp add: top_level_def)
  moreover have "task_priority (k_task k u) = p" using sched_reprD(2) [OF r u] .
  ultimately have "sched_admits cfg (task_criticality (k_task k current)) (task_priority (k_task k current))
     (of_nat (chosen_bin k Q q)) p' (sq_criticality_level (k_queue k q))"
    using pri by (auto simp: sched_admits_def c level_of_def)
  then have "res \<noteq> None" using sched_pop_repr(2) [OF r e q_def] p' by blast
  then show ?thesis using e by auto
qed

text \<open>A queued task that the level admits and whose priority is at least that of the running
  task causes a switch.\<close>

theorem sched_pop_preempts:
  assumes "sched_repr k Q" and "u \<in> set (Q (cpu_to_queue_id cfg cpu) p)"
    and "sched_mcs_read_criticality_level cfg cpu k \<le> task_criticality (k_task k u)"
    and "cfg_aging cfg \<or> task_priority (k_task k current) \<le> task_priority (k_task k u)"
  shows "\<exists>t k'. sched_pop cfg cpu current k = (Some t, k')"
  using assms by (rule sched_pop_ready)

theorem sched_pop_preempts_witness: "\<exists>t k'. sched_pop default_config 0 1 two_tasks = (Some t, k')"
  by (rule sched_pop_preempts [OF two_tasks_repr, where u = 2 and p = 2])
    (auto simp: two_tasks_fields enq_def no_tasks_def default_config_def cpu_to_queue_id_def
      sched_mcs_read_criticality_level_def)

text \<open>Aging serves a level p exactly 2p+1 times before it is masked out, and never masks a
  lower level with it.\<close>

theorem sched_age_quota:
  assumes top: "bmp256_test (sq_aging_bitmap s) p" and p: "p \<noteq> 0" and zero: "sq_iteration s = 0"
  shows "(\<forall>n \<le> 2 * unat p. bmp256_test (sq_aging_bitmap ((sched_age p ^^ n) s)) p) \<and>
     (let s' = (sched_age p ^^ (2 * unat p + 1)) s in sq_iteration s' = 0 \<and>
        (\<forall>x. bmp256_test (sq_aging_bitmap s') x \<longleftrightarrow> x < p \<and> bmp256_test (sq_aging_bitmap s) x))"
proof -
  have b: "unat p < 256" using unsigned_less [of p, where 'a = nat] by simp
  have run: "unat (sq_iteration ((sched_age p ^^ n) s)) = n \<and>
     (\<forall>x. bmp256_test (sq_aging_bitmap ((sched_age p ^^ n) s)) x \<longleftrightarrow>
        bmp256_test (sq_aging_bitmap s) x \<and> (n = 0 \<or> x \<le> p))" if "n \<le> 2 * unat p" for n
    using sched_age_count [OF top p, of n] that b zero by simp
  let ?s = "(sched_age p ^^ (2 * unat p)) s"
  have t: "bmp256_test (sq_aging_bitmap ?s) p" using run [of "2 * unat p"] top by simp
  have "0 < unat p" using p by (simp add: unat_gt_0)
  then show ?thesis
    using run [of "2 * unat p"] run top
    by (auto simp: sched_age_step [OF t p] Let_def)
qed

theorem sched_age_quota_witness:
  "\<not> bmp256_test (sq_aging_bitmap ((sched_age 2 ^^ 5) boot_queue)) 2 \<and>
   bmp256_test (sq_aging_bitmap ((sched_age 2 ^^ 5) boot_queue)) 1"
proof -
  have f: "bmp256_test (sq_aging_bitmap boot_queue) x" for x
    using bmp256_test_set_all [of "sq_aging_bitmap boot_queue" x]
    by (simp add: boot_queue_def bmp256_set_all_def)
  show ?thesis using sched_age_quota [of boot_queue 2] f by (simp add: boot_queue_def Let_def)
qed

text \<open>C11: When the iteration counter left over from a higher level exceeds the quota of the level
  being served, the level is not masked until the 32-bit counter wraps around.\<close>

theorem sched_age_stale_count:
  assumes top: "bmp256_test (sq_aging_bitmap s) p" and p: "p \<noteq> 0"
    and stale: "2 * unat p < unat (sq_iteration s)" and n: "unat (sq_iteration s) + n < 2 ^ 32"
  shows "bmp256_test (sq_aging_bitmap ((sched_age p ^^ n) s)) p"
  using sched_age_count [OF top p _ n] stale top by simp

theorem sched_age_stale_count_witness:
  "bmp256_test (sq_aging_bitmap ((sched_age 2 ^^ 4294967280) (boot_queue\<lparr>sq_iteration := 5\<rparr>))) 2"
proof -
  have "bmp256_test (sq_aging_bitmap boot_queue) 2"
    using bmp256_test_set_all [of "sq_aging_bitmap boot_queue" 2]
    by (simp add: boot_queue_def bmp256_set_all_def)
  then show ?thesis using sched_age_stale_count [of "boot_queue\<lparr>sq_iteration := 5\<rparr>" 2 4294967280] by simp
qed

text \<open>Writing, raising and lowering the criticality level keep it within the configured
  range; writing succeeds exactly for levels in range.\<close>

theorem sched_mcs_levels_ok:
  assumes ok: "levels_ok cfg k" and cfg: "1 \<le> num_criticalities cfg" "num_criticalities cfg \<le> 255"
  shows "levels_ok cfg (snd (sched_mcs_write_criticality_level cfg cpu c k)) \<and>
     levels_ok cfg (snd (sched_mcs_inc_criticality_level cfg cpu k)) \<and>
     levels_ok cfg (snd (sched_mcs_dec_criticality_level cfg cpu k)) \<and>
     (fst (sched_mcs_write_criticality_level cfg cpu c k) = 0 \<longleftrightarrow> unat c < num_criticalities cfg) \<and>
     (fst (sched_mcs_inc_criticality_level cfg cpu k) \<longrightarrow>
        unat (sched_mcs_read_criticality_level cfg cpu (snd (sched_mcs_inc_criticality_level cfg cpu k))) =
        unat (sched_mcs_read_criticality_level cfg cpu k) + 1)"
  using ok cfg
  by (auto simp: levels_ok_def sched_mcs_write_criticality_level_def sched_mcs_inc_criticality_level_def
      sched_mcs_dec_criticality_level_def sched_mcs_read_criticality_level_def Let_def
      SCHED_MAX_CRITICALITY_def unat_inc_u8 unat_dec_u8 errno_simps le_diff_conv
      dest: spec [of _ "cpu_to_queue_id cfg cpu"])

theorem sched_mcs_levels_ok_witness:
  "levels_ok default_config (snd (sched_mcs_inc_criticality_level default_config 0 boot_kernel))"
  using sched_mcs_levels_ok [of default_config boot_kernel 0]
  by (simp add: levels_ok_def boot_kernel_def boot_queue_def default_config_def)

end
