(* ===== verification/Twan_Sched.thy ===== *)
theory Twan_Sched
  imports Twan_Sched_Queue
begin

text \<open>
  Context switches and preemption of the kernel scheduler: \<open>src/kernel/sched/sched_ctx.c\<close>,
  \<open>sched_timer.c\<close>, \<open>sched_yield.c\<close>, \<open>sched.c\<close> and \<open>task.c\<close>. What lies below the scheduler (the
  local APIC timer, the vcalls of the hypervisor, the heap and the callbacks a task may
  register) is the record \<open>platform\<close>, a parameter. Dereferencing a null pointer is \<open>None\<close>; the
  theorems show that no function gets there. The invariant \<open>sched_inv\<close> says that every task is
  either in one run queue or running on one CPU, and switching keeps the set of them.
\<close>

section \<open>The platform\<close>

record 'k platform =
  pf_call :: "func_ptr \<Rightarrow> 'k \<Rightarrow> 'k"
  pf_lapic_timer_init :: "u8 \<Rightarrow> u32 \<Rightarrow> 'k \<Rightarrow> u32 \<times> 'k"
  pf_lapic_timer_disable :: "'k \<Rightarrow> 'k"
  pf_lapic_timer_enable :: "u32 \<Rightarrow> 'k \<Rightarrow> 'k"
  pf_is_lapic_timer_pending :: "u8 \<Rightarrow> 'k \<Rightarrow> bool"
  pf_tv_vdisarm_timern :: "u8 \<Rightarrow> 'k \<Rightarrow> 'k"
  pf_tv_varm_timern :: "u8 \<Rightarrow> u8 \<Rightarrow> u32 \<Rightarrow> bool \<Rightarrow> bool \<Rightarrow> 'k \<Rightarrow> int \<times> 'k"
  pf_tv_vintc_is_pending :: "u8 \<Rightarrow> 'k \<Rightarrow> bool"
  pf_rtalloc_p2aligned :: "u64 \<Rightarrow> u32 \<Rightarrow> 'k \<Rightarrow> u64 \<times> 'k"
  pf_rtfree :: "u64 \<Rightarrow> 'k \<Rightarrow> 'k"
  pf_task_at :: "u64 \<Rightarrow> task_ptr"

section \<open>Definitions: the scheduling timer\<close>

definition SCHED_TIMER_VECTOR :: u8 where
  "SCHED_TIMER_VECTOR = 255"

definition PV_SCHED_TIMER :: u8 where
  "PV_SCHED_TIMER = 0"

definition ms_to_ticks :: "u64 \<Rightarrow> u64 \<Rightarrow> u64" where
  "ms_to_ticks ms freq_hz = (ms * freq_hz) div 1000"

definition sched_timer_disable :: "'a kernel_scheme platform \<Rightarrow> 'a kernel_scheme \<Rightarrow> 'a kernel_scheme" where
  "sched_timer_disable pf k =
     (if k_twanvisor_on k then pf_tv_vdisarm_timern pf PV_SCHED_TIMER k
      else pf_lapic_timer_disable pf k)"

definition sched_timer_enable ::
  "'a kernel_scheme platform \<Rightarrow> u32 \<Rightarrow> 'a kernel_scheme \<Rightarrow> 'a kernel_scheme" where
  "sched_timer_enable pf this k =
     (let ticks = pc_sched_ticks (k_cpu k this)
      in if k_twanvisor_on k
         then snd (pf_tv_varm_timern pf SCHED_TIMER_VECTOR PV_SCHED_TIMER ticks True False k)
         else pf_lapic_timer_enable pf ticks k)"

definition sched_timer_init ::
  "'a kernel_scheme platform \<Rightarrow> u32 \<Rightarrow> u32 \<Rightarrow> 'a kernel_scheme \<Rightarrow> 'a kernel_scheme" where
  "sched_timer_init pf this slice_ms k =
     (if k_twanvisor_on k then
        let ticks = ucast (ms_to_ticks (ucast slice_ms) (pc_vtimer_frequency_hz (k_cpu k this)));
            k = upd_cpu this (\<lambda>c. c\<lparr>pc_sched_ticks := ticks\<rparr>) k
        in sched_timer_enable pf this k
      else
        let (ticks, k) = pf_lapic_timer_init pf SCHED_TIMER_VECTOR slice_ms k
        in upd_cpu this (\<lambda>c. c\<lparr>pc_sched_ticks := ticks\<rparr>) k)"

definition sched_is_timer_pending :: "'a kernel_scheme platform \<Rightarrow> 'a kernel_scheme \<Rightarrow> bool" where
  "sched_is_timer_pending pf k =
     (if k_twanvisor_on k then pf_tv_vintc_is_pending pf SCHED_TIMER_VECTOR k
      else pf_is_lapic_timer_pending pf SCHED_TIMER_VECTOR k)"

section \<open>Definitions: switching contexts\<close>

text \<open>\<open>ctx\<close> is always the \<^verbatim>\<open>task_ctx()\<close> of this CPU.\<close>

definition call_opt ::
  "'a kernel_scheme platform \<Rightarrow> func_ptr option \<Rightarrow> 'a kernel_scheme \<Rightarrow> 'a kernel_scheme" where
  "call_opt pf f k = (case f of None \<Rightarrow> k | Some g \<Rightarrow> pf_call pf g k)"

definition sched_put_current_ctx ::
  "kconfig \<Rightarrow> 'a kernel_scheme platform \<Rightarrow> u32 \<Rightarrow> bool \<Rightarrow> 'a kernel_scheme \<Rightarrow> 'a kernel_scheme option" where
  "sched_put_current_ctx cfg pf this push k =
     (case current_task k this of
        None \<Rightarrow> None
      | Some current \<Rightarrow>
          let k = sched_save_current_ctx current (pc_task_ctx (k_cpu k this)) k;
              k = call_opt pf (task_put_callback_func (k_task k current)) k;
              k = set_current_task this None k
          in Some (if push then sched_push cfg current k else k))"

definition sched_set_ctx ::
  "'a kernel_scheme platform \<Rightarrow> u32 \<Rightarrow> task_ptr \<Rightarrow> 'a kernel_scheme \<Rightarrow> 'a kernel_scheme" where
  "sched_set_ctx pf this task k =
     (let k = upd_cpu this
            (\<lambda>c. c\<lparr>pc_task_ctx := load_ctx (task_context (k_task k task)) (pc_task_ctx c)\<rparr>) k;
          k = set_current_task this (Some task) k
      in call_opt pf (task_set_callback_func (k_task k task)) k)"

definition sched_switch_ctx ::
  "kconfig \<Rightarrow> 'a kernel_scheme platform \<Rightarrow> u32 \<Rightarrow> task_ptr \<Rightarrow> bool \<Rightarrow> 'a kernel_scheme
     \<Rightarrow> 'a kernel_scheme option" where
  "sched_switch_ctx cfg pf this task push k =
     (case sched_put_current_ctx cfg pf this push k of
        None \<Rightarrow> None
      | Some k \<Rightarrow> Some (sched_set_ctx pf this task k))"

section \<open>Definitions: yielding and preemption\<close>

abbreviation set_yield_request :: "bool \<Rightarrow> task_ptr \<Rightarrow> 'a kernel_scheme \<Rightarrow> 'a kernel_scheme" where
  "set_yield_request b t \<equiv> upd_task t (\<lambda>s. s\<lparr>task_yield_request := b\<rparr>)"

abbreviation set_preempted_early :: "bool \<Rightarrow> task_ptr \<Rightarrow> 'a kernel_scheme \<Rightarrow> 'a kernel_scheme" where
  "set_preempted_early b t \<equiv> upd_task t (\<lambda>s. s\<lparr>task_preempted_early := b\<rparr>)"

definition sched_should_request_yield :: "kconfig \<Rightarrow> u32 \<Rightarrow> task_ptr \<Rightarrow> 'a kernel_scheme \<Rightarrow> bool" where
  "sched_should_request_yield cfg this task k =
     (let q = cpu_to_queue_id cfg this
      in case sched_priorityq_get_bin (k_queue k q) of
           None \<Rightarrow> False
         | Some (next_priority, next_criticality) \<Rightarrow>
             sched_admits cfg (task_criticality (k_task k task)) (task_priority (k_task k task))
               next_criticality next_priority (sq_criticality_level (k_queue k q)))"

definition sched_yield_ipi ::
  "kconfig \<Rightarrow> 'a kernel_scheme platform \<Rightarrow> u32 \<Rightarrow> 'a kernel_scheme \<Rightarrow> 'a kernel_scheme option" where
  "sched_yield_ipi cfg pf this k =
     (case current_task k this of
        None \<Rightarrow> None
      | Some current \<Rightarrow>
          let k = set_yield_request False current k;
              k = set_preempted_early False current k;
              (task, k) = sched_pop cfg this current k
          in case task of
               None \<Rightarrow> Some k
             | Some task \<Rightarrow>
                 (case sched_switch_ctx cfg pf this task True k of
                    None \<Rightarrow> None
                  | Some k \<Rightarrow>
                      let k = sched_timer_disable pf k;
                          k = (if sched_is_timer_pending pf k
                               then set_preempted_early True task k else k)
                      in Some (sched_timer_enable pf this k)))"

definition sched_preempt ::
  "kconfig \<Rightarrow> 'a kernel_scheme platform \<Rightarrow> u32 \<Rightarrow> 'a kernel_scheme \<Rightarrow> 'a kernel_scheme option" where
  "sched_preempt cfg pf this k =
     (case current_task k this of
        None \<Rightarrow> None
      | Some current \<Rightarrow>
          if task_preempted_early (k_task k current) then Some (set_preempted_early False current k)
          else if task_preemption_count (k_task k current) \<noteq> 0 then
            Some (if sched_should_request_yield cfg this current k
                  then set_yield_request True current k else k)
          else
            let k = set_yield_request False current k;
                (task, k) = sched_pop cfg this current k
            in case task of
                 None \<Rightarrow> Some k
               | Some task \<Rightarrow> sched_switch_ctx cfg pf this task True k)"

text \<open>\<^verbatim>\<open>sched_pop_clean_spin\<close> repeats the pop; \<open>others\<close> is what the other CPUs do between two tries.\<close>

partial_function (option) sched_pop_clean_spin ::
  "kconfig \<Rightarrow> ('a kernel_scheme \<Rightarrow> 'a kernel_scheme) \<Rightarrow> u32 \<Rightarrow> 'a kernel_scheme
     \<Rightarrow> (task_ptr \<times> 'a kernel_scheme) option" where
  "sched_pop_clean_spin cfg others this k =
     (case sched_pop_clean cfg this k of
        (Some task, k) \<Rightarrow> Some (task, k)
      | (None, k) \<Rightarrow> sched_pop_clean_spin cfg others this (others k))"

section \<open>Definitions: tasks\<close>

text \<open>\<^verbatim>\<open>ERR_PTR\<close> values are the \<open>Inl\<close>s; \<open>pf_task_at\<close> is the cast of an address to a task pointer.
  The return address written below the stack top is memory outside the model.\<close>

definition task_create ::
  "kconfig \<Rightarrow> 'a kernel_scheme platform \<Rightarrow> u32 \<Rightarrow> u32 \<Rightarrow> u64 \<Rightarrow> u64 \<Rightarrow> u8 \<Rightarrow> u8 \<Rightarrow> func_ptr option
     \<Rightarrow> func_ptr option \<Rightarrow> 'a kernel_scheme \<Rightarrow> (int + task_ptr) \<times> 'a kernel_scheme" where
  "task_create cfg pf this processor_id func arg priority criticality put_cb set_cb k =
     (if unat criticality \<ge> num_criticalities cfg then (Inl (- ENOMEM), k)
      else case cpu_data k processor_id of
        None \<Rightarrow> (Inl (- EINVAL), k)
      | Some cpu \<Rightarrow>
          if \<not> pc_active cpu then (Inl (- EINVAL), k)
          else
            let (mempool, k) = pf_rtalloc_p2aligned pf (task_struct_size cfg + task_stack_size cfg) 16 k
            in if mempool = 0 then (Inl (- ENOMEM), k)
               else
                 let stack_top = mempool + task_stack_size cfg;
                     task = pf_task_at pf stack_top;
                     stack_ptr = stack_top - 8;
                     k = snd (task_init cfg this k task processor_id mempool stack_ptr func arg
                                priority criticality put_cb set_cb);
                     k = sched_do_push cfg task processor_id k
                 in (Inr task, k))"

definition current_task_destroy_ipi ::
  "kconfig \<Rightarrow> 'a kernel_scheme platform \<Rightarrow> ('a kernel_scheme \<Rightarrow> 'a kernel_scheme) \<Rightarrow> u32
     \<Rightarrow> 'a kernel_scheme \<Rightarrow> 'a kernel_scheme option" where
  "current_task_destroy_ipi cfg pf others this k =
     (let k = sched_timer_disable pf k
      in case current_task k this of
           None \<Rightarrow> None
         | Some current \<Rightarrow>
             let k = set_current_task this None k;
                 mempool = task_mempool (k_task k current);
                 k = (if mempool \<noteq> 0 then pf_rtfree pf mempool k else k)
             in case sched_pop_clean_spin cfg others this k of
                  None \<Rightarrow> None
                | Some (task, k) \<Rightarrow>
                    let k = sched_set_ctx pf this task k;
                        k = (if sched_is_timer_pending pf k
                             then set_preempted_early True task k else k)
                    in Some (sched_timer_enable pf this k))"

text \<open>\<^verbatim>\<open>disable_preemption\<close> and \<^verbatim>\<open>enable_preemption\<close> count on the current task. A yield leaves the CPU
  to other tasks; \<open>resumed\<close> is what happens until this task runs again.\<close>

definition disable_preemption :: "u32 \<Rightarrow> 'a kernel_scheme \<Rightarrow> 'a kernel_scheme option" where
  "disable_preemption this k =
     (case current_task k this of
        None \<Rightarrow> None
      | Some t \<Rightarrow> Some (upd_task t (\<lambda>s. s\<lparr>task_preemption_count := task_preemption_count s + 1\<rparr>) k))"

definition enable_preemption :: "u32 \<Rightarrow> 'a kernel_scheme \<Rightarrow> 'a kernel_scheme option" where
  "enable_preemption this k =
     (case current_task k this of
        None \<Rightarrow> None
      | Some t \<Rightarrow> Some (upd_task t (\<lambda>s. s\<lparr>task_preemption_count := task_preemption_count s - 1\<rparr>) k))"

definition sched_try_answer_yield_request ::
  "kconfig \<Rightarrow> 'a kernel_scheme platform \<Rightarrow> ('a kernel_scheme \<Rightarrow> 'a kernel_scheme) \<Rightarrow> bool \<Rightarrow> u32
     \<Rightarrow> 'a kernel_scheme \<Rightarrow> (bool \<times> 'a kernel_scheme) option" where
  "sched_try_answer_yield_request cfg pf resumed interrupts_enabled this k =
     (case disable_preemption this k of
        None \<Rightarrow> None
      | Some k \<Rightarrow>
          let current = the (current_task k this);
              ret = (interrupts_enabled \<and> task_preemption_count (k_task k current) = 1 \<and>
                     task_yield_request (k_task k current))
          in case (if ret then map_option resumed (sched_yield_ipi cfg pf this k) else Some k) of
               None \<Rightarrow> None
             | Some k \<Rightarrow> map_option (\<lambda>k. (ret, k)) (enable_preemption this k))"

definition current_task_enable_preemption ::
  "kconfig \<Rightarrow> 'a kernel_scheme platform \<Rightarrow> ('a kernel_scheme \<Rightarrow> 'a kernel_scheme) \<Rightarrow> bool \<Rightarrow> u32
     \<Rightarrow> 'a kernel_scheme \<Rightarrow> 'a kernel_scheme option" where
  "current_task_enable_preemption cfg pf resumed interrupts_enabled this k =
     (case enable_preemption this k of
        None \<Rightarrow> None
      | Some k \<Rightarrow> map_option snd
          (sched_try_answer_yield_request cfg pf resumed interrupts_enabled this k))"

definition current_task_write ::
  "u32 \<Rightarrow> u8 \<Rightarrow> u8 \<Rightarrow> 'a kernel_scheme \<Rightarrow> 'a kernel_scheme option" where
  "current_task_write this priority criticality k =
     (case current_task k this of
        None \<Rightarrow> None
      | Some current \<Rightarrow>
          Some (upd_task current
            (\<lambda>t. t\<lparr>task_priority := priority, task_criticality := criticality\<rparr>) k))"

text \<open>The per-CPU start of the scheduler: the worker task of priority 0 and criticality 0.\<close>

definition sched_trampoline_ipi ::
  "kconfig \<Rightarrow> 'a kernel_scheme platform \<Rightarrow> ('a kernel_scheme \<Rightarrow> 'a kernel_scheme) \<Rightarrow> u64 \<Rightarrow> u32
     \<Rightarrow> 'a kernel_scheme \<Rightarrow> 'a kernel_scheme option" where
  "sched_trampoline_ipi cfg pf others sched_worker this k =
     (let k = upd_cpu this (\<lambda>c. c\<lparr>pc_sched_init := True\<rparr>) k;
          worker = pc_worker (k_cpu k this);
          stack_top = pc_worker_stack_top (k_cpu k this);
          k = snd (task_init cfg this k worker this 0 stack_top sched_worker 0 0 0 None None);
          k = sched_push cfg worker k
      in case sched_pop_clean_spin cfg others this k of
           None \<Rightarrow> None
         | Some (task, k) \<Rightarrow>
             let k = sched_set_ctx pf this task k
             in Some (sched_timer_init pf this (time_slice_ms cfg) k))"


section \<open>The invariant\<close>

text \<open>The platform touches nothing of the scheduler: only what the record extension of the
  state holds.\<close>

definition same_sched :: "'a kernel_scheme \<Rightarrow> 'a kernel_scheme \<Rightarrow> bool" where
  "same_sched k' k \<longleftrightarrow> k_task k' = k_task k \<and> k_node k' = k_node k \<and> k_queue k' = k_queue k \<and>
     k_cpu k' = k_cpu k \<and> k_num_cpus k' = k_num_cpus k \<and> k_twanvisor_on k' = k_twanvisor_on k"

definition pf_quiet :: "'a kernel_scheme platform \<Rightarrow> bool" where
  "pf_quiet pf \<longleftrightarrow> (\<forall>k. (\<forall>f. same_sched (pf_call pf f k) k) \<and>
     (\<forall>v m. same_sched (snd (pf_lapic_timer_init pf v m k)) k) \<and>
     same_sched (pf_lapic_timer_disable pf k) k \<and> (\<forall>n. same_sched (pf_lapic_timer_enable pf n k) k) \<and>
     (\<forall>n. same_sched (pf_tv_vdisarm_timern pf n k) k) \<and>
     (\<forall>v n m r x. same_sched (snd (pf_tv_varm_timern pf v n m r x k)) k) \<and>
     (\<forall>n a. same_sched (snd (pf_rtalloc_p2aligned pf n a k)) k) \<and>
     (\<forall>p. same_sched (pf_rtfree pf p k) k))"

definition sched_inv :: "'a kernel_scheme \<Rightarrow> run_lists \<Rightarrow> bool" where
  "sched_inv k Q \<longleftrightarrow> sched_repr k Q \<and> (\<forall>c t. current_task k c = Some t \<longrightarrow> t \<notin> queued Q) \<and>
     (\<forall>c d t. current_task k c = Some t \<and> current_task k d = Some t \<longrightarrow> c = d)"

definition live :: "'a kernel_scheme \<Rightarrow> run_lists \<Rightarrow> task_ptr set" where
  "live k Q = queued Q \<union> {t. \<exists>c. current_task k c = Some t}"

lemma same_schedD:
  assumes "same_sched k' k"
  shows "k_task k' = k_task k" "k_node k' = k_node k" "k_queue k' = k_queue k" "k_cpu k' = k_cpu k"
    "current_task k' = current_task k" "sched_repr k' Q = sched_repr k Q"
    "sched_inv k' Q = sched_inv k Q" "live k' Q = live k Q"
proof -
  show f: "k_task k' = k_task k" "k_node k' = k_node k" "k_queue k' = k_queue k" "k_cpu k' = k_cpu k"
    using assms by (simp_all add: same_sched_def)
  show c: "current_task k' = current_task k" using f by (simp add: current_task_def [abs_def])
  have "bin_lists k' Q = bin_lists k Q" by (rule bin_lists_cong) (simp add: f)
  then show r: "sched_repr k' Q = sched_repr k Q" by (simp add: sched_repr_def f)
  then show "sched_inv k' Q = sched_inv k Q" "live k' Q = live k Q" using c by (simp_all add: sched_inv_def live_def)
qed

lemma same_sched_refl [simp]: "same_sched k k"
  by (simp add: same_sched_def)

lemma call_opt_same: "pf_quiet pf \<Longrightarrow> same_sched (call_opt pf f k) k"
  by (auto simp: call_opt_def pf_quiet_def split: option.splits)

lemma timer_same:
  "pf_quiet pf \<Longrightarrow> same_sched (sched_timer_disable pf k) k"
  "pf_quiet pf \<Longrightarrow> same_sched (sched_timer_enable pf this k) k"
  by (simp_all add: sched_timer_disable_def sched_timer_enable_def pf_quiet_def Let_def)

text \<open>Flags of a task and register contents are outside the invariant.\<close>

lemma sched_inv_frame:
  assumes "sched_inv k Q" and "k_node k' = k_node k" and "k_queue k' = k_queue k"
    and "current_task k' = current_task k"
    and "\<And>t. task_criticality (k_task k' t) = task_criticality (k_task k t) \<and>
      task_priority (k_task k' t) = task_priority (k_task k t) \<and>
      task_queue_id (k_task k' t) = task_queue_id (k_task k t)"
  shows "sched_inv k' Q \<and> live k' Q = live k Q"
proof -
  have "sched_repr k' Q" by (rule sched_repr_frame [of k]) (use assms in \<open>auto simp: sched_inv_def\<close>)
  then show ?thesis using assms(1,4) by (simp add: sched_inv_def live_def)
qed

lemma current_task_upd_task [simp]: "current_task (upd_task t f k) = current_task k"
  by (simp add: current_task_def [abs_def])

lemma sched_inv_flags [simp]:
  "sched_inv (set_yield_request b t k) Q = sched_inv k Q"
  "sched_inv (set_preempted_early b t k) Q = sched_inv k Q"
  "live (set_yield_request b t k) Q = live k Q" "live (set_preempted_early b t k) Q = live k Q"
proof -
  have r: "sched_repr (set_yield_request b t k) Q = sched_repr k Q"
    "sched_repr (set_preempted_early b t k) Q = sched_repr k Q"
    by (auto intro: sched_repr_frame)
  show "sched_inv (set_yield_request b t k) Q = sched_inv k Q"
    "sched_inv (set_preempted_early b t k) Q = sched_inv k Q"
    using r by (simp_all add: sched_inv_def)
  show "live (set_yield_request b t k) Q = live k Q" "live (set_preempted_early b t k) Q = live k Q"
    by (simp_all add: live_def)
qed

section \<open>Switching\<close>

lemma sched_do_push_current [simp]: "current_task (sched_do_push cfg t c k) = current_task k"
  by (simp add: sched_do_push_def current_task_def [abs_def])

lemma sched_push_current [simp]: "current_task (sched_push cfg t k) = current_task k"
  by (simp add: sched_push_def)

lemma sched_do_push_task [simp]:
  "task_context (k_task (sched_do_push cfg t c k) u) = task_context (k_task k u)"
  "k_cpu (sched_do_push cfg t c k) = k_cpu k"
  by (simp_all add: sched_do_push_def)

lemma sched_push_task [simp]:
  "task_context (k_task (sched_push cfg t k) u) = task_context (k_task k u)"
  "k_cpu (sched_push cfg t k) = k_cpu k"
  by (simp_all add: sched_push_def)

text \<open>The state after \<open>current\<close> has been saved and its CPU left idle.\<close>

lemma put_current_idle:
  fixes k :: "'a kernel_scheme"
  assumes q: "pf_quiet pf" and c: "current_task k this = Some current"
  obtains ki where "sched_put_current_ctx cfg pf this push k =
      Some (if push then sched_push cfg current ki else ki)"
    "k_node ki = k_node k" "k_queue ki = k_queue k" "current_task ki = (current_task k)(this := None)"
    "k_task ki = k_task (sched_save_current_ctx current (pc_task_ctx (k_cpu k this)) k)"
    "pc_task_ctx (k_cpu ki this) = pc_task_ctx (k_cpu k this)"
proof -
  let ?s = "sched_save_current_ctx current (pc_task_ctx (k_cpu k this)) k"
  let ?c = "call_opt pf (task_put_callback_func (k_task ?s current)) ?s"
  note same = same_schedD [OF call_opt_same [OF q, of "task_put_callback_func (k_task ?s current)" ?s]]
  have cur: "current_task ?s = current_task k" by (simp add: current_task_def [abs_def])
  show ?thesis
  proof (rule that [of "set_current_task this None ?c"])
    show "sched_put_current_ctx cfg pf this push k =
      Some (if push then sched_push cfg current (set_current_task this None ?c)
        else set_current_task this None ?c)"
      using c by (simp add: sched_put_current_ctx_def Let_def)
    show "current_task (set_current_task this None ?c) = (current_task k)(this := None)"
      using same(5) cur by (auto simp: fun_eq_iff)
    show "pc_task_ctx (k_cpu (set_current_task this None ?c) this) = pc_task_ctx (k_cpu k this)"
      using same(4) by (simp add: set_current_task_def)
  qed (use same in simp_all)
qed

lemma sched_set_ctx_current:
  assumes "pf_quiet pf"
  shows "current_task (sched_set_ctx pf this t k) = (current_task k)(this := Some t)"
    "k_node (sched_set_ctx pf this t k) = k_node k" "k_queue (sched_set_ctx pf this t k) = k_queue k"
    "k_task (sched_set_ctx pf this t k) = k_task k"
    "pc_task_ctx (k_cpu (sched_set_ctx pf this t k) this) =
       load_ctx (task_context (k_task k t)) (pc_task_ctx (k_cpu k this))"
proof -
  let ?u = "upd_cpu this (\<lambda>c. c\<lparr>pc_task_ctx := load_ctx (task_context (k_task k t)) (pc_task_ctx c)\<rparr>) k"
  have cu: "current_task ?u = current_task k" by (auto simp: current_task_def fun_eq_iff)
  note same = same_schedD [OF call_opt_same [OF assms, of "task_set_callback_func (k_task k t)"
      "set_current_task this (Some t) ?u"]]
  show "current_task (sched_set_ctx pf this t k) = (current_task k)(this := Some t)"
    using same(5) cu by (auto simp: sched_set_ctx_def Let_def fun_eq_iff)
  show "k_node (sched_set_ctx pf this t k) = k_node k" "k_queue (sched_set_ctx pf this t k) = k_queue k"
    "k_task (sched_set_ctx pf this t k) = k_task k"
    using same by (simp_all add: sched_set_ctx_def Let_def)
  show "pc_task_ctx (k_cpu (sched_set_ctx pf this t k) this) =
       load_ctx (task_context (k_task k t)) (pc_task_ctx (k_cpu k this))"
    using same(4) by (simp add: sched_set_ctx_def Let_def set_current_task_def)
qed


text \<open>The CPU \<open>this\<close> leaves \<open>current\<close>, which goes back to its run queue, and runs \<open>t\<close>.\<close>

definition switched ::
  "'a kernel_scheme \<Rightarrow> u32 \<Rightarrow> task_ptr \<Rightarrow> task_ptr \<Rightarrow> 'a kernel_scheme \<Rightarrow> bool" where
  "switched k this current t k' \<longleftrightarrow> current_task k' = (current_task k)(this := Some t) \<and>
     load_ctx (task_context (k_task k' current)) (pc_task_ctx (k_cpu k this)) = pc_task_ctx (k_cpu k this) \<and>
     pc_task_ctx (k_cpu k' this) = load_ctx (task_context (k_task k t)) (pc_task_ctx (k_cpu k this))"

lemma load_saved_same: "load_ctx (task_context (k_task (sched_save_current_ctx t ctx k) t)) ctx = ctx"
  using load_saved_ctx [of t ctx k ctx] by simp

lemma sched_switch_inv:
  fixes k :: "'a kernel_scheme"
  assumes pf: "pf_quiet pf" and r: "sched_repr k Q" and cur: "current_task k this = Some current"
    and free: "\<And>c t. current_task k c = Some t \<Longrightarrow> t \<notin> queued Q"
    and inj: "\<And>c d t. current_task k c = Some t \<Longrightarrow> current_task k d = Some t \<Longrightarrow> c = d"
    and t: "t \<notin> queued Q" "\<And>c. current_task k c \<noteq> Some t"
  shows "\<exists>k' Q'. sched_switch_ctx cfg pf this t True k = Some k' \<and> sched_inv k' Q' \<and>
     queued Q' = insert current (queued Q) \<and> switched k this current t k'"
proof -
  obtain ki where put: "sched_put_current_ctx cfg pf this True k = Some (sched_push cfg current ki)"
    and ki: "k_node ki = k_node k" "k_queue ki = k_queue k" "current_task ki = (current_task k)(this := None)"
    "k_task ki = k_task (sched_save_current_ctx current (pc_task_ctx (k_cpu k this)) k)"
    "pc_task_ctx (k_cpu ki this) = pc_task_ctx (k_cpu k this)"
    using put_current_idle [OF pf cur, of cfg True thesis] by simp
  have r1: "sched_repr ki Q" by (rule sched_repr_frame [OF r]) (simp_all add: ki)
  have nq: "current \<notin> queued Q" by (rule free [OF cur])
  define Q' where "Q' = enq (cpu_to_queue_id cfg (task_queue_id (k_task ki current)))
     (task_priority (k_task ki current)) current Q"
  let ?kp = "sched_push cfg current ki"
  have r2: "sched_repr ?kp Q'" unfolding Q'_def by (rule sched_push_repr [OF r1 nq])
  let ?k' = "sched_set_ctx pf this t ?kp"
  note set = sched_set_ctx_current [OF pf, of this t ?kp]
  have cur': "current_task ?k' = (current_task k)(this := Some t)" using set(1) ki(3) by simp
  have r3: "sched_repr ?k' Q'" by (rule sched_repr_frame [OF r2]) (simp_all add: set)
  have qQ: "queued Q' = insert current (queued Q)" by (simp add: Q'_def)
  have tne: "t \<noteq> current" using t(2) cur by blast
  have "sched_inv ?k' Q'"
    unfolding sched_inv_def cur' qQ
    using r3 t free inj cur tne by (auto split: if_splits)
  moreover have "task_context (k_task ki t) = task_context (k_task k t)"
    using tne by (simp add: ki sched_save_current_ctx_def)
  then have "switched k this current t ?k'"
    unfolding switched_def using cur' set(4,5) ki(4,5) load_saved_same by simp
  ultimately show ?thesis
    using put qQ by (intro exI [of _ ?k'] exI [of _ Q']) (simp add: sched_switch_ctx_def)
qed

lemma sched_push_flags [simp]:
  "task_yield_request (k_task (sched_push cfg t k) u) = task_yield_request (k_task k u)"
  "task_preemption_count (k_task (sched_push cfg t k) u) = task_preemption_count (k_task k u)"
  by (simp_all add: sched_push_def sched_do_push_def)

lemma switch_keeps_flags:
  assumes pf: "pf_quiet pf" and e: "sched_switch_ctx cfg pf this t True k = Some k'"
  shows "task_yield_request (k_task k' u) = task_yield_request (k_task k u)"
proof (cases "current_task k this")
  case None
  then show ?thesis using e by (simp add: sched_switch_ctx_def sched_put_current_ctx_def)
next
  case (Some current)
  obtain ki where "sched_put_current_ctx cfg pf this True k = Some (sched_push cfg current ki)"
    "k_task ki = k_task (sched_save_current_ctx current (pc_task_ctx (k_cpu k this)) k)"
    using put_current_idle [OF pf Some, of cfg True thesis] by simp
  then show ?thesis using e sched_set_ctx_current(4) [OF pf, of this t]
    by (auto simp: sched_switch_ctx_def)
qed

lemma running_upd:
  assumes "f c = Some a" and u: "\<And>d. f d = Some a \<Longrightarrow> d = c"
  shows "{x. \<exists>d. (f(c := Some t)) d = Some x} = insert t ({x. \<exists>d. f d = Some x} - {a})"
proof (intro set_eqI iffI)
  fix x assume "x \<in> {x. \<exists>d. (f(c := Some t)) d = Some x}"
  then obtain d where d: "(f(c := Some t)) d = Some x" by blast
  show "x \<in> insert t ({x. \<exists>d. f d = Some x} - {a})"
    using d u [of d] by (cases "d = c") auto
next
  fix x assume x: "x \<in> insert t ({x. \<exists>d. f d = Some x} - {a})"
  show "x \<in> {x. \<exists>d. (f(c := Some t)) d = Some x}"
  proof (cases "x = t")
    case True
    then show ?thesis by (auto intro: exI [of _ c])
  next
    case False
    then obtain d where d: "f d = Some x" "x \<noteq> a" using x by blast
    then have "d \<noteq> c" using assms(1) by auto
    then show ?thesis using d by (auto intro: exI [of _ d])
  qed
qed

lemma running_none:
  assumes "f c = Some a" and u: "\<And>d. f d = Some a \<Longrightarrow> d = c"
  shows "{x. \<exists>d. (f(c := None)) d = Some x} = {x. \<exists>d. f d = Some x} - {a}"
proof (intro set_eqI iffI)
  fix x assume "x \<in> {x. \<exists>d. (f(c := None)) d = Some x}"
  then obtain d where d: "(f(c := None)) d = Some x" by blast
  show "x \<in> {x. \<exists>d. f d = Some x} - {a}" using d u [of d] by (cases "d = c") auto
next
  fix x assume "x \<in> {x. \<exists>d. f d = Some x} - {a}"
  then obtain d where d: "f d = Some x" "x \<noteq> a" by blast
  then have "d \<noteq> c" using assms(1) by auto
  then show "x \<in> {x. \<exists>d. (f(c := None)) d = Some x}" using d by (auto intro: exI [of _ d])
qed

lemma sched_pop_switch:
  fixes k :: "'a kernel_scheme"
  assumes pf: "pf_quiet pf" and inv: "sched_inv k Q" and cur: "current_task k this = Some current"
    and pop: "sched_pop cfg this current k = (Some t, kp)"
  shows "\<exists>k' Q'. sched_switch_ctx cfg pf this t True kp = Some k' \<and> sched_inv k' Q' \<and>
     live k' Q' = live k Q \<and> t \<in> queued Q \<and> switched k this current t k'"
proof -
  let ?q = "cpu_to_queue_id cfg this"
  have r: "sched_repr k Q" using inv by (simp add: sched_inv_def)
  from sched_pop_repr(1) [OF r pop refl] have tk: "takes cfg k Q ?q t" and r': "sched_repr kp (deq t Q)"
    and kt: "k_task kp = k_task k" and kc: "k_cpu kp = k_cpu k" by auto
  have tq: "t \<in> queued Q" using takes_queued [OF tk] by (auto simp: queued_iff)
  have qd: "queued (deq t Q) = queued Q - {t}" by (rule queued_deq [OF r])
  have ck: "current_task kp = current_task k" by (simp add: current_task_def [abs_def] kc)
  have cp: "current_task kp this = Some current" using cur ck by simp
  have "\<exists>k' Q'. sched_switch_ctx cfg pf this t True kp = Some k' \<and> sched_inv k' Q' \<and>
     queued Q' = insert current (queued (deq t Q)) \<and> switched kp this current t k'"
    by (rule sched_switch_inv [OF pf r' cp]) (use inv tq in \<open>auto simp: ck qd sched_inv_def\<close>)
  then obtain k' Q' where k': "sched_switch_ctx cfg pf this t True kp = Some k'" "sched_inv k' Q'"
    "queued Q' = insert current (queued Q - {t})" "switched kp this current t k'"
    using qd by auto
  have "switched k this current t k'" using k'(4) by (simp add: switched_def ck kc kt)
  moreover have "live k' Q' = live k Q"
  proof -
    have "current_task k' = (current_task k)(this := Some t)"
      using \<open>switched k this current t k'\<close> by (simp add: switched_def)
    moreover have "c = this" if "current_task k c = Some current" for c
      using inv cur that by (auto simp: sched_inv_def)
    ultimately have "{x. \<exists>c. current_task k' c = Some x} = insert t ({x. \<exists>c. current_task k c = Some x} - {current})"
      using running_upd [where f = "current_task k" and t = t, OF cur] by simp
    then show ?thesis using tq cur unfolding live_def k'(3) by auto
  qed
  ultimately show ?thesis using k' tq by blast
qed

section \<open>Taking a task on an idle CPU\<close>

lemma sched_pop_clean_spin_takes:
  assumes r: "sched_repr k Q" and ne: "\<not> (\<forall>p. Q (cpu_to_queue_id cfg this) p = [])"
  shows "\<exists>t k'. sched_pop_clean_spin cfg others this k = Some (t, k') \<and> sched_pop_clean cfg this k = (Some t, k') \<and>
     takes cfg k Q (cpu_to_queue_id cfg this) t \<and> sched_repr k' (deq t Q) \<and> k_task k' = k_task k \<and> k_cpu k' = k_cpu k"
proof -
  obtain res k' where e: "sched_pop_clean cfg this k = (res, k')" by fastforce
  have "\<exists>t. res = Some t \<and> takes cfg k Q (cpu_to_queue_id cfg this) t \<and> sched_repr k' (deq t Q) \<and>
     k_task k' = k_task k \<and> k_cpu k' = k_cpu k"
    using sched_pop_clean_repr [OF r e refl] ne by (auto split: if_splits)
  then show ?thesis using e by (auto simp: sched_pop_clean_spin.simps [of cfg others this k])
qed

text \<open>An idle CPU takes a task of its queue.\<close>

lemma sched_take_idle:
  fixes k :: "'a kernel_scheme"
  assumes pf: "pf_quiet pf" and inv: "sched_inv k Q" and idle: "current_task k this = None"
    and ne: "\<not> (\<forall>p. Q (cpu_to_queue_id cfg this) p = [])"
  shows "\<exists>t kp Q'. sched_pop_clean_spin cfg others this k = Some (t, kp) \<and> t \<in> queued Q \<and>
     sched_inv (sched_set_ctx pf this t kp) Q' \<and> live (sched_set_ctx pf this t kp) Q' = live k Q \<and>
     current_task (sched_set_ctx pf this t kp) = (current_task k)(this := Some t) \<and>
     pc_task_ctx (k_cpu (sched_set_ctx pf this t kp) this) =
       load_ctx (task_context (k_task k t)) (pc_task_ctx (k_cpu k this))"
proof -
  have r: "sched_repr k Q" using inv by (simp add: sched_inv_def)
  obtain t kp where pop: "sched_pop_clean_spin cfg others this k = Some (t, kp)"
    and tk: "takes cfg k Q (cpu_to_queue_id cfg this) t" and r': "sched_repr kp (deq t Q)"
    and kt: "k_task kp = k_task k" and kc: "k_cpu kp = k_cpu k"
    using sched_pop_clean_spin_takes [OF r ne] by blast
  have tq: "t \<in> queued Q" using takes_queued [OF tk] by (auto simp: queued_iff)
  have ck: "current_task kp = current_task k" by (simp add: current_task_def [abs_def] kc)
  let ?k' = "sched_set_ctx pf this t kp"
  note set = sched_set_ctx_current [OF pf, of this t kp]
  have cur': "current_task ?k' = (current_task k)(this := Some t)" using set(1) ck by simp
  have r2: "sched_repr ?k' (deq t Q)" by (rule sched_repr_frame [OF r']) (simp_all add: set)
  have qd: "queued (deq t Q) = queued Q - {t}" by (rule queued_deq [OF r])
  have nt: "current_task k c \<noteq> Some t" for c using inv tq by (auto simp: sched_inv_def)
  have "sched_inv ?k' (deq t Q)"
    unfolding sched_inv_def cur' qd using r2 inv nt by (auto simp: sched_inv_def split: if_splits)
  moreover have "{x. \<exists>c. ((current_task k)(this := Some t)) c = Some x} = insert t {x. \<exists>c. current_task k c = Some x}"
    using idle by (auto split: if_splits intro: exI [of _ this]) (metis option.distinct(1))
  then have "live ?k' (deq t Q) = live k Q" unfolding live_def cur' qd using tq by auto
  ultimately show ?thesis
    using pop tq cur' set(5) kt kc by (intro exI [of _ t] exI [of _ kp] exI [of _ "deq t Q"]) simp
qed

section \<open>Creating and destroying tasks\<close>

lemma task_init_frame:
  assumes "snd (task_init cfg this k t c mp st f a pr cr pcb scb) = k'"
  shows "k_queue k' = k_queue k" "k_cpu k' = k_cpu k" "u \<noteq> t \<Longrightarrow> k_task k' u = k_task k u"
    "fst n \<noteq> t \<Longrightarrow> k_node k' n = k_node k n"
  using assms by (auto simp: task_init_def task_clear_def Let_def split: option.splits if_splits)

lemma task_init_repr:
  assumes r: "sched_repr k Q" and t: "t \<notin> queued Q"
    and e: "task_init cfg this k t c mp st f a pr cr pcb scb = (res, k')"
  shows "sched_repr k' Q"
proof -
  have s: "snd (task_init cfg this k t c mp st f a pr cr pcb scb) = k'" using e by simp
  note fr = task_init_frame [OF s]
  have tn: "u \<noteq> t" if "u \<in> set (Q q p)" for u q p using that t by (auto simp: queued_iff)
  have bl: "bin_lists k' Q = bin_lists k Q" using t fr(3) by (intro bin_lists_cong) metis
  have out: "fst n \<noteq> t" if "n \<in> pq_nodes (bin_lists k Q q i)" for n q i
    using that tn by (auto simp: bin_lists_mem)
  have un: "unlinked (k_node k') n" if "\<forall>q i. n \<notin> pq_nodes (bin_lists k Q q i)" for n
  proof (cases "k' = k \<or> fst n \<noteq> t")
    case True
    then have "k_node k' n = k_node k n" using fr(4) by (cases n) auto
    then show ?thesis using kq_reprD(3) [OF sched_reprD(1) [OF r], of n] that by (simp add: unlinked_def)
  next
    case False
    then show ?thesis using task_init_cases [OF e] by (cases n) auto
  qed
  have "pq_repr (k_node k') (sq_bins (k_queue k' q) i) (bin_lists k Q q i)" for q i
  proof (rule pq_repr_frame)
    show "pq_repr (k_node k) (sq_bins (k_queue k' q) i) (bin_lists k Q q i)"
      using sched_repr_bin [OF r] by (simp add: fr(1))
    show "\<And>x. x \<in> pq_nodes (bin_lists k Q q i) \<Longrightarrow> k_node k' x = k_node k x" using out fr(4) by blast
  qed
  then have "kq_repr (k_node k') (k_queue k') (bin_lists k' Q)"
    unfolding kq_repr_def bl using kq_reprD(2) [OF sched_reprD(1) [OF r]] un by blast
  then show ?thesis unfolding sched_repr_def using sched_reprD(2,3) [OF r] fr(3) tn by metis
qed

lemma task_init_current: "current_task (snd (task_init cfg this k t c mp st f a pr cr pcb scb)) = current_task k"
  using task_init_frame(2) [of cfg this k t c mp st f a pr cr pcb scb, OF refl]
  by (simp add: current_task_def [abs_def])

section \<open>Properties\<close>

text \<open>C1: The timer tick of the kernel scheduler never dereferences null, keeps the run queues
  well formed, loses and duplicates no task, and switches only when preemption is enabled,
  saving the registers of the old task and loading those of the new one.\<close>

theorem sched_preempt_conserves:
  fixes k :: "'a kernel_scheme"
  assumes pf: "pf_quiet pf" and inv: "sched_inv k Q" and cur: "current_task k this = Some current"
  shows "\<exists>k' Q'. sched_preempt cfg pf this k = Some k' \<and> sched_inv k' Q' \<and> live k' Q' = live k Q \<and>
     (current_task k' = current_task k \<or>
      (\<exists>t \<in> queued Q. task_preemption_count (k_task k current) = 0 \<and> switched k this current t k'))"
proof (cases "task_preempted_early (k_task k current) \<or> task_preemption_count (k_task k current) \<noteq> 0")
  case True
  then show ?thesis using inv cur
    by (intro exI [of _ "the (sched_preempt cfg pf this k)"] exI [of _ Q]) (auto simp: sched_preempt_def)
next
  case False
  let ?k = "set_yield_request False current k"
  have inv': "sched_inv ?k Q" and cur': "current_task ?k this = Some current" using inv cur by simp_all
  obtain res kp where pop: "sched_pop cfg this current ?k = (res, kp)" by fastforce
  have e: "sched_preempt cfg pf this k =
    (case res of None \<Rightarrow> Some kp | Some task \<Rightarrow> sched_switch_ctx cfg pf this task True kp)"
    using False cur pop by (simp add: sched_preempt_def Let_def)
  show ?thesis
  proof (cases res)
    case None
    have "sched_repr ?k Q" using inv' by (simp add: sched_inv_def)
    then have "kp = ?k" using sched_pop_repr(1) [OF _ pop refl] None by simp
    then show ?thesis using e None inv by (intro exI [of _ kp] exI [of _ Q]) simp
  next
    case (Some t)
    then have pop': "sched_pop cfg this current ?k = (Some t, kp)" using pop by simp
    obtain k' Q' where k': "sched_switch_ctx cfg pf this t True kp = Some k'" "sched_inv k' Q'"
      "live k' Q' = live ?k Q" "t \<in> queued Q" "switched ?k this current t k'"
      using sched_pop_switch [OF pf inv' cur' pop'] by blast
    have "t \<noteq> current" using k'(4) inv cur by (auto simp: sched_inv_def)
    then have "switched k this current t k'" using k'(5) by (simp add: switched_def)
    then show ?thesis using e Some k' False by (intro exI [of _ k'] exI [of _ Q']) auto
  qed
qed


lemma sched_yield_cases:
  fixes k :: "'a kernel_scheme"
  assumes pf: "pf_quiet pf" and inv: "sched_inv k Q" and cur: "current_task k this = Some current"
  shows "\<exists>k' Q'. sched_yield_ipi cfg pf this k = Some k' \<and> sched_inv k' Q' \<and> live k' Q' = live k Q \<and>
     \<not> task_yield_request (k_task k' current) \<and>
     (case fst (sched_pop cfg this current (set_preempted_early False current (set_yield_request False current k)))
      of None \<Rightarrow> current_task k' = current_task k
       | Some t \<Rightarrow> t \<in> queued Q \<and> switched k this current t k')"
proof -
  let ?k = "set_preempted_early False current (set_yield_request False current k)"
  have inv': "sched_inv ?k Q" and cur': "current_task ?k this = Some current" using inv cur by simp_all
  obtain res kp where pop: "sched_pop cfg this current ?k = (res, kp)" by fastforce
  have r: "sched_repr ?k Q" using inv' by (simp add: sched_inv_def)
  show ?thesis
  proof (cases res)
    case None
    then have "kp = ?k" using sched_pop_repr(1) [OF r pop refl] by simp
    then show ?thesis using None pop cur inv
      by (intro exI [of _ ?k] exI [of _ Q]) (simp add: sched_yield_ipi_def Let_def)
  next
    case (Some t)
    then have pop': "sched_pop cfg this current ?k = (Some t, kp)" using pop by simp
    obtain k1 Q' where k1: "sched_switch_ctx cfg pf this t True kp = Some k1" "sched_inv k1 Q'"
      "live k1 Q' = live ?k Q" "t \<in> queued Q" "switched ?k this current t k1"
      using sched_pop_switch [OF pf inv' cur' pop'] by blast
    have ne: "t \<noteq> current" using k1(4) inv cur by (auto simp: sched_inv_def)
    have yr: "\<not> task_yield_request (k_task k1 current)"
      using switch_keeps_flags [OF pf k1(1)] sched_pop_repr(1) [OF r pop' refl] by simp
    define k2 where "k2 = sched_timer_disable pf k1"
    define k3 where "k3 = (if sched_is_timer_pending pf k2 then set_preempted_early True t k2 else k2)"
    let ?k' = "sched_timer_enable pf this k3"
    note s2 = same_schedD [OF timer_same(1) [OF pf, of k1], folded k2_def]
    note s4 = same_schedD [OF timer_same(2) [OF pf, of this k3]]
    have e: "sched_yield_ipi cfg pf this k = Some ?k'"
      using cur pop' k1(1) by (simp add: sched_yield_ipi_def Let_def k2_def k3_def)
    have "sched_inv ?k' Q'" "live ?k' Q' = live k Q"
      using k1(2,3) s2 s4 by (auto simp: k3_def)
    moreover have "switched k this current t ?k'"
      using k1(5) s2 s4 ne by (auto simp: switched_def k3_def)
    moreover have "\<not> task_yield_request (k_task ?k' current)"
      using yr s2(1) s4(1) ne by (simp add: k3_def)
    ultimately show ?thesis using e k1(4) pop' by (intro exI [of _ ?k'] exI [of _ Q']) simp
  qed
qed


text \<open>A voluntary yield keeps the scheduler invariant and the set of tasks, clears the yield
  request, and switches contexts faithfully.\<close>

theorem sched_yield_conserves:
  fixes k :: "'a kernel_scheme"
  assumes "pf_quiet pf" and "sched_inv k Q" and "current_task k this = Some current"
  shows "\<exists>k' Q'. sched_yield_ipi cfg pf this k = Some k' \<and> sched_inv k' Q' \<and> live k' Q' = live k Q \<and>
     \<not> task_yield_request (k_task k' current) \<and>
     (current_task k' = current_task k \<or> (\<exists>t \<in> queued Q. switched k this current t k'))"
  using sched_yield_cases [OF assms, of cfg] by (fastforce split: option.splits)

text \<open>Creating a task either fails with an error and changes nothing of the scheduler, or
  queues a fresh task of the given priority and criticality on the queue of the CPU.\<close>

theorem task_create_spec:
  fixes k :: "'a kernel_scheme"
  assumes pf: "pf_quiet pf" and inv: "sched_inv k Q"
    and fresh: "pf_task_at pf (fst (pf_rtalloc_p2aligned pf (task_struct_size cfg + task_stack_size cfg) 16 k)
      + task_stack_size cfg) \<notin> live k Q"
    and e: "task_create cfg pf this cpu func arg pr cr pcb scb k = (res, k')"
  shows "case res of
       Inl err \<Rightarrow> same_sched k' k \<and> (err = - EINVAL \<or> err = - ENOMEM)
     | Inr t \<Rightarrow> t \<notin> live k Q \<and> cpu < k_num_cpus k \<and> unat cr < num_criticalities cfg \<and>
         sched_inv k' (enq (cpu_to_queue_id cfg cpu) pr t Q) \<and>
         task_priority (k_task k' t) = pr \<and> task_criticality (k_task k' t) = cr"
proof -
  obtain mp ka where al: "pf_rtalloc_p2aligned pf (task_struct_size cfg + task_stack_size cfg) 16 k = (mp, ka)"
    by fastforce
  have same: "same_sched ka k" using pf al by (metis pf_quiet_def snd_conv)
  note sd = same_schedD [OF same]
  let ?t = "pf_task_at pf (mp + task_stack_size cfg)"
  obtain r0 ki where ti: "task_init cfg this ka ?t cpu mp (mp + task_stack_size cfg - 8) func arg pr cr pcb scb = (r0, ki)"
    by fastforce
  have ft: "?t \<notin> live k Q" using fresh al by simp
  show ?thesis
  proof (cases res)
    case (Inl err)
    then show ?thesis using e al same by (auto simp: task_create_def Let_def split: if_splits option.splits)
  next
    case (Inr t)
    then have t: "t = ?t" "unat cr < num_criticalities cfg" "cpu < k_num_cpus k" "pc_active (k_cpu k cpu)"
      "k' = sched_do_push cfg ?t cpu ki"
      using e al ti by (auto simp: task_create_def Let_def cpu_data_def cpu_valid_def
          split: if_splits option.splits)
    have "r0 = 0"
      using task_init_cases [OF ti] t same by (auto simp: same_sched_def)
    then have meta: "task_criticality (k_task ki ?t) = cr" "task_priority (k_task ki ?t) = pr"
      using task_init_cases [OF ti] by (auto simp: errno_simps)
    have nq: "?t \<notin> queued Q" using ft by (simp add: live_def)
    have "sched_repr ki Q" by (rule task_init_repr [OF _ nq ti]) (use inv sd in \<open>simp add: sched_inv_def\<close>)
    then have "sched_repr k' (enq (cpu_to_queue_id cfg cpu) pr ?t Q)"
      using sched_do_push_repr [OF _ nq, of ki cfg cpu] meta t(5) by simp
    moreover have "current_task k' = current_task k"
      using task_init_current [of cfg this ka ?t cpu mp "mp + task_stack_size cfg - 8" func arg pr cr pcb scb]
        ti sd(5) t(5) by simp
    ultimately have "sched_inv k' (enq (cpu_to_queue_id cfg cpu) pr ?t Q)"
      using inv ft by (auto simp: sched_inv_def live_def)
    moreover have "task_priority (k_task k' ?t) = pr \<and> task_criticality (k_task k' ?t) = cr"
      using meta t(5) by (simp add: sched_do_push_def)
    ultimately show ?thesis using Inr t ft by simp
  qed
qed

lemma sched_inv_cpu:
  "(\<And>c. pc_current_task (f c) = pc_current_task c) \<Longrightarrow> sched_inv (upd_cpu this f k) Q = sched_inv k Q \<and>
     live (upd_cpu this f k) Q = live k Q \<and> current_task (upd_cpu this f k) = current_task k"
proof -
  assume f: "\<And>c. pc_current_task (f c) = pc_current_task c"
  have c: "current_task (upd_cpu this f k) = current_task k" using f by (auto simp: current_task_def fun_eq_iff)
  have "sched_repr (upd_cpu this f k) Q = sched_repr k Q" by (auto intro: sched_repr_frame)
  then show ?thesis using c by (simp add: sched_inv_def live_def)
qed

lemma sched_timer_init_inv:
  fixes k :: "'a kernel_scheme"
  assumes "pf_quiet pf"
  shows "sched_inv (sched_timer_init pf this ms k) Q = sched_inv k Q \<and>
     live (sched_timer_init pf this ms k) Q = live k Q \<and>
     current_task (sched_timer_init pf this ms k) = current_task k \<and>
     pc_sched_init (k_cpu (sched_timer_init pf this ms k) c) = pc_sched_init (k_cpu k c)"
proof (cases "k_twanvisor_on k")
  case True
  let ?f = "\<lambda>c. c\<lparr>pc_sched_ticks := ucast (ms_to_ticks (ucast ms) (pc_vtimer_frequency_hz (k_cpu k this)))\<rparr>"
  have e: "sched_timer_init pf this ms k = sched_timer_enable pf this (upd_cpu this ?f k)"
    using True by (simp add: sched_timer_init_def Let_def)
  show ?thesis unfolding e
    using same_schedD [OF timer_same(2) [OF assms, of this "upd_cpu this ?f k"]] sched_inv_cpu [of ?f this k Q]
    by simp
next
  case False
  obtain n kl where l: "pf_lapic_timer_init pf SCHED_TIMER_VECTOR ms k = (n, kl)" by fastforce
  have "same_sched kl k" using assms l by (metis pf_quiet_def snd_conv)
  note sd = same_schedD [OF this]
  have e: "sched_timer_init pf this ms k = upd_cpu this (\<lambda>c. c\<lparr>pc_sched_ticks := n\<rparr>) kl"
    using False l by (simp add: sched_timer_init_def)
  show ?thesis unfolding e using sd sched_inv_cpu [of "\<lambda>c. c\<lparr>pc_sched_ticks := n\<rparr>" this kl Q] by simp
qed

lemma sched_push_inv:
  assumes "sched_inv k Q" and "t \<notin> live k Q"
  shows "\<exists>Q'. sched_inv (sched_push cfg t k) Q' \<and> queued Q' = insert t (queued Q) \<and>
     Q' = enq (cpu_to_queue_id cfg (task_queue_id (k_task k t))) (task_priority (k_task k t)) t Q"
  using assms sched_push_repr [of k Q t cfg] by (auto simp: sched_inv_def live_def)

text \<open>Starting the scheduler on a CPU always ends with a task running there, whatever other
  CPUs do, and adds exactly the worker to the tasks.\<close>

theorem sched_trampoline_starts:
  fixes k :: "'a kernel_scheme"
  assumes pf: "pf_quiet pf" and inv: "sched_inv k Q" and idle: "current_task k this = None"
    and cpu: "this < k_num_cpus k" "pc_active (k_cpu k this)" and cfg: "0 < num_criticalities cfg"
    and w: "pc_worker (k_cpu k this) \<notin> live k Q"
  shows "\<exists>k' Q' t. sched_trampoline_ipi cfg pf others sched_worker this k = Some k' \<and> sched_inv k' Q' \<and>
     live k' Q' = insert (pc_worker (k_cpu k this)) (live k Q) \<and> current_task k' this = Some t"
proof -
  let ?k1 = "upd_cpu this (\<lambda>c. c\<lparr>pc_sched_init := True\<rparr>) k" and ?w = "pc_worker (k_cpu k this)"
    and ?q = "cpu_to_queue_id cfg this"
  have i1: "sched_inv ?k1 Q" "live ?k1 Q = live k Q" "current_task ?k1 = current_task k"
    using sched_inv_cpu [of "\<lambda>c. c\<lparr>pc_sched_init := True\<rparr>" this k Q] inv by auto
  obtain r0 ki where ti: "task_init cfg this ?k1 ?w this 0 (pc_worker_stack_top (k_cpu k this)) sched_worker 0 0 0 None None = (r0, ki)"
    by fastforce
  have qid: "task_queue_id (k_task ki ?w) = ?q" using task_init_cases [OF ti] cpu cfg by auto
  have ci: "current_task ki = current_task k"
    using task_init_current [of cfg this ?k1 ?w this 0 "pc_worker_stack_top (k_cpu k this)" sched_worker 0 0 0 None None]
      ti i1(3) by simp
  have nq: "?w \<notin> queued Q" using w by (simp add: live_def)
  have "sched_repr ki Q" by (rule task_init_repr [OF _ nq ti]) (use i1 in \<open>simp add: sched_inv_def\<close>)
  then have inv_i: "sched_inv ki Q" "live ki Q = live k Q" using inv ci by (auto simp: sched_inv_def live_def)
  then obtain Q1 where Q1: "sched_inv (sched_push cfg ?w ki) Q1" "queued Q1 = insert ?w (queued Q)"
    "Q1 = enq (cpu_to_queue_id cfg ?q) (task_priority (k_task ki ?w)) ?w Q"
    using sched_push_inv [of ki Q ?w cfg] w qid by auto
  let ?k2 = "sched_push cfg ?w ki"
  have qq: "cpu_to_queue_id cfg ?q = ?q" by (simp add: cpu_to_queue_id_def)
  have "Q1 ?q (task_priority (k_task ki ?w)) \<noteq> []" using Q1(3) by (simp add: enq_def qq)
  then have ne: "\<not> (\<forall>p. Q1 ?q p = [])" by blast
  have idle2: "current_task ?k2 this = None" using ci idle by simp
  obtain t kp Q' where t: "sched_pop_clean_spin cfg others this ?k2 = Some (t, kp)"
    "sched_inv (sched_set_ctx pf this t kp) Q'" "live (sched_set_ctx pf this t kp) Q' = live ?k2 Q1"
    "current_task (sched_set_ctx pf this t kp) = (current_task ?k2)(this := Some t)"
    using sched_take_idle [OF pf Q1(1) idle2 ne, of others] by blast
  let ?k' = "sched_timer_init pf this (time_slice_ms cfg) (sched_set_ctx pf this t kp)"
  have e: "sched_trampoline_ipi cfg pf others sched_worker this k = Some ?k'"
    using ti t(1) by (simp add: sched_trampoline_ipi_def Let_def)
  have "live ?k2 Q1 = insert ?w (live k Q)" using Q1(2) ci by (auto simp: live_def)
  then have "live (sched_set_ctx pf this t kp) Q' = insert ?w (live k Q)" using t(3) by simp
  then show ?thesis using e t(2,4) sched_timer_init_inv [OF pf]
    by (intro exI [of _ ?k'] exI [of _ Q'] exI [of _ t]) simp
qed

text \<open>Destroying the current task removes exactly this task and runs a queued one.\<close>

theorem current_task_destroy_removes:
  fixes k :: "'a kernel_scheme"
  assumes pf: "pf_quiet pf" and inv: "sched_inv k Q" and cur: "current_task k this = Some current"
    and ne: "Q (cpu_to_queue_id cfg this) p \<noteq> []"
  shows "\<exists>k' Q' t. current_task_destroy_ipi cfg pf others this k = Some k' \<and> sched_inv k' Q' \<and>
     live k' Q' = live k Q - {current} \<and> t \<in> queued Q \<and> current_task k' this = Some t"
proof -
  let ?k1 = "sched_timer_disable pf k"
  note s1 = same_schedD [OF timer_same(1) [OF pf, of k]]
  let ?k2 = "set_current_task this None ?k1"
  define k3 where "k3 = (if task_mempool (k_task ?k2 current) \<noteq> 0
     then pf_rtfree pf (task_mempool (k_task ?k2 current)) ?k2 else ?k2)"
  have same3: "same_sched k3 ?k2" using pf by (auto simp: k3_def pf_quiet_def)
  note s3 = same_schedD [OF same3]
  have c2: "current_task ?k2 = (current_task k)(this := None)" using s1(5) by (auto simp: fun_eq_iff)
  have nq: "current \<notin> queued Q" using inv cur by (auto simp: sched_inv_def)
  have "sched_repr ?k2 Q" by (rule sched_repr_frame [of k]) (use inv s1 in \<open>auto simp: sched_inv_def\<close>)
  then have inv2: "sched_inv ?k2 Q" using inv unfolding sched_inv_def c2 by (auto split: if_splits)
  have only: "c = this" if "current_task k c = Some current" for c using inv cur that by (auto simp: sched_inv_def)
  have "{x. \<exists>c. ((current_task k)(this := None)) c = Some x} = {x. \<exists>c. current_task k c = Some x} - {current}"
    using running_none [where f = "current_task k", OF cur only] by simp
  then have live2: "live ?k2 Q = live k Q - {current}" unfolding live_def c2 using nq by auto
  have inv3: "sched_inv k3 Q" "live k3 Q = live k Q - {current}" "current_task k3 this = None"
    using s3 inv2 live2 c2 by auto
  obtain t kp Q' where t: "sched_pop_clean_spin cfg others this k3 = Some (t, kp)" "t \<in> queued Q"
    "sched_inv (sched_set_ctx pf this t kp) Q'" "live (sched_set_ctx pf this t kp) Q' = live k3 Q"
    "current_task (sched_set_ctx pf this t kp) = (current_task k3)(this := Some t)"
    using sched_take_idle [OF pf inv3(1,3), of cfg others] ne by blast
  define k4 where "k4 = sched_set_ctx pf this t kp"
  define k5 where "k5 = (if sched_is_timer_pending pf k4 then set_preempted_early True t k4 else k4)"
  note s5 = same_schedD [OF timer_same(2) [OF pf, of this k5]]
  have "current_task ?k1 this = Some current" using cur s1(5) by simp
  then have e: "current_task_destroy_ipi cfg pf others this k = Some (sched_timer_enable pf this k5)"
    using t(1) by (simp add: current_task_destroy_ipi_def Let_def k3_def k4_def k5_def)
  have "sched_inv (sched_timer_enable pf this k5) Q'"
    "live (sched_timer_enable pf this k5) Q' = live k Q - {current}"
    "current_task (sched_timer_enable pf this k5) this = Some t"
    using s5 t(3-5) inv3(2) by (auto simp: k5_def k4_def)
  then show ?thesis using e t(2) by blast
qed


text \<open>A tick in a non-preemptible section does not switch but records a yield request, and
  leaving the section answers it by switching to a queued task.\<close>

theorem preemption_deferred:
  fixes k :: "'a kernel_scheme"
  assumes pf: "pf_quiet pf" and inv: "sched_inv k Q" and cur: "current_task k this = Some current"
    and count: "task_preemption_count (k_task k current) = 1" "\<not> task_preempted_early (k_task k current)"
    and u: "u \<in> set (Q (cpu_to_queue_id cfg this) p)"
    and lvl: "sched_mcs_read_criticality_level cfg this k \<le> task_criticality (k_task k u)"
    and pri: "task_priority (k_task k current) \<le> task_priority (k_task k u)"
  shows "\<exists>k1 k2 ky t. sched_preempt cfg pf this k = Some k1 \<and> current_task k1 = current_task k \<and>
     current_task_enable_preemption cfg pf resumed True this k1 = enable_preemption this (resumed ky) \<and>
     sched_yield_ipi cfg pf this k2 = Some ky \<and> current_task ky this = Some t \<and> t \<in> queued Q"
proof -
  let ?k1 = "set_yield_request True current k"
  let ?k2 = "upd_task current (\<lambda>s. s\<lparr>task_preemption_count := task_preemption_count s + 1\<rparr>)
    (upd_task current (\<lambda>s. s\<lparr>task_preemption_count := task_preemption_count s - 1\<rparr>) ?k1)"
  let ?k3 = "set_preempted_early False current (set_yield_request False current ?k2)"
  have r: "sched_repr k Q" using inv by (simp add: sched_inv_def)
  have ready: "\<exists>t kp. sched_pop cfg this current kx = (Some t, kp)"
    if "sched_repr kx Q" "k_queue kx = k_queue k"
      "\<And>t. task_criticality (k_task kx t) = task_criticality (k_task k t)"
      "\<And>t. task_priority (k_task kx t) = task_priority (k_task k t)" for kx :: "'a kernel_scheme"
    using that lvl pri
    by (intro sched_pop_ready [OF that(1) u]) (auto simp: sched_mcs_read_criticality_level_def)
  obtain t0 kp0 where p0: "sched_pop cfg this current k = (Some t0, kp0)" using ready [OF r] by auto
  then have "sched_should_request_yield cfg this current k"
    by (auto simp: sched_pop_def sched_should_request_yield_def Let_def split: option.splits if_splits)
  then have k1: "sched_preempt cfg pf this k = Some ?k1" using cur count by (simp add: sched_preempt_def)
  have fr: "sched_inv ?k2 Q" using sched_inv_frame [of k Q ?k2] inv by simp
  have r3: "sched_repr ?k3 Q" using fr by (simp add: sched_inv_def) (auto intro: sched_repr_frame)
  have "\<exists>t kp. sched_pop cfg this current ?k3 = (Some t, kp)" by (rule ready [OF r3]) simp_all
  then obtain t kp where p3: "sched_pop cfg this current ?k3 = (Some t, kp)" by blast
  obtain ky Q' where ky: "sched_yield_ipi cfg pf this ?k2 = Some ky" "t \<in> queued Q" "switched ?k2 this current t ky"
    using sched_yield_cases [OF pf fr, of this current cfg] cur p3 by auto
  have "current_task_enable_preemption cfg pf resumed True this ?k1 = enable_preemption this (resumed ky)"
    using cur count ky(1)
    by (simp add: current_task_enable_preemption_def enable_preemption_def [of this ?k1]
        sched_try_answer_yield_request_def disable_preemption_def option.map_comp comp_def
        option.map_ident)
  moreover have "current_task ky this = Some t" using ky(3) by (simp add: switched_def)
  ultimately show ?thesis using k1 ky(1,2)
    by (intro exI [of _ ?k1] exI [of _ ?k2] exI [of _ ky] exI [of _ t]) simp
qed


section \<open>A running system, for examples\<close>

definition null_platform :: "kernel platform" where
  "null_platform = \<lparr>pf_call = (\<lambda>_ k. k), pf_lapic_timer_init = (\<lambda>_ _ k. (0, k)),
     pf_lapic_timer_disable = (\<lambda>k. k), pf_lapic_timer_enable = (\<lambda>_ k. k),
     pf_is_lapic_timer_pending = (\<lambda>_ _. False), pf_tv_vdisarm_timern = (\<lambda>_ k. k),
     pf_tv_varm_timern = (\<lambda>_ _ _ _ _ k. (0, k)), pf_tv_vintc_is_pending = (\<lambda>_ _. False),
     pf_rtalloc_p2aligned = (\<lambda>_ _ k. (0x10000, k)), pf_rtfree = (\<lambda>_ k. k), pf_task_at = unat\<rparr>"

lemma null_platform_quiet: "pf_quiet null_platform"
  by (simp add: pf_quiet_def null_platform_def)

text \<open>Task 1 runs on CPU 0 in a non-preemptible section, the tasks 2 and 3 are queued there.\<close>

definition running :: kernel where
  "running = set_current_task 0 (Some 1) two_tasks"

definition in_section :: kernel where
  "in_section = upd_task 1 (\<lambda>t. t\<lparr>task_preemption_count := 1\<rparr>) running"

abbreviation two_lists :: run_lists where
  "two_lists \<equiv> enq 0 3 3 (enq 0 2 2 no_tasks)"

lemma two_tasks_idle: "current_task two_tasks c = None"
  by (simp add: two_tasks_def) (simp add: current_task_def boot_kernel_def boot_cpu_def)

lemma running_current: "current_task running c = (if c = 0 then Some 1 else None)"
  using two_tasks_idle by (simp add: running_def)

lemma running_inv: "sched_inv running two_lists"
proof -
  have "sched_repr running two_lists"
    by (rule sched_repr_frame [OF two_tasks_repr]) (simp_all add: running_def)
  then show ?thesis by (auto simp: sched_inv_def running_current split: if_splits)
qed

lemma running_live: "live running two_lists = {1, 2, 3}"
  by (auto simp: live_def running_current split: if_splits)

lemma two_tasks_count: "task_preemption_count (k_task two_tasks t) = 0"
  "\<not> task_preempted_early (k_task two_tasks t)"
  by (simp_all add: two_tasks_def sched_do_push_def boot_kernel_def zero_task_def)

lemma in_section_inv: "sched_inv in_section two_lists" "current_task in_section 0 = Some 1"
  using sched_inv_frame [OF running_inv, of in_section] running_current
  by (simp_all add: in_section_def)

theorem sched_preempt_conserves_witness:
  "\<exists>k' Q'. sched_preempt default_config null_platform 0 running = Some k' \<and> sched_inv k' Q' \<and>
     live k' Q' = {1, 2, 3}"
proof -
  have "current_task running 0 = Some 1" by (simp add: running_current)
  from sched_preempt_conserves [OF null_platform_quiet running_inv this, of default_config]
  show ?thesis unfolding running_live by blast
qed

theorem sched_yield_conserves_witness:
  "\<exists>k' Q'. sched_yield_ipi default_config null_platform 0 running = Some k' \<and> sched_inv k' Q' \<and>
     live k' Q' = {1, 2, 3}"
proof -
  have "current_task running 0 = Some 1" by (simp add: running_current)
  from sched_yield_conserves [OF null_platform_quiet running_inv this, of default_config]
  show ?thesis unfolding running_live by blast
qed

theorem task_create_spec_witness:
  "case fst (task_create default_config null_platform 0 1 0x1000 0 7 2 None None running) of
     Inl err \<Rightarrow> False | Inr t \<Rightarrow> t \<notin> {1, 2, 3}"
proof -
  obtain res k' where e: "task_create default_config null_platform 0 1 0x1000 0 7 2 None None running = (res, k')"
    by fastforce
  have fresh: "pf_task_at null_platform (fst (pf_rtalloc_p2aligned null_platform
     (task_struct_size default_config + task_stack_size default_config) 16 running)
      + task_stack_size default_config) \<notin> live running two_lists"
    by (simp add: null_platform_def default_config_def running_live)
  have "\<not> (\<exists>err. res = Inl err)"
    using e by (auto simp: task_create_def default_config_def cpu_data_def cpu_valid_def null_platform_def
        running_def two_tasks_def sched_do_push_def boot_kernel_def boot_cpu_def set_current_task_def
        Let_def split: if_splits)
  then show ?thesis
    using task_create_spec [OF null_platform_quiet running_inv fresh e] e running_live
    by (auto split: sum.splits)
qed

theorem current_task_destroy_removes_witness:
  "\<exists>k' Q' t. current_task_destroy_ipi default_config null_platform (\<lambda>k. k) 0 running = Some k' \<and>
     sched_inv k' Q' \<and> live k' Q' = {2, 3} \<and> current_task k' 0 = Some t"
proof -
  have c: "current_task running 0 = Some 1" by (simp add: running_current)
  have "two_lists (cpu_to_queue_id default_config 0) 3 \<noteq> []"
    by (simp add: cpu_to_queue_id_def default_config_def enq_def)
  from current_task_destroy_removes [where others = "\<lambda>k. k", OF null_platform_quiet running_inv c this] show ?thesis
    unfolding running_live by auto
qed

theorem sched_trampoline_starts_witness:
  "\<exists>k' Q' t. sched_trampoline_ipi default_config null_platform (\<lambda>k. k) 0x2000 0 boot_kernel = Some k' \<and>
     sched_inv k' Q' \<and> current_task k' 0 = Some t"
proof -
  have c: "current_task boot_kernel 0 = None" by (simp add: current_task_def boot_kernel_def boot_cpu_def)
  have i: "sched_inv boot_kernel no_tasks"
    using boot_repr by (simp add: sched_inv_def current_task_def boot_kernel_def boot_cpu_def)
  have l: "live boot_kernel no_tasks = {}"
    by (simp add: live_def current_task_def boot_kernel_def boot_cpu_def)
  show ?thesis
    using sched_trampoline_starts [where others = "\<lambda>k. k" and sched_worker = "0x2000" and cfg = default_config,
        OF null_platform_quiet i c] l
    by (fastforce simp: boot_kernel_def boot_cpu_def default_config_def)
qed

theorem preemption_deferred_witness:
  "\<exists>k1. sched_preempt default_config null_platform 0 in_section = Some k1 \<and>
     current_task k1 0 = Some 1"
proof -
  have c: "task_preemption_count (k_task in_section 1) = 1" "\<not> task_preempted_early (k_task in_section 1)"
    by (simp_all add: in_section_def running_def two_tasks_count)
  have u: "2 \<in> set (two_lists (cpu_to_queue_id default_config 0) 2)"
    by (simp add: cpu_to_queue_id_def default_config_def enq_def)
  have "\<exists>k1 k2 ky t. sched_preempt default_config null_platform 0 in_section = Some k1 \<and>
     current_task k1 = current_task in_section \<and>
     current_task_enable_preemption default_config null_platform (\<lambda>k. k) True 0 k1 = enable_preemption 0 ky \<and>
     sched_yield_ipi default_config null_platform 0 k2 = Some ky \<and> current_task ky 0 = Some t \<and> t \<in> queued two_lists"
    by (rule preemption_deferred [OF null_platform_quiet in_section_inv c u])
      (simp_all add: in_section_def running_def two_tasks_fields sched_mcs_read_criticality_level_def)
  then show ?thesis using in_section_inv(2) by auto
qed

end
