(* ===== verification/Twan_Waitq.thy ===== *)
theory Twan_Waitq
  imports Twan_Flatq Twan_Delta Twan_Sched
begin

text \<open>
  Blocking in the kernel: the wait queues of \<open>src/kernel/sched/waitq.c\<close> and \<open>include/kernel/sched/waitq.h\<close>, the part of
  \<open>src/kernel/sched/sched_yield.c\<close> that blocks a task, and sleeping and time-outs (\<open>src/subsys/time/sleep.c\<close>, \<open>timeout.c\<close>) on
  the timer of the hypervisor (\<open>src/initcalls/late/pv/twanvisor.c\<close>). The state of the kernel is extended by the queues and the
  nodes in the tasks that they link: \<^verbatim>\<open>waiting_node\<close> and \<^verbatim>\<open>sleep_node\<close>. The options for sleeping and time-outs are set; as long as
  no timer has registered itself, the time-out functions do nothing.
\<close>

section \<open>Definitions: state\<close>

record wkernel = kernel +
  wk_mem :: "task_ptr flat_mem"
  wk_waitq :: "waitq_ptr \<Rightarrow> task_ptr avl_tree"
  wk_link :: "task_ptr ld_mem"
  wk_delta :: "task_ptr \<Rightarrow> u64"
  wk_sleep_dq :: "task_ptr dq"
  wk_timeout_dq :: "task_ptr dq"
  wk_sleep_initialized :: bool
  wk_timeout_initialized :: bool

definition flat_of :: "waitq_ptr \<Rightarrow> 'a wkernel_scheme \<Rightarrow> task_ptr flat" where
  "flat_of w k = (wk_mem k, wk_waitq k w)"

definition put_flat :: "waitq_ptr \<Rightarrow> task_ptr flat \<Rightarrow> 'a wkernel_scheme \<Rightarrow> 'a wkernel_scheme" where
  "put_flat w q k = k\<lparr>wk_mem := fst q, wk_waitq := (wk_waitq k)(w := snd q)\<rparr>"

definition sleep_chain :: "'a wkernel_scheme \<Rightarrow> task_ptr delta_chain" where
  "sleep_chain k = \<lparr>dc_mem = wk_link k, dc_delta = wk_delta k, dc_dq = wk_sleep_dq k\<rparr>"

definition put_sleep_chain :: "task_ptr delta_chain \<Rightarrow> 'a wkernel_scheme \<Rightarrow> 'a wkernel_scheme" where
  "put_sleep_chain c k = k\<lparr>wk_link := dc_mem c, wk_delta := dc_delta c, wk_sleep_dq := dc_dq c\<rparr>"

definition timeout_chain :: "'a wkernel_scheme \<Rightarrow> task_ptr delta_chain" where
  "timeout_chain k = \<lparr>dc_mem = wk_link k, dc_delta = wk_delta k, dc_dq = wk_timeout_dq k\<rparr>"

definition put_timeout_chain :: "task_ptr delta_chain \<Rightarrow> 'a wkernel_scheme \<Rightarrow> 'a wkernel_scheme" where
  "put_timeout_chain c k = k\<lparr>wk_link := dc_mem c, wk_delta := dc_delta c, wk_timeout_dq := dc_dq c\<rparr>"

abbreviation set_timed_out :: "bool \<Rightarrow> task_ptr \<Rightarrow> 'a wkernel_scheme \<Rightarrow> 'a wkernel_scheme" where
  "set_timed_out b t \<equiv> upd_task t (\<lambda>s. s\<lparr>task_timed_out := b\<rparr>)"

section \<open>Definitions: time-outs\<close>

text \<open>The argument says whether the interface is not null.\<close>

definition timeout_init :: "bool \<Rightarrow> 'a wkernel_scheme \<Rightarrow> int \<times> 'a wkernel_scheme" where
  "timeout_init interface k =
     (if \<not> interface then (- EINVAL, k)
      else if wk_timeout_initialized k then (- EALREADY, k)
      else (0, k\<lparr>wk_timeout_initialized := True\<rparr>))"

definition sleep_init :: "bool \<Rightarrow> 'a wkernel_scheme \<Rightarrow> int \<times> 'a wkernel_scheme" where
  "sleep_init interface k =
     (if \<not> interface then (- EINVAL, k)
      else if wk_sleep_initialized k then (- EALREADY, k)
      else (0, k\<lparr>wk_sleep_initialized := True\<rparr>))"

definition gp_timeout_insert_task :: "task_ptr \<Rightarrow> u32 \<Rightarrow> 'a wkernel_scheme \<Rightarrow> 'a wkernel_scheme option" where
  "gp_timeout_insert_task task ticks k =
     map_option (\<lambda>c. put_timeout_chain c k) (delta_chain_insert (timeout_chain k) task (ucast ticks))"

definition gp_timeout_dequeue_task :: "task_ptr \<Rightarrow> 'a wkernel_scheme \<Rightarrow> bool \<times> 'a wkernel_scheme" where
  "gp_timeout_dequeue_task task k =
     (if \<not> delta_chain_is_queued (timeout_chain k) task then (False, k)
      else (True, put_timeout_chain (delta_chain_dequeue_no_callback (timeout_chain k) task) k))"

definition timeout_insert_task :: "task_ptr \<Rightarrow> u32 \<Rightarrow> 'a wkernel_scheme \<Rightarrow> 'a wkernel_scheme option" where
  "timeout_insert_task task ticks k = (if wk_timeout_initialized k then gp_timeout_insert_task task ticks k else Some k)"

definition timeout_dequeue_task :: "task_ptr \<Rightarrow> 'a wkernel_scheme \<Rightarrow> bool \<times> 'a wkernel_scheme" where
  "timeout_dequeue_task task k = (if \<not> wk_timeout_initialized k then (False, k) else gp_timeout_dequeue_task task k)"

section \<open>Definitions: wait queues\<close>

text \<open>\<^verbatim>\<open>memset\<close> clears as many bytes as a \<^verbatim>\<open>struct dq\<close> has, two pointers: the root of the tree and the length of its paths.\<close>

definition waitq_init :: "waitq_ptr \<Rightarrow> 'a wkernel_scheme \<Rightarrow> 'a wkernel_scheme" where
  "waitq_init w k = k\<lparr>wk_waitq := (wk_waitq k)(w := \<lparr>at_root = None, at_max_path = 0\<rparr>)\<rparr>"

definition INITIALIZE_WAITQ :: "waitq_ptr \<Rightarrow> 'a wkernel_scheme \<Rightarrow> 'a wkernel_scheme" where
  "INITIALIZE_WAITQ w k = k\<lparr>wk_waitq := (wk_waitq k)(w := INITIALIZE_FLAT_PRIORITYQ)\<rparr>"

definition do_waitq_insert :: "waitq_ptr \<Rightarrow> task_ptr \<Rightarrow> bool \<Rightarrow> 'a wkernel_scheme \<Rightarrow> 'a wkernel_scheme option" where
  "do_waitq_insert w task insert_real k =
     map_option (\<lambda>q. upd_task task (\<lambda>t. t\<lparr>task_waitq := Some w\<rparr>) (put_flat w q k))
       (flat_priorityq_insert task
         (if insert_real then task_real_priority (k_task k task) else task_priority (k_task k task)) (flat_of w k))"

definition do_waitq_insert_timeout ::
  "waitq_ptr \<Rightarrow> task_ptr \<Rightarrow> bool \<Rightarrow> u32 \<Rightarrow> 'a wkernel_scheme \<Rightarrow> 'a wkernel_scheme option" where
  "do_waitq_insert_timeout w task insert_real ticks k =
     Option.bind (do_waitq_insert w task insert_real k) (timeout_insert_task task ticks)"

definition waitq_do_insert ::
  "waitq_ptr \<Rightarrow> task_ptr \<Rightarrow> bool \<Rightarrow> bool \<Rightarrow> u32 \<Rightarrow> 'a wkernel_scheme \<Rightarrow> 'a wkernel_scheme option" where
  "waitq_do_insert w task insert_real timeout ticks k =
     (if timeout then do_waitq_insert_timeout w task insert_real ticks k else do_waitq_insert w task insert_real k)"

definition waitq_popfront :: "waitq_ptr \<Rightarrow> 'a wkernel_scheme \<Rightarrow> (task_ptr option \<times> 'a wkernel_scheme) option" where
  "waitq_popfront w k =
     (case flat_priorityq_popfront (flat_of w k) of
        None \<Rightarrow> None
      | Some (None, q) \<Rightarrow> Some (None, put_flat w q k)
      | Some (Some task, q) \<Rightarrow> Some (Some task, upd_task task (\<lambda>t. t\<lparr>task_waitq := None\<rparr>) (put_flat w q k)))"

text \<open>Stopping the clock of a task and making it ready, as both ways to wake a task do.\<close>

definition waitq_ready :: "kconfig \<Rightarrow> task_ptr \<Rightarrow> 'a wkernel_scheme \<Rightarrow> 'a wkernel_scheme" where
  "waitq_ready cfg task k =
     (let (dequeued, k) = timeout_dequeue_task task k;
          k = (if dequeued then set_timed_out False task k else k)
      in sched_push cfg task k)"

definition waitq_wakeup_front ::
  "kconfig \<Rightarrow> waitq_ptr \<Rightarrow> 'a wkernel_scheme \<Rightarrow> (task_ptr option \<times> 'a wkernel_scheme) option" where
  "waitq_wakeup_front cfg w k =
     (case waitq_popfront w k of
        None \<Rightarrow> None
      | Some (None, k) \<Rightarrow> Some (None, k)
      | Some (Some task, k) \<Rightarrow> Some (Some task, waitq_ready cfg task k))"

text \<open>The queue is taken out of the state while the callback runs, which does not touch it; the pointers of the tasks to their
  queue stay.\<close>

definition waitq_wakeup_all :: "kconfig \<Rightarrow> waitq_ptr \<Rightarrow> 'a wkernel_scheme \<Rightarrow> 'a wkernel_scheme option" where
  "waitq_wakeup_all cfg w k =
     map_option (\<lambda>(q, k). put_flat w q k)
       (flat_priorityq_dequeue_all (\<lambda>task k. Some (waitq_ready cfg task k)) (flat_of w k) k)"

definition waitq_dequeue_task :: "waitq_ptr \<Rightarrow> task_ptr \<Rightarrow> 'a wkernel_scheme \<Rightarrow> 'a wkernel_scheme option" where
  "waitq_dequeue_task w task k =
     map_option (\<lambda>q. upd_task task (\<lambda>t. t\<lparr>task_waitq := None\<rparr>) (put_flat w q k)) (flat_priorityq_dequeue task (flat_of w k))"

definition timeout_task_dequeue_from_waitq ::
  "kconfig \<Rightarrow> task_ptr \<Rightarrow> bool \<Rightarrow> 'a wkernel_scheme \<Rightarrow> 'a wkernel_scheme option" where
  "timeout_task_dequeue_from_waitq cfg task timed_out k =
     (case task_waitq (k_task k task) of
        None \<Rightarrow> None
      | Some w \<Rightarrow> map_option (\<lambda>k. sched_push cfg task (set_timed_out timed_out task k)) (waitq_dequeue_task w task k))"

section \<open>Definitions: blocking\<close>

record yield_wait_arg =
  yw_waitq :: waitq_ptr
  yw_locked :: bool
  yw_insert_real :: bool
  yw_timeout :: bool
  yw_ticks :: u64

text \<open>Whether the queue is locked by the caller or here, it is locked from before the insertion on.\<close>

definition sched_yield_wait_ipi ::
  "kconfig \<Rightarrow> 'a wkernel_scheme platform \<Rightarrow> ('a wkernel_scheme \<Rightarrow> 'a wkernel_scheme) \<Rightarrow> u32 \<Rightarrow> yield_wait_arg
     \<Rightarrow> 'a wkernel_scheme \<Rightarrow> 'a wkernel_scheme option" where
  "sched_yield_wait_ipi cfg pf others this arg k =
     (case current_task k this of
        None \<Rightarrow> None
      | Some current \<Rightarrow>
          let k = sched_timer_disable pf k;
              k = set_yield_request False current k;
              k = set_preempted_early False current k
          in case sched_pop_clean_spin cfg others this k of
               None \<Rightarrow> None
             | Some (task, k) \<Rightarrow>
                 (case sched_switch_ctx cfg pf this task False k of
                    None \<Rightarrow> None
                  | Some k \<Rightarrow>
                      (case (if yw_timeout arg
                             then do_waitq_insert_timeout (yw_waitq arg) current (yw_insert_real arg) (ucast (yw_ticks arg)) k
                             else do_waitq_insert (yw_waitq arg) current (yw_insert_real arg) k) of
                         None \<Rightarrow> None
                       | Some k \<Rightarrow>
                           let k = (if sched_is_timer_pending pf k then set_preempted_early True task k else k)
                           in Some (sched_timer_enable pf this k))))"

definition sched_yield_wait_and_unlock ::
  "kconfig \<Rightarrow> 'a wkernel_scheme platform \<Rightarrow> ('a wkernel_scheme \<Rightarrow> 'a wkernel_scheme) \<Rightarrow> u32 \<Rightarrow> waitq_ptr \<Rightarrow> bool \<Rightarrow> bool \<Rightarrow> u64
     \<Rightarrow> 'a wkernel_scheme \<Rightarrow> 'a wkernel_scheme option" where
  "sched_yield_wait_and_unlock cfg pf others this w insert_real timeout ticks k =
     (if pc_handling_isr (k_cpu k this) then None
      else sched_yield_wait_ipi cfg pf others this
        \<lparr>yw_waitq = w, yw_locked = True, yw_insert_real = insert_real, yw_timeout = timeout, yw_ticks = ticks\<rparr> k)"

text \<open>One pass of the loop of \<^verbatim>\<open>waitq_task_wait_until\<close>, with the queue locked: the condition holds and the loop ends, or the task
  is blocked; when it runs again it makes the next pass. The condition may change what it tests, \<open>'c\<close>.\<close>

definition waitq_task_wait_until ::
  "kconfig \<Rightarrow> 'a wkernel_scheme platform \<Rightarrow> ('a wkernel_scheme \<Rightarrow> 'a wkernel_scheme) \<Rightarrow> u32 \<Rightarrow> waitq_ptr \<Rightarrow> bool
     \<Rightarrow> ('c \<times> 'a wkernel_scheme \<Rightarrow> (bool \<times> 'c \<times> 'a wkernel_scheme) option)
     \<Rightarrow> 'c \<times> 'a wkernel_scheme \<Rightarrow> (bool \<times> 'c \<times> 'a wkernel_scheme) option" where
  "waitq_task_wait_until cfg pf others this w insert_real cond s =
     (if pc_handling_isr (k_cpu (snd s) this) then None
      else case cond s of
        None \<Rightarrow> None
      | Some (True, s) \<Rightarrow> Some (True, s)
      | Some (False, c, k) \<Rightarrow>
          map_option (\<lambda>k. (False, c, k)) (sched_yield_wait_and_unlock cfg pf others this w insert_real False 0 k))"

text \<open>One pass of \<^verbatim>\<open>waitq_task_wait_until_timeout\<close>: the loop has ended with a result, or the task is blocked. What follows when
  it runs again is \<open>wait_resumed\<close>: it has run out of time, or makes the second pass.\<close>

definition waitq_task_wait_until_timeout ::
  "kconfig \<Rightarrow> 'a wkernel_scheme platform \<Rightarrow> ('a wkernel_scheme \<Rightarrow> 'a wkernel_scheme) \<Rightarrow> u32 \<Rightarrow> waitq_ptr \<Rightarrow> bool \<Rightarrow> u32
     \<Rightarrow> ('c \<times> 'a wkernel_scheme \<Rightarrow> (bool \<times> 'c \<times> 'a wkernel_scheme) option) \<Rightarrow> nat
     \<Rightarrow> 'c \<times> 'a wkernel_scheme \<Rightarrow> (bool option \<times> 'c \<times> 'a wkernel_scheme) option" where
  "waitq_task_wait_until_timeout cfg pf others this w insert_real ticks cond i s =
     (if pc_handling_isr (k_cpu (snd s) this) then None
      else case cond s of
        None \<Rightarrow> None
      | Some (True, s) \<Rightarrow> Some (Some True, s)
      | Some (False, c, k) \<Rightarrow>
          if i = 1 then Some (Some False, c, k)
          else map_option (\<lambda>k. (None, c, k)) (sched_yield_wait_and_unlock cfg pf others this w insert_real True (ucast ticks) k))"

definition wait_resumed :: "u32 \<Rightarrow> 'a wkernel_scheme \<Rightarrow> (bool option \<times> 'a wkernel_scheme) option" where
  "wait_resumed this k =
     (case current_task k this of
        None \<Rightarrow> None
      | Some current \<Rightarrow>
          if task_timed_out (k_task k current) then Some (Some False, set_timed_out False current k) else Some (None, k))"

section \<open>Definitions: the timer\<close>

definition sleep_wakeup_task :: "kconfig \<Rightarrow> task_ptr \<Rightarrow> 'a wkernel_scheme \<Rightarrow> 'a wkernel_scheme option" where
  "sleep_wakeup_task cfg task k = Some (sched_push cfg task k)"

definition timeout_wakeup_task :: "kconfig \<Rightarrow> task_ptr \<Rightarrow> 'a wkernel_scheme \<Rightarrow> 'a wkernel_scheme option" where
  "timeout_wakeup_task cfg task k = timeout_task_dequeue_from_waitq cfg task True k"

definition gp_sleep_ticks_ipi ::
  "kconfig \<Rightarrow> 'a wkernel_scheme platform \<Rightarrow> ('a wkernel_scheme \<Rightarrow> 'a wkernel_scheme) \<Rightarrow> u32 \<Rightarrow> u64
     \<Rightarrow> 'a wkernel_scheme \<Rightarrow> 'a wkernel_scheme option" where
  "gp_sleep_ticks_ipi cfg pf others this ticks k =
     (if ticks = 0 then Some k
      else
        let k = sched_timer_disable pf k
        in case current_task k this of
             None \<Rightarrow> None
           | Some current \<Rightarrow>
               let k = set_yield_request False current k;
                   k = set_preempted_early False current k
               in case sched_pop_clean_spin cfg others this k of
                    None \<Rightarrow> None
                  | Some (task, k) \<Rightarrow>
                      (case sched_switch_ctx cfg pf this task False k of
                         None \<Rightarrow> None
                       | Some k \<Rightarrow>
                           (case delta_chain_insert (sleep_chain k) current ticks of
                              None \<Rightarrow> None
                            | Some c \<Rightarrow>
                                let k = put_sleep_chain c k;
                                    k = (if sched_is_timer_pending pf k then set_preempted_early True task k else k)
                                in Some (sched_timer_enable pf this k))))"

definition sleep_ticks ::
  "kconfig \<Rightarrow> 'a wkernel_scheme platform \<Rightarrow> ('a wkernel_scheme \<Rightarrow> 'a wkernel_scheme) \<Rightarrow> u32 \<Rightarrow> u32
     \<Rightarrow> 'a wkernel_scheme \<Rightarrow> 'a wkernel_scheme option" where
  "sleep_ticks cfg pf others this ticks k =
     (if pc_handling_isr (k_cpu k this) then None
      else if wk_sleep_initialized k then gp_sleep_ticks_ipi cfg pf others this (ucast ticks) k else Some k)"

text \<open>A chain is taken out of the state while its callbacks run, which do not touch it.\<close>

definition gp_isr :: "kconfig \<Rightarrow> 'a wkernel_scheme \<Rightarrow> 'a wkernel_scheme option" where
  "gp_isr cfg k =
     (case delta_chain_tick (Some (quiet (\<lambda>n s. Option.bind s (sleep_wakeup_task cfg n)))) (sleep_chain k, Some k) of
        Some (c, Some k) \<Rightarrow>
          let k = put_sleep_chain c k
          in case delta_chain_tick (Some (quiet (\<lambda>n s. Option.bind s (timeout_wakeup_task cfg n)))) (timeout_chain k, Some k) of
               Some (c, Some k) \<Rightarrow> Some (put_timeout_chain c k)
             | _ \<Rightarrow> None
      | _ \<Rightarrow> None)"

section \<open>What the scheduler leaves alone\<close>

text \<open>The priority by which a task is queued.\<close>

definition queue_priority :: "bool \<Rightarrow> 'a wkernel_scheme \<Rightarrow> task_ptr \<Rightarrow> u8" where
  "queue_priority insert_real k t = (if insert_real then task_real_priority (k_task k t) else task_priority (k_task k t))"

definition same_wait :: "'a wkernel_scheme \<Rightarrow> 'a wkernel_scheme \<Rightarrow> bool" where
  "same_wait k' k \<longleftrightarrow> (\<forall>r. queue_priority r k' = queue_priority r k) \<and> wk_mem k' = wk_mem k \<and> wk_waitq k' = wk_waitq k \<and>
     wk_link k' = wk_link k \<and> wk_delta k' = wk_delta k \<and> wk_sleep_dq k' = wk_sleep_dq k \<and> wk_timeout_dq k' = wk_timeout_dq k \<and>
     wk_sleep_initialized k' = wk_sleep_initialized k \<and> wk_timeout_initialized k' = wk_timeout_initialized k"

lemma same_wait_refl [simp]: "same_wait k k"
  by (simp add: same_wait_def)

lemma same_wait_trans: "same_wait a b \<Longrightarrow> same_wait b c \<Longrightarrow> same_wait a c"
  by (simp add: same_wait_def)

lemma same_wait_cong: "same_wait a b \<Longrightarrow> same_wait a c = same_wait b c"
  by (auto simp: same_wait_def)

lemma same_waitD:
  assumes "same_wait k' k"
  shows "flat_of w k' = flat_of w k" "queue_priority r k' = queue_priority r k" "wk_mem k' = wk_mem k"
  using assms by (simp_all add: same_wait_def flat_of_def)

text \<open>The platform and the other CPUs leave the wait queues alone, too.\<close>

definition pf_waitless :: "'a wkernel_scheme platform \<Rightarrow> bool" where
  "pf_waitless pf \<longleftrightarrow> (\<forall>k. (\<forall>f. same_wait (pf_call pf f k) k) \<and> same_wait (pf_lapic_timer_disable pf k) k \<and>
     (\<forall>n. same_wait (pf_lapic_timer_enable pf n k) k) \<and> (\<forall>n. same_wait (pf_tv_vdisarm_timern pf n k) k) \<and>
     (\<forall>v n m r x. same_wait (snd (pf_tv_varm_timern pf v n m r x k)) k))"

lemma same_wait_upd_task:
  assumes "\<And>s. task_priority (f s) = task_priority s \<and> task_real_priority (f s) = task_real_priority s"
  shows "same_wait (upd_task t f k) k"
  using assms by (simp add: same_wait_def queue_priority_def fun_eq_iff upd_task_def)

lemma same_wait_on_bin: "same_wait (on_bin q i f k) k"
  by (simp add: same_wait_def queue_priority_def fun_eq_iff on_bin_def upd_queue_def split: prod.splits)

lemma same_wait_upd:
  "same_wait (upd_cpu c g k) k" "same_wait (set_current_task c u k) k" "same_wait (upd_queue q j k) k"
  "same_wait (sched_save_current_ctx t ctx k) k"
  by (simp_all add: same_wait_def queue_priority_def fun_eq_iff upd_cpu_def set_current_task_def upd_queue_def sched_save_current_ctx_def
      upd_task_def)

lemmas same_wait_simps [simp] = same_wait_on_bin [THEN same_wait_cong] same_wait_upd [THEN same_wait_cong]

lemma same_wait_flags [simp]:
  "same_wait (upd_task t (\<lambda>s. s\<lparr>task_yield_request := b\<rparr>) k) k' = same_wait k k'"
  "same_wait (upd_task t (\<lambda>s. s\<lparr>task_preempted_early := b\<rparr>) k) k' = same_wait k k'"
  "same_wait (upd_task t (\<lambda>s. s\<lparr>task_timed_out := b\<rparr>) k) k' = same_wait k k'"
  "same_wait (upd_task t (\<lambda>s. s\<lparr>task_waitq := w\<rparr>) k) k' = same_wait k k'"
  "same_wait (upd_task t (\<lambda>s. s\<lparr>task_queue_id := q\<rparr>) k) k' = same_wait k k'"
  "same_wait (upd_task t (\<lambda>s. s\<lparr>task_preemption_count := c s\<rparr>) k) k' = same_wait k k'"
  by (rule same_wait_cong [OF same_wait_upd_task]; simp)+

lemma same_wait_fold [simp]: "same_wait (fold (\<lambda>i. on_bin q i (h i)) xs k) k' = same_wait k k'"
  by (induction xs arbitrary: k) auto

lemma same_wait_push [simp]: "same_wait (sched_push cfg t k) k' = same_wait k k'"
  by (simp add: sched_push_def sched_do_push_def sched_priorityq_push_def Let_def)

lemma same_wait_bin_pop: "sched_priorityq_pop q k = (r, k2) \<Longrightarrow> same_wait k2 k' = same_wait k k'"
  by (auto simp: sched_priorityq_pop_def sched_priorityq_dequeue_def Let_def split: option.splits)

lemma same_wait_pop_age: "sched_priorityq_pop_age q k = (r, k2) \<Longrightarrow> same_wait k2 k"
  by (auto simp: sched_priorityq_pop_age_def same_wait_bin_pop Let_def split: option.splits prod.splits if_splits)

lemma same_wait_pop: "sched_pop_clean cfg this k = (r, k2) \<Longrightarrow> same_wait k2 k"
  by (auto simp: sched_pop_clean_def same_wait_pop_age same_wait_bin_pop Let_def split: if_splits)

lemma same_wait_spin_aux:
  "sched_pop_clean_spin cfg others this k = Some r \<Longrightarrow> (\<And>k. same_wait (others k) k) \<Longrightarrow> same_wait (snd r) k"
proof (induction rule: sched_pop_clean_spin.raw_induct [rotated, consumes 1, case_names step])
  case (step spin cfg' others' this' k1 r1)
  show ?case
  proof (cases "sched_pop_clean cfg' this' k1")
    case (Pair t k2)
    show ?thesis
    proof (cases t)
      case None
      then have "same_wait (snd r1) (others' k2)" using step.IH [of cfg' others' this' "others' k2"] step.prems step.hyps Pair by simp
      then show ?thesis using step.prems [of k2] same_wait_pop [OF Pair] by (blast intro: same_wait_trans)
    next
      case (Some u)
      then show ?thesis using step.hyps Pair same_wait_pop [OF Pair] by auto
    qed
  qed
qed

lemma same_wait_spin:
  "sched_pop_clean_spin cfg others this k = Some (t, k') \<Longrightarrow> (\<And>k. same_wait (others k) k) \<Longrightarrow> same_wait k' k"
  using same_wait_spin_aux [of cfg others this k "(t, k')"] by simp

lemma same_wait_timer:
  assumes "pf_waitless pf"
  shows "same_wait (sched_timer_disable pf k) k' = same_wait k k'" "same_wait (sched_timer_enable pf this k) k' = same_wait k k'"
    "same_wait (call_opt pf f k) k' = same_wait k k'"
  by (rule same_wait_cong; use assms in \<open>simp add: pf_waitless_def sched_timer_disable_def sched_timer_enable_def call_opt_def Let_def
      split: option.splits\<close>)+

lemma same_wait_switch:
  assumes "pf_waitless pf" and "sched_switch_ctx cfg pf this t push k = Some k'"
  shows "same_wait k' k"
  using assms(2) by (auto simp: sched_switch_ctx_def sched_put_current_ctx_def sched_set_ctx_def Let_def
      same_wait_timer [OF assms(1)] split: option.splits if_splits)

section \<open>The wait queue of tasks of one priority\<close>

text \<open>The tasks \<open>xs\<close> wait in the queue \<open>w\<close>, in this order.\<close>

text \<open>The tasks that wait in a queue, all with the priority \<open>p\<close>, from the one that has waited longest.\<close>

definition waiting :: "u8 \<Rightarrow> waitq_ptr \<Rightarrow> 'a wkernel_scheme \<Rightarrow> task_ptr list \<Rightarrow> bool" where
  "waiting p w k xs \<longleftrightarrow> flat_repr p (flat_of w k) xs"

lemma max_path_256: "0 < avl_tree_max_path 256" "1 < avl_tree_max_path 256"
  by code_simp+

text \<open>The relation holds for a queue that was initialised statically, and for no queue initialised by \<^const>\<open>waitq_init\<close>.\<close>

lemma initialized_waiting: "waiting p w (INITIALIZE_WAITQ w k) []" "\<not> waiting p w (waitq_init w k) []"
  by (simp_all add: waiting_def flat_of_def flat_repr_def INITIALIZE_WAITQ_def waitq_init_def INITIALIZE_FLAT_PRIORITYQ_def max_path_256)

lemma flat_of_simps [simp]:
  "flat_of w (upd_task t f k) = flat_of w k" "flat_of w (put_flat w q k) = q" "flat_of w (put_timeout_chain c k) = flat_of w k"
  "wk_mem (upd_task t f k) = wk_mem k" "wk_mem (put_flat w q k) = fst q" "wk_mem (put_timeout_chain c k) = wk_mem k"
  "queue_priority r (put_flat w q k) = queue_priority r k" "queue_priority r (put_timeout_chain c k) = queue_priority r k"
  by (auto simp: flat_of_def put_flat_def put_timeout_chain_def upd_task_def queue_priority_def fun_eq_iff)

lemma fst_flat_of [simp]: "fst (flat_of w k) = wk_mem k"
  by (simp add: flat_of_def)

lemma do_waitq_insert_waiting:
  assumes "waiting p w k xs" and "t \<notin> set xs" and "fm_list (wk_mem k) t = lq_null" and "queue_priority r k t = p"
  shows "\<exists>k'. do_waitq_insert w t r k = Some k' \<and> waiting p w k' (xs @ [t]) \<and>
    (\<forall>n. n \<notin> set (xs @ [t]) \<longrightarrow> fm_list (wk_mem k') n = fm_list (wk_mem k) n) \<and> (\<forall>r. queue_priority r k' = queue_priority r k)"
proof -
  obtain q where q: "flat_priorityq_insert t p (flat_of w k) = Some q" "flat_repr p q (xs @ [t])"
    "\<forall>n. n \<notin> set (xs @ [t]) \<longrightarrow> fm_list (fst q) n = fm_list (wk_mem k) n"
    using flat_insert_repr [of p "flat_of w k" xs t] assms by (auto simp: waiting_def)
  have "queue_priority r (upd_task t (\<lambda>s. s\<lparr>task_waitq := Some w\<rparr>) (put_flat w q k)) = queue_priority r k" for r
    using same_wait_upd_task [of "\<lambda>s. s\<lparr>task_waitq := Some w\<rparr>" t "put_flat w q k"] by (simp add: same_wait_def)
  then show ?thesis using q assms(4) by (auto simp: do_waitq_insert_def waiting_def queue_priority_def)
qed

text \<open>A change of the state that keeps the queues in the sense of the list \<open>xs\<close>, and the priorities.\<close>

definition queue_becomes :: "u8 \<Rightarrow> waitq_ptr \<Rightarrow> task_ptr list \<Rightarrow> task_ptr set \<Rightarrow> 'a wkernel_scheme \<Rightarrow> 'a wkernel_scheme \<Rightarrow> bool" where
  "queue_becomes p w xs N k k' \<longleftrightarrow> waiting p w k' xs \<and> (\<forall>n. n \<notin> N \<longrightarrow> fm_list (wk_mem k') n = fm_list (wk_mem k) n) \<and>
     (\<forall>n \<in> N - set xs. fm_list (wk_mem k') n = lq_null) \<and> (\<forall>r. queue_priority r k' = queue_priority r k)"

lemma queue_becomes_same: "queue_becomes p w xs N k k' \<Longrightarrow> same_wait k'' k' \<Longrightarrow> queue_becomes p w xs N k k''"
  by (simp add: queue_becomes_def waiting_def same_wait_def flat_of_def)

lemma queue_becomes_from: "queue_becomes p w xs N k k' \<Longrightarrow> same_wait k k0 \<Longrightarrow> queue_becomes p w xs N k0 k'"
  by (simp add: queue_becomes_def waiting_def same_wait_def)

lemma waiting_same: "same_wait k' k \<Longrightarrow> waiting p w k' xs = waiting p w k xs"
  by (simp add: waiting_def same_waitD(1))

lemma timeout_insert_keeps:
  assumes "timeout_insert_task t ticks k = Some k'"
  shows "flat_of w k' = flat_of w k" "wk_mem k' = wk_mem k" "queue_priority r k' = queue_priority r k"
  using assms by (auto simp: timeout_insert_task_def gp_timeout_insert_task_def split: if_splits)

lemma waitq_ready_keeps:
  "flat_of w (waitq_ready cfg t k) = flat_of w k" "wk_mem (waitq_ready cfg t k) = wk_mem k"
  "queue_priority r (waitq_ready cfg t k) = queue_priority r k"
proof -
  obtain d k1 where d: "timeout_dequeue_task t k = (d, k1)" by fastforce
  have k1: "flat_of w k1 = flat_of w k" "wk_mem k1 = wk_mem k" "queue_priority r k1 = queue_priority r k"
    using d by (auto simp: timeout_dequeue_task_def gp_timeout_dequeue_task_def split: if_splits)
  have "same_wait (waitq_ready cfg t k) k1" by (simp add: waitq_ready_def d)
  then show "flat_of w (waitq_ready cfg t k) = flat_of w k" "wk_mem (waitq_ready cfg t k) = wk_mem k"
    "queue_priority r (waitq_ready cfg t k) = queue_priority r k" using k1 by (simp_all add: same_waitD)
qed

lemma waitq_wakeup_front_waiting:
  assumes "waiting p w k (t # xs)"
  shows "\<exists>k'. waitq_wakeup_front cfg w k = Some (Some t, k') \<and> queue_becomes p w xs (set (t # xs)) k k'"
proof -
  obtain q where q: "flat_priorityq_popfront (flat_of w k) = Some (Some t, q)" "flat_repr p q xs" "fm_list (fst q) t = lq_null"
    "\<forall>n. n \<notin> set (t # xs) \<longrightarrow> fm_list (fst q) n = fm_list (wk_mem k) n"
    using flat_popfront_repr [of p "flat_of w k" t xs] assms by (auto simp: waiting_def)
  let ?k = "upd_task t (\<lambda>s. s\<lparr>task_waitq := None\<rparr>) (put_flat w q k)"
  have "queue_priority r ?k = queue_priority r k" for r
    using same_wait_upd_task [of "\<lambda>s. s\<lparr>task_waitq := None\<rparr>" t "put_flat w q k"] by (simp add: same_wait_def)
  then show ?thesis using q
    by (auto simp: waitq_wakeup_front_def waitq_popfront_def queue_becomes_def waiting_def waitq_ready_keeps)
qed

lemma waitq_wakeup_front_none:
  assumes "waiting p w k []"
  shows "waitq_wakeup_front cfg w k = Some (None, put_flat w (flat_of w k) k)"
    and "queue_becomes p w [] {} k (put_flat w (flat_of w k) k)"
  using flat_popfront_empty [of p "flat_of w k"] assms
  by (auto simp: waitq_wakeup_front_def waitq_popfront_def queue_becomes_def waiting_def)

lemma timeout_dequeue_waiting:
  assumes "waiting p w k (as @ t # bs)" and "task_waitq (k_task k t) = Some w"
  shows "\<exists>k'. timeout_task_dequeue_from_waitq cfg t b k = Some k' \<and> queue_becomes p w (as @ bs) (set (as @ t # bs)) k k'"
proof -
  obtain q where q: "flat_priorityq_dequeue t (flat_of w k) = Some q" "flat_repr p q (as @ bs)" "fm_list (fst q) t = lq_null"
    "\<forall>n. n \<notin> set (as @ t # bs) \<longrightarrow> fm_list (fst q) n = fm_list (wk_mem k) n"
    using flat_dequeue_repr [of p "flat_of w k" as t bs] assms by (auto simp: waiting_def)
  let ?k = "upd_task t (\<lambda>s. s\<lparr>task_waitq := None\<rparr>) (put_flat w q k)"
  have "queue_priority r ?k = queue_priority r k" for r
    using same_wait_upd_task [of "\<lambda>s. s\<lparr>task_waitq := None\<rparr>" t "put_flat w q k"] by (simp add: same_wait_def)
  then have "queue_becomes p w (as @ bs) (set (as @ t # bs)) k ?k" using q by (auto simp: queue_becomes_def waiting_def)
  then have "queue_becomes p w (as @ bs) (set (as @ t # bs)) k (sched_push cfg t (set_timed_out b t ?k))"
    by (rule queue_becomes_same) simp
  then show ?thesis using q(1) assms(2) by (simp add: timeout_task_dequeue_from_waitq_def waitq_dequeue_task_def)
qed

text \<open>A task that blocks is the last one of the queue.\<close>

lemma sched_yield_wait_waiting:
  assumes "sched_yield_wait_ipi cfg pf others this arg k = Some k'" and "current_task k this = Some t" and "pf_waitless pf"
    and "\<And>k. same_wait (others k) k" and "waiting p (yw_waitq arg) k xs" and "t \<notin> set xs" and "fm_list (wk_mem k) t = lq_null"
    and "queue_priority (yw_insert_real arg) k t = p"
  shows "queue_becomes p (yw_waitq arg) (xs @ [t]) (insert t (set xs)) k k'"
proof -
  let ?w = "yw_waitq arg" and ?r = "yw_insert_real arg"
  let ?k = "set_preempted_early False t (set_yield_request False t (sched_timer_disable pf k))"
  obtain u k1 k2 k3 where k1: "sched_pop_clean_spin cfg others this ?k = Some (u, k1)" and k2: "sched_switch_ctx cfg pf this u False k1 = Some k2"
    and k3: "(if yw_timeout arg then do_waitq_insert_timeout ?w t ?r (ucast (yw_ticks arg)) k2 else do_waitq_insert ?w t ?r k2) = Some k3"
    and k': "k' = sched_timer_enable pf this (if sched_is_timer_pending pf k3 then set_preempted_early True u k3 else k3)"
    using assms(1,2) by (auto simp: sched_yield_wait_ipi_def Let_def split: option.splits prod.splits)
  have "same_wait ?k k" by (simp add: same_wait_timer [OF assms(3)])
  then have s: "same_wait k2 k"
    using same_wait_spin [OF k1 assms(4)] same_wait_switch [OF assms(3) k2] by (blast intro: same_wait_trans)
  obtain k4 where k4: "do_waitq_insert ?w t ?r k2 = Some k4" "waiting p ?w k4 (xs @ [t])"
    "\<forall>n. n \<notin> set (xs @ [t]) \<longrightarrow> fm_list (wk_mem k4) n = fm_list (wk_mem k2) n" "\<forall>r. queue_priority r k4 = queue_priority r k2"
    using do_waitq_insert_waiting [of p ?w k2 xs t ?r] assms(5-8) waiting_same [OF s] same_waitD [OF s] by auto
  have "queue_becomes p ?w (xs @ [t]) (insert t (set xs)) k2 k3"
    using k3 k4 timeout_insert_keeps [of t "ucast (yw_ticks arg)" k4 k3]
    by (auto simp: do_waitq_insert_timeout_def queue_becomes_def waiting_def split: if_splits)
  then have "queue_becomes p ?w (xs @ [t]) (insert t (set xs)) k k3" using s by (rule queue_becomes_from)
  then show ?thesis by (rule queue_becomes_same) (simp add: k' same_wait_timer [OF assms(3)])
qed

section \<open>No task is lost between the run queues and the wait queues\<close>

text \<open>The CPU leaves \<open>current\<close>, which goes to no run queue, and runs \<open>u\<close>.\<close>

lemma sched_switch_away:
  fixes k :: "'a kernel_scheme"
  assumes pf: "pf_quiet pf" and inv: "sched_inv k Q" and cur: "current_task k this = Some current"
    and kp: "sched_repr kp (deq u Q)" "k_task kp = k_task k" "k_cpu kp = k_cpu k" and u: "u \<in> queued Q"
  shows "\<exists>k'. sched_switch_ctx cfg pf this u False kp = Some k' \<and> sched_inv k' (deq u Q) \<and> live k' (deq u Q) = live k Q - {current} \<and>
     switched k this current u k'"
proof -
  have ck: "current_task kp = current_task k" by (simp add: current_task_def [abs_def] kp(3))
  obtain ki where put: "sched_put_current_ctx cfg pf this False kp = Some ki"
    and ki: "k_node ki = k_node kp" "k_queue ki = k_queue kp" "current_task ki = (current_task kp)(this := None)"
    "k_task ki = k_task (sched_save_current_ctx current (pc_task_ctx (k_cpu kp this)) kp)"
    "pc_task_ctx (k_cpu ki this) = pc_task_ctx (k_cpu kp this)"
    using put_current_idle [OF pf, of kp this current cfg False] cur ck by auto
  let ?k' = "sched_set_ctx pf this u ki"
  note set = sched_set_ctx_current [OF pf, of this u ki]
  have r: "sched_repr k Q" using inv by (simp add: sched_inv_def)
  have qd: "queued (deq u Q) = queued Q - {u}" by (rule queued_deq [OF r])
  have nt: "current_task k c \<noteq> Some u" for c using inv u by (auto simp: sched_inv_def)
  have inj: "current_task k c = Some current \<Longrightarrow> c = this" for c using inv cur by (auto simp: sched_inv_def)
  have cur': "current_task ?k' = (current_task k)(this := Some u)" using set(1) ki(3) ck by simp
  have "sched_repr ki (deq u Q)" by (rule sched_repr_frame [OF kp(1)]) (simp_all add: ki)
  then have "sched_repr ?k' (deq u Q)" by (rule sched_repr_frame) (simp_all add: set)
  then have i: "sched_inv ?k' (deq u Q)" unfolding sched_inv_def cur' qd using inv nt by (auto simp: sched_inv_def split: if_splits)
  have cq: "current \<notin> queued Q" using inv cur by (auto simp: sched_inv_def)
  have eq: "{t. \<exists>c. ((current_task k)(this := Some u)) c = Some t} = insert u ({t. \<exists>c. current_task k c = Some t} - {current})"
  proof (intro set_eqI iffI)
    fix x
    assume "x \<in> {t. \<exists>c. ((current_task k)(this := Some u)) c = Some t}"
    then obtain c where "((current_task k)(this := Some u)) c = Some x" by blast
    then show "x \<in> insert u ({t. \<exists>c. current_task k c = Some t} - {current})" using inj [of c] by (auto split: if_splits)
  next
    fix x
    assume "x \<in> insert u ({t. \<exists>c. current_task k c = Some t} - {current})"
    then consider "x = u" | c where "current_task k c = Some x" "x \<noteq> current" by auto
    then show "x \<in> {t. \<exists>c. ((current_task k)(this := Some u)) c = Some t}"
    proof cases
      case 2
      then have "c \<noteq> this" using cur by auto
      then show ?thesis using 2 by auto
    qed (auto intro: exI [of _ this])
  qed
  have "live ?k' (deq u Q) = live k Q - {current}" unfolding live_def cur' qd eq using u cq by auto
  moreover have "u \<noteq> current" using nt cur by blast
  then have "switched k this current u ?k'"
    using cur' set(4,5) ki(4,5) load_saved_same [of current "pc_task_ctx (k_cpu kp this)" kp] kp(2,3)
    by (simp add: switched_def sched_save_current_ctx_def)
  ultimately show ?thesis using put i by (simp add: sched_switch_ctx_def)
qed

lemma sched_inv_waitq [simp]: "sched_inv (put_flat w q k) Q = sched_inv k Q" "live (put_flat w q k) Q = live k Q"
  "sched_inv (upd_task t (\<lambda>s. s\<lparr>task_waitq := v\<rparr>) k) Q = sched_inv k Q" "live (upd_task t (\<lambda>s. s\<lparr>task_waitq := v\<rparr>) k) Q = live k Q"
proof -
  have c: "current_task (put_flat w q k) = current_task k" by (simp add: current_task_def fun_eq_iff put_flat_def)
  have r: "sched_repr (put_flat w q k) Q = sched_repr k Q" "sched_repr (upd_task t (\<lambda>s. s\<lparr>task_waitq := v\<rparr>) k) Q = sched_repr k Q"
    by (auto intro: sched_repr_frame simp: put_flat_def)
  show "sched_inv (put_flat w q k) Q = sched_inv k Q" "live (put_flat w q k) Q = live k Q" using c r by (simp_all add: sched_inv_def live_def)
  show "sched_inv (upd_task t (\<lambda>s. s\<lparr>task_waitq := v\<rparr>) k) Q = sched_inv k Q" "live (upd_task t (\<lambda>s. s\<lparr>task_waitq := v\<rparr>) k) Q = live k Q"
    using r by (simp_all add: sched_inv_def live_def)
qed

lemma wait_block:
  fixes k :: "'a wkernel_scheme"
  assumes pf: "pf_quiet pf" "pf_waitless pf" and inv: "sched_inv k Q" and cur: "current_task k this = Some t"
    and isr: "\<not> pc_handling_isr (k_cpu k this)" and ne: "\<not> (\<forall>p. Q (cpu_to_queue_id cfg this) p = [])"
    and wt: "waiting p w k xs" "t \<notin> set xs" "fm_list (wk_mem k) t = lq_null" "queue_priority r k t = p"
  shows "\<exists>k' Q' u. sched_yield_wait_and_unlock cfg pf others this w r False 0 k = Some k' \<and> sched_inv k' Q' \<and>
     live k' Q' = live k Q - {t} \<and> waiting p w k' (xs @ [t]) \<and> u \<in> queued Q \<and> switched k this t u k'"
proof -
  let ?arg = "\<lparr>yw_waitq = w, yw_locked = True, yw_insert_real = r, yw_timeout = False, yw_ticks = 0\<rparr>"
  let ?k = "set_preempted_early False t (set_yield_request False t (sched_timer_disable pf k))"
  note same = same_schedD [OF timer_same(1) [OF pf(1)], of k]
  have inv': "sched_inv ?k Q" using inv same(7) by simp
  then have r': "sched_repr ?k Q" by (simp add: sched_inv_def)
  obtain u kp where u: "sched_pop_clean_spin cfg (\<lambda>k. k) this ?k = Some (u, kp)" "sched_pop_clean_spin cfg others this ?k = Some (u, kp)"
    "takes cfg ?k Q (cpu_to_queue_id cfg this) u" "sched_repr kp (deq u Q)" "k_task kp = k_task ?k" "k_cpu kp = k_cpu ?k"
    using sched_pop_clean_spin_takes [OF r' ne, of others] sched_pop_clean_spin_takes [OF r' ne, of "\<lambda>k. k"] by auto
  have uq: "u \<in> queued Q" using takes_queued [OF u(3)] by (auto simp: queued_iff)
  have cur': "current_task ?k this = Some t" using cur same(5) by simp
  obtain k2 where k2: "sched_switch_ctx cfg pf this u False kp = Some k2" "sched_inv k2 (deq u Q)" "live k2 (deq u Q) = live ?k Q - {t}"
    "switched ?k this t u k2"
    using sched_switch_away [OF pf(1) inv' cur' u(4-6) uq, of cfg] by blast
  have "same_wait ?k k" by (simp add: same_wait_timer [OF pf(2)])
  then have s: "same_wait k2 k" using same_wait_spin [OF u(1)] same_wait_switch [OF pf(2) k2(1)] by (blast intro: same_wait_trans same_wait_refl)
  obtain k3 where k3: "do_waitq_insert w t r k2 = Some k3"
    using do_waitq_insert_waiting [of p w k2 xs t r] wt waiting_same [OF s] same_waitD [OF s] by auto
  then obtain q where k3': "k3 = upd_task t (\<lambda>t. t\<lparr>task_waitq := Some w\<rparr>) (put_flat w q k2)" by (auto simp: do_waitq_insert_def)
  let ?k4 = "if sched_is_timer_pending pf k3 then set_preempted_early True u k3 else k3"
  let ?k' = "sched_timer_enable pf this ?k4"
  note same' = same_schedD [OF timer_same(2) [OF pf(1)], of this ?k4]
  have e: "sched_yield_wait_ipi cfg pf (\<lambda>k. k) this ?arg k = Some ?k'" "sched_yield_wait_ipi cfg pf others this ?arg k = Some ?k'"
    using cur u(1,2) k2(1) k3 by (simp_all add: sched_yield_wait_ipi_def Let_def)
  have "queue_becomes p w (xs @ [t]) (insert t (set xs)) k ?k'"
    using sched_yield_wait_waiting [OF e(1) cur pf(2), of p xs] wt by simp
  moreover have "sched_inv ?k' (deq u Q)" "live ?k' (deq u Q) = live k Q - {t}"
    using k2(2,3) same'(7,8) same(8) k3' by auto
  moreover have "k_cpu (put_flat w q k2) = k_cpu k2" "k_task (put_flat w q k2) = k_task k2" "current_task (put_flat w q k2) = current_task k2"
    by (simp_all add: put_flat_def current_task_def fun_eq_iff)
  then have "switched k this t u ?k'" using k2(4) same(1,4,5) same'(1,4,5) k3' by (auto simp: switched_def)
  ultimately show ?thesis using e(2) isr uq
    by (intro exI [of _ ?k'] exI [of _ "deq u Q"] exI [of _ u]) (simp add: sched_yield_wait_and_unlock_def queue_becomes_def)
qed

text \<open>C7: Blocking without a time-out, on a queue that was initialised statically and whose tasks all wait with the priority \<open>p\<close> of the one
  that blocks, succeeds on a CPU with another ready task, outside interrupt handlers: that task runs, and the one that blocked has left the
  scheduler, with its context saved, for the end of the wait queue.\<close>

theorem wait_block_spec:
  fixes k :: "'a wkernel_scheme"
  assumes pf: "pf_quiet pf" "pf_waitless pf" and inv: "sched_inv k Q" and cur: "current_task k this = Some t"
    and isr: "\<not> pc_handling_isr (k_cpu k this)" and ne: "\<not> (\<forall>p. Q (cpu_to_queue_id cfg this) p = [])"
    and wt: "waiting p w k xs" "t \<notin> set xs" "fm_list (wk_mem k) t = lq_null" "queue_priority r k t = p"
  shows "\<exists>k' Q' u. sched_yield_wait_and_unlock cfg pf others this w r False 0 k = Some k' \<and> sched_inv k' Q' \<and>
     live k' Q' = live k Q - {t} \<and> waiting p w k' (xs @ [t]) \<and> u \<in> queued Q \<and> switched k this t u k'"
  by (rule wait_block [OF assms])

text \<open>Waking makes the task that has waited longest ready, at the end of the run queue of its priority, and leaves the others waiting;
  with nobody waiting it changes nothing.\<close>

lemma timeout_dequeue_sched:
  assumes "timeout_dequeue_task t k = (d, k1)"
  shows "k_task k1 = k_task k" "sched_inv k1 Q = sched_inv k Q" "live k1 Q = live k Q"
proof -
  have f: "k_task (put_timeout_chain c k) = k_task k" "k_node (put_timeout_chain c k) = k_node k" "k_queue (put_timeout_chain c k) = k_queue k"
    "current_task (put_timeout_chain c k) = current_task k" for c
    by (simp_all add: put_timeout_chain_def current_task_def fun_eq_iff)
  have "sched_repr (put_timeout_chain c k) Q = sched_repr k Q" for c by (auto intro: sched_repr_frame simp: f)
  then show "k_task k1 = k_task k" "sched_inv k1 Q = sched_inv k Q" "live k1 Q = live k Q"
    using assms by (auto simp: timeout_dequeue_task_def gp_timeout_dequeue_task_def sched_inv_def live_def f split: if_splits)
qed

lemma waitq_ready_sched:
  assumes "sched_inv k Q" and "t \<notin> live k Q"
  shows "\<exists>Q'. sched_inv (waitq_ready cfg t k) Q' \<and> live (waitq_ready cfg t k) Q' = insert t (live k Q) \<and>
    Q' = enq (cpu_to_queue_id cfg (task_queue_id (k_task k t))) (task_priority (k_task k t)) t Q"
proof -
  obtain d k1 where d: "timeout_dequeue_task t k = (d, k1)" by fastforce
  note k1 = timeout_dequeue_sched [OF d]
  let ?k = "if d then set_timed_out False t k1 else k1"
  have "sched_repr (set_timed_out False t k1) Q = sched_repr k1 Q" by (auto intro: sched_repr_frame)
  then have inv: "sched_inv ?k Q" "live ?k Q = live k Q" using k1 assms(1) by (auto simp: sched_inv_def live_def)
  obtain Q' where Q': "sched_inv (sched_push cfg t ?k) Q'" "queued Q' = insert t (queued Q)"
    "Q' = enq (cpu_to_queue_id cfg (task_queue_id (k_task ?k t))) (task_priority (k_task ?k t)) t Q"
    using sched_push_inv [OF inv(1), of t cfg] assms(2) inv(2) by auto
  moreover have "waitq_ready cfg t k = sched_push cfg t ?k" by (simp add: waitq_ready_def d)
  moreover have "live (sched_push cfg t ?k) Q' = insert t (live ?k Q)" using Q'(2) by (auto simp: live_def)
  ultimately show ?thesis using inv(2) k1(1) by auto
qed

theorem waitq_wakeup_spec:
  assumes "waiting p w k xs" and "sched_inv k Q" and "set xs \<inter> live k Q = {}"
  shows "\<exists>k'. waitq_wakeup_front cfg w k = Some (first_or xs None, k') \<and> waiting p w k' (tl xs) \<and>
    (case xs of
       [] \<Rightarrow> sched_inv k' Q \<and> live k' Q = live k Q
     | t # _ \<Rightarrow> \<exists>Q'. sched_inv k' Q' \<and> live k' Q' = insert t (live k Q) \<and>
         Q' = enq (cpu_to_queue_id cfg (task_queue_id (k_task k t))) (task_priority (k_task k t)) t Q)"
proof (cases xs)
  case Nil
  then show ?thesis using waitq_wakeup_front_none(1) [of p w k cfg] waitq_wakeup_front_none(2) [of p w k] assms by (auto simp: queue_becomes_def)
next
  case (Cons t ts)
  obtain q where q: "flat_priorityq_popfront (flat_of w k) = Some (Some t, q)" "flat_repr p q ts"
    using flat_popfront_repr [of p "flat_of w k" t ts] assms(1) Cons by (auto simp: waiting_def)
  let ?k = "upd_task t (\<lambda>s. s\<lparr>task_waitq := None\<rparr>) (put_flat w q k)"
  have e: "waitq_wakeup_front cfg w k = Some (Some t, waitq_ready cfg t ?k)" using q by (simp add: waitq_wakeup_front_def waitq_popfront_def)
  have "sched_inv ?k Q" "live ?k Q = live k Q" "t \<notin> live ?k Q" using assms Cons by auto
  moreover have "task_queue_id (k_task ?k t) = task_queue_id (k_task k t)" "task_priority (k_task ?k t) = task_priority (k_task k t)"
    by (simp_all add: put_flat_def)
  ultimately show ?thesis using waitq_ready_sched [of ?k Q t cfg] e q(2) Cons by (auto simp: waiting_def waitq_ready_keeps)
qed

section \<open>A queue that the initialisation function has set up\<close>

text \<open>C40: \<^verbatim>\<open>waitq_init\<close> leaves a tree with no room for a path: the first task can wait in it, the insertion of the second one follows a
  null pointer, whatever the priorities of the two.\<close>

theorem waitq_init_second_waiter:
  assumes "a \<noteq> b"
  shows "\<exists>k'. do_waitq_insert w a ra (waitq_init w k) = Some k' \<and> do_waitq_insert w b rb k' = None"
  using assms by (auto simp: do_waitq_insert_def waitq_init_def flat_of_def put_flat_def upd_task_def flat_insert_first
      flat_priorityq_insert_def on_tree_def avl_insert_def tn_upd_def)

section \<open>Witnesses\<close>

text \<open>Task 1 runs on CPU 0, the tasks 2 and 3 are ready there, and nobody waits.\<close>

definition wrunning :: wkernel where
  "wrunning = kernel.extend running
     (wkernel.fields \<lparr>fm_tree = (\<lambda>_. tn_null), fm_list = (\<lambda>_. lq_null)\<rparr> (\<lambda>_. INITIALIZE_FLAT_PRIORITYQ)
       (\<lambda>_. \<lparr>ld_next = None, ld_prev = None\<rparr>) (\<lambda>_. 0) empty_dq empty_dq True True)"

definition wnull_platform :: "wkernel platform" where
  "wnull_platform = \<lparr>pf_call = (\<lambda>_ k. k), pf_lapic_timer_init = (\<lambda>_ _ k. (0, k)),
     pf_lapic_timer_disable = (\<lambda>k. k), pf_lapic_timer_enable = (\<lambda>_ k. k),
     pf_is_lapic_timer_pending = (\<lambda>_ _. False), pf_tv_vdisarm_timern = (\<lambda>_ k. k),
     pf_tv_varm_timern = (\<lambda>_ _ _ _ _ k. (0, k)), pf_tv_vintc_is_pending = (\<lambda>_ _. False),
     pf_rtalloc_p2aligned = (\<lambda>_ _ k. (0x10000, k)), pf_rtfree = (\<lambda>_ k. k), pf_task_at = unat\<rparr>"

lemma wnull_platform_quiet: "pf_quiet wnull_platform" "pf_waitless wnull_platform"
  by (simp_all add: pf_quiet_def pf_waitless_def wnull_platform_def)

lemma wrunning_fields:
  "k_task wrunning = k_task running" "k_node wrunning = k_node running" "k_queue wrunning = k_queue running" "k_cpu wrunning = k_cpu running"
  "current_task wrunning = current_task running" "wk_mem wrunning = \<lparr>fm_tree = (\<lambda>_. tn_null), fm_list = (\<lambda>_. lq_null)\<rparr>"
  "wk_waitq wrunning w = INITIALIZE_FLAT_PRIORITYQ"
  by (simp_all add: wrunning_def kernel.extend_def wkernel.fields_def current_task_def fun_eq_iff)

lemma wrunning_inv: "sched_inv wrunning two_lists" "live wrunning two_lists = {1, 2, 3}"
proof -
  have "sched_repr wrunning two_lists = sched_repr running two_lists"
    by (simp add: sched_repr_def bin_lists_def [abs_def] admitted_def wrunning_fields)
  then show "sched_inv wrunning two_lists" using running_inv by (simp add: sched_inv_def wrunning_fields)
  show "live wrunning two_lists = {1, 2, 3}" using running_live by (simp add: live_def wrunning_fields)
qed

lemma wrunning_waiting: "waiting p w wrunning []"
  by (simp add: waiting_def flat_of_def flat_repr_def wrunning_fields INITIALIZE_FLAT_PRIORITYQ_def max_path_256)

lemma wrunning_priority: "queue_priority False wrunning t = of_nat t" "pc_handling_isr (k_cpu wrunning c) = False"
  by (simp_all add: queue_priority_def wrunning_fields running_def two_tasks_fields set_current_task_def)
    (simp add: two_tasks_def boot_kernel_def boot_cpu_def sched_do_push_def)

lemma wrunning_ready:
  "\<not> (\<forall>p. two_lists (cpu_to_queue_id default_config 0) p = [])"
  "current_task wrunning 0 = Some 1" "\<not> pc_handling_isr (k_cpu wrunning 0)" "1 \<notin> set ([] :: task_ptr list)"
  "fm_list (wk_mem wrunning) 1 = lq_null" "queue_priority False wrunning 1 = 1"
  by (auto simp: enq_def default_config_def cpu_to_queue_id_def wrunning_fields(5,6) running_current wrunning_priority intro!: exI [of _ 3])

lemma wrunning_block: "\<exists>k. sched_yield_wait_and_unlock default_config wnull_platform (\<lambda>k. k) 0 w False False 0 wrunning = Some k"
  using wait_block [OF wnull_platform_quiet wrunning_inv(1) wrunning_ready(2,3,1) wrunning_waiting wrunning_ready(4-6),
      where w = w and others = "\<lambda>k. k"] by blast

theorem wait_block_spec_witness:
  "\<exists>k' Q' u. sched_yield_wait_and_unlock default_config wnull_platform (\<lambda>k. k) 0 0 False False 0 wrunning = Some k' \<and>
     live k' Q' = {2, 3} \<and> waiting 1 0 k' [1] \<and> u \<in> {2, 3} \<and> current_task k' 0 = Some u"
proof -
  obtain k' Q' u where "sched_yield_wait_and_unlock default_config wnull_platform (\<lambda>k. k) 0 0 False False 0 wrunning = Some k'"
    "live k' Q' = live wrunning two_lists - {1}" "waiting 1 0 k' ([] @ [1])" "u \<in> queued two_lists" "switched wrunning 0 1 u k'"
    using wait_block_spec [OF wnull_platform_quiet wrunning_inv(1) wrunning_ready(2,3,1) wrunning_waiting wrunning_ready(4-6), where w = 0 and others = "\<lambda>k. k"] by blast
  then show ?thesis using wrunning_inv(2)
    by (intro exI [of _ k'] exI [of _ Q'] exI [of _ u]) (auto simp: switched_def queued_iff set_enq no_tasks_def split: if_splits)
qed

text \<open>Task 4 waits and is woken.\<close>

theorem waitq_wakeup_spec_witness:
  "\<exists>k1 k2 Q. do_waitq_insert 0 4 False wrunning = Some k1 \<and> waitq_wakeup_front default_config 0 k1 = Some (Some 4, k2) \<and>
     waiting 4 0 k2 [] \<and> live k2 Q = {1, 2, 3, 4}"
proof -
  obtain k1 where k1: "do_waitq_insert 0 4 False wrunning = Some k1" "waiting 4 0 k1 ([] @ [4])"
    using do_waitq_insert_waiting [OF wrunning_waiting [of 4 0], of 4 False] by (auto simp: wrunning_priority wrunning_fields)
  then obtain q where "k1 = upd_task 4 (\<lambda>t. t\<lparr>task_waitq := Some 0\<rparr>) (put_flat 0 q wrunning)" by (auto simp: do_waitq_insert_def)
  then have "sched_inv k1 two_lists" "live k1 two_lists = {1, 2, 3}" using wrunning_inv by simp_all
  then show ?thesis using waitq_wakeup_spec [of 4 0 k1 "[4]" two_lists default_config] k1 by auto
qed

theorem waitq_init_second_waiter_witness:
  "\<exists>k'. do_waitq_insert 0 4 False (waitq_init 0 wrunning) = Some k' \<and> do_waitq_insert 0 5 False k' = None"
  by (rule waitq_init_second_waiter) simp

end
