(* ===== verification/Twan_Semaphore.thy ===== *)
theory Twan_Semaphore
  imports Twan_Waitq
begin

text \<open>
  The counting semaphore of \<open>src/subsys/sync/semaphore.c\<close>. Its tasks are the agents of a transition system: a transition is a pass of
  the loop that waits, with the wait queue locked, one of the two steps of releasing, or anything else that the kernel does and that
  leaves the wait queues alone. For tasks of one priority no token is lost and no wake-up is lost.
\<close>

section \<open>Definitions\<close>

record semaphore =
  sem_count :: u64
  sem_waitq :: waitq_ptr

definition semaphore_init :: "u64 \<Rightarrow> semaphore \<times> 'a wkernel_scheme \<Rightarrow> semaphore \<times> 'a wkernel_scheme" where
  "semaphore_init count = (\<lambda>(sem, k). (sem\<lparr>sem_count := count\<rparr>, waitq_init (sem_waitq sem) k))"

definition INITIALIZE_SEMAPHORE :: "u64 \<Rightarrow> semaphore \<times> 'a wkernel_scheme \<Rightarrow> semaphore \<times> 'a wkernel_scheme" where
  "INITIALIZE_SEMAPHORE count = (\<lambda>(sem, k). (sem\<lparr>sem_count := count\<rparr>, INITIALIZE_WAITQ (sem_waitq sem) k))"

definition semaphore_try_down :: "semaphore \<times> 'a wkernel_scheme \<Rightarrow> (bool \<times> semaphore \<times> 'a wkernel_scheme) option" where
  "semaphore_try_down = (\<lambda>(sem, k).
     if sem_count sem > 0 then Some (True, sem\<lparr>sem_count := sem_count sem - 1\<rparr>, k) else Some (False, sem, k))"

text \<open>A pass of \<^verbatim>\<open>semaphore_down\<close>, or with \<open>insert_real\<close> of \<^verbatim>\<open>semaphore_down_insert_real\<close>, and of their variants with a time-out.\<close>

definition semaphore_down ::
  "kconfig \<Rightarrow> 'a wkernel_scheme platform \<Rightarrow> ('a wkernel_scheme \<Rightarrow> 'a wkernel_scheme) \<Rightarrow> u32 \<Rightarrow> bool
     \<Rightarrow> semaphore \<times> 'a wkernel_scheme \<Rightarrow> (bool \<times> semaphore \<times> 'a wkernel_scheme) option" where
  "semaphore_down cfg pf others this insert_real s =
     waitq_task_wait_until cfg pf others this (sem_waitq (fst s)) insert_real semaphore_try_down s"

definition semaphore_down_timeout ::
  "kconfig \<Rightarrow> 'a wkernel_scheme platform \<Rightarrow> ('a wkernel_scheme \<Rightarrow> 'a wkernel_scheme) \<Rightarrow> u32 \<Rightarrow> bool \<Rightarrow> u32 \<Rightarrow> nat
     \<Rightarrow> semaphore \<times> 'a wkernel_scheme \<Rightarrow> (bool option \<times> semaphore \<times> 'a wkernel_scheme) option" where
  "semaphore_down_timeout cfg pf others this insert_real ticks i s =
     waitq_task_wait_until_timeout cfg pf others this (sem_waitq (fst s)) insert_real ticks semaphore_try_down i s"

text \<open>The two steps of releasing: the count is not protected by the lock of the queue.\<close>

definition semaphore_inc :: "semaphore \<Rightarrow> semaphore option" where
  "semaphore_inc sem = (if sem_count sem < - 1 then Some (sem\<lparr>sem_count := sem_count sem + 1\<rparr>) else None)"

definition semaphore_wake ::
  "kconfig \<Rightarrow> semaphore \<times> 'a wkernel_scheme \<Rightarrow> (task_ptr option \<times> semaphore \<times> 'a wkernel_scheme) option" where
  "semaphore_wake cfg = (\<lambda>(sem, k). map_option (\<lambda>(t, k). (t, sem, k)) (waitq_wakeup_front cfg (sem_waitq sem) k))"

definition semaphore_up :: "kconfig \<Rightarrow> semaphore \<times> 'a wkernel_scheme \<Rightarrow> (semaphore \<times> 'a wkernel_scheme) option" where
  "semaphore_up cfg = (\<lambda>(sem, k). Option.bind (semaphore_inc sem) (\<lambda>sem. map_option snd (semaphore_wake cfg (sem, k))))"

section \<open>Executions\<close>

text \<open>Where a task is: outside, blocked, woken and not yet back, or between the two steps of releasing.\<close>

datatype sem_pc = SEM_OUT | SEM_WAIT | SEM_RETRY | SEM_UP

record 'k sem_state =
  sm_sem :: semaphore
  sm_k :: 'k
  sm_pc :: "task_ptr \<Rightarrow> sem_pc"
  sm_ups :: nat
  sm_downs :: nat

abbreviation sm :: "'k sem_state \<Rightarrow> semaphore \<times> 'k" where
  "sm s \<equiv> (sm_sem s, sm_k s)"

definition sm_moved :: "semaphore \<times> 'k \<Rightarrow> task_ptr \<Rightarrow> sem_pc \<Rightarrow> 'k sem_state \<Rightarrow> 'k sem_state" where
  "sm_moved sk t pc s = s\<lparr>sm_sem := fst sk, sm_k := snd sk, sm_pc := (sm_pc s)(t := pc)\<rparr>"

abbreviation sm_taken :: "'k sem_state \<Rightarrow> 'k sem_state" where
  "sm_taken s \<equiv> s\<lparr>sm_downs := Suc (sm_downs s)\<rparr>"

text \<open>\<open>T\<close> are the tasks that use the semaphore, \<open>r\<close> says by which of their priorities they are queued. A task whose time runs out
  leaves the queue; \<open>other\<close> is any other step of the kernel.\<close>

inductive sem_trans ::
  "kconfig \<Rightarrow> 'a wkernel_scheme platform \<Rightarrow> bool \<Rightarrow> task_ptr set \<Rightarrow> 'a wkernel_scheme sem_state \<Rightarrow> 'a wkernel_scheme sem_state \<Rightarrow> bool"
  for cfg pf r T where
  down_taken: "t \<in> T \<Longrightarrow> current_task (sm_k s) this = Some t \<Longrightarrow> sm_pc s t \<in> {SEM_OUT, SEM_RETRY} \<Longrightarrow>
    semaphore_down cfg pf others this r (sm s) = Some (True, sk) \<Longrightarrow> sem_trans cfg pf r T s (sm_taken (sm_moved sk t SEM_OUT s))"
| down_blocked: "t \<in> T \<Longrightarrow> current_task (sm_k s) this = Some t \<Longrightarrow> sm_pc s t \<in> {SEM_OUT, SEM_RETRY} \<Longrightarrow> (\<And>k. same_wait (others k) k) \<Longrightarrow>
    semaphore_down cfg pf others this r (sm s) = Some (False, sk) \<Longrightarrow> sem_trans cfg pf r T s (sm_moved sk t SEM_WAIT s)"
| timed_taken: "t \<in> T \<Longrightarrow> current_task (sm_k s) this = Some t \<Longrightarrow> sm_pc s t = (if i = 0 then SEM_OUT else SEM_RETRY) \<Longrightarrow>
    semaphore_down_timeout cfg pf others this r ticks i (sm s) = Some (Some True, sk) \<Longrightarrow>
    sem_trans cfg pf r T s (sm_taken (sm_moved sk t SEM_OUT s))"
| timed_failed: "t \<in> T \<Longrightarrow> current_task (sm_k s) this = Some t \<Longrightarrow> sm_pc s t = (if i = 0 then SEM_OUT else SEM_RETRY) \<Longrightarrow>
    semaphore_down_timeout cfg pf others this r ticks i (sm s) = Some (Some False, sk) \<Longrightarrow> sem_trans cfg pf r T s (sm_moved sk t SEM_OUT s)"
| timed_blocked: "t \<in> T \<Longrightarrow> current_task (sm_k s) this = Some t \<Longrightarrow> sm_pc s t = (if i = 0 then SEM_OUT else SEM_RETRY) \<Longrightarrow>
    (\<And>k. same_wait (others k) k) \<Longrightarrow> semaphore_down_timeout cfg pf others this r ticks i (sm s) = Some (None, sk) \<Longrightarrow>
    sem_trans cfg pf r T s (sm_moved sk t SEM_WAIT s)"
| try_taken: "t \<in> T \<Longrightarrow> sm_pc s t = SEM_OUT \<Longrightarrow> semaphore_try_down (sm s) = Some (True, sk) \<Longrightarrow>
    sem_trans cfg pf r T s (sm_taken (sm_moved sk t SEM_OUT s))"
| up_inc: "t \<in> T \<Longrightarrow> sm_pc s t = SEM_OUT \<Longrightarrow> semaphore_inc (sm_sem s) = Some sem \<Longrightarrow>
    sem_trans cfg pf r T s ((sm_moved (sem, sm_k s) t SEM_UP s)\<lparr>sm_ups := Suc (sm_ups s)\<rparr>)"
| up_none: "t \<in> T \<Longrightarrow> sm_pc s t = SEM_UP \<Longrightarrow> semaphore_wake cfg (sm s) = Some (None, sk) \<Longrightarrow> sem_trans cfg pf r T s (sm_moved sk t SEM_OUT s)"
| up_wake: "t \<in> T \<Longrightarrow> sm_pc s t = SEM_UP \<Longrightarrow> semaphore_wake cfg (sm s) = Some (Some u, sk) \<Longrightarrow>
    sem_trans cfg pf r T s (sm_moved sk u SEM_RETRY (sm_moved sk t SEM_OUT s))"
| expire: "t \<in> T \<Longrightarrow> sm_pc s t = SEM_WAIT \<Longrightarrow> task_waitq (k_task (sm_k s) t) = Some (sem_waitq (sm_sem s)) \<Longrightarrow>
    timeout_task_dequeue_from_waitq cfg t True (sm_k s) = Some k \<Longrightarrow> sem_trans cfg pf r T s (sm_moved (sm_sem s, k) t SEM_OUT s)"
| other: "same_wait k (sm_k s) \<Longrightarrow> sem_trans cfg pf r T s (s\<lparr>sm_k := k\<rparr>)"

text \<open>The start of an execution: nobody waits in the queue, which has room for paths; all tasks wait with one priority \<open>p\<close>, which is
  the real or the current one by \<open>r\<close>.\<close>

definition sem_initial :: "u8 \<Rightarrow> bool \<Rightarrow> task_ptr set \<Rightarrow> nat \<Rightarrow> 'a wkernel_scheme sem_state \<Rightarrow> bool" where
  "sem_initial p r T n s \<longleftrightarrow> waiting p (sem_waitq (sm_sem s)) (sm_k s) [] \<and> (\<forall>t \<in> T. fm_list (wk_mem (sm_k s)) t = lq_null) \<and>
     (\<forall>t \<in> T. queue_priority r (sm_k s) t = p) \<and> unat (sem_count (sm_sem s)) = n \<and> sm_ups s = 0 \<and> sm_downs s = 0 \<and> (\<forall>t. sm_pc s t = SEM_OUT)"

lemma initialized_sem:
  assumes "INITIALIZE_SEMAPHORE count (sem, k) = (sem', k')" and "\<forall>t \<in> T. fm_list (wk_mem k) t = lq_null" and "\<forall>t \<in> T. queue_priority r k t = p"
  shows "sem_initial p r T (unat count) \<lparr>sm_sem = sem', sm_k = k', sm_pc = (\<lambda>_. SEM_OUT), sm_ups = 0, sm_downs = 0\<rparr>"
proof -
  have k: "sem' = sem\<lparr>sem_count := count\<rparr>" "k' = INITIALIZE_WAITQ (sem_waitq sem) k" using assms(1) by (auto simp: INITIALIZE_SEMAPHORE_def)
  have "queue_priority r k' t = queue_priority r k t" "wk_mem k' = wk_mem k" for t by (simp_all add: k queue_priority_def INITIALIZE_WAITQ_def)
  then show ?thesis using assms(2,3) initialized_waiting(1) [of p "sem_waitq sem" k] k by (simp add: sem_initial_def)
qed

section \<open>The invariant\<close>

definition sem_coming :: "task_ptr set \<Rightarrow> 'k sem_state \<Rightarrow> task_ptr set" where
  "sem_coming T s = {t \<in> T. sm_pc s t \<in> {SEM_RETRY, SEM_UP}}"

definition sem_tasks :: "u8 \<Rightarrow> bool \<Rightarrow> task_ptr set \<Rightarrow> 'a wkernel_scheme sem_state \<Rightarrow> task_ptr list \<Rightarrow> bool" where
  "sem_tasks p r T s xs \<longleftrightarrow> waiting p (sem_waitq (sm_sem s)) (sm_k s) xs \<and> set xs = {t \<in> T. sm_pc s t = SEM_WAIT} \<and>
     (\<forall>t \<in> T - set xs. fm_list (wk_mem (sm_k s)) t = lq_null) \<and> (\<forall>t \<in> T. queue_priority r (sm_k s) t = p)"

definition sem_inv :: "u8 \<Rightarrow> bool \<Rightarrow> task_ptr set \<Rightarrow> nat \<Rightarrow> 'a wkernel_scheme sem_state \<Rightarrow> task_ptr list \<Rightarrow> bool" where
  "sem_inv p r T n s xs \<longleftrightarrow> sem_tasks p r T s xs \<and> unat (sem_count (sm_sem s)) + sm_downs s = n + sm_ups s \<and>
     (xs \<noteq> [] \<longrightarrow> unat (sem_count (sm_sem s)) \<le> card (sem_coming T s))"

lemma waiting_distinct: "waiting p w k xs \<Longrightarrow> distinct xs"
  unfolding waiting_def by (rule flat.repr_distinct)

lemma try_down_cases:
  assumes "semaphore_try_down (sem, k) = Some (b, sk)"
  shows "b \<Longrightarrow> 0 < sem_count sem \<and> sk = (sem\<lparr>sem_count := sem_count sem - 1\<rparr>, k)" "\<not> b \<Longrightarrow> sem_count sem = 0 \<and> sk = (sem, k)"
  using assms by (auto simp: semaphore_try_down_def word_gt_0 split: if_splits)

text \<open>A pass takes a token and changes nothing else, or finds none; then the task has blocked or given up.\<close>

lemma semaphore_down_cases:
  assumes "semaphore_down cfg pf others this r (sem, k) = Some (b, sk)"
  shows "b \<Longrightarrow> semaphore_try_down (sem, k) = Some (True, sk)"
    and "\<not> b \<Longrightarrow> \<exists>k'. sem_count sem = 0 \<and> sk = (sem, k') \<and> sched_yield_wait_and_unlock cfg pf others this (sem_waitq sem) r False 0 k = Some k'"
  using assms
  by (auto simp: semaphore_down_def waitq_task_wait_until_def split: if_splits option.splits bool.splits dest!: try_down_cases)

lemma semaphore_down_timeout_cases:
  assumes "semaphore_down_timeout cfg pf others this r ticks i (sem, k) = Some (b, sk)"
  shows "b = Some True \<Longrightarrow> semaphore_try_down (sem, k) = Some (True, sk)" and "b = Some False \<Longrightarrow> sem_count sem = 0 \<and> sk = (sem, k)"
    and "b = None \<Longrightarrow> \<exists>k'. sem_count sem = 0 \<and> sk = (sem, k') \<and>
      sched_yield_wait_and_unlock cfg pf others this (sem_waitq sem) r True (ucast ticks) k = Some k'"
  using assms
  by (auto simp: semaphore_down_timeout_def waitq_task_wait_until_timeout_def split: if_splits option.splits bool.splits dest!: try_down_cases)

section \<open>The invariant is kept\<close>

lemma sm_moved_simps [simp]:
  "sm_sem (sm_moved sk t pc s) = fst sk" "sm_k (sm_moved sk t pc s) = snd sk" "sm_pc (sm_moved sk t pc s) = (sm_pc s)(t := pc)"
  "sm_ups (sm_moved sk t pc s) = sm_ups s" "sm_downs (sm_moved sk t pc s) = sm_downs s"
  by (simp_all add: sm_moved_def)

lemma sem_coming_simps [simp]:
  "sem_coming T (s\<lparr>sm_downs := n\<rparr>) = sem_coming T s" "sem_coming T (s\<lparr>sm_ups := n\<rparr>) = sem_coming T s" "sem_coming T (s\<lparr>sm_k := k\<rparr>) = sem_coming T s"
  "t \<in> T \<Longrightarrow> sem_coming T (sm_moved sk t pc s) = (if pc \<in> {SEM_RETRY, SEM_UP} then insert t (sem_coming T s) else sem_coming T s - {t})"
  by (auto simp: sem_coming_def)

text \<open>A token is taken: at most one task that was on its way has arrived.\<close>

lemma sem_inv_taken:
  assumes inv: "sem_inv p r T n s xs" and "finite T" and t: "t \<in> T" "sm_pc s t \<noteq> SEM_WAIT"
    and sk: "semaphore_try_down (sm s) = Some (True, sk)"
  shows "sem_inv p r T n (sm_taken (sm_moved sk t SEM_OUT s)) xs"
proof -
  have c: "0 < sem_count (sm_sem s)" "sk = ((sm_sem s)\<lparr>sem_count := sem_count (sm_sem s) - 1\<rparr>, sm_k s)"
    using try_down_cases(1) [OF sk] by auto
  have pos: "0 < unat (sem_count (sm_sem s))" using c(1) by (simp add: unat_gt_0)
  then have u: "unat (sem_count (sm_sem s) - 1) = unat (sem_count (sm_sem s)) - 1" by (simp add: unat_sub_if')
  have "card (sem_coming T s) - 1 \<le> card (sem_coming T s - {t})" by (simp add: card_Diff_singleton_if)
  then show ?thesis using inv t c(2) u pos by (auto simp: sem_inv_def sem_tasks_def)
qed

text \<open>A task has blocked: there is no token.\<close>

lemma sem_inv_blocked:
  assumes inv: "sem_inv p r T n s xs" and t: "t \<in> T" "sm_pc s t \<noteq> SEM_WAIT" and c: "sem_count (sm_sem s) = 0"
    and b: "queue_becomes p (sem_waitq (sm_sem s)) (xs @ [t]) (insert t (set xs)) (sm_k s) k'"
  shows "sem_inv p r T n (sm_moved (sm_sem s, k') t SEM_WAIT s) (xs @ [t])"
  using inv t c b by (auto simp: sem_inv_def sem_tasks_def queue_becomes_def)

lemma sem_yield_blocked:
  assumes "sem_inv p r T n s xs" and "t \<in> T" and "sm_pc s t \<noteq> SEM_WAIT" and "current_task (sm_k s) this = Some t" and "pf_waitless pf"
    and "\<And>k. same_wait (others k) k"
    and "sched_yield_wait_and_unlock cfg pf others this (sem_waitq (sm_sem s)) r timeout ticks (sm_k s) = Some k'"
  shows "queue_becomes p (sem_waitq (sm_sem s)) (xs @ [t]) (insert t (set xs)) (sm_k s) k'"
proof -
  let ?arg = "\<lparr>yw_waitq = sem_waitq (sm_sem s), yw_locked = True, yw_insert_real = r, yw_timeout = timeout, yw_ticks = ticks\<rparr>"
  have "sched_yield_wait_ipi cfg pf others this ?arg (sm_k s) = Some k'"
    using assms(7) by (simp add: sched_yield_wait_and_unlock_def split: if_splits)
  from sched_yield_wait_waiting [OF this assms(4-6), of p xs] show ?thesis using assms(1-3) by (auto simp: sem_inv_def sem_tasks_def)
qed

lemma sem_wake_cases:
  assumes inv: "sem_inv p r T n s xs" and w: "semaphore_wake cfg (sm s) = Some (v, sk)"
  obtains "xs = []" "v = None" "fst sk = sm_sem s" "queue_becomes p (sem_waitq (sm_sem s)) [] {} (sm_k s) (snd sk)"
  | u ys where "xs = u # ys" "v = Some u" "fst sk = sm_sem s" "queue_becomes p (sem_waitq (sm_sem s)) ys (set xs) (sm_k s) (snd sk)"
proof (cases xs)
  case Nil
  then have "waiting p (sem_waitq (sm_sem s)) (sm_k s) []" using inv by (simp add: sem_inv_def sem_tasks_def)
  note this [THEN waitq_wakeup_front_none(1), of cfg] this [THEN waitq_wakeup_front_none(2)]
  then show ?thesis using that(1) Nil w by (auto simp: semaphore_wake_def)
next
  case (Cons u ys)
  then have "waiting p (sem_waitq (sm_sem s)) (sm_k s) (u # ys)" using inv by (simp add: sem_inv_def sem_tasks_def)
  from waitq_wakeup_front_waiting [OF this, of cfg] show ?thesis using that(2) Cons w by (auto simp: semaphore_wake_def)
qed

lemma sem_inv_woken:
  assumes inv: "sem_inv p r T n s (u # ys)" and fin: "finite T" and t: "t \<in> T" "sm_pc s t = SEM_UP" and e: "fst sk = sm_sem s"
    and b: "queue_becomes p (sem_waitq (sm_sem s)) ys (set (u # ys)) (sm_k s) (snd sk)"
  shows "sem_inv p r T n (sm_moved sk u SEM_RETRY (sm_moved sk t SEM_OUT s)) ys"
proof -
  have d: "distinct (u # ys)" using inv waiting_distinct by (simp only: sem_inv_def sem_tasks_def) blast
  have s: "set (u # ys) = {t \<in> T. sm_pc s t = SEM_WAIT}" using inv by (simp add: sem_inv_def sem_tasks_def)
  then have u: "u \<in> T" "sm_pc s u = SEM_WAIT" by auto
  then have "u \<notin> sem_coming T s" "t \<in> sem_coming T s" "u \<noteq> t" using t by (auto simp: sem_coming_def)
  moreover have "finite (sem_coming T s)" using fin by (simp add: sem_coming_def)
  ultimately have c: "card (insert u (sem_coming T s - {t})) = card (sem_coming T s)"
    using card_Suc_Diff1 [of "sem_coming T s" t] by (simp add: card_insert_if)
  have "set ys = {x \<in> T. ((sm_pc s)(t := SEM_OUT, u := SEM_RETRY)) x = SEM_WAIT}" using s d t u by auto
  moreover have l: "fm_list (wk_mem (snd sk)) x = lq_null" if "x \<in> T - set ys" for x
    using that inv b by (cases "x \<in> set (u # ys)") (simp_all add: sem_inv_def sem_tasks_def queue_becomes_def)
  moreover have "waiting p (sem_waitq (sm_sem s)) (snd sk) ys" "\<forall>x \<in> T. queue_priority r (snd sk) x = p"
    using inv b by (simp_all add: sem_inv_def sem_tasks_def queue_becomes_def)
  ultimately have "sem_tasks p r T (sm_moved sk u SEM_RETRY (sm_moved sk t SEM_OUT s)) ys" using e by (simp add: sem_tasks_def)
  then show ?thesis using inv t(1) u(1) e c by (simp add: sem_inv_def)
qed

lemma sem_inv_inc:
  assumes inv: "sem_inv p r T n s xs" and fin: "finite T" and t: "t \<in> T" "sm_pc s t = SEM_OUT" and i: "semaphore_inc (sm_sem s) = Some sem"
  shows "sem_inv p r T n ((sm_moved (sem, sm_k s) t SEM_UP s)\<lparr>sm_ups := Suc (sm_ups s)\<rparr>) xs"
proof -
  have sem: "sem_count (sm_sem s) < - 1" "sem = (sm_sem s)\<lparr>sem_count := sem_count (sm_sem s) + 1\<rparr>"
    using i by (auto simp: semaphore_inc_def split: if_splits)
  then have "unat (sem_count (sm_sem s) + 1) = Suc (unat (sem_count (sm_sem s)))" using unatSuc [of "sem_count (sm_sem s)"] by (auto simp: add.commute add_eq_0_iff)
  moreover have "t \<notin> sem_coming T s" "finite (sem_coming T s)" using t fin by (auto simp: sem_coming_def)
  ultimately show ?thesis using inv t sem(2) by (auto simp: sem_inv_def sem_tasks_def)
qed

lemma sem_inv_expired:
  assumes inv: "sem_inv p r T n s xs" and t: "t \<in> T" "sm_pc s t = SEM_WAIT" "task_waitq (k_task (sm_k s) t) = Some (sem_waitq (sm_sem s))"
    and k: "timeout_task_dequeue_from_waitq cfg t True (sm_k s) = Some k"
  shows "\<exists>ys. sem_inv p r T n (sm_moved (sm_sem s, k) t SEM_OUT s) ys"
proof -
  have xs: "waiting p (sem_waitq (sm_sem s)) (sm_k s) xs" "set xs = {t \<in> T. sm_pc s t = SEM_WAIT}" using inv by (auto simp: sem_inv_def sem_tasks_def)
  then have d: "distinct xs" using waiting_distinct by blast
  obtain as bs where ab: "xs = as @ t # bs" using xs(2) t(1,2) split_list [of t xs] by auto
  then have b: "queue_becomes p (sem_waitq (sm_sem s)) (as @ bs) (set xs) (sm_k s) k"
    using timeout_dequeue_waiting [of p _ "sm_k s" as t bs cfg True] xs(1) t(3) k by auto
  have "t \<notin> sem_coming T s" using t by (auto simp: sem_coming_def)
  moreover have "set (as @ bs) = {x \<in> T. ((sm_pc s)(t := SEM_OUT)) x = SEM_WAIT}" using xs(2) d ab by auto
  ultimately have "sem_inv p r T n (sm_moved (sm_sem s, k) t SEM_OUT s) (as @ bs)"
    using inv t(1) b ab by (auto simp: sem_inv_def sem_tasks_def queue_becomes_def)
  then show ?thesis by blast
qed

lemma sem_inv_failed:
  "sem_inv p r T n s xs \<Longrightarrow> t \<in> T \<Longrightarrow> sm_pc s t \<noteq> SEM_WAIT \<Longrightarrow> sem_count (sm_sem s) = 0 \<Longrightarrow> sem_inv p r T n (sm_moved (sm s) t SEM_OUT s) xs"
  by (auto simp: sem_inv_def sem_tasks_def)

lemma sem_trans_inv:
  assumes "sem_trans cfg pf r T s s'" and "sem_inv p r T n s xs" and "finite T" and "pf_waitless pf"
  shows "\<exists>ys. sem_inv p r T n s' ys"
  using assms(1)
proof cases
  case (down_taken t this others sk)
  then show ?thesis using sem_inv_taken [OF assms(2,3), of t sk] semaphore_down_cases(1) by fastforce
next
  case (down_blocked t this others sk)
  then obtain k' where k': "sem_count (sm_sem s) = 0" "sk = (sm_sem s, k')"
    "sched_yield_wait_and_unlock cfg pf others this (sem_waitq (sm_sem s)) r False 0 (sm_k s) = Some k'"
    using semaphore_down_cases(2) by blast
  have t: "sm_pc s t \<noteq> SEM_WAIT" using down_blocked by auto
  show ?thesis using sem_inv_blocked [OF assms(2) down_blocked(2) t k'(1)
        sem_yield_blocked [OF assms(2) down_blocked(2) t down_blocked(3) assms(4) down_blocked(5) k'(3)]] down_blocked(1) k'(2) by auto
next
  case (timed_taken t this i others ticks sk)
  then show ?thesis using sem_inv_taken [OF assms(2,3), of t sk] semaphore_down_timeout_cases(1) by (fastforce split: if_splits)
next
  case (timed_failed t this i others ticks sk)
  then have "sm_pc s t \<noteq> SEM_WAIT" by auto
  then show ?thesis using sem_inv_failed [OF assms(2), of t] semaphore_down_timeout_cases(2) [OF timed_failed(5)] timed_failed by auto
next
  case (timed_blocked t this i others ticks sk)
  then obtain k' where k': "sem_count (sm_sem s) = 0" "sk = (sm_sem s, k')"
    "sched_yield_wait_and_unlock cfg pf others this (sem_waitq (sm_sem s)) r True (ucast ticks) (sm_k s) = Some k'"
    using semaphore_down_timeout_cases(3) by blast
  have t: "sm_pc s t \<noteq> SEM_WAIT" using timed_blocked by auto
  show ?thesis using sem_inv_blocked [OF assms(2) timed_blocked(2) t k'(1)
        sem_yield_blocked [OF assms(2) timed_blocked(2) t timed_blocked(3) assms(4) timed_blocked(5) k'(3)]] timed_blocked(1) k'(2) by auto
next
  case (try_taken t sk)
  then show ?thesis using sem_inv_taken [OF assms(2,3), of t sk] by auto
next
  case (up_inc t sem)
  then show ?thesis using sem_inv_inc [OF assms(2,3)] by blast
next
  case (up_none t sk)
  then show ?thesis using assms(2)
    by (auto elim!: sem_wake_cases [OF assms(2)] simp: sem_inv_def sem_tasks_def queue_becomes_def)
next
  case (up_wake t u sk)
  from up_wake(4) obtain ys where "xs = u # ys" "fst sk = sm_sem s" "queue_becomes p (sem_waitq (sm_sem s)) ys (set xs) (sm_k s) (snd sk)"
    by (rule sem_wake_cases [OF assms(2)]) auto
  then show ?thesis using sem_inv_woken [of p r T n s u ys t sk] assms(2,3) up_wake by auto
next
  case (expire t k)
  then show ?thesis using sem_inv_expired [OF assms(2)] by blast
next
  case (other k)
  then show ?thesis using assms(2) waiting_same [of k "sm_k s"] same_waitD [of k "sm_k s"] by (auto simp: sem_inv_def sem_tasks_def)
qed

lemma sem_reachable:
  assumes "(sem_trans cfg pf r T)\<^sup>*\<^sup>* s s'" and "sem_initial p r T n s" and "finite T" and "pf_waitless pf"
  shows "\<exists>xs. sem_inv p r T n s' xs"
  using assms(1)
proof (induction rule: rtranclp_induct)
  case base
  have "sem_inv p r T n s []" using assms(2) by (auto simp: sem_initial_def sem_inv_def sem_tasks_def)
  then show ?case by blast
next
  case (step a b)
  then show ?case using sem_trans_inv assms(3,4) by blast
qed

text \<open>C6: In every execution of tasks that all wait with the same priority \<open>p\<close> and by the same kind of priority (all the real one, or all
  the current one, by \<open>r\<close>), from a semaphore with \<open>n\<close> tokens that was initialised statically (by \<^const>\<open>INITIALIZE_SEMAPHORE\<close>, which leaves
  room for the paths of the tree, unlike \<^const>\<open>semaphore_init\<close>): the tokens taken and those left are those there were and those
  released; and while a task is blocked, there are not more tokens than tasks that are on their way to take one or to wake a task, so
  that no task sleeps on while a token is left for it. The scheduler's devices and callbacks leave the wait queues alone.\<close>

theorem semaphore_no_lost_wakeup:
  assumes "sem_initial p r T n s" and "(sem_trans cfg pf r T)\<^sup>*\<^sup>* s s'" and "finite T" and "pf_waitless pf"
  shows "unat (sem_count (sm_sem s')) + sm_downs s' = n + sm_ups s' \<and>
    (\<forall>t \<in> T. sm_pc s' t = SEM_WAIT \<longrightarrow> unat (sem_count (sm_sem s')) \<le> card {u \<in> T. sm_pc s' u \<in> {SEM_RETRY, SEM_UP}})"
proof -
  obtain xs where xs: "sem_inv p r T n s' xs" using sem_reachable [OF assms(2,1,3,4)] by blast
  then have "xs \<noteq> []" if "t \<in> T" "sm_pc s' t = SEM_WAIT" for t using that by (auto simp: sem_inv_def sem_tasks_def)
  then show ?thesis using xs by (auto simp: sem_inv_def sem_coming_def)
qed

section \<open>Witnesses\<close>

text \<open>An empty semaphore; task 1 runs and blocks on it.\<close>

definition sem_start :: "wkernel sem_state" where
  "sem_start = \<lparr>sm_sem = \<lparr>sem_count = 0, sem_waitq = 0\<rparr>, sm_k = wrunning, sm_pc = (\<lambda>_. SEM_OUT), sm_ups = 0, sm_downs = 0\<rparr>"

lemma sem_start_initial: "sem_initial 1 False {1} 0 sem_start"
  using wrunning_waiting [of 1 0] by (simp add: sem_initial_def sem_start_def wrunning_priority wrunning_fields)

lemma sem_start_blocks:
  "\<exists>k. semaphore_down default_config wnull_platform (\<lambda>k. k) 0 False (sm sem_start) = Some (False, sm_sem sem_start, k)"
  using wrunning_block by (auto simp: semaphore_down_def waitq_task_wait_until_def semaphore_try_down_def sem_start_def wrunning_priority)

theorem semaphore_no_lost_wakeup_witness:
  "\<exists>s'. (sem_trans default_config wnull_platform False {1})\<^sup>*\<^sup>* sem_start s' \<and> sm_pc s' 1 = SEM_WAIT \<and> sem_count (sm_sem s') = 0"
proof -
  obtain k where k: "semaphore_down default_config wnull_platform (\<lambda>k. k) 0 False (sm sem_start) = Some (False, sm_sem sem_start, k)"
    using sem_start_blocks by blast
  let ?s = "sm_moved (sm_sem sem_start, k) 1 SEM_WAIT sem_start"
  have "sem_trans default_config wnull_platform False {1} sem_start ?s"
    by (rule sem_trans.down_blocked [OF _ _ _ _ k]) (simp_all add: sem_start_def wrunning_fields running_current)
  then have r: "(sem_trans default_config wnull_platform False {1})\<^sup>*\<^sup>* sem_start ?s" by blast
  from semaphore_no_lost_wakeup [OF sem_start_initial this _ wnull_platform_quiet(2)] show ?thesis
    using r by (intro exI [of _ ?s]) (auto simp: sem_start_def unat_eq_0)
qed

end
