(* ===== verification/Twan_Mutex.thy ===== *)
theory Twan_Mutex
  imports Twan_Semaphore
begin

text \<open>
  The mutex with the immediate priority ceiling protocol, \<open>src/subsys/sync/mutex.c\<close>: a task that asks for it runs at the ceiling of the
  mutex until it has released it, and a task that releases it hands it over to the one that has waited longest. The tasks are the
  agents of a transition system; \<^verbatim>\<open>mutex_ipcp_lock\<close> is entering, passes of the loop that waits, and leaving.
\<close>

section \<open>Definitions\<close>

record mutex_ipcp =
  mx_priority_ceiling :: u8
  mx_criticality_ceiling :: u8
  mx_last_priority :: u8
  mx_last_criticality :: u8
  mx_holder :: "task_ptr option"
  mx_count :: u64
  mx_waitq :: waitq_ptr

definition mutex_ipcp_init ::
  "kconfig \<Rightarrow> u8 \<Rightarrow> u8 \<Rightarrow> mutex_ipcp \<times> 'a wkernel_scheme \<Rightarrow> int \<times> mutex_ipcp \<times> 'a wkernel_scheme" where
  "mutex_ipcp_init cfg priority_ceiling criticality_ceiling = (\<lambda>(m, k).
     if unat criticality_ceiling \<ge> num_criticalities cfg then (- EINVAL, m, k)
     else (0, m\<lparr>mx_priority_ceiling := priority_ceiling, mx_criticality_ceiling := criticality_ceiling, mx_holder := None, mx_count := 0\<rparr>,
           waitq_init (mx_waitq m) k))"

definition INITIALIZE_MUTEX_IPCP :: "u8 \<Rightarrow> u8 \<Rightarrow> mutex_ipcp \<times> 'a wkernel_scheme \<Rightarrow> mutex_ipcp \<times> 'a wkernel_scheme" where
  "INITIALIZE_MUTEX_IPCP priority_ceiling criticality_ceiling = (\<lambda>(m, k).
     (m\<lparr>mx_priority_ceiling := priority_ceiling, mx_criticality_ceiling := criticality_ceiling, mx_last_priority := 0,
        mx_last_criticality := 0, mx_holder := None, mx_count := 0\<rparr>, INITIALIZE_WAITQ (mx_waitq m) k))"

text \<open>Enabling preemption may yield; see \<^const>\<open>current_task_enable_preemption\<close>.\<close>

definition mutex_ipcp_trylock ::
  "kconfig \<Rightarrow> 'a wkernel_scheme platform \<Rightarrow> ('a wkernel_scheme \<Rightarrow> 'a wkernel_scheme) \<Rightarrow> bool \<Rightarrow> u32
     \<Rightarrow> mutex_ipcp \<times> 'a wkernel_scheme \<Rightarrow> (bool \<times> mutex_ipcp \<times> 'a wkernel_scheme) option" where
  "mutex_ipcp_trylock cfg pf resumed interrupts_enabled this = (\<lambda>(m, k).
     if pc_handling_isr (k_cpu k this) then None
     else case current_task k this of
       None \<Rightarrow> None
     | Some current \<Rightarrow>
         let finish = (\<lambda>ret m k. map_option (\<lambda>k. (ret, m, k)) (current_task_enable_preemption cfg pf resumed interrupts_enabled this k))
         in case disable_preemption this k of
              None \<Rightarrow> None
            | Some k \<Rightarrow>
                (case mx_holder m of
                   None \<Rightarrow>
                     let m = m\<lparr>mx_holder := Some current\<rparr>;
                         last_priority = task_priority (k_task k current);
                         last_criticality = task_criticality (k_task k current)
                     in if \<not> last_priority \<le> mx_priority_ceiling m \<or> \<not> last_criticality \<le> mx_criticality_ceiling m then None
                        else
                          let m = m\<lparr>mx_last_priority := last_priority, mx_last_criticality := last_criticality\<rparr>
                          in case current_task_write this (mx_priority_ceiling m) (mx_criticality_ceiling m) k of
                               None \<Rightarrow> None
                             | Some k \<Rightarrow> finish True (m\<lparr>mx_count := 1\<rparr>) k
                 | Some h \<Rightarrow>
                     if h = current then
                       if mx_count m < - 1 then finish True (m\<lparr>mx_count := mx_count m + 1\<rparr>) k else None
                     else finish False m k))"

text \<open>\<^verbatim>\<open>mutex_ipcp_lock\<close> up to its loop, with the priority and the criticality that it remembers; the passes of the loop, with
  interrupts disabled; and what follows the loop.\<close>

definition mutex_ipcp_lock_enter ::
  "u32 \<Rightarrow> mutex_ipcp \<times> 'a wkernel_scheme \<Rightarrow> (u8 \<times> u8 \<times> mutex_ipcp \<times> 'a wkernel_scheme) option" where
  "mutex_ipcp_lock_enter this = (\<lambda>(m, k).
     case current_task k this of
       None \<Rightarrow> None
     | Some current \<Rightarrow>
         (case disable_preemption this k of
            None \<Rightarrow> None
          | Some k \<Rightarrow>
              let priority = task_priority (k_task k current); criticality = task_criticality (k_task k current)
              in map_option (\<lambda>k. (priority, criticality, m, k))
                   (current_task_write this (mx_priority_ceiling m) (mx_criticality_ceiling m) k)))"

definition mutex_ipcp_lock_pass ::
  "kconfig \<Rightarrow> 'a wkernel_scheme platform \<Rightarrow> ('a wkernel_scheme \<Rightarrow> 'a wkernel_scheme) \<Rightarrow> u32
     \<Rightarrow> mutex_ipcp \<times> 'a wkernel_scheme \<Rightarrow> (bool \<times> mutex_ipcp \<times> 'a wkernel_scheme) option" where
  "mutex_ipcp_lock_pass cfg pf others this s =
     waitq_task_wait_until cfg pf others this (mx_waitq (fst s)) True (mutex_ipcp_trylock cfg pf (\<lambda>k. k) False this) s"

definition mutex_ipcp_lock_timeout_pass ::
  "kconfig \<Rightarrow> 'a wkernel_scheme platform \<Rightarrow> ('a wkernel_scheme \<Rightarrow> 'a wkernel_scheme) \<Rightarrow> u32 \<Rightarrow> u32 \<Rightarrow> nat
     \<Rightarrow> mutex_ipcp \<times> 'a wkernel_scheme \<Rightarrow> (bool option \<times> mutex_ipcp \<times> 'a wkernel_scheme) option" where
  "mutex_ipcp_lock_timeout_pass cfg pf others this ticks i s =
     waitq_task_wait_until_timeout cfg pf others this (mx_waitq (fst s)) True ticks (mutex_ipcp_trylock cfg pf (\<lambda>k. k) False this) i s"

definition mutex_ipcp_lock_leave ::
  "kconfig \<Rightarrow> 'a wkernel_scheme platform \<Rightarrow> ('a wkernel_scheme \<Rightarrow> 'a wkernel_scheme) \<Rightarrow> bool \<Rightarrow> u32 \<Rightarrow> u8 \<Rightarrow> u8
     \<Rightarrow> mutex_ipcp \<times> 'a wkernel_scheme \<Rightarrow> (mutex_ipcp \<times> 'a wkernel_scheme) option" where
  "mutex_ipcp_lock_leave cfg pf resumed interrupts_enabled this priority criticality = (\<lambda>(m, k).
     map_option (Pair (m\<lparr>mx_last_priority := priority, mx_last_criticality := criticality\<rparr>))
       (current_task_enable_preemption cfg pf resumed interrupts_enabled this k))"

text \<open>What \<^verbatim>\<open>mutex_ipcp_lock_timeout\<close> does after a loop without success.\<close>

definition mutex_ipcp_lock_fail ::
  "kconfig \<Rightarrow> 'a wkernel_scheme platform \<Rightarrow> ('a wkernel_scheme \<Rightarrow> 'a wkernel_scheme) \<Rightarrow> bool \<Rightarrow> u32 \<Rightarrow> u8 \<Rightarrow> u8
     \<Rightarrow> mutex_ipcp \<times> 'a wkernel_scheme \<Rightarrow> (mutex_ipcp \<times> 'a wkernel_scheme) option" where
  "mutex_ipcp_lock_fail cfg pf resumed interrupts_enabled this priority criticality = (\<lambda>(m, k).
     map_option (Pair m)
       (Option.bind (current_task_write this priority criticality k) (current_task_enable_preemption cfg pf resumed interrupts_enabled this)))"

text \<open>A call of \<^verbatim>\<open>mutex_ipcp_lock\<close> that does not block.\<close>

definition mutex_ipcp_lock_now ::
  "kconfig \<Rightarrow> 'a wkernel_scheme platform \<Rightarrow> ('a wkernel_scheme \<Rightarrow> 'a wkernel_scheme) \<Rightarrow> bool \<Rightarrow> u32
     \<Rightarrow> mutex_ipcp \<times> 'a wkernel_scheme \<Rightarrow> (mutex_ipcp \<times> 'a wkernel_scheme) option" where
  "mutex_ipcp_lock_now cfg pf others interrupts_enabled this s =
     Option.bind (mutex_ipcp_lock_enter this s) (\<lambda>(priority, criticality, s).
       Option.bind (mutex_ipcp_lock_pass cfg pf others this s) (\<lambda>(locked, s).
         if locked then mutex_ipcp_lock_leave cfg pf others interrupts_enabled this priority criticality s else None))"

definition mutex_ipcp_unlock ::
  "kconfig \<Rightarrow> 'a wkernel_scheme platform \<Rightarrow> ('a wkernel_scheme \<Rightarrow> 'a wkernel_scheme) \<Rightarrow> bool \<Rightarrow> u32
     \<Rightarrow> mutex_ipcp \<times> 'a wkernel_scheme \<Rightarrow> (mutex_ipcp \<times> 'a wkernel_scheme) option" where
  "mutex_ipcp_unlock cfg pf resumed interrupts_enabled this = (\<lambda>(m, k).
     if mx_holder m \<noteq> current_task k this then None
     else
       let m = m\<lparr>mx_count := mx_count m - 1\<rparr>
       in if mx_count m > 0 then Some (m, k)
          else
            let priority = mx_last_priority m; criticality = mx_last_criticality m
            in case disable_preemption this k of
                 None \<Rightarrow> None
               | Some k \<Rightarrow>
                   (case waitq_wakeup_front cfg (mx_waitq m) k of
                      None \<Rightarrow> None
                    | Some (woken, k) \<Rightarrow>
                        map_option (Pair (m\<lparr>mx_holder := woken\<rparr>))
                          (Option.bind (current_task_write this priority criticality k)
                            (current_task_enable_preemption cfg pf resumed interrupts_enabled this))))"

section \<open>Enabling preemption\<close>

lemma upd_task_id [simp]: "upd_task t (\<lambda>s. s) k = k"
  by (simp add: upd_task_def)

lemma upd_task_twice: "upd_task t f (upd_task t g k) = upd_task t (\<lambda>s. f (g s)) k"
  by (simp add: upd_task_def)

text \<open>With interrupts disabled or no yield requested, enabling preemption only counts down.\<close>

lemma enable_preemption_counts:
  assumes "current_task k this = Some t" and "i \<longrightarrow> \<not> task_yield_request (k_task k t)"
  shows "current_task_enable_preemption cfg pf resumed i this k = Some (upd_task t (\<lambda>s. s\<lparr>task_preemption_count := task_preemption_count s - 1\<rparr>) k)"
  using assms
  by (auto simp: current_task_enable_preemption_def enable_preemption_def sched_try_answer_yield_request_def disable_preemption_def upd_task_twice)

text \<open>In any case it leaves the wait queues and the real priorities alone, a yield included: a task that is switched out keeps them, and
  so do the other tasks until they use the queue themselves.\<close>

definition same_real :: "'a wkernel_scheme \<Rightarrow> 'a wkernel_scheme \<Rightarrow> bool" where
  "same_real k' k \<longleftrightarrow> wk_mem k' = wk_mem k \<and> wk_waitq k' = wk_waitq k \<and> queue_priority True k' = queue_priority True k"

lemma same_real_refl [simp]: "same_real k k"
  by (simp add: same_real_def)

lemma same_real_trans: "same_real a b \<Longrightarrow> same_real b c \<Longrightarrow> same_real a c"
  by (simp add: same_real_def)

lemma same_wait_real: "same_wait k' k \<Longrightarrow> same_real k' k"
  by (simp add: same_wait_def same_real_def)

lemma same_real_upd_task: "(\<And>s. task_real_priority (f s) = task_real_priority s) \<Longrightarrow> same_real (upd_task t f k) k"
  by (auto simp: same_real_def queue_priority_def fun_eq_iff upd_task_def)

lemma same_wait_yield:
  assumes "pf_waitless pf" and "sched_yield_ipi cfg pf this k = Some k'"
  shows "same_wait k' k"
proof -
  have pop: "same_wait k2 k1" if "sched_pop cfg this current k1 = (r, k2)" for current r and k1 k2 :: "'a wkernel_scheme"
    using that same_wait_bin_pop [of "cpu_to_queue_id cfg this" k1 r k2 k1] same_wait_pop_age [of "cpu_to_queue_id cfg this" k1 r k2]
    by (auto simp: sched_pop_def Let_def split: option.splits if_splits)
  have flags: "same_wait (set_preempted_early b t (set_yield_request b' t k)) k" "same_wait (set_preempted_early b t k1) k2 = same_wait k1 k2"
    for b b' t and k1 k2 :: "'a wkernel_scheme" by simp_all
  show ?thesis using assms(2)
    by (auto simp: sched_yield_ipi_def Let_def same_wait_timer [OF assms(1)] flags(2) split: option.splits prod.splits if_splits
        dest!: pop same_wait_switch [OF assms(1)] intro: same_wait_trans flags(1) same_wait_trans [OF _ same_wait_trans [OF _ flags(1)]])
qed

lemma enable_preemption_real:
  assumes "current_task_enable_preemption cfg pf resumed i this k = Some k'" and "pf_waitless pf" and "\<And>k. same_real (resumed k) k"
  shows "same_real k' k"
proof -
  have d: "same_real k2 k1" if "disable_preemption this k1 = Some k2" for k1 k2 :: "'a wkernel_scheme"
    using that by (auto simp: disable_preemption_def split: option.splits intro: same_real_upd_task)
  have e: "same_real k2 k1" if "enable_preemption this k1 = Some k2" for k1 k2 :: "'a wkernel_scheme"
    using that by (auto simp: enable_preemption_def split: option.splits intro: same_real_upd_task)
  obtain k1 k2 k3 where k1: "enable_preemption this k = Some k1" and k2: "disable_preemption this k1 = Some k2"
    and k3: "k3 = k2 \<or> (\<exists>k4. sched_yield_ipi cfg pf this k2 = Some k4 \<and> k3 = resumed k4)" and k': "enable_preemption this k3 = Some k'"
    using assms(1)
    by (auto simp: current_task_enable_preemption_def sched_try_answer_yield_request_def Let_def split: option.splits if_splits)
  have "same_real (resumed k4) k2" if "sched_yield_ipi cfg pf this k2 = Some k4" for k4
    using same_real_trans [OF assms(3) same_wait_real [OF same_wait_yield [OF assms(2) that]]] .
  then have "same_real k3 k2" using k3 by auto
  then show ?thesis using d [OF k2] e [OF k1] e [OF k'] same_real_trans by blast
qed

text \<open>An attempt, on every branch.\<close>

lemma trylock_cases:
  assumes e: "mutex_ipcp_trylock cfg pf resumed i this (m, k) = Some (b, m', k')" and cur: "current_task k this = Some t"
    and pf: "pf_waitless pf" "\<And>k. same_real (resumed k) k"
  obtains "mx_holder m = None" "b" "same_real k' k"
      "m' = m\<lparr>mx_holder := Some t, mx_last_priority := task_priority (k_task k t), mx_last_criticality := task_criticality (k_task k t), mx_count := 1\<rparr>"
  | "mx_holder m = Some t" "b" "same_real k' k" "mx_count m < - 1" "m' = m\<lparr>mx_count := mx_count m + 1\<rparr>"
  | h where "mx_holder m = Some h" "h \<noteq> t" "\<not> b" "same_real k' k" "m' = m"
proof -
  have r: "same_real k1 k" if "current_task_enable_preemption cfg pf resumed i this (upd_task t f k) = Some k1"
    "\<And>s. task_real_priority (f s) = task_real_priority s" for k1 f
    using enable_preemption_real [OF that(1) pf] same_real_upd_task [of f t k, OF that(2)] same_real_trans by blast
  show ?thesis using e cur that
    by (auto simp: mutex_ipcp_trylock_def disable_preemption_def current_task_write_def upd_task_twice Let_def dest!: r split: if_splits option.splits)
qed

text \<open>An attempt that fails with interrupts disabled, as in the loop, changes nothing.\<close>

lemma trylock_failed:
  assumes e: "mutex_ipcp_trylock cfg pf resumed False this (m, k) = Some (False, m', k')" and cur: "current_task k this = Some t"
  shows "m' = m" "k' = k" "\<exists>h. mx_holder m = Some h \<and> h \<noteq> t"
proof -
  have up: "current_task (upd_task t f k) this = Some t" for f using cur by simp
  show "m' = m" "k' = k" "\<exists>h. mx_holder m = Some h \<and> h \<noteq> t" using e cur
    by (auto simp: mutex_ipcp_trylock_def disable_preemption_def current_task_write_def enable_preemption_counts [OF up] upd_task_twice Let_def
        split: if_splits option.splits)
qed

section \<open>Executions\<close>

text \<open>Where a task is: outside; in the loop, with the priority and the criticality that it remembers, and whether it has the mutex
  already; blocked; past the loop; inside; past a loop that ran out of time.\<close>

datatype mx_pc = MX_OUT | MX_TRY bool u8 u8 | MX_WAIT u8 u8 | MX_GOT u8 u8 | MX_IN | MX_FAILED u8 u8

record 'k mx_state =
  mu_m :: mutex_ipcp
  mu_k :: 'k
  mu_pc :: "task_ptr \<Rightarrow> mx_pc"

abbreviation mu :: "'k mx_state \<Rightarrow> mutex_ipcp \<times> 'k" where
  "mu s \<equiv> (mu_m s, mu_k s)"

definition mu_moved :: "mutex_ipcp \<times> 'k \<Rightarrow> task_ptr \<Rightarrow> mx_pc \<Rightarrow> 'k mx_state \<Rightarrow> 'k mx_state" where
  "mu_moved mk t pc s = s\<lparr>mu_m := fst mk, mu_k := snd mk, mu_pc := (mu_pc s)(t := pc)\<rparr>"

text \<open>Where a function enables preemption at its end, interrupts may be enabled and it may yield; \<open>resumed\<close> is what the kernel does until
  the task runs again. The last access to the mutex comes before, so what other tasks do with the mutex in between are transitions of
  theirs that follow. The loop that waits runs with interrupts disabled. \<open>other\<close> is anything that the kernel does and that leaves the
  wait queues and the real priorities alone, such as switching tasks.\<close>

inductive mx_trans ::
  "kconfig \<Rightarrow> 'a wkernel_scheme platform \<Rightarrow> task_ptr set \<Rightarrow> 'a wkernel_scheme mx_state \<Rightarrow> 'a wkernel_scheme mx_state \<Rightarrow> bool"
  for cfg pf T where
  enter: "t \<in> T \<Longrightarrow> current_task (mu_k s) this = Some t \<Longrightarrow> mu_pc s t \<in> {MX_OUT, MX_IN} \<Longrightarrow>
    mutex_ipcp_lock_enter this (mu s) = Some (pr, cr, mk) \<Longrightarrow> mx_trans cfg pf T s (mu_moved mk t (MX_TRY (mu_pc s t = MX_IN) pr cr) s)"
| try_locked: "t \<in> T \<Longrightarrow> current_task (mu_k s) this = Some t \<Longrightarrow> mu_pc s t \<in> {MX_OUT, MX_IN} \<Longrightarrow> (\<And>k. same_real (resumed k) k) \<Longrightarrow>
    mutex_ipcp_trylock cfg pf resumed i this (mu s) = Some (True, mk) \<Longrightarrow> mx_trans cfg pf T s (mu_moved mk t MX_IN s)"
| try_failed: "t \<in> T \<Longrightarrow> current_task (mu_k s) this = Some t \<Longrightarrow> mu_pc s t \<in> {MX_OUT, MX_IN} \<Longrightarrow> (\<And>k. same_real (resumed k) k) \<Longrightarrow>
    mutex_ipcp_trylock cfg pf resumed i this (mu s) = Some (False, mk) \<Longrightarrow> mx_trans cfg pf T s (mu_moved mk t (mu_pc s t) s)"
| pass_locked: "t \<in> T \<Longrightarrow> current_task (mu_k s) this = Some t \<Longrightarrow> mu_pc s t = MX_TRY n pr cr \<Longrightarrow>
    mutex_ipcp_lock_pass cfg pf others this (mu s) = Some (True, mk) \<Longrightarrow> mx_trans cfg pf T s (mu_moved mk t (MX_GOT pr cr) s)"
| pass_blocked: "t \<in> T \<Longrightarrow> current_task (mu_k s) this = Some t \<Longrightarrow> mu_pc s t = MX_TRY n pr cr \<Longrightarrow> (\<And>k. same_wait (others k) k) \<Longrightarrow>
    mutex_ipcp_lock_pass cfg pf others this (mu s) = Some (False, mk) \<Longrightarrow> mx_trans cfg pf T s (mu_moved mk t (MX_WAIT pr cr) s)"
| timed_locked: "t \<in> T \<Longrightarrow> current_task (mu_k s) this = Some t \<Longrightarrow> mu_pc s t = MX_TRY n pr cr \<Longrightarrow>
    mutex_ipcp_lock_timeout_pass cfg pf others this ticks i (mu s) = Some (Some True, mk) \<Longrightarrow> mx_trans cfg pf T s (mu_moved mk t (MX_GOT pr cr) s)"
| timed_failed: "t \<in> T \<Longrightarrow> current_task (mu_k s) this = Some t \<Longrightarrow> mu_pc s t = MX_TRY n pr cr \<Longrightarrow>
    mutex_ipcp_lock_timeout_pass cfg pf others this ticks i (mu s) = Some (Some False, mk) \<Longrightarrow>
    mx_trans cfg pf T s (mu_moved mk t (MX_FAILED pr cr) s)"
| timed_blocked: "t \<in> T \<Longrightarrow> current_task (mu_k s) this = Some t \<Longrightarrow> mu_pc s t = MX_TRY n pr cr \<Longrightarrow> (\<And>k. same_wait (others k) k) \<Longrightarrow>
    mutex_ipcp_lock_timeout_pass cfg pf others this ticks i (mu s) = Some (None, mk) \<Longrightarrow> mx_trans cfg pf T s (mu_moved mk t (MX_WAIT pr cr) s)"
| leave: "t \<in> T \<Longrightarrow> current_task (mu_k s) this = Some t \<Longrightarrow> mu_pc s t = MX_GOT pr cr \<Longrightarrow> (\<And>k. same_real (resumed k) k) \<Longrightarrow>
    mutex_ipcp_lock_leave cfg pf resumed i this pr cr (mu s) = Some mk \<Longrightarrow> mx_trans cfg pf T s (mu_moved mk t MX_IN s)"
| fail: "t \<in> T \<Longrightarrow> current_task (mu_k s) this = Some t \<Longrightarrow> mu_pc s t = MX_FAILED pr cr \<Longrightarrow> (\<And>k. same_real (resumed k) k) \<Longrightarrow>
    mutex_ipcp_lock_fail cfg pf resumed i this pr cr (mu s) = Some mk \<Longrightarrow> mx_trans cfg pf T s (mu_moved mk t MX_OUT s)"
| unlock_nested: "t \<in> T \<Longrightarrow> current_task (mu_k s) this = Some t \<Longrightarrow> mu_pc s t = MX_IN \<Longrightarrow> mx_count (mu_m s) \<noteq> 1 \<Longrightarrow> (\<And>k. same_real (resumed k) k) \<Longrightarrow>
    mutex_ipcp_unlock cfg pf resumed i this (mu s) = Some mk \<Longrightarrow> mx_trans cfg pf T s (mu_moved mk t MX_IN s)"
| unlock_free: "t \<in> T \<Longrightarrow> current_task (mu_k s) this = Some t \<Longrightarrow> mu_pc s t = MX_IN \<Longrightarrow> mx_count (mu_m s) = 1 \<Longrightarrow> (\<And>k. same_real (resumed k) k) \<Longrightarrow>
    mutex_ipcp_unlock cfg pf resumed i this (mu s) = Some mk \<Longrightarrow> mx_holder (fst mk) = None \<Longrightarrow> mx_trans cfg pf T s (mu_moved mk t MX_OUT s)"
| unlock_wake: "t \<in> T \<Longrightarrow> current_task (mu_k s) this = Some t \<Longrightarrow> mu_pc s t = MX_IN \<Longrightarrow> mx_count (mu_m s) = 1 \<Longrightarrow> (\<And>k. same_real (resumed k) k) \<Longrightarrow>
    mutex_ipcp_unlock cfg pf resumed i this (mu s) = Some mk \<Longrightarrow> mx_holder (fst mk) = Some u \<Longrightarrow> mu_pc s u = MX_WAIT pr cr \<Longrightarrow>
    mx_trans cfg pf T s (mu_moved mk u (MX_TRY False pr cr) (mu_moved mk t MX_OUT s))"
| expire: "t \<in> T \<Longrightarrow> mu_pc s t = MX_WAIT pr cr \<Longrightarrow> task_waitq (k_task (mu_k s) t) = Some (mx_waitq (mu_m s)) \<Longrightarrow>
    timeout_task_dequeue_from_waitq cfg t True (mu_k s) = Some k \<Longrightarrow> mx_trans cfg pf T s (mu_moved (mu_m s, k) t (MX_FAILED pr cr) s)"
| other: "same_real k (mu_k s) \<Longrightarrow> mx_trans cfg pf T s (s\<lparr>mu_k := k\<rparr>)"

text \<open>The start of an execution: the mutex is free and nobody waits in its queue, which has room for paths; all tasks have one real
  priority \<open>p\<close>, by which they wait.\<close>

definition mx_initial :: "u8 \<Rightarrow> task_ptr set \<Rightarrow> 'a wkernel_scheme mx_state \<Rightarrow> bool" where
  "mx_initial p T s \<longleftrightarrow> waiting p (mx_waitq (mu_m s)) (mu_k s) [] \<and> (\<forall>t \<in> T. fm_list (wk_mem (mu_k s)) t = lq_null) \<and>
     (\<forall>t \<in> T. queue_priority True (mu_k s) t = p) \<and> mx_holder (mu_m s) = None \<and> (\<forall>t. mu_pc s t = MX_OUT)"

lemma initialized_mutex:
  assumes "INITIALIZE_MUTEX_IPCP pc cc (m, k) = (m', k')" and "\<forall>t \<in> T. fm_list (wk_mem k) t = lq_null" and "\<forall>t \<in> T. queue_priority True k t = p"
  shows "mx_initial p T \<lparr>mu_m = m', mu_k = k', mu_pc = (\<lambda>_. MX_OUT)\<rparr>"
proof -
  have k: "mx_waitq m' = mx_waitq m" "mx_holder m' = None" "k' = INITIALIZE_WAITQ (mx_waitq m) k"
    using assms(1) by (auto simp: INITIALIZE_MUTEX_IPCP_def)
  have "queue_priority True k' t = queue_priority True k t" "wk_mem k' = wk_mem k" for t by (simp_all add: k queue_priority_def INITIALIZE_WAITQ_def)
  then show ?thesis using assms(2,3) initialized_waiting(1) [of p "mx_waitq m" k] k by (simp add: mx_initial_def)
qed

section \<open>The invariant\<close>

fun mx_inside :: "mx_pc \<Rightarrow> bool" where
  "mx_inside MX_IN = True"
| "mx_inside (MX_GOT _ _) = True"
| "mx_inside (MX_TRY n _ _) = n"
| "mx_inside _ = False"

fun mx_blocked :: "mx_pc \<Rightarrow> bool" where
  "mx_blocked (MX_WAIT _ _) = True"
| "mx_blocked _ = False"

fun mx_trying :: "mx_pc \<Rightarrow> bool" where
  "mx_trying (MX_TRY n _ _) = (\<not> n)"
| "mx_trying _ = False"

definition mx_tasks :: "u8 \<Rightarrow> task_ptr set \<Rightarrow> 'a wkernel_scheme \<Rightarrow> waitq_ptr \<Rightarrow> (task_ptr \<Rightarrow> mx_pc) \<Rightarrow> task_ptr list \<Rightarrow> bool" where
  "mx_tasks p T k w pc xs \<longleftrightarrow> waiting p w k xs \<and> set xs = {t \<in> T. mx_blocked (pc t)} \<and>
     (\<forall>t \<in> T - set xs. fm_list (wk_mem k) t = lq_null) \<and> (\<forall>t \<in> T. queue_priority True k t = p)"

text \<open>The holder is inside, or has been handed the mutex and is on its way in.\<close>

definition mx_holds :: "task_ptr set \<Rightarrow> mutex_ipcp \<Rightarrow> (task_ptr \<Rightarrow> mx_pc) \<Rightarrow> bool" where
  "mx_holds T m pc \<longleftrightarrow> (case mx_holder m of
     None \<Rightarrow> \<forall>t \<in> T. \<not> mx_inside (pc t) \<and> \<not> mx_blocked (pc t)
   | Some h \<Rightarrow> h \<in> T \<and> (\<forall>t \<in> T. mx_inside (pc t) \<longrightarrow> t = h) \<and>
       (mx_inside (pc h) \<and> 0 < mx_count m \<or> mx_trying (pc h) \<and> mx_count m = 0))"

definition mx_inv :: "u8 \<Rightarrow> task_ptr set \<Rightarrow> 'a wkernel_scheme mx_state \<Rightarrow> bool" where
  "mx_inv p T s \<longleftrightarrow> (\<exists>xs. mx_tasks p T (mu_k s) (mx_waitq (mu_m s)) (mu_pc s) xs) \<and> mx_holds T (mu_m s) (mu_pc s)"

lemma mu_moved_simps [simp]:
  "mu_m (mu_moved mk t pc s) = fst mk" "mu_k (mu_moved mk t pc s) = snd mk" "mu_pc (mu_moved mk t pc s) = (mu_pc s)(t := pc)"
  by (simp_all add: mu_moved_def)

lemma waiting_real: "same_real k' k \<Longrightarrow> waiting p w k' xs = waiting p w k xs"
  by (simp add: waiting_def flat_of_def same_real_def)

lemma queue_becomes_real:
  assumes "queue_becomes p w xs N k k'" and "same_real k k0" and "same_real k'' k'"
  shows "waiting p w k'' xs" "\<And>n. n \<notin> N \<Longrightarrow> fm_list (wk_mem k'') n = fm_list (wk_mem k0) n"
    "\<And>n. n \<in> N - set xs \<Longrightarrow> fm_list (wk_mem k'') n = lq_null" "queue_priority True k'' = queue_priority True k0"
  using assms waiting_real [OF assms(3)] by (auto simp: queue_becomes_def same_real_def)

lemma mx_tasks_frame:
  assumes "mx_tasks p T k w pc xs" and "same_real k' k" and "\<And>t. t \<in> T \<Longrightarrow> mx_blocked (pc' t) = mx_blocked (pc t)"
  shows "mx_tasks p T k' w pc' xs"
  using assms waiting_real [OF assms(2)] by (auto simp: mx_tasks_def same_real_def)

lemma mx_tasks_becomes:
  assumes inv: "mx_tasks p T k w pc xs" and b: "queue_becomes p w ys N k1 k2" and k: "same_real k1 k" "same_real k' k2"
    and ys: "set ys = {t \<in> T. mx_blocked (pc' t)}" and N: "set xs \<subseteq> N"
  shows "mx_tasks p T k' w pc' ys"
proof -
  note b = queue_becomes_real [OF b k]
  have "fm_list (wk_mem k') n = lq_null" if "n \<in> T - set ys" for n
    using that b(2,3) [of n] N inv by (cases "n \<in> N") (auto simp: mx_tasks_def)
  then show ?thesis using b(1,4) inv ys by (simp add: mx_tasks_def)
qed

section \<open>What the operations do\<close>

lemma enter_cases:
  assumes "mutex_ipcp_lock_enter this (m, k) = Some (pr, cr, mk)"
  shows "fst mk = m" "same_real (snd mk) k"
  using assms
  by (auto simp: mutex_ipcp_lock_enter_def disable_preemption_def current_task_write_def Let_def split: option.splits
      intro!: same_real_upd_task [THEN same_real_trans] same_real_upd_task)

lemma leave_cases:
  assumes "mutex_ipcp_lock_leave cfg pf resumed i this pr cr (m, k) = Some mk" and "pf_waitless pf" and "\<And>k. same_real (resumed k) k"
  shows "fst mk = m\<lparr>mx_last_priority := pr, mx_last_criticality := cr\<rparr>" "same_real (snd mk) k"
  using assms enable_preemption_real [of cfg pf resumed i this k, OF _ assms(2,3)] by (auto simp: mutex_ipcp_lock_leave_def)

lemma write_enable_real:
  assumes "Option.bind (current_task_write this pr cr k) (current_task_enable_preemption cfg pf resumed i this) = Some k'"
    and "pf_waitless pf" and "\<And>k. same_real (resumed k) k"
  shows "same_real k' k"
proof -
  obtain t where "current_task_enable_preemption cfg pf resumed i this (upd_task t (\<lambda>t. t\<lparr>task_priority := pr, task_criticality := cr\<rparr>) k) = Some k'"
    using assms(1) by (auto simp: current_task_write_def split: option.splits)
  from enable_preemption_real [OF this assms(2,3)] show ?thesis by (rule same_real_trans) (rule same_real_upd_task, simp)
qed

lemma fail_cases:
  assumes "mutex_ipcp_lock_fail cfg pf resumed i this pr cr (m, k) = Some mk" and "pf_waitless pf" and "\<And>k. same_real (resumed k) k"
  shows "fst mk = m" "same_real (snd mk) k"
  using assms(1) write_enable_real [of this pr cr k cfg pf resumed i, OF _ assms(2,3)] by (auto simp: mutex_ipcp_lock_fail_def)

lemma unlock_nested_cases:
  assumes "mutex_ipcp_unlock cfg pf resumed i this (m, k) = Some mk" and "current_task k this = Some t" and "mx_count m \<noteq> 1"
  shows "mx_holder m = Some t" "mk = (m\<lparr>mx_count := mx_count m - 1\<rparr>, k)"
  using assms by (auto simp: mutex_ipcp_unlock_def word_gt_0 Let_def split: if_splits)

lemma unlock_last_cases:
  assumes "mutex_ipcp_unlock cfg pf resumed i this (m, k) = Some mk" and "current_task k this = Some t" and "mx_count m = 1"
    and "pf_waitless pf" and "\<And>k. same_real (resumed k) k"
  obtains k1 k2 woken where "mx_holder m = Some t" "same_real k1 k" "waitq_wakeup_front cfg (mx_waitq m) k1 = Some (woken, k2)"
    "same_real (snd mk) k2" "fst mk = m\<lparr>mx_count := 0, mx_holder := woken\<rparr>"
proof -
  let ?f = "\<lambda>s. s\<lparr>task_preemption_count := task_preemption_count s + 1\<rparr>"
  have "same_real (upd_task t ?f k) k" by (rule same_real_upd_task) simp
  then show ?thesis using assms(1-3)
    by (auto simp: mutex_ipcp_unlock_def disable_preemption_def Let_def split: if_splits option.splits
        dest!: write_enable_real [OF _ assms(4,5)] intro!: that [of "upd_task t ?f k"])
qed

text \<open>A pass of the loop: the attempt succeeds, or it fails and the task blocks or gives up.\<close>

lemma lock_pass_cases:
  assumes "mutex_ipcp_lock_pass cfg pf others this (m, k) = Some (b, mk)"
  shows "b \<Longrightarrow> mutex_ipcp_trylock cfg pf (\<lambda>k. k) False this (m, k) = Some (True, mk)"
    and "\<not> b \<Longrightarrow> \<exists>m' k' k''. mutex_ipcp_trylock cfg pf (\<lambda>k. k) False this (m, k) = Some (False, m', k') \<and> mk = (m', k'') \<and>
      sched_yield_wait_and_unlock cfg pf others this (mx_waitq m) True False 0 k' = Some k''"
  using assms by (auto simp: mutex_ipcp_lock_pass_def waitq_task_wait_until_def split: if_splits option.splits bool.splits)

lemma lock_timeout_pass_cases:
  assumes "mutex_ipcp_lock_timeout_pass cfg pf others this ticks i (m, k) = Some (b, mk)"
  shows "b = Some True \<Longrightarrow> mutex_ipcp_trylock cfg pf (\<lambda>k. k) False this (m, k) = Some (True, mk)"
    and "b = Some False \<Longrightarrow> mutex_ipcp_trylock cfg pf (\<lambda>k. k) False this (m, k) = Some (False, mk)"
    and "b = None \<Longrightarrow> \<exists>m' k' k''. mutex_ipcp_trylock cfg pf (\<lambda>k. k) False this (m, k) = Some (False, m', k') \<and> mk = (m', k'') \<and>
      sched_yield_wait_and_unlock cfg pf others this (mx_waitq m) True True (ucast ticks) k' = Some k''"
  using assms by (auto simp: mutex_ipcp_lock_timeout_pass_def waitq_task_wait_until_timeout_def split: if_splits option.splits bool.splits)


section \<open>The invariant is kept\<close>

lemma trylock_locked:
  assumes e: "mutex_ipcp_trylock cfg pf resumed i this (mu s) = Some (True, mk)" and cur: "current_task (mu_k s) this = Some t"
    and pf: "pf_waitless pf" "\<And>k. same_real (resumed k) k" and inv: "mx_inv p T s" and t: "t \<in> T" and pc: "\<not> mx_blocked (mu_pc s t)" "mx_inside pc'" "\<not> mx_blocked pc'"
  shows "mx_inv p T (mu_moved mk t pc' s)"
proof -
  obtain m' k' where mk: "mk = (m', k')" by force
  have h: "mx_waitq m' = mx_waitq (mu_m s) \<and> same_real k' (mu_k s) \<and> mx_holder m' = Some t \<and> 0 < mx_count m' \<and>
    (mx_holder (mu_m s) = None \<or> mx_holder (mu_m s) = Some t)"
  proof (rule trylock_cases [OF e [unfolded mk] cur pf])
    assume c: "mx_count (mu_m s) < - 1" "mx_holder (mu_m s) = Some t" "same_real k' (mu_k s)" "m' = mu_m s\<lparr>mx_count := mx_count (mu_m s) + 1\<rparr>"
    then have "mx_count (mu_m s) + 1 \<noteq> 0" by (metis eq_neg_iff_add_eq_0 less_irrefl)
    then show ?thesis using c by (simp add: word_gt_0)
  qed auto
  then have "mx_holds T m' ((mu_pc s)(t := pc'))" using inv t pc by (auto simp: mx_inv_def mx_holds_def split: option.splits)
  moreover obtain xs where "mx_tasks p T (mu_k s) (mx_waitq (mu_m s)) (mu_pc s) xs" using inv by (auto simp: mx_inv_def)
  then have "mx_tasks p T k' (mx_waitq (mu_m s)) ((mu_pc s)(t := pc')) xs" using h pc by (elim mx_tasks_frame) auto
  ultimately show ?thesis using h mk by (auto simp: mx_inv_def)
qed

lemma mx_holds_other:
  assumes "mx_holds T m pc" and "mx_holder m = Some h" and "h \<noteq> t" and "\<not> mx_inside pc'"
  shows "mx_holds T m (pc(t := pc'))"
  using assms by (auto simp: mx_holds_def)

lemma mx_blocked_keeps:
  assumes inv: "mx_inv p T s" and t: "t \<in> T" "\<not> mx_blocked (mu_pc s t)" and cur: "current_task (mu_k s) this = Some t" and pf: "pf_waitless pf"
    and others: "\<And>k. same_wait (others k) k"
    and e: "mutex_ipcp_trylock cfg pf (\<lambda>k. k) False this (mu s) = Some (False, m', k')"
    and y: "sched_yield_wait_and_unlock cfg pf others this (mx_waitq (mu_m s)) True timeout ticks k' = Some k''"
  shows "mx_inv p T (mu_moved (m', k'') t (MX_WAIT pr cr) s)"
proof -
  note f = trylock_failed [OF e cur]
  obtain h where h: "mx_holder (mu_m s) = Some h" "h \<noteq> t" using f(3) by blast
  obtain xs where xs: "mx_tasks p T (mu_k s) (mx_waitq (mu_m s)) (mu_pc s) xs" using inv by (auto simp: mx_inv_def)
  let ?arg = "\<lparr>yw_waitq = mx_waitq (mu_m s), yw_locked = True, yw_insert_real = True, yw_timeout = timeout, yw_ticks = ticks\<rparr>"
  have "sched_yield_wait_ipi cfg pf others this ?arg (mu_k s) = Some k''"
    using y f(2) by (simp add: sched_yield_wait_and_unlock_def split: if_splits)
  from sched_yield_wait_waiting [OF this cur pf others, of p xs]
  have "queue_becomes p (mx_waitq (mu_m s)) (xs @ [t]) (insert t (set xs)) (mu_k s) k''"
    using xs t by (auto simp: mx_tasks_def)
  then have "mx_tasks p T k'' (mx_waitq (mu_m s)) ((mu_pc s)(t := MX_WAIT pr cr)) (xs @ [t])"
    using xs t by (intro mx_tasks_becomes [OF xs]) (auto simp: mx_tasks_def)
  then show ?thesis using mx_holds_other [OF _ h] inv f(1) by (auto simp: mx_inv_def)
qed

text \<open>Steps that keep the queue, the holder and the count.\<close>

lemma mx_quiet_keeps:
  assumes inv: "mx_inv p T s"
    and m: "mx_holder (fst mk) = mx_holder (mu_m s)" "mx_count (fst mk) = mx_count (mu_m s)" "mx_waitq (fst mk) = mx_waitq (mu_m s)"
    and k: "same_real (snd mk) (mu_k s)"
    and pc: "mx_inside pc' = mx_inside (mu_pc s t)" "mx_blocked pc' = mx_blocked (mu_pc s t)" "mx_trying (mu_pc s t) \<longrightarrow> mx_trying pc'"
  shows "mx_inv p T (mu_moved mk t pc' s)"
proof -
  obtain xs where "mx_tasks p T (mu_k s) (mx_waitq (mu_m s)) (mu_pc s) xs" using inv by (auto simp: mx_inv_def)
  then have "mx_tasks p T (snd mk) (mx_waitq (mu_m s)) ((mu_pc s)(t := pc')) xs" using k pc by (elim mx_tasks_frame) auto
  moreover have "mx_holds T (fst mk) ((mu_pc s)(t := pc'))" using inv m pc by (auto simp: mx_inv_def mx_holds_def split: option.splits)
  ultimately show ?thesis using m(3) by (auto simp: mx_inv_def)
qed

text \<open>Handing the mutex over to the task that has waited longest, or to no task.\<close>

lemma mx_unlock_keeps:
  assumes inv: "mx_inv p T s" and t: "t \<in> T" "mu_pc s t = MX_IN" "current_task (mu_k s) this = Some t" "mx_count (mu_m s) = 1"
    and e: "mutex_ipcp_unlock cfg pf resumed i this (mu s) = Some mk" and pf: "pf_waitless pf" "\<And>k. same_real (resumed k) k"
  obtains "mx_holder (fst mk) = None" "mx_inv p T (mu_moved mk t MX_OUT s)"
  | u pr cr where "mx_holder (fst mk) = Some u" "mu_pc s u = MX_WAIT pr cr" "mx_inv p T (mu_moved mk u (MX_TRY False pr cr) (mu_moved mk t MX_OUT s))"
proof -
  obtain k1 k2 woken where h: "mx_holder (mu_m s) = Some t" "same_real k1 (mu_k s)" "same_real (snd mk) k2"
    "fst mk = mu_m s\<lparr>mx_count := 0, mx_holder := woken\<rparr>" and w: "waitq_wakeup_front cfg (mx_waitq (mu_m s)) k1 = Some (woken, k2)"
    using unlock_last_cases [OF e t(3,4) pf] by metis
  obtain xs where xs: "mx_tasks p T (mu_k s) (mx_waitq (mu_m s)) (mu_pc s) xs" using inv by (auto simp: mx_inv_def)
  have q: "waiting p (mx_waitq (mu_m s)) k1 xs" using xs waiting_real [OF h(2)] by (simp add: mx_tasks_def)
  have only: "\<not> mx_inside (mu_pc s u)" if "u \<in> T" "u \<noteq> t" for u using that inv h(1) by (auto simp: mx_inv_def mx_holds_def)
  show ?thesis
  proof (cases xs)
    case Nil
    have r: "woken = None" "queue_becomes p (mx_waitq (mu_m s)) [] {} k1 k2"
      using w waitq_wakeup_front_none(1) [OF q [unfolded Nil], of cfg] waitq_wakeup_front_none(2) [OF q [unfolded Nil]] by auto
    have "mx_tasks p T (snd mk) (mx_waitq (mu_m s)) ((mu_pc s)(t := MX_OUT)) []"
      using xs Nil by (intro mx_tasks_becomes [OF xs r(2) h(2,3)]) (auto simp: mx_tasks_def)
    moreover have "mx_holds T (fst mk) ((mu_pc s)(t := MX_OUT))" using h(4) r(1) only xs Nil by (auto simp: mx_holds_def mx_tasks_def)
    ultimately show ?thesis using that(1) h(4) r(1) by (auto simp: mx_inv_def)
  next
    case (Cons u ys)
    from waitq_wakeup_front_waiting [OF q [unfolded Cons], of cfg] w
    have r: "woken = Some u" "queue_becomes p (mx_waitq (mu_m s)) ys (set (u # ys)) k1 k2" by auto
    have sxs: "set xs = {t \<in> T. mx_blocked (mu_pc s t)}" using xs by (simp add: mx_tasks_def)
    then have u: "u \<in> T" "mx_blocked (mu_pc s u)" using Cons by auto
    then have ut: "u \<noteq> t" using t(2) by auto
    obtain pr cr where pc: "mu_pc s u = MX_WAIT pr cr" using u(2) by (cases "mu_pc s u") auto
    have "distinct (u # ys)" using q waiting_distinct Cons by blast
    then have "set ys = {x \<in> T. mx_blocked (((mu_pc s)(t := MX_OUT, u := MX_TRY False pr cr)) x)}" using sxs t(2) unfolding Cons by (simp add: set_eq_iff) (metis mx_blocked.simps)
    then have "mx_tasks p T (snd mk) (mx_waitq (mu_m s)) ((mu_pc s)(t := MX_OUT, u := MX_TRY False pr cr)) ys"
      using Cons by (intro mx_tasks_becomes [OF xs r(2) h(2,3)]) auto
    moreover have "mx_holds T (fst mk) ((mu_pc s)(t := MX_OUT, u := MX_TRY False pr cr))" using h(4) r(1) only u ut by (auto simp: mx_holds_def)
    ultimately show ?thesis using that(2) [OF _ pc] h(4) r(1) by (auto simp: mx_inv_def)
  qed
qed

lemma mx_expire_keeps:
  assumes inv: "mx_inv p T s" and t: "t \<in> T" "mu_pc s t = MX_WAIT pr cr" "task_waitq (k_task (mu_k s) t) = Some (mx_waitq (mu_m s))"
    and k: "timeout_task_dequeue_from_waitq cfg t b (mu_k s) = Some k"
  shows "mx_inv p T (mu_moved (mu_m s, k) t (MX_FAILED pr cr) s)"
proof -
  obtain xs where xs: "mx_tasks p T (mu_k s) (mx_waitq (mu_m s)) (mu_pc s) xs" using inv by (auto simp: mx_inv_def)
  then have q: "waiting p (mx_waitq (mu_m s)) (mu_k s) xs" and sxs: "set xs = {t \<in> T. mx_blocked (mu_pc s t)}" by (simp_all add: mx_tasks_def)
  obtain as bs where ab: "xs = as @ t # bs" using sxs t(1,2) split_list [of t xs] by auto
  have d: "distinct xs" using q waiting_distinct by blast
  have r: "queue_becomes p (mx_waitq (mu_m s)) (as @ bs) (set xs) (mu_k s) k"
    using timeout_dequeue_waiting [of p _ "mu_k s" as t bs cfg b] q ab t(3) k by auto
  have "set (as @ bs) = {x \<in> T. mx_blocked (((mu_pc s)(t := MX_FAILED pr cr)) x)}" using sxs d ab by auto
  then have "mx_tasks p T k (mx_waitq (mu_m s)) ((mu_pc s)(t := MX_FAILED pr cr)) (as @ bs)"
    by (intro mx_tasks_becomes [OF xs r]) auto
  moreover have "mx_holds T (mu_m s) ((mu_pc s)(t := MX_FAILED pr cr))"
    using inv t(1,2) by (auto simp: mx_inv_def mx_holds_def split: option.splits)
  ultimately show ?thesis by (auto simp: mx_inv_def)
qed


lemma mx_nested_keeps:
  assumes inv: "mx_inv p T s" and t: "t \<in> T" "mu_pc s t = MX_IN" and h: "mx_holder (mu_m s) = Some t" and c: "mx_count (mu_m s) \<noteq> 1"
  shows "mx_inv p T (mu_moved ((mu_m s)\<lparr>mx_count := mx_count (mu_m s) - 1\<rparr>, mu_k s) t MX_IN s)"
proof -
  have "0 < mx_count (mu_m s) - 1" using c by (metis right_minus_eq word_gt_0)
  moreover have "mx_holds T (mu_m s) (mu_pc s)" using inv by (simp add: mx_inv_def)
  ultimately have "mx_holds T ((mu_m s)\<lparr>mx_count := mx_count (mu_m s) - 1\<rparr>) (mu_pc s)" using h t(2) by (simp add: mx_holds_def)
  moreover have "(mu_pc s)(t := MX_IN) = mu_pc s" using t(2) by auto
  ultimately show ?thesis using inv unfolding mx_inv_def by simp
qed

lemma mx_trans_inv:
  assumes "mx_trans cfg pf T s s'" and inv: "mx_inv p T s" and pf: "pf_waitless pf"
  shows "mx_inv p T s'"
  using assms(1)
proof cases
  case (enter t this pr cr mk)
  show ?thesis unfolding enter(1) using enter_cases [OF enter(5)] enter(4) by (intro mx_quiet_keeps [OF inv]) auto
next
  case (try_locked t this resumed i mk)
  show ?thesis unfolding try_locked(1) using trylock_locked [OF try_locked(6,3) pf try_locked(5) inv try_locked(2)] try_locked(4) by auto
next
  case (try_failed t this resumed i mk)
  obtain m' k' where mk: "mk = (m', k')" by force
  have "m' = mu_m s \<and> same_real k' (mu_k s)" by (rule trylock_cases [OF try_failed(6) [unfolded mk] try_failed(3) pf try_failed(5)]) auto
  then show ?thesis unfolding try_failed(1) using mk by (intro mx_quiet_keeps [OF inv]) auto
next
  case (pass_locked t this n pr cr others mk)
  then have "mutex_ipcp_trylock cfg pf (\<lambda>k. k) False this (mu s) = Some (True, mk)" using lock_pass_cases(1) by blast
  then show ?thesis using trylock_locked [OF _ pass_locked(3) pf _ inv pass_locked(2)] pass_locked(1,4) by auto
next
  case (pass_blocked t this n pr cr others mk)
  then obtain m' k' k'' where "mutex_ipcp_trylock cfg pf (\<lambda>k. k) False this (mu s) = Some (False, m', k')" "mk = (m', k'')"
    "sched_yield_wait_and_unlock cfg pf others this (mx_waitq (mu_m s)) True False 0 k' = Some k''" using lock_pass_cases(2) by blast
  then show ?thesis using mx_blocked_keeps [OF inv pass_blocked(2) _ pass_blocked(3) pf pass_blocked(5)] pass_blocked(1,4) by auto
next
  case (timed_locked t this n pr cr others ticks i mk)
  then have "mutex_ipcp_trylock cfg pf (\<lambda>k. k) False this (mu s) = Some (True, mk)" using lock_timeout_pass_cases(1) by blast
  then show ?thesis using trylock_locked [OF _ timed_locked(3) pf _ inv timed_locked(2)] timed_locked(1,4) by auto
next
  case (timed_failed t this n pr cr others ticks i mk)
  obtain m' k' where mk: "mk = (m', k')" by force
  have "mutex_ipcp_trylock cfg pf (\<lambda>k. k) False this (mu s) = Some (False, mk)" using timed_failed lock_timeout_pass_cases(2) by blast
  note f = trylock_failed [OF this [unfolded mk] timed_failed(3)]
  obtain xs where "mx_tasks p T (mu_k s) (mx_waitq (mu_m s)) (mu_pc s) xs" using inv by (auto simp: mx_inv_def)
  then have "mx_tasks p T (mu_k s) (mx_waitq (mu_m s)) ((mu_pc s)(t := MX_FAILED pr cr)) xs" using timed_failed(4) by (elim mx_tasks_frame) auto
  then show ?thesis using f mk mx_holds_other [of T "mu_m s" "mu_pc s" _ t "MX_FAILED pr cr"] inv timed_failed(1) by (auto simp: mx_inv_def)
next
  case (timed_blocked t this n pr cr others ticks i mk)
  then obtain m' k' k'' where "mutex_ipcp_trylock cfg pf (\<lambda>k. k) False this (mu s) = Some (False, m', k')" "mk = (m', k'')"
    "sched_yield_wait_and_unlock cfg pf others this (mx_waitq (mu_m s)) True True (ucast ticks) k' = Some k''"
    using lock_timeout_pass_cases(3) by blast
  then show ?thesis using mx_blocked_keeps [OF inv timed_blocked(2) _ timed_blocked(3) pf timed_blocked(5)] timed_blocked(1,4) by auto
next
  case (leave t this pr cr resumed i mk)
  show ?thesis unfolding leave(1) using leave_cases [OF leave(6) pf leave(5)] leave(4) by (intro mx_quiet_keeps [OF inv]) auto
next
  case (fail t this pr cr resumed i mk)
  show ?thesis unfolding fail(1) using fail_cases [OF fail(6) pf fail(5)] fail(4) by (intro mx_quiet_keeps [OF inv]) auto
next
  case (unlock_nested t this resumed i mk)
  show ?thesis unfolding unlock_nested(1)
    using mx_nested_keeps [OF inv unlock_nested(2,4)] unlock_nested_cases [OF unlock_nested(7,3,5)] unlock_nested(5) by auto
next
  case (unlock_free t this resumed i mk)
  from mx_unlock_keeps [OF inv unlock_free(2,4,3,5,7) pf unlock_free(6)] show ?thesis using unlock_free(1,8) by (metis option.distinct(1))
next
  case (unlock_wake t this resumed i mk u pr cr)
  from mx_unlock_keeps [OF inv unlock_wake(2,4,3,5,7) pf unlock_wake(6)] show ?thesis
    using unlock_wake(1,8,9) by (metis mx_pc.inject(2) option.distinct(1) option.inject)
next
  case (expire t pr cr k)
  then show ?thesis using mx_expire_keeps [OF inv] by blast
next
  case (other k)
  then show ?thesis using inv mx_tasks_frame [of p T "mu_k s" _ "mu_pc s" _ k "mu_pc s"] by (auto simp: mx_inv_def)
qed

lemma mx_reachable:
  assumes "(mx_trans cfg pf T)\<^sup>*\<^sup>* s s'" and "mx_initial p T s" and "pf_waitless pf"
  shows "mx_inv p T s'"
  using assms(1)
proof (induction rule: rtranclp_induct)
  case base
  then show ?case using assms(2) by (auto simp: mx_initial_def mx_inv_def mx_tasks_def mx_holds_def)
next
  case (step a b)
  then show ?case using mx_trans_inv assms(3) by blast
qed

text \<open>C5: In every execution of tasks of one real priority \<open>p\<close> from a free mutex that was initialised statically (by
  \<^const>\<open>INITIALIZE_MUTEX_IPCP\<close>, which leaves room for the paths of the tree, unlike \<^const>\<open>mutex_ipcp_init\<close>), at most one task is
  inside, and that task is the holder; and while a task is blocked the mutex has a holder, which is inside or has been handed the mutex and
  is on its way in, so that its unlocking will wake the next one. Interrupts may be on or off, and enabling preemption may yield. The
  scheduler's devices and callbacks leave the wait queues alone.\<close>

theorem mutex_exclusion:
  assumes "mx_initial p T s" and "(mx_trans cfg pf T)\<^sup>*\<^sup>* s s'" and "pf_waitless pf"
  shows "(\<forall>t \<in> T. mu_pc s' t = MX_IN \<longrightarrow> mx_holder (mu_m s') = Some t) \<and>
    (\<forall>t \<in> T. mx_blocked (mu_pc s' t) \<longrightarrow> (\<exists>h \<in> T. mx_holder (mu_m s') = Some h \<and> (mx_inside (mu_pc s' h) \<or> mx_trying (mu_pc s' h))))"
  using mx_reachable [OF assms(2,1,3)] by (auto simp: mx_inv_def mx_holds_def split: option.splits)


section \<open>Priorities\<close>

definition raise_to :: "mutex_ipcp \<Rightarrow> task_ptr \<Rightarrow> 'a wkernel_scheme \<Rightarrow> 'a wkernel_scheme" where
  "raise_to m t = upd_task t (\<lambda>s. s\<lparr>task_priority := mx_priority_ceiling m, task_criticality := mx_criticality_ceiling m\<rparr>)"

lemma trylock_free:
  assumes "current_task k this = Some t" and "\<not> pc_handling_isr (k_cpu k this)" and "mx_holder m = None"
    and "task_priority (k_task k t) \<le> mx_priority_ceiling m" and "task_criticality (k_task k t) \<le> mx_criticality_ceiling m"
  shows "mutex_ipcp_trylock cfg pf resumed False this (m, k) = Some (True,
    m\<lparr>mx_holder := Some t, mx_last_priority := task_priority (k_task k t), mx_last_criticality := task_criticality (k_task k t), mx_count := 1\<rparr>,
    raise_to m t k)"
proof -
  have up: "current_task (upd_task t f k) this = Some t" for f using assms(1) by simp
  show ?thesis using assms
    by (simp add: mutex_ipcp_trylock_def disable_preemption_def current_task_write_def enable_preemption_counts [OF up] upd_task_twice raise_to_def Let_def)
qed

lemma trylock_held:
  assumes "current_task k this = Some t" and "\<not> pc_handling_isr (k_cpu k this)" and "mx_holder m = Some t" and "mx_count m < - 1"
  shows "mutex_ipcp_trylock cfg pf resumed False this (m, k) = Some (True, m\<lparr>mx_count := mx_count m + 1\<rparr>, k)"
proof -
  have up: "current_task (upd_task t f k) this = Some t" for f using assms(1) by simp
  show ?thesis using assms
    by (simp add: mutex_ipcp_trylock_def disable_preemption_def enable_preemption_counts [OF up] upd_task_twice Let_def)
qed

definition entered :: "mutex_ipcp \<Rightarrow> task_ptr \<Rightarrow> 'a wkernel_scheme \<Rightarrow> 'a wkernel_scheme" where
  "entered m t = upd_task t (\<lambda>s. s\<lparr>task_preemption_count := task_preemption_count s + 1, task_priority := mx_priority_ceiling m,
     task_criticality := mx_criticality_ceiling m\<rparr>)"

lemma lock_enter:
  "current_task k this = Some t \<Longrightarrow> mutex_ipcp_lock_enter this (m, k) = Some (task_priority (k_task k t), task_criticality (k_task k t), m, entered m t k)"
  by (simp add: mutex_ipcp_lock_enter_def disable_preemption_def current_task_write_def entered_def upd_task_twice Let_def)

lemma lock_leave:
  assumes "current_task k this = Some t" and "i \<longrightarrow> \<not> task_yield_request (k_task k t)"
  shows "mutex_ipcp_lock_leave cfg pf resumed i this pr cr (m', entered m t k) = Some (m'\<lparr>mx_last_priority := pr, mx_last_criticality := cr\<rparr>, raise_to m t k)"
proof -
  have "current_task (entered m t k) this = Some t" "i \<longrightarrow> \<not> task_yield_request (k_task (entered m t k) t)" using assms by (simp_all add: entered_def)
  then show ?thesis by (simp add: mutex_ipcp_lock_leave_def enable_preemption_counts) (simp add: entered_def raise_to_def upd_task_twice)
qed

lemma entered_simps [simp]:
  "current_task (entered m t k) this = current_task k this" "pc_handling_isr (k_cpu (entered m t k) this) = pc_handling_isr (k_cpu k this)"
  "task_priority (k_task (entered m t k) t) = mx_priority_ceiling m" "task_criticality (k_task (entered m t k) t) = mx_criticality_ceiling m"
  "raise_to m t (entered m t k) = entered m t k"
  by (simp_all add: entered_def raise_to_def upd_task_twice)

lemma raise_to_simps [simp]:
  "current_task (raise_to m t k) this = current_task k this" "pc_handling_isr (k_cpu (raise_to m t k) this) = pc_handling_isr (k_cpu k this)"
  "k_task (raise_to m t k) t = (k_task k t)\<lparr>task_priority := mx_priority_ceiling m, task_criticality := mx_criticality_ceiling m\<rparr>"
  "flat_of w (raise_to m t k) = flat_of w k"
  by (simp_all add: raise_to_def)

lemma lock_now_free:
  assumes "current_task k this = Some t" and "\<not> pc_handling_isr (k_cpu k this)" and "i \<longrightarrow> \<not> task_yield_request (k_task k t)" and "mx_holder m = None"
  shows "mutex_ipcp_lock_now cfg pf others i this (m, k) = Some (m\<lparr>mx_holder := Some t, mx_last_priority := task_priority (k_task k t),
    mx_last_criticality := task_criticality (k_task k t), mx_count := 1\<rparr>, raise_to m t k)"
  using assms
  by (simp add: mutex_ipcp_lock_now_def lock_enter mutex_ipcp_lock_pass_def waitq_task_wait_until_def trylock_free lock_leave)

lemma lock_now_held:
  assumes "current_task k this = Some t" and "\<not> pc_handling_isr (k_cpu k this)" and "i \<longrightarrow> \<not> task_yield_request (k_task k t)" and "mx_holder m = Some t"
    and "mx_count m < - 1"
  shows "mutex_ipcp_lock_now cfg pf others i this (m, k) = Some (m\<lparr>mx_count := mx_count m + 1, mx_last_priority := task_priority (k_task k t),
    mx_last_criticality := task_criticality (k_task k t)\<rparr>, raise_to m t k)"
  using assms
  by (simp add: mutex_ipcp_lock_now_def lock_enter mutex_ipcp_lock_pass_def waitq_task_wait_until_def trylock_held lock_leave)

text \<open>Nobody waits: the tree of the wait queue is empty. This does not depend on how the queue was initialised.\<close>

definition nobody_waits :: "waitq_ptr \<Rightarrow> 'a wkernel_scheme \<Rightarrow> bool" where
  "nobody_waits w k \<longleftrightarrow> at_root (wk_waitq k w) = None"

lemma nobody_waits_upd_task [simp]: "nobody_waits w (upd_task t f k) = nobody_waits w k" "nobody_waits w (raise_to m t k) = nobody_waits w k"
  by (simp_all add: nobody_waits_def upd_task_def raise_to_def)

lemma nobody_waits_init: "nobody_waits (mx_waitq m) (snd (snd (mutex_ipcp_init cfg pc cc (m, k))))" if "unat cc < num_criticalities cfg"
  using that by (simp add: nobody_waits_def mutex_ipcp_init_def waitq_init_def)

lemma wakeup_nobody: "nobody_waits w k \<Longrightarrow> waitq_wakeup_front cfg w k = Some (None, put_flat w (flat_of w k) k)"
  by (simp add: nobody_waits_def waitq_wakeup_front_def waitq_popfront_def flat_priorityq_popfront_def avl_find_highest_def flat_of_def)

lemma unlock_last:
  assumes cur: "current_task k this = Some t" and i: "i \<longrightarrow> \<not> task_yield_request (k_task k t)" and "mx_holder m = Some t" and "mx_count m = 1"
    and w: "nobody_waits (mx_waitq m) k"
  obtains k' where "mutex_ipcp_unlock cfg pf resumed i this (m, k) = Some (m\<lparr>mx_count := 0, mx_holder := None\<rparr>, k')"
    "k_task k' t = (k_task k t)\<lparr>task_priority := mx_last_priority m, task_criticality := mx_last_criticality m\<rparr>"
proof -
  let ?k = "upd_task t (\<lambda>s. s\<lparr>task_preemption_count := task_preemption_count s + 1\<rparr>) k"
  let ?k1 = "put_flat (mx_waitq m) (flat_of (mx_waitq m) k) ?k"
  let ?k2 = "upd_task t (\<lambda>s. s\<lparr>task_priority := mx_last_priority m, task_criticality := mx_last_criticality m\<rparr>) ?k1"
  have n: "waitq_wakeup_front cfg (mx_waitq m) ?k = Some (None, ?k1)" using wakeup_nobody [of "mx_waitq m" ?k cfg] w by simp
  have c1: "current_task ?k1 this = Some t" using cur by (simp add: put_flat_def current_task_def)
  then have "current_task ?k2 this = Some t" by simp
  moreover have "i \<longrightarrow> \<not> task_yield_request (k_task ?k2 t)" using i by (simp add: put_flat_def)
  ultimately have "mutex_ipcp_unlock cfg pf resumed i this (m, k) = Some (m\<lparr>mx_count := 0, mx_holder := None\<rparr>,
      upd_task t (\<lambda>s. s\<lparr>task_preemption_count := task_preemption_count s - 1\<rparr>) ?k2)"
    using assms(3,4) cur c1 n
    by (simp add: mutex_ipcp_unlock_def disable_preemption_def current_task_write_def enable_preemption_counts Let_def)
  then show ?thesis by (rule that) (simp add: put_flat_def)
qed

text \<open>C10: Locking a free mutex for which nobody waits, and unlocking it: in between the task runs at the ceiling, and afterwards its record is
  what it was, and the mutex is free. The task is not in an interrupt handler, and interrupts are disabled or no yield is requested of it, so
  that enabling preemption does not switch tasks. The mutex may have been initialised either way.\<close>

theorem mutex_ceiling_roundtrip:
  assumes "current_task k this = Some t" and "\<not> pc_handling_isr (k_cpu k this)" and "i \<longrightarrow> \<not> task_yield_request (k_task k t)"
    and "mx_holder m = None" and "nobody_waits (mx_waitq m) k"
  shows "\<exists>m1 k1 m2 k2. mutex_ipcp_lock_now cfg pf others i this (m, k) = Some (m1, k1) \<and> mx_holder m1 = Some t \<and>
    task_priority (k_task k1 t) = mx_priority_ceiling m \<and> task_criticality (k_task k1 t) = mx_criticality_ceiling m \<and>
    mutex_ipcp_unlock cfg pf resumed i this (m1, k1) = Some (m2, k2) \<and> mx_holder m2 = None \<and> k_task k2 t = k_task k t"
proof -
  let ?m = "m\<lparr>mx_holder := Some t, mx_last_priority := task_priority (k_task k t), mx_last_criticality := task_criticality (k_task k t), mx_count := 1\<rparr>"
  have c: "current_task (raise_to m t k) this = Some t" "i \<longrightarrow> \<not> task_yield_request (k_task (raise_to m t k) t)" "mx_holder ?m = Some t"
    "mx_count ?m = 1" "nobody_waits (mx_waitq ?m) (raise_to m t k)" using assms by simp_all
  obtain k' where "mutex_ipcp_unlock cfg pf resumed i this (?m, raise_to m t k) = Some (?m\<lparr>mx_count := 0, mx_holder := None\<rparr>, k')"
    "k_task k' t = (k_task (raise_to m t k) t)\<lparr>task_priority := mx_last_priority ?m, task_criticality := mx_last_criticality ?m\<rparr>"
    using unlock_last [OF c] by metis
  then show ?thesis using lock_now_free [OF assms(1-4)] by simp
qed

text \<open>C38: Locking it a second time while holding it overwrites the priority that was remembered: after two calls of lock on a mutex that was
  free and for which nobody waits, and two of unlock, the mutex is free and the task still runs at the ceiling. Conditions as before.\<close>

theorem mutex_recursive_priority:
  assumes "current_task k this = Some t" and "\<not> pc_handling_isr (k_cpu k this)" and "i \<longrightarrow> \<not> task_yield_request (k_task k t)"
    and "mx_holder m = None" and "nobody_waits (mx_waitq m) k"
  shows "\<exists>s1 s2 s3 m4 k4. mutex_ipcp_lock_now cfg pf others i this (m, k) = Some s1 \<and> mutex_ipcp_lock_now cfg pf others i this s1 = Some s2 \<and>
    mutex_ipcp_unlock cfg pf resumed i this s2 = Some s3 \<and> mutex_ipcp_unlock cfg pf resumed i this s3 = Some (m4, k4) \<and>
    mx_holder m4 = None \<and> task_priority (k_task k4 t) = mx_priority_ceiling m \<and> task_criticality (k_task k4 t) = mx_criticality_ceiling m"
proof -
  let ?m1 = "m\<lparr>mx_holder := Some t, mx_last_priority := task_priority (k_task k t), mx_last_criticality := task_criticality (k_task k t), mx_count := 1\<rparr>"
  let ?k = "raise_to m t k" and ?m2 = "?m1\<lparr>mx_count := 2, mx_last_priority := mx_priority_ceiling m, mx_last_criticality := mx_criticality_ceiling m\<rparr>"
  let ?m3 = "?m2\<lparr>mx_count := 1\<rparr>"
  have cur: "current_task ?k this = Some t" "\<not> pc_handling_isr (k_cpu ?k this)" "i \<longrightarrow> \<not> task_yield_request (k_task ?k t)" using assms(1-3) by simp_all
  have "(1 :: u64) < - 1" by code_simp
  moreover have "raise_to ?m1 t ?k = ?k" by (simp add: raise_to_def upd_task_twice)
  ultimately have l: "mutex_ipcp_lock_now cfg pf others i this (?m1, ?k) = Some (?m2, ?k)" using lock_now_held [OF cur, of ?m1 cfg pf others] by simp
  have u: "mutex_ipcp_unlock cfg pf resumed i this (?m2, ?k) = Some (?m3, ?k)" using cur by (simp add: mutex_ipcp_unlock_def)
  have h: "mx_holder ?m3 = Some t" "mx_count ?m3 = 1" "nobody_waits (mx_waitq ?m3) ?k" using assms(5) by simp_all
  obtain k' where "mutex_ipcp_unlock cfg pf resumed i this (?m3, ?k) = Some (?m3\<lparr>mx_count := 0, mx_holder := None\<rparr>, k')"
    "k_task k' t = (k_task ?k t)\<lparr>task_priority := mx_last_priority ?m3, task_criticality := mx_last_criticality ?m3\<rparr>"
    using unlock_last [OF cur(1,3) h] by metis
  then show ?thesis using lock_now_free [OF assms(1-4), of cfg pf others] l u by simp
qed

section \<open>Witnesses\<close>

definition mx_free :: mutex_ipcp where
  "mx_free = \<lparr>mx_priority_ceiling = 5, mx_criticality_ceiling = 1, mx_last_priority = 0, mx_last_criticality = 0, mx_holder = None,
     mx_count = 0, mx_waitq = 0\<rparr>"

definition mx_start :: "wkernel mx_state" where
  "mx_start = \<lparr>mu_m = mx_free, mu_k = wrunning, mu_pc = (\<lambda>_. MX_OUT)\<rparr>"

lemma wrunning_real: "queue_priority True wrunning t = 0"
  by (simp add: queue_priority_def wrunning_fields running_def two_tasks_fields set_current_task_def)
    (simp add: two_tasks_def boot_kernel_def boot_cpu_def sched_do_push_def zero_task_def)

lemma wrunning_flags: "task_yield_request (k_task wrunning t) = False" "task_criticality (k_task wrunning 1) = 1" "nobody_waits w wrunning"
  by (simp_all add: nobody_waits_def wrunning_fields running_def two_tasks_fields set_current_task_def INITIALIZE_FLAT_PRIORITYQ_def)
    (simp add: two_tasks_def boot_kernel_def boot_cpu_def sched_do_push_def zero_task_def)

lemma mx_start_initial: "mx_initial 0 {1, 2} mx_start"
  using wrunning_waiting [of 0 0] by (simp add: mx_initial_def mx_start_def mx_free_def wrunning_fields wrunning_real)

text \<open>Task 1 takes the mutex on CPU 0; task 2, which runs on CPU 1 then, tries in vain.\<close>

theorem mutex_exclusion_witness:
  "\<exists>s'. (mx_trans default_config wnull_platform {1, 2})\<^sup>*\<^sup>* mx_start s' \<and> mu_pc s' 1 = MX_IN \<and> mu_pc s' 2 \<noteq> MX_IN \<and> current_task (mu_k s') 1 = Some 2"
proof -
  let ?step = "mx_trans default_config wnull_platform {1, 2}"
  have pr: "task_priority (k_task wrunning 1) \<le> 5" using wrunning_ready(6) by (simp add: queue_priority_def)
  let ?m = "mx_free\<lparr>mx_holder := Some 1, mx_last_priority := task_priority (k_task wrunning 1), mx_last_criticality := task_criticality (k_task wrunning 1), mx_count := 1\<rparr>"
  let ?k = "raise_to mx_free 1 wrunning" and ?k2 = "set_current_task 1 (Some 2) (raise_to mx_free 1 wrunning)"
  let ?s1 = "mu_moved (?m, ?k) 1 MX_IN mx_start" and ?s2 = "(mu_moved (?m, ?k) 1 MX_IN mx_start)\<lparr>mu_k := ?k2\<rparr>"
  have "mutex_ipcp_trylock default_config wnull_platform (\<lambda>k. k) False 0 (mu mx_start) = Some (True, ?m, ?k)"
    using trylock_free [OF wrunning_ready(2,3), of mx_free default_config wnull_platform "\<lambda>k. k"] pr wrunning_flags(2) by (simp add: mx_start_def mx_free_def)
  then have 1: "?step mx_start ?s1" by (intro mx_trans.try_locked) (simp_all add: mx_start_def wrunning_ready)
  have 2: "?step ?s1 ?s2" by (rule mx_trans.other) (simp add: same_wait_upd same_wait_real)
  have isr: "\<not> pc_handling_isr (k_cpu ?k2 1)" by (simp add: set_current_task_def upd_cpu_def wrunning_priority)
  have "mutex_ipcp_trylock default_config wnull_platform (\<lambda>k. k) False 1 (mu ?s2) = Some (False, ?m, ?k2)"
    using isr by (simp add: mutex_ipcp_trylock_def disable_preemption_def enable_preemption_counts upd_task_twice)
  then have 3: "?step ?s2 (mu_moved (?m, ?k2) 2 (mu_pc ?s2 2) ?s2)" by (intro mx_trans.try_failed) (simp_all add: mx_start_def)
  let ?s3 = "mu_moved (?m, ?k2) 2 (mu_pc ?s2 2) ?s2"
  have r: "?step\<^sup>*\<^sup>* mx_start ?s3" using 1 2 3 by (meson converse_rtranclp_into_rtranclp rtranclp.rtrancl_refl)
  have "mu_pc ?s3 2 = MX_IN \<longrightarrow> mx_holder (mu_m ?s3) = Some 2"
    using mutex_exclusion [OF mx_start_initial r wnull_platform_quiet(2)] by blast
  then have "mu_pc ?s3 2 \<noteq> MX_IN" by simp
  then show ?thesis using r by (intro exI [of _ ?s3]) simp
qed

theorem mutex_ceiling_roundtrip_witness:
  "\<exists>m1 k1 m2 k2. mutex_ipcp_lock_now default_config wnull_platform (\<lambda>k. k) True 0 (mx_free, wrunning) = Some (m1, k1) \<and>
     task_priority (k_task k1 1) = 5 \<and> mutex_ipcp_unlock default_config wnull_platform (\<lambda>k. k) True 0 (m1, k1) = Some (m2, k2) \<and>
     mx_holder m2 = None \<and> k_task k2 1 = k_task wrunning 1"
  using mutex_ceiling_roundtrip [OF wrunning_ready(2,3), of True mx_free default_config wnull_platform "\<lambda>k. k" "\<lambda>k. k"] wrunning_flags(1,3)
  by (auto simp: mx_free_def)

theorem mutex_recursive_priority_witness:
  "task_priority (k_task wrunning 1) = 1 \<and>
   (\<exists>s1 s2 s3 m4 k4. mutex_ipcp_lock_now default_config wnull_platform (\<lambda>k. k) True 0 (mx_free, wrunning) = Some s1 \<and>
     mutex_ipcp_lock_now default_config wnull_platform (\<lambda>k. k) True 0 s1 = Some s2 \<and>
     mutex_ipcp_unlock default_config wnull_platform (\<lambda>k. k) True 0 s2 = Some s3 \<and>
     mutex_ipcp_unlock default_config wnull_platform (\<lambda>k. k) True 0 s3 = Some (m4, k4) \<and>
     mx_holder m4 = None \<and> task_priority (k_task k4 1) = 5)"
proof -
  have "mx_holder mx_free = None" "mx_priority_ceiling mx_free = 5" by (simp_all add: mx_free_def)
  moreover have "task_priority (k_task wrunning 1) = 1" using wrunning_ready(6) by (simp add: queue_priority_def)
  ultimately show ?thesis
    using mutex_recursive_priority [OF wrunning_ready(2,3), of True mx_free default_config wnull_platform "\<lambda>k. k" "\<lambda>k. k"] wrunning_flags(1,3) by metis
qed

end
