(* ===== verification/Twan_Vpartition.thy ===== *)
theory Twan_Vpartition
  imports Twan_Delta Twan_Task
begin

text \<open>
  The data of the hypervisor (\<open>include/subsys/twanvisor/\<close>: \<open>vsched/vcpu.h\<close>, \<open>vsched/vpartition.h\<close>,
  \<open>vsched/vsched_dsa.h\<close>, \<open>twanvisor.h\<close>) and the partition table of
  \<open>src/subsys/twanvisor/vsched/vpartition.c\<close>: virtual CPUs, partitions, the per-CPU schedulers
  and the state that holds them all. A virtual CPU and a partition are known by their
  addresses; \<^verbatim>\<open>&vpartition->vcpus[i]\<close> is the base address plus \<open>i\<close>. What a lock protects is one
  atomic step; \<^verbatim>\<open>vpartition_get\<close> and \<^verbatim>\<open>vpartition_put\<close> only lock and unlock the table entry.
\<close>

section \<open>Virtual CPUs\<close>

datatype vcpu_state =
  VREADY | VRUNNING | VPAUSED | VPV_SPINNING | VTRANSITIONING | VTERMINATED | VINITIALIZING

fun vcpu_state_val :: "vcpu_state \<Rightarrow> int" where
  "vcpu_state_val VREADY = 0"
| "vcpu_state_val VRUNNING = 1"
| "vcpu_state_val VPAUSED = 2"
| "vcpu_state_val VPV_SPINNING = 3"
| "vcpu_state_val VTRANSITIONING = 4"
| "vcpu_state_val VTERMINATED = 5"
| "vcpu_state_val VINITIALIZING = 6"

datatype vcpu_vboot_state = VBOOT_NONE | VBOOT_READY | VBOOT_PAUSED

datatype vcpu_pv_spin_state = VSPIN_NONE | VSPIN_PAUSED | VSPIN_KICKED

type_synonym vcpu_ptr = nat
type_synonym vpartition_ptr = nat

text \<open>\<^verbatim>\<open>struct vtimer\<close>; its delta node is the node \<open>n\<close> of the chain of its virtual CPU, where \<open>n\<close> is its
  index in \<^verbatim>\<open>timers\<close>.\<close>

record vtimer =
  vt_vector :: u8
  vt_periodic :: bool
  vt_armed :: bool
  vt_nmi :: bool
  vt_ticks :: u32

text \<open>\<^verbatim>\<open>vinterrupt_delivery_data_t\<close>.\<close>

record vinterrupt_delivery_data =
  vd_in_intl :: u16
  vd_nmi_pending :: bool
  vd_intl :: u32
  vd_int_window_exit :: bool
  vd_nmi_window_exit :: bool

text \<open>The access-control bitmaps of a virtual CPU, and the physical addresses and counts that the creation
  of a partition checks. The struct is packed: \<^verbatim>\<open>io_bitmap_a\<close>, \<^verbatim>\<open>io_bitmap_b\<close> and \<^verbatim>\<open>msr_bitmap\<close> are its first
  three pages, \<open>va_bitmaps\<close> is the memory from its start.\<close>

record vcpu_regions_arch =
  va_bitmaps :: "nat \<Rightarrow> u8"
  va_io_bitmap_a_phys :: u64
  va_io_bitmap_b_phys :: u64
  va_msr_bitmap_phys :: u64
  va_vmcs_phys :: u64
  va_ve_info_area_phys :: u64
  va_vexit_msr_load_area_phys :: u64
  va_msr_load_save_area_phys :: u64
  va_vexit_load_count :: u32
  va_msr_load_save_count :: u32

text \<open>Events of the processor: \<^verbatim>\<open>vectored_events_info_t\<close> and \<^verbatim>\<open>vmentry_interrupt_info_t\<close>.\<close>

datatype interrupt_type =
  INTERRUPT_TYPE_EXTERNAL | INTERRUPT_TYPE_RESERVED | INTERRUPT_TYPE_NMI | INTERRUPT_TYPE_HARDWARE_EXCEPTION
| INTERRUPT_TYPE_SOFTWARE_INT | INTERRUPT_TYPE_PRIV_SOFTWARE_EXCEPTION | INTERRUPT_TYPE_SOFTWARE_EXCEPTION
| INTERRUPT_TYPE_OTHER_EVENT

record vectored_events_info =
  ve_vector :: u8
  ve_type :: interrupt_type
  ve_errcode_delivered :: bool
  ve_valid :: bool

record vmentry_interrupt_info =
  ei_vector :: u8
  ei_type :: interrupt_type
  ei_deliver_errcode :: bool
  ei_valid :: bool

text \<open>The \<^verbatim>\<open>voperation_queue\<close> of a virtual CPU, with the bits of \<^verbatim>\<open>voperations_pending_t\<close>.\<close>

record voperation_queue =
  vq_vmwrite_cr4 :: bool
  vq_vmwrite_cr0 :: bool
  vq_should_advance :: bool
  vq_idt_vectoring :: bool
  vq_use_synth_errcode :: bool
  vq_cr0 :: u64
  vq_cr4 :: u64
  vq_idt_vectoring_info :: vectored_events_info
  vq_synth_errcode :: u64

text \<open>The fields of the VMCS that the modelled code reads and writes; the control words appear by the bits
  that it uses.\<close>

record vmcs =
  vm_guest_cr0 :: u64
  vm_guest_cr4 :: u64
  vm_guest_rip :: u64
  vm_guest_rflags :: u64
  vm_guest_efer :: u64
  vm_cs_dpl :: nat
  vm_cs_longmode :: bool
  vm_cs_db :: bool
  vm_sti_blocking :: bool
  vm_mov_ss_blocking :: bool
  vm_nmi_blocking :: bool
  vm_entry_info :: vmentry_interrupt_info
  vm_entry_errcode :: u64
  vm_entry_length :: u32
  vm_exit_length :: u32
  vm_idt_errcode :: u64
  vm_nmi_window_exiting :: bool
  vm_interrupt_window_exiting :: bool
  vm_timer_value :: u32
  vm_activate_timer :: bool
  vm_save_timer :: bool

text \<open>\<open>v_vmcs\<close> is the content of the region \<^verbatim>\<open>vcpu->arch.vmcs\<close>.\<close>

record vcpu =
  v_arch :: vcpu_regions_arch
  v_root :: bool
  v_state :: vcpu_state
  v_tlb_flush_pending :: bool
  v_criticality :: u8
  v_time_slice_ticks :: u32
  v_current_time_slice_ticks :: u32
  v_rearm :: bool
  v_terminate :: bool
  v_pv_spin_state :: vcpu_pv_spin_state
  v_preemption_count :: u32
  v_preempted :: bool
  v_yield_request :: bool
  v_timers :: "u8 \<Rightarrow> vtimer"
  v_timer_chain :: "u8 delta_chain"
  v_processor_id :: u32
  v_vpid :: u16
  v_vpid_enabled :: bool
  v_vid :: u32
  v_vpartition_num_cpus :: u32
  v_vpartition :: vpartition_ptr
  v_context :: cpu_context
  v_schedule_callback_func :: "func_ptr option"
  v_vqueue_id :: u32
  v_wait_for_map :: "u32 \<Rightarrow> bool"
  v_allowed_external_vectors :: bmp256
  v_subscribed_vectors :: bmp256
  v_delivery :: vinterrupt_delivery_data
  v_pending_external_interrupts :: bmp256
  v_queue :: voperation_queue
  v_vlaunch_rip :: u64
  v_vboot_state :: vcpu_vboot_state
  v_ept_ve :: bool
  v_vmcs :: vmcs

section \<open>Partitions\<close>

datatype vroute_type = VIPI_ROUTE | VTLB_SHOOTDOWN_ROUTE | VREAD_VCPU_STATE_ROUTE | VPV_SPIN_KICK_ROUTE

text \<open>The route numbers below \<^verbatim>\<open>VNUM_ROUTE_TYPES\<close>.\<close>

definition vroute_of :: "u32 \<Rightarrow> vroute_type option" where
  "vroute_of n = (if n = 0 then Some VIPI_ROUTE else if n = 1 then Some VTLB_SHOOTDOWN_ROUTE
     else if n = 2 then Some VREAD_VCPU_STATE_ROUTE else if n = 3 then Some VPV_SPIN_KICK_ROUTE
     else None)"

record vcriticality_perm =
  vp_read :: bool
  vp_write :: bool
  vp_min_criticality_writeable :: u8
  vp_max_criticality_writeable :: u8

text \<open>The bit fields of the 32-bit \<^verbatim>\<open>vcriticality_perm_t\<close>.\<close>

definition vcriticality_perm_of :: "u32 \<Rightarrow> vcriticality_perm" where
  "vcriticality_perm_of v = \<lparr>vp_read = bit v 0, vp_write = bit v 1,
     vp_min_criticality_writeable = ucast (drop_bit 2 v),
     vp_max_criticality_writeable = ucast (drop_bit 10 v)\<rparr>"

record vpartition =
  vp_ept_enabled :: bool
  vp_ept_caching_policy :: u32
  vp_ipi_receivers :: bmp256
  vp_ipi_senders :: bmp256
  vp_tlb_shootdown_receivers :: bmp256
  vp_tlb_shootdown_senders :: bmp256
  vp_read_vcpu_state_receivers :: bmp256
  vp_read_vcpu_state_senders :: bmp256
  vp_pv_spin_kick_receivers :: bmp256
  vp_pv_spin_kick_senders :: bmp256
  vp_criticality_perms :: "u32 \<Rightarrow> vcriticality_perm"
  vp_root :: bool
  vp_vcpus :: vcpu_ptr
  vp_vcpu_count :: u32
  vp_num_terminated :: u32
  vp_term_processor_id :: u32
  vp_term_vector :: u8
  vp_term_nmi :: bool
  vp_vid :: u8

text \<open>The map pair a route uses, as the \<^verbatim>\<open>switch\<close> of \<^verbatim>\<open>vemu_set_route\<close> selects it.\<close>

fun receivers_of :: "vroute_type \<Rightarrow> vpartition \<Rightarrow> bmp256" where
  "receivers_of VIPI_ROUTE p = vp_ipi_receivers p"
| "receivers_of VTLB_SHOOTDOWN_ROUTE p = vp_tlb_shootdown_receivers p"
| "receivers_of VREAD_VCPU_STATE_ROUTE p = vp_read_vcpu_state_receivers p"
| "receivers_of VPV_SPIN_KICK_ROUTE p = vp_pv_spin_kick_receivers p"

fun senders_of :: "vroute_type \<Rightarrow> vpartition \<Rightarrow> bmp256" where
  "senders_of VIPI_ROUTE p = vp_ipi_senders p"
| "senders_of VTLB_SHOOTDOWN_ROUTE p = vp_tlb_shootdown_senders p"
| "senders_of VREAD_VCPU_STATE_ROUTE p = vp_read_vcpu_state_senders p"
| "senders_of VPV_SPIN_KICK_ROUTE p = vp_pv_spin_kick_senders p"

fun upd_receivers :: "vroute_type \<Rightarrow> (bmp256 \<Rightarrow> bmp256) \<Rightarrow> vpartition \<Rightarrow> vpartition" where
  "upd_receivers VIPI_ROUTE f p = p\<lparr>vp_ipi_receivers := f (vp_ipi_receivers p)\<rparr>"
| "upd_receivers VTLB_SHOOTDOWN_ROUTE f p = p\<lparr>vp_tlb_shootdown_receivers := f (vp_tlb_shootdown_receivers p)\<rparr>"
| "upd_receivers VREAD_VCPU_STATE_ROUTE f p = p\<lparr>vp_read_vcpu_state_receivers := f (vp_read_vcpu_state_receivers p)\<rparr>"
| "upd_receivers VPV_SPIN_KICK_ROUTE f p = p\<lparr>vp_pv_spin_kick_receivers := f (vp_pv_spin_kick_receivers p)\<rparr>"

fun upd_senders :: "vroute_type \<Rightarrow> (bmp256 \<Rightarrow> bmp256) \<Rightarrow> vpartition \<Rightarrow> vpartition" where
  "upd_senders VIPI_ROUTE f p = p\<lparr>vp_ipi_senders := f (vp_ipi_senders p)\<rparr>"
| "upd_senders VTLB_SHOOTDOWN_ROUTE f p = p\<lparr>vp_tlb_shootdown_senders := f (vp_tlb_shootdown_senders p)\<rparr>"
| "upd_senders VREAD_VCPU_STATE_ROUTE f p = p\<lparr>vp_read_vcpu_state_senders := f (vp_read_vcpu_state_senders p)\<rparr>"
| "upd_senders VPV_SPIN_KICK_ROUTE f p = p\<lparr>vp_pv_spin_kick_senders := f (vp_pv_spin_kick_senders p)\<rparr>"

section \<open>Schedulers, CPUs and the hypervisor state\<close>

text \<open>\<open>vs_queues\<close> and \<open>vs_paused_queue\<close> belong to the queued scheduler, \<open>vs_frames\<close> and \<open>vs_clock\<close> to the
  frame scheduler; a build has one of the two.\<close>

type_synonym vnode = "vcpu_ptr \<times> nat"

record vscheduler =
  vs_queues :: "nat \<Rightarrow> vnode dq"
  vs_paused_queue :: "vnode dq"
  vs_frames :: "nat \<Rightarrow> vcpu_ptr option"
  vs_clock :: nat
  vs_criticality_level :: u8
  vs_kick :: bool
  vs_idle_vcpu :: vcpu_ptr

text \<open>The capabilities of a physical CPU that the checks read.\<close>

record vper_cpu =
  vc_unrestricted_guest :: bool
  vc_ept :: bool
  vc_vpid :: bool
  vc_invvpid_single :: bool
  vc_ept_ve :: bool
  vc_msr_area_max :: u32
  vc_mxcsr_mask :: u32
  vc_available_vectors :: bmp256
  vc_handling_isr :: bool
  vc_vcpu_ctx :: interrupt_info
  vc_sched_timer_armed :: bool
  vc_lapic_oneshot :: u32
  vc_current_vcpu :: "vcpu_ptr option"
  vc_dispatch_vectors :: "u8 \<Rightarrow> (vcpu_ptr \<times> u8) dq"
  vc_vcpu_sender_dq :: "(vcpu_ptr \<times> u32) dq"
  vc_vscheduler :: vscheduler

record vtwan =
  tw_vcpu :: "vcpu_ptr \<Rightarrow> vcpu"
  tw_node :: "vnode ld_mem"
  tw_dispatch_node :: "(vcpu_ptr \<times> u8) ld_mem"
  tw_ipi_node :: "(vcpu_ptr \<times> u32) ld_mem"
  tw_partition :: "vpartition_ptr \<Rightarrow> vpartition"
  tw_table :: "u8 \<Rightarrow> vpartition_ptr option"
  tw_vids :: bmp256
  tw_cpu :: "u32 \<Rightarrow> vper_cpu"
  tw_num_cpus :: u32
  tw_root_vid :: u8
  tw_root_num_vcpus :: u32
  tw_sent_ipis :: "u32 list"

record vconfig =
  vcf_num_criticalities :: nat
  vcf_mcfs :: bool
  vcf_num_frames :: nat
  vcf_strict :: bool
  vcf_num_vtimers :: nat
  vcf_num_cpus :: nat

definition VSCHED_MAX_CRITICALITY :: "vconfig \<Rightarrow> nat" where
  "VSCHED_MAX_CRITICALITY cfg = vcf_num_criticalities cfg - 1"

definition upd_vcpu :: "vcpu_ptr \<Rightarrow> (vcpu \<Rightarrow> vcpu) \<Rightarrow> vtwan \<Rightarrow> vtwan" where
  "upd_vcpu v f k = k\<lparr>tw_vcpu := (tw_vcpu k)(v := f (tw_vcpu k v))\<rparr>"

definition upd_partition :: "vpartition_ptr \<Rightarrow> (vpartition \<Rightarrow> vpartition) \<Rightarrow> vtwan \<Rightarrow> vtwan" where
  "upd_partition p f k = k\<lparr>tw_partition := (tw_partition k)(p := f (tw_partition k p))\<rparr>"

definition upd_vcpu_cpu :: "u32 \<Rightarrow> (vper_cpu \<Rightarrow> vper_cpu) \<Rightarrow> vtwan \<Rightarrow> vtwan" where
  "upd_vcpu_cpu c f k = k\<lparr>tw_cpu := (tw_cpu k)(c := f (tw_cpu k c))\<rparr>"

definition upd_vsched :: "u32 \<Rightarrow> (vscheduler \<Rightarrow> vscheduler) \<Rightarrow> vtwan \<Rightarrow> vtwan" where
  "upd_vsched c f = upd_vcpu_cpu c (\<lambda>p. p\<lparr>vc_vscheduler := f (vc_vscheduler p)\<rparr>)"

definition vsched_at :: "vtwan \<Rightarrow> u32 \<Rightarrow> vscheduler" where
  "vsched_at k c = vc_vscheduler (tw_cpu k c)"

text \<open>\<^verbatim>\<open>vcurrent_vcpu\<close>, and the CPU whose scheduler \<^verbatim>\<open>vscheduler_of\<close> returns: the conversions between
  queue and processor numbers are identities.\<close>

definition vcurrent_vcpu :: "vtwan \<Rightarrow> u32 \<Rightarrow> vcpu_ptr option" where
  "vcurrent_vcpu k this = vc_current_vcpu (tw_cpu k this)"

definition vcpu_cpu :: "vtwan \<Rightarrow> vcpu_ptr \<Rightarrow> u32" where
  "vcpu_cpu k v = v_vqueue_id (tw_vcpu k v)"

definition vpartition_vcpu :: "vpartition \<Rightarrow> u32 \<Rightarrow> vcpu_ptr" where
  "vpartition_vcpu p i = vp_vcpus p + unat i"

section \<open>Definitions: partition identifiers and the partition table\<close>

definition vpartition_table_init :: "vtwan \<Rightarrow> vtwan" where
  "vpartition_table_init k = k\<lparr>tw_vids := bmp256_set_all (tw_vids k)\<rparr>"

definition vpartition_id_alloc :: "vtwan \<Rightarrow> int \<times> vtwan" where
  "vpartition_id_alloc k =
     (let ret = bmp256_ffs (tw_vids k)
      in (ret, if ret \<noteq> -1 then k\<lparr>tw_vids := bmp256_unset (tw_vids k) (word_of_int ret)\<rparr> else k))"

definition vpartition_id_free :: "u8 \<Rightarrow> vtwan \<Rightarrow> vtwan" where
  "vpartition_id_free vid k = k\<lparr>tw_vids := bmp256_set (tw_vids k) vid\<rparr>"

definition vpartition_place :: "vpartition_ptr \<Rightarrow> u8 \<Rightarrow> vtwan \<Rightarrow> vtwan" where
  "vpartition_place p vid k = k\<lparr>tw_table := (tw_table k)(vid := Some p)\<rparr>"

definition vpartition_remove :: "u8 \<Rightarrow> vtwan \<Rightarrow> vtwan" where
  "vpartition_remove vid k = k\<lparr>tw_table := (tw_table k)(vid := None)\<rparr>"

text \<open>An invalid entry reads as the null pointer, under the entry's lock and exclusively alike.\<close>

definition vpartition_get :: "vtwan \<Rightarrow> u8 \<Rightarrow> vpartition_ptr option" where
  "vpartition_get k vid = tw_table k vid"

definition vpartition_get_exclusive :: "vtwan \<Rightarrow> u8 \<Rightarrow> vpartition_ptr option" where
  "vpartition_get_exclusive k vid = tw_table k vid"

section \<open>Definitions: the criticality level of a CPU\<close>

definition vsched_mcs_read_criticality_level :: "vtwan \<Rightarrow> u32 \<Rightarrow> u8" where
  "vsched_mcs_read_criticality_level k c = vs_criticality_level (vsched_at k c)"

definition vsched_mcs_write_criticality_level :: "vconfig \<Rightarrow> u32 \<Rightarrow> u8 \<Rightarrow> vtwan \<Rightarrow> int \<times> vtwan" where
  "vsched_mcs_write_criticality_level cfg c criticality k =
     (if unat criticality > VSCHED_MAX_CRITICALITY cfg then (- EINVAL, k)
      else (0, upd_vsched c (\<lambda>s. s\<lparr>vs_criticality_level := criticality\<rparr>) k))"

section \<open>Basic facts\<close>

lemma upd_vcpu_simps [simp]:
  "tw_vcpu (upd_vcpu v f k) = (tw_vcpu k)(v := f (tw_vcpu k v))"
  "tw_node (upd_vcpu v f k) = tw_node k" "tw_dispatch_node (upd_vcpu v f k) = tw_dispatch_node k"
  "tw_ipi_node (upd_vcpu v f k) = tw_ipi_node k" "tw_partition (upd_vcpu v f k) = tw_partition k"
  "tw_table (upd_vcpu v f k) = tw_table k" "tw_vids (upd_vcpu v f k) = tw_vids k"
  "tw_cpu (upd_vcpu v f k) = tw_cpu k" "tw_num_cpus (upd_vcpu v f k) = tw_num_cpus k"
  "tw_root_vid (upd_vcpu v f k) = tw_root_vid k" "tw_sent_ipis (upd_vcpu v f k) = tw_sent_ipis k"
  by (simp_all add: upd_vcpu_def)

lemma upd_partition_simps [simp]:
  "tw_partition (upd_partition p g k) = (tw_partition k)(p := g (tw_partition k p))"
  "tw_node (upd_partition p g k) = tw_node k" "tw_dispatch_node (upd_partition p g k) = tw_dispatch_node k"
  "tw_ipi_node (upd_partition p g k) = tw_ipi_node k" "tw_vcpu (upd_partition p g k) = tw_vcpu k"
  "tw_table (upd_partition p g k) = tw_table k" "tw_vids (upd_partition p g k) = tw_vids k"
  "tw_cpu (upd_partition p g k) = tw_cpu k" "tw_num_cpus (upd_partition p g k) = tw_num_cpus k"
  "tw_root_vid (upd_partition p g k) = tw_root_vid k" "tw_sent_ipis (upd_partition p g k) = tw_sent_ipis k"
  by (simp_all add: upd_partition_def)

lemma upd_vcpu_cpu_simps [simp]:
  "tw_cpu (upd_vcpu_cpu c h k) = (tw_cpu k)(c := h (tw_cpu k c))"
  "tw_node (upd_vcpu_cpu c h k) = tw_node k" "tw_dispatch_node (upd_vcpu_cpu c h k) = tw_dispatch_node k"
  "tw_ipi_node (upd_vcpu_cpu c h k) = tw_ipi_node k" "tw_vcpu (upd_vcpu_cpu c h k) = tw_vcpu k"
  "tw_table (upd_vcpu_cpu c h k) = tw_table k" "tw_vids (upd_vcpu_cpu c h k) = tw_vids k"
  "tw_partition (upd_vcpu_cpu c h k) = tw_partition k" "tw_num_cpus (upd_vcpu_cpu c h k) = tw_num_cpus k"
  "tw_root_vid (upd_vcpu_cpu c h k) = tw_root_vid k" "tw_sent_ipis (upd_vcpu_cpu c h k) = tw_sent_ipis k"
  by (simp_all add: upd_vcpu_cpu_def)

lemma upd_vsched_simps [simp]:
  "tw_node (upd_vsched c s k) = tw_node k" "tw_dispatch_node (upd_vsched c s k) = tw_dispatch_node k"
  "tw_ipi_node (upd_vsched c s k) = tw_ipi_node k" "tw_vcpu (upd_vsched c s k) = tw_vcpu k"
  "tw_table (upd_vsched c s k) = tw_table k" "tw_vids (upd_vsched c s k) = tw_vids k"
  "tw_partition (upd_vsched c s k) = tw_partition k" "tw_num_cpus (upd_vsched c s k) = tw_num_cpus k"
  "tw_root_vid (upd_vsched c s k) = tw_root_vid k" "tw_sent_ipis (upd_vsched c s k) = tw_sent_ipis k"
  "vsched_at (upd_vsched c s k) d = (if d = c then s (vsched_at k c) else vsched_at k d)"
  "vcurrent_vcpu (upd_vsched c s k) = vcurrent_vcpu k"
  "vc_available_vectors (tw_cpu (upd_vsched c s k) d) = vc_available_vectors (tw_cpu k d)"
  by (auto simp: upd_vsched_def vsched_at_def vcurrent_vcpu_def)

lemma vsched_at_simps [simp]:
  "vsched_at (upd_vcpu v f k) c = vsched_at k c" "vsched_at (upd_partition p g k) c = vsched_at k c"
  "vcurrent_vcpu (upd_vcpu v f k) = vcurrent_vcpu k" "vcurrent_vcpu (upd_partition p g k) = vcurrent_vcpu k"
  by (simp_all add: vsched_at_def vcurrent_vcpu_def [abs_def])

lemma receivers_of_upd [simp]:
  "receivers_of r' (upd_receivers r f p) = (if r' = r then f (receivers_of r p) else receivers_of r' p)"
  "receivers_of r' (upd_senders r f p) = receivers_of r' p"
  "senders_of r' (upd_receivers r f p) = senders_of r' p"
  "senders_of r' (upd_senders r f p) = (if r' = r then f (senders_of r p) else senders_of r' p)"
  by (cases r; cases r'; simp)+

lemma upd_routes_keep [simp]:
  "vp_vid (upd_receivers r f p) = vp_vid p" "vp_vid (upd_senders r f p) = vp_vid p"
  "vp_vcpus (upd_receivers r f p) = vp_vcpus p" "vp_vcpus (upd_senders r f p) = vp_vcpus p"
  "vp_vcpu_count (upd_receivers r f p) = vp_vcpu_count p" "vp_vcpu_count (upd_senders r f p) = vp_vcpu_count p"
  "vp_criticality_perms (upd_receivers r f p) = vp_criticality_perms p"
  "vp_criticality_perms (upd_senders r f p) = vp_criticality_perms p"
  by (cases r; simp)+

section \<open>Partition identifiers\<close>

lemma vid_alloc_cases:
  assumes "vpartition_id_alloc k = (ret, k')"
  shows "ret = -1 \<and> k' = k \<and> (\<forall>v. \<not> bmp256_test (tw_vids k) v) \<or>
     (\<exists>vid. ret = uint vid \<and> bmp256_test (tw_vids k) vid \<and>
        (\<forall>v. bmp256_test (tw_vids k) v \<longrightarrow> vid \<le> v) \<and> k' = k\<lparr>tw_vids := bmp256_unset (tw_vids k) vid\<rparr>)"
proof (cases "bmp256_ffs (tw_vids k) = -1")
  case True
  then have "bmp256_members (tw_vids k) = {}" by (simp add: b256.lowest_neg)
  then have "\<not> bmp256_test (tw_vids k) v" for v using mem_bmp256_test by blast
  then show ?thesis using assms True by (simp add: vpartition_id_alloc_def)
next
  case False
  let ?r = "bmp256_ffs (tw_vids k)"
  have mem: "?r \<in> bmp256_members (tw_vids k)" using False by (rule b256.lowest_mem)
  then have r: "0 \<le> ?r" "?r < 256" using b256.mem_range by auto
  then have u: "uint (word_of_int ?r :: u8) = ?r" by (simp add: uint_word_of_int)
  have t: "bmp256_test (tw_vids k) (word_of_int ?r)" using mem by (simp add: mem_bmp256_iff)
  have "word_of_int ?r \<le> v" if "bmp256_test (tw_vids k) v" for v
  proof -
    have "?r \<le> uint v" using that by (intro b256.lowest_le) (simp add: mem_bmp256_test)
    then show ?thesis using u by (simp add: word_le_def)
  qed
  then show ?thesis using assms False t u by (auto simp: vpartition_id_alloc_def Let_def intro!: exI [of _ "word_of_int ?r"])
qed

section \<open>A hypervisor with two partitions\<close>

text \<open>The states that the applications of the theorems start from: partition 0 is the root, partition 1 has
  one virtual CPU, at address 10, on CPU 1; the virtual CPU 0 of the root runs on CPU 0.\<close>

definition zero_bmp :: bmp256 where
  "zero_bmp = \<lparr>bmp = (\<lambda>_. 0)\<rparr>"

definition zero_arch :: vcpu_regions_arch where
  "zero_arch = \<lparr>va_bitmaps = (\<lambda>_. 0), va_io_bitmap_a_phys = 0, va_io_bitmap_b_phys = 0, va_msr_bitmap_phys = 0,
     va_vmcs_phys = 0, va_ve_info_area_phys = 0, va_vexit_msr_load_area_phys = 0,
     va_msr_load_save_area_phys = 0, va_vexit_load_count = 0, va_msr_load_save_count = 0\<rparr>"

definition zero_queue :: voperation_queue where
  "zero_queue = \<lparr>vq_vmwrite_cr4 = False, vq_vmwrite_cr0 = False, vq_should_advance = False, vq_idt_vectoring = False,
     vq_use_synth_errcode = False, vq_cr0 = 0, vq_cr4 = 0, vq_idt_vectoring_info =
       \<lparr>ve_vector = 0, ve_type = INTERRUPT_TYPE_EXTERNAL, ve_errcode_delivered = False, ve_valid = False\<rparr>,
     vq_synth_errcode = 0\<rparr>"

definition zero_vmcs :: vmcs where
  "zero_vmcs = \<lparr>vm_guest_cr0 = 0, vm_guest_cr4 = 0, vm_guest_rip = 0, vm_guest_rflags = 0x202, vm_guest_efer = 0,
     vm_cs_dpl = 0, vm_cs_longmode = False, vm_cs_db = False, vm_sti_blocking = False, vm_mov_ss_blocking = False,
     vm_nmi_blocking = False, vm_entry_info =
       \<lparr>ei_vector = 0, ei_type = INTERRUPT_TYPE_EXTERNAL, ei_deliver_errcode = False, ei_valid = False\<rparr>,
     vm_entry_errcode = 0, vm_entry_length = 0, vm_exit_length = 0, vm_idt_errcode = 0,
     vm_nmi_window_exiting = False, vm_interrupt_window_exiting = False, vm_timer_value = 0,
     vm_activate_timer = False, vm_save_timer = False\<rparr>"

definition zero_vcpu :: vcpu where
  "zero_vcpu = \<lparr>v_arch = zero_arch, v_root = False, v_state = VREADY, v_tlb_flush_pending = False,
     v_criticality = 0, v_time_slice_ticks = 0, v_current_time_slice_ticks = 0, v_rearm = False,
     v_terminate = False, v_pv_spin_state = VSPIN_NONE, v_preemption_count = 0, v_preempted = False,
     v_yield_request = False,
     v_timers = (\<lambda>_. \<lparr>vt_vector = 0, vt_periodic = False, vt_armed = False, vt_nmi = False, vt_ticks = 0\<rparr>),
     v_timer_chain = \<lparr>dc_mem = (\<lambda>_. \<lparr>ld_next = None, ld_prev = None\<rparr>), dc_delta = (\<lambda>_. 0), dc_dq = empty_dq\<rparr>,
     v_processor_id = 0, v_vpid = 0, v_vpid_enabled = False, v_vid = 0, v_vpartition_num_cpus = 1,
     v_vpartition = 0, v_context = zero_context, v_schedule_callback_func = None, v_vqueue_id = 0,
     v_wait_for_map = (\<lambda>_. False), v_allowed_external_vectors = zero_bmp, v_subscribed_vectors = zero_bmp,
     v_delivery = \<lparr>vd_in_intl = 0, vd_nmi_pending = False, vd_intl = 0, vd_int_window_exit = False,
       vd_nmi_window_exit = False\<rparr>,
     v_pending_external_interrupts = zero_bmp, v_queue = zero_queue, v_vlaunch_rip = 0,
     v_vboot_state = VBOOT_READY, v_ept_ve = False, v_vmcs = zero_vmcs\<rparr>"

definition zero_vpartition :: vpartition where
  "zero_vpartition = \<lparr>vp_ept_enabled = True, vp_ept_caching_policy = 6, vp_ipi_receivers = zero_bmp,
     vp_ipi_senders = zero_bmp, vp_tlb_shootdown_receivers = zero_bmp, vp_tlb_shootdown_senders = zero_bmp,
     vp_read_vcpu_state_receivers = zero_bmp, vp_read_vcpu_state_senders = zero_bmp,
     vp_pv_spin_kick_receivers = zero_bmp, vp_pv_spin_kick_senders = zero_bmp,
     vp_criticality_perms = (\<lambda>_. vcriticality_perm_of 0), vp_root = False, vp_vcpus = 0, vp_vcpu_count = 1,
     vp_num_terminated = 0, vp_term_processor_id = 0, vp_term_vector = 0, vp_term_nmi = False, vp_vid = 0\<rparr>"

definition zero_interrupt_info :: interrupt_info where
  "zero_interrupt_info = \<lparr>ii_regs = \<lparr>rg_cr8 = 0, rg_r15 = 0, rg_r14 = 0, rg_r13 = 0, rg_r12 = 0, rg_r11 = 0,
     rg_r10 = 0, rg_r9 = 0, rg_r8 = 0, rg_rsi = 0, rg_rdi = 0, rg_rdx = 0, rg_rcx = 0, rg_rbx = 0, rg_rax = 0,
     rg_rbp = 0, rg_fxsave_region = zero_fxsave\<rparr>, ii_alignment = 0, ii_dispatch_info = 0, ii_errcode = 0,
     ii_rip = 0, ii_cs = 0, ii_rflags = 0, ii_rsp = 0, ii_ss = 0\<rparr>"

definition zero_vcpu_cpu :: vper_cpu where
  "zero_vcpu_cpu = \<lparr>vc_unrestricted_guest = True, vc_ept = True, vc_vpid = True, vc_invvpid_single = True,
     vc_ept_ve = True, vc_msr_area_max = 512, vc_mxcsr_mask = 0, vc_available_vectors = zero_bmp,
     vc_handling_isr = False, vc_vcpu_ctx = zero_interrupt_info, vc_sched_timer_armed = False,
     vc_lapic_oneshot = 0, vc_current_vcpu = None, vc_dispatch_vectors = (\<lambda>_. empty_dq),
     vc_vcpu_sender_dq = empty_dq,
     vc_vscheduler = \<lparr>vs_queues = (\<lambda>_. empty_dq), vs_paused_queue = empty_dq, vs_frames = (\<lambda>_. None),
       vs_clock = 0, vs_criticality_level = 0, vs_kick = False, vs_idle_vcpu = 1000\<rparr>\<rparr>"

definition two_partitions :: vtwan where
  "two_partitions = \<lparr>
     tw_vcpu = (\<lambda>v. if v = 0 then zero_vcpu\<lparr>v_root := True, v_state := VTRANSITIONING\<rparr>
                    else zero_vcpu\<lparr>v_vid := 1, v_vpartition := 1, v_vqueue_id := 1\<rparr>),
     tw_node = (\<lambda>_. \<lparr>ld_next = None, ld_prev = None\<rparr>),
     tw_dispatch_node = (\<lambda>_. \<lparr>ld_next = None, ld_prev = None\<rparr>),
     tw_ipi_node = (\<lambda>_. \<lparr>ld_next = None, ld_prev = None\<rparr>),
     tw_partition = (\<lambda>p. if p = 0 then zero_vpartition\<lparr>vp_root := True\<rparr>
                         else zero_vpartition\<lparr>vp_vid := 1, vp_vcpus := 10\<rparr>),
     tw_table = (\<lambda>vid. if vid = 0 then Some 0 else if vid = 1 then Some 1 else None),
     tw_vids = bmp256_unset (bmp256_unset (bmp256_set_all zero_bmp) 0) 1,
     tw_cpu = (\<lambda>c. if c = 0 then zero_vcpu_cpu\<lparr>vc_current_vcpu := Some 0\<rparr> else zero_vcpu_cpu),
     tw_num_cpus = 2, tw_root_vid = 0, tw_root_num_vcpus = 1, tw_sent_ipis = []\<rparr>"

lemmas zero_vtwan_defs = zero_bmp_def zero_vcpu_def zero_vpartition_def zero_vcpu_cpu_def zero_arch_def

lemma zero_bmp_test [simp]: "\<not> bmp256_test zero_bmp i"
  by (simp add: bmp256_test_bit zero_bmp_def)

end
