(* ===== verification/Twan_Vsched_Dsa.thy ===== *)
theory Twan_Vsched_Dsa
  imports Twan_Vpartition
begin

text \<open>
  The run queues of the hypervisor, \<open>src/subsys/twanvisor/vsched/vsched_dsa.c\<close>, with the context
  and timer helpers of \<open>vsched_ctx.c\<close> and \<open>vsched_timer.c\<close>. The file has two schedulers, of which
  a build selects one: the queued scheduler (a queue per criticality, \<open>vcf_mcfs cfg = False\<close>) and
  the frame scheduler (a cyclic table of frames, \<open>vcf_mcfs cfg = True\<close>).
  Shown: the frame scheduler picks the first admitted ready frame after its clock, the clock moves
  on past it, and every admitted ready frame comes closer with each pick, so it waits for less
  than one round; the queued scheduler leaves a popped virtual CPU linked in its other queues.
\<close>

section \<open>Definitions: queues of the queued scheduler\<close>

definition on_vqueue ::
  "u32 \<Rightarrow> nat \<Rightarrow> (vnode ld_mem \<times> vnode dq \<Rightarrow> vnode ld_mem \<times> vnode dq) \<Rightarrow> vtwan \<Rightarrow> vtwan" where
  "on_vqueue c i g k =
     (let (h, d) = g (tw_node k, vs_queues (vsched_at k c) i)
      in (upd_vsched c (\<lambda>s. s\<lparr>vs_queues := (vs_queues s)(i := d)\<rparr>) k)\<lparr>tw_node := h\<rparr>)"

definition on_paused_queue ::
  "u32 \<Rightarrow> (vnode ld_mem \<times> vnode dq \<Rightarrow> vnode ld_mem \<times> vnode dq) \<Rightarrow> vtwan \<Rightarrow> vtwan" where
  "on_paused_queue c g k =
     (let (h, d) = g (tw_node k, vs_paused_queue (vsched_at k c))
      in (upd_vsched c (\<lambda>s. s\<lparr>vs_paused_queue := d\<rparr>) k)\<lparr>tw_node := h\<rparr>)"

text \<open>The queue and its number are found together; \<^verbatim>\<open>NULL\<close> is \<open>None\<close>.\<close>

definition vsched_get_bucket :: "u32 \<Rightarrow> vtwan \<Rightarrow> u8 option" where
  "vsched_get_bucket this k =
     (let vsched = vsched_at k this;
          criticality_level = vs_criticality_level vsched
      in if dq_peekfront (vs_queues vsched (unat criticality_level)) \<noteq> None
         then Some criticality_level
         else if criticality_level = 0 then None
         else if dq_peekfront (vs_queues vsched 0) = None then None
         else Some 0)"

definition vsched_push :: "vcpu_ptr \<Rightarrow> vtwan \<Rightarrow> vtwan" where
  "vsched_push v k =
     (let c = vcpu_cpu k v;
          criticality = v_criticality (tw_vcpu k v);
          k = fold (\<lambda>i. on_vqueue c i (\<lambda>s. dq_pushback s (v, i))) [0..<Suc (unat criticality)] k
      in upd_vsched c (\<lambda>s. s\<lparr>vs_kick := True\<rparr>) k)"

definition vsched_push_paused :: "vcpu_ptr \<Rightarrow> vtwan \<Rightarrow> vtwan" where
  "vsched_push_paused v k = on_paused_queue (vcpu_cpu k v) (\<lambda>s. dq_pushback s (v, 0)) k"

definition mcqs_is_current_preemptible :: "u32 \<Rightarrow> vcpu_ptr \<Rightarrow> vtwan \<Rightarrow> bool" where
  "mcqs_is_current_preemptible this current k =
     (let criticality_level = vs_criticality_level (vsched_at k this);
          criticality = v_criticality (tw_vcpu k current)
      in case vsched_get_bucket this k of
           None \<Rightarrow> False
         | Some next_criticality \<Rightarrow>
             criticality < criticality_level \<or> next_criticality \<ge> criticality_level)"

text \<open>\<^verbatim>\<open>vsched_node_to_vcpu\<close> is the first component of a node.\<close>

definition mcqs_pop :: "u32 \<Rightarrow> vtwan \<Rightarrow> vcpu_ptr option \<times> vtwan" where
  "mcqs_pop this k =
     (case vsched_get_bucket this k of
        None \<Rightarrow> (None, k)
      | Some criticality \<Rightarrow>
          (map_option fst (fst (dq_popfront (tw_node k, vs_queues (vsched_at k this) (unat criticality)))),
           on_vqueue this (unat criticality) (\<lambda>s. snd (dq_popfront s)) k))"

definition mcqs_dequeue :: "vcpu_ptr \<Rightarrow> vtwan \<Rightarrow> vtwan" where
  "mcqs_dequeue v k =
     (let c = vcpu_cpu k v;
          criticality = v_criticality (tw_vcpu k v)
      in fold (\<lambda>i. on_vqueue c i (\<lambda>(h, d).
             if dq_is_queued h d (v, i) then dq_dequeue (h, d) (v, i) else (h, d)))
           [0..<Suc (unat criticality)] k)"

definition mcqs_dequeue_paused :: "vcpu_ptr \<Rightarrow> vtwan \<Rightarrow> vtwan" where
  "mcqs_dequeue_paused v k =
     on_paused_queue (vcpu_cpu k v)
       (\<lambda>(h, d). if dq_is_queued h d (v, 0) then dq_dequeue (h, d) (v, 0) else (h, d)) k"

abbreviation set_vstate :: "vcpu_state \<Rightarrow> vcpu_ptr \<Rightarrow> vtwan \<Rightarrow> vtwan" where
  "set_vstate st v \<equiv> upd_vcpu v (\<lambda>x. x\<lparr>v_state := st\<rparr>)"

definition mcqs_unpause :: "vcpu_ptr \<Rightarrow> vtwan \<Rightarrow> vtwan" where
  "mcqs_unpause v k = vsched_push v (set_vstate VREADY v (mcqs_dequeue_paused v k))"

definition mcqs_update_criticality :: "vcpu_ptr \<Rightarrow> u8 \<Rightarrow> vtwan \<Rightarrow> vtwan" where
  "mcqs_update_criticality v criticality k =
     (if v_state (tw_vcpu k v) = VREADY then
        vsched_push v (upd_vcpu v (\<lambda>x. x\<lparr>v_criticality := criticality\<rparr>) (mcqs_dequeue v k))
      else upd_vcpu v (\<lambda>x. x\<lparr>v_criticality := criticality\<rparr>) k)"

section \<open>Definitions: frames of the frame scheduler\<close>

text \<open>The clock is at most the number of frames, so its 32-bit sums with an index do not wrap.\<close>

definition frame_ready :: "(vcpu_ptr \<Rightarrow> vcpu) \<Rightarrow> vcpu_ptr option \<Rightarrow> bool" where
  "frame_ready vc f \<longleftrightarrow> (case f of None \<Rightarrow> False | Some v \<Rightarrow> v_state (vc v) = VREADY)"

definition mcfs_is_current_preemptible :: "vconfig \<Rightarrow> u32 \<Rightarrow> vcpu_ptr \<Rightarrow> vtwan \<Rightarrow> bool" where
  "mcfs_is_current_preemptible cfg this current k =
     (let vsched = vsched_at k this;
          n = vcf_num_frames cfg;
          criticality_level = vs_criticality_level vsched;
          criticality = v_criticality (tw_vcpu k current)
      in list_ex (\<lambda>i. let f = vs_frames vsched ((vs_clock vsched + i) mod n)
                      in frame_ready (tw_vcpu k) f \<and>
                         (criticality < criticality_level \<or>
                          v_criticality (tw_vcpu k (the f)) \<ge> criticality_level))
           [0..<n - 1])"

text \<open>The loop of \<^verbatim>\<open>__vsched_pop\<close>: the remaining values of \<open>i\<close> and \<open>(first_idx, first_vcpu)\<close>; the result is
  the index and the virtual CPU that are taken.\<close>

fun mcfs_pop_loop ::
  "vconfig \<Rightarrow> (vcpu_ptr \<Rightarrow> vcpu) \<Rightarrow> vscheduler \<Rightarrow> nat list \<Rightarrow> (nat \<times> vcpu_ptr) option
     \<Rightarrow> (nat \<times> vcpu_ptr) option" where
  "mcfs_pop_loop cfg vc vsched [] first_vcpu = first_vcpu"
| "mcfs_pop_loop cfg vc vsched (i # is) first_vcpu =
     (let cur_idx = (vs_clock vsched + i) mod vcf_num_frames cfg
      in case vs_frames vsched cur_idx of
           None \<Rightarrow> mcfs_pop_loop cfg vc vsched is first_vcpu
         | Some v \<Rightarrow>
             if v_state (vc v) \<noteq> VREADY then mcfs_pop_loop cfg vc vsched is first_vcpu
             else
               let first_vcpu = (if first_vcpu = None then Some (cur_idx, v) else first_vcpu)
               in if v_criticality (vc v) \<ge> vs_criticality_level vsched then Some (cur_idx, v)
                  else mcfs_pop_loop cfg vc vsched is first_vcpu)"

definition mcfs_pop :: "vconfig \<Rightarrow> u32 \<Rightarrow> vtwan \<Rightarrow> vcpu_ptr option \<times> vtwan" where
  "mcfs_pop cfg this k =
     (case mcfs_pop_loop cfg (tw_vcpu k) (vsched_at k this) [0..<vcf_num_frames cfg] None of
        None \<Rightarrow> (None, k)
      | Some (idx, v) \<Rightarrow> (Some v, upd_vsched this (\<lambda>s. s\<lparr>vs_clock := idx + 1\<rparr>) k))"

definition mcfs_dequeue :: "vconfig \<Rightarrow> vcpu_ptr \<Rightarrow> vtwan \<Rightarrow> vtwan" where
  "mcfs_dequeue cfg v k =
     upd_vsched (vcpu_cpu k v) (\<lambda>s. s\<lparr>vs_frames :=
       fold (\<lambda>i fs. if fs i = Some v then fs(i := None) else fs) [0..<vcf_num_frames cfg] (vs_frames s)\<rparr>) k"

definition mcfs_unpause :: "vcpu_ptr \<Rightarrow> vtwan \<Rightarrow> vtwan" where
  "mcfs_unpause v k =
     upd_vsched (vcpu_cpu k v) (\<lambda>s. s\<lparr>vs_kick := True\<rparr>) (set_vstate VREADY v k)"

definition mcfs_update_criticality :: "vcpu_ptr \<Rightarrow> u8 \<Rightarrow> vtwan \<Rightarrow> vtwan" where
  "mcfs_update_criticality v criticality = upd_vcpu v (\<lambda>x. x\<lparr>v_criticality := criticality\<rparr>)"

section \<open>Definitions: the interface both variants implement\<close>

definition vsched_is_current_preemptible :: "vconfig \<Rightarrow> u32 \<Rightarrow> vcpu_ptr \<Rightarrow> vtwan \<Rightarrow> bool" where
  "vsched_is_current_preemptible cfg this current k =
     (if vcf_mcfs cfg then mcfs_is_current_preemptible cfg this current k
      else mcqs_is_current_preemptible this current k)"

definition vsched_pop :: "vconfig \<Rightarrow> u32 \<Rightarrow> vtwan \<Rightarrow> vcpu_ptr option \<times> vtwan" where
  "vsched_pop cfg this k = (if vcf_mcfs cfg then mcfs_pop cfg this k else mcqs_pop this k)"

definition vsched_dequeue :: "vconfig \<Rightarrow> vcpu_ptr \<Rightarrow> vtwan \<Rightarrow> vtwan" where
  "vsched_dequeue cfg v k = (if vcf_mcfs cfg then mcfs_dequeue cfg v k else mcqs_dequeue v k)"

definition vsched_dequeue_paused :: "vconfig \<Rightarrow> vcpu_ptr \<Rightarrow> vtwan \<Rightarrow> vtwan" where
  "vsched_dequeue_paused cfg v k =
     (if vcf_mcfs cfg then mcfs_dequeue cfg v k else mcqs_dequeue_paused v k)"

definition vsched_unpause :: "vconfig \<Rightarrow> vcpu_ptr \<Rightarrow> vtwan \<Rightarrow> vtwan" where
  "vsched_unpause cfg v k = (if vcf_mcfs cfg then mcfs_unpause v k else mcqs_unpause v k)"

definition vsched_update_criticality :: "vconfig \<Rightarrow> vcpu_ptr \<Rightarrow> u8 \<Rightarrow> vtwan \<Rightarrow> vtwan" where
  "vsched_update_criticality cfg v criticality k =
     (if vcf_mcfs cfg then mcfs_update_criticality v criticality k
      else mcqs_update_criticality v criticality k)"

section \<open>Definitions: contexts and the scheduling timer\<close>

definition vsched_put_ctx :: "vcpu_ptr \<Rightarrow> interrupt_info \<Rightarrow> vtwan \<Rightarrow> vtwan" where
  "vsched_put_ctx v ctx = upd_vcpu v (\<lambda>x. x\<lparr>v_context := (v_context x)\<lparr>
     cx_cr8 := rg_cr8 (ii_regs ctx), cx_r15 := rg_r15 (ii_regs ctx), cx_r14 := rg_r14 (ii_regs ctx),
     cx_r13 := rg_r13 (ii_regs ctx), cx_r12 := rg_r12 (ii_regs ctx), cx_r11 := rg_r11 (ii_regs ctx),
     cx_r10 := rg_r10 (ii_regs ctx), cx_r9 := rg_r9 (ii_regs ctx), cx_r8 := rg_r8 (ii_regs ctx),
     cx_rsi := rg_rsi (ii_regs ctx), cx_rdi := rg_rdi (ii_regs ctx), cx_rdx := rg_rdx (ii_regs ctx),
     cx_rcx := rg_rcx (ii_regs ctx), cx_rbx := rg_rbx (ii_regs ctx), cx_rax := rg_rax (ii_regs ctx),
     cx_rbp := rg_rbp (ii_regs ctx), cx_rsp := ii_rsp ctx, cx_rflags := ii_rflags ctx,
     cx_rip := ii_rip ctx, cx_fp_context := rg_fxsave_region (ii_regs ctx)\<rparr>\<rparr>)"

definition vsched_set_ctx :: "cpu_context \<Rightarrow> interrupt_info \<Rightarrow> interrupt_info" where
  "vsched_set_ctx cx ctx = ctx\<lparr>
     ii_regs := (ii_regs ctx)\<lparr>rg_cr8 := cx_cr8 cx, rg_r15 := cx_r15 cx, rg_r14 := cx_r14 cx,
       rg_r13 := cx_r13 cx, rg_r12 := cx_r12 cx, rg_r11 := cx_r11 cx, rg_r10 := cx_r10 cx,
       rg_r9 := cx_r9 cx, rg_r8 := cx_r8 cx, rg_rsi := cx_rsi cx, rg_rdi := cx_rdi cx,
       rg_rdx := cx_rdx cx, rg_rcx := cx_rcx cx, rg_rbx := cx_rbx cx, rg_rax := cx_rax cx,
       rg_rbp := cx_rbp cx, rg_fxsave_region := cx_fp_context cx\<rparr>,
     ii_rsp := cx_rsp cx, ii_rflags := cx_rflags cx, ii_rip := cx_rip cx\<rparr>"

text \<open>\<open>ctx\<close> is always the \<^verbatim>\<open>vcpu_ctx\<close> of this CPU.\<close>

definition vsched_enter_ctx :: "u32 \<Rightarrow> vcpu_ptr \<Rightarrow> vtwan \<Rightarrow> vtwan" where
  "vsched_enter_ctx this v k =
     (let k = upd_vcpu_cpu this (\<lambda>c. c\<lparr>vc_current_vcpu := Some v\<rparr>) k;
          k = upd_vcpu v (\<lambda>x. x\<lparr>v_state := VTRANSITIONING,
                v_current_time_slice_ticks := v_time_slice_ticks x\<rparr>) k
      in upd_vcpu_cpu this (\<lambda>c. c\<lparr>vc_vcpu_ctx := vsched_set_ctx (v_context (tw_vcpu k v)) (vc_vcpu_ctx c)\<rparr>) k)"

text \<open>\<open>cur_count\<close> is what the LAPIC reads as its current count; the one-shot count that
  \<^verbatim>\<open>vsched_timer_reload\<close> programs is a field of the CPU.\<close>

definition vis_sched_timer_done :: "u32 \<Rightarrow> u32 \<Rightarrow> vtwan \<Rightarrow> bool \<times> vtwan" where
  "vis_sched_timer_done cur_count this k =
     (let ret = (vc_sched_timer_armed (tw_cpu k this) \<and> cur_count = 0)
      in (ret, if ret then upd_vcpu_cpu this (\<lambda>c. c\<lparr>vc_sched_timer_armed := False\<rparr>) k else k))"

definition vsched_timer_reload :: "u32 \<Rightarrow> u32 \<Rightarrow> vtwan \<Rightarrow> vtwan" where
  "vsched_timer_reload this ticks = upd_vcpu_cpu this (\<lambda>c. c\<lparr>vc_lapic_oneshot := ticks\<rparr>)"

definition vsched_arm_timer :: "u32 \<Rightarrow> u32 \<Rightarrow> vtwan \<Rightarrow> vtwan" where
  "vsched_arm_timer this ticks k =
     (if ticks \<noteq> 0 then
        vsched_timer_reload this ticks (upd_vcpu_cpu this (\<lambda>c. c\<lparr>vc_sched_timer_armed := True\<rparr>) k)
      else upd_vcpu_cpu this (\<lambda>c. c\<lparr>vc_sched_timer_armed := False\<rparr>) k)"

text \<open>\<open>call\<close> runs the callback a virtual CPU may have.\<close>

definition vsched_start_schedule ::
  "(func_ptr \<Rightarrow> vcpu_ptr \<Rightarrow> vtwan \<Rightarrow> vtwan) \<Rightarrow> u32 \<Rightarrow> u32 \<Rightarrow> vtwan \<Rightarrow> vtwan option" where
  "vsched_start_schedule call this ticks k =
     (case vcurrent_vcpu k this of
        None \<Rightarrow> None
      | Some v \<Rightarrow>
          Some (vsched_arm_timer this ticks
            (case v_schedule_callback_func (tw_vcpu k v) of None \<Rightarrow> k | Some f \<Rightarrow> call f v k)))"

section \<open>The pick of the frame scheduler\<close>

definition ready_frame :: "vtwan \<Rightarrow> u32 \<Rightarrow> nat \<Rightarrow> bool" where
  "ready_frame k c i \<longleftrightarrow> frame_ready (tw_vcpu k) (vs_frames (vsched_at k c) i)"

text \<open>The frames in the order the loop visits them: \<open>frame_dist\<close> is how far a frame is from the clock.\<close>

definition frame_admitted :: "vtwan \<Rightarrow> u32 \<Rightarrow> nat \<Rightarrow> bool" where
  "frame_admitted k c i \<longleftrightarrow> frame_ready (tw_vcpu k) (vs_frames (vsched_at k c) i) \<and>
     v_criticality (tw_vcpu k (the (vs_frames (vsched_at k c) i))) \<ge> vs_criticality_level (vsched_at k c)"

definition frame_dist :: "vconfig \<Rightarrow> vtwan \<Rightarrow> u32 \<Rightarrow> nat \<Rightarrow> nat" where
  "frame_dist cfg k c i =
     (i + vcf_num_frames cfg - vs_clock (vsched_at k c) mod vcf_num_frames cfg) mod vcf_num_frames cfg"

lemma frame_dist_inv:
  assumes "j < vcf_num_frames cfg"
  shows "(vs_clock (vsched_at k c) + frame_dist cfg k c j) mod vcf_num_frames cfg = j"
proof -
  let ?n = "vcf_num_frames cfg" and ?c = "vs_clock (vsched_at k c)"
  have n: "0 < ?n" using assms by simp
  then have m: "?c mod ?n < ?n" by simp
  have "(?c + frame_dist cfg k c j) mod ?n = (?c mod ?n + (j + ?n - ?c mod ?n)) mod ?n"
    unfolding frame_dist_def by (metis mod_add_eq mod_mod_trivial)
  also have "?c mod ?n + (j + ?n - ?c mod ?n) = j + ?n" using m by simp
  finally show ?thesis using assms by simp
qed

lemma frame_dist_idx:
  assumes "i < vcf_num_frames cfg"
  shows "frame_dist cfg k c ((vs_clock (vsched_at k c) + i) mod vcf_num_frames cfg) = i"
proof -
  let ?n = "vcf_num_frames cfg" and ?c = "vs_clock (vsched_at k c)"
  have m: "?c mod ?n < ?n" using assms by simp
  have s: "(?c + i) mod ?n = (?c mod ?n + i) mod ?n" by (simp add: mod_add_left_eq)
  show ?thesis
  proof (cases "?c mod ?n + i < ?n")
    case True
    then have "(?c + i) mod ?n = ?c mod ?n + i" using s by simp
    then show ?thesis using assms True by (simp add: frame_dist_def)
  next
    case False
    then have "(?c mod ?n + i) mod ?n = (?c mod ?n + i - ?n) mod ?n" by (intro le_mod_geq) simp
    also have "\<dots> = ?c mod ?n + i - ?n" using m assms by (intro mod_less) arith
    finally have e: "(?c + i) mod ?n = ?c mod ?n + i - ?n" using s by simp
    have "?c mod ?n + i - ?n + ?n - ?c mod ?n = i" using False by arith
    then show ?thesis unfolding frame_dist_def e using assms by simp
  qed
qed

lemma frame_dist_less: "0 < vcf_num_frames cfg \<Longrightarrow> frame_dist cfg k c i < vcf_num_frames cfg"
  by (simp add: frame_dist_def)

lemma mcfs_pop_loop_find:
  "mcfs_pop_loop cfg (tw_vcpu k) (vsched_at k c) is first_vcpu =
     (let idx = (\<lambda>i. (vs_clock (vsched_at k c) + i) mod vcf_num_frames cfg);
          pick = (\<lambda>i. (idx i, the (vs_frames (vsched_at k c) (idx i))))
      in case find (\<lambda>i. frame_admitted k c (idx i)) is of
           Some i \<Rightarrow> Some (pick i)
         | None \<Rightarrow> (case first_vcpu of Some f \<Rightarrow> Some f
             | None \<Rightarrow> map_option pick (find (\<lambda>i. frame_ready (tw_vcpu k) (vs_frames (vsched_at k c) (idx i))) is)))"
proof (induction "is" arbitrary: first_vcpu)
  case Nil
  then show ?case by (simp split: option.split)
next
  case (Cons i "is")
  let ?idx = "(vs_clock (vsched_at k c) + i) mod vcf_num_frames cfg"
  let ?f = "vs_frames (vsched_at k c) ?idx"
  show ?case
  proof (cases "frame_ready (tw_vcpu k) ?f")
    case False
    then have "mcfs_pop_loop cfg (tw_vcpu k) (vsched_at k c) (i # is) first_vcpu =
        mcfs_pop_loop cfg (tw_vcpu k) (vsched_at k c) is first_vcpu"
      by (cases ?f) (simp_all add: frame_ready_def)
    then show ?thesis using False by (simp add: Cons Let_def frame_admitted_def split: option.split)
  next
    case True
    then obtain v where v: "?f = Some v" "v_state (tw_vcpu k v) = VREADY"
      by (auto simp: frame_ready_def split: option.splits)
    show ?thesis
    proof (cases "v_criticality (tw_vcpu k v) \<ge> vs_criticality_level (vsched_at k c)")
      case adm: True
      then show ?thesis using True v by (simp add: Let_def frame_admitted_def)
    next
      case adm: False
      then show ?thesis using True v
        by (cases first_vcpu) (simp_all add: Cons Let_def frame_admitted_def split: option.split)
    qed
  qed
qed

lemma find_nearest:
  fixes cfg :: vconfig
  assumes "find (\<lambda>i. P ((vs_clock (vsched_at k c) + i) mod vcf_num_frames cfg)) [0..<vcf_num_frames cfg] = Some i"
  shows "i < vcf_num_frames cfg" "P ((vs_clock (vsched_at k c) + i) mod vcf_num_frames cfg)"
    "\<And>j. j < vcf_num_frames cfg \<Longrightarrow> P j \<Longrightarrow> i \<le> frame_dist cfg k c j"
proof -
  obtain m where m: "m < vcf_num_frames cfg" "i = m"
      "P ((vs_clock (vsched_at k c) + i) mod vcf_num_frames cfg)"
      "\<And>l. l < m \<Longrightarrow> \<not> P ((vs_clock (vsched_at k c) + l) mod vcf_num_frames cfg)"
    using assms by (auto simp: find_Some_iff)
  show "i < vcf_num_frames cfg" "P ((vs_clock (vsched_at k c) + i) mod vcf_num_frames cfg)"
    using m by auto
  fix j assume j: "j < vcf_num_frames cfg" "P j"
  show "i \<le> frame_dist cfg k c j"
  proof (rule ccontr)
    assume "\<not> i \<le> frame_dist cfg k c j"
    then have "frame_dist cfg k c j < m" using m(2) by simp
    then show False using m(4) [of "frame_dist cfg k c j"] frame_dist_inv [OF j(1)] j(2) by simp
  qed
qed

lemma find_none_frames:
  fixes cfg :: vconfig
  assumes "find (\<lambda>i. P ((vs_clock (vsched_at k c) + i) mod vcf_num_frames cfg)) [0..<vcf_num_frames cfg] = None"
    and "j < vcf_num_frames cfg"
  shows "\<not> P j"
proof
  assume "P j"
  then have "P ((vs_clock (vsched_at k c) + frame_dist cfg k c j) mod vcf_num_frames cfg)"
    using frame_dist_inv [OF assms(2), of k c] by simp
  moreover have "frame_dist cfg k c j < vcf_num_frames cfg" using assms(2) by (intro frame_dist_less) simp
  ultimately show False using assms(1) by (auto simp: find_None_iff)
qed

text \<open>What a pick is: the nearest of a set of frames.\<close>

definition nearest :: "vconfig \<Rightarrow> vtwan \<Rightarrow> u32 \<Rightarrow> (nat \<Rightarrow> bool) \<Rightarrow> nat \<Rightarrow> bool" where
  "nearest cfg k c P i \<longleftrightarrow> i < vcf_num_frames cfg \<and> P i \<and>
     (\<forall>j. j < vcf_num_frames cfg \<and> P j \<longrightarrow> frame_dist cfg k c i \<le> frame_dist cfg k c j)"

lemma find_nearest_frame:
  fixes cfg :: vconfig
  assumes "find (\<lambda>i. P ((vs_clock (vsched_at k c) + i) mod vcf_num_frames cfg)) [0..<vcf_num_frames cfg] = Some i"
  shows "nearest cfg k c P ((vs_clock (vsched_at k c) + i) mod vcf_num_frames cfg)"
  using find_nearest [OF assms] frame_dist_idx [of i cfg k c] by (simp add: nearest_def)

lemma mcfs_pop_cases:
  "(\<forall>i < vcf_num_frames cfg. \<not> ready_frame k c i) \<and> mcfs_pop cfg c k = (None, k) \<or>
     (\<exists>i v. nearest cfg k c (if \<exists>j < vcf_num_frames cfg. frame_admitted k c j then frame_admitted k c else ready_frame k c) i \<and>
        vs_frames (vsched_at k c) i = Some v \<and> v_state (tw_vcpu k v) = VREADY \<and>
        mcfs_pop cfg c k = (Some v, upd_vsched c (\<lambda>s. s\<lparr>vs_clock := i + 1\<rparr>) k))"
proof -
  let ?n = "vcf_num_frames cfg" and ?s = "vsched_at k c"
  let ?idx = "\<lambda>i. (vs_clock ?s + i) mod ?n"
  have some: "\<exists>v. vs_frames ?s i = Some v \<and> v_state (tw_vcpu k v) = VREADY" if "ready_frame k c i" for i
    using that by (auto simp: ready_frame_def frame_ready_def split: option.splits)
  have adm: "ready_frame k c i" if "frame_admitted k c i" for i using that by (simp add: frame_admitted_def ready_frame_def)
  show ?thesis
  proof (cases "find (\<lambda>i. frame_admitted k c (?idx i)) [0..<?n]")
    case (Some i)
    have n: "nearest cfg k c (frame_admitted k c) (?idx i)" by (rule find_nearest_frame) (rule Some)
    then have ex: "\<exists>j < ?n. frame_admitted k c j" by (auto simp: nearest_def)
    obtain v where v: "vs_frames ?s (?idx i) = Some v" "v_state (tw_vcpu k v) = VREADY"
      using n some adm by (force simp: nearest_def)
    have "mcfs_pop cfg c k = (Some v, upd_vsched c (\<lambda>s. s\<lparr>vs_clock := ?idx i + 1\<rparr>) k)"
      using Some v by (simp add: mcfs_pop_def mcfs_pop_loop_find Let_def)
    then show ?thesis using n v ex by auto
  next
    case None
    then have no: "\<not> (\<exists>j < ?n. frame_admitted k c j)" using find_none_frames [of "frame_admitted k c"] by blast
    show ?thesis
    proof (cases "find (\<lambda>i. ready_frame k c (?idx i)) [0..<?n]")
      case N: None
      then have "\<forall>i < ?n. \<not> ready_frame k c i" using find_none_frames [of "ready_frame k c"] by blast
      moreover have "mcfs_pop cfg c k = (None, k)"
        using None N by (simp add: mcfs_pop_def mcfs_pop_loop_find Let_def ready_frame_def [symmetric])
      ultimately show ?thesis by blast
    next
      case S: (Some i)
      have n: "nearest cfg k c (ready_frame k c) (?idx i)" by (rule find_nearest_frame) (rule S)
      then obtain v where v: "vs_frames ?s (?idx i) = Some v" "v_state (tw_vcpu k v) = VREADY"
        using some by (force simp: nearest_def)
      have "mcfs_pop cfg c k = (Some v, upd_vsched c (\<lambda>s. s\<lparr>vs_clock := ?idx i + 1\<rparr>) k)"
        using None S v by (simp add: mcfs_pop_def mcfs_pop_loop_find Let_def ready_frame_def [symmetric])
      then show ?thesis using n v no by auto
    qed
  qed
qed

text \<open>C17: The frame scheduler picks nothing exactly when no frame is ready; otherwise the ready
  frame nearest after its clock among those at or above the criticality level, or among all
  ready ones when there is none, and moves the clock past it.\<close>

theorem mcfs_pop_spec:
  assumes "vcf_mcfs cfg"
  shows "(\<forall>i < vcf_num_frames cfg. \<not> ready_frame k this i) \<and> vsched_pop cfg this k = (None, k) \<or>
     (\<exists>i v. nearest cfg k this (if \<exists>j < vcf_num_frames cfg. frame_admitted k this j
                                 then frame_admitted k this else ready_frame k this) i \<and>
        vs_frames (vsched_at k this) i = Some v \<and> v_state (tw_vcpu k v) = VREADY \<and>
        vsched_pop cfg this k = (Some v, upd_vsched this (\<lambda>s. s\<lparr>vs_clock := i + 1\<rparr>) k))"
  using mcfs_pop_cases [where cfg = cfg and k = k and c = this] assms
  by (simp only: vsched_pop_def if_True)

text \<open>A frame that is passed over is closer to the clock afterwards.\<close>

lemma frame_dist_advance:
  assumes i: "i < vcf_num_frames cfg" and j: "j < vcf_num_frames cfg" "j \<noteq> i"
    and le: "frame_dist cfg k c i \<le> frame_dist cfg k c j"
  shows "frame_dist cfg (upd_vsched c (\<lambda>s. s\<lparr>vs_clock := i + 1\<rparr>) k) c j < frame_dist cfg k c j"
proof -
  let ?n = "vcf_num_frames cfg" and ?c = "vs_clock (vsched_at k c)"
  let ?k = "upd_vsched c (\<lambda>s. s\<lparr>vs_clock := i + 1\<rparr>) k"
  define d e where "d = frame_dist cfg k c i" and "e = frame_dist cfg k c j"
  have n: "0 < ?n" using i by simp
  have ij: "(?c + d) mod ?n = i" "(?c + e) mod ?n = j"
    using frame_dist_inv [OF i, of k c] frame_dist_inv [OF j(1), of k c] by (simp_all add: d_def e_def)
  have e: "e < ?n" "d < e" using frame_dist_less [OF n] le j(2) ij by (auto simp: d_def e_def order.order_iff_strict)
  have "(i + 1 + (e - d - 1)) mod ?n = ((?c + d) mod ?n + (1 + (e - d - 1))) mod ?n"
    by (simp add: ij(1))
  also have "\<dots> = (?c + d + (1 + (e - d - 1))) mod ?n" by (rule mod_add_left_eq)
  also have "\<dots> = j" using e ij(2) by simp
  finally have "(vs_clock (vsched_at ?k c) + (e - d - 1)) mod ?n = j" by simp
  then have "frame_dist cfg ?k c j = e - d - 1"
    using frame_dist_idx [of "e - d - 1" cfg ?k c] e by simp
  then show ?thesis using e by (simp add: e_def)
qed

lemma mcfs_pop_progress:
  assumes mc: "vcf_mcfs cfg" and j: "j < vcf_num_frames cfg" and adm: "frame_admitted k c j"
    and fj: "vs_frames (vsched_at k c) j = Some v" and pop: "vsched_pop cfg c k = (Some w, k')"
  shows "w = v \<or> frame_dist cfg k' c j < frame_dist cfg k c j"
proof -
  have "ready_frame k c j" using adm by (simp add: frame_admitted_def ready_frame_def)
  moreover have ex: "(\<exists>j < vcf_num_frames cfg. frame_admitted k c j) = True" using j adm by blast
  ultimately obtain i where n: "nearest cfg k c (frame_admitted k c) i" and wi: "vs_frames (vsched_at k c) i = Some w"
      and k': "k' = upd_vsched c (\<lambda>s. s\<lparr>vs_clock := i + 1\<rparr>) k"
    using mcfs_pop_cases [where cfg = cfg and k = k and c = c] j pop mc ex
    by (auto simp: vsched_pop_def)
  show ?thesis
  proof (cases "j = i")
    case True
    then show ?thesis using wi fj by simp
  next
    case False
    then show ?thesis
      unfolding k' using n j adm by (intro disjI2 frame_dist_advance) (auto simp: nearest_def)
  qed
qed

text \<open>A run of the scheduler of one CPU: between a pick and the next, anything may happen that leaves
  the clock alone.\<close>

definition picks :: "vconfig \<Rightarrow> u32 \<Rightarrow> (nat \<Rightarrow> vtwan) \<Rightarrow> bool" where
  "picks cfg c K \<longleftrightarrow> (\<forall>t. vs_clock (vsched_at (K (Suc t)) c) = vs_clock (vsched_at (snd (vsched_pop cfg c (K t))) c))"

lemma frame_dist_clock:
  "vs_clock (vsched_at k c) = vs_clock (vsched_at k' c) \<Longrightarrow> frame_dist cfg k c = frame_dist cfg k' c"
  by (simp add: frame_dist_def [abs_def])

lemma picks_dist:
  assumes run: "picks cfg c K" and mc: "vcf_mcfs cfg" and j: "j < vcf_num_frames cfg"
    and adm: "\<And>t. frame_admitted (K t) c j" and fj: "\<And>t. vs_frames (vsched_at (K t) c) j = Some v"
    and no: "\<And>t. t < m \<Longrightarrow> fst (vsched_pop cfg c (K t)) \<noteq> Some v"
  shows "frame_dist cfg (K m) c j + m \<le> frame_dist cfg (K 0) c j"
  using no
proof (induction m)
  case 0
  then show ?case by simp
next
  case (Suc m)
  obtain w k' where pop: "vsched_pop cfg c (K m) = (w, k')" by fastforce
  have "w \<noteq> None"
    using mcfs_pop_cases [where cfg = cfg and k = "K m" and c = c] j adm [of m] pop mc
    by (auto simp: vsched_pop_def frame_admitted_def ready_frame_def)
  then obtain x where x: "w = Some x" by blast
  have "x \<noteq> v" using Suc.prems [of m] pop x by auto
  then have "frame_dist cfg k' c j < frame_dist cfg (K m) c j"
    using mcfs_pop_progress [OF mc j adm fj pop [unfolded x]] by blast
  moreover have "frame_dist cfg (K (Suc m)) c j = frame_dist cfg k' c j"
    using run pop frame_dist_clock [of "K (Suc m)" c k'] by (simp add: picks_def)
  moreover have "frame_dist cfg (K m) c j + m \<le> frame_dist cfg (K 0) c j"
    using Suc.IH Suc.prems by simp
  ultimately show ?case by simp
qed

text \<open>C18: A frame that stays ready and admitted is picked within as many picks as there are
  frames, whatever happens between the picks.\<close>

theorem mcfs_bounded_wait:
  assumes "picks cfg c K" and "vcf_mcfs cfg" and "j < vcf_num_frames cfg"
    and "\<And>t. frame_admitted (K t) c j" and "\<And>t. vs_frames (vsched_at (K t) c) j = Some v"
  shows "\<exists>t < vcf_num_frames cfg. fst (vsched_pop cfg c (K t)) = Some v"
proof (rule ccontr)
  assume "\<not> ?thesis"
  then have "frame_dist cfg (K (vcf_num_frames cfg)) c j + vcf_num_frames cfg \<le> frame_dist cfg (K 0) c j"
    using picks_dist [OF assms, of "vcf_num_frames cfg"] by blast
  then show False using frame_dist_less [of cfg "K 0" c j] assms(3) by simp
qed

section \<open>Removing from the frames\<close>

lemma clear_frames:
  "fold (\<lambda>i fs. if fs i = Some v then fs(i := None) else fs) [0..<n] fs =
     (\<lambda>i. if i < n \<and> fs i = Some v then None else fs i)"
  by (induction n) (auto simp: fun_eq_iff less_Suc_eq)

lemma mcfs_dequeue_frames:
  "vs_frames (vsched_at (mcfs_dequeue cfg v k) c) i =
     (if c = vcpu_cpu k v \<and> i < vcf_num_frames cfg \<and> vs_frames (vsched_at k c) i = Some v then None
      else vs_frames (vsched_at k c) i)"
  by (auto simp: mcfs_dequeue_def clear_frames)

section \<open>The queued scheduler\<close>

lemma on_vqueue_simps [simp]:
  "tw_vcpu (on_vqueue c i g k) = tw_vcpu k" "vcpu_cpu (on_vqueue c i g k) = vcpu_cpu k"
  "tw_node (on_vqueue c i g k) = fst (g (tw_node k, vs_queues (vsched_at k c) i))"
  "vs_queues (vsched_at (on_vqueue c i g k) d) j =
     (if d = c \<and> j = i then snd (g (tw_node k, vs_queues (vsched_at k c) i)) else vs_queues (vsched_at k d) j)"
  by (auto simp: on_vqueue_def Let_def split_beta vcpu_cpu_def [abs_def] vsched_at_def upd_vsched_def)

lemma pushback_rear [simp]: "dq_rear (snd (dq_pushback (h, d) n)) = Some n"
  by (simp add: dq_pushback_def Let_def split: option.split)

lemma pushback_other:
  "x \<noteq> n \<Longrightarrow> dq_rear d \<noteq> Some x \<Longrightarrow> fst (dq_pushback (h, d) n) x = h x"
  by (auto simp: dq_pushback_def Let_def set_next_def set_prev_def split: option.split)

lemma pushback_self: "dq_rear d = Some n \<Longrightarrow> ld_next (fst (dq_pushback (h, d) n) n) = Some n"
  by (simp add: dq_pushback_def Let_def)

text \<open>Every queue holds nodes of its own index only.\<close>

definition own_rears :: "vtwan \<Rightarrow> u32 \<Rightarrow> bool" where
  "own_rears k c \<longleftrightarrow> (\<forall>j n. dq_rear (vs_queues (vsched_at k c) j) = Some n \<longrightarrow> snd n = j)"

lemma push_all_self_link:
  fixes v :: vcpu_ptr and js :: "nat list"
  defines "push \<equiv> \<lambda>c js k. fold (\<lambda>i. on_vqueue c i (\<lambda>s. dq_pushback s (v, i))) js k"
  assumes "distinct js" and "own_rears k c" and "i \<in> set js \<and> dq_rear (vs_queues (vsched_at k c) i) = Some (v, i) \<or>
      i \<notin> set js \<and> ld_next (tw_node k (v, i)) = Some (v, i) \<and> dq_rear (vs_queues (vsched_at k c) i) = Some (v, i)"
  shows "ld_next (tw_node (push c js k) (v, i)) = Some (v, i) \<and>
     dq_rear (vs_queues (vsched_at (push c js k) c) i) = Some (v, i)"
  using assms(2-) unfolding push_def
proof (induction js arbitrary: k)
  case Nil
  then show ?case by simp
next
  case (Cons j js)
  let ?k = "on_vqueue c j (\<lambda>s. dq_pushback s (v, j)) k"
  have own: "own_rears ?k c" using Cons.prems(2) by (auto simp: own_rears_def)
  have nx: "ld_next (tw_node ?k (v, i)) = Some (v, i)" if "i \<notin> set js"
  proof (cases "i = j")
    case True
    then show ?thesis using Cons.prems that by (auto simp: pushback_self)
  next
    case False
    then have "dq_rear (vs_queues (vsched_at k c) j) \<noteq> Some (v, i)"
      using Cons.prems(2) by (auto simp: own_rears_def)
    then show ?thesis using Cons.prems that False by (auto simp: pushback_other)
  qed
  have rear: "dq_rear (vs_queues (vsched_at ?k c) i) = Some (v, i)" using Cons.prems by auto
  show ?case using Cons.IH [of ?k] Cons.prems(1) own nx rear by auto
qed

lemma dq_repr_rear_next: "dq_repr h d xs \<Longrightarrow> dq_rear d = Some n \<Longrightarrow> ld_next (h n) = None"
  by (cases xs rule: rev_cases) (auto simp: dq_repr_def)

lemma popfront_rear: "dq_rear (snd (snd (dq_popfront (h, d)))) = Some n \<Longrightarrow> dq_rear d = Some n"
  by (auto simp: dq_popfront_def Let_def split: option.splits)

text \<open>In the queued scheduler a pop unlinks a virtual CPU from one queue only; pushing it
  again links its node in another queue to itself, so that queue no longer represents any
  list.\<close>

theorem mcqs_pop_push_corrupts:
  assumes mc: "\<not> vcf_mcfs cfg" and pop: "vsched_pop cfg this k = (Some v, k')" and cpu: "vcpu_cpu k v = this"
    and own: "own_rears k this"
    and i: "i \<le> unat (v_criticality (tw_vcpu k v))" "vsched_get_bucket this k \<noteq> Some (of_nat i)" "i < 256"
    and rear: "dq_rear (vs_queues (vsched_at k this) i) = Some (v, i)"
  shows "\<nexists>xs. dq_repr (tw_node (vsched_push v k')) (vs_queues (vsched_at (vsched_push v k') this) i) xs"
proof -
  obtain l where l: "vsched_get_bucket this k = Some l"
    and k': "k' = on_vqueue this (unat l) (\<lambda>s. snd (dq_popfront s)) k"
    using pop mc by (auto simp: vsched_pop_def mcqs_pop_def split: option.splits)
  have li: "unat l \<noteq> i" using i(2) l by auto
  have own': "own_rears k' this"
    unfolding own_rears_def k' using own [unfolded own_rears_def] by (simp split: if_split) (blast dest: popfront_rear)
  have rear': "dq_rear (vs_queues (vsched_at k' this) i) = Some (v, i)" using rear li by (simp add: k')
  have c: "v_criticality (tw_vcpu k' v) = v_criticality (tw_vcpu k v)" "vcpu_cpu k' v = this"
    using cpu by (simp_all add: k')
  let ?js = "[0..<Suc (unat (v_criticality (tw_vcpu k v)))]"
  let ?p = "fold (\<lambda>i. on_vqueue this i (\<lambda>s. dq_pushback s (v, i))) ?js k'"
  have mem: "i \<in> set ?js" using i(1) by auto
  have "ld_next (tw_node ?p (v, i)) = Some (v, i)" "dq_rear (vs_queues (vsched_at ?p this) i) = Some (v, i)"
    using push_all_self_link [OF distinct_upt own', of i 0 "Suc (unat (v_criticality (tw_vcpu k v)))" v]
      rear' mem by blast+
  then have "ld_next (tw_node (vsched_push v k') (v, i)) = Some (v, i)"
      "dq_rear (vs_queues (vsched_at (vsched_push v k') this) i) = Some (v, i)"
    by (simp_all add: vsched_push_def Let_def c del: upt_Suc)
  then show ?thesis using dq_repr_rear_next by fastforce
qed

section \<open>Applications\<close>

text \<open>Two frames of CPU 1 with the virtual CPUs 10 and 11; and a queued scheduler with criticalities 0 and 1
  in which the virtual CPU 10 of criticality 1 waits.\<close>

definition mcfs_config :: vconfig where
  "mcfs_config = \<lparr>vcf_num_criticalities = 2, vcf_mcfs = True, vcf_num_frames = 2, vcf_strict = False,
     vcf_num_vtimers = 4, vcf_num_cpus = 2\<rparr>"

definition mcqs_config :: vconfig where
  "mcqs_config = mcfs_config\<lparr>vcf_mcfs := False\<rparr>"

definition framed :: vtwan where
  "framed = upd_vsched 1 (\<lambda>s. s\<lparr>vs_frames := [0 \<mapsto> 10, 1 \<mapsto> 11]\<rparr>) two_partitions"

definition queued_high :: vtwan where
  "queued_high = vsched_push 10 (upd_vcpu 10 (\<lambda>x. x\<lparr>v_criticality := 1\<rparr>) two_partitions)"

lemmas framed_defs = framed_def two_partitions_def zero_vcpu_def zero_vcpu_cpu_def

lemma framed_frames [simp]: "vs_frames (vsched_at framed 1) = [0 \<mapsto> 10, 1 \<mapsto> 11]"
  by (simp add: framed_def)

lemma framed_vcpus [simp]:
  "v_state (tw_vcpu framed 10) = VREADY" "v_state (tw_vcpu framed 11) = VREADY"
  "vs_criticality_level (vsched_at framed 1) = 0"
  by (simp_all add: framed_defs upd_vsched_def vsched_at_def)

lemma framed_admitted: "i < 2 \<Longrightarrow> frame_admitted framed 1 i"
  by (auto simp: frame_admitted_def frame_ready_def less_2_cases_iff)

theorem mcfs_pop_spec_witness:
  "vcf_mcfs mcfs_config \<and> fst (vsched_pop mcfs_config 1 framed) \<noteq> None"
  using mcfs_pop_spec [of mcfs_config framed 1] framed_admitted [of 0]
  by (force simp: mcfs_config_def frame_admitted_def ready_frame_def)

definition framed_run :: "nat \<Rightarrow> vtwan" where
  "framed_run t = ((\<lambda>k. snd (vsched_pop mcfs_config 1 k)) ^^ t) framed"

lemma mcfs_pop_keeps:
  "vs_frames (vsched_at (snd (mcfs_pop cfg c k)) d) = vs_frames (vsched_at k d)"
  "tw_vcpu (snd (mcfs_pop cfg c k)) = tw_vcpu k"
  "vs_criticality_level (vsched_at (snd (mcfs_pop cfg c k)) d) = vs_criticality_level (vsched_at k d)"
  by (simp_all add: mcfs_pop_def split: option.split prod.split)

lemma framed_run_same:
  "vs_frames (vsched_at (framed_run t) 1) = vs_frames (vsched_at framed 1) \<and>
   tw_vcpu (framed_run t) = tw_vcpu framed \<and>
   vs_criticality_level (vsched_at (framed_run t) 1) = vs_criticality_level (vsched_at framed 1)"
proof (induction t)
  case 0
  then show ?case by (simp add: framed_run_def)
next
  case (Suc t)
  have "framed_run (Suc t) = snd (mcfs_pop mcfs_config 1 (framed_run t))"
    by (simp add: framed_run_def vsched_pop_def mcfs_config_def)
  then show ?case using Suc by (simp only: mcfs_pop_keeps simp_thms)
qed

lemma framed_run_keeps:
  "vs_frames (vsched_at (framed_run t) 1) = vs_frames (vsched_at framed 1)"
  "frame_admitted (framed_run t) 1 i = frame_admitted framed 1 i"
  using framed_run_same [of t] by (simp_all only: frame_admitted_def)

theorem mcfs_bounded_wait_witness: "\<exists>t < 2. fst (vsched_pop mcfs_config 1 (framed_run t)) = Some 11"
proof -
  have "picks mcfs_config 1 framed_run" by (simp add: picks_def framed_run_def)
  moreover have "frame_admitted (framed_run t) 1 1" for t using framed_run_keeps framed_admitted by simp
  moreover have "vs_frames (vsched_at (framed_run t) 1) 1 = Some 11" for t
    using framed_run_keeps [of t] by simp
  ultimately have "\<exists>t < vcf_num_frames mcfs_config. fst (vsched_pop mcfs_config 1 (framed_run t)) = Some 11"
    using mcfs_bounded_wait [of mcfs_config 1 framed_run 1 11] by (simp add: mcfs_config_def)
  then show ?thesis by (simp add: mcfs_config_def)
qed

lemma fst_popfront: "fst (dq_popfront (h, d)) = dq_front d"
  by (simp add: dq_popfront_def Let_def split: option.split prod.split)

lemma queued_high_facts:
  "vs_criticality_level (vsched_at queued_high 1) = 0" "vcpu_cpu queued_high 10 = 1"
  "vs_queues (vsched_at queued_high 1) = (\<lambda>i. if i \<le> 1 then \<lparr>dq_front = Some (10, i), dq_rear = Some (10, i)\<rparr> else empty_dq)"
  "v_criticality (tw_vcpu queued_high 10) = 1"
  by (auto simp: queued_high_def vsched_push_def Let_def upt_rec on_vqueue_def dq_pushback_def two_partitions_def
      vcpu_cpu_def zero_vcpu_def zero_vcpu_cpu_def vsched_at_def upd_vsched_def empty_dq_def fun_eq_iff le_Suc_eq)

theorem mcqs_pop_push_corrupts_witness:
  "\<exists>k'. vsched_pop mcqs_config 1 queued_high = (Some 10, k') \<and>
     (\<nexists>xs. dq_repr (tw_node (vsched_push 10 k')) (vs_queues (vsched_at (vsched_push 10 k') 1) 1) xs)"
proof -
  have b: "vsched_get_bucket 1 queued_high = Some 0"
    by (simp add: vsched_get_bucket_def queued_high_facts dq_peekfront_def)
  then obtain k' where pop: "vsched_pop mcqs_config 1 queued_high = (Some 10, k')"
    by (simp add: vsched_pop_def mcqs_pop_def mcqs_config_def mcfs_config_def queued_high_facts fst_popfront)
  moreover have "own_rears queued_high 1"
    by (auto simp: own_rears_def queued_high_facts empty_dq_def)
  ultimately show ?thesis
    using mcqs_pop_push_corrupts [OF _ pop, of 1] b
    by (simp add: mcqs_config_def mcfs_config_def queued_high_facts)
qed

end
