(* ===== verification/Twan_Visr.thy ===== *)
theory Twan_Visr
  imports Twan_Vsched_Dsa
begin

text \<open>
  Interrupts of the hypervisor: \<open>visr/visr_index.c\<close> (available vectors, inter-processor interrupts and
  their acknowledgement), the pending-interrupt helpers of \<open>vemulate/vemulate_utils.c\<close> and
  \<^verbatim>\<open>vdispatch_interrupt\<close> of \<open>visr/visr_dispatcher.c\<close>.
  An inter-processor interrupt is recorded in \<open>tw_sent_ipis\<close>. Shown: a dispatch ends, hands the vector
  to every subscriber that waits for it and to no other, and leaves the dispatch queue empty; an
  acknowledgement is seen by exactly the senders that were queued.
\<close>

section \<open>Definitions: vectors\<close>

definition NMI :: u8 where
  "NMI = 2"

definition DOUBLE_FAULT :: u8 where
  "DOUBLE_FAULT = 8"

definition MACHINE_CHECK :: u8 where
  "MACHINE_CHECK = 18"

definition VSPURIOUS_INT_VECTOR :: u8 where
  "VSPURIOUS_INT_VECTOR = 239"

definition VSCHED_TIMER_VECTOR :: u8 where
  "VSCHED_TIMER_VECTOR = 255"

definition VIPI_VECTOR :: u8 where
  "VIPI_VECTOR = 254"

definition vector_to_intl :: "u8 \<Rightarrow> int" where
  "vector_to_intl vector = uint vector div 16"

text \<open>The values of \<^verbatim>\<open>vreserved_exception_vectors\<close>, from \<open>DIVIDE_ERROR\<close> to \<open>CONTROL_PROTECTION_EXCEPTION\<close>.\<close>

definition vreserved_exception_vectors :: "u8 list" where
  "vreserved_exception_vectors = [0, 1, 3, 4, 5, 6, 7, 8, 9, 10, 11, 12, 13, 14, 16, 17, 19, 20, 21]"

definition vis_exception_vector :: "u8 \<Rightarrow> bool" where
  "vis_exception_vector vector = list_ex (\<lambda>v. v = vector) vreserved_exception_vectors"

definition vset_available_vectors :: "bmp256 \<Rightarrow> bmp256" where
  "vset_available_vectors available_vectors =
     (let b = bmp256_set_all available_vectors;
          b = bmp256_unset b DOUBLE_FAULT;
          b = bmp256_unset b MACHINE_CHECK;
          b = bmp256_unset b VSPURIOUS_INT_VECTOR;
          b = bmp256_unset b VSCHED_TIMER_VECTOR
      in bmp256_unset b VIPI_VECTOR)"

section \<open>Definitions: inter-processor interrupts\<close>

definition vipi_async :: "u32 \<Rightarrow> u32 \<Rightarrow> vtwan \<Rightarrow> int \<times> vtwan" where
  "vipi_async this vprocessor_id k =
     (if this = vprocessor_id then (- EINVAL, k)
      else if vprocessor_id \<ge> tw_num_cpus k then (- EINVAL, k)
      else (0, k\<lparr>tw_sent_ipis := tw_sent_ipis k @ [vprocessor_id]\<rparr>))"

definition on_sender_dq ::
  "u32 \<Rightarrow> ((vcpu_ptr \<times> u32) ld_mem \<times> (vcpu_ptr \<times> u32) dq \<Rightarrow> (vcpu_ptr \<times> u32) ld_mem \<times> (vcpu_ptr \<times> u32) dq)
     \<Rightarrow> vtwan \<Rightarrow> vtwan" where
  "on_sender_dq c g k =
     (let (h, d) = g (tw_ipi_node k, vc_vcpu_sender_dq (tw_cpu k c))
      in (upd_vcpu_cpu c (\<lambda>p. p\<lparr>vc_vcpu_sender_dq := d\<rparr>) k)\<lparr>tw_ipi_node := h\<rparr>)"

definition vipi_queue_ack :: "u32 \<Rightarrow> u32 \<Rightarrow> vcpu_ptr \<Rightarrow> vtwan \<Rightarrow> int \<times> vtwan" where
  "vipi_queue_ack this vprocessor_id v k =
     (if this = vprocessor_id then (- EINVAL, k)
      else if vprocessor_id \<ge> tw_num_cpus k then (- EINVAL, k)
      else (0, on_sender_dq vprocessor_id (\<lambda>(h, d).
                 if dq_is_queued h d (v, vprocessor_id) then (h, d)
                 else dq_pushback (h, d) (v, vprocessor_id)) k))"

definition vipi_ack :: "u32 \<Rightarrow> vtwan \<Rightarrow> vtwan option" where
  "vipi_ack this k =
     (case dq_clear (tw_ipi_node k, vc_vcpu_sender_dq (tw_cpu k this)) of
        None \<Rightarrow> None
      | Some (h, d) \<Rightarrow> Some (on_sender_dq this (\<lambda>_. (h, d)) k))"

definition vipi_check_ack :: "u32 \<Rightarrow> u32 \<Rightarrow> vcpu_ptr \<Rightarrow> vtwan \<Rightarrow> int" where
  "vipi_check_ack this vprocessor_id v k =
     (if this = vprocessor_id then - EINVAL
      else if vprocessor_id \<ge> tw_num_cpus k then - EINVAL
      else if dq_is_queued (tw_ipi_node k) (vc_vcpu_sender_dq (tw_cpu k vprocessor_id)) (v, vprocessor_id)
      then 0 else 1)"

section \<open>Definitions: pending interrupts\<close>

definition vemu_do_set_interrupt_pending :: "vcpu_ptr \<Rightarrow> u8 \<Rightarrow> bool \<Rightarrow> vtwan \<Rightarrow> vtwan" where
  "vemu_do_set_interrupt_pending v vector nmi =
     upd_vcpu v (\<lambda>x. if nmi then x\<lparr>v_delivery := (v_delivery x)\<lparr>vd_nmi_pending := True\<rparr>\<rparr>
       else x\<lparr>v_pending_external_interrupts := bmp256_set (v_pending_external_interrupts x) vector\<rparr>)"

definition vemu_set_interrupt_pending :: "vcpu_ptr \<Rightarrow> u8 \<Rightarrow> bool \<Rightarrow> vtwan \<Rightarrow> int \<times> vtwan" where
  "vemu_set_interrupt_pending v vector nmi k =
     (if nmi \<and> vector \<noteq> NMI then (- EINVAL, k) else (0, vemu_do_set_interrupt_pending v vector nmi k))"

definition vemu_is_interrupt_pending :: "vcpu_ptr \<Rightarrow> u8 \<Rightarrow> bool \<Rightarrow> vtwan \<Rightarrow> bool" where
  "vemu_is_interrupt_pending v vector nmi k =
     (if nmi then vd_nmi_pending (v_delivery (tw_vcpu k v))
      else bmp256_test (v_pending_external_interrupts (tw_vcpu k v)) vector)"

section \<open>Definitions: dispatching an external interrupt\<close>

definition on_dispatch ::
  "u32 \<Rightarrow> u8 \<Rightarrow> ((vcpu_ptr \<times> u8) ld_mem \<times> (vcpu_ptr \<times> u8) dq \<Rightarrow> (vcpu_ptr \<times> u8) ld_mem \<times> (vcpu_ptr \<times> u8) dq)
     \<Rightarrow> vtwan \<Rightarrow> vtwan" where
  "on_dispatch c vector g k =
     (let (h, d) = g (tw_dispatch_node k, vc_dispatch_vectors (tw_cpu k c) vector)
      in (upd_vcpu_cpu c (\<lambda>p. p\<lparr>vc_dispatch_vectors := (vc_dispatch_vectors p)(vector := d)\<rparr>) k)
           \<lparr>tw_dispatch_node := h\<rparr>)"

text \<open>The loop follows the links of the queue; \<^verbatim>\<open>dispatch_node_to_vcpu\<close> is the first component.\<close>

partial_function (option) vdispatch_loop :: "u8 \<Rightarrow> (vcpu_ptr \<times> u8) option \<Rightarrow> vtwan \<Rightarrow> vtwan option" where
  "vdispatch_loop vector cur k =
     (case cur of
        None \<Rightarrow> Some k
      | Some n \<Rightarrow>
          let k = snd (vemu_set_interrupt_pending (fst n) vector (vector = NMI) k);
              nxt = ld_next (tw_dispatch_node k n);
              h = set_prev (set_next (tw_dispatch_node k) n None) n None
          in vdispatch_loop vector nxt (k\<lparr>tw_dispatch_node := h\<rparr>))"

definition vdispatch_interrupt :: "u32 \<Rightarrow> u8 \<Rightarrow> vtwan \<Rightarrow> vtwan option" where
  "vdispatch_interrupt this vector k =
     (case vdispatch_loop vector (dq_peekfront (vc_dispatch_vectors (tw_cpu k this) vector)) k of
        None \<Rightarrow> None
      | Some k \<Rightarrow> Some (on_dispatch this vector (\<lambda>(h, d). (h, d\<lparr>dq_front := None, dq_rear := None\<rparr>)) k))"

section \<open>Basic facts\<close>

lemma vipi_async_simps [simp]:
  "tw_vcpu (snd (vipi_async c t k)) = tw_vcpu k" "tw_node (snd (vipi_async c t k)) = tw_node k"
  "tw_dispatch_node (snd (vipi_async c t k)) = tw_dispatch_node k"
  "tw_ipi_node (snd (vipi_async c t k)) = tw_ipi_node k" "tw_partition (snd (vipi_async c t k)) = tw_partition k"
  "tw_table (snd (vipi_async c t k)) = tw_table k" "tw_vids (snd (vipi_async c t k)) = tw_vids k"
  "tw_cpu (snd (vipi_async c t k)) = tw_cpu k" "tw_num_cpus (snd (vipi_async c t k)) = tw_num_cpus k"
  "tw_root_vid (snd (vipi_async c t k)) = tw_root_vid k"
  "vsched_at (snd (vipi_async c t k)) d = vsched_at k d" "vcurrent_vcpu (snd (vipi_async c t k)) = vcurrent_vcpu k"
  by (simp_all add: vipi_async_def vsched_at_def vcurrent_vcpu_def [abs_def])

lemma on_sender_dq_simps [simp]:
  "tw_vcpu (on_sender_dq c g k) = tw_vcpu k" "tw_node (on_sender_dq c g k) = tw_node k"
  "tw_dispatch_node (on_sender_dq c g k) = tw_dispatch_node k" "tw_partition (on_sender_dq c g k) = tw_partition k"
  "tw_table (on_sender_dq c g k) = tw_table k" "tw_vids (on_sender_dq c g k) = tw_vids k"
  "tw_num_cpus (on_sender_dq c g k) = tw_num_cpus k" "tw_root_vid (on_sender_dq c g k) = tw_root_vid k"
  "tw_ipi_node (on_sender_dq c g k) = fst (g (tw_ipi_node k, vc_vcpu_sender_dq (tw_cpu k c)))"
  "vc_vcpu_sender_dq (tw_cpu (on_sender_dq c g k) d) =
     (if d = c then snd (g (tw_ipi_node k, vc_vcpu_sender_dq (tw_cpu k c))) else vc_vcpu_sender_dq (tw_cpu k d))"
  "vsched_at (on_sender_dq c g k) d = vsched_at k d" "vcurrent_vcpu (on_sender_dq c g k) = vcurrent_vcpu k"
  by (auto simp: on_sender_dq_def Let_def split_beta vsched_at_def vcurrent_vcpu_def)

lemma on_dispatch_simps [simp]:
  "tw_vcpu (on_dispatch c x g k) = tw_vcpu k" "tw_node (on_dispatch c x g k) = tw_node k"
  "tw_ipi_node (on_dispatch c x g k) = tw_ipi_node k" "tw_partition (on_dispatch c x g k) = tw_partition k"
  "tw_table (on_dispatch c x g k) = tw_table k" "tw_vids (on_dispatch c x g k) = tw_vids k"
  "tw_num_cpus (on_dispatch c x g k) = tw_num_cpus k" "tw_root_vid (on_dispatch c x g k) = tw_root_vid k"
  "tw_dispatch_node (on_dispatch c x g k) = fst (g (tw_dispatch_node k, vc_dispatch_vectors (tw_cpu k c) x))"
  "vc_dispatch_vectors (tw_cpu (on_dispatch c x g k) d) y =
     (if d = c \<and> y = x then snd (g (tw_dispatch_node k, vc_dispatch_vectors (tw_cpu k c) x))
      else vc_dispatch_vectors (tw_cpu k d) y)"
  "vsched_at (on_dispatch c x g k) d = vsched_at k d" "vcurrent_vcpu (on_dispatch c x g k) = vcurrent_vcpu k"
  by (auto simp: on_dispatch_def Let_def split_beta vsched_at_def vcurrent_vcpu_def)

lemma vset_available_vectors_test:
  "bmp256_test (vset_available_vectors b) x \<longleftrightarrow>
     x \<notin> {DOUBLE_FAULT, MACHINE_CHECK, VSPURIOUS_INT_VECTOR, VSCHED_TIMER_VECTOR, VIPI_VECTOR}"
  by (auto simp: vset_available_vectors_def Let_def)

section \<open>A dispatch reaches every waiting subscriber\<close>

abbreviation pend :: "u8 \<Rightarrow> vcpu_ptr \<Rightarrow> vtwan \<Rightarrow> vtwan" where
  "pend vector v k \<equiv> snd (vemu_set_interrupt_pending v vector (vector = NMI) k)"

lemma pend_simps [simp]:
  "tw_dispatch_node (pend x v k) = tw_dispatch_node k" "tw_cpu (pend x v k) = tw_cpu k"
  by (simp_all add: vemu_set_interrupt_pending_def vemu_do_set_interrupt_pending_def)

lemma pend_pending:
  "vemu_is_interrupt_pending w x (x = NMI) (pend x v k) \<longleftrightarrow> w = v \<or> vemu_is_interrupt_pending w x (x = NMI) k"
  by (auto simp: vemu_set_interrupt_pending_def vemu_do_set_interrupt_pending_def vemu_is_interrupt_pending_def)

lemma pend_other:
  "w \<noteq> v \<Longrightarrow> tw_vcpu (pend x v k) w = tw_vcpu k w"
  by (simp add: vemu_set_interrupt_pending_def vemu_do_set_interrupt_pending_def)

lemma pending_node_upd [simp]:
  "vemu_is_interrupt_pending w x b (k\<lparr>tw_dispatch_node := h\<rparr>) = vemu_is_interrupt_pending w x b k"
  by (simp add: vemu_is_interrupt_pending_def)

lemma pending_on_dispatch [simp]:
  "vemu_is_interrupt_pending w x b (on_dispatch c y g k) = vemu_is_interrupt_pending w x b k"
  by (simp add: vemu_is_interrupt_pending_def)

lemma vdispatch_loop_spec:
  assumes "dseg (tw_dispatch_node k) p ns None" and "distinct ns"
  shows "\<exists>k'. vdispatch_loop vector (first_or ns None) k = Some k' \<and> tw_cpu k' = tw_cpu k \<and>
     (\<forall>n \<in> set ns. unlinked (tw_dispatch_node k') n) \<and>
     (\<forall>n. n \<notin> set ns \<longrightarrow> tw_dispatch_node k' n = tw_dispatch_node k n) \<and>
     (\<forall>w. vemu_is_interrupt_pending w vector (vector = NMI) k' \<longleftrightarrow>
        w \<in> fst ` set ns \<or> vemu_is_interrupt_pending w vector (vector = NMI) k) \<and>
     (\<forall>w. w \<notin> fst ` set ns \<longrightarrow> tw_vcpu k' w = tw_vcpu k w)"
  using assms
proof (induction ns arbitrary: k p)
  case Nil
  then show ?case by (simp add: vdispatch_loop.simps)
next
  case (Cons n ns)
  let ?k1 = "pend vector (fst n) k"
  let ?h = "set_prev (set_next (tw_dispatch_node ?k1) n None) n None"
  let ?k2 = "?k1\<lparr>tw_dispatch_node := ?h\<rparr>"
  have seg: "dseg (tw_dispatch_node ?k2) (Some n) ns None" using Cons.prems by simp
  obtain k' where k': "vdispatch_loop vector (first_or ns None) ?k2 = Some k'" "tw_cpu k' = tw_cpu ?k2"
     "\<forall>n \<in> set ns. unlinked (tw_dispatch_node k') n"
     "\<forall>n. n \<notin> set ns \<longrightarrow> tw_dispatch_node k' n = tw_dispatch_node ?k2 n"
     "\<forall>w. vemu_is_interrupt_pending w vector (vector = NMI) k' \<longleftrightarrow>
        w \<in> fst ` set ns \<or> vemu_is_interrupt_pending w vector (vector = NMI) ?k2"
     "\<forall>w. w \<notin> fst ` set ns \<longrightarrow> tw_vcpu k' w = tw_vcpu ?k2 w"
    using Cons.IH [OF seg] Cons.prems(2) by auto
  have nx: "ld_next (tw_dispatch_node ?k1 n) = first_or ns None" using Cons.prems by simp
  have "vdispatch_loop vector (first_or (n # ns) None) k = Some k'"
    unfolding first_or.simps using nx k'(1) by (subst vdispatch_loop.simps) (simp add: Let_def)
  moreover have "unlinked (tw_dispatch_node k') n"
    using k'(4) [rule_format, of n] Cons.prems(2) by (simp add: unlinked_def)
  ultimately show ?case using k'(2-) by (auto simp: pend_pending pend_other)
qed

text \<open>Dispatching an external interrupt ends, makes the vector pending for exactly the
  waiting subscribers, and leaves the dispatch queue empty and its nodes unlinked.\<close>

theorem vdispatch_interrupt_spec:
  assumes "dq_repr (tw_dispatch_node k) (vc_dispatch_vectors (tw_cpu k this) vector) ns"
  shows "\<exists>k'. vdispatch_interrupt this vector k = Some k' \<and>
     dq_repr (tw_dispatch_node k') (vc_dispatch_vectors (tw_cpu k' this) vector) [] \<and>
     (\<forall>n \<in> set ns. unlinked (tw_dispatch_node k') n) \<and>
     (\<forall>w. vemu_is_interrupt_pending w vector (vector = NMI) k' \<longleftrightarrow>
        w \<in> fst ` set ns \<or> vemu_is_interrupt_pending w vector (vector = NMI) k) \<and>
     (\<forall>w. w \<notin> fst ` set ns \<longrightarrow> tw_vcpu k' w = tw_vcpu k w)"
proof -
  have f: "dq_peekfront (vc_dispatch_vectors (tw_cpu k this) vector) = first_or ns None"
    using dq_repr_front [OF assms] by (simp add: dq_peekfront_def)
  have "dseg (tw_dispatch_node k) None ns None" "distinct ns" using assms by (simp_all add: dq_repr_def)
  then obtain k' where k': "vdispatch_loop vector (first_or ns None) k = Some k'" "tw_cpu k' = tw_cpu k"
     "\<forall>n \<in> set ns. unlinked (tw_dispatch_node k') n"
     "\<forall>w. vemu_is_interrupt_pending w vector (vector = NMI) k' \<longleftrightarrow>
        w \<in> fst ` set ns \<or> vemu_is_interrupt_pending w vector (vector = NMI) k"
     "\<forall>w. w \<notin> fst ` set ns \<longrightarrow> tw_vcpu k' w = tw_vcpu k w"
    using vdispatch_loop_spec [of k None ns vector] by auto
  then show ?thesis by (simp add: vdispatch_interrupt_def f dq_repr_def)
qed

section \<open>Acknowledgements\<close>

text \<open>The sender queues of all CPUs: queue \<open>c\<close> holds nodes \<open>(v, c)\<close> only, and nodes in no queue are unlinked.\<close>

definition senders_repr :: "vtwan \<Rightarrow> (u32 \<Rightarrow> vcpu_ptr list) \<Rightarrow> bool" where
  "senders_repr k F \<longleftrightarrow>
     (\<forall>c. dq_repr (tw_ipi_node k) (vc_vcpu_sender_dq (tw_cpu k c)) (map (\<lambda>v. (v, c)) (F c))) \<and>
     (\<forall>v c. v \<notin> set (F c) \<longrightarrow> unlinked (tw_ipi_node k) (v, c))"

lemma sender_queued:
  assumes "senders_repr k F"
  shows "dq_is_queued (tw_ipi_node k) (vc_vcpu_sender_dq (tw_cpu k c)) (v, c) \<longleftrightarrow> v \<in> set (F c)"
proof -
  have "dq_repr (tw_ipi_node k) (vc_vcpu_sender_dq (tw_cpu k c)) (map (\<lambda>v. (v, c)) (F c))"
    "(v, c) \<notin> set (map (\<lambda>v. (v, c)) (F c)) \<Longrightarrow> unlinked (tw_ipi_node k) (v, c)"
    using assms by (auto simp: senders_repr_def)
  from dq_is_queued_repr [OF this] show ?thesis by auto
qed

lemma senders_repr_upd:
  assumes r: "senders_repr k F" and d: "dq_repr h d (map (\<lambda>v. (v, c)) xs)"
    and u: "\<And>v. v \<notin> set xs \<Longrightarrow> unlinked h (v, c)"
    and o: "\<And>v e. e \<noteq> c \<Longrightarrow> h (v, e) = tw_ipi_node k (v, e)"
  shows "senders_repr (on_sender_dq c (\<lambda>_. (h, d)) k) (F(c := xs))"
proof -
  have "dq_repr h (vc_vcpu_sender_dq (tw_cpu k e)) (map (\<lambda>v. (v, e)) (F e))" if "e \<noteq> c" for e
  proof (rule dq_repr_frame)
    show "dq_repr (tw_ipi_node k) (vc_vcpu_sender_dq (tw_cpu k e)) (map (\<lambda>v. (v, e)) (F e))"
      using r by (simp add: senders_repr_def)
  qed (use o that in auto)
  moreover have "unlinked h (v, e)" if "v \<notin> set (F e)" "e \<noteq> c" for v e
    using r o that by (simp add: senders_repr_def unlinked_def)
  ultimately show ?thesis using d u by (simp add: senders_repr_def)
qed

lemma vipi_ack_spec:
  assumes r: "senders_repr k F"
  shows "\<exists>k'. vipi_ack this k = Some k' \<and> senders_repr k' (F(this := [])) \<and> tw_vcpu k' = tw_vcpu k \<and>
     tw_num_cpus k' = tw_num_cpus k"
proof -
  let ?ns = "map (\<lambda>v. (v, this)) (F this)"
  have "dq_repr (tw_ipi_node k) (vc_vcpu_sender_dq (tw_cpu k this)) ?ns" using r by (simp add: senders_repr_def)
  from dq_clear_repr [OF this] obtain h d where
    c: "dq_clear (tw_ipi_node k, vc_vcpu_sender_dq (tw_cpu k this)) = Some (h, d)" "dq_repr h d []"
       "\<forall>x \<in> set ?ns. unlinked h x" "\<forall>n. n \<notin> set ?ns \<longrightarrow> h n = tw_ipi_node k n" by auto
  have u: "unlinked h (v, this)" for v
  proof (cases "v \<in> set (F this)")
    case False
    then have "(v, this) \<notin> set ?ns" by auto
    then have "h (v, this) = tw_ipi_node k (v, this)" using c(4) [rule_format, of "(v, this)"] by blast
    then show ?thesis using r False by (simp add: senders_repr_def unlinked_def)
  qed (use c(3) in auto)
  have "senders_repr (on_sender_dq this (\<lambda>_. (h, d)) k) (F(this := []))"
    by (rule senders_repr_upd [OF r]) (use c(2,4) u in auto)
  then show ?thesis using c(1) by (simp add: vipi_ack_def)
qed

lemma vipi_queue_ack_spec:
  assumes r: "senders_repr k F" and q: "vipi_queue_ack this c v k = (ret, k')"
  shows "if this = c \<or> c \<ge> tw_num_cpus k then ret = - EINVAL \<and> k' = k
     else ret = 0 \<and> senders_repr k' (F(c := if v \<in> set (F c) then F c else F c @ [v]))"
proof (cases "this = c \<or> c \<ge> tw_num_cpus k")
  case True
  then show ?thesis using q by (simp add: vipi_queue_ack_def split: if_splits)
next
  case False
  show ?thesis
  proof (cases "v \<in> set (F c)")
    case True
    then have "k' = on_sender_dq c (\<lambda>s. s) k" "ret = 0"
      using False q by (auto simp: vipi_queue_ack_def on_sender_dq_def sender_queued [OF r])
    then show ?thesis using r True False by (simp add: senders_repr_def)
  next
    case new: False
    obtain h d where p: "dq_pushback (tw_ipi_node k, vc_vcpu_sender_dq (tw_cpu k c)) (v, c) = (h, d)" by fastforce
    have k': "k' = on_sender_dq c (\<lambda>_. (h, d)) k" "ret = 0"
      using False q new p by (auto simp: vipi_queue_ack_def on_sender_dq_def sender_queued [OF r])
    have "dq_repr (tw_ipi_node k) (vc_vcpu_sender_dq (tw_cpu k c)) (map (\<lambda>v. (v, c)) (F c))"
      using r by (simp add: senders_repr_def)
    from dq_pushback_repr [OF this _ p] new
    have pb: "dq_repr h d (map (\<lambda>v. (v, c)) (F c) @ [(v, c)])"
      "\<forall>n. n \<notin> insert (v, c) (set (map (\<lambda>v. (v, c)) (F c))) \<longrightarrow> h n = tw_ipi_node k n" by auto
    have "unlinked h (w, c)" if "w \<notin> set (F c @ [v])" for w
    proof -
      have "h (w, c) = tw_ipi_node k (w, c)" using pb(2) [rule_format, of "(w, c)"] that by auto
      then show ?thesis using r that by (simp add: senders_repr_def unlinked_def)
    qed
    then have "senders_repr k' (F(c := F c @ [v]))"
      unfolding k'(1) by (intro senders_repr_upd [OF r]) (use pb in auto)
    then show ?thesis using False new k' by simp
  qed
qed

text \<open>A queued sender sees no acknowledgement until the target acknowledges, and sees it
  afterwards.\<close>

theorem vipi_ack_seen:
  assumes "senders_repr k F" and "this \<noteq> target" and "target < tw_num_cpus k"
  shows "\<exists>k1 k2 F1. vipi_queue_ack this target v k = (0, k1) \<and> senders_repr k1 F1 \<and>
     vipi_check_ack this target v k1 = 0 \<and>
     vipi_ack target k1 = Some k2 \<and> senders_repr k2 (F1(target := [])) \<and>
     (\<forall>w. vipi_check_ack this target w k2 = 1)"
proof -
  obtain ret k1 where q: "vipi_queue_ack this target v k = (ret, k1)" by fastforce
  have nle: "\<not> tw_num_cpus k \<le> target" using assms(3) by (simp add: not_le)
  define F1 where "F1 = F(target := if v \<in> set (F target) then F target else F target @ [v])"
  have r1: "ret = 0" "senders_repr k1 F1"
    using vipi_queue_ack_spec [OF assms(1) q] assms(2,3) by (auto simp: F1_def)
  have n1: "tw_num_cpus k1 = tw_num_cpus k" using q by (auto simp: vipi_queue_ack_def split: if_splits)
  obtain k2 where a: "vipi_ack target k1 = Some k2" "senders_repr k2 (F1(target := []))" "tw_num_cpus k2 = tw_num_cpus k1"
    using vipi_ack_spec [OF r1(2)] by blast
  have c1: "vipi_check_ack this target v k1 = 0"
    using assms(2) nle n1 by (simp add: vipi_check_ack_def sender_queued [OF r1(2)] F1_def)
  have "vipi_check_ack this target w k2 = 1" for w
    using assms(2) nle n1 a(3) by (simp add: vipi_check_ack_def sender_queued [OF a(2)])
  then show ?thesis using q r1 a c1 by blast
qed

section \<open>Applications\<close>

definition subscribed_10 :: vtwan where
  "subscribed_10 = on_dispatch 1 40 (\<lambda>s. dq_pushback s (10, 40)) two_partitions"

lemma subscribed_10_repr:
  "dq_repr (tw_dispatch_node subscribed_10) (vc_dispatch_vectors (tw_cpu subscribed_10 1) 40) [(10, 40)]"
  by (simp add: subscribed_10_def two_partitions_def zero_vcpu_cpu_def dq_pushback_def empty_dq_def dq_repr_def Let_def)

theorem vdispatch_interrupt_spec_witness:
  "\<exists>k'. vdispatch_interrupt 1 40 subscribed_10 = Some k' \<and> vemu_is_interrupt_pending 10 40 False k'"
  using vdispatch_interrupt_spec [OF subscribed_10_repr] by (auto simp: NMI_def)

theorem vipi_ack_seen_witness:
  "\<exists>k1 k2. vipi_queue_ack 0 1 0 two_partitions = (0, k1) \<and> vipi_ack 1 k1 = Some k2 \<and>
     vipi_check_ack 0 1 0 k1 = 0 \<and> vipi_check_ack 0 1 0 k2 = 1"
proof -
  have "senders_repr two_partitions (\<lambda>_. [])"
    by (simp add: senders_repr_def two_partitions_def zero_vcpu_cpu_def unlinked_def)
  then show ?thesis
    using vipi_ack_seen [of two_partitions "\<lambda>_. []" 0 1 0] by (simp add: two_partitions_def) blast
qed

end
