(* ===== verification/Twan_Vemu.thy ===== *)
theory Twan_Vemu
  imports Twan_Visr
begin

text \<open>
  The services behind the hypercalls, \<open>src/subsys/twanvisor/vemulate/vemulate_utils.c\<close>: unpausing,
  interrupt injection, TLB shootdown, time slices and criticalities, routes between partitions,
  subscription and criticality permissions, spin kicks and frames. \<open>this\<close> is the CPU that runs
  the caller, its \<^verbatim>\<open>vcurrent_vcpu()\<close> is \<open>vcur k this\<close>. Each service returns its result and the new state.
  Shown: routes stay symmetric, services on another partition need a route and otherwise change
  nothing, criticality levels are only written within the granted range.
\<close>

abbreviation vcur :: "vtwan \<Rightarrow> u32 \<Rightarrow> vcpu_ptr" where
  "vcur k this \<equiv> the (vcurrent_vcpu k this)"

abbreviation vcur_vid :: "vtwan \<Rightarrow> u32 \<Rightarrow> u8" where
  "vcur_vid k this \<equiv> ucast (v_vid (tw_vcpu k (vcur k this)))"

abbreviation vpart :: "vtwan \<Rightarrow> vpartition_ptr \<Rightarrow> vpartition" where
  "vpart \<equiv> tw_partition"

section \<open>Definitions: unpausing and injecting\<close>

definition vemu_do_unpause_vcpu :: "vconfig \<Rightarrow> vcpu_ptr \<Rightarrow> bool \<Rightarrow> u8 \<Rightarrow> bool \<Rightarrow> vtwan \<Rightarrow> int \<times> vtwan" where
  "vemu_do_unpause_vcpu cfg v inject vector nmi k =
     (if v_state (tw_vcpu k v) \<noteq> VPAUSED then (- EINVAL, k)
      else let k = vsched_unpause cfg v k
           in if inject then vemu_set_interrupt_pending v vector nmi k else (0, k))"

definition vemu_unpause_vcpu_local ::
  "vconfig \<Rightarrow> u32 \<Rightarrow> u32 \<Rightarrow> bool \<Rightarrow> u8 \<Rightarrow> bool \<Rightarrow> vtwan \<Rightarrow> int \<times> vtwan" where
  "vemu_unpause_vcpu_local cfg this processor_id inject vector nmi k =
     (if inject \<and> nmi \<and> vector \<noteq> NMI then (- EINVAL, k)
      else if processor_id \<ge> v_vpartition_num_cpus (tw_vcpu k (vcur k this)) then (- EINVAL, k)
      else case vpartition_get k (vcur_vid k this) of
             None \<Rightarrow> (- EFAULT, k)
           | Some p \<Rightarrow> vemu_do_unpause_vcpu cfg (vpartition_vcpu (vpart k p) processor_id) inject vector nmi k)"

definition vemu_unpause_vcpu_far ::
  "vconfig \<Rightarrow> u32 \<Rightarrow> u8 \<Rightarrow> u32 \<Rightarrow> bool \<Rightarrow> u8 \<Rightarrow> bool \<Rightarrow> vtwan \<Rightarrow> int \<times> vtwan" where
  "vemu_unpause_vcpu_far cfg this target_vid processor_id inject vector nmi k =
     (let sender_vid = vcur_vid k this
      in if sender_vid = target_vid \<or> inject \<and> nmi \<and> vector \<noteq> NMI then (- EINVAL, k)
         else case vpartition_get k target_vid of
                None \<Rightarrow> (- EINVAL, k)
              | Some p \<Rightarrow>
                  if \<not> bmp256_test (vp_ipi_senders (vpart k p)) sender_vid \<or>
                     processor_id \<ge> vp_vcpu_count (vpart k p) then (- EINVAL, k)
                  else vemu_do_unpause_vcpu cfg (vpartition_vcpu (vpart k p) processor_id) inject vector nmi k)"

text \<open>A running target is interrupted when it can take the new interrupt at once.\<close>

definition vemu_do_inject_external_interrupt :: "u32 \<Rightarrow> vcpu_ptr \<Rightarrow> u8 \<Rightarrow> bool \<Rightarrow> vtwan \<Rightarrow> vtwan" where
  "vemu_do_inject_external_interrupt this v vector nmi k =
     (let data = v_delivery (tw_vcpu k v);
          k = vemu_do_set_interrupt_pending v vector nmi k
      in if v_state (tw_vcpu k v) = VRUNNING \<and>
            (if nmi then \<not> vd_nmi_pending data \<and> \<not> vd_nmi_window_exit data
             else \<not> vd_int_window_exit data \<and>
                  (let serviced_intl = fls32 (ucast (vd_in_intl data));
                       intl = vector_to_intl vector
                   in intl > serviced_intl \<and> intl \<ge> uint (vd_intl data)))
         then snd (vipi_async this (vcpu_cpu k v) k) else k)"

definition vemu_inject_external_interrupt_local ::
  "u32 \<Rightarrow> u32 \<Rightarrow> u8 \<Rightarrow> bool \<Rightarrow> vtwan \<Rightarrow> int \<times> vtwan" where
  "vemu_inject_external_interrupt_local this processor_id vector nmi k =
     (let current = vcur k this
      in if nmi \<and> vector \<noteq> NMI then (- EINVAL, k)
         else if processor_id \<ge> v_vpartition_num_cpus (tw_vcpu k current) then (- EINVAL, k)
         else if v_processor_id (tw_vcpu k current) = processor_id
         then vemu_set_interrupt_pending current vector nmi k
         else case vpartition_get k (vcur_vid k this) of
                None \<Rightarrow> (- EFAULT, k)
              | Some p \<Rightarrow> (0, vemu_do_inject_external_interrupt this
                                (vpartition_vcpu (vpart k p) processor_id) vector nmi k))"

definition vemu_inject_external_interrupt_far ::
  "u32 \<Rightarrow> u8 \<Rightarrow> u32 \<Rightarrow> u32 \<Rightarrow> bool \<Rightarrow> vtwan \<Rightarrow> int \<times> vtwan" where
  "vemu_inject_external_interrupt_far this target_vid processor_id vector nmi k =
     (let sender_vid = vcur_vid k this
      in if sender_vid = target_vid \<or> nmi \<and> vector \<noteq> ucast NMI then (- EINVAL, k)
         else case vpartition_get k target_vid of
                None \<Rightarrow> (- EINVAL, k)
              | Some p \<Rightarrow>
                  if \<not> bmp256_test (vp_ipi_senders (vpart k p)) sender_vid \<or>
                     processor_id \<ge> vp_vcpu_count (vpart k p) then (- EINVAL, k)
                  else (0, vemu_do_inject_external_interrupt this
                             (vpartition_vcpu (vpart k p) processor_id) (ucast vector) nmi k))"

section \<open>Definitions: TLB shootdown\<close>

definition vtlb_mark :: "u32 \<Rightarrow> vcpu_ptr \<Rightarrow> vcpu_ptr \<Rightarrow> vtwan \<Rightarrow> vtwan" where
  "vtlb_mark this current v k =
     (let vprocessor_id = vcpu_cpu k v;
          was_pending = v_tlb_flush_pending (tw_vcpu k v);
          k = upd_vcpu v (\<lambda>x. x\<lparr>v_tlb_flush_pending := True\<rparr>) k
      in if v_state (tw_vcpu k v) = VRUNNING then
           let k = snd (vipi_queue_ack this vprocessor_id current k);
               k = (if was_pending then k else snd (vipi_async this vprocessor_id k))
           in upd_vcpu current (\<lambda>x. x\<lparr>v_wait_for_map := (v_wait_for_map x)(vprocessor_id := True)\<rparr>) k
         else k)"

text \<open>\<^verbatim>\<open>spin_until\<close>: \<open>others\<close> is what the other CPUs do between two reads; not returning is \<open>None\<close>.\<close>

partial_function (option) vipi_wait_ack ::
  "(vtwan \<Rightarrow> vtwan) \<Rightarrow> u32 \<Rightarrow> u32 \<Rightarrow> vcpu_ptr \<Rightarrow> vtwan \<Rightarrow> vtwan option" where
  "vipi_wait_ack others this i v k =
     (if vipi_check_ack this i v k = 1 then Some k else vipi_wait_ack others this i v (others k))"

fun vtlb_wait :: "(vtwan \<Rightarrow> vtwan) \<Rightarrow> u32 \<Rightarrow> vcpu_ptr \<Rightarrow> u32 list \<Rightarrow> vtwan \<Rightarrow> vtwan option" where
  "vtlb_wait others this current [] k = Some k"
| "vtlb_wait others this current (i # is) k =
     (if v_wait_for_map (tw_vcpu k current) i then
        (case vipi_wait_ack others this i current k of
           None \<Rightarrow> None
         | Some k \<Rightarrow> vtlb_wait others this current is k)
      else vtlb_wait others this current is k)"

definition vtlb_first_pass :: "u32 \<Rightarrow> vcpu_ptr \<Rightarrow> vpartition \<Rightarrow> vtwan \<Rightarrow> vtwan" where
  "vtlb_first_pass this current vpartition k =
     (let k = upd_vcpu current (\<lambda>x. x\<lparr>v_wait_for_map := (\<lambda>i. i \<ge> tw_num_cpus k \<and> v_wait_for_map x i)\<rparr>) k
      in fold (\<lambda>i. vtlb_mark this current (vpartition_vcpu vpartition (of_nat i)))
           [0..<unat (vp_vcpu_count vpartition)] k)"

definition vemu_tlb_invalidate :: "(vtwan \<Rightarrow> vtwan) \<Rightarrow> u32 \<Rightarrow> u8 \<Rightarrow> vtwan \<Rightarrow> (int \<times> vtwan) option" where
  "vemu_tlb_invalidate others this target_vid k =
     (let current = vcur k this;
          sender_vid = vcur_vid k this
      in case vpartition_get k target_vid of
           None \<Rightarrow> Some (- EINVAL, k)
         | Some p \<Rightarrow>
             if \<not> bmp256_test (vp_tlb_shootdown_senders (vpart k p)) sender_vid \<and> sender_vid \<noteq> target_vid
             then Some (- EINVAL, k)
             else
               let num_enabled_cpus = tw_num_cpus k;
                   k = vtlb_first_pass this current (vpart k p) k
               in map_option (\<lambda>k. (0, k))
                    (vtlb_wait others this current (map of_nat [0..<unat num_enabled_cpus]) k))"

section \<open>Definitions: time slices, criticalities and states\<close>

definition vemu_alter_vcpu ::
  "vconfig \<Rightarrow> u32 \<Rightarrow> u8 \<Rightarrow> u32 \<Rightarrow> bool \<Rightarrow> u32 \<Rightarrow> bool \<Rightarrow> u8 \<Rightarrow> vtwan \<Rightarrow> int \<times> vtwan" where
  "vemu_alter_vcpu cfg this vid processor_id alter_ticks ticks alter_criticality criticality k =
     (case vpartition_get k vid of
        None \<Rightarrow> (- EINVAL, k)
      | Some p \<Rightarrow>
          if processor_id \<ge> vp_vcpu_count (vpart k p) then (- EINVAL, k)
          else
            let v = vpartition_vcpu (vpart k p) processor_id;
                k = (if alter_ticks then
                       let k = upd_vcpu v (\<lambda>x. x\<lparr>v_time_slice_ticks := ticks\<rparr>) k
                       in if v_current_time_slice_ticks (tw_vcpu k v) = 0 \<and> ticks \<noteq> 0 then
                            let k = upd_vcpu v (\<lambda>x. x\<lparr>v_current_time_slice_ticks := ticks\<rparr>) k
                            in if v_state (tw_vcpu k v) = VRUNNING
                               then snd (vipi_async this (vcpu_cpu k v) (upd_vcpu v (\<lambda>x. x\<lparr>v_rearm := True\<rparr>) k))
                               else if vcurrent_vcpu k this = Some v
                               then upd_vcpu v (\<lambda>x. x\<lparr>v_rearm := True\<rparr>) k
                               else k
                          else k
                     else k);
                k = (if alter_criticality \<and> v_criticality (tw_vcpu k v) \<noteq> criticality
                     then vsched_update_criticality cfg v criticality k else k)
            in (0, k))"

definition vemu_do_read_vcpu_state :: "vcpu_ptr \<Rightarrow> vtwan \<Rightarrow> int" where
  "vemu_do_read_vcpu_state v k = vcpu_state_val (v_state (tw_vcpu k v))"

definition vemu_read_vcpu_state_local :: "u32 \<Rightarrow> u32 \<Rightarrow> vtwan \<Rightarrow> int" where
  "vemu_read_vcpu_state_local this processor_id k =
     (if processor_id \<ge> v_vpartition_num_cpus (tw_vcpu k (vcur k this)) then - EINVAL
      else case vpartition_get k (vcur_vid k this) of
             None \<Rightarrow> - EFAULT
           | Some p \<Rightarrow> vemu_do_read_vcpu_state (vpartition_vcpu (vpart k p) processor_id) k)"

definition vemu_read_vcpu_state_far :: "u32 \<Rightarrow> u8 \<Rightarrow> u32 \<Rightarrow> vtwan \<Rightarrow> int" where
  "vemu_read_vcpu_state_far this target_vid processor_id k =
     (let sender_vid = vcur_vid k this
      in if target_vid = sender_vid then - EINVAL
         else case vpartition_get k target_vid of
                None \<Rightarrow> - EINVAL
              | Some p \<Rightarrow>
                  if \<not> bmp256_test (vp_read_vcpu_state_senders (vpart k p)) sender_vid \<or>
                     processor_id \<ge> vp_vcpu_count (vpart k p) then - EINVAL
                  else vemu_do_read_vcpu_state (vpartition_vcpu (vpart k p) processor_id) k)"

section \<open>Definitions: routes and permissions\<close>

definition vemu_set_route :: "u8 \<Rightarrow> u8 \<Rightarrow> u32 \<Rightarrow> bool \<Rightarrow> vtwan \<Rightarrow> int \<times> vtwan" where
  "vemu_set_route target_vid sender_vid route_type allow k =
     (case vroute_of route_type of
        None \<Rightarrow> (- EINVAL, k)
      | Some r \<Rightarrow>
          if sender_vid = target_vid then (- EINVAL, k)
          else
            let vid1 = min sender_vid target_vid;
                vid2 = max sender_vid target_vid
            in case vpartition_get k vid1 of
                 None \<Rightarrow> (- EINVAL, k)
               | Some vpartition1 \<Rightarrow>
                   (case vpartition_get k vid2 of
                      None \<Rightarrow> (- EINVAL, k)
                    | Some vpartition2 \<Rightarrow>
                        let sender = (if vid1 = sender_vid then vpartition1 else vpartition2);
                            target = (if vid1 = target_vid then vpartition1 else vpartition2);
                            alter = (\<lambda>m vid. if allow then bmp256_set m vid else bmp256_unset m vid);
                            k = upd_partition sender (upd_receivers r (\<lambda>m. alter m target_vid)) k;
                            k = upd_partition target (upd_senders r (\<lambda>m. alter m sender_vid)) k
                        in (0, k)))"

definition vemu_set_vcpu_subscription_perms :: "u8 \<Rightarrow> u32 \<Rightarrow> u8 \<Rightarrow> bool \<Rightarrow> vtwan \<Rightarrow> int \<times> vtwan" where
  "vemu_set_vcpu_subscription_perms vid processor_id vector allow k =
     (case vpartition_get k vid of
        None \<Rightarrow> (- EINVAL, k)
      | Some p \<Rightarrow>
          if processor_id \<ge> vp_vcpu_count (vpart k p) then (- EINVAL, k)
          else
            let v = vpartition_vcpu (vpart k p) processor_id;
                c = vcpu_cpu k v
            in if \<not> bmp256_test (vc_available_vectors (tw_cpu k c)) vector then (- EINVAL, k)
               else if allow then
                 (0, upd_vcpu v (\<lambda>x. x\<lparr>v_allowed_external_vectors := bmp256_set (v_allowed_external_vectors x) vector\<rparr>) k)
               else
                 (0, on_dispatch c vector (\<lambda>(h, d). if dq_is_queued h d (v, vector) then dq_dequeue (h, d) (v, vector) else (h, d))
                       (upd_vcpu v (\<lambda>x. x\<lparr>
                          v_allowed_external_vectors := bmp256_unset (v_allowed_external_vectors x) vector,
                          v_subscribed_vectors := bmp256_unset (v_subscribed_vectors x) vector\<rparr>) k)))"

definition vemu_set_criticality_perm :: "vconfig \<Rightarrow> u8 \<Rightarrow> u32 \<Rightarrow> u32 \<Rightarrow> vtwan \<Rightarrow> int \<times> vtwan" where
  "vemu_set_criticality_perm cfg vid physical_processor_id perm_val k =
     (let perm = vcriticality_perm_of perm_val;
          mn = vp_min_criticality_writeable perm;
          mx = vp_max_criticality_writeable perm
      in if physical_processor_id \<ge> tw_num_cpus k then (- EINVAL, k)
         else if vp_write perm \<and> (mn > mx \<or> unat mx > VSCHED_MAX_CRITICALITY cfg) then (- EINVAL, k)
         else case vpartition_get k vid of
                None \<Rightarrow> (- EINVAL, k)
              | Some p \<Rightarrow> (0, upd_partition p (\<lambda>x. x\<lparr>vp_criticality_perms :=
                                (vp_criticality_perms x)(physical_processor_id := perm)\<rparr>) k))"

definition vemu_read_criticality_level :: "u8 \<Rightarrow> u32 \<Rightarrow> vtwan \<Rightarrow> int" where
  "vemu_read_criticality_level requester_vid physical_processor_id k =
     (if physical_processor_id \<ge> tw_num_cpus k then - EINVAL
      else case vpartition_get k requester_vid of
             None \<Rightarrow> - EINVAL
           | Some p \<Rightarrow>
               if vp_read (vp_criticality_perms (vpart k p) physical_processor_id)
               then uint (vsched_mcs_read_criticality_level k physical_processor_id) else - EPERM)"

definition vemu_write_criticality_level :: "vconfig \<Rightarrow> u8 \<Rightarrow> u32 \<Rightarrow> u8 \<Rightarrow> vtwan \<Rightarrow> int \<times> vtwan" where
  "vemu_write_criticality_level cfg requester_vid physical_processor_id criticality_level k =
     (if physical_processor_id \<ge> tw_num_cpus k \<or> unat criticality_level > VSCHED_MAX_CRITICALITY cfg
      then (- EINVAL, k)
      else case vpartition_get k requester_vid of
             None \<Rightarrow> (- EINVAL, k)
           | Some p \<Rightarrow>
               let perm = vp_criticality_perms (vpart k p) physical_processor_id
               in if vp_write perm \<and> criticality_level \<ge> vp_min_criticality_writeable perm \<and>
                     criticality_level \<le> vp_max_criticality_writeable perm
                  then vsched_mcs_write_criticality_level cfg physical_processor_id criticality_level k
                  else (- EINVAL, k))"

section \<open>Definitions: spin kicks and frames\<close>

definition vemu_do_pv_spin_kick :: "vconfig \<Rightarrow> vcpu_ptr \<Rightarrow> vtwan \<Rightarrow> vtwan" where
  "vemu_do_pv_spin_kick cfg v k =
     (if v_pv_spin_state (tw_vcpu k v) = VSPIN_PAUSED
      then upd_vcpu v (\<lambda>x. x\<lparr>v_pv_spin_state := VSPIN_NONE\<rparr>) (vsched_unpause cfg v k)
      else upd_vcpu v (\<lambda>x. x\<lparr>v_pv_spin_state := VSPIN_KICKED\<rparr>) k)"

definition vemu_pv_spin_kick_local :: "vconfig \<Rightarrow> u32 \<Rightarrow> u32 \<Rightarrow> vtwan \<Rightarrow> int \<times> vtwan" where
  "vemu_pv_spin_kick_local cfg this processor_id k =
     (if processor_id \<ge> v_vpartition_num_cpus (tw_vcpu k (vcur k this)) then (- EINVAL, k)
      else case vpartition_get k (vcur_vid k this) of
             None \<Rightarrow> (- EINVAL, k)
           | Some p \<Rightarrow> (0, vemu_do_pv_spin_kick cfg (vpartition_vcpu (vpart k p) processor_id) k))"

definition vemu_pv_spin_kick_far :: "vconfig \<Rightarrow> u32 \<Rightarrow> u8 \<Rightarrow> u32 \<Rightarrow> vtwan \<Rightarrow> int \<times> vtwan" where
  "vemu_pv_spin_kick_far cfg this target_vid processor_id k =
     (let sender_vid = vcur_vid k this
      in if target_vid = sender_vid then (- EINVAL, k)
         else case vpartition_get k target_vid of
                None \<Rightarrow> (- EINVAL, k)
              | Some p \<Rightarrow>
                  if \<not> bmp256_test (vp_pv_spin_kick_senders (vpart k p)) sender_vid \<or>
                     processor_id \<ge> vp_vcpu_count (vpart k p) then (- EINVAL, k)
                  else (0, vemu_do_pv_spin_kick cfg (vpartition_vcpu (vpart k p) processor_id) k))"

definition vemu_vframe_set :: "vconfig \<Rightarrow> u8 \<Rightarrow> u32 \<Rightarrow> u32 \<Rightarrow> vtwan \<Rightarrow> int \<times> vtwan" where
  "vemu_vframe_set cfg vid processor_id frame_id k =
     (if unat frame_id \<ge> vcf_num_frames cfg then (- EINVAL, k)
      else case vpartition_get k vid of
             None \<Rightarrow> (- EINVAL, k)
           | Some p \<Rightarrow>
               if processor_id \<ge> vp_vcpu_count (vpart k p) then (- EINVAL, k)
               else
                 let v = vpartition_vcpu (vpart k p) processor_id;
                     c = vcpu_cpu k v;
                     state = v_state (tw_vcpu k v)
                 in if state \<noteq> VTERMINATED \<and> vs_frames (vsched_at k c) (unat frame_id) = None
                    then (0, upd_vsched c (\<lambda>s. s\<lparr>vs_frames := (vs_frames s)(unat frame_id := Some v),
                               vs_kick := (if state = VREADY then True else vs_kick s)\<rparr>) k)
                    else (- EINVAL, k))"

definition vemu_vframe_unset :: "vconfig \<Rightarrow> u32 \<Rightarrow> u32 \<Rightarrow> vtwan \<Rightarrow> int \<times> vtwan" where
  "vemu_vframe_unset cfg physical_processor_id frame_id k =
     (if physical_processor_id \<ge> tw_num_cpus k \<or> unat frame_id \<ge> vcf_num_frames cfg then (- EINVAL, k)
      else (0, upd_vsched physical_processor_id (\<lambda>s. s\<lparr>vs_frames := (vs_frames s)(unat frame_id := None)\<rparr>) k))"

section \<open>Routes\<close>

text \<open>\<open>can_send k r a b\<close>: partition \<open>b\<close> is there and accepts operation \<open>r\<close> from partition \<open>a\<close>. The root partition
  is a sender of every partition without being entered in its own receiver map.\<close>

definition can_send :: "vtwan \<Rightarrow> vroute_type \<Rightarrow> u8 \<Rightarrow> u8 \<Rightarrow> bool" where
  "can_send k r a b \<longleftrightarrow> (\<exists>p. tw_table k b = Some p \<and> bmp256_test (senders_of r (vpart k p)) a)"

definition table_inj :: "vtwan \<Rightarrow> bool" where
  "table_inj k \<longleftrightarrow> (\<forall>a b p. tw_table k a = Some p \<and> tw_table k b = Some p \<longrightarrow> a = b)"

definition routes_ok :: "vtwan \<Rightarrow> bool" where
  "routes_ok k \<longleftrightarrow>
     table_inj k \<and>
     (\<forall>r a p b. tw_table k a = Some p \<and> bmp256_test (receivers_of r (vpart k p)) b \<longrightarrow> can_send k r a b) \<and>
     (\<forall>r a b. can_send k r a b \<and> a \<noteq> tw_root_vid k \<longrightarrow>
        (\<exists>p. tw_table k a = Some p \<and> bmp256_test (receivers_of r (vpart k p)) b))"

lemma routes_okD:
  assumes "routes_ok k"
  shows "table_inj k"
    and "tw_table k a = Some p \<Longrightarrow> bmp256_test (receivers_of r (vpart k p)) b \<Longrightarrow> can_send k r a b"
    and "can_send k r a b \<Longrightarrow> a \<noteq> tw_root_vid k \<Longrightarrow>
      \<exists>p. tw_table k a = Some p \<and> bmp256_test (receivers_of r (vpart k p)) b"
  using assms [unfolded routes_ok_def, THEN conjunct1] assms [unfolded routes_ok_def, THEN conjunct2, THEN conjunct1]
    assms [unfolded routes_ok_def, THEN conjunct2, THEN conjunct2] by simp_all

lemma vemu_set_route_cases:
  assumes "vemu_set_route t s n allow k = (ret, k')"
  shows "ret = - EINVAL \<and> k' = k \<and> (s = t \<or> vroute_of n = None \<or> tw_table k s = None \<or> tw_table k t = None) \<or>
     (\<exists>r ps pt. ret = 0 \<and> vroute_of n = Some r \<and> s \<noteq> t \<and> tw_table k s = Some ps \<and> tw_table k t = Some pt \<and>
        k' = upd_partition pt (upd_senders r (\<lambda>m. if allow then bmp256_set m s else bmp256_unset m s))
               (upd_partition ps (upd_receivers r (\<lambda>m. if allow then bmp256_set m t else bmp256_unset m t)) k))"
proof (cases "vroute_of n = None \<or> s = t \<or> tw_table k s = None \<or> tw_table k t = None")
  case True
  then have "ret = - EINVAL \<and> k' = k"
    using assms
    by (auto simp: vemu_set_route_def vpartition_get_def Let_def min_def max_def split: option.splits if_splits)
  then show ?thesis using True by (intro disjI1) auto
next
  case False
  then obtain r ps pt where r: "vroute_of n = Some r" "s \<noteq> t" "tw_table k s = Some ps" "tw_table k t = Some pt"
    by auto
  show ?thesis
  proof (cases "s < t")
    case True
    then have "min s t = s" "max s t = t" by (auto simp: min_def max_def)
    then show ?thesis using assms r by (simp add: vemu_set_route_def vpartition_get_def Let_def)
  next
    case False
    then have "min s t = t" "max s t = s" by (simp_all add: min_def max_def)
    then show ?thesis using assms r by (simp add: vemu_set_route_def vpartition_get_def Let_def)
  qed
qed

lemma bmp256_alter:
  "bmp256_test (if allow then bmp256_set m x else bmp256_unset m x) y \<longleftrightarrow> (if y = x then allow else bmp256_test m y)"
  by simp

text \<open>The effect of a successful call on both maps, seen from the table.\<close>

lemma set_route_maps:
  assumes inj: "table_inj k"
    and st: "s \<noteq> t" "tw_table k s = Some ps" "tw_table k t = Some pt"
    and k': "k' = upd_partition pt (upd_senders r (\<lambda>m. if allow then bmp256_set m s else bmp256_unset m s))
               (upd_partition ps (upd_receivers r (\<lambda>m. if allow then bmp256_set m t else bmp256_unset m t)) k)"
  shows "tw_table k' = tw_table k" "tw_root_vid k' = tw_root_vid k"
    "can_send k' q a b \<longleftrightarrow> (if q = r \<and> a = s \<and> b = t then allow else can_send k q a b)"
    "tw_table k a = Some p \<Longrightarrow> bmp256_test (receivers_of q (vpart k' p)) b \<longleftrightarrow>
       (if q = r \<and> a = s \<and> b = t then allow else bmp256_test (receivers_of q (vpart k p)) b)"
proof -
  have tb: "a = b" if "tw_table k a = Some p" "tw_table k b = Some p" for a b p
    using inj that by (auto simp: table_inj_def)
  have ne: "ps \<noteq> pt" using tb st by blast
  show "tw_table k' = tw_table k" "tw_root_vid k' = tw_root_vid k" by (simp_all add: k')
  show "can_send k' q a b \<longleftrightarrow> (if q = r \<and> a = s \<and> b = t then allow else can_send k q a b)"
  proof (cases "tw_table k b")
    case (Some p)
    show ?thesis
    proof (cases "b = t")
      case True
      then show ?thesis using Some st ne by (simp add: can_send_def k' bmp256_alter)
    next
      case False
      then have "p \<noteq> pt" using tb Some st(3) by blast
      then show ?thesis using Some False by (simp add: can_send_def k')
    qed
  qed (use st in \<open>auto simp: can_send_def k'\<close>)
  show "bmp256_test (receivers_of q (vpart k' p)) b \<longleftrightarrow>
      (if q = r \<and> a = s \<and> b = t then allow else bmp256_test (receivers_of q (vpart k p)) b)"
    if "tw_table k a = Some p"
  proof (cases "a = s")
    case True
    then show ?thesis using that st ne by (simp add: k' bmp256_alter)
  next
    case False
    then have "p \<noteq> ps" using tb that st(2) by blast
    then show ?thesis using False by (simp add: k')
  qed
qed

lemma set_route_ok:
  assumes ok: "routes_ok k" and st: "s \<noteq> t" "tw_table k s = Some ps" "tw_table k t = Some pt"
    and k': "k' = upd_partition pt (upd_senders r (\<lambda>m. if allow then bmp256_set m s else bmp256_unset m s))
               (upd_partition ps (upd_receivers r (\<lambda>m. if allow then bmp256_set m t else bmp256_unset m t)) k)"
  shows "routes_ok k'"
proof -
  have inj: "table_inj k" using ok by (simp add: routes_ok_def)
  note m = set_route_maps [OF inj st k']
  have "can_send k' q a b" if "tw_table k a = Some p" "bmp256_test (receivers_of q (vpart k' p)) b" for q a p b
    using routes_okD(2) [OF ok that(1), of q b] that(2) m(3) m(4) [OF that(1)] by (auto split: if_splits)
  moreover have "\<exists>p. tw_table k a = Some p \<and> bmp256_test (receivers_of q (vpart k' p)) b"
    if send: "can_send k' q a b" "a \<noteq> tw_root_vid k" for q a b
  proof (cases "q = r \<and> a = s \<and> b = t")
    case True
    then show ?thesis using send m(3) m(4) [OF st(2)] st by auto
  next
    case False
    then have "can_send k q a b" using send(1) m(3) [of q a b] by simp
    from routes_okD(3) [OF ok this send(2)]
    obtain p where p: "tw_table k a = Some p" "bmp256_test (receivers_of q (vpart k p)) b" by (elim exE conjE)
    have "bmp256_test (receivers_of q (vpart k' p)) b" using m(4) [OF p(1), of q b] p(2) False by simp
    then show ?thesis using p(1) by (intro exI conjI)
  qed
  ultimately show ?thesis using inj by (simp add: routes_ok_def table_inj_def m(1,2))
qed

text \<open>C15: Setting a route keeps the sender and receiver maps of all partitions symmetric, changes
  exactly the permission it names when both partitions exist, and changes nothing otherwise.\<close>

theorem vemu_set_route_spec:
  assumes "routes_ok k" and "vemu_set_route t s n allow k = (ret, k')"
  shows "routes_ok k' \<and>
     (ret = - EINVAL \<and> k' = k \<and> (s = t \<or> vroute_of n = None \<or> tw_table k s = None \<or> tw_table k t = None) \<or>
      ret = 0 \<and> tw_table k' = tw_table k \<and> tw_vcpu k' = tw_vcpu k \<and>
        (\<exists>r. vroute_of n = Some r \<and>
          (\<forall>q a b. can_send k' q a b \<longleftrightarrow> (if q = r \<and> a = s \<and> b = t then allow else can_send k q a b))))"
  using vemu_set_route_cases [OF assms(2)]
proof (elim disjE exE conjE)
  fix r ps pt
  assume r: "ret = 0" "vroute_of n = Some r" and st: "s \<noteq> t" "tw_table k s = Some ps" "tw_table k t = Some pt"
    and k': "k' = upd_partition pt (upd_senders r (\<lambda>m. if allow then bmp256_set m s else bmp256_unset m s))
               (upd_partition ps (upd_receivers r (\<lambda>m. if allow then bmp256_set m t else bmp256_unset m t)) k)"
  have inj: "table_inj k" using assms(1) by (simp add: routes_ok_def)
  have "tw_vcpu k' = tw_vcpu k" by (simp add: k')
  moreover have "\<forall>q a b. can_send k' q a b \<longleftrightarrow> (if q = r \<and> a = s \<and> b = t then allow else can_send k q a b)"
    using set_route_maps(3) [OF inj st k'] by blast
  ultimately show ?thesis
    using set_route_ok [OF assms(1) st k'] set_route_maps(1) [OF inj st k'] r by blast
qed (use assms(1) in auto)

section \<open>Isolation\<close>

lemma no_route:
  assumes "\<not> can_send k r a b"
  shows "tw_table k b = None \<or> (\<exists>p. tw_table k b = Some p \<and> \<not> bmp256_test (senders_of r (vpart k p)) a)"
  using assms by (auto simp: can_send_def)

text \<open>C14: Without a route, the services on another partition (interrupt injection, unpausing,
  spin kicks, reading states, TLB shootdown) return -EINVAL and leave the whole hypervisor
  state unchanged.\<close>

theorem vemu_far_isolated:
    "(\<not> can_send k VIPI_ROUTE (vcur_vid k this) vid \<longrightarrow>
        vemu_inject_external_interrupt_far this vid n vector nmi k = (- EINVAL, k) \<and>
        vemu_unpause_vcpu_far cfg this vid n inject x nmi k = (- EINVAL, k)) \<and>
     (\<not> can_send k VPV_SPIN_KICK_ROUTE (vcur_vid k this) vid \<longrightarrow> vemu_pv_spin_kick_far cfg this vid n k = (- EINVAL, k)) \<and>
     (\<not> can_send k VREAD_VCPU_STATE_ROUTE (vcur_vid k this) vid \<longrightarrow> vemu_read_vcpu_state_far this vid n k = - EINVAL) \<and>
     (\<not> can_send k VTLB_SHOOTDOWN_ROUTE (vcur_vid k this) vid \<and> vcur_vid k this \<noteq> vid \<longrightarrow>
        vemu_tlb_invalidate others this vid k = Some (- EINVAL, k))"
  by (auto dest!: no_route simp: vemu_inject_external_interrupt_far_def vemu_unpause_vcpu_far_def
      vemu_pv_spin_kick_far_def vemu_read_vcpu_state_far_def vemu_tlb_invalidate_def vpartition_get_def Let_def)

section \<open>Criticality levels\<close>

definition perms_ok :: "vconfig \<Rightarrow> vtwan \<Rightarrow> bool" where
  "perms_ok cfg k \<longleftrightarrow> (\<forall>vid p c. tw_table k vid = Some p \<and> vp_write (vp_criticality_perms (vpart k p) c) \<longrightarrow>
     unat (vp_max_criticality_writeable (vp_criticality_perms (vpart k p) c)) \<le> VSCHED_MAX_CRITICALITY cfg)"

lemma write_level_cases:
  assumes "vemu_write_criticality_level cfg vid c l k = (ret, k')"
  shows "ret = - EINVAL \<and> k' = k \<or>
     (\<exists>p. ret = 0 \<and> tw_table k vid = Some p \<and> c < tw_num_cpus k \<and> unat l \<le> VSCHED_MAX_CRITICALITY cfg \<and>
        vp_write (vp_criticality_perms (vpart k p) c) \<and> vp_min_criticality_writeable (vp_criticality_perms (vpart k p) c) \<le> l \<and>
        l \<le> vp_max_criticality_writeable (vp_criticality_perms (vpart k p) c) \<and>
        k' = upd_vsched c (\<lambda>s. s\<lparr>vs_criticality_level := l\<rparr>) k)"
  using assms
  by (auto simp: vemu_write_criticality_level_def vsched_mcs_write_criticality_level_def vpartition_get_def Let_def
      not_less not_le split: option.splits if_splits)

text \<open>C16: A write of the criticality level of a CPU succeeds exactly if the CPU and the level exist, the partition that asks for it is in the
  table and may write there, and the level is within the range granted to it, both ends included. A written level is read back, the
  levels of the other CPUs and all partitions stay as they are, and a refused write has no effect.\<close>

theorem vcriticality_write_spec:
  assumes "vemu_write_criticality_level cfg vid c l k = (ret, k')"
  shows "(ret = 0 \<longleftrightarrow> c < tw_num_cpus k \<and> unat l \<le> VSCHED_MAX_CRITICALITY cfg \<and>
       (\<exists>p. tw_table k vid = Some p \<and> vp_write (vp_criticality_perms (vpart k p) c) \<and>
          vp_min_criticality_writeable (vp_criticality_perms (vpart k p) c) \<le> l \<and>
          l \<le> vp_max_criticality_writeable (vp_criticality_perms (vpart k p) c))) \<and>
     (ret = 0 \<longrightarrow> (\<forall>d. vsched_mcs_read_criticality_level k' d = (if d = c then l else vsched_mcs_read_criticality_level k d)) \<and>
        tw_partition k' = tw_partition k \<and> tw_vcpu k' = tw_vcpu k) \<and>
     (ret \<noteq> 0 \<longrightarrow> ret = - EINVAL \<and> k' = k)"
proof (cases "ret = 0")
  case True
  then have "ret \<noteq> - EINVAL" by (simp add: EINVAL_def)
  then show ?thesis using write_level_cases [OF assms] True by (auto simp: vsched_mcs_read_criticality_level_def)
next
  case False
  have "ret = - EINVAL \<and> k' = k" using write_level_cases [OF assms] False by auto
  moreover have "\<not> (c < tw_num_cpus k \<and> unat l \<le> VSCHED_MAX_CRITICALITY cfg \<and>
       (\<exists>p. tw_table k vid = Some p \<and> vp_write (vp_criticality_perms (vpart k p) c) \<and>
          vp_min_criticality_writeable (vp_criticality_perms (vpart k p) c) \<le> l \<and>
          l \<le> vp_max_criticality_writeable (vp_criticality_perms (vpart k p) c)))"
    using assms False
    by (auto simp: vemu_write_criticality_level_def vsched_mcs_write_criticality_level_def vpartition_get_def Let_def split: if_splits)
  ultimately show ?thesis using False by simp
qed

text \<open>Granting criticality permissions keeps every writable range within the configured
  criticalities and changes only the entry it names.\<close>

theorem vcriticality_perm_spec:
  assumes "perms_ok cfg k" and "vemu_set_criticality_perm cfg vid c v k = (ret, k')"
  shows "perms_ok cfg k' \<and>
     (ret = - EINVAL \<and> k' = k \<or>
      ret = 0 \<and> (\<exists>p. tw_table k vid = Some p \<and>
        vp_criticality_perms (vpart k' p) c = vcriticality_perm_of v \<and>
        (\<forall>q d. q \<noteq> p \<or> d \<noteq> c \<longrightarrow> vp_criticality_perms (vpart k' q) d = vp_criticality_perms (vpart k q) d)))"
  using assms
  by (auto simp: vemu_set_criticality_perm_def vpartition_get_def perms_ok_def Let_def not_less
      split: option.splits if_splits)

section \<open>Frames\<close>

text \<open>A frame of a CPU only holds virtual CPUs of this CPU.\<close>

definition frames_ok :: "vtwan \<Rightarrow> bool" where
  "frames_ok k \<longleftrightarrow> (\<forall>c i v. vs_frames (vsched_at k c) i = Some v \<longrightarrow> vcpu_cpu k v = c)"

text \<open>A frame is only assigned when it is free and the virtual CPU is not terminated; the
  frame then holds the virtual CPU on its own CPU, no other frame changes, and a ready virtual
  CPU wakes the idle loop.\<close>

theorem vframe_set_spec:
  assumes "frames_ok k" and "vemu_vframe_set cfg vid n f k = (ret, k')"
  shows "frames_ok k' \<and>
     (ret = - EINVAL \<and> k' = k \<or>
      ret = 0 \<and> unat f < vcf_num_frames cfg \<and>
      (\<exists>p v. tw_table k vid = Some p \<and> n < vp_vcpu_count (vpart k p) \<and> v = vpartition_vcpu (vpart k p) n \<and>
         v_state (tw_vcpu k v) \<noteq> VTERMINATED \<and> vs_frames (vsched_at k (vcpu_cpu k v)) (unat f) = None \<and>
         (\<forall>c i. vs_frames (vsched_at k' c) i =
            (if c = vcpu_cpu k v \<and> i = unat f then Some v else vs_frames (vsched_at k c) i)) \<and>
         (v_state (tw_vcpu k v) = VREADY \<longrightarrow> vs_kick (vsched_at k' (vcpu_cpu k v)))))"
  using assms
  by (auto simp: vemu_vframe_set_def vpartition_get_def frames_ok_def Let_def vcpu_cpu_def not_le
      split: option.splits if_splits)

section \<open>Applications\<close>

text \<open>The virtual CPU of partition 1 runs on CPU 1; the root has granted it criticality level 1 there.\<close>

definition running_1 :: vtwan where
  "running_1 = upd_vcpu_cpu 1 (\<lambda>c. c\<lparr>vc_current_vcpu := Some 10\<rparr>)
     (upd_partition 1 (\<lambda>p. p\<lparr>vp_criticality_perms := (\<lambda>_. vcriticality_perm_of 0x403)\<rparr>) two_partitions)"

lemma two_partitions_simps [simp]:
  "tw_table two_partitions = (\<lambda>vid. if vid = 0 then Some 0 else if vid = 1 then Some 1 else None)"
  "tw_num_cpus two_partitions = 2" "tw_root_vid two_partitions = 0"
  "tw_partition two_partitions = (\<lambda>p. if p = 0 then zero_vpartition\<lparr>vp_root := True\<rparr>
     else zero_vpartition\<lparr>vp_vid := 1, vp_vcpus := 10\<rparr>)"
  "vs_frames (vsched_at two_partitions c) i = None"
  by (simp_all add: two_partitions_def vsched_at_def zero_vcpu_cpu_def)

lemma zero_vpartition_routes [simp]:
  "\<not> bmp256_test (receivers_of r zero_vpartition) a" "\<not> bmp256_test (senders_of r zero_vpartition) a"
  by (cases r; simp add: zero_vpartition_def)+

lemma routes_of_flags [simp]:
  "receivers_of r (p\<lparr>vp_root := b\<rparr>) = receivers_of r p" "senders_of r (p\<lparr>vp_root := b\<rparr>) = senders_of r p"
  "receivers_of r (p\<lparr>vp_vid := v\<rparr>) = receivers_of r p" "senders_of r (p\<lparr>vp_vid := v\<rparr>) = senders_of r p"
  "receivers_of r (p\<lparr>vp_vcpus := w\<rparr>) = receivers_of r p" "senders_of r (p\<lparr>vp_vcpus := w\<rparr>) = senders_of r p"
  "receivers_of r (p\<lparr>vp_criticality_perms := m\<rparr>) = receivers_of r p"
  "senders_of r (p\<lparr>vp_criticality_perms := m\<rparr>) = senders_of r p"
  "receivers_of r (p\<lparr>vp_num_terminated := n\<rparr>) = receivers_of r p"
  "senders_of r (p\<lparr>vp_num_terminated := n\<rparr>) = senders_of r p"
  by (cases r; simp)+

lemma two_partitions_routes: "routes_ok two_partitions" "\<not> can_send two_partitions r a b"
  by (auto simp: routes_ok_def table_inj_def can_send_def split: if_splits)

theorem vemu_set_route_spec_witness:
  "\<exists>k'. vemu_set_route 0 1 0 True two_partitions = (0, k') \<and> routes_ok k' \<and> can_send k' VIPI_ROUTE 1 0"
proof -
  obtain ret k' where e: "vemu_set_route 0 1 0 True two_partitions = (ret, k')" by fastforce
  show ?thesis
    using vemu_set_route_spec [OF two_partitions_routes(1) e] e
    by (auto simp: vroute_of_def)
qed

theorem vemu_far_isolated_witness:
  "\<not> can_send running_1 VIPI_ROUTE (vcur_vid running_1 1) 0 \<and>
   vemu_inject_external_interrupt_far 1 0 0 40 False running_1 = (- EINVAL, running_1)"
proof -
  have n: "\<not> can_send running_1 VIPI_ROUTE (vcur_vid running_1 1) 0"
    by (simp add: can_send_def running_1_def zero_vpartition_def)
  show ?thesis using vemu_far_isolated [of running_1 1 0 0 40 False] n by blast
qed

lemma level_1_perm: "vcriticality_perm_of 0x403 = \<lparr>vp_read = True, vp_write = True,
    vp_min_criticality_writeable = 0, vp_max_criticality_writeable = 1\<rparr>"
  by code_simp

lemma u32_small: "\<not> 2 \<le> (1 :: u32)" "\<not> 2 \<le> (0 :: u32)" "\<not> 1 \<le> (0 :: u32)"
  by (simp_all add: word_le_nat_alt)

theorem vcriticality_write_spec_witness:
  "\<exists>k'. vemu_write_criticality_level mcfs_config 1 1 1 running_1 = (0, k') \<and>
     vsched_mcs_read_criticality_level k' 1 = 1"
proof -
  obtain ret k' where e: "vemu_write_criticality_level mcfs_config 1 1 1 running_1 = (ret, k')" by fastforce
  have "ret = 0"
    using e by (simp add: vemu_write_criticality_level_def running_1_def vpartition_get_def Let_def
        level_1_perm u32_small vsched_mcs_write_criticality_level_def mcfs_config_def VSCHED_MAX_CRITICALITY_def)
  then show ?thesis using vcriticality_write_spec [OF e] e by auto
qed

theorem vcriticality_perm_spec_witness:
  "\<exists>k'. vemu_set_criticality_perm mcfs_config 1 0 0x403 two_partitions = (0, k') \<and> perms_ok mcfs_config k'"
proof -
  obtain ret k' where e: "vemu_set_criticality_perm mcfs_config 1 0 0x403 two_partitions = (ret, k')" by fastforce
  have ok: "perms_ok mcfs_config two_partitions"
    by (simp add: perms_ok_def zero_vpartition_def vcriticality_perm_of_def)
  have "ret = 0"
    using e by (simp add: vemu_set_criticality_perm_def vpartition_get_def Let_def level_1_perm u32_small
        mcfs_config_def VSCHED_MAX_CRITICALITY_def not_less)
  then show ?thesis using vcriticality_perm_spec [OF ok e] e by auto
qed

theorem vframe_set_spec_witness:
  "\<exists>k'. vemu_vframe_set mcfs_config 1 0 1 two_partitions = (0, k') \<and> vs_frames (vsched_at k' 1) 1 = Some 10"
proof -
  obtain ret k' where e: "vemu_vframe_set mcfs_config 1 0 1 two_partitions = (ret, k')" by fastforce
  have ok: "frames_ok two_partitions" by (simp add: frames_ok_def)
  have v: "v_state (tw_vcpu two_partitions 10) = VREADY" "vcpu_cpu two_partitions 10 = 1"
    by (simp_all add: two_partitions_def zero_vcpu_def vcpu_cpu_def)
  have "ret = 0"
    using e v by (simp add: vemu_vframe_set_def vpartition_get_def Let_def mcfs_config_def zero_vpartition_def
        vpartition_vcpu_def u32_small)
  then show ?thesis
    using vframe_set_spec [OF ok e] e v by (auto simp: vpartition_vcpu_def EINVAL_def zero_vpartition_def)
qed

end
