(* ===== verification/Twan_Vrecovery.thy ===== *)
theory Twan_Vrecovery
  imports Twan_Vemu
begin

text \<open>
  Tearing partitions down, \<open>src/subsys/twanvisor/vportal/vrecovery.c\<close>: removing a virtual CPU from the
  dispatch and acknowledgement queues, terminating the virtual CPUs of a partition, and the final
  removal of the partition with all its routes. \<open>None\<close> stands for a null pointer that is followed.
  The locale \<open>unwinding\<close> is the contract of the eight loops that take the routes back. Shown: the
  teardown returns, frees the identifier and notifies the root; it takes back every route of the
  partition except that it may go on sending interrupts.
\<close>

section \<open>Definitions: leaving the queues\<close>

definition vdispatcher_dequeue :: "u32 \<Rightarrow> vcpu_ptr \<Rightarrow> vtwan \<Rightarrow> vtwan" where
  "vdispatcher_dequeue target v =
     fold (\<lambda>i. on_dispatch target (of_nat i) (\<lambda>(h, d).
         if dq_is_queued h d (v, of_nat i) then dq_dequeue (h, d) (v, of_nat i) else (h, d)))
       [0..<256]"

definition vipi_ack_dequeue_all :: "vconfig \<Rightarrow> vcpu_ptr \<Rightarrow> vtwan \<Rightarrow> vtwan" where
  "vipi_ack_dequeue_all cfg v =
     fold (\<lambda>i. on_sender_dq (of_nat i) (\<lambda>(h, d).
         if dq_is_queued h d (v, of_nat i) then dq_dequeue (h, d) (v, of_nat i) else (h, d)))
       [0..<vcf_num_cpus cfg]"

section \<open>Definitions: the final teardown\<close>

text \<open>The loop \<^verbatim>\<open>while ((pair_vid = bmp256_fls(scan)) != -1)\<close>: \<open>scan\<close> is the map it empties, \<open>upd_own\<close> the map of the
  partition it clears a bit of, \<open>upd_pair\<close> the map of the other partition.\<close>

partial_function (option) vunwind ::
  "(vpartition \<Rightarrow> bmp256) \<Rightarrow> ((bmp256 \<Rightarrow> bmp256) \<Rightarrow> vpartition \<Rightarrow> vpartition)
     \<Rightarrow> ((bmp256 \<Rightarrow> bmp256) \<Rightarrow> vpartition \<Rightarrow> vpartition) \<Rightarrow> u8 \<Rightarrow> vpartition_ptr \<Rightarrow> vtwan \<Rightarrow> vtwan option" where
  "vunwind scan upd_own upd_pair vid p k =
     (let pair_vid = bmp256_fls (scan (vpart k p))
      in if pair_vid = -1 then Some k
         else case vpartition_get_exclusive k (word_of_int pair_vid) of
                None \<Rightarrow> None
              | Some pair \<Rightarrow>
                  vunwind scan upd_own upd_pair vid p
                    (upd_partition p (upd_own (\<lambda>m. bmp256_unset m (word_of_int pair_vid)))
                      (upd_partition pair (upd_pair (\<lambda>m. bmp256_unset m vid)) k)))"

text \<open>The two loops of a route. The second loop of the interrupt routes scans the sender map again.\<close>

definition vunwind_route :: "vroute_type \<Rightarrow> u8 \<Rightarrow> vpartition_ptr \<Rightarrow> vtwan \<Rightarrow> vtwan option" where
  "vunwind_route r vid p k =
     (case vunwind (senders_of r) (upd_senders r) (upd_receivers r) vid p k of
        None \<Rightarrow> None
      | Some k \<Rightarrow> vunwind (receivers_of r) (upd_receivers r) (upd_senders r) vid p k)"

definition vunwind_ipi_routes :: "u8 \<Rightarrow> vpartition_ptr \<Rightarrow> vtwan \<Rightarrow> vtwan option" where
  "vunwind_ipi_routes vid p k =
     (case vunwind vp_ipi_senders (upd_senders VIPI_ROUTE) (upd_receivers VIPI_ROUTE) vid p k of
        None \<Rightarrow> None
      | Some k \<Rightarrow> vunwind vp_ipi_senders (upd_receivers VIPI_ROUTE) (upd_senders VIPI_ROUTE) vid p k)"

definition vunset_root :: "u8 \<Rightarrow> vpartition \<Rightarrow> vpartition" where
  "vunset_root root_vid p = p\<lparr>
     vp_ipi_senders := bmp256_unset (vp_ipi_senders p) root_vid,
     vp_tlb_shootdown_senders := bmp256_unset (vp_tlb_shootdown_senders p) root_vid,
     vp_read_vcpu_state_senders := bmp256_unset (vp_read_vcpu_state_senders p) root_vid,
     vp_pv_spin_kick_senders := bmp256_unset (vp_pv_spin_kick_senders p) root_vid\<rparr>"

definition vunwind_all :: "u8 \<Rightarrow> vpartition_ptr \<Rightarrow> vtwan \<Rightarrow> vtwan option" where
  "vunwind_all vid p k =
     Option.bind (vunwind_ipi_routes vid p k) (\<lambda>k.
       Option.bind (vunwind_route VTLB_SHOOTDOWN_ROUTE vid p k) (\<lambda>k.
         Option.bind (vunwind_route VREAD_VCPU_STATE_ROUTE vid p k) (vunwind_route VPV_SPIN_KICK_ROUTE vid p)))"

definition vdo_finalize_teardown :: "u32 \<Rightarrow> u8 \<Rightarrow> vtwan \<Rightarrow> vtwan option" where
  "vdo_finalize_teardown this vid k =
     (let root_vid = tw_root_vid k
      in case vpartition_get_exclusive k vid of
           None \<Rightarrow> None
         | Some p \<Rightarrow>
             let k = upd_partition p (vunset_root root_vid) k;
                 processor_id = vp_term_processor_id (vpart k p);
                 vector = vp_term_vector (vpart k p);
                 nmi = vp_term_nmi (vpart k p)
             in case vunwind_all vid p k of
                  None \<Rightarrow> None
                | Some k \<Rightarrow>
                    let k = vpartition_id_free vid (vpartition_remove vid k)
                    in case vpartition_get k root_vid of
                         None \<Rightarrow> None
                       | Some root \<Rightarrow>
                           Some (vemu_do_inject_external_interrupt this
                                   (vpartition_vcpu (vpart k root) processor_id) vector nmi k))"

section \<open>Definitions: terminating virtual CPUs\<close>

text \<open>The body of the loops of \<^verbatim>\<open>vteardown\<close> and \<^verbatim>\<open>vfailure_recover\<close> for a virtual CPU that is not the current one:
  the amount it adds to \<^verbatim>\<open>terminated_count\<close> and the new state.\<close>

definition vterminate_vcpu :: "vconfig \<Rightarrow> u32 \<Rightarrow> vcpu_ptr \<Rightarrow> vtwan \<Rightarrow> u32 \<times> vtwan" where
  "vterminate_vcpu cfg this v k =
     (let c = vcpu_cpu k v;
          k = upd_vcpu v (\<lambda>x. x\<lparr>v_terminate := True\<rparr>) k
      in case v_state (tw_vcpu k v) of
           VRUNNING \<Rightarrow> (0, snd (vipi_async this c k))
         | VREADY \<Rightarrow>
             (1, vdispatcher_dequeue c v (vipi_ack_dequeue_all cfg v
                   (set_vstate VTERMINATED v (vsched_dequeue cfg v k))))
         | VPAUSED \<Rightarrow> (1, vdispatcher_dequeue c v (set_vstate VTERMINATED v (vsched_dequeue_paused cfg v k)))
         | VPV_SPINNING \<Rightarrow> (1, vdispatcher_dequeue c v (set_vstate VTERMINATED v (vsched_dequeue_paused cfg v k)))
         | _ \<Rightarrow> (0, k))"

definition vterminate_all :: "(vcpu_ptr \<Rightarrow> vtwan \<Rightarrow> u32 \<times> vtwan) \<Rightarrow> vpartition \<Rightarrow> vtwan \<Rightarrow> u32 \<times> vtwan" where
  "vterminate_all body vpartition k =
     fold (\<lambda>i (n, k). let (m, k) = body (vpartition_vcpu vpartition (of_nat i)) k in (n + m, k))
       [0..<unat (vp_vcpu_count vpartition)] (0, k)"

text \<open>\<^verbatim>\<open>atomic32_fetch_and_add\<close> of the counter of terminated virtual CPUs; the sum that is compared.\<close>

definition vadd_terminated :: "vpartition_ptr \<Rightarrow> u32 \<Rightarrow> vtwan \<Rightarrow> u32 \<times> vtwan" where
  "vadd_terminated p n k =
     (vp_num_terminated (vpart k p) + n, upd_partition p (\<lambda>x. x\<lparr>vp_num_terminated := vp_num_terminated x + n\<rparr>) k)"

definition vteardown :: "vconfig \<Rightarrow> u32 \<Rightarrow> u8 \<Rightarrow> vtwan \<Rightarrow> (int \<times> vtwan) option" where
  "vteardown cfg this vid k =
     (case vpartition_get k vid of
        None \<Rightarrow> Some (- EINVAL, k)
      | Some p \<Rightarrow>
          let (terminated_count, k) = vterminate_all (vterminate_vcpu cfg this) (vpart k p) k;
              num_vcpus = vp_vcpu_count (vpart k p);
              (num_terminated, k) = vadd_terminated p terminated_count k
          in if num_terminated = num_vcpus
             then map_option (\<lambda>k. (0, k)) (vdo_finalize_teardown this vid k)
             else Some (0, k))"

definition vdo_transitioning_recover :: "vconfig \<Rightarrow> u32 \<Rightarrow> vcpu_ptr \<Rightarrow> vtwan \<Rightarrow> vtwan option" where
  "vdo_transitioning_recover cfg this v k =
     (let k = vdispatcher_dequeue (vcpu_cpu k v) v k;
          k = vipi_ack_dequeue_all cfg v k;
          k = set_vstate VTERMINATED v k;
          (num_terminated, k) = vadd_terminated (v_vpartition (tw_vcpu k v)) 1 k
      in if num_terminated = v_vpartition_num_cpus (tw_vcpu k v)
         then vdo_finalize_teardown this (ucast (v_vid (tw_vcpu k v))) k
         else Some k)"

section \<open>Emptying a map\<close>

lemma bmp256_members_unset: "bmp256_members (bmp256_unset m a) = bmp256_members m - {uint a}"
  by (auto simp: bmp256_members_def word_uint_eq_iff)

text \<open>\<open>peer\<close> is the map that \<open>upd_pair\<close> changes, \<open>rest\<close> what neither update changes.\<close>

locale unwinding =
  fixes scan peer :: "vpartition \<Rightarrow> bmp256"
    and upd_own upd_pair :: "(bmp256 \<Rightarrow> bmp256) \<Rightarrow> vpartition \<Rightarrow> vpartition"
    and rest :: "vpartition \<Rightarrow> 'r"
  assumes scan_own: "scan (upd_own f p) = f (scan p)"
    and scan_pair: "scan (upd_pair f p) = scan p"
    and peer_own: "peer (upd_own f p) = peer p"
    and peer_pair: "peer (upd_pair f p) = f (peer p)"
    and rest_own: "rest (upd_own f p) = rest p"
    and rest_pair: "rest (upd_pair f p) = rest p"
begin

lemmas unwinding_simps = scan_own scan_pair peer_own peer_pair rest_own rest_pair

definition unwound :: "u8 \<Rightarrow> vpartition_ptr \<Rightarrow> vtwan \<Rightarrow> vtwan \<Rightarrow> bool" where
  "unwound vid p k k' \<longleftrightarrow> k' = k\<lparr>tw_partition := tw_partition k'\<rparr> \<and>
     (\<forall>a. \<not> bmp256_test (scan (vpart k' p)) a) \<and> (\<forall>q. q \<noteq> p \<longrightarrow> scan (vpart k' q) = scan (vpart k q)) \<and>
     (\<forall>q x. bmp256_test (peer (vpart k' q)) x \<longleftrightarrow> bmp256_test (peer (vpart k q)) x \<and>
        \<not> (x = vid \<and> (\<exists>a. bmp256_test (scan (vpart k p)) a \<and> tw_table k a = Some q))) \<and>
     (\<forall>q. rest (vpart k' q) = rest (vpart k q))"

lemma unwoundD:
  assumes "unwound vid p k k'"
  shows "k' = k\<lparr>tw_partition := tw_partition k'\<rparr>" and "\<not> bmp256_test (scan (vpart k' p)) a"
    and "q \<noteq> p \<Longrightarrow> scan (vpart k' q) = scan (vpart k q)"
    and "bmp256_test (peer (vpart k' q)) x \<longleftrightarrow> bmp256_test (peer (vpart k q)) x \<and>
        \<not> (x = vid \<and> (\<exists>a. bmp256_test (scan (vpart k p)) a \<and> tw_table k a = Some q))"
    and "rest (vpart k' q) = rest (vpart k q)"
  using assms unfolding unwound_def by blast+

lemma unwind_step:
  assumes "bmp256_test (scan (vpart k p)) a" and "tw_table k a = Some pair"
    and "unwound vid p (upd_partition p (upd_own (\<lambda>m. bmp256_unset m a))
           (upd_partition pair (upd_pair (\<lambda>m. bmp256_unset m vid)) k)) k'"
  shows "unwound vid p k k'"
  using assms by (auto simp: unwound_def unwinding_simps upd_partition_def split: if_splits)

lemma unwind_returns:
  assumes "\<And>a. bmp256_test (scan (vpart k p)) a \<Longrightarrow> tw_table k a \<noteq> None"
  shows "\<exists>k'. vunwind scan upd_own upd_pair vid p k = Some k' \<and> unwound vid p k k'"
  using assms
proof (induction "card (bmp256_members (scan (vpart k p)))" arbitrary: k rule: less_induct)
  case less
  let ?m = "scan (vpart k p)" and ?i = "bmp256_fls (scan (vpart k p))"
  show ?case
  proof (cases "?i = -1")
    case True
    then have "bmp256_members ?m = {}" by (simp add: b256.highest_neg)
    then have "\<not> bmp256_test ?m a" for a using mem_bmp256_test by blast
    then show ?thesis using True by (subst vunwind.simps) (simp add: unwound_def)
  next
    case False
    have mem: "?i \<in> bmp256_members ?m" using False by (rule b256.highest_mem)
    define a :: u8 where "a = word_of_int ?i"
    have t: "bmp256_test ?m a" using mem by (simp add: a_def mem_bmp256_iff)
    obtain pair where pair: "tw_table k a = Some pair" using less.prems [OF t] by blast
    let ?k = "upd_partition p (upd_own (\<lambda>m. bmp256_unset m a))
        (upd_partition pair (upd_pair (\<lambda>m. bmp256_unset m vid)) k)"
    have sc: "scan (vpart ?k p) = bmp256_unset ?m a" by (simp add: unwinding_simps)
    have "card (bmp256_members (scan (vpart ?k p))) < card (bmp256_members ?m)"
    proof (rule psubset_card_mono)
      show "finite (bmp256_members ?m)" by simp
      show "bmp256_members (scan (vpart ?k p)) \<subset> bmp256_members ?m"
        unfolding sc bmp256_members_unset using t mem_bmp256_test [of a ?m] by blast
    qed
    moreover have "tw_table ?k b \<noteq> None" if "bmp256_test (scan (vpart ?k p)) b" for b
      using that [unfolded sc] less.prems [of b] by simp
    ultimately obtain k' where k': "vunwind scan upd_own upd_pair vid p ?k = Some k'" "unwound vid p ?k k'"
      using less.hyps [of ?k] by blast
    have "vunwind scan upd_own upd_pair vid p k = Some k'"
      using False pair k'(1) by (subst vunwind.simps) (simp add: vpartition_get_exclusive_def a_def)
    then show ?thesis using unwind_step [OF t pair k'(2)] by blast
  qed
qed

end

definition route_rest :: "vroute_type \<Rightarrow> vpartition \<Rightarrow> _" where
  "route_rest r p = (vp_vcpus p, vp_vcpu_count p, vp_term_processor_id p, vp_term_vector p, vp_term_nmi p,
     vp_num_terminated p, vp_vid p, vp_root p, vp_criticality_perms p,
     (\<lambda>q. if q = r then None else Some (receivers_of q p, senders_of q p)))"

lemma upd_routes_keep_term [simp]:
  "vp_term_processor_id (upd_receivers r f p) = vp_term_processor_id p" "vp_term_vector (upd_receivers r f p) = vp_term_vector p"
  "vp_term_nmi (upd_receivers r f p) = vp_term_nmi p" "vp_num_terminated (upd_receivers r f p) = vp_num_terminated p"
  "vp_root (upd_receivers r f p) = vp_root p" "vp_root (upd_senders r f p) = vp_root p"
  "vp_term_processor_id (upd_senders r f p) = vp_term_processor_id p" "vp_term_vector (upd_senders r f p) = vp_term_vector p"
  "vp_term_nmi (upd_senders r f p) = vp_term_nmi p" "vp_num_terminated (upd_senders r f p) = vp_num_terminated p"
  by (cases r; simp)+

lemma upd_routes_rest [simp]:
  "route_rest r (upd_receivers r f p) = route_rest r p" "route_rest r (upd_senders r f p) = route_rest r p"
  by (simp_all add: route_rest_def fun_eq_iff)

interpretation us: unwinding "senders_of r" "receivers_of r" "upd_senders r" "upd_receivers r" "route_rest r" for r
  by unfold_locales simp_all

interpretation ur: unwinding "receivers_of r" "senders_of r" "upd_receivers r" "upd_senders r" "route_rest r" for r
  by unfold_locales simp_all

lemma ipi_senders_of: "vp_ipi_senders = senders_of VIPI_ROUTE"
  by (simp add: fun_eq_iff)

lemma vunwind_empty:
  assumes "\<And>a. \<not> bmp256_test (scan (vpart k p)) a"
  shows "vunwind scan upd_own upd_pair vid p k = Some k"
proof -
  have "bmp256_members (scan (vpart k p)) = {}" using assms by (simp add: bmp256_members_def)
  then have "bmp256_fls (scan (vpart k p)) = -1" by (simp add: b256.highest_neg)
  then show ?thesis by (subst vunwind.simps) simp
qed

section \<open>Taking the routes of a partition back\<close>

text \<open>What the two loops of route \<open>r\<close> leave of the maps of the other partitions; \<open>back\<close> says whether the partition is
  taken out of the sender maps of its receivers.\<close>

definition taken_back :: "bool \<Rightarrow> vroute_type \<Rightarrow> u8 \<Rightarrow> vpartition_ptr \<Rightarrow> vtwan \<Rightarrow> vtwan \<Rightarrow> bool" where
  "taken_back back r vid p k k' \<longleftrightarrow> k' = k\<lparr>tw_partition := tw_partition k'\<rparr> \<and>
     (\<forall>q. route_rest r (vpart k' q) = route_rest r (vpart k q)) \<and>
     (\<forall>b q x. tw_table k b = Some q \<and> b \<noteq> vid \<longrightarrow>
        (bmp256_test (senders_of r (vpart k' q)) x \<longleftrightarrow> bmp256_test (senders_of r (vpart k q)) x \<and>
           \<not> (back \<and> x = vid \<and> bmp256_test (receivers_of r (vpart k p)) b)) \<and>
        (bmp256_test (receivers_of r (vpart k' q)) x \<longleftrightarrow> bmp256_test (receivers_of r (vpart k q)) x \<and>
           \<not> (x = vid \<and> bmp256_test (senders_of r (vpart k p)) b)))"

lemma taken_backD:
  assumes "taken_back back r vid p k k'"
  shows "k' = k\<lparr>tw_partition := tw_partition k'\<rparr>" and "route_rest r (vpart k' q) = route_rest r (vpart k q)"
    and "tw_table k b = Some q \<Longrightarrow> b \<noteq> vid \<Longrightarrow>
      bmp256_test (senders_of r (vpart k' q)) x \<longleftrightarrow> bmp256_test (senders_of r (vpart k q)) x \<and>
           \<not> (back \<and> x = vid \<and> bmp256_test (receivers_of r (vpart k p)) b)"
    and "tw_table k b = Some q \<Longrightarrow> b \<noteq> vid \<Longrightarrow>
      bmp256_test (receivers_of r (vpart k' q)) x \<longleftrightarrow> bmp256_test (receivers_of r (vpart k q)) x \<and>
           \<not> (x = vid \<and> bmp256_test (senders_of r (vpart k p)) b)"
  using assms unfolding taken_back_def by blast+

definition maps_live :: "vroute_type \<Rightarrow> vpartition_ptr \<Rightarrow> vtwan \<Rightarrow> bool" where
  "maps_live r p k \<longleftrightarrow> (\<forall>a. bmp256_test (senders_of r (vpart k p)) a \<or> bmp256_test (receivers_of r (vpart k p)) a
     \<longrightarrow> tw_table k a \<noteq> None)"

lemma table_injD: "table_inj k \<Longrightarrow> tw_table k a = Some p \<Longrightarrow> tw_table k b = Some p \<Longrightarrow> a = b"
  by (auto simp: table_inj_def)

lemma vunwind_first:
  assumes live: "maps_live r p k" and inj: "table_inj k" and vid: "tw_table k vid = Some p"
  shows "\<exists>k'. vunwind (senders_of r) (upd_senders r) (upd_receivers r) vid p k = Some k' \<and>
     taken_back False r vid p k k' \<and> (\<forall>a. \<not> bmp256_test (senders_of r (vpart k' p)) a) \<and>
     (\<forall>a. a \<noteq> vid \<longrightarrow> bmp256_test (receivers_of r (vpart k' p)) a = bmp256_test (receivers_of r (vpart k p)) a) \<and>
     (\<forall>a. bmp256_test (receivers_of r (vpart k' p)) a \<longrightarrow> bmp256_test (receivers_of r (vpart k p)) a)"
proof -
  have "tw_table k a \<noteq> None" if "bmp256_test (senders_of r (vpart k p)) a" for a
    using live that by (auto simp: maps_live_def)
  from us.unwind_returns [OF this] obtain k' where
    k': "vunwind (senders_of r) (upd_senders r) (upd_receivers r) vid p k = Some k'" "us.unwound r vid p k k'" by blast
  note u = us.unwoundD [OF k'(2)]
  have "taken_back False r vid p k k'"
    unfolding taken_back_def
  proof (intro conjI allI impI)
    fix b q x assume b: "tw_table k b = Some q \<and> b \<noteq> vid"
    then have "q \<noteq> p" using table_injD [OF inj _ vid] by blast
    then have s: "senders_of r (vpart k' q) = senders_of r (vpart k q)" using u(3) by simp
    show "bmp256_test (senders_of r (vpart k' q)) x \<longleftrightarrow> bmp256_test (senders_of r (vpart k q)) x \<and>
        \<not> (False \<and> x = vid \<and> bmp256_test (receivers_of r (vpart k p)) b)" by (simp add: s)
    have "(\<exists>a. bmp256_test (senders_of r (vpart k p)) a \<and> tw_table k a = Some q) \<longleftrightarrow>
        bmp256_test (senders_of r (vpart k p)) b"
      using b table_injD [OF inj] by blast
    then show "bmp256_test (receivers_of r (vpart k' q)) x \<longleftrightarrow> bmp256_test (receivers_of r (vpart k q)) x \<and>
        \<not> (x = vid \<and> bmp256_test (senders_of r (vpart k p)) b)" unfolding u(4) by simp
  qed (use u(1,5) in auto)
  moreover have "bmp256_test (receivers_of r (vpart k' p)) a \<longleftrightarrow> bmp256_test (receivers_of r (vpart k p)) a" if "a \<noteq> vid" for a
    unfolding u(4) using that by simp
  moreover have "bmp256_test (receivers_of r (vpart k' p)) a \<Longrightarrow> bmp256_test (receivers_of r (vpart k p)) a" for a
    unfolding u(4) by simp
  ultimately show ?thesis using k'(1) u(2) by blast
qed

lemma vunwind_route_back:
  assumes live: "maps_live r p k" and inj: "table_inj k" and vid: "tw_table k vid = Some p"
  shows "\<exists>k'. vunwind_route r vid p k = Some k' \<and> taken_back True r vid p k k'"
proof -
  obtain k1 where k1: "vunwind (senders_of r) (upd_senders r) (upd_receivers r) vid p k = Some k1"
     "taken_back False r vid p k k1"
     "\<forall>a. a \<noteq> vid \<longrightarrow> bmp256_test (receivers_of r (vpart k1 p)) a = bmp256_test (receivers_of r (vpart k p)) a"
     "\<forall>a. bmp256_test (receivers_of r (vpart k1 p)) a \<longrightarrow> bmp256_test (receivers_of r (vpart k p)) a"
    using vunwind_first [OF assms] by blast
  note t = taken_backD [OF k1(2)]
  have tb: "tw_table k1 = tw_table k" by (subst t(1)) simp
  have "tw_table k1 a \<noteq> None" if "bmp256_test (receivers_of r (vpart k1 p)) a" for a
    using live that k1(4) by (auto simp: maps_live_def tb)
  from ur.unwind_returns [OF this] obtain k2 where
    k2: "vunwind (receivers_of r) (upd_receivers r) (upd_senders r) vid p k1 = Some k2" "ur.unwound r vid p k1 k2" by blast
  note u = ur.unwoundD [OF k2(2)]
  have "taken_back True r vid p k k2"
    unfolding taken_back_def
  proof (intro conjI allI impI)
    have "k2 = k1\<lparr>tw_partition := vpart k2\<rparr>" by (rule u(1))
    also have "\<dots> = k\<lparr>tw_partition := vpart k2\<rparr>" by (subst t(1)) simp
    finally show "k2 = k\<lparr>tw_partition := vpart k2\<rparr>" .
    fix b q x assume b: "tw_table k b = Some q \<and> b \<noteq> vid"
    then have qp: "q \<noteq> p" using table_injD [OF inj _ vid] by blast
    have ex: "(\<exists>a. bmp256_test (receivers_of r (vpart k1 p)) a \<and> tw_table k1 a = Some q) \<longleftrightarrow>
        bmp256_test (receivers_of r (vpart k p)) b"
      using b table_injD [OF inj] k1(3) unfolding tb by blast
    have "bmp256_test (senders_of r (vpart k1 q)) x = bmp256_test (senders_of r (vpart k q)) x"
      using t(3) [of b q x] b by simp
    then show "bmp256_test (senders_of r (vpart k2 q)) x \<longleftrightarrow> bmp256_test (senders_of r (vpart k q)) x \<and>
        \<not> (True \<and> x = vid \<and> bmp256_test (receivers_of r (vpart k p)) b)" unfolding u(4) ex by simp
    have "receivers_of r (vpart k2 q) = receivers_of r (vpart k1 q)" using u(3) qp by simp
    then show "bmp256_test (receivers_of r (vpart k2 q)) x \<longleftrightarrow> bmp256_test (receivers_of r (vpart k q)) x \<and>
        \<not> (x = vid \<and> bmp256_test (senders_of r (vpart k p)) b)" using t(4) [of b q x] b by simp
  qed (use u(5) t(2) in auto)
  then show ?thesis using k1(1) k2(1) by (simp add: vunwind_route_def)
qed

lemma vunwind_ipi_routes_kept:
  assumes "maps_live VIPI_ROUTE p k" and "table_inj k" and "tw_table k vid = Some p"
  shows "\<exists>k'. vunwind_ipi_routes vid p k = Some k' \<and> taken_back False VIPI_ROUTE vid p k k'"
proof -
  obtain k' where k': "vunwind (senders_of VIPI_ROUTE) (upd_senders VIPI_ROUTE) (upd_receivers VIPI_ROUTE) vid p k = Some k'"
     "taken_back False VIPI_ROUTE vid p k k'" "\<forall>a. \<not> bmp256_test (senders_of VIPI_ROUTE (vpart k' p)) a"
    using vunwind_first [OF assms] by blast
  have "vunwind (senders_of VIPI_ROUTE) (upd_receivers VIPI_ROUTE) (upd_senders VIPI_ROUTE) vid p k' = Some k'"
    using k'(3) by (intro vunwind_empty) blast
  then show ?thesis using k'(1,2) by (simp add: vunwind_ipi_routes_def ipi_senders_of)
qed

lemma route_rest_other:
  assumes "route_rest s p' = route_rest s p"
  shows "r \<noteq> s \<Longrightarrow> senders_of r p' = senders_of r p" and "r \<noteq> s \<Longrightarrow> receivers_of r p' = receivers_of r p"
    and "vp_vcpus p' = vp_vcpus p" and "vp_term_processor_id p' = vp_term_processor_id p"
    and "vp_vcpu_count p' = vp_vcpu_count p"
  using assms by (auto simp: route_rest_def fun_eq_iff split: if_splits)

lemma taken_back_other:
  assumes "taken_back back s vid p k k'"
  shows "r \<noteq> s \<Longrightarrow> senders_of r (vpart k' q) = senders_of r (vpart k q)"
    and "r \<noteq> s \<Longrightarrow> receivers_of r (vpart k' q) = receivers_of r (vpart k q)"
    and "vp_vcpus (vpart k' q) = vp_vcpus (vpart k q)" and "vp_vcpu_count (vpart k' q) = vp_vcpu_count (vpart k q)"
    and "tw_table k' = tw_table k" and "r \<noteq> s \<Longrightarrow> maps_live r p k' = maps_live r p k" and "table_inj k' = table_inj k"
proof -
  note rest = route_rest_other [OF taken_backD(2) [OF assms]]
  show tb: "tw_table k' = tw_table k" by (subst taken_backD(1) [OF assms]) simp
  show "r \<noteq> s \<Longrightarrow> senders_of r (vpart k' q) = senders_of r (vpart k q)"
    "r \<noteq> s \<Longrightarrow> receivers_of r (vpart k' q) = receivers_of r (vpart k q)"
    "vp_vcpus (vpart k' q) = vp_vcpus (vpart k q)" "vp_vcpu_count (vpart k' q) = vp_vcpu_count (vpart k q)"
    by (rule rest; assumption)+
  show "maps_live r p k' = maps_live r p k" if "r \<noteq> s"
    using rest(1,2) [OF that] by (simp add: maps_live_def tb)
  show "table_inj k' = table_inj k" by (simp add: table_inj_def tb)
qed

lemma taken_back_trans:
  assumes "taken_back b1 s vid p k k1" and "k2 = k1\<lparr>tw_partition := vpart k2\<rparr>"
  shows "k2 = k\<lparr>tw_partition := vpart k2\<rparr>"
proof -
  have "k2 = k1\<lparr>tw_partition := vpart k2\<rparr>" by (rule assms(2))
  also have "\<dots> = k\<lparr>tw_partition := vpart k2\<rparr>" by (subst taken_backD(1) [OF assms(1)]) simp
  finally show ?thesis .
qed

lemma vunwind_all_spec:
  assumes live: "\<And>r. maps_live r p k" and inj: "table_inj k" and vid: "tw_table k vid = Some p"
  shows "\<exists>k'. vunwind_all vid p k = Some k' \<and> k' = k\<lparr>tw_partition := vpart k'\<rparr> \<and>
     (\<forall>q. vp_vcpus (vpart k' q) = vp_vcpus (vpart k q) \<and> vp_vcpu_count (vpart k' q) = vp_vcpu_count (vpart k q)) \<and>
     (\<forall>r b q x. tw_table k b = Some q \<and> b \<noteq> vid \<longrightarrow>
        (bmp256_test (senders_of r (vpart k' q)) x \<longleftrightarrow> bmp256_test (senders_of r (vpart k q)) x \<and>
           \<not> (r \<noteq> VIPI_ROUTE \<and> x = vid \<and> bmp256_test (receivers_of r (vpart k p)) b)) \<and>
        (bmp256_test (receivers_of r (vpart k' q)) x \<longleftrightarrow> bmp256_test (receivers_of r (vpart k q)) x \<and>
           \<not> (x = vid \<and> bmp256_test (senders_of r (vpart k p)) b)))"
proof -
  obtain k1 where k1: "vunwind_ipi_routes vid p k = Some k1" "taken_back False VIPI_ROUTE vid p k k1"
    using vunwind_ipi_routes_kept [OF live inj vid] by blast
  note t1 = taken_back_other [OF k1(2)]
  obtain k2 where k2: "vunwind_route VTLB_SHOOTDOWN_ROUTE vid p k1 = Some k2" "taken_back True VTLB_SHOOTDOWN_ROUTE vid p k1 k2"
    using vunwind_route_back [of VTLB_SHOOTDOWN_ROUTE p k1 vid] live inj vid by (auto simp: t1)
  note t2 = taken_back_other [OF k2(2)]
  obtain k3 where k3: "vunwind_route VREAD_VCPU_STATE_ROUTE vid p k2 = Some k3" "taken_back True VREAD_VCPU_STATE_ROUTE vid p k2 k3"
    using vunwind_route_back [of VREAD_VCPU_STATE_ROUTE p k2 vid] live inj vid by (auto simp: t1 t2)
  note t3 = taken_back_other [OF k3(2)]
  obtain k4 where k4: "vunwind_route VPV_SPIN_KICK_ROUTE vid p k3 = Some k4" "taken_back True VPV_SPIN_KICK_ROUTE vid p k3 k4"
    using vunwind_route_back [of VPV_SPIN_KICK_ROUTE p k3 vid] live inj vid by (auto simp: t1 t2 t3)
  note t4 = taken_back_other [OF k4(2)]
  have "vunwind_all vid p k = Some k4" by (simp add: vunwind_all_def k1(1) k2(1) k3(1) k4(1))
  moreover have "k4 = k\<lparr>tw_partition := vpart k4\<rparr>"
    by (intro taken_back_trans [OF k1(2)] taken_back_trans [OF k2(2)] taken_back_trans [OF k3(2)])
      (rule taken_backD(1) [OF k4(2)])
  moreover have "(bmp256_test (senders_of r (vpart k4 q)) x \<longleftrightarrow> bmp256_test (senders_of r (vpart k q)) x \<and>
           \<not> (r \<noteq> VIPI_ROUTE \<and> x = vid \<and> bmp256_test (receivers_of r (vpart k p)) b)) \<and>
        (bmp256_test (receivers_of r (vpart k4 q)) x \<longleftrightarrow> bmp256_test (receivers_of r (vpart k q)) x \<and>
           \<not> (x = vid \<and> bmp256_test (senders_of r (vpart k p)) b))"
    if b: "tw_table k b = Some q" "b \<noteq> vid" for r b q x
    using taken_backD(3,4) [OF k1(2), of b q x] taken_backD(3,4) [OF k2(2), of b q x]
      taken_backD(3,4) [OF k3(2), of b q x] taken_backD(3,4) [OF k4(2), of b q x] b
    by (cases r) (simp_all only: t1 t2 t3 t4 vroute_type.distinct simp_thms not_False_eq_True)
  ultimately show ?thesis by (auto simp: t1 t2 t3 t4)
qed

section \<open>The final teardown\<close>

lemma vunset_root_simps [simp]:
  "senders_of r (vunset_root x p) = bmp256_unset (senders_of r p) x" "receivers_of r (vunset_root x p) = receivers_of r p"
  "vp_vcpus (vunset_root x p) = vp_vcpus p" "vp_term_processor_id (vunset_root x p) = vp_term_processor_id p"
  "vp_term_vector (vunset_root x p) = vp_term_vector p" "vp_term_nmi (vunset_root x p) = vp_term_nmi p"
  by (cases r; simp add: vunset_root_def)+

lemma vemu_do_inject_simps [simp]:
  "tw_table (vemu_do_inject_external_interrupt this v x nmi k) = tw_table k"
  "tw_partition (vemu_do_inject_external_interrupt this v x nmi k) = tw_partition k"
  "tw_vids (vemu_do_inject_external_interrupt this v x nmi k) = tw_vids k"
  "tw_root_vid (vemu_do_inject_external_interrupt this v x nmi k) = tw_root_vid k"
  "tw_cpu (vemu_do_inject_external_interrupt this v x nmi k) = tw_cpu k"
  "tw_node (vemu_do_inject_external_interrupt this v x nmi k) = tw_node k"
  by (simp_all add: vemu_do_inject_external_interrupt_def Let_def vemu_do_set_interrupt_pending_def)

lemma vemu_do_inject_pending:
  "vemu_is_interrupt_pending v x nmi (vemu_do_inject_external_interrupt this v x nmi k)"
  by (simp add: vemu_do_inject_external_interrupt_def Let_def vemu_do_set_interrupt_pending_def
      vemu_is_interrupt_pending_def)

lemma teardown_maps_live:
  assumes ok: "routes_ok k" and vid: "tw_table k vid = Some p"
  shows "maps_live r p (upd_partition p (vunset_root (tw_root_vid k)) k)"
  unfolding maps_live_def
proof (intro allI impI)
  fix a
  assume "bmp256_test (senders_of r (vpart (upd_partition p (vunset_root (tw_root_vid k)) k) p)) a \<or>
      bmp256_test (receivers_of r (vpart (upd_partition p (vunset_root (tw_root_vid k)) k) p)) a"
  then consider (s) "a \<noteq> tw_root_vid k" "bmp256_test (senders_of r (vpart k p)) a"
    | (r) "bmp256_test (receivers_of r (vpart k p)) a" by auto
  then show "tw_table (upd_partition p (vunset_root (tw_root_vid k)) k) a \<noteq> None"
  proof cases
    case s
    then have "can_send k r a vid" using vid by (auto simp: can_send_def)
    from routes_okD(3) [OF ok this s(1)] show ?thesis by auto
  next
    case r
    from routes_okD(2) [OF ok vid r] show ?thesis by (auto simp: can_send_def)
  qed
qed

lemma senders_of_unset_root: "bmp256_test (senders_of r (vunset_root root p)) x \<longleftrightarrow> x \<noteq> root \<and> bmp256_test (senders_of r p) x"
  by (cases r) (auto simp: vunset_root_def)

lemma finalize_teardown_core:
  assumes ok: "routes_ok k" and vid: "tw_table k vid = Some p" "vid \<noteq> tw_root_vid k"
    and root: "tw_table k (tw_root_vid k) = Some proot"
  shows "\<exists>k'. vdo_finalize_teardown this vid k = Some k' \<and> tw_table k' = (tw_table k)(vid := None) \<and>
     tw_vids k' = bmp256_set (tw_vids k) vid \<and> tw_root_vid k' = tw_root_vid k \<and>
     (\<forall>r a b. can_send k' r a b \<longleftrightarrow> b \<noteq> vid \<and> can_send k r a b \<and> (a = vid \<longrightarrow> r = VIPI_ROUTE)) \<and>
     (\<forall>r b q x. tw_table k b = Some q \<and> b \<noteq> vid \<longrightarrow>
        (bmp256_test (receivers_of r (vpart k' q)) x \<longleftrightarrow> bmp256_test (receivers_of r (vpart k q)) x \<and> (x = vid \<longrightarrow> b = tw_root_vid k))) \<and>
     (\<forall>q. vp_vcpus (vpart k' q) = vp_vcpus (vpart k q) \<and> vp_vcpu_count (vpart k' q) = vp_vcpu_count (vpart k q)) \<and>
     vemu_is_interrupt_pending (vpartition_vcpu (vpart k proot) (vp_term_processor_id (vpart k p)))
       (vp_term_vector (vpart k p)) (vp_term_nmi (vpart k p)) k'"
proof -
  let ?k0 = "upd_partition p (vunset_root (tw_root_vid k)) k"
  have inj: "table_inj k" "table_inj ?k0" using routes_okD(1) [OF ok] by (simp_all add: table_inj_def)
  have vid0: "tw_table ?k0 vid = Some p" using vid(1) by simp
  have ne: "q \<noteq> p" if "tw_table k b = Some q" "b \<noteq> vid" for b q
    using table_injD [OF inj(1) _ vid(1)] that by blast
  obtain k1 where k1: "vunwind_all vid p ?k0 = Some k1" "k1 = ?k0\<lparr>tw_partition := vpart k1\<rparr>"
     "\<forall>q. vp_vcpus (vpart k1 q) = vp_vcpus (vpart ?k0 q) \<and> vp_vcpu_count (vpart k1 q) = vp_vcpu_count (vpart ?k0 q)"
     "\<And>r b q x. tw_table ?k0 b = Some q \<and> b \<noteq> vid \<longrightarrow>
        (bmp256_test (senders_of r (vpart k1 q)) x \<longleftrightarrow> bmp256_test (senders_of r (vpart ?k0 q)) x \<and>
           \<not> (r \<noteq> VIPI_ROUTE \<and> x = vid \<and> bmp256_test (receivers_of r (vpart ?k0 p)) b))"
     "\<And>r b q x. tw_table ?k0 b = Some q \<and> b \<noteq> vid \<longrightarrow>
        (bmp256_test (receivers_of r (vpart k1 q)) x \<longleftrightarrow> bmp256_test (receivers_of r (vpart ?k0 q)) x \<and>
           \<not> (x = vid \<and> bmp256_test (senders_of r (vpart ?k0 p)) b))"
    using vunwind_all_spec [OF teardown_maps_live [OF ok vid(1)] inj(2), of vid] vid0 by blast
  have f1: "tw_table k1 = tw_table k" "tw_vids k1 = tw_vids k" "tw_root_vid k1 = tw_root_vid k"
    by (subst k1(2); simp)+
  let ?k2 = "vpartition_id_free vid (vpartition_remove vid k1)"
  let ?k' = "vemu_do_inject_external_interrupt this (vpartition_vcpu (vpart ?k2 proot) (vp_term_processor_id (vpart k p)))
      (vp_term_vector (vpart k p)) (vp_term_nmi (vpart k p)) ?k2"
  have f2: "tw_table ?k2 = (tw_table k)(vid := None)" "vpart ?k2 = vpart k1" "tw_vids ?k2 = bmp256_set (tw_vids k) vid"
     "tw_root_vid ?k2 = tw_root_vid k"
    by (simp_all add: vpartition_id_free_def vpartition_remove_def f1)
  have "vp_vcpus (vpart k1 proot) = vp_vcpus (vpart k proot)" using k1(3) ne [OF root] vid(2) by auto
  then have v: "vpartition_vcpu (vpart k1 proot) = vpartition_vcpu (vpart k proot)"
    by (simp add: vpartition_vcpu_def fun_eq_iff)
  have ret: "vdo_finalize_teardown this vid k = Some ?k'"
    using vid root by (simp add: vdo_finalize_teardown_def Let_def vpartition_get_exclusive_def vpartition_get_def k1(1) f2)
  have send: "can_send ?k' r a b \<longleftrightarrow> b \<noteq> vid \<and> can_send k r a b \<and> (a = vid \<longrightarrow> r = VIPI_ROUTE)" for r a b
  proof (cases "tw_table k b")
    case (Some q)
    show ?thesis
    proof (cases "b = vid")
      case True
      then show ?thesis by (simp add: can_send_def f2)
    next
      case False
      have "bmp256_test (receivers_of r (vpart k p)) b" if "can_send k r vid b"
        using routes_okD(3) [OF ok that vid(2)] vid(1) by auto
      moreover have "can_send k r a b \<longleftrightarrow> bmp256_test (senders_of r (vpart k q)) a"
        using Some by (simp add: can_send_def)
      ultimately show ?thesis
        using k1(4) [of b q r a] Some False ne [OF Some False] by (auto simp: can_send_def f2)
    qed
  qed (simp add: can_send_def f2)
  have recv: "bmp256_test (receivers_of r (vpart ?k' q)) x \<longleftrightarrow> bmp256_test (receivers_of r (vpart k q)) x \<and> (x = vid \<longrightarrow> b = tw_root_vid k)"
    if b: "tw_table k b = Some q" "b \<noteq> vid" for r b q x
  proof -
    have "bmp256_test (senders_of r (vpart k p)) b" if "bmp256_test (receivers_of r (vpart k q)) vid"
      using routes_okD(2) [OF ok b(1) that] vid(1) by (simp add: can_send_def)
    then show ?thesis using k1(5) [of b q r x] b ne [OF b] by (auto simp: f2 senders_of_unset_root)
  qed
  have vcpus: "vp_vcpus (vpart ?k' q) = vp_vcpus (vpart k q) \<and> vp_vcpu_count (vpart ?k' q) = vp_vcpu_count (vpart k q)" for q
    using k1(3) by (auto simp: f2 upd_partition_def vunset_root_def)
  show ?thesis
    using ret send recv vcpus vemu_do_inject_pending [where k = ?k2 and this = this] by (auto simp: f2 v)
qed

text \<open>C21: Starting from consistent route tables, the final teardown of a partition other than the root returns, empties its table entry,
  frees its identifier and notifies the virtual CPU of the root that asked for it. In the sender maps of the other partitions it takes back
  exactly the routes from it, interrupt routes excepted, which stay; in their receiver maps exactly the routes to it, those of the root
  excepted. Every other route and the virtual CPUs of all partitions stay as they are.\<close>

theorem vdo_finalize_teardown_spec:
  assumes "routes_ok k" and "tw_table k vid = Some p" and "vid \<noteq> tw_root_vid k"
    and "tw_table k (tw_root_vid k) = Some proot"
  shows "\<exists>k'. vdo_finalize_teardown this vid k = Some k' \<and> tw_table k' = (tw_table k)(vid := None) \<and>
     (\<forall>v. bmp256_test (tw_vids k') v \<longleftrightarrow> v = vid \<or> bmp256_test (tw_vids k) v) \<and>
     (\<forall>r a b. can_send k' r a b \<longleftrightarrow> b \<noteq> vid \<and> can_send k r a b \<and> (a = vid \<longrightarrow> r = VIPI_ROUTE)) \<and>
     (\<forall>r b q x. tw_table k b = Some q \<and> b \<noteq> vid \<longrightarrow>
        (bmp256_test (receivers_of r (vpart k' q)) x \<longleftrightarrow> bmp256_test (receivers_of r (vpart k q)) x \<and> (x = vid \<longrightarrow> b = tw_root_vid k))) \<and>
     (\<forall>q. vp_vcpus (vpart k' q) = vp_vcpus (vpart k q) \<and> vp_vcpu_count (vpart k' q) = vp_vcpu_count (vpart k q)) \<and>
     vemu_is_interrupt_pending (vpartition_vcpu (vpart k proot) (vp_term_processor_id (vpart k p)))
       (vp_term_vector (vpart k p)) (vp_term_nmi (vpart k p)) k'"
  using finalize_teardown_core [OF assms, of this] by auto

text \<open>C22: A partition that may send interrupts to another one is still among the senders of that
  one after its teardown: the permission outlives the partition and the route tables are no
  longer consistent.\<close>

theorem teardown_keeps_ipi_permission:
  assumes "routes_ok k" and "tw_table k vid = Some p" and "vid \<noteq> tw_root_vid k"
    and "tw_table k (tw_root_vid k) = Some proot" and "can_send k VIPI_ROUTE vid b" and "b \<noteq> vid"
  shows "\<exists>k'. vdo_finalize_teardown this vid k = Some k' \<and> tw_table k' vid = None \<and>
     can_send k' VIPI_ROUTE vid b \<and> \<not> routes_ok k'"
proof -
  obtain k' where k': "vdo_finalize_teardown this vid k = Some k'" "tw_table k' vid = None"
     "can_send k' VIPI_ROUTE vid b" "tw_root_vid k' = tw_root_vid k"
    using finalize_teardown_core [OF assms(1-4), of this] assms(5,6) by auto
  have "\<not> routes_ok k'"
  proof
    assume "routes_ok k'"
    from routes_okD(3) [OF this k'(3)] show False using k'(2,4) assms(3) by auto
  qed
  then show ?thesis using k' by blast
qed

section \<open>Frames of a virtual CPU that terminates itself\<close>

text \<open>\<open>same_but_queues\<close>: only the dispatch and acknowledgement queues differ.\<close>

definition same_but_queues :: "vtwan \<Rightarrow> vtwan \<Rightarrow> bool" where
  "same_but_queues k' k \<longleftrightarrow> tw_vcpu k' = tw_vcpu k \<and> tw_table k' = tw_table k \<and> tw_partition k' = tw_partition k \<and>
     tw_root_vid k' = tw_root_vid k \<and> tw_vids k' = tw_vids k \<and> tw_node k' = tw_node k \<and> vsched_at k' = vsched_at k \<and>
     vcurrent_vcpu k' = vcurrent_vcpu k"

lemma same_but_queues_refl [simp]: "same_but_queues k k"
  by (simp add: same_but_queues_def)

lemma same_but_queues_trans: "same_but_queues k2 k1 \<Longrightarrow> same_but_queues k1 k \<Longrightarrow> same_but_queues k2 k"
  by (simp add: same_but_queues_def)

lemma same_but_queues_fold:
  assumes "\<And>i k. same_but_queues (f i k) k"
  shows "same_but_queues (fold f xs k) k"
  by (induction xs arbitrary: k) (auto intro: same_but_queues_trans assms)

lemma vdispatcher_dequeue_same: "same_but_queues (vdispatcher_dequeue c v k) k"
  unfolding vdispatcher_dequeue_def by (rule same_but_queues_fold) (simp add: same_but_queues_def fun_eq_iff)

lemma vipi_ack_dequeue_all_same: "same_but_queues (vipi_ack_dequeue_all cfg v k) k"
  unfolding vipi_ack_dequeue_all_def by (rule same_but_queues_fold) (simp add: same_but_queues_def fun_eq_iff)

lemma leave_queues_same: "same_but_queues (vipi_ack_dequeue_all cfg v (vdispatcher_dequeue c v k)) k"
  by (rule same_but_queues_trans [OF vipi_ack_dequeue_all_same vdispatcher_dequeue_same])

lemma same_but_queuesD:
  assumes "same_but_queues k' k"
  shows "tw_vcpu k' = tw_vcpu k" "tw_partition k' = tw_partition k" "vsched_at k' = vsched_at k" "tw_table k' = tw_table k"
  using assms by (simp_all add: same_but_queues_def)

lemma vterminate_ready:
  assumes mc: "vcf_mcfs cfg" and st: "v_state (tw_vcpu k v) = VREADY" and fr: "frames_ok k"
    and i: "i < vcf_num_frames cfg"
  shows "v_state (tw_vcpu (snd (vterminate_vcpu cfg this v k)) v) = VTERMINATED"
    and "vs_frames (vsched_at (snd (vterminate_vcpu cfg this v k)) c) i \<noteq> Some v"
proof -
  let ?k0 = "upd_vcpu v (\<lambda>x. x\<lparr>v_terminate := True\<rparr>) k"
  let ?k1 = "set_vstate VTERMINATED v (mcfs_dequeue cfg v ?k0)"
  define k' where "k' = vdispatcher_dequeue (vcpu_cpu k v) v (vipi_ack_dequeue_all cfg v ?k1)"
  have e: "vterminate_vcpu cfg this v k = (1, k')"
    using st mc by (simp add: vterminate_vcpu_def Let_def vsched_dequeue_def k'_def vcpu_cpu_def)
  have s: "same_but_queues k' ?k1"
    unfolding k'_def by (rule same_but_queues_trans [OF vdispatcher_dequeue_same vipi_ack_dequeue_all_same])
  show "v_state (tw_vcpu (snd (vterminate_vcpu cfg this v k)) v) = VTERMINATED"
    by (simp add: e same_but_queuesD [OF s])
  have c: "vcpu_cpu ?k0 v = vcpu_cpu k v" by (simp add: vcpu_cpu_def)
  have "vs_frames (vsched_at ?k1 c) i \<noteq> Some v"
    using fr i by (auto simp: mcfs_dequeue_frames c frames_ok_def)
  then show "vs_frames (vsched_at (snd (vterminate_vcpu cfg this v k)) c) i \<noteq> Some v"
    by (simp add: e same_but_queuesD [OF s])
qed

lemma recover_frames:
  assumes "vp_num_terminated (vpart k (v_vpartition (tw_vcpu k v))) + 1 \<noteq> v_vpartition_num_cpus (tw_vcpu k v)"
  shows "\<exists>k'. vdo_transitioning_recover cfg this v k = Some k' \<and> v_state (tw_vcpu k' v) = VTERMINATED \<and>
     vsched_at k' = vsched_at k"
proof -
  note q = same_but_queuesD [OF leave_queues_same [of cfg v "vcpu_cpu k v" k]]
  show ?thesis
    using assms by (simp add: vdo_transitioning_recover_def Let_def vadd_terminated_def q fun_eq_iff)
qed

text \<open>Terminating a ready virtual CPU frees its frames, but one that terminates itself keeps
  them: the frame still points to the terminated virtual CPU.\<close>

theorem frame_outlives_running_vcpu:
  assumes mc: "vcf_mcfs cfg" and fr: "frames_ok k" and i: "i < vcf_num_frames cfg"
    and f: "vs_frames (vsched_at k c) i = Some v"
    and more: "vp_num_terminated (vpart k (v_vpartition (tw_vcpu k v))) + 1 \<noteq> v_vpartition_num_cpus (tw_vcpu k v)"
  shows "(v_state (tw_vcpu k v) = VREADY \<longrightarrow>
       vs_frames (vsched_at (snd (vterminate_vcpu cfg this v k)) c) i \<noteq> Some v) \<and>
     (\<exists>k'. vdo_transitioning_recover cfg this v k = Some k' \<and> v_state (tw_vcpu k' v) = VTERMINATED \<and>
        vs_frames (vsched_at k' c) i = Some v)"
  using vterminate_ready(2) [OF mc _ fr i] recover_frames [OF more, of cfg this] f by auto

section \<open>Applications\<close>

definition routed :: vtwan where
  "routed = snd (vemu_set_route 0 1 0 True two_partitions)"

lemma routed_facts:
  "routes_ok routed" "tw_table routed = tw_table two_partitions" "tw_root_vid routed = 0" "can_send routed VIPI_ROUTE 1 0"
proof -
  obtain ret k' where e: "vemu_set_route 0 1 0 True two_partitions = (ret, k')" by fastforce
  obtain r ps pt where r: "vroute_of 0 = Some r" "(0 :: u8) \<noteq> 1" "tw_table two_partitions 1 = Some ps" "tw_table two_partitions 0 = Some pt"
    and k': "k' = upd_partition pt (upd_senders r (\<lambda>m. if True then bmp256_set m 1 else bmp256_unset m 1))
           (upd_partition ps (upd_receivers r (\<lambda>m. if True then bmp256_set m 0 else bmp256_unset m 0)) two_partitions)"
    using vemu_set_route_cases [OF e] by (auto simp: vroute_of_def)
  have k: "routed = k'" by (simp add: routed_def e)
  have r0: "r = VIPI_ROUTE" using r(1) by (simp add: vroute_of_def)
  show "routes_ok routed" unfolding k
    by (rule set_route_ok [OF two_partitions_routes(1) _ r(3,4) k']) simp
  show "tw_table routed = tw_table two_partitions" "tw_root_vid routed = 0" by (simp_all add: k k')
  show "can_send routed VIPI_ROUTE 1 0"
    unfolding k using set_route_maps(3) [OF routes_okD(1) [OF two_partitions_routes(1)] _ r(3,4) k', of VIPI_ROUTE 1 0] r0
    by simp
qed

theorem vdo_finalize_teardown_spec_witness:
  "\<exists>k'. vdo_finalize_teardown 0 1 routed = Some k' \<and> tw_table k' 1 = None"
  using vdo_finalize_teardown_spec [of routed 1 1 0 0] routed_facts by auto

theorem teardown_keeps_ipi_permission_witness:
  "\<exists>k'. vdo_finalize_teardown 0 1 routed = Some k' \<and> tw_table k' 1 = None \<and> can_send k' VIPI_ROUTE 1 0"
  using teardown_keeps_ipi_permission [of routed 1 1 0 0 0] routed_facts by auto

theorem frame_outlives_running_vcpu_witness:
  "\<exists>k'. vdo_transitioning_recover mcfs_config 1 10 (upd_vcpu 10 (\<lambda>x. x\<lparr>v_vpartition_num_cpus := 2\<rparr>) framed) = Some k' \<and>
     v_state (tw_vcpu k' 10) = VTERMINATED \<and> vs_frames (vsched_at k' 1) 0 = Some 10"
proof -
  let ?k = "upd_vcpu 10 (\<lambda>x. x\<lparr>v_vpartition_num_cpus := 2\<rparr>) framed"
  have "v_vpartition (tw_vcpu framed 10) = 1" "v_vqueue_id (tw_vcpu framed 10) = 1" "v_vqueue_id (tw_vcpu framed 11) = 1"
      "vpart framed = vpart two_partitions"
    by (simp_all add: framed_defs)
  moreover have "frames_ok ?k"
    using calculation by (auto simp: frames_ok_def framed_def vcpu_cpu_def split: if_splits)
  ultimately show ?thesis
    using frame_outlives_running_vcpu [of mcfs_config ?k 0 1 10 1] by (simp add: mcfs_config_def zero_vpartition_def)
qed

end
