(* ===== verification/Twan_Vsched.thy ===== *)
theory Twan_Vsched
  imports Twan_Vrecovery
begin

text \<open>
  The scheduler of the hypervisor: \<open>vsched/vsched.c\<close>, \<open>vsched/vsched_yield.c\<close>, \<open>vsched/vcpu.c\<close> and the
  parts of \<open>vportal/vrecovery.c\<close> that leave the current virtual CPU. \<open>call\<close> runs the schedule callback of a
  virtual CPU, \<open>this\<close> is the CPU, the interrupted context is the \<^verbatim>\<open>vcpu_ctx\<close> of the CPU.
  \<^verbatim>\<open>vemulate_self_ipi(f, arg)\<close> runs \<open>f\<close> as an interrupt on this CPU: the functions with suffix \<open>_ipi\<close> are modelled.
  Shown: rescheduling saves and loads contexts faithfully, never puts a virtual CPU below the criticality
  level in the place of one at or above it, does nothing in a non-preemptible section, and a spin kick
  is never lost.
\<close>

type_synonym vcallback = "func_ptr \<Rightarrow> vcpu_ptr \<Rightarrow> vtwan \<Rightarrow> vtwan"

section \<open>Definitions: putting and getting\<close>

definition vsched_do_put :: "vconfig \<Rightarrow> vcpu_ptr \<Rightarrow> bool \<Rightarrow> interrupt_info \<Rightarrow> vtwan \<Rightarrow> vtwan" where
  "vsched_do_put cfg v put_ctx ctx k =
     (let k = upd_vcpu v (\<lambda>x. x\<lparr>v_state := VREADY, v_rearm := False, v_preempted := True\<rparr>) k;
          k = (if put_ctx then vsched_put_ctx v ctx k else k)
      in if vcf_mcfs cfg then k else vsched_push v k)"

definition vsched_do_put_paused :: "vconfig \<Rightarrow> vcpu_ptr \<Rightarrow> bool \<Rightarrow> bool \<Rightarrow> interrupt_info \<Rightarrow> vtwan \<Rightarrow> vtwan" where
  "vsched_do_put_paused cfg v pv_spin put_ctx ctx k =
     (let k = upd_vcpu v (\<lambda>x. x\<lparr>v_state := (if pv_spin then VPV_SPINNING else VPAUSED), v_rearm := False,
                v_preempted := True\<rparr>) k;
          k = (if put_ctx then vsched_put_ctx v ctx k else k)
      in if vcf_mcfs cfg then k else vsched_push_paused v k)"

definition vsched_put :: "vconfig \<Rightarrow> u32 \<Rightarrow> vcpu_ptr \<Rightarrow> bool \<Rightarrow> interrupt_info \<Rightarrow> vtwan \<Rightarrow> vtwan option" where
  "vsched_put cfg this v put_ctx ctx k =
     (if v_terminate (tw_vcpu k v) then vdo_transitioning_recover cfg this v k
      else Some (vsched_do_put cfg v put_ctx ctx k))"

text \<open>The spin state \<^verbatim>\<open>VSPIN_PAUSED\<close> cannot occur there; the assertion that says so does nothing else.\<close>

definition vsched_put_paused ::
  "vconfig \<Rightarrow> u32 \<Rightarrow> vcpu_ptr \<Rightarrow> bool \<Rightarrow> bool \<Rightarrow> interrupt_info \<Rightarrow> vtwan \<Rightarrow> (bool \<times> vtwan) option" where
  "vsched_put_paused cfg this v pv_spin put_ctx ctx k =
     (if v_terminate (tw_vcpu k v) then map_option (\<lambda>k. (True, k)) (vdo_transitioning_recover cfg this v k)
      else if pv_spin then
        (case v_pv_spin_state (tw_vcpu k v) of
           VSPIN_NONE \<Rightarrow> Some (True, upd_vcpu v (\<lambda>x. x\<lparr>v_pv_spin_state := VSPIN_PAUSED\<rparr>)
                                     (vsched_do_put_paused cfg v True put_ctx ctx k))
         | VSPIN_KICKED \<Rightarrow> Some (False, upd_vcpu v (\<lambda>x. x\<lparr>v_pv_spin_state := VSPIN_NONE\<rparr>) k)
         | VSPIN_PAUSED \<Rightarrow> Some (False, k))
      else Some (True, vsched_do_put_paused cfg v False put_ctx ctx k))"

definition vsched_get :: "vconfig \<Rightarrow> u32 \<Rightarrow> vtwan \<Rightarrow> vcpu_ptr option \<times> vtwan" where
  "vsched_get cfg this k =
     (let (v, k) = vsched_pop cfg this k
      in (v, case v of None \<Rightarrow> k | Some v \<Rightarrow> vsched_enter_ctx this v k))"

definition vsched_get_or_idle :: "vconfig \<Rightarrow> vcallback \<Rightarrow> u32 \<Rightarrow> vtwan \<Rightarrow> (vcpu_ptr \<times> vtwan) option" where
  "vsched_get_or_idle cfg call this k =
     (let (v, k) = vsched_get cfg this k;
          (v, k) = (case v of
             Some v \<Rightarrow> (v, k)
           | None \<Rightarrow>
               let idle = vs_idle_vcpu (vsched_at k this)
               in (idle, upd_vsched this (\<lambda>s. s\<lparr>vs_kick := False\<rparr>) (vsched_enter_ctx this idle k)))
      in map_option (\<lambda>k. (v, k))
           (vsched_start_schedule call this (v_current_time_slice_ticks (tw_vcpu k v)) k))"

definition vthis_vsched_reschedule :: "vconfig \<Rightarrow> vcallback \<Rightarrow> u32 \<Rightarrow> vcpu_ptr \<Rightarrow> vtwan \<Rightarrow> vtwan option" where
  "vthis_vsched_reschedule cfg call this current k =
     (if v_terminate (tw_vcpu k current) then
        Option.bind (vdo_transitioning_recover cfg this current k)
          (\<lambda>k. map_option snd (vsched_get_or_idle cfg call this k))
      else
        let k = (if vsched_is_current_preemptible cfg this current k
                 then snd (vsched_get cfg this (vsched_do_put cfg current True (vc_vcpu_ctx (tw_cpu k this)) k))
                 else upd_vcpu current (\<lambda>x. x\<lparr>v_current_time_slice_ticks := v_time_slice_ticks x\<rparr>) k)
        in case vcurrent_vcpu k this of
             None \<Rightarrow> None
           | Some v \<Rightarrow> vsched_start_schedule call this (v_current_time_slice_ticks (tw_vcpu k v)) k)"

definition vsched_should_request_yield :: "vconfig \<Rightarrow> u32 \<Rightarrow> vcpu_ptr \<Rightarrow> vtwan \<Rightarrow> bool" where
  "vsched_should_request_yield cfg this current k = vsched_is_current_preemptible cfg this current k"

abbreviation set_vyield :: "bool \<Rightarrow> vcpu_ptr \<Rightarrow> vtwan \<Rightarrow> vtwan" where
  "set_vyield b v \<equiv> upd_vcpu v (\<lambda>x. x\<lparr>v_yield_request := b\<rparr>)"

definition vsched_preempt_isr :: "vconfig \<Rightarrow> vcallback \<Rightarrow> u32 \<Rightarrow> vtwan \<Rightarrow> vtwan option" where
  "vsched_preempt_isr cfg call this k =
     (case vcurrent_vcpu k this of
        None \<Rightarrow> Some k
      | Some current \<Rightarrow>
          if v_preemption_count (tw_vcpu k current) > 0 then
            if vsched_should_request_yield cfg this current k then Some (set_vyield True current k)
            else Some (vsched_arm_timer this (v_current_time_slice_ticks (tw_vcpu k current)) k)
          else vthis_vsched_reschedule cfg call this current (set_vyield False current k))"

section \<open>Definitions: yielding, pausing and recovering\<close>

definition vsched_yield_ipi :: "vconfig \<Rightarrow> vcallback \<Rightarrow> u32 \<Rightarrow> vtwan \<Rightarrow> vtwan option" where
  "vsched_yield_ipi cfg call this k =
     (case vcurrent_vcpu k this of
        None \<Rightarrow> None
      | Some current \<Rightarrow> vthis_vsched_reschedule cfg call this current (set_vyield False current k))"

definition vsched_pause_ipi :: "vconfig \<Rightarrow> vcallback \<Rightarrow> u32 \<Rightarrow> bool \<Rightarrow> vtwan \<Rightarrow> vtwan option" where
  "vsched_pause_ipi cfg call this pv_spin k =
     (case vcurrent_vcpu k this of
        None \<Rightarrow> None
      | Some current \<Rightarrow>
          let yield_requested = v_yield_request (tw_vcpu k current);
              k = set_vyield False current k
          in case vsched_put_paused cfg this current pv_spin True (vc_vcpu_ctx (tw_cpu k this)) k of
               None \<Rightarrow> None
             | Some (paused, k) \<Rightarrow>
                 if paused then map_option snd (vsched_get_or_idle cfg call this k)
                 else Some (if yield_requested then set_vyield True current k else k))"

definition vsched_recover_ipi :: "vconfig \<Rightarrow> vcallback \<Rightarrow> u32 \<Rightarrow> vtwan \<Rightarrow> vtwan option" where
  "vsched_recover_ipi cfg call this k = map_option snd (vsched_get_or_idle cfg call this k)"

definition vsched_idle_yield_ipi :: "vconfig \<Rightarrow> vcallback \<Rightarrow> u32 \<Rightarrow> vtwan \<Rightarrow> vtwan option" where
  "vsched_idle_yield_ipi cfg call this k =
     (case vcurrent_vcpu k this of
        None \<Rightarrow> None
      | Some current \<Rightarrow>
          map_option snd (vsched_get_or_idle cfg call this (vsched_put_ctx current (vc_vcpu_ctx (tw_cpu k this)) k)))"

section \<open>Definitions: the preemption count\<close>

definition vcurrent_vcpu_is_preemption_enabled :: "u32 \<Rightarrow> vtwan \<Rightarrow> bool" where
  "vcurrent_vcpu_is_preemption_enabled this k \<longleftrightarrow> v_preemption_count (tw_vcpu k (vcur k this)) = 0"

definition vcurrent_vcpu_disable_preemption :: "u32 \<Rightarrow> vtwan \<Rightarrow> vtwan" where
  "vcurrent_vcpu_disable_preemption this k =
     upd_vcpu (vcur k this) (\<lambda>x. x\<lparr>v_preemption_count := v_preemption_count x + 1\<rparr>) k"

definition vcurrent_vcpu_enable_preemption_no_yield :: "u32 \<Rightarrow> vtwan \<Rightarrow> vtwan" where
  "vcurrent_vcpu_enable_preemption_no_yield this k =
     upd_vcpu (vcur k this) (\<lambda>x. x\<lparr>v_preemption_count := v_preemption_count x - 1\<rparr>) k"

text \<open>\<open>resumed\<close> is what happens until the virtual CPU that yields runs again.\<close>

definition vtry_answer_yield_request ::
  "vconfig \<Rightarrow> vcallback \<Rightarrow> (vtwan \<Rightarrow> vtwan) \<Rightarrow> u32 \<Rightarrow> vtwan \<Rightarrow> (bool \<times> vtwan) option" where
  "vtry_answer_yield_request cfg call resumed this k =
     (let current = vcur k this;
          ret = (v_preemption_count (tw_vcpu k current) = 0 \<and> v_yield_request (tw_vcpu k current))
      in if ret then map_option (\<lambda>k. (True, resumed k)) (vsched_yield_ipi cfg call this k)
         else Some (False, k))"

definition vcurrent_vcpu_enable_preemption ::
  "vconfig \<Rightarrow> vcallback \<Rightarrow> (vtwan \<Rightarrow> vtwan) \<Rightarrow> u32 \<Rightarrow> vtwan \<Rightarrow> vtwan option" where
  "vcurrent_vcpu_enable_preemption cfg call resumed this k =
     map_option snd (vtry_answer_yield_request cfg call resumed this
       (vcurrent_vcpu_enable_preemption_no_yield this k))"

section \<open>Definitions: a virtual CPU that fails\<close>

definition vfinalize_teardown_ipi :: "vconfig \<Rightarrow> vcallback \<Rightarrow> u32 \<Rightarrow> u8 \<Rightarrow> vtwan \<Rightarrow> vtwan option" where
  "vfinalize_teardown_ipi cfg call this vid k =
     Option.bind (vdo_finalize_teardown this vid k) (\<lambda>k. map_option snd (vsched_get_or_idle cfg call this k))"

definition vtransitioning_recover_ipi :: "vconfig \<Rightarrow> vcallback \<Rightarrow> u32 \<Rightarrow> vtwan \<Rightarrow> vtwan option" where
  "vtransitioning_recover_ipi cfg call this k =
     Option.bind (vdo_transitioning_recover cfg this (vcur k this) k)
       (\<lambda>k. map_option snd (vsched_get_or_idle cfg call this k))"

text \<open>A failure of the root partition stops the machine, which is \<open>None\<close>.\<close>

definition vfailure_recover :: "vconfig \<Rightarrow> vcallback \<Rightarrow> u32 \<Rightarrow> vtwan \<Rightarrow> vtwan option" where
  "vfailure_recover cfg call this k =
     (let current = vcur k this
      in if v_root (tw_vcpu k current) then None
         else
           let k = upd_vcpu_cpu this (\<lambda>c. c\<lparr>vc_sched_timer_armed := False\<rparr>) k;
               vid = vcur_vid k this
           in case vpartition_get k vid of
                None \<Rightarrow> None
              | Some p \<Rightarrow>
                  let (terminated_count, k) = vterminate_all (\<lambda>v k.
                        if v \<noteq> current then vterminate_vcpu cfg this v k
                        else let c = vcpu_cpu k v;
                                 k = upd_vcpu v (\<lambda>x. x\<lparr>v_terminate := True, v_state := VTERMINATED\<rparr>) k
                             in (1, vdispatcher_dequeue c v k)) (vpart k p) k;
                      (num_terminated, k) = vadd_terminated p terminated_count k
                  in if num_terminated = v_vpartition_num_cpus (tw_vcpu k current)
                     then vfinalize_teardown_ipi cfg call this vid k
                     else vsched_recover_ipi cfg call this k)"

section \<open>Contexts\<close>

lemma vsched_set_put_ctx:
  "vsched_set_ctx (v_context (tw_vcpu (vsched_put_ctx v ctx k) v)) ctx = ctx"
  by (simp add: vsched_put_ctx_def vsched_set_ctx_def)

lemma vsched_put_ctx_simps [simp]:
  "tw_cpu (vsched_put_ctx v ctx k) = tw_cpu k" "vsched_at (vsched_put_ctx v ctx k) c = vsched_at k c"
  "vcurrent_vcpu (vsched_put_ctx v ctx k) = vcurrent_vcpu k"
  "v_state (tw_vcpu (vsched_put_ctx v ctx k) w) = v_state (tw_vcpu k w)"
  "v_criticality (tw_vcpu (vsched_put_ctx v ctx k) w) = v_criticality (tw_vcpu k w)"
  "w \<noteq> v \<Longrightarrow> tw_vcpu (vsched_put_ctx v ctx k) w = tw_vcpu k w"
  by (auto simp: vsched_put_ctx_def)

lemma vsched_enter_ctx_simps [simp]:
  "vcurrent_vcpu (vsched_enter_ctx this v k) c = (if c = this then Some v else vcurrent_vcpu k c)"
  "vsched_at (vsched_enter_ctx this v k) c = vsched_at k c"
  "tw_vcpu (vsched_enter_ctx this v k) = (tw_vcpu k)(v := (tw_vcpu k v)\<lparr>v_state := VTRANSITIONING,
     v_current_time_slice_ticks := v_time_slice_ticks (tw_vcpu k v)\<rparr>)"
  "vc_vcpu_ctx (tw_cpu (vsched_enter_ctx this v k) this) =
     vsched_set_ctx (v_context (tw_vcpu k v)) (vc_vcpu_ctx (tw_cpu k this))"
  by (auto simp: vsched_enter_ctx_def Let_def vcurrent_vcpu_def vsched_at_def)

lemma vsched_arm_timer_simps [simp]:
  "tw_vcpu (vsched_arm_timer this t k) = tw_vcpu k" "vsched_at (vsched_arm_timer this t k) c = vsched_at k c"
  "vcurrent_vcpu (vsched_arm_timer this t k) = vcurrent_vcpu k"
  "vc_vcpu_ctx (tw_cpu (vsched_arm_timer this t k) c) = vc_vcpu_ctx (tw_cpu k c)"
  "tw_partition (vsched_arm_timer this t k) = tw_partition k" "tw_table (vsched_arm_timer this t k) = tw_table k"
  by (auto simp: vsched_arm_timer_def vsched_timer_reload_def vsched_at_def vcurrent_vcpu_def)

section \<open>Rescheduling\<close>

text \<open>A schedule callback does not change the virtual CPUs and the schedulers.\<close>

definition cb_quiet :: "vcallback \<Rightarrow> bool" where
  "cb_quiet call \<longleftrightarrow> (\<forall>f v k. tw_vcpu (call f v k) = tw_vcpu k \<and> tw_cpu (call f v k) = tw_cpu k)"

lemma vsched_start_schedule_quiet:
  assumes "cb_quiet call" and "vcurrent_vcpu k this = Some v"
  shows "\<exists>k'. vsched_start_schedule call this t k = Some k' \<and> tw_vcpu k' = tw_vcpu k \<and> vsched_at k' = vsched_at k \<and>
     vcurrent_vcpu k' = vcurrent_vcpu k \<and> (\<forall>c. vc_vcpu_ctx (tw_cpu k' c) = vc_vcpu_ctx (tw_cpu k c)) \<and>
     vc_sched_timer_armed (tw_cpu k' this) = (t \<noteq> 0) \<and> (t \<noteq> 0 \<longrightarrow> vc_lapic_oneshot (tw_cpu k' this) = t)"
proof -
  define k1 where "k1 = (case v_schedule_callback_func (tw_vcpu k v) of None \<Rightarrow> k | Some f \<Rightarrow> call f v k)"
  have q: "tw_vcpu k1 = tw_vcpu k" "tw_cpu k1 = tw_cpu k"
    using assms(1) by (auto simp: k1_def cb_quiet_def split: option.split)
  then have "vsched_at k1 = vsched_at k" "vcurrent_vcpu k1 = vcurrent_vcpu k"
    by (simp_all add: vsched_at_def [abs_def] vcurrent_vcpu_def [abs_def])
  then show ?thesis
    using assms(2) q
    by (auto simp: vsched_start_schedule_def k1_def [symmetric] fun_eq_iff vsched_arm_timer_def vsched_timer_reload_def
        vsched_at_def vcurrent_vcpu_def)
qed

text \<open>What a switch from \<open>current\<close> to \<open>v\<close> does.\<close>

definition vswitched :: "vtwan \<Rightarrow> u32 \<Rightarrow> vcpu_ptr \<Rightarrow> vcpu_ptr \<Rightarrow> vtwan \<Rightarrow> bool" where
  "vswitched k this current v k' \<longleftrightarrow> vcurrent_vcpu k' = (vcurrent_vcpu k)(this := Some v) \<and>
     v_state (tw_vcpu k' v) = VTRANSITIONING \<and>
     (v \<noteq> current \<longrightarrow> v_state (tw_vcpu k v) = VREADY \<and> v_state (tw_vcpu k' current) = VREADY \<and>
        vsched_set_ctx (v_context (tw_vcpu k' current)) (vc_vcpu_ctx (tw_cpu k this)) = vc_vcpu_ctx (tw_cpu k this) \<and>
        vc_vcpu_ctx (tw_cpu k' this) = vsched_set_ctx (v_context (tw_vcpu k v)) (vc_vcpu_ctx (tw_cpu k this))) \<and>
     (v = current \<longrightarrow> vc_vcpu_ctx (tw_cpu k' this) = vc_vcpu_ctx (tw_cpu k this)) \<and>
     (\<forall>w. w \<noteq> current \<and> w \<noteq> v \<longrightarrow> tw_vcpu k' w = tw_vcpu k w)"

lemma mcfs_preemptible_frame:
  assumes "mcfs_is_current_preemptible cfg this current k"
  shows "\<exists>j < vcf_num_frames cfg. ready_frame k this j \<and>
     (v_criticality (tw_vcpu k current) \<ge> vs_criticality_level (vsched_at k this) \<longrightarrow> frame_admitted k this j)"
proof -
  obtain i where i: "i < vcf_num_frames cfg - 1"
    and f: "frame_ready (tw_vcpu k) (vs_frames (vsched_at k this) ((vs_clock (vsched_at k this) + i) mod vcf_num_frames cfg))"
      "v_criticality (tw_vcpu k current) < vs_criticality_level (vsched_at k this) \<or>
       v_criticality (tw_vcpu k (the (vs_frames (vsched_at k this) ((vs_clock (vsched_at k this) + i) mod vcf_num_frames cfg))))
         \<ge> vs_criticality_level (vsched_at k this)"
    using assms by (auto simp: mcfs_is_current_preemptible_def Let_def list_ex_iff)
  have "(vs_clock (vsched_at k this) + i) mod vcf_num_frames cfg < vcf_num_frames cfg" using i by simp
  then show ?thesis
    using f by (intro exI [of _ "(vs_clock (vsched_at k this) + i) mod vcf_num_frames cfg"])
      (auto simp: ready_frame_def frame_admitted_def not_less)
qed

lemma vsched_do_put_mcfs:
  assumes "vcf_mcfs cfg"
  shows "vsched_at (vsched_do_put cfg v True ctx k) = vsched_at k" "tw_cpu (vsched_do_put cfg v True ctx k) = tw_cpu k"
    "vcurrent_vcpu (vsched_do_put cfg v True ctx k) = vcurrent_vcpu k"
    "v_state (tw_vcpu (vsched_do_put cfg v True ctx k) w) = (if w = v then VREADY else v_state (tw_vcpu k w))"
    "v_criticality (tw_vcpu (vsched_do_put cfg v True ctx k) w) = v_criticality (tw_vcpu k w)"
    "w \<noteq> v \<Longrightarrow> tw_vcpu (vsched_do_put cfg v True ctx k) w = tw_vcpu k w"
    "vsched_set_ctx (v_context (tw_vcpu (vsched_do_put cfg v True ctx k) v)) ctx = ctx"
  using assms by (auto simp: vsched_do_put_def Let_def fun_eq_iff vsched_set_put_ctx)

lemma reschedule_pick:
  assumes mc: "vcf_mcfs cfg" and st: "v_state (tw_vcpu k current) \<noteq> VREADY"
    and pr: "vsched_is_current_preemptible cfg this current k"
  defines "k1 \<equiv> vsched_do_put cfg current True (vc_vcpu_ctx (tw_cpu k this)) k"
  shows "\<exists>v i. vsched_pop cfg this k1 = (Some v, upd_vsched this (\<lambda>s. s\<lparr>vs_clock := i\<rparr>) k1) \<and> v_state (tw_vcpu k1 v) = VREADY \<and>
     (v_criticality (tw_vcpu k current) \<ge> vs_criticality_level (vsched_at k this) \<longrightarrow>
        v_criticality (tw_vcpu k v) \<ge> vs_criticality_level (vsched_at k this))"
proof -
  note p = vsched_do_put_mcfs [OF mc, where v = current and ctx = "vc_vcpu_ctx (tw_cpu k this)" and k = k, folded k1_def]
  obtain j where j: "j < vcf_num_frames cfg" "ready_frame k this j"
     "v_criticality (tw_vcpu k current) \<ge> vs_criticality_level (vsched_at k this) \<Longrightarrow> frame_admitted k this j"
    using mcfs_preemptible_frame [of cfg this current k] pr mc by (auto simp: vsched_is_current_preemptible_def)
  have r: "ready_frame k1 this i" if "ready_frame k this i" for i
    using that st by (auto simp: ready_frame_def frame_ready_def p split: option.splits)
  have a: "frame_admitted k1 this i" if "frame_admitted k this i" for i
    using that r [of i] by (auto simp: frame_admitted_def ready_frame_def p)
  obtain i v where v: "vs_frames (vsched_at k1 this) i = Some v" "v_state (tw_vcpu k1 v) = VREADY"
     "nearest cfg k1 this (if \<exists>j < vcf_num_frames cfg. frame_admitted k1 this j then frame_admitted k1 this else ready_frame k1 this) i"
     "mcfs_pop cfg this k1 = (Some v, upd_vsched this (\<lambda>s. s\<lparr>vs_clock := i + 1\<rparr>) k1)"
    using mcfs_pop_cases [where cfg = cfg and k = k1 and c = this] r [OF j(2)] j(1) by blast
  have "v_criticality (tw_vcpu k v) \<ge> vs_criticality_level (vsched_at k this)"
    if "v_criticality (tw_vcpu k current) \<ge> vs_criticality_level (vsched_at k this)"
  proof -
    have "\<exists>j < vcf_num_frames cfg. frame_admitted k1 this j" using a [OF j(3) [OF that]] j(1) by blast
    then have "frame_admitted k1 this i" using v(3) by (simp add: nearest_def)
    then show ?thesis using v(1) by (simp add: frame_admitted_def p)
  qed
  then show ?thesis using v mc by (intro exI [of _ v] exI [of _ "i + 1"]) (simp add: vsched_pop_def)
qed

lemma vsched_reschedule_core:
  assumes cb: "cb_quiet call" and mc: "vcf_mcfs cfg" and cur: "vcurrent_vcpu k this = Some current"
    and st: "v_state (tw_vcpu k current) \<noteq> VREADY" and nt: "\<not> v_terminate (tw_vcpu k current)"
  shows "\<exists>k' v. vthis_vsched_reschedule cfg call this current k = Some k' \<and>
     (if vsched_is_current_preemptible cfg this current k then vswitched k this current v k'
      else v = current \<and> vcurrent_vcpu k' = vcurrent_vcpu k \<and>
        vc_vcpu_ctx (tw_cpu k' this) = vc_vcpu_ctx (tw_cpu k this)) \<and>
     vcurrent_vcpu k' this = Some v \<and>
     (v_criticality (tw_vcpu k current) \<ge> vs_criticality_level (vsched_at k this) \<longrightarrow>
        v_criticality (tw_vcpu k v) \<ge> vs_criticality_level (vsched_at k this)) \<and>
     vc_sched_timer_armed (tw_cpu k' this) = (v_time_slice_ticks (tw_vcpu k' v) \<noteq> 0) \<and>
     (v_time_slice_ticks (tw_vcpu k' v) \<noteq> 0 \<longrightarrow> vc_lapic_oneshot (tw_cpu k' this) = v_time_slice_ticks (tw_vcpu k' v))"
proof (cases "vsched_is_current_preemptible cfg this current k")
  case False
  let ?k = "upd_vcpu current (\<lambda>x. x\<lparr>v_current_time_slice_ticks := v_time_slice_ticks x\<rparr>) k"
  have "vcurrent_vcpu ?k this = Some current" using cur by simp
  from vsched_start_schedule_quiet [OF cb this, of "v_current_time_slice_ticks (tw_vcpu ?k current)"]
  show ?thesis using False nt cur by (auto simp: vthis_vsched_reschedule_def Let_def)
next
  case True
  define k1 where "k1 = vsched_do_put cfg current True (vc_vcpu_ctx (tw_cpu k this)) k"
  note p = vsched_do_put_mcfs [OF mc, where v = current and ctx = "vc_vcpu_ctx (tw_cpu k this)" and k = k, folded k1_def]
  obtain v i where v: "vsched_pop cfg this k1 = (Some v, upd_vsched this (\<lambda>s. s\<lparr>vs_clock := i\<rparr>) k1)"
     "v_state (tw_vcpu k1 v) = VREADY"
     "v_criticality (tw_vcpu k current) \<ge> vs_criticality_level (vsched_at k this) \<longrightarrow>
        v_criticality (tw_vcpu k v) \<ge> vs_criticality_level (vsched_at k this)"
    using reschedule_pick [OF mc st True] unfolding k1_def by blast
  define k2 where "k2 = vsched_enter_ctx this v (upd_vsched this (\<lambda>s. s\<lparr>vs_clock := i\<rparr>) k1)"
  have get: "snd (vsched_get cfg this k1) = k2" by (simp add: vsched_get_def v(1) k2_def)
  have c2: "vcurrent_vcpu k2 this = Some v" by (simp add: k2_def)
  obtain k' where k': "vsched_start_schedule call this (v_current_time_slice_ticks (tw_vcpu k2 v)) k2 = Some k'"
     "tw_vcpu k' = tw_vcpu k2" "vcurrent_vcpu k' = vcurrent_vcpu k2" "vc_vcpu_ctx (tw_cpu k' this) = vc_vcpu_ctx (tw_cpu k2 this)"
     "vc_sched_timer_armed (tw_cpu k' this) = (v_current_time_slice_ticks (tw_vcpu k2 v) \<noteq> 0)"
     "v_current_time_slice_ticks (tw_vcpu k2 v) \<noteq> 0 \<longrightarrow> vc_lapic_oneshot (tw_cpu k' this) = v_current_time_slice_ticks (tw_vcpu k2 v)"
    using vsched_start_schedule_quiet [OF cb c2] by blast
  have ret: "vthis_vsched_reschedule cfg call this current k = Some k'"
    using True nt k'(1) c2 by (simp add: vthis_vsched_reschedule_def Let_def k1_def [symmetric] get)
  have x2: "vc_vcpu_ctx (tw_cpu k2 this) = vsched_set_ctx (v_context (tw_vcpu k1 v)) (vc_vcpu_ctx (tw_cpu k this))"
    by (simp add: k2_def) (simp add: upd_vsched_def p)
  have "vswitched k this current v k'"
    unfolding vswitched_def
  proof (intro conjI impI allI)
    show "vcurrent_vcpu k' = (vcurrent_vcpu k)(this := Some v)"
      by (auto simp: k'(3) k2_def fun_eq_iff p)
    show "v_state (tw_vcpu k' v) = VTRANSITIONING" by (simp add: k'(2) k2_def)
    show "vc_vcpu_ctx (tw_cpu k' this) = vc_vcpu_ctx (tw_cpu k this)" if "v = current"
      using that by (simp add: k'(4) x2 p)
    show "tw_vcpu k' w = tw_vcpu k w" if "w \<noteq> current \<and> w \<noteq> v" for w
      using that by (simp add: k'(2) k2_def p)
    assume ne: "v \<noteq> current"
    show "v_state (tw_vcpu k v) = VREADY" using v(2) ne by (simp add: p)
    show "v_state (tw_vcpu k' current) = VREADY" using ne by (simp add: k'(2) k2_def p)
    show "vsched_set_ctx (v_context (tw_vcpu k' current)) (vc_vcpu_ctx (tw_cpu k this)) = vc_vcpu_ctx (tw_cpu k this)"
      using ne by (simp add: k'(2) k2_def p)
    show "vc_vcpu_ctx (tw_cpu k' this) = vsched_set_ctx (v_context (tw_vcpu k v)) (vc_vcpu_ctx (tw_cpu k this))"
      using ne by (simp add: k'(4) x2 p)
  qed
  then show ?thesis using ret True v(3) k'(2,3,5,6) c2 by (auto simp: k2_def)
qed

text \<open>C19: With the frame scheduler and callbacks that leave the scheduler alone, rescheduling on a CPU whose virtual CPU is not
  terminating returns a running virtual CPU. A switch saves the context of the old one and loads that of the new one exactly; a virtual
  CPU at or above the criticality level is never replaced by one below it; and the timer is armed with the time slice of the virtual CPU
  that runs, or off if that is zero.\<close>

theorem vsched_reschedule_spec:
  assumes cb: "cb_quiet call" and mc: "vcf_mcfs cfg" and cur: "vcurrent_vcpu k this = Some current"
    and st: "v_state (tw_vcpu k current) \<noteq> VREADY" and nt: "\<not> v_terminate (tw_vcpu k current)"
  shows "\<exists>k' v. vthis_vsched_reschedule cfg call this current k = Some k' \<and>
     (if vsched_is_current_preemptible cfg this current k then vswitched k this current v k'
      else v = current \<and> vcurrent_vcpu k' = vcurrent_vcpu k \<and>
        vc_vcpu_ctx (tw_cpu k' this) = vc_vcpu_ctx (tw_cpu k this)) \<and>
     vcurrent_vcpu k' this = Some v \<and>
     (v_criticality (tw_vcpu k current) \<ge> vs_criticality_level (vsched_at k this) \<longrightarrow>
        v_criticality (tw_vcpu k v) \<ge> vs_criticality_level (vsched_at k this)) \<and>
     vc_sched_timer_armed (tw_cpu k' this) = (v_time_slice_ticks (tw_vcpu k' v) \<noteq> 0) \<and>
     (v_time_slice_ticks (tw_vcpu k' v) \<noteq> 0 \<longrightarrow> vc_lapic_oneshot (tw_cpu k' this) = v_time_slice_ticks (tw_vcpu k' v))"
  using vsched_reschedule_core [OF assms] .

section \<open>Non-preemptible sections\<close>

theorem vsched_preempt_deferred:
  assumes "vcurrent_vcpu k this = Some current" and "v_preemption_count (tw_vcpu k current) > 0"
  shows "\<exists>k'. vsched_preempt_isr cfg call this k = Some k' \<and> vcurrent_vcpu k' = vcurrent_vcpu k \<and>
     vsched_at k' = vsched_at k \<and> v_state (tw_vcpu k' current) = v_state (tw_vcpu k current) \<and>
     (vsched_is_current_preemptible cfg this current k \<longrightarrow> v_yield_request (tw_vcpu k' current)) \<and>
     (\<forall>w. w \<noteq> current \<longrightarrow> tw_vcpu k' w = tw_vcpu k w)"
  using assms by (auto simp: vsched_preempt_isr_def vsched_should_request_yield_def fun_eq_iff)

section \<open>Spin kicks\<close>

lemma paused_queue_simps [simp]:
  "tw_vcpu (vsched_push_paused v k) = tw_vcpu k" "tw_vcpu (mcqs_dequeue_paused v k) = tw_vcpu k" "tw_vcpu (vsched_push v k) = tw_vcpu k"
  "c = v_vqueue_id (tw_vcpu k v) \<Longrightarrow> vs_kick (vsched_at (vsched_push v k) c)"
proof -
  have "tw_vcpu (fold (\<lambda>i. on_vqueue c i (h i)) xs k) = tw_vcpu k" for c h xs by (induction xs arbitrary: k) simp_all
  then show "tw_vcpu (vsched_push v k) = tw_vcpu k" by (simp add: vsched_push_def Let_def upd_vsched_def upd_vcpu_cpu_def)
qed (simp_all add: vsched_push_paused_def mcqs_dequeue_paused_def on_paused_queue_def vsched_push_def upd_vsched_def upd_vcpu_cpu_def vsched_at_def
    vcpu_cpu_def Let_def split_beta)

text \<open>C20: A kick is not lost, with either scheduler, for a virtual CPU that is neither terminating nor has a kick or a pause outstanding: if it
  comes before the virtual CPU pauses, the virtual CPU does not pause and the kick is used up; if it comes afterwards, it makes the paused
  virtual CPU ready again, and its scheduler is told to look.\<close>

theorem pv_spin_no_lost_kick:
  assumes nt: "\<not> v_terminate (tw_vcpu k v)" and sp: "v_pv_spin_state (tw_vcpu k v) = VSPIN_NONE"
  shows
    "(\<exists>k'. vsched_put_paused cfg this v True True ctx (vemu_do_pv_spin_kick cfg v k) = Some (False, k') \<and>
       v_state (tw_vcpu k' v) = v_state (tw_vcpu k v) \<and> v_pv_spin_state (tw_vcpu k' v) = VSPIN_NONE) \<and>
     (\<exists>k'. vsched_put_paused cfg this v True True ctx k = Some (True, k') \<and> v_state (tw_vcpu k' v) = VPV_SPINNING \<and>
       v_state (tw_vcpu (vemu_do_pv_spin_kick cfg v k') v) = VREADY \<and>
       v_pv_spin_state (tw_vcpu (vemu_do_pv_spin_kick cfg v k') v) = VSPIN_NONE \<and>
       vs_kick (vsched_at (vemu_do_pv_spin_kick cfg v k') (vcpu_cpu k' v)))"
  using assms
  by (auto simp: vsched_put_paused_def vemu_do_pv_spin_kick_def vsched_do_put_paused_def Let_def vsched_unpause_def
      mcfs_unpause_def mcqs_unpause_def vcpu_cpu_def)

section \<open>Applications\<close>

text \<open>The virtual CPU 10 of partition 1 runs on CPU 1 and has a frame there, as has the virtual CPU 11; the clock
  is past the frame of the first.\<close>

definition vrunning_10 :: vtwan where
  "vrunning_10 = upd_vcpu_cpu 1 (\<lambda>c. c\<lparr>vc_current_vcpu := Some 10\<rparr>)
     (upd_vcpu 10 (\<lambda>x. x\<lparr>v_state := VTRANSITIONING, v_preemption_count := 1\<rparr>)
       (upd_vsched 1 (\<lambda>s. s\<lparr>vs_clock := 1\<rparr>) framed))"

lemma vrunning_10_facts:
  "vcurrent_vcpu vrunning_10 1 = Some 10" "v_state (tw_vcpu vrunning_10 10) = VTRANSITIONING"
  "v_preemption_count (tw_vcpu vrunning_10 10) = 1" "\<not> v_terminate (tw_vcpu vrunning_10 10)"
  "v_pv_spin_state (tw_vcpu vrunning_10 10) = VSPIN_NONE"
  by (simp_all add: vrunning_10_def vcurrent_vcpu_def framed_defs)

lemma vrunning_10_preemptible: "vsched_is_current_preemptible mcfs_config 1 10 vrunning_10"
  by (simp add: vsched_is_current_preemptible_def mcfs_config_def mcfs_is_current_preemptible_def vrunning_10_def
      framed_def two_partitions_def zero_vcpu_def zero_vcpu_cpu_def upd_vsched_def vsched_at_def frame_ready_def)

theorem vsched_reschedule_spec_witness:
  "\<exists>k' v. vthis_vsched_reschedule mcfs_config (\<lambda>_ _ k. k) 1 10 vrunning_10 = Some k' \<and>
     vswitched vrunning_10 1 10 v k'"
  using vsched_reschedule_spec [of "\<lambda>_ _ k. k" mcfs_config vrunning_10 1 10]
  by (auto simp: cb_quiet_def vrunning_10_facts mcfs_config_def [THEN arg_cong, of vcf_mcfs] vrunning_10_preemptible)

theorem vsched_preempt_deferred_witness:
  "\<exists>k'. vsched_preempt_isr mcfs_config (\<lambda>_ _ k. k) 1 vrunning_10 = Some k' \<and>
     vcurrent_vcpu k' 1 = Some 10 \<and> v_yield_request (tw_vcpu k' 10)"
  using vsched_preempt_deferred [of vrunning_10 1 10 mcfs_config "\<lambda>_ _ k. k"]
  by (auto simp: vrunning_10_facts vrunning_10_preemptible)

theorem pv_spin_no_lost_kick_witness:
  "\<exists>k'. vsched_put_paused mcfs_config 1 10 True True zero_interrupt_info
     (vemu_do_pv_spin_kick mcfs_config 10 vrunning_10) = Some (False, k')"
  using pv_spin_no_lost_kick [of vrunning_10 10 mcfs_config 1 zero_interrupt_info] by (auto simp: vrunning_10_facts)

end
