(* ===== verification/Twan_Vtrap.thy ===== *)
theory Twan_Vtrap
  imports Twan_Vpartition
begin

text \<open>
  The access-control bitmaps of a virtual CPU: the inline functions of \<open>vemulate/vemulate_utils.h\<close>, their
  counterparts in \<open>vemulate/vemulate_utils.c\<close> and the initial traps of \<open>vemulate/vtrap.c\<close>. The processor lets
  a guest access an I/O port or a model-specific register directly when its bit is clear. The three
  bitmaps \<^verbatim>\<open>io_bitmap_a\<close>, \<^verbatim>\<open>io_bitmap_b\<close> and \<^verbatim>\<open>msr_bitmap\<close> are adjacent pages of a packed struct, so
  \<open>va_bitmaps\<close> is one memory and an index past the end of a bitmap reaches the next one. Shown: trapping and
  untrapping are exact inverses that touch nothing else in the ranges the code handles; the initial traps are
  exactly those of the listed registers in these ranges; the registers \<open>0x200\<close> to \<open>0x1fff\<close> are never trapped,
  and a port from \<open>0x8000\<close> on is recorded in the bitmap of the registers.
\<close>

section \<open>Definitions: bits in the bitmaps\<close>

definition io_bitmap_a :: nat where "io_bitmap_a = 0"
definition io_bitmap_b :: nat where "io_bitmap_b = 4096"
definition msr_bitmap :: nat where "msr_bitmap = 8192"

text \<open>\<^verbatim>\<open>a[i] |= 1 << n\<close>, \<^verbatim>\<open>a[i] &= ~(1 << n)\<close> and \<^verbatim>\<open>((a[i] >> n) & 1) != 0\<close> on bytes.\<close>

definition byte_or :: "nat \<Rightarrow> nat \<Rightarrow> (nat \<Rightarrow> u8) \<Rightarrow> nat \<Rightarrow> u8" where
  "byte_or i n m = m(i := or (m i) (push_bit n 1))"

definition byte_and_not :: "nat \<Rightarrow> nat \<Rightarrow> (nat \<Rightarrow> u8) \<Rightarrow> nat \<Rightarrow> u8" where
  "byte_and_not i n m = m(i := and (m i) (not (push_bit n 1)))"

definition byte_bit :: "nat \<Rightarrow> nat \<Rightarrow> (nat \<Rightarrow> u8) \<Rightarrow> bool" where
  "byte_bit i n m \<longleftrightarrow> and (drop_bit n (m i)) 1 \<noteq> 0"

abbreviation vbitmaps :: "vtwan \<Rightarrow> vcpu_ptr \<Rightarrow> nat \<Rightarrow> u8" where
  "vbitmaps k v \<equiv> va_bitmaps (v_arch (tw_vcpu k v))"

abbreviation upd_vbitmaps :: "vcpu_ptr \<Rightarrow> ((nat \<Rightarrow> u8) \<Rightarrow> nat \<Rightarrow> u8) \<Rightarrow> vtwan \<Rightarrow> vtwan" where
  "upd_vbitmaps v f \<equiv> upd_vcpu v (\<lambda>x. x\<lparr>v_arch := (v_arch x)\<lparr>va_bitmaps := f (va_bitmaps (v_arch x))\<rparr>\<rparr>)"

section \<open>Definitions: I/O ports\<close>

definition vtrap_io :: "vcpu_ptr \<Rightarrow> u16 \<Rightarrow> vtwan \<Rightarrow> vtwan" where
  "vtrap_io v port =
     (if port < 0x8000 then upd_vbitmaps v (byte_or (io_bitmap_a + unat port div 8) (unat port mod 8))
      else upd_vbitmaps v (byte_or (io_bitmap_b + unat port div 8) (unat port mod 8)))"

definition vuntrap_io :: "vcpu_ptr \<Rightarrow> u16 \<Rightarrow> vtwan \<Rightarrow> vtwan" where
  "vuntrap_io v port =
     (if port < 0x8000 then upd_vbitmaps v (byte_and_not (io_bitmap_a + unat port div 8) (unat port mod 8))
      else upd_vbitmaps v (byte_and_not (io_bitmap_b + unat port div 8) (unat port mod 8)))"

definition vis_io_trapped :: "vcpu_ptr \<Rightarrow> u16 \<Rightarrow> vtwan \<Rightarrow> bool" where
  "vis_io_trapped v port k =
     (if port < 0x8000 then byte_bit (io_bitmap_a + unat port div 8) (unat port mod 8) (vbitmaps k v)
      else byte_bit (io_bitmap_b + unat port div 8) (unat port mod 8) (vbitmaps k v))"

section \<open>Definitions: model-specific registers\<close>

definition MSR_READ_LOW :: int where "MSR_READ_LOW = 0"
definition MSR_READ_HIGH :: int where "MSR_READ_HIGH = 1024"
definition MSR_WRITE_LOW :: int where "MSR_WRITE_LOW = 2048"
definition MSR_WRITE_HIGH :: int where "MSR_WRITE_HIGH = 3072"

definition vin_msr_bitmap_range :: "u32 \<Rightarrow> bool" where
  "vin_msr_bitmap_range msr \<longleftrightarrow> msr \<le> 0x1ff \<or> msr \<ge> 0xc0000000 \<and> msr \<le> 0xc0001fff"

text \<open>The results \<^verbatim>\<open>*base\<close> and \<^verbatim>\<open>*idx\<close>.\<close>

definition vmap_msr_write :: "u32 \<Rightarrow> int \<times> int" where
  "vmap_msr_write msr =
     (if msr \<le> 0x1ff then (MSR_WRITE_LOW, uint msr)
      else if msr \<ge> 0xc0000000 \<and> msr \<le> 0xc0001fff then (MSR_WRITE_HIGH, uint (msr - 0xc0000000))
      else (-1, -1))"

definition vmap_msr_read :: "u32 \<Rightarrow> int \<times> int" where
  "vmap_msr_read msr =
     (if msr \<le> 0x1ff then (MSR_READ_LOW, uint msr)
      else if msr \<ge> 0xc0000000 \<and> msr \<le> 0xc0001fff then (MSR_READ_HIGH, uint (msr - 0xc0000000))
      else (-1, -1))"

text \<open>The statement guarded by \<^verbatim>\<open>base != -1 && idx != -1\<close>, at the byte \<^verbatim>\<open>base + idx / 8\<close> and the bit \<^verbatim>\<open>idx % 8\<close>.\<close>

definition at_msr :: "(nat \<Rightarrow> nat \<Rightarrow> 'a) \<Rightarrow> 'a \<Rightarrow> int \<times> int \<Rightarrow> 'a" where
  "at_msr f d = (\<lambda>(base, idx).
     if base \<noteq> -1 \<and> idx \<noteq> -1 then f (msr_bitmap + nat (base + idx div 8)) (nat (idx mod 8)) else d)"

definition vtrap_msr_write :: "vcpu_ptr \<Rightarrow> u32 \<Rightarrow> vtwan \<Rightarrow> vtwan" where
  "vtrap_msr_write v msr = at_msr (\<lambda>i n. upd_vbitmaps v (byte_or i n)) id (vmap_msr_write msr)"

definition vtrap_msr_read :: "vcpu_ptr \<Rightarrow> u32 \<Rightarrow> vtwan \<Rightarrow> vtwan" where
  "vtrap_msr_read v msr = at_msr (\<lambda>i n. upd_vbitmaps v (byte_or i n)) id (vmap_msr_read msr)"

definition vtrap_msr :: "vcpu_ptr \<Rightarrow> u32 \<Rightarrow> vtwan \<Rightarrow> vtwan" where
  "vtrap_msr v msr k = vtrap_msr_write v msr (vtrap_msr_read v msr k)"

definition vunvtrap_msr_write :: "vcpu_ptr \<Rightarrow> u32 \<Rightarrow> vtwan \<Rightarrow> vtwan" where
  "vunvtrap_msr_write v msr = at_msr (\<lambda>i n. upd_vbitmaps v (byte_and_not i n)) id (vmap_msr_write msr)"

definition vunvtrap_msr_read :: "vcpu_ptr \<Rightarrow> u32 \<Rightarrow> vtwan \<Rightarrow> vtwan" where
  "vunvtrap_msr_read v msr = at_msr (\<lambda>i n. upd_vbitmaps v (byte_and_not i n)) id (vmap_msr_read msr)"

definition vunvtrap_msr :: "vcpu_ptr \<Rightarrow> u32 \<Rightarrow> vtwan \<Rightarrow> vtwan" where
  "vunvtrap_msr v msr k = vunvtrap_msr_write v msr (vunvtrap_msr_read v msr k)"

definition vis_msr_write_trapped :: "vcpu_ptr \<Rightarrow> u32 \<Rightarrow> vtwan \<Rightarrow> bool" where
  "vis_msr_write_trapped v msr k = at_msr (\<lambda>i n. byte_bit i n (vbitmaps k v)) False (vmap_msr_write msr)"

definition vis_msr_read_trapped :: "vcpu_ptr \<Rightarrow> u32 \<Rightarrow> vtwan \<Rightarrow> bool" where
  "vis_msr_read_trapped v msr k = at_msr (\<lambda>i n. byte_bit i n (vbitmaps k v)) False (vmap_msr_read msr)"

section \<open>Definitions: the initial traps\<close>

text \<open>The flags of the CPU that \<^verbatim>\<open>vsetup_traps\<close> reads.\<close>

record vtrap_flags =
  tf_ia32_arch_capabilities_r :: bool
  tf_xsave :: bool
  tf_user_msr :: bool
  tf_uintr :: bool
  tf_uintr_timer :: bool
  tf_fred :: bool
  tf_waitpkg :: bool
  tf_xapic_disable_status :: bool
  tf_tsc_aux :: bool
  tf_sr_bios_done :: bool
  tf_mpx :: bool
  tf_x2apic :: bool

text \<open>The x2APIC registers (identifier to spurious vector, then ISR, TMR, IRR, ESR, CMCI, ICR, the local
  vector table, divider, self interrupt) and the capability registers of VMX, in the order of the code.\<close>

definition IA32_X2APIC :: "u32 list" where
  "IA32_X2APIC = [0x802, 0x803, 0x808, 0x80a, 0x80b, 0x80d, 0x80f,
     0x810, 0x811, 0x812, 0x813, 0x814, 0x815, 0x816, 0x817,
     0x818, 0x819, 0x81a, 0x81b, 0x81c, 0x81d, 0x81e, 0x81f,
     0x820, 0x821, 0x822, 0x823, 0x824, 0x825, 0x826, 0x827, 0x828, 0x82f, 0x830,
     0x832, 0x833, 0x834, 0x835, 0x836, 0x837, 0x838, 0x839, 2110, 2111]"

definition IA32_VMX :: "u32 list" where
  "IA32_VMX = [0x480, 0x481, 0x482, 0x483, 0x484, 0x485, 0x486, 0x487, 0x488, 0x489,
     0x48a, 0x48b, 0x48c, 0x48d, 0x48e, 0x48f, 0x490, 0x491, 0x492, 0x493]"

definition IA32_UINTR :: "u32 list" where
  "IA32_UINTR = [0x985, 0x986, 0x987, 0x988, 0x989, 0x98a]"

definition IA32_FRED :: "u32 list" where
  "IA32_FRED = [0x1d4, 0x1cc, 0x1cd, 0x1ce, 0x1cf, 0x1d0, 0x1d1, 0x1d2, 0x1d3]"

text \<open>The registers of the calls of \<^verbatim>\<open>vtrap_msr\<close> that follow that of \<^verbatim>\<open>IA32_ARCH_CAPABILITIES\<close>.\<close>

definition vtrapped_msrs :: "vtrap_flags \<Rightarrow> u32 list" where
  "vtrapped_msrs vthis_cpu =
     (if tf_xsave vthis_cpu then [0xda0] else []) @
     (if tf_user_msr vthis_cpu then [0x1c, 0x2f] else []) @
     (if tf_uintr vthis_cpu then IA32_UINTR else []) @
     (if tf_uintr_timer vthis_cpu then [0x1b00] else []) @
     (if tf_fred vthis_cpu then IA32_FRED else []) @
     (if tf_waitpkg vthis_cpu then [0xe1] else []) @
     (if tf_xapic_disable_status vthis_cpu then [0xbd] else []) @
     (if tf_tsc_aux vthis_cpu then [0xc0000103] else []) @
     (if tf_sr_bios_done vthis_cpu then [0x151] else []) @
     (if tf_mpx vthis_cpu then [0xd90] else []) @
     (if tf_x2apic vthis_cpu then IA32_X2APIC else []) @
     [0x06] @ IA32_VMX @ [0x1b]"

definition vsetup_traps :: "vtrap_flags \<Rightarrow> vcpu_ptr \<Rightarrow> vtwan \<Rightarrow> vtwan" where
  "vsetup_traps vthis_cpu v k =
     (let k = vtrap_msr v 0x3a k;
          k = (if tf_ia32_arch_capabilities_r vthis_cpu then vtrap_msr_read v 0x10a k else k)
      in fold (vtrap_msr v) (vtrapped_msrs vthis_cpu) k)"

section \<open>Bits\<close>

lemma byte_bit_iff: "n < 8 \<Longrightarrow> byte_bit i n m \<longleftrightarrow> bit (m i) n"
  by (auto simp: byte_bit_def bit_iff_and_drop_bit_eq_1 and_one_eq odd_iff_mod_2_eq_one)

lemma byte_bit_update:
  assumes "n < 8" and "n' < 8"
  shows "byte_bit i' n' (byte_or i n m) \<longleftrightarrow> i' = i \<and> n' = n \<or> byte_bit i' n' m"
    and "byte_bit i' n' (byte_and_not i n m) \<longleftrightarrow> \<not> (i' = i \<and> n' = n) \<and> byte_bit i' n' m"
  using assms
  by (auto simp: byte_bit_iff byte_or_def byte_and_not_def bit_simps)

lemma byte_and_not_or:
  assumes "n < 8" and "\<not> byte_bit i n m"
  shows "byte_and_not i n (byte_or i n m) = m"
proof
  show "byte_and_not i n (byte_or i n m) j = m j" for j
    using assms by (auto simp: byte_bit_iff byte_or_def byte_and_not_def bit_simps intro!: bit_word_eqI)
qed

lemma byte_update_other:
  "j \<noteq> i \<Longrightarrow> byte_or i n m j = m j" "j \<noteq> i \<Longrightarrow> byte_and_not i n m j = m j"
  by (simp_all add: byte_or_def byte_and_not_def)

section \<open>Positions of the registers\<close>

text \<open>The bit that stands for a register, counted from the start of the register bitmap.\<close>

definition msr_read_pos :: "u32 \<Rightarrow> nat" where
  "msr_read_pos msr = (if msr \<le> 0x1ff then unat msr else 8192 + (unat msr - 0xc0000000))"

definition msr_write_pos :: "u32 \<Rightarrow> nat" where
  "msr_write_pos msr = 16384 + msr_read_pos msr"

lemma msr_range_nat:
  "vin_msr_bitmap_range msr \<longleftrightarrow> unat msr \<le> 0x1ff \<or> 0xc0000000 \<le> unat msr \<and> unat msr \<le> 0xc0001fff"
  by (simp add: vin_msr_bitmap_range_def word_le_nat_alt)

lemma msr_read_pos_inj:
  assumes "vin_msr_bitmap_range a" and "vin_msr_bitmap_range b"
  shows "msr_read_pos a = msr_read_pos b \<longleftrightarrow> a = b"
  using assms unfolding msr_range_nat msr_read_pos_def word_le_nat_alt word_unat_eq_iff
  by auto

lemma msr_read_pos_less: "vin_msr_bitmap_range a \<Longrightarrow> msr_read_pos a < 16384"
  unfolding msr_range_nat msr_read_pos_def word_le_nat_alt by auto

lemma msr_pos_disjoint:
  assumes "vin_msr_bitmap_range a" and "vin_msr_bitmap_range b"
  shows "msr_read_pos a \<noteq> msr_write_pos b" "msr_write_pos b \<noteq> msr_read_pos a"
  using assms msr_read_pos_less [of a] by (auto simp: msr_write_pos_def)

lemma high_msr_idx: "0xc0000000 \<le> (msr :: u32) \<Longrightarrow> unat (msr - 0xc0000000) = unat msr - 0xc0000000"
  by (simp add: unat_sub)

text \<open>The byte and the bit in it that stand for a position.\<close>

abbreviation msr_byte :: "nat \<Rightarrow> nat" where
  "msr_byte p \<equiv> msr_bitmap + p div 8"

lemma nat_base_idx:
  assumes "0 \<le> b" and "0 \<le> i"
  shows "nat (8 * b + i) div 8 = nat (b + i div 8)" "nat (8 * b + i) mod 8 = nat (i mod 8)"
proof -
  have "nat (8 * b + i) div 8 = nat ((8 * b + i) div 8)" using assms by (simp add: nat_div_distrib)
  moreover have "nat (8 * b + i) mod 8 = nat ((8 * b + i) mod 8)"
    using assms nat_mod_distrib [of "8 * b + i" 8] by simp
  ultimately show "nat (8 * b + i) div 8 = nat (b + i div 8)" "nat (8 * b + i) mod 8 = nat (i mod 8)" by simp_all
qed

lemma at_msr_pos:
  assumes "0 \<le> b" and "0 \<le> i"
  shows "at_msr f d (b, i) = f (msr_byte (nat (8 * b + i))) (nat (8 * b + i) mod 8)"
  using assms by (simp add: at_msr_def nat_base_idx)

lemma at_msr_read:
  "at_msr f d (vmap_msr_read msr) =
     (if vin_msr_bitmap_range msr then f (msr_byte (msr_read_pos msr)) (msr_read_pos msr mod 8) else d)"
  by (auto simp: vmap_msr_read_def vin_msr_bitmap_range_def at_msr_pos MSR_READ_LOW_def MSR_READ_HIGH_def msr_read_pos_def
      nat_add_distrib high_msr_idx) (simp_all add: at_msr_def)

lemma at_msr_write:
  "at_msr f d (vmap_msr_write msr) =
     (if vin_msr_bitmap_range msr then f (msr_byte (msr_write_pos msr)) (msr_write_pos msr mod 8) else d)"
  by (auto simp: vmap_msr_write_def vin_msr_bitmap_range_def at_msr_pos MSR_WRITE_LOW_def MSR_WRITE_HIGH_def msr_write_pos_def
      msr_read_pos_def nat_add_distrib high_msr_idx) (simp_all add: at_msr_def)

text \<open>Reading and changing the bit at a position.\<close>

definition pos_bit :: "nat \<Rightarrow> (nat \<Rightarrow> u8) \<Rightarrow> bool" where
  "pos_bit p = byte_bit (msr_byte p) (p mod 8)"

definition pos_set :: "nat \<Rightarrow> (nat \<Rightarrow> u8) \<Rightarrow> nat \<Rightarrow> u8" where
  "pos_set p = byte_or (msr_byte p) (p mod 8)"

definition pos_unset :: "nat \<Rightarrow> (nat \<Rightarrow> u8) \<Rightarrow> nat \<Rightarrow> u8" where
  "pos_unset p = byte_and_not (msr_byte p) (p mod 8)"

lemma div_mod_8_eq: "p div 8 = q div 8 \<and> p mod 8 = q mod 8 \<longleftrightarrow> p = (q :: nat)"
  using div_mult_mod_eq [of p 8] div_mult_mod_eq [of q 8] by metis

lemma pos_bit_update [simp]:
  "pos_bit p (pos_set q m) \<longleftrightarrow> p = q \<or> pos_bit p m"
  "pos_bit p (pos_unset q m) \<longleftrightarrow> p \<noteq> q \<and> pos_bit p m"
  by (auto simp: pos_bit_def pos_set_def pos_unset_def byte_bit_update) (metis div_mod_8_eq)+

lemma pos_unset_set: "\<not> pos_bit p m \<Longrightarrow> pos_unset p (pos_set p m) = m"
  by (simp add: pos_bit_def pos_set_def pos_unset_def byte_and_not_or)

lemma pos_unset_set_comm: "p \<noteq> q \<Longrightarrow> pos_unset p (pos_set q m) = pos_set q (pos_unset p m)"
  unfolding pos_set_def pos_unset_def byte_or_def byte_and_not_def using div_mod_8_eq [of p q]
  by (auto simp: fun_eq_iff bit_simps intro!: bit_word_eqI)

lemma msr_ops:
  "vtrap_msr_read v msr k = (if vin_msr_bitmap_range msr then upd_vbitmaps v (pos_set (msr_read_pos msr)) k else k)"
  "vtrap_msr_write v msr k = (if vin_msr_bitmap_range msr then upd_vbitmaps v (pos_set (msr_write_pos msr)) k else k)"
  "vunvtrap_msr_read v msr k = (if vin_msr_bitmap_range msr then upd_vbitmaps v (pos_unset (msr_read_pos msr)) k else k)"
  "vunvtrap_msr_write v msr k = (if vin_msr_bitmap_range msr then upd_vbitmaps v (pos_unset (msr_write_pos msr)) k else k)"
  "vis_msr_read_trapped v msr k \<longleftrightarrow> vin_msr_bitmap_range msr \<and> pos_bit (msr_read_pos msr) (vbitmaps k v)"
  "vis_msr_write_trapped v msr k \<longleftrightarrow> vin_msr_bitmap_range msr \<and> pos_bit (msr_write_pos msr) (vbitmaps k v)"
  by (simp_all add: vtrap_msr_read_def vtrap_msr_write_def vunvtrap_msr_read_def vunvtrap_msr_write_def
      vis_msr_read_trapped_def vis_msr_write_trapped_def at_msr_read at_msr_write pos_bit_def pos_set_def pos_unset_def)

lemma vtrap_msr_bits:
  assumes "vin_msr_bitmap_range msr"
  shows "vis_msr_read_trapped v msr (vtrap_msr v m k) \<longleftrightarrow> m = msr \<or> vis_msr_read_trapped v msr k"
    and "vis_msr_write_trapped v msr (vtrap_msr v m k) \<longleftrightarrow> m = msr \<or> vis_msr_write_trapped v msr k"
    and "vis_msr_read_trapped v msr (vtrap_msr_read v m k) \<longleftrightarrow> m = msr \<or> vis_msr_read_trapped v msr k"
    and "vis_msr_write_trapped v msr (vtrap_msr_read v m k) \<longleftrightarrow> vis_msr_write_trapped v msr k"
proof -
  have d: "msr_write_pos msr \<noteq> msr_read_pos m" "msr_read_pos msr \<noteq> msr_write_pos m"
      "msr_read_pos msr = msr_read_pos m \<longleftrightarrow> m = msr" "msr_write_pos msr = msr_write_pos m \<longleftrightarrow> m = msr"
    if "vin_msr_bitmap_range m"
    using msr_pos_disjoint [OF that assms] msr_pos_disjoint [OF assms that] msr_read_pos_inj [OF assms that]
    by (auto simp: msr_write_pos_def)
  show "vis_msr_read_trapped v msr (vtrap_msr v m k) \<longleftrightarrow> m = msr \<or> vis_msr_read_trapped v msr k"
      "vis_msr_write_trapped v msr (vtrap_msr v m k) \<longleftrightarrow> m = msr \<or> vis_msr_write_trapped v msr k"
      "vis_msr_read_trapped v msr (vtrap_msr_read v m k) \<longleftrightarrow> m = msr \<or> vis_msr_read_trapped v msr k"
      "vis_msr_write_trapped v msr (vtrap_msr_read v m k) \<longleftrightarrow> vis_msr_write_trapped v msr k"
    using assms d by (cases "vin_msr_bitmap_range m"; auto simp: msr_ops vtrap_msr_def)+
qed

text \<open>What a trap of a register leaves alone: everything but the two bytes of the register.\<close>

definition msr_gap :: "nat \<Rightarrow> bool" where
  "msr_gap i \<longleftrightarrow> i < msr_bitmap \<or> (msr_bitmap + 64 \<le> i \<and> i < msr_bitmap + 1024) \<or>
     (msr_bitmap + 2112 \<le> i \<and> i < msr_bitmap + 3072)"

lemma msr_read_pos_gap:
  assumes "msr_gap i" and "vin_msr_bitmap_range msr"
  shows "i \<noteq> msr_byte (msr_read_pos msr)" "i \<noteq> msr_byte (msr_write_pos msr)"
proof -
  have "msr_read_pos msr div 8 < 64 \<or> 1024 \<le> msr_read_pos msr div 8 \<and> msr_read_pos msr div 8 < 2048"
    using assms(2) unfolding msr_range_nat msr_read_pos_def word_le_nat_alt by auto
  moreover have "msr_write_pos msr div 8 = 2048 + msr_read_pos msr div 8" by (simp add: msr_write_pos_def)
  ultimately show "i \<noteq> msr_byte (msr_read_pos msr)" "i \<noteq> msr_byte (msr_write_pos msr)"
    using assms(1) by (auto simp: msr_gap_def msr_bitmap_def)
qed

lemma vtrap_msr_gap:
  assumes "msr_gap i"
  shows "vbitmaps (vtrap_msr v msr k) v i = vbitmaps k v i" "vbitmaps (vtrap_msr_read v msr k) v i = vbitmaps k v i"
  using msr_read_pos_gap [OF assms] by (auto simp: msr_ops vtrap_msr_def pos_set_def byte_update_other)

lemma fold_vtrap_msr:
  assumes "vin_msr_bitmap_range msr"
  shows "vis_msr_read_trapped v msr (fold (vtrap_msr v) ms k) \<longleftrightarrow> msr \<in> set ms \<or> vis_msr_read_trapped v msr k"
    and "vis_msr_write_trapped v msr (fold (vtrap_msr v) ms k) \<longleftrightarrow> msr \<in> set ms \<or> vis_msr_write_trapped v msr k"
  by (induction ms arbitrary: k) (auto simp: vtrap_msr_bits [OF assms])

lemma fold_vtrap_msr_gap: "msr_gap i \<Longrightarrow> vbitmaps (fold (vtrap_msr v) ms k) v i = vbitmaps k v i"
  by (induction ms arbitrary: k) (simp_all add: vtrap_msr_gap)

section \<open>Properties\<close>

text \<open>Trapping a register in the handled ranges traps reads and writes of it and of no other
  register, and untrapping it restores the state.\<close>

theorem vtrap_msr_roundtrip:
  assumes "vin_msr_bitmap_range msr"
  shows "vis_msr_read_trapped v msr (vtrap_msr v msr k) \<and> vis_msr_write_trapped v msr (vtrap_msr v msr k) \<and>
     (\<forall>m. m \<noteq> msr \<longrightarrow> vis_msr_read_trapped v m (vtrap_msr v msr k) = vis_msr_read_trapped v m k \<and>
        vis_msr_write_trapped v m (vtrap_msr v msr k) = vis_msr_write_trapped v m k) \<and>
     (\<not> vis_msr_read_trapped v msr k \<and> \<not> vis_msr_write_trapped v msr k \<longrightarrow> vunvtrap_msr v msr (vtrap_msr v msr k) = k)"
proof (intro conjI allI impI)
  show "vis_msr_read_trapped v msr (vtrap_msr v msr k)" "vis_msr_write_trapped v msr (vtrap_msr v msr k)"
    by (simp_all add: vtrap_msr_bits [OF assms])
  show "vis_msr_read_trapped v m (vtrap_msr v msr k) = vis_msr_read_trapped v m k"
      "vis_msr_write_trapped v m (vtrap_msr v msr k) = vis_msr_write_trapped v m k" if "m \<noteq> msr" for m
    using that vtrap_msr_bits [of m v msr k] by (cases "vin_msr_bitmap_range m"; simp add: msr_ops)+
  assume nt: "\<not> vis_msr_read_trapped v msr k \<and> \<not> vis_msr_write_trapped v msr k"
  let ?r = "msr_read_pos msr" and ?w = "msr_write_pos msr" and ?m = "vbitmaps k v"
  have "pos_unset ?w (pos_unset ?r (pos_set ?w (pos_set ?r ?m))) = ?m"
    using nt assms msr_pos_disjoint [OF assms assms] by (simp add: msr_ops pos_unset_set_comm pos_unset_set)
  then show "vunvtrap_msr v msr (vtrap_msr v msr k) = k"
    using assms by (simp add: vunvtrap_msr_def vtrap_msr_def msr_ops upd_vcpu_def)
qed

text \<open>The initial traps are exactly those of the listed registers, within the handled ranges.\<close>

theorem vsetup_traps_spec:
  assumes "vin_msr_bitmap_range msr"
  shows "(vis_msr_write_trapped v msr (vsetup_traps f v k) \<longleftrightarrow>
       vis_msr_write_trapped v msr k \<or> msr = 0x3a \<or> msr \<in> set (vtrapped_msrs f)) \<and>
     (vis_msr_read_trapped v msr (vsetup_traps f v k) \<longleftrightarrow>
       vis_msr_read_trapped v msr k \<or> msr = 0x3a \<or> msr \<in> set (vtrapped_msrs f) \<or>
       tf_ia32_arch_capabilities_r f \<and> msr = 0x10a)"
  by (auto simp: vsetup_traps_def Let_def fold_vtrap_msr [OF assms] vtrap_msr_bits [OF assms])

text \<open>The registers 0x200 to 0x1fff, the x2APIC and VMX registers among them, are never
  trapped: the bytes of the bitmap for them stay as they were.\<close>

theorem vsetup_traps_gap:
  assumes "0x200 \<le> msr" and "msr \<le> 0x1fff"
  shows "vbitmaps (vsetup_traps f v k) v (msr_bitmap + unat msr div 8) = vbitmaps k v (msr_bitmap + unat msr div 8) \<and>
     vbitmaps (vsetup_traps f v k) v (msr_bitmap + 2048 + unat msr div 8) =
       vbitmaps k v (msr_bitmap + 2048 + unat msr div 8) \<and>
     \<not> vis_msr_read_trapped v msr (vsetup_traps f v k) \<and> \<not> vis_msr_write_trapped v msr (vsetup_traps f v k)"
proof -
  have u: "0x200 \<le> unat msr" "unat msr \<le> 0x1fff" using assms by (simp_all add: word_le_nat_alt)
  then have "64 \<le> unat msr div 8" "unat msr div 8 < 1024" by auto
  then have g: "msr_gap (msr_bitmap + unat msr div 8)" "msr_gap (msr_bitmap + 2048 + unat msr div 8)"
    by (auto simp: msr_gap_def)
  have "\<not> vin_msr_bitmap_range msr" using u by (simp add: msr_range_nat)
  then show ?thesis
    using fold_vtrap_msr_gap [OF g(1)] fold_vtrap_msr_gap [OF g(2)] vtrap_msr_gap [OF g(1)] vtrap_msr_gap [OF g(2)]
    by (simp add: vsetup_traps_def Let_def msr_ops)
qed

text \<open>Trapping a port below 0x8000 is exact and reversible; for a port from 0x8000 on the
  index leaves the bitmap of the ports, which stays unchanged, and the bit is set in the
  bitmap of the registers.\<close>

theorem vtrap_io_spec:
  "(port < 0x8000 \<longrightarrow> vis_io_trapped v port (vtrap_io v port k) \<and>
      (\<not> vis_io_trapped v port k \<longrightarrow> vuntrap_io v port (vtrap_io v port k) = k)) \<and>
   (port \<ge> 0x8000 \<longrightarrow> (\<forall>i < msr_bitmap. vbitmaps (vtrap_io v port k) v i = vbitmaps k v i) \<and>
      bit (vbitmaps (vtrap_io v port k) v (msr_bitmap + (unat port - 0x8000) div 8)) (unat port mod 8))"
proof (cases "port < 0x8000")
  case True
  then have "\<not> port \<ge> 0x8000" by simp
  then show ?thesis
    using True by (simp add: vis_io_trapped_def vtrap_io_def vuntrap_io_def byte_bit_update byte_and_not_or upd_vcpu_def)
next
  case False
  then have "0x8000 \<le> unat port" by (simp add: word_le_nat_alt not_less)
  then have "io_bitmap_b + unat port div 8 = msr_bitmap + (unat port - 0x8000) div 8"
    by (simp add: io_bitmap_b_def msr_bitmap_def)
  then show ?thesis
    using False by (auto simp: vtrap_io_def byte_or_def bit_simps not_less)
qed

section \<open>Applications\<close>

theorem vtrap_msr_roundtrip_witness:
  "vunvtrap_msr 10 0xc0000103 (vtrap_msr 10 0xc0000103 two_partitions) = two_partitions"
proof -
  have "vin_msr_bitmap_range 0xc0000103" by (simp add: vin_msr_bitmap_range_def)
  moreover have "\<not> vis_msr_read_trapped 10 m two_partitions \<and> \<not> vis_msr_write_trapped 10 m two_partitions" for m
    by (simp add: msr_ops pos_bit_def byte_bit_def two_partitions_def zero_vcpu_def zero_arch_def)
  ultimately show ?thesis using vtrap_msr_roundtrip [of "0xc0000103" 10 two_partitions] by blast
qed

definition plain_cpu :: vtrap_flags where
  "plain_cpu = \<lparr>tf_ia32_arch_capabilities_r = False, tf_xsave = True, tf_user_msr = False, tf_uintr = False,
     tf_uintr_timer = False, tf_fred = False, tf_waitpkg = False, tf_xapic_disable_status = False, tf_tsc_aux = True,
     tf_sr_bios_done = False, tf_mpx = False, tf_x2apic = True\<rparr>"

theorem vsetup_traps_spec_witness: "vis_msr_write_trapped 10 0x1b (vsetup_traps plain_cpu 10 two_partitions)"
  using vsetup_traps_spec [of "0x1b" 10 plain_cpu two_partitions]
  by (simp add: vin_msr_bitmap_range_def vtrapped_msrs_def)

theorem vsetup_traps_gap_witness:
  "0x830 \<in> set (vtrapped_msrs plain_cpu) \<and> \<not> vis_msr_write_trapped 10 0x830 (vsetup_traps plain_cpu 10 two_partitions)"
  using vsetup_traps_gap [of "0x830" plain_cpu 10 two_partitions]
  by (simp add: vtrapped_msrs_def IA32_X2APIC_def plain_cpu_def)

theorem vtrap_io_spec_witness: "vis_io_trapped 10 0x60 (vtrap_io 10 0x60 two_partitions)"
  using vtrap_io_spec [of "0x60" 10 two_partitions] by simp

end
