(* ===== verification/Twan_Venter.thy ===== *)
theory Twan_Venter
  imports Twan_Vsched Twan_Vtrap
begin

text \<open>
  Entering a guest: \<open>vportal/venter.c\<close> and the functions of \<open>vemulate/vemulate_utils.h\<close> that queue operations for
  the next entry and read or write the state of the guest. \<^verbatim>\<open>vmread\<close> and \<^verbatim>\<open>__vmwrite\<close> access the VMCS of the
  current virtual CPU, \<open>v_vmcs\<close>; they succeed on the fields used here. \<open>vmptrld\<close> tells whether the processor
  accepts the address of a VMCS. The injection part of \<^verbatim>\<open>__venter\<close> works on the current virtual CPU alone and is a
  function on its record. Shown: at most one event is injected; no pending interrupt is lost, each one stays
  pending until it is injected, and a deliverable one is injected or a window exit is requested; an injected
  vector is the highest pending one and above every level in service; an interrupt whose delivery was cut
  short by an exit is queued again but can then not be injected.
\<close>

section \<open>Definitions: the state of the guest\<close>

datatype vop_mode = VOP_16_BIT | VOP_32_BIT | VOP_64_BIT

definition vget_guest_mode :: "vmcs \<Rightarrow> vop_mode" where
  "vget_guest_mode m =
     (if \<not> bit (vm_guest_cr0 m) 0 then VOP_16_BIT
      else if bit (vm_guest_efer m) 10 then
        (if vm_cs_longmode m then VOP_64_BIT else if vm_cs_db m then VOP_32_BIT else VOP_16_BIT)
      else if bit (vm_guest_rflags m) 17 then VOP_16_BIT
      else if vm_cs_db m then VOP_32_BIT else VOP_16_BIT)"

text \<open>The result and the mode that is stored through the pointer when it is true.\<close>

definition vis_guest_cpl0 :: "vmcs \<Rightarrow> vop_mode option" where
  "vis_guest_cpl0 m =
     (if \<not> bit (vm_guest_cr0 m) 0 then Some VOP_16_BIT
      else if vm_cs_dpl m \<noteq> 0 then None
      else if bit (vm_guest_efer m) 10 then
        Some (if vm_cs_longmode m then VOP_64_BIT else if vm_cs_db m then VOP_32_BIT else VOP_16_BIT)
      else if bit (vm_guest_rflags m) 17 then None
      else Some (if vm_cs_db m then VOP_32_BIT else VOP_16_BIT))"

definition vadvance_guest_rip :: "vmcs \<Rightarrow> vmcs" where
  "vadvance_guest_rip m =
     (let rip = vm_guest_rip m + ucast (vm_exit_length m);
          rip = (case vget_guest_mode m of
                   VOP_16_BIT \<Rightarrow> and rip 0xffff
                 | VOP_32_BIT \<Rightarrow> and rip 0xffffffff
                 | VOP_64_BIT \<Rightarrow> rip);
          m = m\<lparr>vm_guest_rip := rip\<rparr>
      in if vm_sti_blocking m \<or> vm_mov_ss_blocking m
         then m\<lparr>vm_mov_ss_blocking := False, vm_sti_blocking := False\<rparr> else m)"

definition vis_in_nmi :: "vmcs \<Rightarrow> bool" where
  "vis_in_nmi m = vm_nmi_blocking m"

definition vis_nmis_blocked :: "vmcs \<Rightarrow> bool" where
  "vis_nmis_blocked m \<longleftrightarrow> vm_mov_ss_blocking m \<or> vm_nmi_blocking m"

definition vis_external_interrupts_blocked :: "vmcs \<Rightarrow> bool" where
  "vis_external_interrupts_blocked m \<longleftrightarrow>
     \<not> bit (vm_guest_rflags m) 9 \<or> vm_sti_blocking m \<or> vm_mov_ss_blocking m"

definition vinject_interrupt ::
  "u8 \<Rightarrow> interrupt_type \<Rightarrow> bool \<Rightarrow> u64 \<Rightarrow> bool \<Rightarrow> u32 \<Rightarrow> vmcs \<Rightarrow> vmcs" where
  "vinject_interrupt vector type deliver_errcode errcode deliver_length len m =
     (let m = m\<lparr>vm_entry_info := \<lparr>ei_vector = vector, ei_type = type, ei_deliver_errcode = deliver_errcode,
                 ei_valid = True\<rparr>\<rparr>;
          m = (if deliver_errcode then m\<lparr>vm_entry_errcode := errcode\<rparr> else m)
      in if deliver_length then m\<lparr>vm_entry_length := len\<rparr> else m)"

definition vinject_interrupt_external :: "u8 \<Rightarrow> bool \<Rightarrow> vmcs \<Rightarrow> vmcs" where
  "vinject_interrupt_external vector nmi =
     vinject_interrupt vector (if vector = NMI \<and> nmi then INTERRUPT_TYPE_NMI else INTERRUPT_TYPE_EXTERNAL)
       False 0 False 0"

section \<open>Definitions: queueing operations for the next entry\<close>

abbreviation upd_queue :: "(voperation_queue \<Rightarrow> voperation_queue) \<Rightarrow> vcpu_ptr \<Rightarrow> vtwan \<Rightarrow> vtwan" where
  "upd_queue f v \<equiv> upd_vcpu v (\<lambda>x. x\<lparr>v_queue := f (v_queue x)\<rparr>)"

definition vqueue_advance_guest :: "vcpu_ptr \<Rightarrow> vtwan \<Rightarrow> vtwan" where
  "vqueue_advance_guest = upd_queue (\<lambda>q. q\<lparr>vq_should_advance := True\<rparr>)"

definition vqueue_vmwrite_cr0 :: "u64 \<Rightarrow> vcpu_ptr \<Rightarrow> vtwan \<Rightarrow> vtwan" where
  "vqueue_vmwrite_cr0 cr0 = upd_queue (\<lambda>q. q\<lparr>vq_vmwrite_cr0 := True, vq_cr0 := cr0\<rparr>)"

definition vqueue_vmwrite_cr4 :: "u64 \<Rightarrow> vcpu_ptr \<Rightarrow> vtwan \<Rightarrow> vtwan" where
  "vqueue_vmwrite_cr4 cr4 = upd_queue (\<lambda>q. q\<lparr>vq_vmwrite_cr4 := True, vq_cr4 := cr4\<rparr>)"

definition vqueue_synthetic_errcode :: "u64 \<Rightarrow> vcpu_ptr \<Rightarrow> vtwan \<Rightarrow> vtwan" where
  "vqueue_synthetic_errcode errcode = upd_queue (\<lambda>q. q\<lparr>vq_use_synth_errcode := True, vq_synth_errcode := errcode\<rparr>)"

text \<open>The reserved type only fails an assertion.\<close>

definition vqueue_idt_vectoring_info :: "vectored_events_info \<Rightarrow> vcpu_ptr \<Rightarrow> vtwan \<Rightarrow> vtwan" where
  "vqueue_idt_vectoring_info info current k =
     (case ve_type info of
        INTERRUPT_TYPE_EXTERNAL \<Rightarrow> snd (vemu_set_interrupt_pending current (ve_vector info) (ve_vector info = NMI) k)
      | INTERRUPT_TYPE_NMI \<Rightarrow> snd (vemu_set_interrupt_pending current NMI True k)
      | INTERRUPT_TYPE_RESERVED \<Rightarrow> k
      | _ \<Rightarrow> upd_queue (\<lambda>q. q\<lparr>vq_idt_vectoring := True, vq_idt_vectoring_info := info\<rparr>) current k)"

definition exception_info :: "interrupt_type \<Rightarrow> u8 \<Rightarrow> vectored_events_info" where
  "exception_info type vector = \<lparr>ve_vector = vector, ve_type = type, ve_errcode_delivered = False, ve_valid = False\<rparr>"

definition vqueue_inject_gp0 :: "vcpu_ptr \<Rightarrow> vtwan \<Rightarrow> vtwan" where
  "vqueue_inject_gp0 v k =
     vqueue_synthetic_errcode 0 v (vqueue_idt_vectoring_info (exception_info INTERRUPT_TYPE_HARDWARE_EXCEPTION 13) v k)"

definition vqueue_inject_ud :: "vcpu_ptr \<Rightarrow> vtwan \<Rightarrow> vtwan" where
  "vqueue_inject_ud v k = vqueue_idt_vectoring_info (exception_info INTERRUPT_TYPE_HARDWARE_EXCEPTION 6) v k"

definition vqueue_inject_db :: "interrupt_type \<Rightarrow> vcpu_ptr \<Rightarrow> vtwan \<Rightarrow> vtwan" where
  "vqueue_inject_db int_type v k = vqueue_idt_vectoring_info (exception_info int_type 1) v k"

definition vqueue_inject_ac0 :: "vcpu_ptr \<Rightarrow> vtwan \<Rightarrow> vtwan" where
  "vqueue_inject_ac0 v k =
     vqueue_synthetic_errcode 0 v (vqueue_idt_vectoring_info (exception_info INTERRUPT_TYPE_HARDWARE_EXCEPTION 17) v k)"

text \<open>The level is a field of four bits.\<close>

definition vset_intl :: "vcpu_ptr \<Rightarrow> u8 \<Rightarrow> vtwan \<Rightarrow> vtwan" where
  "vset_intl v intl = upd_vcpu v (\<lambda>x. x\<lparr>v_delivery := (v_delivery x)\<lparr>vd_intl := and (ucast intl) 15\<rparr>\<rparr>)"

section \<open>Definitions: injecting\<close>

datatype venter_inject_state =
  VINJECT_NONE | VINJECTED_EXCEPTION | VINJECTED_NMI | VNMI_WINDOW_EXITING | VINT_WINDOW_EXITING

abbreviation upd_vmcs :: "(vmcs \<Rightarrow> vmcs) \<Rightarrow> vcpu \<Rightarrow> vcpu" where
  "upd_vmcs f x \<equiv> x\<lparr>v_vmcs := f (v_vmcs x)\<rparr>"

text \<open>\<^verbatim>\<open>carry out all pending operations\<close>.\<close>

definition voperations :: "vcpu \<Rightarrow> vcpu" where
  "voperations x =
     (let q = v_queue x;
          x = (if vq_vmwrite_cr0 q then upd_vmcs (\<lambda>m. m\<lparr>vm_guest_cr0 := vq_cr0 q\<rparr>) x else x);
          x = (if vq_vmwrite_cr4 q then upd_vmcs (\<lambda>m. m\<lparr>vm_guest_cr4 := vq_cr4 q\<rparr>) x else x);
          x = (if vq_should_advance q then upd_vmcs vadvance_guest_rip x else x)
      in x\<lparr>v_queue := q\<lparr>vq_vmwrite_cr4 := False, vq_vmwrite_cr0 := False, vq_should_advance := False,
             vq_idt_vectoring := False, vq_use_synth_errcode := False\<rparr>\<rparr>)"

definition vinject_vectoring :: "voperation_queue \<Rightarrow> vcpu \<Rightarrow> venter_inject_state \<times> vcpu" where
  "vinject_vectoring q x =
     (if vq_idt_vectoring q then
        let info = vq_idt_vectoring_info q;
            int_type = ve_type info;
            errcode_valid = ve_errcode_delivered info;
            errcode = (if errcode_valid then vm_idt_errcode (v_vmcs x)
                       else if vq_use_synth_errcode q then vq_synth_errcode q else 0);
            len_valid = (int_type = INTERRUPT_TYPE_SOFTWARE_INT \<or>
              int_type = INTERRUPT_TYPE_PRIV_SOFTWARE_EXCEPTION \<or> int_type = INTERRUPT_TYPE_SOFTWARE_EXCEPTION);
            len = (if len_valid then vm_exit_length (v_vmcs x) else 0)
        in (VINJECTED_EXCEPTION, upd_vmcs (vinject_interrupt (ve_vector info) int_type
              (errcode_valid \<or> vq_use_synth_errcode q) errcode len_valid len) x)
      else (VINJECT_NONE, x))"

text \<open>The second component is \<^verbatim>\<open>external_vector\<close>.\<close>

definition vinject_nmi :: "venter_inject_state \<Rightarrow> vcpu \<Rightarrow> venter_inject_state \<times> int \<times> vcpu" where
  "vinject_nmi state x =
     (if vd_nmi_pending (v_delivery x) then
        if vis_nmis_blocked (v_vmcs x) \<or> state = VINJECTED_EXCEPTION then (VNMI_WINDOW_EXITING, -1, x)
        else (VINJECTED_NMI, uint NMI,
              (upd_vmcs (vinject_interrupt_external NMI True) x)\<lparr>v_delivery := (v_delivery x)\<lparr>vd_nmi_pending := False\<rparr>\<rparr>)
      else (state, -1, x))"

definition vinject_pending ::
  "venter_inject_state \<Rightarrow> int \<Rightarrow> vcpu \<Rightarrow> venter_inject_state \<times> int \<times> vcpu" where
  "vinject_pending state external_vector x =
     (let pending_vector = bmp256_fls (v_pending_external_interrupts x);
          vector = word_of_int pending_vector;
          pending_intl = vector_to_intl vector
      in if pending_vector \<ge> 0 \<and> pending_intl > fls32 (ucast (vd_in_intl (v_delivery x))) \<and>
            pending_intl \<ge> uint (vd_intl (v_delivery x)) then
           if vis_in_nmi (v_vmcs x) \<or> state = VINJECTED_NMI \<or> state = VNMI_WINDOW_EXITING
           then (VNMI_WINDOW_EXITING, external_vector, x)
           else if vis_external_interrupts_blocked (v_vmcs x) \<or> state = VINJECTED_EXCEPTION
           then (VINT_WINDOW_EXITING, external_vector, x)
           else if state = VINJECT_NONE
           then (state, pending_vector,
                 (upd_vmcs (vinject_interrupt_external vector False) x)
                   \<lparr>v_pending_external_interrupts := bmp256_unset (v_pending_external_interrupts x) vector,
                    v_delivery := (v_delivery x)\<lparr>vd_in_intl := or (vd_in_intl (v_delivery x)) (push_bit (nat pending_intl) 1)\<rparr>\<rparr>)
           else (state, external_vector, x)
         else (state, external_vector, x))"

definition vinject_windows :: "venter_inject_state \<Rightarrow> vcpu \<Rightarrow> vcpu" where
  "vinject_windows state x =
     (let new_nmi = (state = VNMI_WINDOW_EXITING);
          new_int = (state = VINT_WINDOW_EXITING)
      in if new_nmi \<noteq> vd_nmi_window_exit (v_delivery x) \<or> new_int \<noteq> vd_int_window_exit (v_delivery x)
         then (upd_vmcs (\<lambda>m. m\<lparr>vm_nmi_window_exiting := new_nmi, vm_interrupt_window_exiting := new_int\<rparr>) x)
                \<lparr>v_delivery := (v_delivery x)\<lparr>vd_nmi_window_exit := new_nmi, vd_int_window_exit := new_int\<rparr>\<rparr>
         else x)"

definition venter_inject :: "vcpu \<Rightarrow> int \<times> vcpu" where
  "venter_inject x =
     (let (state, x1) = vinject_vectoring (v_queue x) (voperations x);
          (state, external_vector, x2) = vinject_nmi state x1;
          (state, external_vector, x3) = vinject_pending state external_vector x2
      in (external_vector, vinject_windows state x3))"

section \<open>Definitions: entering\<close>

text \<open>\<open>VLEFT\<close>: the virtual CPU is given up for another one; \<open>VENTERED\<close>: the guest runs, after the TLB entries of the
  given identifier were invalidated.\<close>

datatype venter_outcome = VLEFT | VENTERED "u16 option"

definition venter_requeue :: "u32 \<Rightarrow> vcpu_ptr \<Rightarrow> int \<Rightarrow> vtwan \<Rightarrow> vtwan" where
  "venter_requeue this current external_vector k =
     (if external_vector \<noteq> -1 then
        let vector = word_of_int external_vector
        in on_dispatch this vector (\<lambda>(h, d).
             if bmp256_test (v_subscribed_vectors (tw_vcpu k current)) vector \<and> \<not> dq_is_queued h d (current, vector)
             then dq_pushback (h, d) (current, vector) else (h, d)) k
      else k)"

definition venter :: "vconfig \<Rightarrow> vcallback \<Rightarrow> (u64 \<Rightarrow> bool) \<Rightarrow> u32 \<Rightarrow> vtwan \<Rightarrow> (venter_outcome \<times> vtwan) option" where
  "venter cfg call vmptrld this k =
     (let current = vcur k this
      in if v_preempted (tw_vcpu k current) \<and> \<not> vmptrld (va_vmcs_phys (v_arch (tw_vcpu k current)))
         then map_option (Pair VLEFT) (vfailure_recover cfg call this k)
         else
           let k = upd_vcpu current (\<lambda>x. x\<lparr>v_preempted := False\<rparr>) k
           in if v_terminate (tw_vcpu k current)
              then map_option (Pair VLEFT) (vtransitioning_recover_ipi cfg call this k)
              else
                let x = tw_vcpu k current;
                    invvpid = (if v_tlb_flush_pending x \<and> v_vpid_enabled x then Some (v_vpid x) else None);
                    k = upd_vcpu current (\<lambda>x. x\<lparr>v_state := VRUNNING, v_tlb_flush_pending := False, v_rearm := False\<rparr>) k;
                    k = (if v_rearm x then vsched_arm_timer this (v_current_time_slice_ticks x) k else k);
                    (external_vector, x') = venter_inject (tw_vcpu k current);
                    k = upd_vcpu current (\<lambda>_. x') k
                in Some (VENTERED invvpid, venter_requeue this current external_vector k))"

section \<open>Vectors and levels\<close>

lemma top_vector_cases:
  obtains (none) "bmp256_fls b = -1" "\<And>v. \<not> bmp256_test b v"
  | (top) v where "bmp256_fls b = uint v" "bmp256_test b v" "\<And>w. bmp256_test b w \<Longrightarrow> w \<le> v"
proof (cases "bmp256_fls b = -1")
  case True
  then have "bmp256_members b = {}" by (simp add: b256.highest_neg)
  then have "\<not> bmp256_test b v" for v using mem_bmp256_test by blast
  with True show ?thesis by (rule none)
next
  case False
  let ?v = "word_of_int (bmp256_fls b) :: u8"
  have mem: "bmp256_fls b \<in> bmp256_members b" using False by (rule b256.highest_mem)
  then have u: "uint ?v = bmp256_fls b" using b256.mem_range by (force simp: uint_word_of_int)
  have "w \<le> ?v" if "bmp256_test b w" for w
    using b256.highest_ge [of "uint w" b] that by (simp add: mem_bmp256_test word_le_def u)
  then show ?thesis using mem u by (intro top [of ?v]) (auto simp: mem_bmp256_iff)
qed

lemma vector_to_intl_range: "0 \<le> vector_to_intl v" "vector_to_intl v < 16"
  using uint_bounded [of v] by (auto simp: vector_to_intl_def pos_imp_zdiv_nonneg_iff)

lemma vector_to_intl_mono: "v \<le> w \<Longrightarrow> vector_to_intl v \<le> vector_to_intl w"
  by (simp add: vector_to_intl_def word_le_def zdiv_mono1)

lemma fls32_zero [simp]: "fls32 0 = -1"
  by (simp add: fls32_def)

lemma msb_is_unique: "msb_is v b \<Longrightarrow> fls32 v = b"
  by (metis bit_0_eq bot_apply bot_bool_def fls32_spec int_nat_eq msb_is_def nle_le)

text \<open>Raising the level in service: the new level is then the highest, and taking it back is exact.\<close>

lemma fls32_less_bit: "fls32 v < int n \<Longrightarrow> \<not> bit v n"
  using fls32_spec [of v] by (cases "v = 0") (auto simp: msb_is_def)

lemma raised_level:
  fixes il :: u16
  assumes "n < 16" and "fls32 (ucast il) < int n"
  shows "fls32 (ucast (or il (push_bit n 1))) = int n"
    and "and (or il (push_bit n 1)) (not (push_bit n 1)) = il"
proof -
  have top: "i \<le> n" if "bit il i" for i
  proof -
    have b: "bit (ucast il :: u32) i"
      using that bit_imp_le_length [OF that] by (simp add: bit_simps)
    then have "ucast il \<noteq> (0 :: u32)" by auto
    then have "int i \<le> fls32 (ucast il)" using fls32_spec b by (auto simp: msb_is_def)
    then show ?thesis using assms(2) by simp
  qed
  show "fls32 (ucast (or il (push_bit n 1))) = int n"
    using assms(1) top by (intro msb_is_unique) (auto simp: msb_is_def bit_simps)
  have "\<not> bit il n"
    using fls32_less_bit [OF assms(2)] assms(1) by (simp add: bit_simps)
  then show "and (or il (push_bit n 1)) (not (push_bit n 1)) = il"
    by (auto simp: bit_simps intro!: bit_word_eqI)
qed

section \<open>What is injected\<close>

definition deliverable :: "vcpu \<Rightarrow> bool" where
  "deliverable x \<longleftrightarrow> (let pv = bmp256_fls (v_pending_external_interrupts x); l = vector_to_intl (word_of_int pv)
     in pv \<ge> 0 \<and> l > fls32 (ucast (vd_in_intl (v_delivery x))) \<and> l \<ge> uint (vd_intl (v_delivery x)))"

lemma voperations_keeps [simp]:
  "v_delivery (voperations x) = v_delivery x"
  "v_pending_external_interrupts (voperations x) = v_pending_external_interrupts x"
  "v_subscribed_vectors (voperations x) = v_subscribed_vectors x"
  "vm_entry_info (v_vmcs (voperations x)) = vm_entry_info (v_vmcs x)"
  "vm_nmi_window_exiting (v_vmcs (voperations x)) = vm_nmi_window_exiting (v_vmcs x)"
  "vm_interrupt_window_exiting (v_vmcs (voperations x)) = vm_interrupt_window_exiting (v_vmcs x)"
  "deliverable (voperations x) = deliverable x"
  by (simp_all add: voperations_def Let_def vadvance_guest_rip_def deliverable_def)

lemma vinject_interrupt_keeps [simp]:
  "ei_vector (vm_entry_info (vinject_interrupt v t d e dl l m)) = v"
  "ei_type (vm_entry_info (vinject_interrupt v t d e dl l m)) = t"
  "ei_valid (vm_entry_info (vinject_interrupt v t d e dl l m))"
  "vis_in_nmi (vinject_interrupt v t d e dl l m) = vis_in_nmi m"
  "vis_nmis_blocked (vinject_interrupt v t d e dl l m) = vis_nmis_blocked m"
  "vis_external_interrupts_blocked (vinject_interrupt v t d e dl l m) = vis_external_interrupts_blocked m"
  "vm_nmi_window_exiting (vinject_interrupt v t d e dl l m) = vm_nmi_window_exiting m"
  "vm_interrupt_window_exiting (vinject_interrupt v t d e dl l m) = vm_interrupt_window_exiting m"
  by (simp_all add: vinject_interrupt_def Let_def vis_in_nmi_def vis_nmis_blocked_def vis_external_interrupts_blocked_def)

lemma vinject_windows_keeps [simp]:
  "vd_nmi_pending (v_delivery (vinject_windows s x)) = vd_nmi_pending (v_delivery x)"
  "vd_in_intl (v_delivery (vinject_windows s x)) = vd_in_intl (v_delivery x)"
  "vd_intl (v_delivery (vinject_windows s x)) = vd_intl (v_delivery x)"
  "v_pending_external_interrupts (vinject_windows s x) = v_pending_external_interrupts x"
  "vm_entry_info (v_vmcs (vinject_windows s x)) = vm_entry_info (v_vmcs x)"
  "vd_nmi_window_exit (v_delivery (vinject_windows s x)) \<longleftrightarrow> s = VNMI_WINDOW_EXITING"
  "vd_int_window_exit (v_delivery (vinject_windows s x)) \<longleftrightarrow> s = VINT_WINDOW_EXITING"
  by (auto simp: vinject_windows_def Let_def)

text \<open>The event that an entry injects: its kind and vector.\<close>

datatype vevent = EXCEPTION u8 interrupt_type | NMI_EVENT | EXTERNAL u8 | NO_EVENT

text \<open>The decision as a list of precedences, on the guest state after the queued operations.\<close>

definition venter_event :: "vcpu \<Rightarrow> vevent" where
  "venter_event x =
     (let q = v_queue x; m = v_vmcs (voperations x)
      in if vq_idt_vectoring q then EXCEPTION (ve_vector (vq_idt_vectoring_info q)) (ve_type (vq_idt_vectoring_info q))
         else if vd_nmi_pending (v_delivery x) then (if vis_nmis_blocked m then NO_EVENT else NMI_EVENT)
         else if deliverable x \<and> \<not> vis_in_nmi m \<and> \<not> vis_external_interrupts_blocked m
         then EXTERNAL (word_of_int (bmp256_fls (v_pending_external_interrupts x)))
         else NO_EVENT)"

definition event_effect :: "vevent \<Rightarrow> vcpu \<Rightarrow> int \<times> vcpu \<Rightarrow> bool" where
  "event_effect e x = (\<lambda>(ev, x').
     (let info = vm_entry_info (v_vmcs x'); d = v_delivery x; d' = v_delivery x';
          p = v_pending_external_interrupts x; p' = v_pending_external_interrupts x'
      in case e of
           EXCEPTION v t \<Rightarrow> ev = -1 \<and> ei_valid info \<and> ei_vector info = v \<and> ei_type info = t \<and>
             vd_nmi_pending d' = vd_nmi_pending d \<and> p' = p \<and> vd_in_intl d' = vd_in_intl d
         | NMI_EVENT \<Rightarrow> ev = uint NMI \<and> ei_valid info \<and> ei_vector info = NMI \<and> ei_type info = INTERRUPT_TYPE_NMI \<and>
             \<not> vd_nmi_pending d' \<and> p' = p \<and> vd_in_intl d' = vd_in_intl d
         | EXTERNAL v \<Rightarrow> ev = uint v \<and> ei_valid info \<and> ei_vector info = v \<and> ei_type info = INTERRUPT_TYPE_EXTERNAL \<and>
             vd_nmi_pending d' = vd_nmi_pending d \<and> bmp256_test p v \<and> p' = bmp256_unset p v \<and>
             vd_in_intl d' = or (vd_in_intl d) (push_bit (nat (vector_to_intl v)) 1)
         | NO_EVENT \<Rightarrow> ev = -1 \<and> info = vm_entry_info (v_vmcs x) \<and> vd_nmi_pending d' = vd_nmi_pending d \<and> p' = p \<and>
             vd_in_intl d' = vd_in_intl d))"

lemmas inject_defs = venter_inject_def vinject_vectoring_def vinject_nmi_def vinject_pending_def vinject_interrupt_external_def
  Let_def

lemma deliverable_top:
  assumes "deliverable x"
  obtains v where "bmp256_fls (v_pending_external_interrupts x) = uint v" "bmp256_test (v_pending_external_interrupts x) v"
    "\<And>w. bmp256_test (v_pending_external_interrupts x) w \<Longrightarrow> w \<le> v"
    "vector_to_intl v > fls32 (ucast (vd_in_intl (v_delivery x)))" "vector_to_intl v \<ge> uint (vd_intl (v_delivery x))"
  using assms by (cases rule: top_vector_cases [of "v_pending_external_interrupts x"]) (auto simp: deliverable_def Let_def)

lemma event_effect_inject: "event_effect (venter_event x) x (venter_inject x)"
proof -
  have d: "deliverable x \<longleftrightarrow> (0 \<le> bmp256_fls (v_pending_external_interrupts x) \<and>
       vector_to_intl (word_of_int (bmp256_fls (v_pending_external_interrupts x))) > fls32 (ucast (vd_in_intl (v_delivery x))) \<and>
       vector_to_intl (word_of_int (bmp256_fls (v_pending_external_interrupts x))) \<ge> uint (vd_intl (v_delivery x)))"
    by (simp add: deliverable_def Let_def)
  show ?thesis
  proof (cases "deliverable x")
    case True
    then show ?thesis
      by (rule deliverable_top) (use True in \<open>auto simp: event_effect_def venter_event_def inject_defs d [symmetric]\<close>)
  next
    case False
    then show ?thesis
      by (auto simp: event_effect_def venter_event_def inject_defs d [symmetric])
  qed
qed

section \<open>Properties\<close>

text \<open>C23: The interrupt injection of a guest entry, written as a state machine over five steps,
  injects exactly the event that a list of precedences selects (vectored event, non-maskable
  interrupt, highest deliverable vector, nothing), with exactly the effects of that event on
  the pending and in-service state.\<close>

theorem venter_inject_spec: "event_effect (venter_event x) x (venter_inject x)"
  by (rule event_effect_inject)

text \<open>The window flags agree with the control word.\<close>

definition windows_ok :: "vcpu \<Rightarrow> bool" where
  "windows_ok x \<longleftrightarrow> vm_nmi_window_exiting (v_vmcs x) = vd_nmi_window_exit (v_delivery x) \<and>
     vm_interrupt_window_exiting (v_vmcs x) = vd_int_window_exit (v_delivery x)"

lemma windows_ok_inject:
  assumes "windows_ok x"
  shows "windows_ok (snd (venter_inject x))"
proof -
  have w: "windows_ok (vinject_windows s y)" if "windows_ok y" for s y
    using that by (auto simp: windows_ok_def vinject_windows_def Let_def)
  have "windows_ok (voperations x)" using assms by (simp add: windows_ok_def)
  then have "windows_ok (snd (vinject_vectoring (v_queue x) (voperations x)))"
    by (simp add: vinject_vectoring_def windows_ok_def Let_def)
  then have "windows_ok (snd (snd (vinject_nmi s (snd (vinject_vectoring (v_queue x) (voperations x))))))" for s
    by (simp add: vinject_nmi_def vinject_interrupt_external_def windows_ok_def)
  then have "windows_ok (snd (snd (vinject_pending s' e (snd (snd (vinject_nmi s (snd (vinject_vectoring (v_queue x) (voperations x)))))))))"
    for s s' e
    by (simp add: vinject_pending_def vinject_interrupt_external_def windows_ok_def Let_def)
  then show ?thesis
    by (auto simp: venter_inject_def Let_def split_beta intro!: w)
qed

lemma inject_windows:
  assumes "venter_inject x = (ev, x')"
  shows "vd_nmi_pending (v_delivery x') \<Longrightarrow> vd_nmi_window_exit (v_delivery x')"
    and "deliverable x \<Longrightarrow> ev \<noteq> bmp256_fls (v_pending_external_interrupts x) \<or> vd_nmi_pending (v_delivery x) \<or> vq_idt_vectoring (v_queue x) \<Longrightarrow>
       vd_nmi_window_exit (v_delivery x') \<or> vd_int_window_exit (v_delivery x')"
proof -
  have d: "deliverable x \<longleftrightarrow> (0 \<le> bmp256_fls (v_pending_external_interrupts x) \<and>
       vector_to_intl (word_of_int (bmp256_fls (v_pending_external_interrupts x))) > fls32 (ucast (vd_in_intl (v_delivery x))) \<and>
       vector_to_intl (word_of_int (bmp256_fls (v_pending_external_interrupts x))) \<ge> uint (vd_intl (v_delivery x)))"
    by (simp add: deliverable_def Let_def)
  show "vd_nmi_window_exit (v_delivery x')" if "vd_nmi_pending (v_delivery x')"
    using assms that by (cases "deliverable x") (auto simp: inject_defs d [symmetric] split: if_splits)
  show "vd_nmi_window_exit (v_delivery x') \<or> vd_int_window_exit (v_delivery x')"
    if "deliverable x" "ev \<noteq> bmp256_fls (v_pending_external_interrupts x) \<or> vd_nmi_pending (v_delivery x) \<or> vq_idt_vectoring (v_queue x)"
    using assms that by (auto simp: inject_defs d [symmetric] split: if_splits)
qed

text \<open>C24: An entry loses no interrupt: a pending one is injected or stays pending, and one that
  could be delivered but is not injected leaves a window exit requested in the control word of
  the processor.\<close>

theorem venter_no_lost_interrupt:
  assumes "windows_ok x" and "venter_inject x = (ev, x')"
  shows "(vd_nmi_pending (v_delivery x) \<longrightarrow> venter_event x = NMI_EVENT \<or>
       vd_nmi_pending (v_delivery x') \<and> vm_nmi_window_exiting (v_vmcs x')) \<and>
     (\<forall>v. bmp256_test (v_pending_external_interrupts x) v \<longrightarrow>
       venter_event x = EXTERNAL v \<or> bmp256_test (v_pending_external_interrupts x') v) \<and>
     (deliverable x \<longrightarrow> (\<exists>v. venter_event x = EXTERNAL v) \<or>
       vm_nmi_window_exiting (v_vmcs x') \<or> vm_interrupt_window_exiting (v_vmcs x'))"
proof -
  have w: "vm_nmi_window_exiting (v_vmcs x') = vd_nmi_window_exit (v_delivery x')"
      "vm_interrupt_window_exiting (v_vmcs x') = vd_int_window_exit (v_delivery x')"
    using windows_ok_inject [OF assms(1)] assms(2) by (simp_all add: windows_ok_def)
  have e: "event_effect (venter_event x) x (ev, x')" using event_effect_inject [of x] assms(2) by simp
  have n: "vd_nmi_pending (v_delivery x')" if "vd_nmi_pending (v_delivery x)" "venter_event x \<noteq> NMI_EVENT"
    using e that by (auto simp: event_effect_def Let_def split: vevent.splits)
  have p: "venter_event x = EXTERNAL v \<or> bmp256_test (v_pending_external_interrupts x') v"
    if "bmp256_test (v_pending_external_interrupts x) v" for v
    using e that by (auto simp: event_effect_def Let_def split: vevent.splits)
  have "\<exists>v. venter_event x = EXTERNAL v" if "deliverable x" "ev = bmp256_fls (v_pending_external_interrupts x)"
      "\<not> vd_nmi_pending (v_delivery x)" "\<not> vq_idt_vectoring (v_queue x)"
    using e that by (auto simp: venter_event_def event_effect_def Let_def deliverable_def split: if_splits)
  then show ?thesis using n p inject_windows [OF assms(2)] w by auto
qed

lemma venter_priority_core:
  assumes "venter_event x = EXTERNAL v" and "venter_inject x = (ev, x')"
  shows "(\<forall>w. bmp256_test (v_pending_external_interrupts x) w \<longrightarrow> w \<le> v) \<and>
     (\<forall>i. bit (vd_in_intl (v_delivery x)) i \<longrightarrow> int i < vector_to_intl v) \<and>
     uint (vd_intl (v_delivery x)) \<le> vector_to_intl v \<and>
     fls32 (ucast (vd_in_intl (v_delivery x'))) = vector_to_intl v"
proof -
  have d: "deliverable x" and v: "v = word_of_int (bmp256_fls (v_pending_external_interrupts x))"
    using assms(1) by (auto simp: venter_event_def Let_def split: if_splits)
  obtain v' where v': "bmp256_fls (v_pending_external_interrupts x) = uint v'"
    "\<And>w. bmp256_test (v_pending_external_interrupts x) w \<Longrightarrow> w \<le> v'"
    "vector_to_intl v' > fls32 (ucast (vd_in_intl (v_delivery x)))" "vector_to_intl v' \<ge> uint (vd_intl (v_delivery x))"
    using deliverable_top [OF d] by metis
  have vv: "v' = v" using v v'(1) by simp
  let ?n = "nat (vector_to_intl v)"
  have n: "?n < 16" "int ?n = vector_to_intl v" using vector_to_intl_range [of v] by simp_all
  have il: "vd_in_intl (v_delivery x') = or (vd_in_intl (v_delivery x)) (push_bit ?n 1)"
    using event_effect_inject [of x] assms by (simp add: event_effect_def Let_def)
  have "int i < vector_to_intl v" if "bit (vd_in_intl (v_delivery x)) i" for i
  proof (rule ccontr)
    assume "\<not> ?thesis"
    then have "fls32 (ucast (vd_in_intl (v_delivery x)) :: u32) < int i" using v'(3) vv by simp
    from fls32_less_bit [OF this] show False
      using that bit_imp_le_length [OF that] by (simp add: bit_simps)
  qed
  moreover have "fls32 (ucast (vd_in_intl (v_delivery x'))) = vector_to_intl v"
    unfolding il using raised_level(1) [OF n(1)] v'(3) vv n(2) by simp
  ultimately show ?thesis using v'(2,4) vv by blast
qed

text \<open>An injected external vector is the highest pending one, its level is above every level
  in service and not below the level of the guest, and it becomes the highest level in
  service.\<close>

theorem venter_priority:
  assumes "venter_event x = EXTERNAL v" and "venter_inject x = (ev, x')"
  shows "(\<forall>w. bmp256_test (v_pending_external_interrupts x) w \<longrightarrow> w \<le> v) \<and>
     (\<forall>i. bit (vd_in_intl (v_delivery x)) i \<longrightarrow> int i < vector_to_intl v) \<and>
     uint (vd_intl (v_delivery x)) \<le> vector_to_intl v \<and>
     fls32 (ucast (vd_in_intl (v_delivery x'))) = vector_to_intl v"
  using venter_priority_core [OF assms] .

lemma injected_level_blocks:
  assumes "venter_event x = EXTERNAL v" and "venter_inject x = (ev, x')"
    and "\<And>w. bmp256_test (v_pending_external_interrupts y) w \<longleftrightarrow> bmp256_test (v_pending_external_interrupts x) w"
    and "vd_in_intl (v_delivery y) = vd_in_intl (v_delivery x')"
  shows "\<not> deliverable y"
proof
  assume "deliverable y"
  then obtain w where w: "bmp256_test (v_pending_external_interrupts y) w"
     "vector_to_intl w > fls32 (ucast (vd_in_intl (v_delivery y)))"
    by (rule deliverable_top) blast
  have "w \<le> v" "fls32 (ucast (vd_in_intl (v_delivery x'))) = vector_to_intl v"
    using venter_priority_core [OF assms(1,2)] w(1) assms(3) by blast+
  then show False using w(2) assms(4) vector_to_intl_mono [of w v] by simp
qed

text \<open>C25: An external interrupt whose delivery an exit cut short is queued again while its level stays in service. From then on, no entry
  injects it as long as its level is in service, whatever other interrupts are pending and whatever else has changed, and an entry keeps
  it pending and its level in service: it is delivered only after the guest has acknowledged an interrupt of that level, which it has
  not received.\<close>

theorem requeued_interrupt_stuck:
  assumes "venter_event x = EXTERNAL v" and "venter_inject x = (ev, x')" and "v \<noteq> NMI" and "tw_vcpu k c = x'"
    and "k' = vqueue_idt_vectoring_info
      \<lparr>ve_vector = v, ve_type = INTERRUPT_TYPE_EXTERNAL, ve_errcode_delivered = False, ve_valid = True\<rparr> c k"
  shows "bmp256_test (v_pending_external_interrupts (tw_vcpu k' c)) v \<and>
     bit (vd_in_intl (v_delivery (tw_vcpu k' c))) (nat (vector_to_intl v)) \<and>
     (\<forall>y ev' y'. bmp256_test (v_pending_external_interrupts y) v \<and> bit (vd_in_intl (v_delivery y)) (nat (vector_to_intl v)) \<and>
        venter_inject y = (ev', y') \<longrightarrow>
        venter_event y \<noteq> EXTERNAL v \<and> bmp256_test (v_pending_external_interrupts y') v \<and>
        bit (vd_in_intl (v_delivery y')) (nat (vector_to_intl v)))"
proof (intro conjI allI impI)
  let ?n = "nat (vector_to_intl v)"
  have n: "?n < 16" "int ?n = vector_to_intl v" using vector_to_intl_range [of v] by simp_all
  have e: "vd_in_intl (v_delivery x') = or (vd_in_intl (v_delivery x)) (push_bit ?n 1)"
    using event_effect_inject [of x] assms(1,2) by (simp add: event_effect_def Let_def)
  have q: "v_pending_external_interrupts (tw_vcpu k' c) = bmp256_set (v_pending_external_interrupts x') v"
    "vd_in_intl (v_delivery (tw_vcpu k' c)) = vd_in_intl (v_delivery x')"
    using assms(3-5) by (auto simp: vqueue_idt_vectoring_info_def vemu_set_interrupt_pending_def vemu_do_set_interrupt_pending_def)
  show "bmp256_test (v_pending_external_interrupts (tw_vcpu k' c)) v" by (simp add: q)
  show "bit (vd_in_intl (v_delivery (tw_vcpu k' c))) ?n" using n by (simp add: q e bit_simps)
  fix y ev' y'
  assume y: "bmp256_test (v_pending_external_interrupts y) v \<and> bit (vd_in_intl (v_delivery y)) ?n \<and> venter_inject y = (ev', y')"
  show ne: "venter_event y \<noteq> EXTERNAL v"
  proof
    assume "venter_event y = EXTERNAL v"
    from venter_priority_core [OF this, of ev' y'] y have "\<forall>i. bit (vd_in_intl (v_delivery y)) i \<longrightarrow> int i < vector_to_intl v" by simp
    then have "int ?n < vector_to_intl v" using y by blast
    then show False using n(2) by simp
  qed
  show "bmp256_test (v_pending_external_interrupts y') v" "bit (vd_in_intl (v_delivery y')) ?n"
    using event_effect_inject [of y] y ne by (auto simp: event_effect_def Let_def bit_simps split: vevent.splits)
qed

section \<open>Entering\<close>

lemma venter_requeue_simps [simp]:
  "tw_vcpu (venter_requeue this c ev k) = tw_vcpu k" "vcurrent_vcpu (venter_requeue this c ev k) = vcurrent_vcpu k"
  by (simp_all add: venter_requeue_def Let_def)

text \<open>What the injection leaves alone.\<close>

definition sched_view :: "vcpu \<Rightarrow> _" where
  "sched_view x = (v_state x, v_tlb_flush_pending x, v_preempted x, v_rearm x)"

lemma sched_view_step [simp]:
  "sched_view (voperations x) = sched_view x"
  "sched_view (snd (vinject_vectoring q x)) = sched_view x"
  "sched_view (snd (snd (vinject_nmi s x))) = sched_view x"
  "sched_view (snd (snd (vinject_pending s e x))) = sched_view x"
  "sched_view (vinject_windows s x) = sched_view x"
  by (simp_all add: sched_view_def voperations_def vinject_vectoring_def vinject_nmi_def vinject_pending_def
      vinject_windows_def Let_def)

lemma sched_view_inject: "sched_view (snd (venter_inject x)) = sched_view x"
  by (simp add: venter_inject_def split_beta)

lemma venter_inject_keeps:
  "v_state (snd (venter_inject x)) = v_state x" "v_tlb_flush_pending (snd (venter_inject x)) = v_tlb_flush_pending x"
  "v_preempted (snd (venter_inject x)) = v_preempted x" "v_rearm (snd (venter_inject x)) = v_rearm x"
  using sched_view_inject [of x] by (simp_all add: sched_view_def)

text \<open>A guest is never entered with the terminate flag set; otherwise the entry makes the
  virtual CPU running, flushes the TLB exactly when a flush was requested and the tag is
  enabled, and touches no other virtual CPU.\<close>

theorem venter_spec:
  assumes "vcurrent_vcpu k this = Some c" and "v_preempted (tw_vcpu k c) \<longrightarrow> vmptrld (va_vmcs_phys (v_arch (tw_vcpu k c)))"
  shows "(v_terminate (tw_vcpu k c) \<longrightarrow> (\<forall>t k'. venter cfg call vmptrld this k \<noteq> Some (VENTERED t, k'))) \<and>
     (\<not> v_terminate (tw_vcpu k c) \<longrightarrow>
       (\<exists>k'. venter cfg call vmptrld this k =
           Some (VENTERED (if v_tlb_flush_pending (tw_vcpu k c) \<and> v_vpid_enabled (tw_vcpu k c)
                           then Some (v_vpid (tw_vcpu k c)) else None), k') \<and>
         v_state (tw_vcpu k' c) = VRUNNING \<and> \<not> v_tlb_flush_pending (tw_vcpu k' c) \<and> \<not> v_preempted (tw_vcpu k' c) \<and>
         vcurrent_vcpu k' = vcurrent_vcpu k \<and> (\<forall>w. w \<noteq> c \<longrightarrow> tw_vcpu k' w = tw_vcpu k w)))"
  using assms by (auto simp: venter_def Let_def split_beta venter_inject_keeps)

section \<open>Applications\<close>

text \<open>A virtual CPU with vector 40 pending, ready to take it.\<close>

definition vcpu_40 :: vcpu where
  "vcpu_40 = zero_vcpu\<lparr>v_pending_external_interrupts := bmp256_set zero_bmp 40\<rparr>"

lemma vcpu_40_facts:
  "windows_ok vcpu_40" "bmp256_fls (v_pending_external_interrupts vcpu_40) = 40" "deliverable vcpu_40"
  "venter_event vcpu_40 = EXTERNAL 40"
proof -
  show w: "windows_ok vcpu_40" by (simp add: windows_ok_def vcpu_40_def zero_vcpu_def zero_vmcs_def)
  show f: "bmp256_fls (v_pending_external_interrupts vcpu_40) = 40"
    by (cases rule: top_vector_cases [of "v_pending_external_interrupts vcpu_40"]) (auto simp: vcpu_40_def)
  show d: "deliverable vcpu_40"
    by (simp add: deliverable_def f vector_to_intl_def) (simp add: vcpu_40_def zero_vcpu_def)
  show "venter_event vcpu_40 = EXTERNAL 40"
    using d f
    by (simp add: venter_event_def Let_def voperations_def vcpu_40_def zero_vcpu_def zero_queue_def zero_vmcs_def
        vis_in_nmi_def vis_external_interrupts_blocked_def)
qed

theorem venter_no_lost_interrupt_witness:
  "deliverable vcpu_40 \<and> (\<exists>v. venter_event vcpu_40 = EXTERNAL v)"
proof -
  obtain ev x' where e: "venter_inject vcpu_40 = (ev, x')" by fastforce
  show ?thesis using venter_no_lost_interrupt [OF vcpu_40_facts(1) e] vcpu_40_facts by blast
qed

theorem venter_priority_witness:
  "\<exists>ev x'. venter_inject vcpu_40 = (ev, x') \<and> fls32 (ucast (vd_in_intl (v_delivery x'))) = vector_to_intl 40"
proof -
  obtain ev x' where e: "venter_inject vcpu_40 = (ev, x')" by fastforce
  show ?thesis using venter_priority [OF vcpu_40_facts(4) e] e by blast
qed

theorem requeued_interrupt_stuck_witness:
  "\<exists>y. bmp256_test (v_pending_external_interrupts y) 40 \<and> venter_event y \<noteq> EXTERNAL 40"
proof -
  obtain ev x' where e: "venter_inject vcpu_40 = (ev, x')" by fastforce
  define k where "k = upd_vcpu 10 (\<lambda>_. x') two_partitions"
  define y where "y = tw_vcpu (vqueue_idt_vectoring_info
      \<lparr>ve_vector = 40, ve_type = INTERRUPT_TYPE_EXTERNAL, ve_errcode_delivered = False, ve_valid = True\<rparr> 10 k) 10"
  obtain ev' y' where e': "venter_inject y = (ev', y')" by fastforce
  have "tw_vcpu k 10 = x'" by (simp add: k_def)
  note stuck = requeued_interrupt_stuck [OF vcpu_40_facts(4) e _ this refl, folded y_def]
  have "(40 :: u8) \<noteq> NMI" by (simp add: NMI_def)
  note stuck = stuck [OF this]
  have "bmp256_test (v_pending_external_interrupts y) 40" using stuck by (rule conjunct1)
  moreover have "venter_event y \<noteq> EXTERNAL 40" using stuck e' by blast
  ultimately show ?thesis by blast
qed

theorem venter_spec_witness:
  "\<exists>k'. venter mcfs_config (\<lambda>_ _ k. k) (\<lambda>_. True) 1 vrunning_10 = Some (VENTERED None, k') \<and> v_state (tw_vcpu k' 10) = VRUNNING"
proof -
  have "\<not> v_tlb_flush_pending (tw_vcpu vrunning_10 10)" by (simp add: vrunning_10_def framed_defs)
  then show ?thesis
    using venter_spec [OF vrunning_10_facts(1), of "\<lambda>_. True" mcfs_config "\<lambda>_ _ k. k"] vrunning_10_facts(4) by auto
qed

end
