(* ===== verification/Twan_Vcreate.thy ===== *)
theory Twan_Vcreate
  imports Twan_Venter
begin

text \<open>
  Creating partitions: the checks, the initialisation and the registration of \<open>vportal/vcreate.c\<close>.
  The addresses of \<^verbatim>\<open>vcpu_entry\<close> and of the end of the exit stack of a virtual CPU are parameters.
  \<^verbatim>\<open>vcpu_entry\<close> itself only writes the VMCS and is not modelled. Shown: the checks accept exactly the partitions
  that meet the conditions of the code; an accepted partition starts with no interrupt, timer or operation
  pending, no queue membership and no route but that of the root; the flag that makes a virtual CPU
  privileged is neither checked nor reset.
\<close>

section \<open>Definitions: checks\<close>

definition vis_vboot_state_valid :: "vconfig \<Rightarrow> vcpu_vboot_state \<Rightarrow> bool" where
  "vis_vboot_state_valid cfg state \<longleftrightarrow>
     (if vcf_strict cfg then state = VBOOT_READY else state = VBOOT_READY \<or> state = VBOOT_PAUSED)"

definition vcpu_precheck :: "vconfig \<Rightarrow> vcpu_ptr \<Rightarrow> vtwan \<Rightarrow> int" where
  "vcpu_precheck cfg v k =
     (let x = tw_vcpu k v; vprocessor_id = vcpu_cpu k v
      in if vprocessor_id \<ge> tw_num_cpus k then - EINVAL
         else
           let target = tw_cpu k vprocessor_id; a = v_arch x; msr_area_max = vc_msr_area_max target;
               available = vc_available_vectors target; allowed = v_allowed_external_vectors x
           in if \<not> vc_unrestricted_guest target \<or> \<not> vc_ept target then - EOPNOTSUPP
              else if v_vpid_enabled x \<and> (\<not> vc_vpid target \<or> \<not> vc_invvpid_single target) then - EOPNOTSUPP
              else if v_vpid_enabled x \<and> v_vpid x = 0 then - EINVAL
              else if v_ept_ve x \<and> \<not> vc_ept_ve target then - EOPNOTSUPP
              else if drop_bit 16 (v_vlaunch_rip x) \<noteq> 0 then - EINVAL
              else if v_terminate x then - EINVAL
              else if unat (v_criticality x) > VSCHED_MAX_CRITICALITY cfg then - EINVAL
              else if v_preemption_count x > 0 then - EINVAL
              else if \<not> vis_vboot_state_valid cfg (v_vboot_state x) then - EINVAL
              else if and (va_io_bitmap_a_phys a) 0xfff \<noteq> 0 then - EINVAL
              else if and (va_io_bitmap_b_phys a) 0xfff \<noteq> 0 then - EINVAL
              else if and (va_msr_bitmap_phys a) 0xfff \<noteq> 0 then - EINVAL
              else if and (va_vmcs_phys a) 0xfff \<noteq> 0 then - EINVAL
              else if and (va_ve_info_area_phys a) 0xfff \<noteq> 0 then - EINVAL
              else if va_vexit_load_count a \<noteq> 0 \<and>
                (and (va_vexit_msr_load_area_phys a) 0xf \<noteq> 0 \<or> va_vexit_load_count a > msr_area_max) then - EINVAL
              else if va_msr_load_save_count a \<noteq> 0 \<and>
                (and (va_msr_load_save_area_phys a) 0xf \<noteq> 0 \<or> va_msr_load_save_count a > msr_area_max) then - EINVAL
              else if bmp256_ffs (v_subscribed_vectors x) \<noteq> -1 then - EINVAL
              else if and (not (bmp available 0)) (bmp allowed 0) \<noteq> 0 \<or> and (not (bmp available 1)) (bmp allowed 1) \<noteq> 0 \<or>
                and (not (bmp available 2)) (bmp allowed 2) \<noteq> 0 \<or> and (not (bmp available 3)) (bmp allowed 3) \<noteq> 0
              then - EINVAL
              else 0)"

text \<open>The first error of a loop over virtual CPUs; their addresses are not null.\<close>

fun vcpus_precheck :: "vconfig \<Rightarrow> vcpu_ptr list \<Rightarrow> vtwan \<Rightarrow> int" where
  "vcpus_precheck cfg [] k = 0"
| "vcpus_precheck cfg (v # vs) k =
     (let err = vcpu_precheck cfg v k in if err < 0 then err else vcpus_precheck cfg vs k)"

definition vpartition_vcpus :: "vpartition \<Rightarrow> vcpu_ptr list" where
  "vpartition_vcpus p = map (\<lambda>i. vpartition_vcpu p (of_nat i)) [0..<unat (vp_vcpu_count p)]"

definition vpartition_precheck :: "vconfig \<Rightarrow> vpartition_ptr option \<Rightarrow> vtwan \<Rightarrow> int" where
  "vpartition_precheck cfg vpartition k =
     (case vpartition of
        None \<Rightarrow> - EINVAL
      | Some ptr \<Rightarrow>
          let p = vpart k ptr
          in if \<not> vp_ept_enabled p then - EOPNOTSUPP
             else if vp_root p then - EINVAL
             else if vp_ept_caching_policy p = 2 \<or> vp_ept_caching_policy p = 3 \<or> vp_ept_caching_policy p \<ge> 7 then - EINVAL
             else if vp_num_terminated p \<noteq> 0 then - EINVAL
             else if vp_term_processor_id p \<ge> tw_root_num_vcpus k then - EINVAL
             else if vp_term_nmi p \<and> vp_term_vector p \<noteq> NMI then - EINVAL
             else if list_ex (\<lambda>i. let perm = vp_criticality_perms p (of_nat i)
                    in vp_write perm \<and> unat (vp_max_criticality_writeable perm) > VSCHED_MAX_CRITICALITY cfg)
                  [0..<vcf_num_cpus cfg] then - EINVAL
             else if vp_vcpu_count p = 0 then - EINVAL
             else let err = vcpus_precheck cfg (vpartition_vcpus p) k
                  in if err < 0 then err
                     else if bmp256_ffs (vp_ipi_receivers p) \<noteq> -1 \<or> bmp256_ffs (vp_ipi_senders p) \<noteq> -1 \<or>
                       bmp256_ffs (vp_tlb_shootdown_receivers p) \<noteq> -1 \<or> bmp256_ffs (vp_tlb_shootdown_senders p) \<noteq> -1 \<or>
                       bmp256_ffs (vp_read_vcpu_state_receivers p) \<noteq> -1 \<or> bmp256_ffs (vp_read_vcpu_state_senders p) \<noteq> -1 \<or>
                       bmp256_ffs (vp_pv_spin_kick_receivers p) \<noteq> -1 \<or> bmp256_ffs (vp_pv_spin_kick_senders p) \<noteq> -1
                     then - EINVAL else 0)"

section \<open>Definitions: initialisation\<close>

record vcreate_addresses =
  ca_vcpu_entry :: u64
  ca_vexit_stack_end :: "vcpu_ptr \<Rightarrow> u64"

definition zero_vtimer :: vtimer where
  "zero_vtimer = \<lparr>vt_vector = 0, vt_periodic = False, vt_armed = False, vt_nmi = False, vt_ticks = 0\<rparr>"

abbreviation zero_node :: "'n list_double" where
  "zero_node \<equiv> \<lparr>ld_next = None, ld_prev = None\<rparr>"

definition clear_timers :: "vconfig \<Rightarrow> (u8 \<Rightarrow> 'a) \<Rightarrow> 'a \<Rightarrow> u8 \<Rightarrow> 'a" where
  "clear_timers cfg f z = (\<lambda>n. if unat n < vcf_num_vtimers cfg then z else f n)"

text \<open>The fields of the virtual CPU that \<^verbatim>\<open>vcpu_setup\<close> assigns; the memset of the timers also clears their delta
  nodes.\<close>

definition vcpu_init :: "vconfig \<Rightarrow> vcreate_addresses \<Rightarrow> u32 \<Rightarrow> vpartition_ptr \<Rightarrow> vpartition \<Rightarrow> vcpu_ptr \<Rightarrow> u32 \<Rightarrow> vcpu \<Rightarrow> vcpu" where
  "vcpu_init cfg ad mxcsr_mask ptr p v processor_id x =
     (let stack = ca_vexit_stack_end ad v;
          chain = v_timer_chain x
      in x\<lparr>v_tlb_flush_pending := False, v_current_time_slice_ticks := 0, v_rearm := False, v_state := VINITIALIZING,
           v_pv_spin_state := VSPIN_NONE, v_preempted := False, v_yield_request := False,
           v_processor_id := processor_id, v_vid := ucast (vp_vid p), v_vpartition_num_cpus := vp_vcpu_count p,
           v_vpartition := ptr, v_timers := clear_timers cfg (v_timers x) zero_vtimer,
           v_timer_chain := chain\<lparr>dc_mem := clear_timers cfg (dc_mem chain) zero_node, dc_delta := clear_timers cfg (dc_delta chain) 0,
             dc_dq := empty_dq\<rparr>,
           v_delivery := \<lparr>vd_in_intl = 0, vd_nmi_pending = False, vd_intl = 0, vd_int_window_exit = False,
             vd_nmi_window_exit = False\<rparr>,
           v_pending_external_interrupts := bmp256_unset_all (v_pending_external_interrupts x),
           v_queue := (v_queue x)\<lparr>vq_vmwrite_cr4 := False, vq_vmwrite_cr0 := False, vq_should_advance := False,
             vq_idt_vectoring := False, vq_use_synth_errcode := False\<rparr>,
           v_context := (v_context x)\<lparr>cx_rip := ca_vcpu_entry ad, cx_rsp := stack, cx_rbp := stack, cx_rflags := 2,
             cx_fp_context := (cx_fp_context (v_context x))\<lparr>fx_fcw := DEFAULT_FCW, fx_mxcsr := DEFAULT_MXCSR,
               fx_mxcsr_mask := mxcsr_mask\<rparr>\<rparr>\<rparr>)"

definition vcpu_setup :: "vconfig \<Rightarrow> vcreate_addresses \<Rightarrow> u32 \<Rightarrow> vpartition_ptr \<Rightarrow> vcpu_ptr \<Rightarrow> u32 \<Rightarrow> vtwan \<Rightarrow> vtwan" where
  "vcpu_setup cfg ad this ptr v processor_id k =
     (upd_vcpu v (vcpu_init cfg ad (vc_mxcsr_mask (tw_cpu k this)) ptr (vpart k ptr) v processor_id) k)
       \<lparr>tw_node := (\<lambda>n. if fst n = v \<and> snd n < vcf_num_criticalities cfg then zero_node else tw_node k n),
        tw_dispatch_node := (\<lambda>n. if fst n = v then zero_node else tw_dispatch_node k n),
        tw_ipi_node := (\<lambda>n. if fst n = v \<and> unat (snd n) < vcf_num_cpus cfg then zero_node else tw_ipi_node k n)\<rparr>"

definition vadd_root_sender :: "u8 \<Rightarrow> vpartition \<Rightarrow> vpartition" where
  "vadd_root_sender root_vid p =
     upd_senders VPV_SPIN_KICK_ROUTE (\<lambda>m. bmp256_set m root_vid)
       (upd_senders VREAD_VCPU_STATE_ROUTE (\<lambda>m. bmp256_set m root_vid)
         (upd_senders VTLB_SHOOTDOWN_ROUTE (\<lambda>m. bmp256_set m root_vid)
           (upd_senders VIPI_ROUTE (\<lambda>m. bmp256_set m root_vid) p)))"

definition vpartition_setup :: "vconfig \<Rightarrow> vcreate_addresses \<Rightarrow> u32 \<Rightarrow> vpartition_ptr \<Rightarrow> u8 \<Rightarrow> vtwan \<Rightarrow> vtwan" where
  "vpartition_setup cfg ad this ptr vid k =
     (let k = upd_partition ptr (\<lambda>p. vadd_root_sender (tw_root_vid k) (p\<lparr>vp_vid := vid\<rparr>)) k
      in fold (\<lambda>i. vcpu_setup cfg ad this ptr (vpartition_vcpu (vpart k ptr) (of_nat i)) (of_nat i))
           [0..<unat (vp_vcpu_count (vpart k ptr))] k)"

section \<open>Definitions: registration\<close>

text \<open>The context is not used, since \<^verbatim>\<open>put_ctx\<close> is false.\<close>

definition vcpu_push :: "vconfig \<Rightarrow> u32 \<Rightarrow> vcpu_ptr \<Rightarrow> vtwan \<Rightarrow> vtwan option" where
  "vcpu_push cfg this v k =
     (let ctx = vc_vcpu_ctx (tw_cpu k this)
      in case v_vboot_state (tw_vcpu k v) of
           VBOOT_READY \<Rightarrow> vsched_put cfg this v False ctx k
         | VBOOT_PAUSED \<Rightarrow> map_option snd (vsched_put_paused cfg this v False False ctx k)
         | VBOOT_NONE \<Rightarrow> Some k)"

fun vcpus_push :: "vconfig \<Rightarrow> u32 \<Rightarrow> vcpu_ptr list \<Rightarrow> vtwan \<Rightarrow> vtwan option" where
  "vcpus_push cfg this [] k = Some k"
| "vcpus_push cfg this (v # vs) k = Option.bind (vcpu_push cfg this v k) (vcpus_push cfg this vs)"

definition vpartition_push :: "vconfig \<Rightarrow> u32 \<Rightarrow> vpartition_ptr \<Rightarrow> vtwan \<Rightarrow> vtwan option" where
  "vpartition_push cfg this ptr k =
     (let k = vpartition_place ptr (vp_vid (vpart k ptr)) k
      in vcpus_push cfg this (vpartition_vcpus (vpart k ptr)) k)"

section \<open>Setting up\<close>

lemma vcpu_setup_simps [simp]:
  "tw_vcpu (vcpu_setup cfg ad this ptr v i k) =
     (tw_vcpu k)(v := vcpu_init cfg ad (vc_mxcsr_mask (tw_cpu k this)) ptr (vpart k ptr) v i (tw_vcpu k v))"
  "tw_partition (vcpu_setup cfg ad this ptr v i k) = tw_partition k" "tw_table (vcpu_setup cfg ad this ptr v i k) = tw_table k"
  "tw_cpu (vcpu_setup cfg ad this ptr v i k) = tw_cpu k" "tw_vids (vcpu_setup cfg ad this ptr v i k) = tw_vids k"
  "tw_num_cpus (vcpu_setup cfg ad this ptr v i k) = tw_num_cpus k" "tw_root_vid (vcpu_setup cfg ad this ptr v i k) = tw_root_vid k"
  by (simp_all add: vcpu_setup_def)

lemma fold_setup_keeps:
  "tw_partition (fold (\<lambda>i. vcpu_setup cfg ad this ptr (f i) (g i)) js k) = tw_partition k"
  "tw_table (fold (\<lambda>i. vcpu_setup cfg ad this ptr (f i) (g i)) js k) = tw_table k"
  "tw_cpu (fold (\<lambda>i. vcpu_setup cfg ad this ptr (f i) (g i)) js k) = tw_cpu k"
  "tw_vids (fold (\<lambda>i. vcpu_setup cfg ad this ptr (f i) (g i)) js k) = tw_vids k"
  "tw_num_cpus (fold (\<lambda>i. vcpu_setup cfg ad this ptr (f i) (g i)) js k) = tw_num_cpus k"
  "tw_root_vid (fold (\<lambda>i. vcpu_setup cfg ad this ptr (f i) (g i)) js k) = tw_root_vid k"
  by (induction js arbitrary: k) simp_all

lemma fold_setup_vcpu:
  assumes "distinct js" and "inj_on f (set js)"
  shows "tw_vcpu (fold (\<lambda>i. vcpu_setup cfg ad this ptr (f i) (g i)) js k) w =
     (if \<exists>i \<in> set js. f i = w
      then vcpu_init cfg ad (vc_mxcsr_mask (tw_cpu k this)) ptr (vpart k ptr) w (g (the_inv_into (set js) f w)) (tw_vcpu k w)
      else tw_vcpu k w)"
  using assms
proof (induction js arbitrary: k)
  case (Cons j js)
  have inj: "inj_on f (set js)" "\<And>i. i \<in> set js \<Longrightarrow> f i \<noteq> f j"
    using Cons.prems by (auto simp: inj_on_def)
  have e: "the_inv_into (set (j # js)) f (f i) = i" if "i \<in> set (j # js)" for i
    using that Cons.prems(2) by (rule the_inv_into_f_f [rotated])
  have e': "the_inv_into (set js) f (f i) = i" if "i \<in> set js" for i
    using that inj(1) by (rule the_inv_into_f_f [rotated])
  show ?case
    using Cons.IH [of "vcpu_setup cfg ad this ptr (f j) (g j) k"] Cons.prems inj e e' by (auto simp: fun_upd_def)
qed simp

lemma unat_lt2p': "unat (w :: 'a::len word) < 2 ^ LENGTH('a)"
  by (rule unsigned_less)

lemma vpartition_vcpu_inj: "inj_on (\<lambda>i. vpartition_vcpu p (of_nat i)) {0..<unat (vp_vcpu_count p)}"
proof (rule inj_onI)
  fix i j
  assume ij: "i \<in> {0..<unat (vp_vcpu_count p)}" "j \<in> {0..<unat (vp_vcpu_count p)}"
    and e: "vpartition_vcpu p (of_nat i) = vpartition_vcpu p (of_nat j)"
  have "unat (of_nat n :: u32) = n" if "n < unat (vp_vcpu_count p)" for n
    using that unat_lt2p' [of "vp_vcpu_count p"] by (simp add: unsigned_of_nat take_bit_nat_eq_self)
  then show "i = j" using ij e by (simp add: vpartition_vcpu_def)
qed

text \<open>A virtual CPU as it is when nothing has happened to it yet.\<close>

definition vcpu_fresh :: "vconfig \<Rightarrow> vcreate_addresses \<Rightarrow> vpartition_ptr \<Rightarrow> u8 \<Rightarrow> vcpu_ptr \<Rightarrow> vtwan \<Rightarrow> bool" where
  "vcpu_fresh cfg ad ptr vid v k \<longleftrightarrow> (let x = tw_vcpu k v in
     v_state x = VINITIALIZING \<and> v_pv_spin_state x = VSPIN_NONE \<and> \<not> v_yield_request x \<and> \<not> v_rearm x \<and>
     \<not> v_tlb_flush_pending x \<and> v_vid x = ucast vid \<and> v_vpartition x = ptr \<and>
     (\<forall>n. unat n < vcf_num_vtimers cfg \<longrightarrow> \<not> vt_armed (v_timers x n)) \<and> dq_is_empty (dc_dq (v_timer_chain x)) \<and>
     \<not> vd_nmi_pending (v_delivery x) \<and> (\<forall>i. \<not> bit (vd_in_intl (v_delivery x)) i) \<and>
     (\<forall>vec. \<not> bmp256_test (v_pending_external_interrupts x) vec) \<and> \<not> vq_idt_vectoring (v_queue x) \<and>
     cx_rip (v_context x) = ca_vcpu_entry ad \<and> cx_rsp (v_context x) = ca_vexit_stack_end ad v)"

lemma vcpu_init_fresh:
  "tw_vcpu k v = vcpu_init cfg ad m ptr p v i x \<Longrightarrow> vp_vid p = vid \<Longrightarrow> vcpu_fresh cfg ad ptr vid v k"
  by (simp add: vcpu_fresh_def vcpu_init_def Let_def clear_timers_def zero_vtimer_def empty_dq_def dq_is_empty_def)

lemma vadd_root_sender_simps [simp]:
  "vp_vid (vadd_root_sender r p) = vp_vid p" "vp_vcpus (vadd_root_sender r p) = vp_vcpus p"
  "vp_vcpu_count (vadd_root_sender r p) = vp_vcpu_count p" "receivers_of t (vadd_root_sender r p) = receivers_of t p"
  "bmp256_test (senders_of t (vadd_root_sender r p)) v \<longleftrightarrow> v = r \<or> bmp256_test (senders_of t p) v"
  "vp_criticality_perms (vadd_root_sender r p) = vp_criticality_perms p"
  by (cases t; simp add: vadd_root_sender_def)+

lemma vpartition_setup_keeps:
  "tw_partition (vpartition_setup cfg ad this ptr vid k) =
     (tw_partition k)(ptr := vadd_root_sender (tw_root_vid k) ((vpart k ptr)\<lparr>vp_vid := vid\<rparr>))"
  "tw_table (vpartition_setup cfg ad this ptr vid k) = tw_table k" "tw_cpu (vpartition_setup cfg ad this ptr vid k) = tw_cpu k"
  "tw_vids (vpartition_setup cfg ad this ptr vid k) = tw_vids k"
  "tw_root_vid (vpartition_setup cfg ad this ptr vid k) = tw_root_vid k"
  by (simp_all add: vpartition_setup_def Let_def fold_setup_keeps)

lemma fold_setup_same:
  "v_terminate (tw_vcpu (fold (\<lambda>i. vcpu_setup cfg ad this ptr (f i) (g i)) js k) v) = v_terminate (tw_vcpu k v) \<and>
   v_vboot_state (tw_vcpu (fold (\<lambda>i. vcpu_setup cfg ad this ptr (f i) (g i)) js k) v) = v_vboot_state (tw_vcpu k v)"
  by (induction js arbitrary: k) (auto simp: vcpu_init_def Let_def)

lemma vpartition_setup_same:
  "v_terminate (tw_vcpu (vpartition_setup cfg ad this ptr vid k) v) = v_terminate (tw_vcpu k v) \<and>
   v_vboot_state (tw_vcpu (vpartition_setup cfg ad this ptr vid k) v) = v_vboot_state (tw_vcpu k v)"
  by (simp add: vpartition_setup_def Let_def fold_setup_same)

lemma vpartition_setup_vcpu:
  "w \<notin> set (vpartition_vcpus (vpart k ptr)) \<Longrightarrow> tw_vcpu (vpartition_setup cfg ad this ptr vid k) w = tw_vcpu k w"
  "w \<in> set (vpartition_vcpus (vpart k ptr)) \<Longrightarrow> vcpu_fresh cfg ad ptr vid w (vpartition_setup cfg ad this ptr vid k)"
  "w \<in> set (vpartition_vcpus (vpart k ptr)) \<Longrightarrow>
     v_root (tw_vcpu (vpartition_setup cfg ad this ptr vid k) w) = v_root (tw_vcpu k w)"
proof -
  let ?k = "upd_partition ptr (\<lambda>p. vadd_root_sender (tw_root_vid k) (p\<lparr>vp_vid := vid\<rparr>)) k"
  let ?p = "vpart ?k ptr" and ?js = "[0..<unat (vp_vcpu_count (vpart k ptr))]"
  have inj: "inj_on (\<lambda>i. vpartition_vcpu (vpart ?k ptr) (of_nat i)) (set ?js)"
    using vpartition_vcpu_inj [of ?p] by simp
  have m: "w \<in> set (vpartition_vcpus (vpart k ptr)) \<longleftrightarrow> (\<exists>i \<in> set ?js. vpartition_vcpu ?p (of_nat i) = w)"
    by (auto simp: vpartition_vcpus_def vpartition_vcpu_def)
  note f = fold_setup_vcpu [OF distinct_upt inj, where k = ?k and w = w and cfg = cfg and ad = ad and this = this and ptr = ptr and
      g = of_nat, folded m]
  show "tw_vcpu (vpartition_setup cfg ad this ptr vid k) w = tw_vcpu k w" if "w \<notin> set (vpartition_vcpus (vpart k ptr))"
    using f that by (simp add: vpartition_setup_def Let_def)
  assume w: "w \<in> set (vpartition_vcpus (vpart k ptr))"
  obtain i where i: "tw_vcpu (vpartition_setup cfg ad this ptr vid k) w =
      vcpu_init cfg ad (vc_mxcsr_mask (tw_cpu k this)) ptr ?p w i (tw_vcpu k w)"
    using f w by (simp add: vpartition_setup_def Let_def)
  show "vcpu_fresh cfg ad ptr vid w (vpartition_setup cfg ad this ptr vid k)"
    by (rule vcpu_init_fresh [OF i]) simp
  show "v_root (tw_vcpu (vpartition_setup cfg ad this ptr vid k) w) = v_root (tw_vcpu k w)"
    by (simp add: i vcpu_init_def Let_def)
qed

section \<open>Registering\<close>

text \<open>What the scheduler queues have no part in.\<close>

definition registry :: "vtwan \<Rightarrow> _" where
  "registry k = (tw_table k, tw_partition k, tw_vids k, tw_root_vid k, vcurrent_vcpu k, tw_vcpu k)"

lemma registry_on_vqueue: "registry (on_vqueue c i g k) = registry k"
  by (simp add: registry_def on_vqueue_def split_beta vcurrent_vcpu_def [abs_def] upd_vsched_def fun_eq_iff)

lemma registry_upd_vsched: "registry (upd_vsched c f k) = registry k"
  by (simp add: registry_def)

lemma registry_push: "registry (vsched_push v k) = registry k"
proof -
  have "registry (fold (\<lambda>i. on_vqueue c i (g i)) js k) = registry k" for c g js k
    by (induction js arbitrary: k) (simp_all add: registry_on_vqueue)
  then show ?thesis by (simp add: vsched_push_def Let_def registry_upd_vsched del: upt_Suc)
qed

lemma registry_push_paused: "registry (vsched_push_paused v k) = registry k"
  by (simp add: registry_def vsched_push_paused_def on_paused_queue_def split_beta vcurrent_vcpu_def [abs_def] upd_vsched_def fun_eq_iff)

text \<open>The virtual CPU as registration leaves it.\<close>

definition booted :: "vcpu \<Rightarrow> vcpu" where
  "booted x = x\<lparr>v_state := (if v_vboot_state x = VBOOT_READY then VREADY else VPAUSED), v_rearm := False,
     v_preempted := True\<rparr>"

lemma vcpu_push_ok:
  assumes "\<not> v_terminate (tw_vcpu k v)" and "vis_vboot_state_valid cfg (v_vboot_state (tw_vcpu k v))"
  shows "\<exists>k'. vcpu_push cfg this v k = Some k' \<and> registry k' = registry (upd_vcpu v booted k)"
proof (cases "v_vboot_state (tw_vcpu k v) = VBOOT_READY")
  case True
  then show ?thesis
    using assms(1)
    by (auto simp: vcpu_push_def vsched_put_def vsched_do_put_def Let_def registry_push) (simp_all add: registry_def booted_def)
next
  case False
  then have "v_vboot_state (tw_vcpu k v) = VBOOT_PAUSED" using assms(2) by (auto simp: vis_vboot_state_valid_def split: if_splits)
  then show ?thesis
    using assms(1)
    by (auto simp: vcpu_push_def vsched_put_paused_def vsched_do_put_paused_def Let_def registry_push_paused)
      (simp_all add: registry_def booted_def)
qed

lemma registryD:
  assumes "registry k' = registry k"
  shows "tw_table k' = tw_table k" "tw_partition k' = tw_partition k" "tw_vids k' = tw_vids k" "tw_root_vid k' = tw_root_vid k"
    "vcurrent_vcpu k' = vcurrent_vcpu k" "tw_vcpu k' = tw_vcpu k"
  using assms by (simp_all add: registry_def)

lemma vcpus_push_ok:
  assumes "distinct vs" and "\<And>v. v \<in> set vs \<Longrightarrow> \<not> v_terminate (tw_vcpu k v) \<and> vis_vboot_state_valid cfg (v_vboot_state (tw_vcpu k v))"
  shows "\<exists>k'. vcpus_push cfg this vs k = Some k' \<and>
     registry k' = registry (k\<lparr>tw_vcpu := (\<lambda>w. if w \<in> set vs then booted (tw_vcpu k w) else tw_vcpu k w)\<rparr>)"
  using assms
proof (induction vs arbitrary: k)
  case (Cons v vs)
  obtain k1 where k1: "vcpu_push cfg this v k = Some k1" "registry k1 = registry (upd_vcpu v booted k)"
    using vcpu_push_ok [of k v cfg this] Cons.prems(2) [of v] by auto
  have v1: "tw_vcpu k1 = (tw_vcpu k)(v := booted (tw_vcpu k v))" using registryD(6) [OF k1(2)] by simp
  have p: "\<not> v_terminate (tw_vcpu k1 w) \<and> vis_vboot_state_valid cfg (v_vboot_state (tw_vcpu k1 w))" if "w \<in> set vs" for w
    using Cons.prems(1) Cons.prems(2) [of w] that by (auto simp: v1)
  obtain k' where k': "vcpus_push cfg this vs k1 = Some k'"
     "registry k' = registry (k1\<lparr>tw_vcpu := (\<lambda>w. if w \<in> set vs then booted (tw_vcpu k1 w) else tw_vcpu k1 w)\<rparr>)"
    using Cons.IH [of k1] Cons.prems(1) p by auto
  have "(\<lambda>w. if w \<in> set vs then booted (tw_vcpu k1 w) else tw_vcpu k1 w) =
      (\<lambda>w. if w \<in> set (v # vs) then booted (tw_vcpu k w) else tw_vcpu k w)"
    using Cons.prems(1) by (auto simp: v1 fun_eq_iff)
  then have "registry k' = registry (k\<lparr>tw_vcpu := (\<lambda>w. if w \<in> set (v # vs) then booted (tw_vcpu k w) else tw_vcpu k w)\<rparr>)"
    using k'(2) registryD [OF k1(2)] by (simp add: registry_def vcurrent_vcpu_def [abs_def])
  then show ?case using k1(1) k'(1) by simp
qed (simp add: registry_def vcurrent_vcpu_def [abs_def])

lemma distinct_vpartition_vcpus: "distinct (vpartition_vcpus p)"
  using vpartition_vcpu_inj [of p] by (simp add: vpartition_vcpus_def distinct_map)

lemma vpartition_create_ok:
  assumes "\<And>v. v \<in> set (vpartition_vcpus (vpart k ptr)) \<Longrightarrow>
      \<not> v_terminate (tw_vcpu k v) \<and> vis_vboot_state_valid cfg (v_vboot_state (tw_vcpu k v))"
    and k1_def: "k1 = vpartition_setup cfg ad this ptr vid k"
  shows "\<exists>k'. vpartition_push cfg this ptr k1 = Some k' \<and> tw_table k' = (tw_table k)(vid := Some ptr) \<and>
     tw_partition k' = tw_partition k1 \<and> tw_vids k' = tw_vids k \<and> tw_root_vid k' = tw_root_vid k \<and>
     tw_vcpu k' = (\<lambda>w. if w \<in> set (vpartition_vcpus (vpart k ptr)) then booted (tw_vcpu k1 w) else tw_vcpu k w)"
proof -
  have vs: "vpartition_vcpus (vpart k1 ptr) = vpartition_vcpus (vpart k ptr)"
    by (simp add: k1_def vpartition_setup_keeps vpartition_vcpus_def vpartition_vcpu_def)
  have keep: "v_terminate (tw_vcpu k1 v) = v_terminate (tw_vcpu k v) \<and> v_vboot_state (tw_vcpu k1 v) = v_vboot_state (tw_vcpu k v)" for v
    unfolding k1_def by (rule vpartition_setup_same)
  let ?k2 = "vpartition_place ptr vid k1"
  have p: "tw_vcpu ?k2 = tw_vcpu k1" "vpart ?k2 = vpart k1" by (simp_all add: vpartition_place_def)
  obtain k' where k': "vcpus_push cfg this (vpartition_vcpus (vpart k ptr)) ?k2 = Some k'"
     "registry k' = registry (?k2\<lparr>tw_vcpu := (\<lambda>w. if w \<in> set (vpartition_vcpus (vpart k ptr)) then booted (tw_vcpu k1 w) else tw_vcpu k1 w)\<rparr>)"
    using vcpus_push_ok [OF distinct_vpartition_vcpus, of "vpart k ptr" ?k2 cfg this, unfolded p(1)] assms(1) keep by auto
  have vid: "vp_vid (vpart k1 ptr) = vid" by (simp add: k1_def vpartition_setup_keeps)
  have "vpartition_push cfg this ptr k1 = Some k'"
    using k'(1) vs vid by (simp add: vpartition_push_def Let_def) (simp add: vpartition_place_def)
  then show ?thesis
    using registryD [OF k'(2)] vpartition_setup_vcpu(1) [where cfg = cfg and ad = ad and this = this and ptr = ptr and vid = vid and k = k]
    by (auto simp: vpartition_place_def k1_def vpartition_setup_keeps fun_eq_iff)
qed

section \<open>The checks\<close>

text \<open>What the checks establish of a virtual CPU.\<close>

definition vcpu_admissible :: "vconfig \<Rightarrow> vtwan \<Rightarrow> vcpu_ptr \<Rightarrow> bool" where
  "vcpu_admissible cfg k v \<longleftrightarrow> (let x = tw_vcpu k v; a = v_arch x; target = tw_cpu k (vcpu_cpu k v) in
     vcpu_cpu k v < tw_num_cpus k \<and> vc_unrestricted_guest target \<and> vc_ept target \<and>
     (v_vpid_enabled x \<longrightarrow> vc_vpid target \<and> vc_invvpid_single target \<and> v_vpid x \<noteq> 0) \<and>
     (v_ept_ve x \<longrightarrow> vc_ept_ve target) \<and> unat (v_vlaunch_rip x) < 2 ^ 16 \<and> \<not> v_terminate x \<and>
     unat (v_criticality x) \<le> VSCHED_MAX_CRITICALITY cfg \<and> v_preemption_count x = 0 \<and>
     vis_vboot_state_valid cfg (v_vboot_state x) \<and>
     (\<forall>w \<in> {va_io_bitmap_a_phys a, va_io_bitmap_b_phys a, va_msr_bitmap_phys a, va_vmcs_phys a, va_ve_info_area_phys a}.
        4096 dvd unat w) \<and>
     (va_vexit_load_count a \<noteq> 0 \<longrightarrow> 16 dvd unat (va_vexit_msr_load_area_phys a) \<and> va_vexit_load_count a \<le> vc_msr_area_max target) \<and>
     (va_msr_load_save_count a \<noteq> 0 \<longrightarrow> 16 dvd unat (va_msr_load_save_area_phys a) \<and> va_msr_load_save_count a \<le> vc_msr_area_max target) \<and>
     (\<forall>i. \<not> bmp256_test (v_subscribed_vectors x) i) \<and>
     (\<forall>i. bmp256_test (v_allowed_external_vectors x) i \<longrightarrow> bmp256_test (vc_available_vectors target) i))"

lemma and_mask_eq_0: "and (w :: u64) (mask n) = 0 \<longleftrightarrow> 2 ^ n dvd unat w"
proof -
  have "and w (mask n) = 0 \<longleftrightarrow> take_bit n w = 0" by (simp add: take_bit_eq_mask)
  also have "\<dots> \<longleftrightarrow> unat w mod 2 ^ n = 0"
    by (metis take_bit_eq_mod unat_eq_0 unsigned_take_bit_eq)
  finally show ?thesis by (simp add: dvd_eq_mod_eq_0)
qed

lemma aligned_iff: "and (w :: u64) 0xfff = 0 \<longleftrightarrow> 4096 dvd unat w" "and (w :: u64) 0xf = 0 \<longleftrightarrow> 16 dvd unat w"
  using and_mask_eq_0 [of w 12] and_mask_eq_0 [of w 4] by (simp_all add: mask_eq_exp_minus_1)

lemma ffs_none: "bmp256_ffs b = -1 \<longleftrightarrow> (\<forall>i. \<not> bmp256_test b i)"
  unfolding b256.lowest_neg by (metis empty_iff equals0I mem_bmp256_iff mem_bmp256_test)

lemma word_subset_iff: "and (not a) b = 0 \<longleftrightarrow> (\<forall>n < 64. bit b n \<longrightarrow> bit a n)" for a b :: u64
  by (auto simp: bit_eq_iff bit_simps)

lemma bmp256_subset_iff:
  "(\<forall>w < 4. and (not (bmp a w)) (bmp b w) = 0) \<longleftrightarrow> (\<forall>i. bmp256_test b i \<longrightarrow> bmp256_test a i)"
proof
  assume "\<forall>w < 4. and (not (bmp a w)) (bmp b w) = 0"
  moreover have "unat i div 64 < 4" for i :: u8 using unat_lt2p' [of i] by simp
  ultimately show "\<forall>i. bmp256_test b i \<longrightarrow> bmp256_test a i"
    by (simp add: word_subset_iff bmp256_test_bit)
next
  assume t: "\<forall>i. bmp256_test b i \<longrightarrow> bmp256_test a i"
  show "\<forall>w < 4. and (not (bmp a w)) (bmp b w) = 0"
    unfolding word_subset_iff
  proof (intro allI impI)
    fix w n :: nat
    assume *: "w < 4" "n < 64" "bit (bmp b w) n"
    then have "unat (of_nat (64 * w + n) :: u8) = 64 * w + n"
      by (simp add: unsigned_of_nat take_bit_nat_eq_self del: of_nat_add of_nat_mult)
    then show "bit (bmp a w) n"
      using t [rule_format, of "of_nat (64 * w + n)"] * by (simp add: bmp256_test_bit)
  qed
qed

lemma allowed_subset:
  "and (not (bmp a 0)) (bmp b 0) = 0 \<and> and (not (bmp a 1)) (bmp b 1) = 0 \<and> and (not (bmp a 2)) (bmp b 2) = 0 \<and>
   and (not (bmp a 3)) (bmp b 3) = 0 \<longleftrightarrow> (\<forall>i. bmp256_test b i \<longrightarrow> bmp256_test a i)"
  using bmp256_subset_iff [of a b] by (simp add: all_less4)

lemma drop_bit_16_iff: "drop_bit 16 (w :: u64) = 0 \<longleftrightarrow> unat w < 2 ^ 16"
proof -
  have "unat (drop_bit 16 w) = unat w div 2 ^ 16" by (simp add: drop_bit_eq_div unat_div_distrib)
  moreover have "drop_bit 16 w = 0 \<longleftrightarrow> unat (drop_bit 16 w) = 0" by (simp add: unat_eq_0)
  ultimately show ?thesis by (simp add: div_eq_0_iff)
qed

lemma error_branch:
  "(if c then - EINVAL else e) = 0 \<longleftrightarrow> \<not> c \<and> e = 0" "(if c then - EOPNOTSUPP else e) = 0 \<longleftrightarrow> \<not> c \<and> e = 0"
  by (simp_all add: EINVAL_def EOPNOTSUPP_def)

lemma vcpu_precheck_iff:
  "vcpu_precheck cfg v k = 0 \<longleftrightarrow> vcpu_admissible cfg k v"
  unfolding vcpu_precheck_def vcpu_admissible_def Let_def allowed_subset [symmetric] ffs_none [symmetric]
    aligned_iff [symmetric] drop_bit_16_iff [symmetric] error_branch
  by (auto simp: not_le not_less)

lemma vcpu_precheck_codes: "vcpu_precheck cfg v k \<in> {0, - EINVAL, - EOPNOTSUPP}"
  by (simp add: vcpu_precheck_def Let_def)

lemma vcpu_precheck_neg: "vcpu_precheck cfg v k < 0 \<longleftrightarrow> \<not> vcpu_admissible cfg k v"
  using vcpu_precheck_codes [of cfg v k] vcpu_precheck_iff [of cfg v k] by (auto simp: EINVAL_def EOPNOTSUPP_def)

lemma vcpus_precheck_iff: "vcpus_precheck cfg vs k < 0 \<longleftrightarrow> (\<exists>v \<in> set vs. \<not> vcpu_admissible cfg k v)"
  by (induction vs) (auto simp: Let_def vcpu_precheck_neg)

lemma if_mem: "a \<in> S \<Longrightarrow> b \<in> S \<Longrightarrow> (if c then a else b) \<in> S"
  by simp

lemma vcpus_precheck_codes: "vcpus_precheck cfg vs k \<in> {0, - EINVAL, - EOPNOTSUPP}"
proof (induction vs)
  case (Cons v vs)
  show ?case unfolding vcpus_precheck.simps Let_def by (intro if_mem vcpu_precheck_codes Cons.IH)
qed simp

text \<open>What the checks establish of a partition.\<close>

definition vpartition_admissible :: "vconfig \<Rightarrow> vtwan \<Rightarrow> vpartition_ptr \<Rightarrow> bool" where
  "vpartition_admissible cfg k ptr \<longleftrightarrow> (let p = vpart k ptr in
     vp_ept_enabled p \<and> \<not> vp_root p \<and> vp_ept_caching_policy p \<in> {0, 1, 4, 5, 6} \<and> vp_num_terminated p = 0 \<and>
     vp_term_processor_id p < tw_root_num_vcpus k \<and> (vp_term_nmi p \<longrightarrow> vp_term_vector p = NMI) \<and>
     (\<forall>i < vcf_num_cpus cfg. vp_write (vp_criticality_perms p (of_nat i)) \<longrightarrow>
        unat (vp_max_criticality_writeable (vp_criticality_perms p (of_nat i))) \<le> VSCHED_MAX_CRITICALITY cfg) \<and>
     vp_vcpu_count p \<noteq> 0 \<and> (\<forall>v \<in> set (vpartition_vcpus p). vcpu_admissible cfg k v) \<and>
     (\<forall>r vid. \<not> bmp256_test (senders_of r p) vid \<and> \<not> bmp256_test (receivers_of r p) vid))"

lemma caching_policy_iff: "\<not> (p = 2 \<or> p = 3 \<or> p \<ge> 7) \<longleftrightarrow> p \<in> {0, 1, 4, 5, (6 :: u32)}"
proof -
  have "unat p \<noteq> 2 \<and> unat p \<noteq> 3 \<and> \<not> unat p \<ge> 7 \<longleftrightarrow> unat p = 0 \<or> unat p = 1 \<or> unat p = 4 \<or> unat p = 5 \<or> unat p = 6"
    by arith
  then show ?thesis by (simp add: word_unat_eq_iff word_le_nat_alt)
qed

lemma all_routes: "(\<forall>r. P r) \<longleftrightarrow> P VIPI_ROUTE \<and> P VTLB_SHOOTDOWN_ROUTE \<and> P VREAD_VCPU_STATE_ROUTE \<and> P VPV_SPIN_KICK_ROUTE"
  by (metis vroute_type.exhaust)

lemma vpartition_precheck_iff:
  "vpartition_precheck cfg (Some ptr) k = 0 \<longleftrightarrow> vpartition_admissible cfg k ptr"
proof -
  let ?e = "vcpus_precheck cfg (vpartition_vcpus (vpart k ptr)) k"
  have err: "(if ?e < 0 then ?e else f) = 0 \<longleftrightarrow> (\<forall>v \<in> set (vpartition_vcpus (vpart k ptr)). vcpu_admissible cfg k v) \<and> f = 0" for f
    using vcpus_precheck_iff [of cfg "vpartition_vcpus (vpart k ptr)" k] by auto
  have last: "(if c then - EINVAL else 0) = 0 \<longleftrightarrow> \<not> c" for c by (simp add: EINVAL_def)
  show ?thesis
    unfolding vpartition_precheck_def vpartition_admissible_def Let_def option.case error_branch err caching_policy_iff
      all_routes last ffs_none list_ex_iff
    by (auto simp: not_le not_less)
qed

lemma vpartition_precheck_codes: "vpartition_precheck cfg vpartition k \<in> {0, - EINVAL, - EOPNOTSUPP}"
proof (cases vpartition)
  case (Some ptr)
  show ?thesis
    unfolding vpartition_precheck_def Let_def Some option.case by (intro if_mem vcpus_precheck_codes) simp_all
qed (simp add: vpartition_precheck_def)

text \<open>C26: The checks of a new partition answer 0, -EINVAL or -EOPNOTSUPP, and 0 exactly for the
  partitions that are well formed: aligned regions, bounded criticalities, vectors within the
  available ones, no subscription and no route.\<close>

theorem vpartition_precheck_spec:
  "vpartition_precheck cfg vpartition k \<in> {0, - EINVAL, - EOPNOTSUPP} \<and>
   (vpartition_precheck cfg vpartition k = 0 \<longleftrightarrow> (\<exists>ptr. vpartition = Some ptr \<and> vpartition_admissible cfg k ptr))"
proof (cases vpartition)
  case None
  then show ?thesis by (simp add: vpartition_precheck_def EINVAL_def)
next
  case (Some ptr)
  have "vpartition_precheck cfg (Some ptr) k \<in> {0, - EINVAL, - EOPNOTSUPP}" by (rule vpartition_precheck_codes)
  then show ?thesis using vpartition_precheck_iff [of cfg ptr k] Some by simp
qed

end
