(* ===== verification/Twan_Vtimer.thy ===== *)
theory Twan_Vtimer
  imports Twan_Vcreate
begin

text \<open>
  The virtual timers: the hypercalls that arm and disarm a timer (\<open>vportal/vcalls.c\<close>) and the exit when the
  preemption timer of the processor expires (\<^verbatim>\<open>vexit_vmx_preempt\<close> of \<open>vportal/vexit.c\<close>). The timers of a virtual CPU form a
  delta chain; the processor counts the remaining time of the first one down in the field
  \<open>vm_timer_value\<close> while the guest runs, so the delta of the first node is out of date and that field stands
  for it. A handler takes the environment of the hypervisor, the CPU, the registers of the guest and the state;
  its result is that of the call and the new state. Shown: the three operations refine the insertion,
  the deletion and the expiry of a timer in a list of absolute expiry times.
\<close>

section \<open>Definitions: the environment and the arguments of a call\<close>

text \<open>\<open>env_resumed\<close> is what happens until a virtual CPU that yields runs again, \<open>env_others\<close> what other CPUs do while
  this one spins, \<open>env_partition\<close> the partition at an address of the root, if it is not null.\<close>

record venv =
  env_cfg :: vconfig
  env_call :: vcallback
  env_resumed :: "vtwan \<Rightarrow> vtwan"
  env_others :: "vtwan \<Rightarrow> vtwan"
  env_addresses :: vcreate_addresses
  env_partition :: "u64 \<Rightarrow> vpartition_ptr option"

abbreviation enable_preemption_in :: "venv \<Rightarrow> u32 \<Rightarrow> vtwan \<Rightarrow> vtwan option" where
  "enable_preemption_in env this \<equiv> vcurrent_vcpu_enable_preemption (env_cfg env) (env_call env) (env_resumed env) this"

type_synonym vcall_func = "venv \<Rightarrow> u32 \<Rightarrow> regs \<Rightarrow> vtwan \<Rightarrow> (int \<times> vtwan) option"

definition vcall_arg1_8 :: "regs \<Rightarrow> u8" where "vcall_arg1_8 r = ucast (rg_rdi r)"
definition vcall_arg1_32 :: "regs \<Rightarrow> u32" where "vcall_arg1_32 r = ucast (rg_rdi r)"
definition vcall_arg1_64 :: "regs \<Rightarrow> u64" where "vcall_arg1_64 r = rg_rdi r"
definition vcall_arg2_8 :: "regs \<Rightarrow> u8" where "vcall_arg2_8 r = ucast (rg_rsi r)"
definition vcall_arg2_32 :: "regs \<Rightarrow> u32" where "vcall_arg2_32 r = ucast (rg_rsi r)"
definition vcall_arg3_8 :: "regs \<Rightarrow> u8" where "vcall_arg3_8 r = ucast (rg_rdx r)"
definition vcall_arg3_32 :: "regs \<Rightarrow> u32" where "vcall_arg3_32 r = ucast (rg_rdx r)"
definition vcall_arg4_8 :: "regs \<Rightarrow> u8" where "vcall_arg4_8 r = ucast (rg_rcx r)"
definition vcall_arg4_32 :: "regs \<Rightarrow> u32" where "vcall_arg4_32 r = ucast (rg_rcx r)"
definition vcall_arg5_32 :: "regs \<Rightarrow> u32" where "vcall_arg5_32 r = ucast (rg_r8 r)"

section \<open>Definitions: arming\<close>

text \<open>What happens before preemption is enabled.\<close>

definition varm_vmcs :: "u32 \<Rightarrow> vcpu \<Rightarrow> vcpu" where
  "varm_vmcs ticks x =
     (let chain = v_timer_chain x
      in if delta_chain_is_empty chain then
           upd_vmcs (\<lambda>m. m\<lparr>vm_timer_value := ticks, vm_activate_timer := True, vm_save_timer := True\<rparr>) x
         else
           let rem = vm_timer_value (v_vmcs x);
               current_timer = the (delta_chain_peekfront chain);
               x = (if ticks < rem then upd_vmcs (\<lambda>m. m\<lparr>vm_timer_value := ticks\<rparr>) x else x)
           in x\<lparr>v_timer_chain := chain\<lparr>dc_delta := (dc_delta chain)(current_timer := ucast rem)\<rparr>\<rparr>)"

definition varm_timern :: vcall_func where
  "varm_timern env this r k =
     (let vector = vcall_arg1_8 r; timer_n = vcall_arg2_8 r; ticks = vcall_arg3_32 r;
          periodic = (vcall_arg4_32 r \<noteq> 0); nmi = (vcall_arg5_32 r \<noteq> 0); current = vcur k this
      in if unat timer_n \<ge> vcf_num_vtimers (env_cfg env) \<or> nmi \<and> vector \<noteq> NMI
         then map_option (Pair (- EINVAL)) (enable_preemption_in env this k)
         else if vt_armed (v_timers (tw_vcpu k current) timer_n)
         then map_option (Pair (- EALREADY)) (enable_preemption_in env this k)
         else case enable_preemption_in env this (upd_vcpu current (varm_vmcs ticks) k) of
                None \<Rightarrow> None
              | Some k \<Rightarrow>
                  let k = upd_vcpu current (\<lambda>x. x\<lparr>v_timers := (v_timers x)(timer_n := \<lparr>vt_vector = vector,
                            vt_periodic = periodic, vt_armed = True, vt_nmi = nmi, vt_ticks = ticks\<rparr>)\<rparr>) k
                  in map_option (\<lambda>chain. (0, upd_vcpu current (\<lambda>x. x\<lparr>v_timer_chain := chain\<rparr>) k))
                       (delta_chain_insert (v_timer_chain (tw_vcpu k current)) timer_n (ucast ticks)))"

section \<open>Definitions: disarming\<close>

definition vtimer_off :: "vcpu \<Rightarrow> vcpu" where
  "vtimer_off = upd_vmcs (\<lambda>m. m\<lparr>vm_activate_timer := False, vm_save_timer := False\<rparr>)"

definition vdisarm_vmcs :: "u8 \<Rightarrow> vcpu \<Rightarrow> vcpu" where
  "vdisarm_vmcs n x =
     (let chain = v_timer_chain x
      in if delta_chain_is_front chain n then
           case ld_next (dc_mem chain n) of
             None \<Rightarrow> vtimer_off x
           | Some next_node \<Rightarrow>
               let rem = vm_timer_value (v_vmcs x);
                   next_delta = ucast rem + dc_delta chain next_node
               in (upd_vmcs (\<lambda>m. m\<lparr>vm_timer_value := ucast next_delta\<rparr>) x)
                    \<lparr>v_timer_chain := chain\<lparr>dc_delta := (dc_delta chain)(n := ucast rem)\<rparr>\<rparr>
         else x)"

definition vdisarm_timern :: vcall_func where
  "vdisarm_timern env this r k =
     (let timer_n = vcall_arg1_8 r; current = vcur k this
      in if unat timer_n \<ge> vcf_num_vtimers (env_cfg env)
         then map_option (Pair (- EINVAL)) (enable_preemption_in env this k)
         else if \<not> vt_armed (v_timers (tw_vcpu k current) timer_n)
         then map_option (Pair (- EINVAL)) (enable_preemption_in env this k)
         else map_option (\<lambda>k. (0, upd_vcpu current (\<lambda>x. x\<lparr>
                  v_timer_chain := delta_chain_dequeue_no_callback (v_timer_chain x) timer_n,
                  v_timers := (v_timers x)(timer_n := (v_timers x timer_n)\<lparr>vt_armed := False\<rparr>)\<rparr>) k))
                (enable_preemption_in env this (upd_vcpu current (vdisarm_vmcs timer_n) k)))"

section \<open>Definitions: expiry\<close>

text \<open>The new virtual CPU, and the vector and kind of the interrupt of the expired timer. The chain is not empty
  when the timer of the processor is active; a null node is \<open>None\<close>.\<close>

definition vexpire :: "vcpu \<Rightarrow> (u8 \<times> bool \<times> vcpu) option" where
  "vexpire x =
     (let (node, chain) = delta_chain_popfront_noupdate (v_timer_chain x)
      in case node of
           None \<Rightarrow> None
         | Some n \<Rightarrow>
             let t = v_timers x n
             in case (if vt_periodic t then delta_chain_insert chain n (ucast (vt_ticks t)) else Some chain) of
                  None \<Rightarrow> None
                | Some chain \<Rightarrow>
                    let x = x\<lparr>v_timer_chain := chain\<rparr>;
                        x = (if vt_periodic t then x else x\<lparr>v_timers := (v_timers x)(n := t\<lparr>vt_armed := False\<rparr>)\<rparr>)
                    in Some (vt_vector t, vt_nmi t,
                         case delta_chain_peekfront chain of
                           Some next_node \<Rightarrow> upd_vmcs (\<lambda>m. m\<lparr>vm_timer_value := ucast (dc_delta chain next_node)\<rparr>) x
                         | None \<Rightarrow> vtimer_off x))"

definition vexit_vmx_preempt :: "venv \<Rightarrow> u32 \<Rightarrow> vtwan \<Rightarrow> vtwan option" where
  "vexit_vmx_preempt env this k =
     (let current = vcur k this
      in case vexpire (tw_vcpu k current) of
           None \<Rightarrow> None
         | Some (vector, nmi, x) \<Rightarrow>
             map_option (\<lambda>k. snd (vemu_set_interrupt_pending current vector nmi k))
               (enable_preemption_in env this (upd_vcpu current (\<lambda>_. x) k)))"

section \<open>The list of expiry times\<close>

definition sync_chain :: "vcpu \<Rightarrow> u8 delta_chain" where
  "sync_chain x =
     (let chain = v_timer_chain x
      in case delta_chain_peekfront chain of
           None \<Rightarrow> chain
         | Some n \<Rightarrow> chain\<lparr>dc_delta := (dc_delta chain)(n := ucast (vm_timer_value (v_vmcs x)))\<rparr>)"

definition vtimers :: "vcpu \<Rightarrow> (u8 \<times> nat) list \<Rightarrow> bool" where
  "vtimers x es \<longleftrightarrow> delta_repr (sync_chain x) es \<and> (\<forall>(n, t) \<in> set es. t < 2 ^ 32) \<and>
     (vm_activate_timer (v_vmcs x) \<longleftrightarrow> es \<noteq> []) \<and> (vm_save_timer (v_vmcs x) \<longleftrightarrow> es \<noteq> []) \<and>
     (\<forall>n. vt_armed (v_timers x n) \<longleftrightarrow> n \<in> fst ` set es)"

lemma delta_repr_head:
  assumes "delta_repr c ((m, u) # es)"
  shows "delta_chain_peekfront c = Some m" "\<not> delta_chain_is_empty c" "unat (dc_delta c m) = u" "m \<notin> fst ` set es"
proof -
  have q: "dq_repr (dc_mem c) (dc_dq c) (m # map fst es)" using assms by (simp add: delta_repr_def)
  show "delta_chain_peekfront c = Some m" "\<not> delta_chain_is_empty c"
    using dq_repr_front [OF q] dq_is_empty_repr [OF q] by (simp_all add: delta_chain_peekfront_def delta_chain_is_empty_def dq_peekfront_def)
  show "unat (dc_delta c m) = u" using assms by (simp add: delta_repr_def)
  show "m \<notin> fst ` set es" using dq_repr_distinct [OF q] by simp
qed

lemma delta_repr_Nil:
  assumes "delta_repr c []"
  shows "delta_chain_peekfront c = None" "delta_chain_is_empty c"
  using assms dq_repr_front [of "dc_mem c" "dc_dq c" "[]"] dq_is_empty_repr [of "dc_mem c" "dc_dq c" "[]"]
  by (simp_all add: delta_repr_def delta_chain_peekfront_def delta_chain_is_empty_def dq_peekfront_def)

lemma delta_repr_cong:
  assumes "delta_repr c es" and "dc_mem c' = dc_mem c" and "dc_dq c' = dc_dq c"
    and "\<And>n. n \<in> fst ` set es \<Longrightarrow> dc_delta c' n = dc_delta c n"
  shows "delta_repr c' es"
  using assms expiries_cong [of "map fst es" "dc_delta c'" "dc_delta c" 0] by (simp add: delta_repr_def)

lemma sync_chain_simps:
  "dc_mem (sync_chain x) = dc_mem (v_timer_chain x)" "dc_dq (sync_chain x) = dc_dq (v_timer_chain x)"
  "delta_chain_peekfront (sync_chain x) = delta_chain_peekfront (v_timer_chain x)"
  "delta_chain_is_empty (sync_chain x) = delta_chain_is_empty (v_timer_chain x)"
  by (simp_all add: sync_chain_def Let_def delta_chain_peekfront_def delta_chain_is_empty_def split: option.split)

text \<open>When the field of the processor agrees with the first delta, the chain is up to date.\<close>

lemma unat_widen [simp]: "unat (ucast (w :: u32) :: u64) = unat w"
  using unat_lt2p' [of w] by (simp add: unsigned_ucast_eq take_bit_nat_eq_self)

lemma unat_narrow: "unat (d :: u64) < 2 ^ 32 \<Longrightarrow> unat (ucast d :: u32) = unat d"
  by (simp add: unsigned_ucast_eq take_bit_nat_eq_self)

lemma sync_id:
  assumes "delta_repr (v_timer_chain x) es" and "es \<noteq> [] \<Longrightarrow> unat (vm_timer_value (v_vmcs x)) = snd (hd es)"
  shows "sync_chain x = v_timer_chain x"
proof (cases es)
  case Nil
  then show ?thesis using delta_repr_Nil [of "v_timer_chain x"] assms(1) by (simp add: sync_chain_def Let_def)
next
  case (Cons e es')
  obtain m u where e: "e = (m, u)" by fastforce
  note h = delta_repr_head [OF assms(1) [unfolded Cons e]]
  have "unat (vm_timer_value (v_vmcs x)) = u" using assms(2) Cons e by simp
  then have "ucast (vm_timer_value (v_vmcs x)) = dc_delta (v_timer_chain x) m"
    using h(3) by (simp add: word_unat_eq_iff)
  then show ?thesis using h(1) by (simp add: sync_chain_def Let_def)
qed

lemma sync_head:
  assumes "delta_repr (sync_chain x) ((m, u) # es)"
  shows "unat (vm_timer_value (v_vmcs x)) = u"
  using delta_repr_head [OF assms]
  by (simp add: sync_chain_simps) (simp add: sync_chain_def Let_def)

section \<open>The three operations\<close>

lemma vtimers_cong:
  "v_timer_chain y = v_timer_chain x \<Longrightarrow> v_vmcs y = v_vmcs x \<Longrightarrow> v_timers y = v_timers x \<Longrightarrow> vtimers y es = vtimers x es"
  unfolding vtimers_def sync_chain_def by (simp only:)

lemma vtimersD:
  assumes "vtimers x es"
  shows "delta_repr (sync_chain x) es" "\<And>n t. (n, t) \<in> set es \<Longrightarrow> t < 2 ^ 32" "vm_activate_timer (v_vmcs x) \<longleftrightarrow> es \<noteq> []"
    "vm_save_timer (v_vmcs x) \<longleftrightarrow> es \<noteq> []" "vt_armed (v_timers x n) \<longleftrightarrow> n \<in> fst ` set es"
  using assms by (auto simp: vtimers_def)

text \<open>The first remaining time after an insertion.\<close>

lemma hd_timer_insert: "snd (hd (timer_insert es n t)) = (if es = [] then t else min (snd (hd es)) t)" if "sorted (map snd es)"
  by (cases es) (auto simp: timer_insert_def min_def)

lemma set_timer_insert: "set (timer_insert es n t) = insert (n, t) (set es)"
  unfolding timer_insert_def by (metis (no_types, lifting) Un_insert_right list.simps(15) set_append takeWhile_dropWhile_id)

lemma timer_insert_ne [simp]: "timer_insert es n t \<noteq> []"
  by (simp add: timer_insert_def)

lemma delta_repr_sorted: "delta_repr c es \<Longrightarrow> sorted (map snd es)"
  by (metis delta_repr_def expiries_sorted)

lemma varm_vmcs_chain:
  assumes "vtimers x es"
  shows "delta_repr (v_timer_chain (varm_vmcs ticks x)) es"
    and "unat (vm_timer_value (v_vmcs (varm_vmcs ticks x))) = (if es = [] then unat ticks else min (snd (hd es)) (unat ticks))"
    and "vm_activate_timer (v_vmcs (varm_vmcs ticks x))" "vm_save_timer (v_vmcs (varm_vmcs ticks x))"
    and "v_timers (varm_vmcs ticks x) = v_timers x"
proof -
  note d = vtimersD [OF assms]
  have c: "v_timer_chain (varm_vmcs ticks x) = sync_chain x"
    by (auto simp: varm_vmcs_def Let_def sync_chain_def delta_chain_peekfront_def delta_chain_is_empty_def dq_is_empty_def
        dq_peekfront_def split: option.split)
  show "delta_repr (v_timer_chain (varm_vmcs ticks x)) es" using d(1) c by simp
  have e: "delta_chain_is_empty (v_timer_chain x) \<longleftrightarrow> es = []"
    using delta_repr_Nil(2) [of "sync_chain x"] delta_repr_head(2) [of "sync_chain x"] d(1)
    by (cases es) (auto simp: sync_chain_simps)
  have r: "unat (vm_timer_value (v_vmcs x)) = snd (hd es)" if "es \<noteq> []"
    using that d(1) sync_head [of x] by (cases es) auto
  show "unat (vm_timer_value (v_vmcs (varm_vmcs ticks x))) = (if es = [] then unat ticks else min (snd (hd es)) (unat ticks))"
    using e r by (simp add: varm_vmcs_def Let_def word_less_nat_alt min_def)
  show "vm_activate_timer (v_vmcs (varm_vmcs ticks x))" "vm_save_timer (v_vmcs (varm_vmcs ticks x))"
    using d(3,4) e by (simp_all add: varm_vmcs_def Let_def)
  show "v_timers (varm_vmcs ticks x) = v_timers x" by (simp add: varm_vmcs_def Let_def)
qed

lemma varm_ok:
  assumes t: "vtimers x es" and n: "\<not> vt_armed (v_timers x n)"
    and y: "v_timer_chain y = v_timer_chain (varm_vmcs ticks x)" "v_vmcs y = v_vmcs (varm_vmcs ticks x)"
      "v_timers y = (v_timers x)(n := t')" "vt_armed t'"
  shows "\<exists>chain. delta_chain_insert (v_timer_chain y) n (ucast ticks) = Some chain \<and>
     vtimers (y\<lparr>v_timer_chain := chain\<rparr>) (timer_insert es n (unat ticks))"
proof -
  note d = vtimersD [OF t] and c = varm_vmcs_chain [OF t, where ticks = ticks]
  have "n \<notin> fst ` set es" using n d(5) by simp
  then obtain chain where ch: "delta_chain_insert (v_timer_chain y) n (ucast ticks) = Some chain"
      "delta_repr chain (timer_insert es n (unat ticks))"
    using delta_chain_insert_core [OF c(1), of n "ucast ticks"] y(1) by auto
  let ?y = "y\<lparr>v_timer_chain := chain\<rparr>"
  have "sync_chain ?y = chain"
    using sync_id [of ?y "timer_insert es n (unat ticks)"] ch(2) c(2) y(2) hd_timer_insert [OF delta_repr_sorted [OF c(1)], of n "unat ticks"]
    by simp
  moreover have "unat ticks < 2 ^ 32" using unat_lt2p' [of ticks] by simp
  ultimately have "vtimers ?y (timer_insert es n (unat ticks))"
    using ch(2) d(2,5) c(3,4) y(2-4) by (auto simp: vtimers_def set_timer_insert image_iff)
  then show ?thesis using ch(1) by blast
qed

lemma dequeue_links:
  "dc_mem (delta_chain_dequeue_no_callback c n) = fst (dq_dequeue (dc_mem c, dc_dq c) n)"
  "dc_dq (delta_chain_dequeue_no_callback c n) = snd (dq_dequeue (dc_mem c, dc_dq c) n)"
  "dc_delta (delta_chain_dequeue_no_callback c n) =
     (case ld_next (dc_mem c n) of Some nx \<Rightarrow> (dc_delta c)(nx := dc_delta c nx + dc_delta c n) | None \<Rightarrow> dc_delta c)"
  by (simp_all add: delta_chain_dequeue_no_callback_def Let_def split_beta split: option.split)

lemma repr_next:
  assumes "delta_repr c (as @ (n, t) # bs)"
  shows "ld_next (dc_mem c n) = first_or (map fst bs) None" "n \<notin> fst ` set as" "n \<notin> fst ` set bs" "fst ` set as \<inter> fst ` set bs = {}"
proof -
  have q: "dq_repr (dc_mem c) (dc_dq c) (map fst as @ n # map fst bs)" using assms by (simp add: delta_repr_def)
  show "ld_next (dc_mem c n) = first_or (map fst bs) None" using q by (simp add: dq_repr_def)
  show "n \<notin> fst ` set as" "n \<notin> fst ` set bs" "fst ` set as \<inter> fst ` set bs = {}"
    using dq_repr_distinct [OF q] by auto
qed

lemma peekfront_repr:
  assumes "delta_repr c es"
  shows "delta_chain_peekfront c = first_or (map fst es) None"
  using assms dq_repr_front [of "dc_mem c" "dc_dq c" "map fst es"] by (simp add: delta_repr_def delta_chain_peekfront_def dq_peekfront_def)

text \<open>The chain and the field of the processor after the timer is taken out of the chain.\<close>

lemma vdisarm_sync:
  assumes t: "vtimers x (as @ (n, t) # bs)"
    and y: "v_timer_chain y = delta_chain_dequeue_no_callback (v_timer_chain (vdisarm_vmcs n x)) n"
      "v_vmcs y = v_vmcs (vdisarm_vmcs n x)"
  shows "delta_repr (sync_chain y) (as @ bs)"
proof -
  let ?c = "v_timer_chain x"
  note d = vtimersD [OF t]
  note nx = repr_next [OF d(1), unfolded sync_chain_simps]
  have fits: "u < 2 ^ 64" if "(m, u) \<in> set bs" for m u using d(2) [of m u] that by simp
  have core: "delta_repr (delta_chain_dequeue_no_callback (sync_chain x) n) (as @ bs)"
    by (rule delta_chain_dequeue_core [OF d(1) fits])
  have front: "delta_chain_peekfront ?c = first_or (map fst (as @ (n, t) # bs)) None"
    using peekfront_repr [OF d(1)] by (simp add: sync_chain_simps)
  show ?thesis
  proof (cases as)
    case Nil
    have f: "delta_chain_is_front ?c n" using front Nil by (simp add: delta_chain_is_front_def)
    have rem: "unat (vm_timer_value (v_vmcs x)) = t" using sync_head [of x n t bs] d(1) Nil by simp
    show ?thesis
    proof (cases bs)
      case Nil': Nil
      have "v_timer_chain (vdisarm_vmcs n x) = ?c" using f nx(1) Nil' by (simp add: vdisarm_vmcs_def Let_def vtimer_off_def)
      then have "delta_repr (v_timer_chain y) []"
        using y(1) delta_repr_cong [OF core [unfolded Nil Nil'], of "v_timer_chain y"] by (simp add: dequeue_links sync_chain_simps)
      then show ?thesis using sync_id [of y "[]"] Nil Nil' by simp
    next
      case (Cons e bs')
      obtain m u where e: "e = (m, u)" by fastforce
      have n1: "ld_next (dc_mem ?c n) = Some m" using nx(1) Cons e by simp
      have c1: "v_timer_chain (vdisarm_vmcs n x) = sync_chain x"
        using f n1 by (simp add: vdisarm_vmcs_def Let_def sync_chain_def delta_chain_is_front_def)
      have mn: "m \<noteq> n" using nx(3) Cons e by auto
      have dm: "dc_delta (sync_chain x) m = dc_delta ?c m"
        using mn f by (simp add: sync_chain_def Let_def delta_chain_is_front_def)
      have u: "u = t + unat (dc_delta ?c m)"
        using d(1) Nil Cons e dm by (simp add: delta_repr_def)
      have "u < 2 ^ 32" using d(2) [of m u] Cons e by simp
      then have "unat (ucast (vm_timer_value (v_vmcs x)) + dc_delta ?c m) = u"
        using u rem by (simp add: unat_word_ariths)
      then have "unat (vm_timer_value (v_vmcs y)) = u"
        using f n1 y(2) \<open>u < 2 ^ 32\<close> by (simp add: vdisarm_vmcs_def Let_def unat_narrow)
      then show ?thesis using sync_id [of y "as @ bs"] core y(1) c1 Nil Cons e by simp
    qed
  next
    case (Cons e as')
    obtain m u where e: "e = (m, u)" by fastforce
    have nf: "\<not> delta_chain_is_front ?c n" using front nx(2) Cons e by (auto simp: delta_chain_is_front_def)
    have fm: "delta_chain_peekfront ?c = Some m" using front Cons e by simp
    have v: "vdisarm_vmcs n x = x" using nf by (simp add: vdisarm_vmcs_def Let_def)
    have ne: "m \<noteq> n" "ld_next (dc_mem ?c n) \<noteq> Some m"
      using nx Cons e by (cases bs; auto)+
    have f': "delta_chain_peekfront (v_timer_chain y) = Some m"
      using peekfront_repr [OF core] y(1) v Cons e
      by (simp add: delta_chain_peekfront_def dequeue_links sync_chain_simps)
    have "sync_chain y = delta_chain_dequeue_no_callback (sync_chain x) n"
      using y v f' fm ne
      by (intro delta_chain.equality)
        (auto simp: sync_chain_def Let_def dequeue_links fun_eq_iff split: option.split)
    then show ?thesis using core by simp
  qed
qed

lemma vdisarm_ok:
  assumes t: "vtimers x (as @ (n, t) # bs)"
    and y: "v_timer_chain y = delta_chain_dequeue_no_callback (v_timer_chain (vdisarm_vmcs n x)) n"
      "v_vmcs y = v_vmcs (vdisarm_vmcs n x)" "v_timers y = (v_timers x)(n := t')" "\<not> vt_armed t'"
  shows "vtimers y (as @ bs)"
proof -
  note d = vtimersD [OF t] and nx = repr_next [OF vtimersD(1) [OF t], unfolded sync_chain_simps]
  have "delta_chain_is_front (v_timer_chain x) n \<longleftrightarrow> as = []"
    using peekfront_repr [OF d(1)] nx(2) by (cases as) (auto simp: sync_chain_simps delta_chain_is_front_def)
  then have "vm_activate_timer (v_vmcs y) \<longleftrightarrow> as @ bs \<noteq> []" "vm_save_timer (v_vmcs y) \<longleftrightarrow> as @ bs \<noteq> []"
    using nx(1) d(3,4) y(2) by (cases bs; simp add: vdisarm_vmcs_def Let_def vtimer_off_def)+
  then show ?thesis
    using vdisarm_sync [OF t y(1,2)] d(2,5) y(3,4) nx(2,3) by (auto simp: vtimers_def)
qed

lemma vexpire_ok:
  assumes t: "vtimers x ((n, 0) # bs)" and v: "v_timers x n = tm"
  shows "\<exists>x'. vexpire x = Some (vt_vector tm, vt_nmi tm, x') \<and>
     vtimers x' (if vt_periodic tm then timer_insert bs n (unat (vt_ticks tm)) else bs)"
proof -
  let ?c = "v_timer_chain x"
  note d = vtimersD [OF t]
  have q: "dq_repr (dc_mem ?c) (dc_dq ?c) (n # map fst bs)" using d(1) by (simp add: delta_repr_def sync_chain_simps)
  obtain res h dq where p: "dq_popfront (dc_mem ?c, dc_dq ?c) = (res, h, dq)" by (metis prod_cases3)
  have res: "res = Some n" using dq_popfront_repr [OF q p] by simp
  define c1 where "c1 = snd (delta_pop ?c)"
  have pop: "delta_chain_popfront_noupdate ?c = (Some n, c1)"
    using p res by (simp add: delta_chain_popfront_noupdate_def delta_pop_def c1_def)
  have nb: "n \<notin> fst ` set bs" using delta_repr_head(4) [OF d(1)] .
  have dn: "dc_delta (sync_chain x) m = dc_delta ?c m" if "m \<noteq> n" for m
    using that delta_repr_head(1) [OF d(1)] unfolding sync_chain_simps by (simp add: sync_chain_def Let_def)
  have r1: "delta_repr c1 bs"
    by (rule delta_repr_cong [OF delta_pop_repr [OF d(1), THEN conjunct1]])
      (use nb in \<open>auto simp: c1_def delta_pop_def sync_chain_simps split_beta image_iff dn [symmetric]\<close>)
  let ?es = "if vt_periodic tm then timer_insert bs n (unat (vt_ticks tm)) else bs"
  have "\<exists>c2. (if vt_periodic tm then delta_chain_insert c1 n (ucast (vt_ticks tm)) else Some c1) = Some c2 \<and> delta_repr c2 ?es"
    using delta_chain_insert_core [OF r1 nb, of "ucast (vt_ticks tm)"] r1 by (cases "vt_periodic tm") auto
  then obtain c2 where c2: "(if vt_periodic tm then delta_chain_insert c1 n (ucast (vt_ticks tm)) else Some c1) = Some c2" "delta_repr c2 ?es"
    by blast
  have fits: "u < 2 ^ 32" if "(m, u) \<in> set ?es" for m u
    using that d(2) [of m u] unat_lt2p' [of "vt_ticks tm"] by (auto simp: set_timer_insert split: if_splits)
  define x1 where "x1 = (if vt_periodic tm then x\<lparr>v_timer_chain := c2\<rparr>
    else x\<lparr>v_timer_chain := c2, v_timers := (v_timers x)(n := tm\<lparr>vt_armed := False\<rparr>)\<rparr>)"
  define x2 where "x2 = (case delta_chain_peekfront c2 of
      Some m \<Rightarrow> upd_vmcs (\<lambda>m'. m'\<lparr>vm_timer_value := ucast (dc_delta c2 m)\<rparr>) x1 | None \<Rightarrow> vtimer_off x1)"
  have e: "vexpire x = Some (vt_vector tm, vt_nmi tm, x2)"
    using pop c2(1) v by (auto simp: vexpire_def Let_def x2_def x1_def split: option.split)
  have armed: "vt_armed (v_timers x2 m) \<longleftrightarrow> m \<in> fst ` set ?es" for m
    using d(5) [of m] nb v by (auto simp: x2_def x1_def vtimer_off_def set_timer_insert split: option.split)
  have chain: "v_timer_chain x2 = c2" by (simp add: x2_def x1_def vtimer_off_def split: option.split)
  have "unat (vm_timer_value (v_vmcs x2)) = snd (hd ?es) \<and> vm_activate_timer (v_vmcs x2) \<and> vm_save_timer (v_vmcs x2)" if "?es \<noteq> []"
  proof -
    obtain m u es' where es: "?es = (m, u) # es'" using \<open>?es \<noteq> []\<close> by (metis list.exhaust prod.exhaust)
    note h = delta_repr_head [OF c2(2) [unfolded es]]
    have "u < 2 ^ 32" using fits [of m u] es by simp
    then show ?thesis unfolding es using h d(3,4) by (simp add: x2_def x1_def unat_narrow)
  qed
  moreover have "\<not> vm_activate_timer (v_vmcs x2) \<and> \<not> vm_save_timer (v_vmcs x2)" if "?es = []"
    using delta_repr_Nil [OF c2(2) [unfolded that]] by (simp add: x2_def vtimer_off_def)
  ultimately have "vtimers x2 ?es"
    using sync_id [of x2 ?es] c2(2) chain fits armed unfolding vtimers_def by auto
  then show ?thesis using e by blast
qed

section \<open>Properties\<close>

text \<open>Leaving the non-preemptible section when no yield was requested.\<close>

lemma enable_preemption_quiet:
  assumes "vcurrent_vcpu k this = Some c" and "\<not> v_yield_request (tw_vcpu k c)"
  shows "vcurrent_vcpu_enable_preemption cfg call resumed this k =
     Some (upd_vcpu c (\<lambda>x. x\<lparr>v_preemption_count := v_preemption_count x - 1\<rparr>) k)"
  using assms by (simp add: vcurrent_vcpu_enable_preemption_def vtry_answer_yield_request_def
      vcurrent_vcpu_enable_preemption_no_yield_def Let_def)


text \<open>Disarming an armed timer, the one being counted down or another, removes exactly it
  from the list of expiry times.\<close>

theorem vdisarm_timern_spec:
  assumes cur: "vcurrent_vcpu k this = Some c" and ny: "\<not> v_yield_request (tw_vcpu k c)"
    and t: "vtimers (tw_vcpu k c) (as @ (n, t) # bs)" and n: "vcall_arg1_8 r = n" "unat n < vcf_num_vtimers (env_cfg env)"
  shows "\<exists>k'. vdisarm_timern env this r k = Some (0, k') \<and> vtimers (tw_vcpu k' c) (as @ bs)"
proof -
  let ?x = "tw_vcpu k c" and ?k1 = "upd_vcpu c (vdisarm_vmcs n) k"
  have armed: "vt_armed (v_timers ?x n)" using vtimersD(5) [OF t, of n] by simp
  have ny1: "\<not> v_yield_request (tw_vcpu ?k1 c)" "vcurrent_vcpu ?k1 this = Some c"
    using ny cur by (simp_all add: vdisarm_vmcs_def Let_def vtimer_off_def split: option.split)
  have tm: "v_timers (vdisarm_vmcs n ?x) = v_timers ?x" by (simp add: vdisarm_vmcs_def Let_def vtimer_off_def split: option.split)
  note q = enable_preemption_quiet [OF ny1(2,1), of "env_cfg env" "env_call env" "env_resumed env"]
  define y where "y = (vdisarm_vmcs n ?x)\<lparr>v_preemption_count := v_preemption_count (vdisarm_vmcs n ?x) - 1,
      v_timer_chain := delta_chain_dequeue_no_callback (v_timer_chain (vdisarm_vmcs n ?x)) n,
      v_timers := (v_timers ?x)(n := (v_timers ?x n)\<lparr>vt_armed := False\<rparr>)\<rparr>"
  have "vtimers y (as @ bs)" by (rule vdisarm_ok [OF t, of y "(v_timers ?x n)\<lparr>vt_armed := False\<rparr>"]) (simp_all add: y_def)
  moreover have "vdisarm_timern env this r k = Some (0, upd_vcpu c (\<lambda>_. y) k)"
    using n armed cur q tm by (simp add: vdisarm_timern_def Let_def y_def upd_vcpu_def)
  ultimately show ?thesis by simp
qed

text \<open>The expiry exit makes the interrupt of the first timer pending, arms a periodic timer
  again and leaves the processor counting for the next one.\<close>

theorem vtimer_expiry_spec:
  assumes cur: "vcurrent_vcpu k this = Some c" and ny: "\<not> v_yield_request (tw_vcpu k c)"
    and t: "vtimers (tw_vcpu k c) ((n, 0) # bs)" and v: "v_timers (tw_vcpu k c) n = tm" "vt_nmi tm \<longrightarrow> vt_vector tm = NMI"
  shows "\<exists>k'. vexit_vmx_preempt env this k = Some k' \<and> vemu_is_interrupt_pending c (vt_vector tm) (vt_nmi tm) k' \<and>
     vtimers (tw_vcpu k' c) (if vt_periodic tm then timer_insert bs n (unat (vt_ticks tm)) else bs)"
proof -
  obtain x' where x': "vexpire (tw_vcpu k c) = Some (vt_vector tm, vt_nmi tm, x')"
      "vtimers x' (if vt_periodic tm then timer_insert bs n (unat (vt_ticks tm)) else bs)"
    using vexpire_ok [OF t v(1)] by blast
  have y: "v_yield_request x' = v_yield_request (tw_vcpu k c)"
    using x'(1) by (auto simp: vexpire_def Let_def split_beta vtimer_off_def split: option.splits if_splits)
  have ny1: "\<not> v_yield_request (tw_vcpu (upd_vcpu c (\<lambda>_. x') k) c)" "vcurrent_vcpu (upd_vcpu c (\<lambda>_. x') k) this = Some c"
    using ny cur y by simp_all
  note q = enable_preemption_quiet [OF ny1(2,1), of "env_cfg env" "env_call env" "env_resumed env"]
  have keep: "vtimers (x'\<lparr>v_preemption_count := m, v_delivery := dl\<rparr>) es = vtimers x' es"
      "vtimers (x'\<lparr>v_preemption_count := m, v_pending_external_interrupts := pe\<rparr>) es = vtimers x' es" for m dl pe es
    by (rule vtimers_cong; simp)+
  show ?thesis
    using x' cur q v(2)
    by (auto simp: vexit_vmx_preempt_def vemu_set_interrupt_pending_def vemu_do_set_interrupt_pending_def
        vemu_is_interrupt_pending_def keep)
qed

section \<open>Applications\<close>

definition no_env :: venv where
  "no_env = \<lparr>env_cfg = mcfs_config, env_call = (\<lambda>_ _ k. k), env_resumed = id, env_others = id,
     env_addresses = \<lparr>ca_vcpu_entry = 0, ca_vexit_stack_end = (\<lambda>_. 0)\<rparr>, env_partition = (\<lambda>_. None)\<rparr>"

definition regs_of :: "u64 \<Rightarrow> u64 \<Rightarrow> u64 \<Rightarrow> u64 \<Rightarrow> u64 \<Rightarrow> u64 \<Rightarrow> regs" where
  "regs_of rax rdi rsi rdx rcx r8 = (ii_regs zero_interrupt_info)\<lparr>rg_rax := rax, rg_rdi := rdi, rg_rsi := rsi, rg_rdx := rdx,
     rg_rcx := rcx, rg_r8 := r8\<rparr>"

lemma vrunning_10_timers: "vtimers (tw_vcpu vrunning_10 10) []" "\<not> v_yield_request (tw_vcpu vrunning_10 10)"
proof -
  show "vtimers (tw_vcpu vrunning_10 10) []"
    by (simp add: vtimers_def delta_repr_def sync_chain_def Let_def vrunning_10_def framed_defs delta_chain_peekfront_def
        dq_peekfront_def empty_dq_def dq_repr_def zero_vmcs_def)
  show "\<not> v_yield_request (tw_vcpu vrunning_10 10)" by (simp add: vrunning_10_def framed_defs)
qed


text \<open>One timer, armed for 100 ticks, whose time has run out.\<close>

definition one_timer :: "u32 \<Rightarrow> vtwan" where
  "one_timer rem = upd_vcpu 10 (\<lambda>x. x\<lparr>
     v_timer_chain := \<lparr>dc_mem = (\<lambda>_. \<lparr>ld_next = None, ld_prev = None\<rparr>), dc_delta = (\<lambda>_. 100), dc_dq = \<lparr>dq_front = Some 0, dq_rear = Some 0\<rparr>\<rparr>,
     v_timers := (v_timers x)(0 := \<lparr>vt_vector = 40, vt_periodic = True, vt_armed = True, vt_nmi = False, vt_ticks = 100\<rparr>),
     v_vmcs := (v_vmcs x)\<lparr>vm_timer_value := rem, vm_activate_timer := True, vm_save_timer := True\<rparr>\<rparr>) vrunning_10"

lemma one_timer_facts:
  "vtimers (tw_vcpu (one_timer rem) 10) [(0, unat rem)]" "\<not> v_yield_request (tw_vcpu (one_timer rem) 10)"
  "vcurrent_vcpu (one_timer rem) 1 = Some 10"
proof -
  show "vtimers (tw_vcpu (one_timer rem) 10) [(0, unat rem)]"
    using unat_lt2p' [of rem] by (simp add: vtimers_def delta_repr_def sync_chain_def Let_def one_timer_def vrunning_10_def framed_defs delta_chain_peekfront_def
        dq_peekfront_def dq_repr_def)
  show "\<not> v_yield_request (tw_vcpu (one_timer rem) 10)" "vcurrent_vcpu (one_timer rem) 1 = Some 10"
    using vrunning_10_timers(2) vrunning_10_facts(1) by (simp_all add: one_timer_def)
qed

theorem vdisarm_timern_spec_witness:
  "\<exists>k'. vdisarm_timern no_env 1 (regs_of 6 0 0 0 0 0) (one_timer 30) = Some (0, k') \<and> vtimers (tw_vcpu k' 10) []"
proof -
  have "vcall_arg1_8 (regs_of 6 0 0 0 0 0) = 0" "0 < vcf_num_vtimers (env_cfg no_env)"
    by (simp_all add: regs_of_def vcall_arg1_8_def no_env_def mcfs_config_def)
  then show ?thesis
    using vdisarm_timern_spec [OF one_timer_facts(3,2), of 30 "[]" 0 30 "[]" "regs_of 6 0 0 0 0 0" no_env] one_timer_facts(1) [of 30] by simp
qed

theorem vtimer_expiry_spec_witness:
  "\<exists>k'. vexit_vmx_preempt no_env 1 (one_timer 0) = Some k' \<and> vemu_is_interrupt_pending 10 40 False k' \<and> vtimers (tw_vcpu k' 10) [(0, 100)]"
  using vtimer_expiry_spec [OF one_timer_facts(3,2), of 0 0 "[]" "v_timers (tw_vcpu (one_timer 0) 10) 0" no_env] one_timer_facts(1) [of 0]
  by (simp add: one_timer_def timer_insert_def)

end
