(* ===== verification/Twan_Vcalls.thy ===== *)
theory Twan_Vcalls
  imports Twan_Vtimer
begin

text \<open>
  The hypercalls (\<open>vportal/vcalls.c\<close>, \<open>vportal/vcalls.h\<close>): one definition per entry of \<^verbatim>\<open>vcall_table\<close>, with the types of
  \<^theory_text>\<open>Twan_Vtimer\<close>, and the dispatcher. A handler first enables preemption, which may give the CPU to another virtual
  CPU for a while; what it does afterwards starts from the state it finds then. Shown: the privileged calls
  do nothing for a caller that is not of the root partition; what the dispatcher does with the privilege
  level, the number and the result of a call; acknowledging an interrupt undoes its injection; what the
  creation of a partition does on every path; that a partition that is still registered is not created again.
\<close>

section \<open>Definitions: calls of every partition\<close>

abbreviation enabled :: "venv \<Rightarrow> u32 \<Rightarrow> vtwan \<Rightarrow> (vtwan \<Rightarrow> 'a option) \<Rightarrow> 'a option" where
  "enabled env this k f \<equiv> Option.bind (enable_preemption_in env this k) f"

definition vsubscribe_external_interrupt_vector :: vcall_func where
  "vsubscribe_external_interrupt_vector env this r k = enabled env this k (\<lambda>k.
     let vector = vcall_arg1_8 r; current = vcur k this
     in if bmp256_test (v_allowed_external_vectors (tw_vcpu k current)) vector then
          let is_pend = vemu_is_interrupt_pending current vector (vector = NMI) k;
              k = upd_vcpu current (\<lambda>x. x\<lparr>v_subscribed_vectors := bmp256_set (v_subscribed_vectors x) vector\<rparr>) k
          in Some (0, on_dispatch this vector (\<lambda>(h, d).
               if \<not> is_pend \<and> \<not> dq_is_queued h d (current, vector)
               then dq_pushback (h, d) (current, vector) else (h, d)) k)
        else Some (- EPERM, k))"

definition vunsubscribe_external_interrupt_vector :: vcall_func where
  "vunsubscribe_external_interrupt_vector env this r k = enabled env this k (\<lambda>k.
     let vector = vcall_arg1_8 r; current = vcur k this
     in if bmp256_test (v_allowed_external_vectors (tw_vcpu k current)) vector then
          let k = upd_vcpu current (\<lambda>x. x\<lparr>v_subscribed_vectors := bmp256_unset (v_subscribed_vectors x) vector\<rparr>) k
          in Some (0, on_dispatch this vector (\<lambda>(h, d).
               if dq_is_queued h d (current, vector) then dq_dequeue (h, d) (current, vector) else (h, d)) k)
        else Some (- EPERM, k))"

definition VIPI_DM_EXTERNAL :: u32 where "VIPI_DM_EXTERNAL = 0"
definition VIPI_DM_UNPAUSE :: u32 where "VIPI_DM_UNPAUSE = 1"

definition vipi :: vcall_func where
  "vipi env this r k = enabled env this k (\<lambda>k.
     let cfg = env_cfg env; target_processor_id = vcall_arg1_32 r; delivery_mode = vcall_arg2_32 r;
         vector = vcall_arg3_8 r; nmi = (vcall_arg4_32 r \<noteq> 0)
     in Some (if delivery_mode = VIPI_DM_EXTERNAL
              then vemu_inject_external_interrupt_local this target_processor_id vector nmi k
              else if \<not> vcf_strict cfg \<and> delivery_mode = VIPI_DM_UNPAUSE then
                if v_processor_id (tw_vcpu k (vcur k this)) = target_processor_id then (- EINVAL, k)
                else vemu_unpause_vcpu_local cfg this target_processor_id True vector nmi k
              else (- EINVAL, k)))"

definition vipi_far :: vcall_func where
  "vipi_far env this r k = enabled env this k (\<lambda>k.
     let cfg = env_cfg env; vid = vcall_arg1_8 r; processor_id = vcall_arg2_32 r; delivery_mode = vcall_arg3_32 r;
         vector = vcall_arg4_8 r; nmi = (vcall_arg5_32 r \<noteq> 0)
     in Some (if delivery_mode = VIPI_DM_EXTERNAL
              then vemu_inject_external_interrupt_far this vid processor_id (ucast vector) nmi k
              else if \<not> vcf_strict cfg \<and> delivery_mode = VIPI_DM_UNPAUSE
              then vemu_unpause_vcpu_far cfg this vid processor_id True vector nmi k
              else (- EINVAL, k)))"

definition vtlb_shootdown :: vcall_func where
  "vtlb_shootdown env this r k = enabled env this k (\<lambda>k.
     vemu_tlb_invalidate (env_others env) this (vcall_arg1_8 r) k)"

definition INTL_MAX :: u8 where "INTL_MAX = 15"

definition vis_serviced :: vcall_func where
  "vis_serviced env this r k = enabled env this k (\<lambda>k.
     let intl = vcall_arg1_8 r
     in if intl > INTL_MAX then Some (- EINVAL, k)
        else let in_intl = (ucast (vd_in_intl (v_delivery (tw_vcpu k (vcur k this)))) :: u32)
             in Some (if and (drop_bit (unat intl) in_intl) 1 \<noteq> 0 then 1 else 0, k))"

definition vis_pending :: vcall_func where
  "vis_pending env this r k = enabled env this k (\<lambda>k.
     let vector = vcall_arg1_8 r; nmi = (vcall_arg2_32 r \<noteq> 0); current = vcur k this
     in if nmi \<and> vector \<noteq> NMI then Some (- EINVAL, k)
        else let is_pending = (if nmi then vd_nmi_pending (v_delivery (tw_vcpu k current))
                               else bmp256_test (v_pending_external_interrupts (tw_vcpu k current)) vector)
             in Some (if is_pending then 1 else 0, k))"

text \<open>The update of the delivery data under the lock.\<close>

definition eoi_delivery :: "vinterrupt_delivery_data \<Rightarrow> vinterrupt_delivery_data" where
  "eoi_delivery d =
     (let serviced_intl = fls32 (ucast (vd_in_intl d))
      in if serviced_intl \<noteq> -1
         then d\<lparr>vd_in_intl := and (vd_in_intl d) (not (push_bit (nat serviced_intl) 1))\<rparr> else d)"

definition veoi :: vcall_func where
  "veoi env this r k = enabled env this k (\<lambda>k.
     Some (0, upd_vcpu (vcur k this) (\<lambda>x. x\<lparr>v_delivery := eoi_delivery (v_delivery x)\<rparr>) k))"

text \<open>A virtual CPU that is no longer the current one after its self-IPI goes on when it is resumed.\<close>

definition vself_ipi_return :: "venv \<Rightarrow> u32 \<Rightarrow> vtwan \<Rightarrow> vtwan \<Rightarrow> vtwan" where
  "vself_ipi_return env this k k' =
     (if vcurrent_vcpu k' this = vcurrent_vcpu k this then k' else env_resumed env k')"

definition vsched_pause :: "venv \<Rightarrow> u32 \<Rightarrow> bool \<Rightarrow> vtwan \<Rightarrow> vtwan option" where
  "vsched_pause env this pv_spin k =
     map_option (vself_ipi_return env this k) (vsched_pause_ipi (env_cfg env) (env_call env) this pv_spin k)"

definition vsched_yield :: "venv \<Rightarrow> u32 \<Rightarrow> vtwan \<Rightarrow> vtwan option" where
  "vsched_yield env this k =
     map_option (vself_ipi_return env this k) (vsched_yield_ipi (env_cfg env) (env_call env) this k)"

definition vyield :: vcall_func where
  "vyield env this r k =
     (if vcf_strict (env_cfg env) then map_option (Pair (- EINVAL)) (enable_preemption_in env this k)
      else Option.bind (vsched_yield env this k) (\<lambda>k. map_option (Pair 0) (enable_preemption_in env this k)))"

definition vpause :: vcall_func where
  "vpause env this r k =
     (if vcf_strict (env_cfg env) then map_option (Pair (- EINVAL)) (enable_preemption_in env this k)
      else Option.bind (vsched_pause env this False k) (\<lambda>k. map_option (Pair 0) (enable_preemption_in env this k)))"

definition vread_vcpu_state :: vcall_func where
  "vread_vcpu_state env this r k = enabled env this k (\<lambda>k.
     Some (vemu_read_vcpu_state_local this (vcall_arg1_32 r) k, k))"

definition vread_vcpu_state_far :: vcall_func where
  "vread_vcpu_state_far env this r k = enabled env this k (\<lambda>k.
     Some (vemu_read_vcpu_state_far this (vcall_arg1_8 r) (vcall_arg2_32 r) k, k))"

text \<open>A negative \<^verbatim>\<open>int\<close> stands for the CPU of the caller.\<close>

definition this_if_negative :: "u32 \<Rightarrow> u32 \<Rightarrow> u32" where
  "this_if_negative this n = (if sint n < 0 then this else n)"

definition vread_criticality_level :: vcall_func where
  "vread_criticality_level env this r k = enabled env this k (\<lambda>k.
     Some (vemu_read_criticality_level (vcur_vid k this) (this_if_negative this (vcall_arg1_32 r)) k, k))"

definition vwrite_criticality_level :: vcall_func where
  "vwrite_criticality_level env this r k = enabled env this k (\<lambda>k.
     Some (vemu_write_criticality_level (env_cfg env) (vcur_vid k this) (this_if_negative this (vcall_arg1_32 r))
             (vcall_arg2_8 r) k))"

definition vpv_spin_pause :: vcall_func where
  "vpv_spin_pause env this r k =
     (if vcf_strict (env_cfg env) then map_option (Pair (- EINVAL)) (enable_preemption_in env this k)
      else Option.bind (vsched_pause env this True k) (\<lambda>k. map_option (Pair 0) (enable_preemption_in env this k)))"

definition vpv_spin_kick :: vcall_func where
  "vpv_spin_kick env this r k = enabled env this k (\<lambda>k.
     Some (if vcf_strict (env_cfg env) then (- EINVAL, k)
           else vemu_pv_spin_kick_local (env_cfg env) this (vcall_arg1_32 r) k))"

definition vpv_spin_kick_far :: vcall_func where
  "vpv_spin_kick_far env this r k = enabled env this k (\<lambda>k.
     Some (if vcf_strict (env_cfg env) then (- EINVAL, k)
           else vemu_pv_spin_kick_far (env_cfg env) this (vcall_arg1_8 r) (vcall_arg2_32 r) k))"

section \<open>Definitions: calls of the root partition\<close>

abbreviation vcur_root :: "vtwan \<Rightarrow> u32 \<Rightarrow> bool" where
  "vcur_root k this \<equiv> v_root (tw_vcpu k (vcur k this))"

definition valter_vcpu_timeslice :: vcall_func where
  "valter_vcpu_timeslice env this r k = enabled env this k (\<lambda>k.
     let vid = vcall_arg1_8 r; processor_id = vcall_arg2_32 r; ticks = vcall_arg3_32 r
     in if \<not> vcur_root k this then Some (- EPERM, k)
        else Some (vemu_alter_vcpu (env_cfg env) this vid processor_id True ticks False 0 k))"

definition valter_vcpu_criticality :: vcall_func where
  "valter_vcpu_criticality env this r k = enabled env this k (\<lambda>k.
     let vid = vcall_arg1_8 r; processor_id = vcall_arg2_32 r; criticality = vcall_arg3_8 r
     in if \<not> vcur_root k this then Some (- EPERM, k)
        else Some (vemu_alter_vcpu (env_cfg env) this vid processor_id False 0 True criticality k))"

definition vset_route :: vcall_func where
  "vset_route env this r k = enabled env this k (\<lambda>k.
     let target_vid = vcall_arg1_8 r; sender_vid = vcall_arg2_8 r; route_type = vcall_arg3_32 r;
         allow = (vcall_arg4_32 r \<noteq> 0)
     in if \<not> vcur_root k this then Some (- EPERM, k)
        else if ucast sender_vid = v_vid (tw_vcpu k (vcur k this)) then Some (- EINVAL, k)
        else Some (vemu_set_route target_vid sender_vid route_type allow k))"

definition vset_vcpu_subscription_perm :: vcall_func where
  "vset_vcpu_subscription_perm env this r k = enabled env this k (\<lambda>k.
     let vid = vcall_arg1_8 r; processor_id = vcall_arg2_32 r; vector = vcall_arg3_8 r; allow = (vcall_arg4_32 r \<noteq> 0)
     in if \<not> vcur_root k this then Some (- EPERM, k)
        else if ucast vid = v_vid (tw_vcpu k (vcur k this)) then Some (- EINVAL, k)
        else Some (vemu_set_vcpu_subscription_perms vid processor_id vector allow k))"

definition vset_criticality_perm :: vcall_func where
  "vset_criticality_perm env this r k = enabled env this k (\<lambda>k.
     let vid = vcall_arg1_8 r; phys_processor_id = vcall_arg2_32 r; perm = vcall_arg3_32 r
     in if \<not> vcur_root k this then Some (- EPERM, k)
        else if ucast vid = v_vid (tw_vcpu k (vcur k this)) then Some (- EINVAL, k)
        else Some (vemu_set_criticality_perm (env_cfg env) vid phys_processor_id perm k))"

text \<open>The output of \<^verbatim>\<open>vdbgf\<close> is not part of the state.\<close>

definition vkdbg :: vcall_func where
  "vkdbg env this r k = enabled env this k (\<lambda>k.
     if \<not> vcur_root k this then Some (- EPERM, k)
     else if vcall_arg1_64 r = 0 then Some (- EINVAL, k)
     else Some (0, k))"

definition vcreate_partition :: vcall_func where
  "vcreate_partition env this r k = enabled env this k (\<lambda>k.
     if \<not> vcur_root k this then Some (- EPERM, k)
     else
       let vpartition = env_partition env (vcall_arg1_64 r);
           err = vpartition_precheck (env_cfg env) vpartition k
       in if err < 0 then Some (err, k)
          else
            let (vid, k) = vpartition_id_alloc k
            in if vid < 0 then Some (- ENOSPC, k)
               else
                 let k = vpartition_setup (env_cfg env) (env_addresses env) this (the vpartition) (word_of_int vid) k
                 in map_option (Pair vid) (vpartition_push (env_cfg env) this (the vpartition) k))"

definition vdestroy_partition :: vcall_func where
  "vdestroy_partition env this r k = enabled env this k (\<lambda>k.
     let vid = vcall_arg1_8 r
     in if \<not> vcur_root k this then Some (- EPERM, k)
        else if ucast vid = v_vid (tw_vcpu k (vcur k this)) then Some (- EINVAL, k)
        else vteardown (env_cfg env) this vid k)"

definition vframe_set :: vcall_func where
  "vframe_set env this r k = enabled env this k (\<lambda>k.
     if \<not> vcf_mcfs (env_cfg env) then Some (- EINVAL, k)
     else if \<not> vcur_root k this then Some (- EPERM, k)
     else Some (vemu_vframe_set (env_cfg env) (vcall_arg1_8 r) (vcall_arg2_32 r) (vcall_arg3_32 r) k))"

definition vframe_unset :: vcall_func where
  "vframe_unset env this r k = enabled env this k (\<lambda>k.
     if \<not> vcf_mcfs (env_cfg env) then Some (- EINVAL, k)
     else if \<not> vcur_root k this then Some (- EPERM, k)
     else Some (vemu_vframe_unset (env_cfg env) (this_if_negative this (vcall_arg1_32 r)) (vcall_arg2_32 r) k))"

section \<open>Definitions: the table and the dispatcher\<close>

definition vcall_table :: "vcall_func list" where
  "vcall_table =
     [vsubscribe_external_interrupt_vector, vunsubscribe_external_interrupt_vector, vipi, vipi_far, vtlb_shootdown,
      varm_timern, vdisarm_timern, valter_vcpu_timeslice, valter_vcpu_criticality, vis_serviced, vis_pending, veoi,
      vyield, vpause, vread_vcpu_state, vread_vcpu_state_far, vset_route, vset_vcpu_subscription_perm,
      vset_criticality_perm, vread_criticality_level, vwrite_criticality_level, vpv_spin_pause, vpv_spin_kick,
      vpv_spin_kick_far, vkdbg, vcreate_partition, vdestroy_partition, vframe_set, vframe_unset]"

definition vcall_dispatcher :: "venv \<Rightarrow> u32 \<Rightarrow> regs \<Rightarrow> vtwan \<Rightarrow> (regs \<times> vtwan) option" where
  "vcall_dispatcher env this r k =
     (case vis_guest_cpl0 (v_vmcs (tw_vcpu k (vcur k this))) of
        None \<Rightarrow> map_option (\<lambda>k. (r, vqueue_inject_gp0 (vcur k this) k)) (enable_preemption_in env this k)
      | Some mode \<Rightarrow>
          let id = rg_rax r
          in case (if unat id \<ge> length vcall_table then map_option (Pair (- EINVAL)) (enable_preemption_in env this k)
                   else (vcall_table ! unat id) env this r k) of
               None \<Rightarrow> None
             | Some (ret, k) \<Rightarrow>
                 let ret = word_of_int ret :: u64;
                     ret = (if mode \<noteq> VOP_64_BIT then and ret 0xffffffff else ret)
                 in Some (r\<lparr>rg_rax := ret\<rparr>, k))"

section \<open>The authority of the partitions\<close>

text \<open>What says who may do what to whom: the table, the partitions with their routes and permissions, and of a
  virtual CPU its partition, privilege, permitted vectors, criticality, time slice, access bitmaps and termination
  flag; and the frames that it owns.\<close>

definition vcpu_authority :: "vcpu \<Rightarrow> _" where
  "vcpu_authority x = (v_root x, v_vid x, v_vpartition x, v_allowed_external_vectors x, v_criticality x, v_time_slice_ticks x,
     v_arch x, v_terminate x)"

definition authority :: "vtwan \<Rightarrow> _" where
  "authority k = (tw_table k, tw_partition k, tw_vids k, tw_root_vid k, vcpu_authority \<circ> tw_vcpu k,
     \<lambda>c. vs_frames (vsched_at k c))"

lemma authority_upd_vcpu:
  "vcpu_authority (f (tw_vcpu k v)) = vcpu_authority (tw_vcpu k v) \<Longrightarrow> authority (upd_vcpu v f k) = authority k"
  by (auto simp: authority_def fun_eq_iff)

lemma authority_upd_vsched:
  "vs_frames (f (vsched_at k c)) = vs_frames (vsched_at k c) \<Longrightarrow> authority (upd_vsched c f k) = authority k"
  by (auto simp: authority_def fun_eq_iff)

lemma authority_upd_cpu:
  "vc_vscheduler (f (tw_cpu k c)) = vc_vscheduler (tw_cpu k c) \<Longrightarrow> authority (upd_vcpu_cpu c f k) = authority k"
  by (auto simp: authority_def fun_eq_iff vsched_at_def)

lemma authority_queues [simp]:
  "authority (on_dispatch c x g k) = authority k" "authority (on_sender_dq c h k) = authority k"
  "authority (k\<lparr>tw_node := m\<rparr>) = authority k" "authority (k\<lparr>tw_sent_ipis := is\<rparr>) = authority k"
  by (simp_all add: authority_def) (simp_all add: vsched_at_def)

lemmas authority_upds = authority_upd_vcpu authority_upd_vsched authority_upd_cpu

lemma authority_fold: "(\<And>i k. authority (g i k) = authority k) \<Longrightarrow> authority (fold g is k) = authority k"
  by (induction "is" arbitrary: k) simp_all

lemma authority_vcpu:
  "authority k' = authority k \<Longrightarrow> v_root (tw_vcpu k' v) = v_root (tw_vcpu k v) \<and> v_terminate (tw_vcpu k' v) = v_terminate (tw_vcpu k v)"
  by (auto simp: authority_def vcpu_authority_def fun_eq_iff)

section \<open>Scheduling keeps the authority\<close>

lemma authority_on_vqueue [simp]:
  "authority (on_vqueue c i g k) = authority k" "authority (on_paused_queue c h k) = authority k"
  by (simp_all add: on_vqueue_def on_paused_queue_def split_beta authority_upd_vsched)

lemma authority_push [simp]:
  "authority (vsched_push v k) = authority k" "authority (vsched_push_paused v k) = authority k"
  by (simp_all add: vsched_push_def vsched_push_paused_def Let_def authority_upd_vsched authority_fold del: upt_Suc)

lemma authority_put_ctx [simp]: "authority (vsched_put_ctx v ctx k) = authority k"
  by (simp add: vsched_put_ctx_def authority_upd_vcpu vcpu_authority_def)

lemma authority_unpause [simp]: "authority (vsched_unpause cfg v k) = authority k"
  by (simp add: vsched_unpause_def mcfs_unpause_def mcqs_unpause_def mcqs_dequeue_paused_def authority_upds vcpu_authority_def)

lemma authority_put [simp]:
  "authority (vsched_do_put cfg v b ctx k) = authority k" "authority (vsched_do_put_paused cfg v p b ctx k) = authority k"
  by (simp_all add: vsched_do_put_def vsched_do_put_paused_def Let_def authority_upds vcpu_authority_def)

lemma authority_pop [simp]: "authority (snd (vsched_pop cfg this k)) = authority k"
  by (auto simp: vsched_pop_def mcfs_pop_def mcqs_pop_def authority_upds split: option.split)

lemma authority_enter_ctx [simp]: "authority (vsched_enter_ctx this v k) = authority k"
  by (simp add: vsched_enter_ctx_def Let_def authority_upds vcpu_authority_def)

lemma authority_arm_timer [simp]: "authority (vsched_arm_timer this t k) = authority k"
  by (simp add: vsched_arm_timer_def vsched_timer_reload_def authority_upds)

lemma authority_get [simp]: "authority (snd (vsched_get cfg this k)) = authority k"
  by (simp add: vsched_get_def split_beta split: option.split)

lemma authority_start_schedule:
  assumes "\<And>f v k. authority (call f v k) = authority k" and "vsched_start_schedule call this t k = Some k'"
  shows "authority k' = authority k"
  using assms by (auto simp: vsched_start_schedule_def split: option.splits)

lemma authority_get_or_idle:
  assumes "\<And>f v k. authority (call f v k) = authority k" and "vsched_get_or_idle cfg call this k = Some (v, k')"
  shows "authority k' = authority k"
proof -
  note s = authority_start_schedule [OF assms(1)]
  show ?thesis
    using assms(2) s authority_get [of cfg this k]
    by (auto simp: vsched_get_or_idle_def split_beta Let_def authority_upd_vsched split: option.splits dest!: s)
qed

lemma authority_reschedule:
  assumes "\<And>f v k. authority (call f v k) = authority k" and "\<not> v_terminate (tw_vcpu k current)"
    and "vthis_vsched_reschedule cfg call this current k = Some k'"
  shows "authority k' = authority k"
  using assms(2,3)
  by (auto simp: vthis_vsched_reschedule_def Let_def authority_upds vcpu_authority_def split: option.splits if_splits
      dest!: authority_start_schedule [OF assms(1)])

section \<open>The services keep the authority\<close>

lemma authority_vipi_async [simp]: "authority (snd (vipi_async c t k)) = authority k"
  by (simp add: vipi_async_def)

lemma authority_set_pending [simp]:
  "authority (vemu_do_set_interrupt_pending v vec nmi k) = authority k"
  "authority (snd (vemu_set_interrupt_pending v vec nmi k)) = authority k"
  by (simp_all add: vemu_set_interrupt_pending_def vemu_do_set_interrupt_pending_def authority_upd_vcpu vcpu_authority_def)

lemma authority_do_inject [simp]: "authority (vemu_do_inject_external_interrupt this v vec nmi k) = authority k"
  by (simp add: vemu_do_inject_external_interrupt_def Let_def)

lemma authority_inject [simp]:
  "authority (snd (vemu_inject_external_interrupt_local this i vec nmi k)) = authority k"
  "authority (snd (vemu_inject_external_interrupt_far this vid i w nmi k)) = authority k"
  by (simp_all add: vemu_inject_external_interrupt_local_def vemu_inject_external_interrupt_far_def Let_def split: option.split)

lemma authority_do_unpause [simp]: "authority (snd (vemu_do_unpause_vcpu cfg v b vec nmi k)) = authority k"
  by (simp add: vemu_do_unpause_vcpu_def Let_def)

lemma authority_unpause_vcpu [simp]:
  "authority (snd (vemu_unpause_vcpu_local cfg this i b vec nmi k)) = authority k"
  "authority (snd (vemu_unpause_vcpu_far cfg this vid i b vec nmi k)) = authority k"
  by (simp_all add: vemu_unpause_vcpu_local_def vemu_unpause_vcpu_far_def Let_def split: option.split)

lemma authority_kick [simp]:
  "authority (snd (vemu_pv_spin_kick_local cfg this i k)) = authority k"
  "authority (snd (vemu_pv_spin_kick_far cfg this vid i k)) = authority k"
  by (simp_all add: vemu_pv_spin_kick_local_def vemu_pv_spin_kick_far_def vemu_do_pv_spin_kick_def Let_def
      authority_upd_vcpu vcpu_authority_def split: option.split)

lemma authority_write_level [simp]: "authority (snd (vemu_write_criticality_level cfg vid c l k)) = authority k"
  by (simp add: vemu_write_criticality_level_def vsched_mcs_write_criticality_level_def Let_def authority_upd_vsched split: option.split)

lemma authority_tlb_mark: "authority (vtlb_mark this current v k) = authority k"
  by (simp add: vtlb_mark_def vipi_queue_ack_def Let_def authority_upd_vcpu vcpu_authority_def)

lemma authority_wait_ack:
  "vipi_wait_ack others this i v k = Some k' \<Longrightarrow> (\<And>k. authority (others k) = authority k) \<Longrightarrow> authority k' = authority k"
proof (induction rule: vipi_wait_ack.raw_induct [rotated, consumes 1, case_names step])
  case (step wait others' this' i' v' k1 k2)
  show ?case using step.IH [of others' this' i' v' "others' k1"] step.prems step.hyps by (simp split: if_splits)
qed

lemma authority_tlb_wait:
  assumes "\<And>k. authority (others k) = authority k"
  shows "vtlb_wait others this current is k = Some k' \<Longrightarrow> authority k' = authority k"
  by (induction "is" arbitrary: k) (auto split: if_splits option.splits dest!: authority_wait_ack [OF _ assms])

lemma authority_tlb_invalidate:
  assumes "\<And>k. authority (others k) = authority k" and "vemu_tlb_invalidate others this vid k = Some (ret, k')"
  shows "authority k' = authority k"
proof -
  have f: "authority (vtlb_first_pass this current p k) = authority k" for current p
    by (simp add: vtlb_first_pass_def Let_def authority_fold authority_tlb_mark authority_upd_vcpu vcpu_authority_def)
  show ?thesis
    using assms(2) f by (auto simp: vemu_tlb_invalidate_def Let_def split: option.splits if_splits
        dest!: authority_tlb_wait [OF assms(1)])
qed

section \<open>What happens while the caller does not run\<close>

text \<open>The rest of the system leaves the authority alone, and when the virtual CPU is resumed it is the current
  one again.\<close>

definition env_passive :: "venv \<Rightarrow> u32 \<Rightarrow> vcpu_ptr \<Rightarrow> bool" where
  "env_passive env this v \<longleftrightarrow> (\<forall>f w k. authority (env_call env f w k) = authority k) \<and>
     (\<forall>k. authority (env_others env k) = authority k) \<and>
     (\<forall>k. authority (env_resumed env k) = authority k \<and> vcurrent_vcpu (env_resumed env k) this = Some v)"

definition unprivileged :: "vtwan \<Rightarrow> u32 \<Rightarrow> vcpu_ptr \<Rightarrow> bool" where
  "unprivileged k this v \<longleftrightarrow> vcurrent_vcpu k this = Some v \<and> \<not> v_root (tw_vcpu k v) \<and> \<not> v_terminate (tw_vcpu k v)"

lemma unprivileged_mono:
  "unprivileged k this v \<Longrightarrow> authority k' = authority k \<Longrightarrow> vcurrent_vcpu k' this = Some v \<Longrightarrow> unprivileged k' this v"
  using authority_vcpu [of k' k v] by (simp add: unprivileged_def)

lemma authority_yield_ipi:
  assumes "env_passive env this v" and "unprivileged k this v" and "vsched_yield_ipi (env_cfg env) (env_call env) this k = Some k'"
  shows "authority k' = authority k"
proof -
  have c: "authority (env_call env f w k1) = authority k1" for f w k1 using assms(1) by (simp add: env_passive_def)
  have t: "\<not> v_terminate (tw_vcpu (set_vyield False v k) v)" using assms(2) by (simp add: unprivileged_def)
  have "vthis_vsched_reschedule (env_cfg env) (env_call env) this v (set_vyield False v k) = Some k'"
    using assms(2,3) by (simp add: vsched_yield_ipi_def unprivileged_def)
  from authority_reschedule [OF c t this] show ?thesis by (simp add: authority_upd_vcpu vcpu_authority_def)
qed

lemma enable_preemption_authority:
  assumes "env_passive env this v" and "unprivileged k this v" and "enable_preemption_in env this k = Some k'"
  shows "authority k' = authority k \<and> unprivileged k' this v"
proof -
  let ?k = "vcurrent_vcpu_enable_preemption_no_yield this k"
  have a: "authority ?k = authority k"
    by (simp add: vcurrent_vcpu_enable_preemption_no_yield_def authority_upd_vcpu vcpu_authority_def)
  have u: "unprivileged ?k this v"
    by (rule unprivileged_mono [OF assms(2) a])
      (use assms(2) in \<open>simp add: unprivileged_def vcurrent_vcpu_enable_preemption_no_yield_def\<close>)
  have "authority k' = authority k \<and> vcurrent_vcpu k' this = Some v"
    using assms(1,3) authority_yield_ipi [OF assms(1) u] a u
    by (auto simp: vcurrent_vcpu_enable_preemption_def vtry_answer_yield_request_def Let_def env_passive_def unprivileged_def split: if_splits)
  then show ?thesis using unprivileged_mono [OF assms(2)] by blast
qed

lemma enabled_authority:
  assumes "env_passive env this v" and "unprivileged k this v" and "enabled env this k f = Some (ret, k')"
    and "\<And>k1. unprivileged k1 this v \<Longrightarrow> f k1 = Some (ret, k') \<Longrightarrow> authority k' = authority k1"
  shows "authority k' = authority k"
proof -
  obtain k1 where "enable_preemption_in env this k = Some k1" "f k1 = Some (ret, k')"
    using assms(3) by (auto simp: bind_eq_Some_conv)
  with enable_preemption_authority [OF assms(1,2)] assms(4) show ?thesis by metis
qed

section \<open>A call of an unprivileged partition keeps the authority\<close>

definition keeps_authority :: "venv \<Rightarrow> u32 \<Rightarrow> vcpu_ptr \<Rightarrow> vcall_func \<Rightarrow> bool" where
  "keeps_authority env this v h \<longleftrightarrow>
     (\<forall>r k ret k'. unprivileged k this v \<longrightarrow> h env this r k = Some (ret, k') \<longrightarrow> authority k' = authority k)"

lemma keeps_enabled:
  assumes "env_passive env this v" and "\<And>r k. h env this r k = enabled env this k (f r)"
    and "\<And>r k ret k'. unprivileged k this v \<Longrightarrow> f r k = Some (ret, k') \<Longrightarrow> authority k' = authority k"
  shows "keeps_authority env this v h"
  using assms enabled_authority [OF assms(1)] unfolding keeps_authority_def by metis

lemma authority_snd: "p = (ret, k') \<Longrightarrow> authority (snd p) = authority k \<Longrightarrow> authority k' = authority k"
  by auto

lemma keeps_subscriptions:
  assumes "env_passive env this v"
  shows "keeps_authority env this v vsubscribe_external_interrupt_vector"
    "keeps_authority env this v vunsubscribe_external_interrupt_vector"
  by (rule keeps_enabled [OF assms], rule vsubscribe_external_interrupt_vector_def vunsubscribe_external_interrupt_vector_def,
      auto simp: Let_def authority_upd_vcpu vcpu_authority_def split: if_splits)+

lemma keeps_interrupts:
  assumes "env_passive env this v"
  shows "keeps_authority env this v vipi" "keeps_authority env this v vipi_far" "keeps_authority env this v vtlb_shootdown"
    "keeps_authority env this v vis_serviced" "keeps_authority env this v vis_pending" "keeps_authority env this v veoi"
proof -
  show "keeps_authority env this v vtlb_shootdown"
    by (rule keeps_enabled [OF assms], rule vtlb_shootdown_def, erule authority_tlb_invalidate [rotated])
      (use assms in \<open>simp add: env_passive_def\<close>)
  show "keeps_authority env this v vipi" "keeps_authority env this v vipi_far"
    by (rule keeps_enabled [OF assms], rule vipi_def vipi_far_def, simp only: Let_def option.inject, erule authority_snd, simp)+
  show "keeps_authority env this v vis_serviced" "keeps_authority env this v vis_pending" "keeps_authority env this v veoi"
    by (rule keeps_enabled [OF assms], rule vis_serviced_def vis_pending_def veoi_def,
        auto simp: Let_def authority_upd_vcpu vcpu_authority_def split: if_splits)+
qed

lemma keeps_reads:
  assumes "env_passive env this v"
  shows "keeps_authority env this v vread_vcpu_state" "keeps_authority env this v vread_vcpu_state_far"
    "keeps_authority env this v vread_criticality_level" "keeps_authority env this v vwrite_criticality_level"
    "keeps_authority env this v vpv_spin_kick" "keeps_authority env this v vpv_spin_kick_far"
  by (rule keeps_enabled [OF assms],
      rule vread_vcpu_state_def vread_vcpu_state_far_def vread_criticality_level_def vwrite_criticality_level_def
        vpv_spin_kick_def vpv_spin_kick_far_def,
      drule option.inject [THEN iffD1], erule authority_snd, simp)+

lemma unprivileged_cur: "unprivileged k this v \<Longrightarrow> \<not> vcur_root k this"
  by (simp add: unprivileged_def)

lemma keeps_privileged:
  assumes "env_passive env this v"
  shows "keeps_authority env this v valter_vcpu_timeslice" "keeps_authority env this v valter_vcpu_criticality"
    "keeps_authority env this v vset_route" "keeps_authority env this v vset_vcpu_subscription_perm"
    "keeps_authority env this v vset_criticality_perm" "keeps_authority env this v vkdbg"
    "keeps_authority env this v vcreate_partition" "keeps_authority env this v vdestroy_partition"
    "keeps_authority env this v vframe_set" "keeps_authority env this v vframe_unset"
  by (rule keeps_enabled [OF assms],
      rule valter_vcpu_timeslice_def valter_vcpu_criticality_def vset_route_def vset_vcpu_subscription_perm_def
        vset_criticality_perm_def vkdbg_def vcreate_partition_def vdestroy_partition_def vframe_set_def vframe_unset_def,
      drule unprivileged_cur, simp add: Let_def split: if_splits)+

lemma keeps_timers:
  assumes "env_passive env this v"
  shows "keeps_authority env this v varm_timern" "keeps_authority env this v vdisarm_timern"
proof -
  have arm: "authority (upd_vcpu w (varm_vmcs t) k) = authority k" for w t k
    by (simp add: authority_upd_vcpu vcpu_authority_def varm_vmcs_def Let_def)
  have dis: "authority (upd_vcpu w (vdisarm_vmcs n) k) = authority k" for w n k
    by (simp add: authority_upd_vcpu vcpu_authority_def vdisarm_vmcs_def vtimer_off_def Let_def split: option.split)
  have en: "authority k2 = authority k"
    if "unprivileged k this v" "enable_preemption_in env this k1 = Some k2" "authority k1 = authority k"
      "vcurrent_vcpu k1 this = vcurrent_vcpu k this" for k k1 k2
    using enable_preemption_authority [OF assms unprivileged_mono [OF that(1)] that(2)] that
    by (simp add: unprivileged_def)
  show "keeps_authority env this v varm_timern"
    unfolding keeps_authority_def varm_timern_def
    by (auto simp: Let_def authority_upd_vcpu vcpu_authority_def arm split: if_splits option.splits dest: en)
  show "keeps_authority env this v vdisarm_timern"
    unfolding keeps_authority_def vdisarm_timern_def
    by (auto simp: Let_def authority_upd_vcpu vcpu_authority_def dis split: if_splits option.splits dest: en)
qed

lemma authority_pause_ipi:
  assumes "env_passive env this v" and "unprivileged k this v"
    and "vsched_pause_ipi (env_cfg env) (env_call env) this pv k = Some k'"
  shows "authority k' = authority k"
proof -
  have c: "authority (env_call env f w k1) = authority k1" for f w k1 using assms(1) by (simp add: env_passive_def)
  have put: "authority k2 = authority k1"
    if "vsched_put_paused cfg this v pv b ctx k1 = Some (paused, k2)" "\<not> v_terminate (tw_vcpu k1 v)" for cfg b ctx k1 k2 paused
    using that by (auto simp: vsched_put_paused_def authority_upd_vcpu vcpu_authority_def split: if_splits vcpu_pv_spin_state.splits)
  have y: "authority (set_vyield b v k1) = authority k1" for b k1 by (simp add: authority_upd_vcpu vcpu_authority_def)
  show ?thesis
    using assms(2,3) y
    by (auto simp: vsched_pause_ipi_def unprivileged_def Let_def split: option.splits if_splits
        dest!: put authority_get_or_idle [OF c])
qed

lemma self_ipi_return:
  assumes "env_passive env this v" and "unprivileged k this v" and "authority k1 = authority k"
  shows "unprivileged (vself_ipi_return env this k k1) this v \<and> authority (vself_ipi_return env this k k1) = authority k"
proof (cases "vcurrent_vcpu k1 this = vcurrent_vcpu k this")
  case True
  then show ?thesis using assms unprivileged_mono [OF assms(2,3)] by (simp add: vself_ipi_return_def unprivileged_def)
next
  case False
  have a: "authority (env_resumed env k1) = authority k" "vcurrent_vcpu (env_resumed env k1) this = Some v"
    using assms(1,3) by (simp_all add: env_passive_def)
  show ?thesis using False a unprivileged_mono [OF assms(2) a] by (simp add: vself_ipi_return_def)
qed

lemma keeps_pauses:
  assumes "env_passive env this v"
  shows "keeps_authority env this v vyield" "keeps_authority env this v vpause" "keeps_authority env this v vpv_spin_pause"
proof -
  note en = enable_preemption_authority [OF assms]
  have y: "unprivileged k1 this v \<and> authority k1 = authority k" if "unprivileged k this v" "vsched_yield env this k = Some k1" for k k1
    using that self_ipi_return [OF assms that(1)] authority_yield_ipi [OF assms that(1)] by (auto simp: vsched_yield_def)
  have p: "unprivileged k1 this v \<and> authority k1 = authority k" if "unprivileged k this v" "vsched_pause env this b k = Some k1" for k k1 b
    using that self_ipi_return [OF assms that(1)] authority_pause_ipi [OF assms that(1)] by (auto simp: vsched_pause_def)
  have two: "authority k' = authority k" if m: "\<And>k1. m = Some k1 \<Longrightarrow> unprivileged k1 this v \<and> authority k1 = authority k"
    and e: "Option.bind m (\<lambda>k. map_option (Pair 0) (enable_preemption_in env this k)) = Some (ret, k')" for m k ret k'
  proof -
    obtain k1 where k1: "m = Some k1" "enable_preemption_in env this k1 = Some k'" using e by (auto simp: bind_eq_Some_conv)
    then show ?thesis using m [OF k1(1)] en [OF _ k1(2)] by simp
  qed
  have one: "authority k' = authority k"
    if "unprivileged k this v" "map_option (Pair c) (enable_preemption_in env this k) = Some (ret, k')" for c k ret k'
    using that en by auto
  show "keeps_authority env this v vyield"
    unfolding keeps_authority_def vyield_def by (auto split: if_splits intro: two [OF y] one simp del: map_option_eq_Some)
  show "keeps_authority env this v vpause"
    unfolding keeps_authority_def vpause_def by (auto split: if_splits intro: two [OF p] one simp del: map_option_eq_Some)
  show "keeps_authority env this v vpv_spin_pause"
    unfolding keeps_authority_def vpv_spin_pause_def by (auto split: if_splits intro: two [OF p] one simp del: map_option_eq_Some)
qed

lemma keeps_table: "env_passive env this v \<Longrightarrow> list_all (keeps_authority env this v) vcall_table"
  by (simp add: vcall_table_def keeps_subscriptions keeps_interrupts keeps_timers keeps_privileged keeps_pauses keeps_reads)

lemma authority_gp0 [simp]: "authority (vqueue_inject_gp0 v k) = authority k"
  by (simp add: vqueue_inject_gp0_def vqueue_synthetic_errcode_def vqueue_idt_vectoring_info_def exception_info_def
      authority_upd_vcpu vcpu_authority_def)

text \<open>C28: Whatever hypercall a virtual CPU that is not of the root partition makes, with whatever arguments, when the call
  returns no table entry, route, permission, criticality, time slice, frame, access bitmap or privilege has
  changed, as long as nobody else changes one meanwhile.\<close>

theorem vcall_authority:
  assumes "env_passive env this v" and "unprivileged k this v" and "vcall_dispatcher env this r k = Some (r', k')"
  shows "authority k' = authority k"
proof -
  note en = enable_preemption_authority [OF assms(1,2)]
  show ?thesis
  proof (cases "vis_guest_cpl0 (v_vmcs (tw_vcpu k (vcur k this)))")
    case None
    then show ?thesis using assms(3) en by (auto simp: vcall_dispatcher_def)
  next
    case (Some mode)
    let ?h = "vcall_table ! unat (rg_rax r)"
    show ?thesis
    proof (cases "length vcall_table \<le> unat (rg_rax r)")
      case True
      then show ?thesis using assms(3) Some en by (auto simp: vcall_dispatcher_def Let_def split: option.splits)
    next
      case False
      then have "keeps_authority env this v ?h" using keeps_table [OF assms(1)] by (auto simp: list_all_length)
      then show ?thesis
        using assms(2,3) False Some by (auto simp: vcall_dispatcher_def Let_def keeps_authority_def split: option.splits)
    qed
  qed
qed

section \<open>The dispatcher\<close>

text \<open>The numbers of the calls that only the root partition may make.\<close>

definition privileged_calls :: "vconfig \<Rightarrow> nat set" where
  "privileged_calls cfg = {7, 8, 16, 17, 18, 24, 25, 26} \<union> (if vcf_mcfs cfg then {27, 28} else {})"

lemma privileged_refused:
  assumes "i \<in> privileged_calls (env_cfg env)" and "enable_preemption_in env this k = Some k1" and "\<not> vcur_root k1 this"
  shows "(vcall_table ! i) env this r k = Some (- EPERM, k1)"
proof -
  have i: "i \<in> {7, 8, 16, 17, 18, 24, 25, 26} \<or> i \<in> {27, 28} \<and> vcf_mcfs (env_cfg env)"
    using assms(1) by (auto simp: privileged_calls_def split: if_splits)
  note h = valter_vcpu_timeslice_def valter_vcpu_criticality_def vset_route_def vset_vcpu_subscription_perm_def
    vset_criticality_perm_def vkdbg_def vcreate_partition_def vdestroy_partition_def vframe_set_def vframe_unset_def
  show ?thesis using i assms(2,3) by (elim disjE conjE insertE) (simp_all add: vcall_table_def h)
qed

text \<open>A privileged call of a virtual CPU that is not of the root partition returns -EPERM, in the width of its mode,
  and does nothing else.\<close>

theorem vcall_privileged_refused:
  assumes "unat (rg_rax r) \<in> privileged_calls (env_cfg env)" and "vis_guest_cpl0 (v_vmcs (tw_vcpu k (vcur k this))) = Some mode"
    and "enable_preemption_in env this k = Some k1" and "\<not> vcur_root k1 this"
  shows "vcall_dispatcher env this r k =
     Some (r\<lparr>rg_rax := if mode = VOP_64_BIT then 0xffffffffffffffff else 0xffffffff\<rparr>, k1)"
proof -
  have "\<not> length vcall_table \<le> unat (rg_rax r)"
    using assms(1) by (auto simp: privileged_calls_def vcall_table_def split: if_splits)
  then show ?thesis
    using assms(2) privileged_refused [OF assms(1,3,4)] by (simp add: vcall_dispatcher_def Let_def EPERM_def)
qed

text \<open>A hypercall from user mode runs no handler and leaves the registers as they are; the next entry of the guest
  injects a general-protection fault.\<close>

theorem vcall_user_mode:
  assumes "vis_guest_cpl0 (v_vmcs (tw_vcpu k (vcur k this))) = None" and "enable_preemption_in env this k = Some k1"
  shows "\<exists>k'. vcall_dispatcher env this r k = Some (r, k') \<and> (\<forall>w. w \<noteq> vcur k1 this \<longrightarrow> tw_vcpu k' w = tw_vcpu k1 w) \<and>
     venter_event (tw_vcpu k' (vcur k1 this)) = EXCEPTION 13 INTERRUPT_TYPE_HARDWARE_EXCEPTION"
  using assms by (simp add: vcall_dispatcher_def vqueue_inject_gp0_def vqueue_synthetic_errcode_def
      vqueue_idt_vectoring_info_def exception_info_def venter_event_def Let_def)

section \<open>Acknowledging an interrupt\<close>

text \<open>C29: An external interrupt has been injected, and the levels in service are those right after the injection: interrupts that came in
  between have been acknowledged. Then an acknowledgement of the guest, with no yield requested, takes the level of that interrupt, and no
  other, out of service, so that the levels in service are what they were before the injection; it leaves the pending interrupts alone.
  Nothing else of the virtual CPU need be as it was.\<close>

theorem veoi_undoes_injection:
  assumes "venter_event x = EXTERNAL vec" and "venter_inject x = (ev, x')"
    and "vcurrent_vcpu k this = Some v" and "vd_in_intl (v_delivery (tw_vcpu k v)) = vd_in_intl (v_delivery x')"
    and "\<not> v_yield_request (tw_vcpu k v)"
  shows "\<exists>k'. veoi env this r k = Some (0, k') \<and>
     vd_in_intl (v_delivery (tw_vcpu k' v)) = vd_in_intl (v_delivery x) \<and>
     vd_nmi_pending (v_delivery (tw_vcpu k' v)) = vd_nmi_pending (v_delivery (tw_vcpu k v)) \<and>
     v_pending_external_interrupts (tw_vcpu k' v) = v_pending_external_interrupts (tw_vcpu k v)"
proof -
  let ?n = "nat (vector_to_intl vec)"
  have n: "?n < 16" "int ?n = vector_to_intl vec" using vector_to_intl_range [of vec] by simp_all
  have e: "vd_in_intl (v_delivery x') = or (vd_in_intl (v_delivery x)) (push_bit ?n 1)"
    using event_effect_inject [of x] assms(1,2) by (simp_all add: event_effect_def Let_def)
  have top: "fls32 (ucast (vd_in_intl (v_delivery x'))) = vector_to_intl vec"
    and below: "\<forall>i. bit (vd_in_intl (v_delivery x)) i \<longrightarrow> int i < vector_to_intl vec"
    using venter_priority_core [OF assms(1,2)] by simp_all
  have "\<not> bit (vd_in_intl (v_delivery x)) ?n" using below [rule_format, of ?n] n(2) by linarith
  then have "and (or (vd_in_intl (v_delivery x)) (push_bit ?n 1)) (not (push_bit ?n 1)) = vd_in_intl (v_delivery x)"
    by (intro bit_word_eqI) (auto simp: bit_simps)
  then have d: "eoi_delivery (v_delivery (tw_vcpu k v)) = (v_delivery (tw_vcpu k v))\<lparr>vd_in_intl := vd_in_intl (v_delivery x)\<rparr>"
    using top n vector_to_intl_range(1) [of vec] by (simp add: eoi_delivery_def Let_def e assms(4))
  note q = enable_preemption_quiet [OF assms(3,5)]
  show ?thesis using assms(3) q d by (simp add: veoi_def)
qed

section \<open>Creating a partition\<close>

text \<open>What the creation of partition \<open>ptr\<close> under the number \<open>vid\<close> makes of state \<open>k\<close>.\<close>

definition created :: "vpartition_ptr \<Rightarrow> u8 \<Rightarrow> vtwan \<Rightarrow> vtwan \<Rightarrow> bool" where
  "created ptr vid k k' \<longleftrightarrow>
     bmp256_test (tw_vids k) vid \<and> (\<forall>w. bmp256_test (tw_vids k) w \<longrightarrow> vid \<le> w) \<and>
     (\<forall>w. bmp256_test (tw_vids k') w \<longleftrightarrow> bmp256_test (tw_vids k) w \<and> w \<noteq> vid) \<and>
     tw_table k' = (tw_table k)(vid := Some ptr) \<and> (\<forall>p. p \<noteq> ptr \<longrightarrow> vpart k' p = vpart k p) \<and> vp_vid (vpart k' ptr) = vid \<and>
     (\<forall>t w. (bmp256_test (senders_of t (vpart k' ptr)) w \<longleftrightarrow> w = tw_root_vid k) \<and> \<not> bmp256_test (receivers_of t (vpart k' ptr)) w) \<and>
     (\<forall>w. w \<notin> set (vpartition_vcpus (vpart k ptr)) \<longrightarrow> tw_vcpu k' w = tw_vcpu k w) \<and>
     (\<forall>w \<in> set (vpartition_vcpus (vpart k ptr)). let x = tw_vcpu k w; x' = tw_vcpu k' w in
        v_state x' = (if v_vboot_state x = VBOOT_READY then VREADY else VPAUSED) \<and> v_vid x' = ucast vid \<and> v_vpartition x' = ptr \<and>
        \<not> vd_nmi_pending (v_delivery x') \<and> (\<forall>i. \<not> bmp256_test (v_pending_external_interrupts x') i) \<and>
        v_root x' = v_root x)"

lemma vpartition_create_created:
  assumes adm: "vpartition_admissible cfg k ptr" and free: "bmp256_test (tw_vids k) vid"
    and low: "\<forall>v. bmp256_test (tw_vids k) v \<longrightarrow> vid \<le> v"
    and k0: "k0 = k\<lparr>tw_vids := bmp256_unset (tw_vids k) vid\<rparr>"
  shows "\<exists>k'. vpartition_push cfg this ptr (vpartition_setup cfg ad this ptr vid k0) = Some k' \<and> created ptr vid k k'"
proof -
  let ?vs = "vpartition_vcpus (vpart k ptr)"
  have same: "vpart k0 = vpart k" "tw_vcpu k0 = tw_vcpu k" "tw_table k0 = tw_table k" "tw_root_vid k0 = tw_root_vid k"
    "tw_vids k0 = bmp256_unset (tw_vids k) vid" by (simp_all add: k0)
  have ok: "\<not> v_terminate (tw_vcpu k0 v) \<and> vis_vboot_state_valid cfg (v_vboot_state (tw_vcpu k0 v))"
    if "v \<in> set (vpartition_vcpus (vpart k0 ptr))" for v
    using adm that by (auto simp: vpartition_admissible_def vcpu_admissible_def Let_def same)
  obtain k1 where k1: "k1 = vpartition_setup cfg ad this ptr vid k0" by blast
  from vpartition_create_ok [OF ok k1] obtain k' where k': "vpartition_push cfg this ptr k1 = Some k'"
    "tw_table k' = (tw_table k)(vid := Some ptr)" "tw_partition k' = tw_partition k1"
    "tw_vids k' = bmp256_unset (tw_vids k) vid"
    "tw_vcpu k' = (\<lambda>w. if w \<in> set ?vs then booted (tw_vcpu k1 w) else tw_vcpu k w)"
    unfolding same by blast
  have p: "vpart k1 = (vpart k)(ptr := vadd_root_sender (tw_root_vid k) ((vpart k ptr)\<lparr>vp_vid := vid\<rparr>))"
    by (simp add: k1 vpartition_setup_keeps same)
  have r: "senders_of t ((vpart k ptr)\<lparr>vp_vid := vid\<rparr>) = senders_of t (vpart k ptr)"
    "receivers_of t ((vpart k ptr)\<lparr>vp_vid := vid\<rparr>) = receivers_of t (vpart k ptr)" for t
    by (cases t; simp)+
  have none: "\<not> bmp256_test (senders_of t (vpart k ptr)) w" "\<not> bmp256_test (receivers_of t (vpart k ptr)) w" for t w
    using adm by (auto simp: vpartition_admissible_def Let_def)
  have v: "vcpu_fresh cfg ad ptr vid w k1 \<and> v_root (tw_vcpu k1 w) = v_root (tw_vcpu k w) \<and>
      v_vboot_state (tw_vcpu k1 w) = v_vboot_state (tw_vcpu k w)" if "w \<in> set ?vs" for w
    using vpartition_setup_vcpu(2,3) [where w = w and k = k0 and ptr = ptr and cfg = cfg and ad = ad and this = this and vid = vid] vpartition_setup_same [of cfg ad this ptr vid k0 w] that
    unfolding k1 same by simp
  have c: "created ptr vid k k'"
    using free low v none unfolding created_def k'(2,3,4,5) p
    by (auto simp: Let_def booted_def vcpu_fresh_def r)
  show ?thesis using k'(1) c unfolding k1 by blast
qed

text \<open>C30: The creation of a partition: refused with the state as it was for a caller that is not of the root partition, for
  a partition that does not pass the checks and when no number is free; otherwise the partition gets the
  lowest free number, is entered in the table, accepts the root partition as its only sender, and its virtual
  CPUs start ready or paused with nothing pending. Whether one of them is privileged is not looked at: the flag
  in the memory that the caller passes is kept.\<close>

theorem vcreate_partition_spec:
  assumes "enable_preemption_in env this k = Some k1"
  shows "\<exists>ret k'. vcreate_partition env this r k = Some (ret, k') \<and>
     (if \<not> vcur_root k1 this then ret = - EPERM \<and> k' = k1
      else case env_partition env (vcall_arg1_64 r) of
             None \<Rightarrow> ret = - EINVAL \<and> k' = k1
           | Some ptr \<Rightarrow>
               if \<not> vpartition_admissible (env_cfg env) k1 ptr then ret \<in> {- EINVAL, - EOPNOTSUPP} \<and> k' = k1
               else if \<forall>w. \<not> bmp256_test (tw_vids k1) w then ret = - ENOSPC \<and> k' = k1
               else \<exists>vid. ret = uint vid \<and> created ptr vid k1 k')"
proof (cases "\<not> vcur_root k1 this")
  case True
  then show ?thesis using assms by (simp add: vcreate_partition_def)
next
  case root: False
  let ?c = "vpartition_precheck (env_cfg env) (env_partition env (vcall_arg1_64 r)) k1"
  show ?thesis
  proof (cases "env_partition env (vcall_arg1_64 r)")
    case None
    then show ?thesis using assms root by (simp add: vcreate_partition_def vpartition_precheck_def EINVAL_def)
  next
    case (Some ptr)
    have codes: "?c \<in> {0, - EINVAL, - EOPNOTSUPP}" "?c = 0 \<longleftrightarrow> vpartition_admissible (env_cfg env) k1 ptr"
      using vpartition_precheck_codes [of "env_cfg env" "Some ptr" k1] vpartition_precheck_iff Some by simp_all
    show ?thesis
    proof (cases "vpartition_admissible (env_cfg env) k1 ptr")
      case False
      then show ?thesis using assms root Some codes by (auto simp: vcreate_partition_def EINVAL_def EOPNOTSUPP_def)
    next
      case adm: True
      obtain n k0 where a: "vpartition_id_alloc k1 = (n, k0)" by fastforce
      from vid_alloc_cases [OF a] show ?thesis
      proof (elim disjE conjE exE)
        assume "n = -1" "k0 = k1" "\<forall>v. \<not> bmp256_test (tw_vids k1) v"
        then show ?thesis using assms root Some adm codes a by (simp add: vcreate_partition_def)
      next
        fix vid
        assume v: "n = uint vid" "bmp256_test (tw_vids k1) vid" "\<forall>v. bmp256_test (tw_vids k1) v \<longrightarrow> vid \<le> v"
          "k0 = k1\<lparr>tw_vids := bmp256_unset (tw_vids k1) vid\<rparr>"
        obtain k' where k': "vpartition_push (env_cfg env) this ptr (vpartition_setup (env_cfg env) (env_addresses env) this ptr vid k0) = Some k'"
          "created ptr vid k1 k'" using vpartition_create_created [OF adm v(2,3,4)] by blast
        have "vcreate_partition env this r k = Some (uint vid, k')"
          using assms root Some adm codes a v(1) k'(1) by (simp add: vcreate_partition_def)
        then show ?thesis using root Some adm v(2) k'(2) by (auto intro!: exI [of _ vid])
      qed
    qed
  qed
qed

section \<open>Applications\<close>

text \<open>An environment in which nothing else happens until the virtual CPU 10 runs again on CPU 1, and in which the address
  \<open>0x1000\<close> of the root partition is that of partition 2, which is not registered yet.\<close>

definition quiet_env :: venv where
  "quiet_env = no_env\<lparr>env_resumed := upd_vcpu_cpu 1 (\<lambda>c. c\<lparr>vc_current_vcpu := Some 10\<rparr>),
     env_partition := (\<lambda>a. if a = 0x1000 then Some 2 else None)\<rparr>"

definition with_spare :: vtwan where
  "with_spare = upd_partition 2 (\<lambda>p. p\<lparr>vp_vcpus := 20\<rparr>) two_partitions"

lemma quiet_env_passive: "env_passive quiet_env 1 10"
  by (auto simp: env_passive_def quiet_env_def no_env_def authority_upd_cpu vcurrent_vcpu_def)

lemma vrunning_10_unprivileged: "unprivileged vrunning_10 1 10"
  by (simp add: unprivileged_def vrunning_10_facts) (simp add: vrunning_10_def framed_defs)

lemma vrunning_10_mode: "vis_guest_cpl0 (v_vmcs (tw_vcpu vrunning_10 10)) = Some VOP_16_BIT"
  by (simp add: vis_guest_cpl0_def vrunning_10_def framed_defs zero_vmcs_def)

lemma rax_regs_of [simp]: "rg_rax (regs_of a b c d e f) = a"
  by (simp add: regs_of_def)

theorem vcall_authority_witness:
  "\<exists>r' k'. vcall_dispatcher quiet_env 1 (regs_of 11 0 0 0 0 0) vrunning_10 = Some (r', k') \<and> authority k' = authority vrunning_10"
proof -
  note q = enable_preemption_quiet [OF vrunning_10_facts(1) vrunning_10_timers(2)]
  obtain r' k' where d: "vcall_dispatcher quiet_env 1 (regs_of 11 0 0 0 0 0) vrunning_10 = Some (r', k')"
    by (simp add: vcall_dispatcher_def vrunning_10_facts(1) vrunning_10_mode vcall_table_def veoi_def q)
  from vcall_authority [OF quiet_env_passive vrunning_10_unprivileged this] d show ?thesis by blast
qed

theorem vcall_privileged_refused_witness:
  "\<exists>k'. vcall_dispatcher quiet_env 1 (regs_of 26 0 0 0 0 0) vrunning_10 =
     Some ((regs_of 26 0 0 0 0 0)\<lparr>rg_rax := 0xffffffff\<rparr>, k')"
proof -
  note q = enable_preemption_quiet [OF vrunning_10_facts(1) vrunning_10_timers(2)]
  have "unat (rg_rax (regs_of 26 0 0 0 0 0)) \<in> privileged_calls (env_cfg quiet_env)"
    by (simp add: privileged_calls_def)
  from vcall_privileged_refused [OF this _ q, of VOP_16_BIT] vrunning_10_unprivileged vrunning_10_mode show ?thesis
    by (simp add: unprivileged_def)
qed

theorem vcall_user_mode_witness:
  "\<exists>k k'. vcall_dispatcher quiet_env 1 (regs_of 25 0 0 0 0 0) k = Some (regs_of 25 0 0 0 0 0, k') \<and>
     venter_event (tw_vcpu k' 10) = EXCEPTION 13 INTERRUPT_TYPE_HARDWARE_EXCEPTION"
proof -
  let ?k = "upd_vcpu 10 (upd_vmcs (\<lambda>m. m\<lparr>vm_guest_cr0 := 1, vm_cs_dpl := 3\<rparr>)) vrunning_10"
  have cur: "vcurrent_vcpu ?k 1 = Some 10" and ny: "\<not> v_yield_request (tw_vcpu ?k 10)"
    using vrunning_10_facts(1) vrunning_10_timers(2) by simp_all
  have user: "vis_guest_cpl0 (v_vmcs (tw_vcpu ?k (vcur ?k 1))) = None"
    using vrunning_10_facts(1) by (simp add: vis_guest_cpl0_def)
  from vcall_user_mode [OF user enable_preemption_quiet [OF cur ny], of quiet_env "regs_of 25 0 0 0 0 0"] cur show ?thesis
    by - (rule exI [of _ ?k], auto)
qed

theorem veoi_undoes_injection_witness:
  "\<exists>k k'. vd_in_intl (v_delivery (tw_vcpu k 10)) = 4 \<and> veoi quiet_env 1 (regs_of 11 0 0 0 0 0) k = Some (0, k') \<and>
     vd_in_intl (v_delivery (tw_vcpu k' 10)) = 0"
proof -
  obtain ev x' where e: "venter_inject vcpu_40 = (ev, x')" by fastforce
  define k where "k = upd_vcpu 10 (\<lambda>_. x'\<lparr>v_preemption_count := 1, v_yield_request := False\<rparr>) vrunning_10"
  have k: "vcurrent_vcpu k 1 = Some 10" "vd_in_intl (v_delivery (tw_vcpu k 10)) = vd_in_intl (v_delivery x')" "\<not> v_yield_request (tw_vcpu k 10)"
    using vrunning_10_facts(1) by (simp_all add: k_def)
  have z: "vd_in_intl (v_delivery vcpu_40) = 0" by (simp add: vcpu_40_def zero_vcpu_def)
  have "vd_in_intl (v_delivery x') = 4"
    using event_effect_inject [of vcpu_40] vcpu_40_facts(4) e z
    by (simp add: event_effect_def Let_def vector_to_intl_def push_bit_eq_mult)
  then show ?thesis
    using veoi_undoes_injection [OF vcpu_40_facts(4) e k, of quiet_env "regs_of 11 0 0 0 0 0"] k z by - (rule exI [of _ k], auto)
qed

lemma with_spare_root:
  "vcurrent_vcpu with_spare 0 = Some 0" "\<not> v_yield_request (tw_vcpu with_spare 0)" "v_root (tw_vcpu with_spare 0)"
  by (simp_all add: with_spare_def two_partitions_def zero_vcpu_def vcurrent_vcpu_def)

lemma root_num_vcpus_upd [simp]:
  "tw_root_num_vcpus (upd_vcpu v f k) = tw_root_num_vcpus k" "tw_root_num_vcpus (upd_partition p g k) = tw_root_num_vcpus k"
  by (simp_all add: upd_vcpu_def upd_partition_def)

lemma with_spare_admissible:
  "vpartition_admissible mcfs_config (upd_vcpu 0 f with_spare) 2"
  by (simp add: vpartition_admissible_def Let_def all_routes vpartition_vcpus_def vpartition_vcpu_def vcpu_admissible_def
      vcpu_cpu_def with_spare_def two_partitions_def zero_vpartition_def zero_vcpu_def zero_vcpu_cpu_def zero_arch_def
      vcriticality_perm_of_def vis_vboot_state_valid_def)

theorem vcreate_partition_spec_witness:
  "\<exists>k'. vcreate_partition quiet_env 0 (regs_of 25 0x1000 0 0 0 0) with_spare = Some (2, k') \<and> tw_table k' 2 = Some 2"
proof -
  let ?r = "regs_of 25 0x1000 0 0 0 0"
  define k1 where "k1 = upd_vcpu 0 (\<lambda>x. x\<lparr>v_preemption_count := v_preemption_count x - 1\<rparr>) with_spare"
  have q: "enable_preemption_in quiet_env 0 with_spare = Some k1"
    unfolding k1_def by (rule enable_preemption_quiet [OF with_spare_root(1,2)])
  have root: "vcur_root k1 0" using with_spare_root by (simp add: k1_def)
  have p: "env_partition quiet_env (vcall_arg1_64 ?r) = Some 2"
    by (simp add: quiet_env_def vcall_arg1_64_def regs_of_def)
  have cfg: "env_cfg quiet_env = mcfs_config" by (simp add: quiet_env_def no_env_def)
  have adm: "vpartition_admissible mcfs_config k1 2" unfolding k1_def by (rule with_spare_admissible)
  have vids: "bmp256_test (tw_vids k1) w \<longleftrightarrow> w \<noteq> 0 \<and> w \<noteq> 1" for w
    by (auto simp: k1_def with_spare_def two_partitions_def)
  have some: "\<not> (\<forall>w. \<not> bmp256_test (tw_vids k1) w)" using vids [of 2] by auto
  obtain vid k' where k': "vcreate_partition quiet_env 0 ?r with_spare = Some (uint vid, k')" "created 2 vid k1 k'"
    using vcreate_partition_spec [OF q, of ?r] root p adm cfg some by (auto split: if_splits)
  have "vid \<le> 2" "vid \<noteq> 0" "vid \<noteq> 1" using k'(2) vids by (auto simp: created_def)
  then have "vid = 2" by (simp add: word_le_nat_alt word_unat_eq_iff) 
  then show ?thesis using k' by (auto simp: created_def)
qed

end
