(* ===== verification/Twan_Vexit.thy ===== *)
theory Twan_Vexit
  imports Twan_Vcalls
begin

text \<open>
  Exits of the guest (\<open>vportal/vexit.c\<close>), the information leaves of the hypervisor (\<open>vemulate/vinfo.c\<close>), the interrupts
  that arrive while the hypervisor runs (\<open>visr/visr_dispatcher.c\<close>) and the shield around an instruction that may
  fault (\<open>visr/vshield.c\<close>). One definition per handler of \<^verbatim>\<open>vexit_table\<close>; the dispatcher runs the
  handler and enters the guest again. What the processor provides (the reason and qualification of the exit,
  the registers it reads and writes, the leaves of \<^verbatim>\<open>CPUID\<close>, the count of the local APIC) are arguments. The builds without
  \<^verbatim>\<open>VIPI_DRAIN_STRICT\<close> are modelled. Shown: which model-specific registers a guest can reach; what a write of a
  control register is checked for; what the identification leaves hide; that a timer interrupt returns into
  the virtual CPU that the scheduler chose; what an exit does before and after its handler.
\<close>

section \<open>Definitions: the shield\<close>

record vshield =
  sh_active :: bool
  sh_exception_vector :: u8
  sh_faulted :: bool
  sh_recover_by_length :: bool
  sh_len :: u8
  sh_recovery_rip :: u64

definition venter_shield_local :: "u8 \<Rightarrow> u64 \<Rightarrow> vshield \<Rightarrow> int \<times> vshield" where
  "venter_shield_local vector rip s =
     (if \<not> vis_exception_vector vector then (- EINVAL, s)
      else (0, s\<lparr>sh_exception_vector := vector, sh_recovery_rip := rip, sh_faulted := False, sh_recover_by_length := False,
                 sh_active := True\<rparr>))"

definition venter_shield_local_length :: "u8 \<Rightarrow> u8 \<Rightarrow> vshield \<Rightarrow> int \<times> vshield" where
  "venter_shield_local_length vector len s =
     (if \<not> vis_exception_vector vector then (- EINVAL, s)
      else (0, s\<lparr>sh_exception_vector := vector, sh_faulted := False, sh_recover_by_length := True, sh_len := len,
                 sh_active := True\<rparr>))"

definition vexit_shield_local :: "vshield \<Rightarrow> bool \<times> vshield" where
  "vexit_shield_local s = (sh_faulted s, s\<lparr>sh_active := False\<rparr>)"

text \<open>An exception while the hypervisor runs: the new instruction pointer, or \<open>None\<close>, which is the panic.\<close>

definition vshield_exception :: "u8 \<Rightarrow> u64 \<Rightarrow> vshield \<Rightarrow> (u64 \<times> vshield) option" where
  "vshield_exception vector rip s =
     (if sh_active s \<and> sh_exception_vector s = vector
      then Some (if sh_recover_by_length s then rip + ucast (sh_len s) else sh_recovery_rip s, s\<lparr>sh_faulted := True\<rparr>)
      else None)"

section \<open>Definitions: interrupts while the hypervisor runs\<close>

text \<open>What the dispatcher reads of the CPU: the in-service bit and the count of the local APIC and the data of an
  inter-processor interrupt. A function is what its call does to the state.\<close>

record visr_input =
  vi_lapic_isr_set :: bool
  vi_lapic_count :: u32
  vi_dead :: bool
  vi_is_self_ipi :: bool
  vi_self_ipi :: "(vtwan \<Rightarrow> vtwan option) option"

definition visr_vector ::
  "venv \<Rightarrow> visr_input \<Rightarrow> u32 \<Rightarrow> u8 \<Rightarrow> u64 \<Rightarrow> vshield \<Rightarrow> vtwan \<Rightarrow> (u64 \<times> vshield \<times> vtwan) option" where
  "visr_vector env inp this vector rip s k =
     (if vector = VSCHED_TIMER_VECTOR then
        (let (fired, k) = vis_sched_timer_done (vi_lapic_count inp) this k
         in map_option (\<lambda>k. (rip, s, k))
              (if fired then vsched_preempt_isr (env_cfg env) (env_call env) this k else Some k))
      else if vector = VIPI_VECTOR then
        (if vi_dead inp then None
         else if vi_is_self_ipi inp then
           map_option (\<lambda>k. (rip, s, k)) (case vi_self_ipi inp of Some f \<Rightarrow> f k | None \<Rightarrow> Some k)
         else Some (rip, s, k))
      else if vector = VSPURIOUS_INT_VECTOR then Some (rip, s, k)
      else if vi_lapic_isr_set inp then map_option (\<lambda>k. (rip, s, k)) (vdispatch_interrupt this vector k)
      else if vis_exception_vector vector then map_option (\<lambda>(rip, s). (rip, s, k)) (vshield_exception vector rip s)
      else Some (rip, s, k))"

text \<open>The stack trace is what the interrupt returns into; outside of other interrupts it is the context that the
  scheduler saves and loads.\<close>

definition visr_dispatcher ::
  "venv \<Rightarrow> visr_input \<Rightarrow> u32 \<Rightarrow> vshield \<Rightarrow> interrupt_info \<Rightarrow> vtwan \<Rightarrow> (interrupt_info \<times> vshield \<times> vtwan) option" where
  "visr_dispatcher env inp this s stack_trace k =
     (let vector = ucast (ii_dispatch_info stack_trace);
          was_in_isr = vc_handling_isr (tw_cpu k this);
          k = (if was_in_isr then k
               else upd_vcpu_cpu this (\<lambda>c. c\<lparr>vc_handling_isr := True, vc_vcpu_ctx := stack_trace\<rparr>) k)
      in case visr_vector env inp this vector (ii_rip stack_trace) s k of
           None \<Rightarrow> None
         | Some (rip, s, k) \<Rightarrow>
             if was_in_isr then Some (stack_trace\<lparr>ii_rip := rip\<rparr>, s, k)
             else
               let ctx = vc_vcpu_ctx (tw_cpu k this);
                   ctx = (if rip \<noteq> ii_rip stack_trace then ctx\<lparr>ii_rip := rip\<rparr> else ctx)
               in Some (ctx, s, upd_vcpu_cpu this (\<lambda>c. c\<lparr>vc_handling_isr := False\<rparr>) k))"

definition vexit_ext_dispatcher :: "visr_input \<Rightarrow> u32 \<Rightarrow> u8 \<Rightarrow> vtwan \<Rightarrow> vtwan option" where
  "vexit_ext_dispatcher inp this vector k =
     (if vector = VSCHED_TIMER_VECTOR then
        (let (fired, k) = vis_sched_timer_done (vi_lapic_count inp) this k
         in Some (if fired then set_vyield True (vcur k this) k else k))
      else if vector = VIPI_VECTOR then (if vi_dead inp then None else Some k)
      else if vector = VSPURIOUS_INT_VECTOR then Some k
      else vdispatch_interrupt this vector k)"

section \<open>Definitions: the environment of an exit\<close>

record vper_cpu_feature_flags =
  ff_umip :: bool
  ff_la57 :: bool
  ff_fsgsbase :: bool
  ff_pcid :: bool
  ff_kl :: bool
  ff_smep :: bool
  ff_smap :: bool
  ff_pke :: bool
  ff_cet :: bool
  ff_pks :: bool
  ff_lass :: bool
  ff_lam :: bool

text \<open>What the hypervisor knows of a CPU since it was started: frequencies, cached registers and the support flags that a
  guest may ask for.\<close>

record vper_cpu_info =
  pi_lapic_frequency_hz :: u64
  pi_lapic_period_fs :: u64
  pi_vmx_preempt_frequency_hz :: u64
  pi_vmx_preempt_period_fs :: u64
  pi_ia32_arch_capabilities_r :: bool
  pi_ia32_feature_control_rw :: bool
  pi_via32_feature_ctrl_low :: u32
  pi_via32_feature_ctrl_high :: u32
  pi_its_no :: bool
  pi_wbinvd_exiting :: bool
  pi_ept_pml4 :: bool
  pi_ept_pml5 :: bool
  pi_ept_2mb :: bool
  pi_ept_1gb :: bool
  pi_ept_wb :: bool
  pi_ept_uc :: bool
  pi_ept_accessed_dirty :: bool
  pi_pt_use_gpa :: bool

text \<open>\<open>xe_rdmsr\<close> and \<open>xe_wrmsr\<close> are the instructions, \<open>None\<close> when they raise a general-protection fault; \<open>xe_cpuid\<close> is the
  instruction on the four registers.\<close>

record vexit_env =
  xe_env :: venv
  xe_vmptrld :: "u64 \<Rightarrow> bool"
  xe_features :: vper_cpu_feature_flags
  xe_info :: vper_cpu_info
  xe_cpuid :: "u32 \<times> u32 \<times> u32 \<times> u32 \<Rightarrow> u32 \<times> u32 \<times> u32 \<times> u32"
  xe_rdmsr :: "u32 \<Rightarrow> u64 option"
  xe_wrmsr :: "u32 \<Rightarrow> u64 \<Rightarrow> vtwan \<Rightarrow> vtwan option"
  xe_shield :: vshield

text \<open>The read-only fields of the VMCS after an exit. \<open>xi_guest_rsp\<close> is the stack pointer in the VMCS that is loaded
  when the handler reads it.\<close>

record vexit_info =
  xi_basic_reason :: u16
  xi_vmentry_failure :: bool
  xi_interrupt_info :: vectored_events_info
  xi_nmi_unblocking :: bool
  xi_qualification :: u32
  xi_guest_rsp :: u64
  xi_idt_vectoring_info :: vectored_events_info
  xi_visr :: visr_input

text \<open>A handler returns with the registers of the guest, or gives the virtual CPU up (\<open>Inl\<close>).\<close>

type_synonym vexit_func = "vexit_env \<Rightarrow> u32 \<Rightarrow> vexit_info \<Rightarrow> regs \<Rightarrow> vtwan \<Rightarrow> (vtwan + regs \<times> vtwan) option"

section \<open>Definitions: registers by number\<close>

definition vgpr_val :: "vexit_info \<Rightarrow> regs \<Rightarrow> u32 \<Rightarrow> u64" where
  "vgpr_val xi r gpr =
     (let gprs = [rg_rax r, rg_rcx r, rg_rdx r, rg_rbx r, xi_guest_rsp xi, rg_rbp r, rg_rsi r, rg_rdi r,
                  rg_r8 r, rg_r9 r, rg_r10 r, rg_r11 r, rg_r12 r, rg_r13 r, rg_r14 r, rg_r15 r]
      in if unat gpr < 16 then gprs ! unat gpr else 0)"

definition set_abcd :: "u64 \<Rightarrow> u64 \<Rightarrow> u64 \<Rightarrow> u64 \<Rightarrow> regs \<Rightarrow> regs" where
  "set_abcd a b c d r = r\<lparr>rg_rax := a, rg_rbx := b, rg_rcx := c, rg_rdx := d\<rparr>"

abbreviation low32 :: "u64 \<Rightarrow> u64" where
  "low32 v \<equiv> and v 0xffffffff"

definition bits_of :: "(nat \<times> bool) list \<Rightarrow> u64" where
  "bits_of bs = fold (\<lambda>(i, b) w. if b then set_bit i w else w) bs 0"

section \<open>Definitions: information leaves\<close>

definition VCPUID_BASE :: u32 where "VCPUID_BASE = 0x40000000"
definition VCPUID_MAX_LEAF :: u32 where "VCPUID_MAX_LEAF = 0x40000005"

definition vinfo_base :: "regs \<Rightarrow> regs" where
  "vinfo_base = set_abcd (ucast VCPUID_MAX_LEAF) 0x5477616e 0x48765477 0x616e4876"

definition vinfo_compat :: "regs \<Rightarrow> regs" where
  "vinfo_compat = set_abcd 0 0 0 0"

definition vinfo_root_info :: "vexit_env \<Rightarrow> u32 \<Rightarrow> regs \<Rightarrow> vtwan \<Rightarrow> regs" where
  "vinfo_root_info xe this r k =
     (if \<not> vcur_root k this then set_abcd 0 0 0 0 r
      else
        let subleaf = low32 (rg_rcx r);
            i = xe_info xe;
            vectors = bmp (vc_available_vectors (tw_cpu k this));
            pair = (\<lambda>v w. set_abcd (low32 v) (drop_bit 32 v) (low32 w) (drop_bit 32 w) r)
        in if subleaf = 0 then set_abcd 3 (ucast this) (ucast (tw_num_cpus k)) (bits_of [(0, True), (1, True)]) r
           else if subleaf = 1 then pair (pi_lapic_frequency_hz i) (pi_lapic_period_fs i)
           else if subleaf = 2 then pair (vectors 0) (vectors 1)
           else if subleaf = 3 then pair (vectors 2) (vectors 3)
           else set_abcd 0 0 0 0 r)"

definition vinfo_emulation_features :: "vexit_env \<Rightarrow> u32 \<Rightarrow> regs \<Rightarrow> vtwan \<Rightarrow> regs" where
  "vinfo_emulation_features xe this r k =
     (let subleaf = low32 (rg_rcx r);
          i = xe_info xe;
          c = tw_cpu k this
      in if subleaf = 0 then
           set_abcd 1
             (bits_of [(1, pi_ia32_feature_control_rw i), (2, pi_ia32_arch_capabilities_r i), (4, vc_ept_ve c),
                (6, pi_wbinvd_exiting i), (7, True), (8, vcur_root k this), (9, True), (10, True)])
             (or (and (of_nat (vcf_num_vtimers (env_cfg (xe_env xe)))) 0xff) (push_bit 8 (and (ucast (vc_msr_area_max c)) 0xffffff)))
             (bits_of [(2, vc_ept c), (3, pi_ept_pml4 i), (4, pi_ept_pml5 i), (5, pi_ept_2mb i), (6, pi_ept_1gb i), (7, pi_ept_wb i),
                (8, pi_ept_uc i), (9, pi_ept_accessed_dirty i), (10, vc_vpid c \<and> vc_invvpid_single c), (11, vc_unrestricted_guest c),
                (12, pi_pt_use_gpa i)]) r
         else if subleaf = 1 then
           let v = pi_vmx_preempt_frequency_hz i; w = pi_vmx_preempt_period_fs i
           in set_abcd (low32 v) (drop_bit 32 v) (low32 w) (drop_bit 32 w) r
         else set_abcd 0 0 0 0 r)"

definition vinfo_vpartition_info :: "u32 \<Rightarrow> regs \<Rightarrow> vtwan \<Rightarrow> regs" where
  "vinfo_vpartition_info this r k =
     (let current = tw_vcpu k (vcur k this)
      in set_abcd 0 (or (push_bit 8 (if v_root current then 1 else 0)) (ucast (v_vid current)))
           (ucast (v_vpartition_num_cpus current)) 0 r)"

definition vinfo_vcpu_info :: "u32 \<Rightarrow> regs \<Rightarrow> vtwan \<Rightarrow> regs" where
  "vinfo_vcpu_info this r k = set_abcd 0 (ucast (v_processor_id (tw_vcpu k (vcur k this)))) 0 0 r"

definition vinfo_dispatcher :: "vexit_env \<Rightarrow> u32 \<Rightarrow> regs \<Rightarrow> vtwan \<Rightarrow> regs" where
  "vinfo_dispatcher xe this r k =
     (let leaf = low32 (rg_rax r)
      in if leaf = 0x40000000 then vinfo_base r
         else if leaf = 0x40000001 then vinfo_compat r
         else if leaf = 0x40000002 then vinfo_root_info xe this r k
         else if leaf = 0x40000003 then vinfo_emulation_features xe this r k
         else if leaf = 0x40000004 then vinfo_vpartition_info this r k
         else if leaf = 0x40000005 then vinfo_vcpu_info this r k
         else set_abcd 0 0 0 0 r)"

section \<open>Definitions: simple handlers\<close>

abbreviation enabled_in :: "vexit_env \<Rightarrow> u32 \<Rightarrow> vtwan \<Rightarrow> (vtwan \<Rightarrow> 'a option) \<Rightarrow> 'a option" where
  "enabled_in xe \<equiv> enabled (xe_env xe)"

definition vexit_nop :: vexit_func where
  "vexit_nop xe this xi r k = enabled_in xe this k (\<lambda>k. Some (Inr (r, k)))"

definition vexit_nop_advance :: vexit_func where
  "vexit_nop_advance xe this xi r k = enabled_in xe this k (\<lambda>k. Some (Inr (r, vqueue_advance_guest (vcur k this) k)))"

definition vexit_failure_recover :: vexit_func where
  "vexit_failure_recover xe this xi r k = enabled_in xe this k (\<lambda>k.
     map_option Inl (vfailure_recover (env_cfg (xe_env xe)) (env_call (xe_env xe)) this k))"

definition vexit_gp0 :: vexit_func where
  "vexit_gp0 xe this xi r k = enabled_in xe this k (\<lambda>k. Some (Inr (r, vqueue_inject_gp0 (vcur k this) k)))"

definition vexit_ud :: vexit_func where
  "vexit_ud xe this xi r k = enabled_in xe this k (\<lambda>k. Some (Inr (r, vqueue_inject_ud (vcur k this) k)))"

definition vexit_mce_during_entry :: vexit_func where
  "vexit_mce_during_entry xe this xi r k = enabled_in xe this k (\<lambda>k. Some (Inr (r, k)))"

text \<open>\<^verbatim>\<open>nmi_unblocking\<close>: the exit undid the blocking of non-maskable interrupts, which is restored.\<close>

definition vrestore_nmi_blocking :: "vexit_info \<Rightarrow> vcpu_ptr \<Rightarrow> vtwan \<Rightarrow> vtwan" where
  "vrestore_nmi_blocking xi v k =
     (if xi_nmi_unblocking xi then upd_vcpu v (upd_vmcs (\<lambda>m. m\<lparr>vm_nmi_blocking := True\<rparr>)) k else k)"

definition vexit_exception :: vexit_func where
  "vexit_exception xe this xi r k =
     (let current = vcur k this;
          info = xi_interrupt_info xi;
          k = vrestore_nmi_blocking xi current k;
          k = (if ve_vector info = 1 then vqueue_inject_db (ve_type info) current k
               else if ve_vector info = 17 then vqueue_inject_ac0 current k
               else k)
      in enabled_in xe this k (\<lambda>k. Some (Inr (r, k))))"

definition vexit_ext_intr :: vexit_func where
  "vexit_ext_intr xe this xi r k =
     (let k = vrestore_nmi_blocking xi (vcur k this) k
      in Option.bind (vexit_ext_dispatcher (xi_visr xi) this (ve_vector (xi_interrupt_info xi)) k)
           (\<lambda>k. enabled_in xe this k (\<lambda>k. Some (Inr (r, k)))))"

definition vexit_vmcall :: vexit_func where
  "vexit_vmcall xe this xi r k =
     map_option (\<lambda>(r, k). Inr (r, vqueue_advance_guest (vcur k this) k)) (vcall_dispatcher (xe_env xe) this r k)"

section \<open>Definitions: identification\<close>

definition clear_bits :: "nat list \<Rightarrow> u32 \<Rightarrow> u32" where
  "clear_bits ns w = fold unset_bit ns w"

text \<open>The four registers after the emulation of a leaf.\<close>

definition vcpuid_filter :: "bool \<Rightarrow> u32 \<Rightarrow> u32 \<Rightarrow> u32 \<times> u32 \<times> u32 \<times> u32 \<Rightarrow> u32 \<times> u32 \<times> u32 \<times> u32" where
  "vcpuid_filter root leaf subleaf = (\<lambda>(eax, ebx, ecx, edx).
     if leaf = 1 then (eax, clear_bits [16..<32] ebx, set_bit 31 (clear_bits [3, 5, 6, 26, 27, 21] ecx), clear_bits [7, 9, 28] edx)
     else if leaf = 7 then
       (if subleaf = 0 then (eax, clear_bits [14] ebx, clear_bits ([5, 22, 3] @ [17..<22]) ecx, clear_bits [5, 18, 15] edx)
        else if subleaf = 1 then (clear_bits [27, 17, 20, 30] eax, ebx, ecx, clear_bits [13, 15, 17, 23] edx)
        else if subleaf = 2 then (eax, ebx, ecx, clear_bits [7] edx)
        else (eax, ebx, ecx, edx))
     else if leaf = 0x80000001 then (eax, ebx, ecx, clear_bits [27] edx)
     else if leaf = 4 \<and> root then (eax, ebx, ecx, edx)
     else if leaf \<in> {4, 5, 0x0b, 0x0d, 0x1f} then (0, 0, 0, 0)
     else (eax, ebx, ecx, edx))"

definition vexit_cpuid :: vexit_func where
  "vexit_cpuid xe this xi r k = enabled_in xe this k (\<lambda>k.
     let current = vcur k this;
         eax = ucast (rg_rax r); ebx = ucast (rg_rbx r); ecx = ucast (rg_rcx r); edx = ucast (rg_rdx r);
         leaf = eax; subleaf = ecx
     in if leaf \<ge> VCPUID_BASE \<and> leaf \<le> VCPUID_MAX_LEAF
        then Some (Inr (vinfo_dispatcher xe this r k, vqueue_advance_guest current k))
        else
          let (eax, ebx, ecx, edx) = vcpuid_filter (vcur_root k this) leaf subleaf (xe_cpuid xe (eax, ebx, ecx, edx))
          in Some (Inr (set_abcd (ucast eax) (ucast ebx) (ucast ecx) (ucast edx) r, vqueue_advance_guest current k)))"

section \<open>Definitions: control registers\<close>

definition cr0_valid :: "u64 \<Rightarrow> bool" where
  "cr0_valid cr0 \<longleftrightarrow> \<not> bit cr0 30 \<and> \<not> bit cr0 29"

definition cr4_valid :: "vper_cpu_feature_flags \<Rightarrow> u64 \<Rightarrow> bool" where
  "cr4_valid features cr4 \<longleftrightarrow>
     \<not> bit cr4 6 \<and>
     (ff_umip features \<or> \<not> bit cr4 11) \<and>
     (ff_la57 features \<or> \<not> bit cr4 12) \<and>
     \<not> bit cr4 14 \<and>
     (ff_fsgsbase features \<or> \<not> bit cr4 16) \<and>
     (ff_pcid features \<or> \<not> bit cr4 17) \<and>
     \<not> bit cr4 18 \<and>
     (ff_kl features \<or> \<not> bit cr4 19) \<and>
     (ff_smep features \<or> \<not> bit cr4 20) \<and>
     (ff_smap features \<or> \<not> bit cr4 21) \<and>
     \<not> ff_pke features \<and>
     (ff_cet features \<or> \<not> bit cr4 23) \<and>
     (ff_pks features \<or> \<not> bit cr4 24) \<and>
     \<not> bit cr4 25 \<and>
     (ff_lass features \<or> \<not> bit cr4 27) \<and>
     (ff_lam features \<or> \<not> bit cr4 28) \<and>
     \<not> bit cr4 32 \<and>
     \<not> bit cr4 15 \<and>
     \<not> bit cr4 26 \<and>
     and (drop_bit 29 cr4) 7 = 0 \<and>
     drop_bit 33 cr4 = 0"

definition vexit_cr_access :: vexit_func where
  "vexit_cr_access xe this xi r k = enabled_in xe this k (\<lambda>k.
     let qual = xi_qualification xi;
         current = vcur k this;
         val = vgpr_val xi r (and (drop_bit 8 qual) 15);
         cr = and qual 15
     in if cr = 0 then
          (if \<not> cr0_valid val then Some (Inr (r, vqueue_inject_gp0 current k))
           else Some (Inr (r, vqueue_advance_guest current (vqueue_vmwrite_cr0 val current k))))
        else if cr = 4 then
          (let cr4 = set_bit 13 val
           in if \<not> cr4_valid (xe_features xe) cr4 then Some (Inr (r, vqueue_inject_gp0 current k))
              else Some (Inr (r, vqueue_advance_guest current (vqueue_vmwrite_cr4 cr4 current k))))
        else if cr = 8 then
          (if drop_bit 4 val \<noteq> 0 then Some (Inr (r, vqueue_inject_gp0 current k))
           else Some (Inr (r\<lparr>rg_cr8 := val\<rparr>, vqueue_advance_guest current (vset_intl current (ucast val) k))))
        else Some (Inr (r, vqueue_advance_guest current k)))"

section \<open>Definitions: model-specific registers\<close>

definition msr_blocklist :: "u32 list" where
  "msr_blocklist = [0xc0000103, 0xda0, 0x1c, 0x2f] @ IA32_UINTR @ [0x1b00] @ IA32_FRED @
     [0xe1, 0x151, 0xd90, 0x06] @ IA32_VMX @ [0x1b, 0xbd] @ IA32_X2APIC"

definition vis_msr_blocked :: "u32 \<Rightarrow> bool" where
  "vis_msr_blocked msr = list_ex (\<lambda>m. m = msr) msr_blocklist"

definition IA32_ARCH_CAPABILITIES :: u32 where "IA32_ARCH_CAPABILITIES = 0x10a"
definition IA32_VIRTUAL_ENUMERATION :: u32 where "IA32_VIRTUAL_ENUMERATION = 0x50000000"
definition IA32_VIRTUAL_MITIGATION_ENUM :: u32 where "IA32_VIRTUAL_MITIGATION_ENUM = 0x50000001"
definition IA32_VIRTUAL_MITIGATION_CTRL :: u32 where "IA32_VIRTUAL_MITIGATION_CTRL = 0x50000002"
definition IA32_FEATURE_CONTROL :: u32 where "IA32_FEATURE_CONTROL = 0x3a"
definition GENERAL_PROTECTION_FAULT :: u8 where "GENERAL_PROTECTION_FAULT = 13"

text \<open>An instruction of two bytes in the shield: whether the shield reports a fault.\<close>

definition vshielded :: "vshield \<Rightarrow> bool \<Rightarrow> bool" where
  "vshielded s raises =
     (let s = snd (venter_shield_local_length GENERAL_PROTECTION_FAULT 2 s);
          s = (if raises then (case vshield_exception GENERAL_PROTECTION_FAULT 0 s of Some (_, s) \<Rightarrow> s | None \<Rightarrow> s) else s)
      in fst (vexit_shield_local s))"

definition set_msr_value :: "u64 \<Rightarrow> regs \<Rightarrow> regs" where
  "set_msr_value v r = r\<lparr>rg_rax := low32 v, rg_rdx := drop_bit 32 v\<rparr>"

definition vexit_rdmsr :: vexit_func where
  "vexit_rdmsr xe this xi r k = enabled_in xe this k (\<lambda>k.
     let msr = (ucast (rg_rcx r) :: u32);
         i = xe_info xe;
         current = vcur k this;
         gp0 = Some (Inr (r, vqueue_inject_gp0 current k));
         value = (\<lambda>r. Some (Inr (r, vqueue_advance_guest current k)))
     in if msr = IA32_ARCH_CAPABILITIES then
          (case xe_rdmsr xe IA32_ARCH_CAPABILITIES of
             None \<Rightarrow> None
           | Some arch_cap \<Rightarrow>
               value (set_msr_value (set_bit 63 ((if pi_its_no i then set_bit else unset_bit) 62 (unset_bit 21 arch_cap))) r))
        else if msr = IA32_VIRTUAL_ENUMERATION then
          (if \<not> pi_ia32_arch_capabilities_r i then gp0 else value (r\<lparr>rg_rax := 1, rg_rdx := 0\<rparr>))
        else if msr = IA32_VIRTUAL_MITIGATION_ENUM \<or> msr = IA32_VIRTUAL_MITIGATION_CTRL then
          (if \<not> pi_ia32_arch_capabilities_r i then gp0 else value (r\<lparr>rg_rax := 0, rg_rdx := 0\<rparr>))
        else if msr = IA32_FEATURE_CONTROL then
          (if \<not> pi_ia32_feature_control_rw i then gp0
           else value (r\<lparr>rg_rax := ucast (pi_via32_feature_ctrl_low i), rg_rdx := ucast (pi_via32_feature_ctrl_high i)\<rparr>))
        else if \<not> vcur_root k this \<or> vis_msr_blocked msr then gp0
        else if vshielded (xe_shield xe) (xe_rdmsr xe msr = None) then gp0
        else value (set_msr_value (the (xe_rdmsr xe msr)) r))"

definition vexit_wrmsr :: vexit_func where
  "vexit_wrmsr xe this xi r k = enabled_in xe this k (\<lambda>k.
     let msr = (ucast (rg_rcx r) :: u32);
         eax = (ucast (rg_rax r) :: u32);
         edx = (ucast (rg_rdx r) :: u32);
         i = xe_info xe;
         current = vcur k this;
         gp0 = Some (Inr (r, vqueue_inject_gp0 current k));
         ok = (\<lambda>k. Some (Inr (r, vqueue_advance_guest current k)))
     in if msr = IA32_VIRTUAL_MITIGATION_CTRL then
          (if \<not> pi_ia32_arch_capabilities_r i \<or> eax \<noteq> 0 \<or> edx \<noteq> 0 then gp0 else ok k)
        else if msr = IA32_FEATURE_CONTROL then
          (if \<not> pi_ia32_feature_control_rw i then gp0
           else if eax \<noteq> pi_via32_feature_ctrl_low i \<or> edx \<noteq> pi_via32_feature_ctrl_high i then gp0
           else ok k)
        else if \<not> vcur_root k this \<or> vis_msr_blocked msr then gp0
        else
          let val = or (push_bit 32 (ucast edx)) (ucast eax) :: u64;
              written = xe_wrmsr xe msr val k
          in if vshielded (xe_shield xe) (written = None) then gp0 else ok (the written))"

section \<open>Definitions: the table and the dispatcher\<close>

definition vexit_preempt_timer :: vexit_func where
  "vexit_preempt_timer xe this xi r k =
     map_option (\<lambda>k. Inr (r, k)) (vexit_vmx_preempt (xe_env xe) this k)"

definition vexit_table :: "vexit_func option list" where
  "vexit_table =
     [Some vexit_exception, Some vexit_ext_intr, Some vexit_failure_recover, Some vexit_failure_recover,
      Some vexit_failure_recover, None, None, Some vexit_nop, Some vexit_nop, Some vexit_gp0, Some vexit_cpuid,
      Some vexit_ud, None, Some vexit_nop_advance, None, None, None, None, Some vexit_vmcall, Some vexit_ud, Some vexit_ud,
      Some vexit_ud, Some vexit_ud, Some vexit_ud, Some vexit_ud, Some vexit_ud, Some vexit_ud, Some vexit_ud,
      Some vexit_cr_access, None, Some vexit_gp0, Some vexit_rdmsr, Some vexit_wrmsr, None, None, None,
      Some vexit_ud, None, None, Some vexit_ud, None, Some vexit_mce_during_entry, None, None, None, None, None,
      None, Some vexit_failure_recover, Some vexit_failure_recover, Some vexit_ud, None, Some vexit_preempt_timer,
      Some vexit_ud, Some vexit_nop_advance, Some vexit_ud]"

text \<open>The handler of an exit; \<open>None\<close> when the entry failed or the reason has no handler.\<close>

definition vexit_handler :: "vexit_info \<Rightarrow> vexit_func option" where
  "vexit_handler xi =
     (if xi_vmentry_failure xi \<or> unat (xi_basic_reason xi) \<ge> length vexit_table then None
      else vexit_table ! unat (xi_basic_reason xi))"

text \<open>The registers of the guest and what becomes of the virtual CPU.\<close>

definition vexit_dispatcher ::
  "vexit_env \<Rightarrow> u32 \<Rightarrow> vexit_info \<Rightarrow> regs \<Rightarrow> vtwan \<Rightarrow> (regs \<times> venter_outcome \<times> vtwan) option" where
  "vexit_dispatcher xe this xi r k =
     (let cfg = env_cfg (xe_env xe); call = env_call (xe_env xe); current = vcur k this
      in case vexit_handler xi of
           None \<Rightarrow> map_option (\<lambda>k. (r, VLEFT, k)) (vfailure_recover cfg call this k)
         | Some func \<Rightarrow>
             let k = set_vstate VTRANSITIONING current (vcurrent_vcpu_disable_preemption this k)
             in case vipi_ack this k of
                  None \<Rightarrow> None
                | Some k \<Rightarrow>
                    if v_terminate (tw_vcpu k current) then
                      enabled_in xe this k (\<lambda>k. map_option (\<lambda>k. (r, VLEFT, k)) (vtransitioning_recover_ipi cfg call this k))
                    else case func xe this xi r k of
                           None \<Rightarrow> None
                         | Some (Inl k) \<Rightarrow> Some (r, VLEFT, k)
                         | Some (Inr (r, k)) \<Rightarrow>
                             let info = xi_idt_vectoring_info xi;
                                 k = (if ve_valid info then vqueue_idt_vectoring_info info (vcur k this) k else k)
                             in map_option (Pair r) (venter cfg call (xe_vmptrld xe) this k))"

section \<open>The shield\<close>

lemma vshielded_iff: "vshielded s raises \<longleftrightarrow> raises"
  by (simp add: vshielded_def venter_shield_local_length_def vshield_exception_def vexit_shield_local_def Let_def
      GENERAL_PROTECTION_FAULT_def vis_exception_vector_def vreserved_exception_vectors_def)

section \<open>Timer interrupts\<close>

lemma preemptible_cong:
  assumes "vsched_at k' this = vsched_at k this" and "\<And>w. v_state (tw_vcpu k' w) = v_state (tw_vcpu k w)"
    and "\<And>w. v_criticality (tw_vcpu k' w) = v_criticality (tw_vcpu k w)"
  shows "vsched_is_current_preemptible cfg this v k' = vsched_is_current_preemptible cfg this v k"
proof -
  have "frame_ready (tw_vcpu k') f = frame_ready (tw_vcpu k) f" for f
    by (simp add: frame_ready_def assms split: option.split)
  then show ?thesis using assms by (simp add: vsched_is_current_preemptible_def mcfs_is_current_preemptible_def
      mcqs_is_current_preemptible_def vsched_get_bucket_def)
qed

text \<open>The interrupt of the scheduling timer. In a section that must not be preempted it returns where it came from, and a
  yield is requested if another virtual CPU should run. Otherwise, when another one should run, it returns into
  the context of the virtual CPU that the scheduler chose, and the context saved for the old one is where it was
  interrupted.\<close>

theorem visr_timer_spec:
  assumes cb: "cb_quiet (env_call env)" and mc: "vcf_mcfs (env_cfg env)" and cur: "vcurrent_vcpu k this = Some current"
    and st: "v_state (tw_vcpu k current) \<noteq> VREADY" and nt: "\<not> v_terminate (tw_vcpu k current)"
    and vec: "ucast (ii_dispatch_info stack) = VSCHED_TIMER_VECTOR" and isr: "\<not> vc_handling_isr (tw_cpu k this)"
    and timer: "vc_sched_timer_armed (tw_cpu k this)" "vi_lapic_count inp = 0"
    and other: "vsched_is_current_preemptible (env_cfg env) this current k"
  shows "\<exists>stack' k' v. visr_dispatcher env inp this s stack k = Some (stack', s, k') \<and> vcurrent_vcpu k' this = Some v \<and>
     (if v_preemption_count (tw_vcpu k current) > 0 then v = current \<and> stack' = stack \<and> v_yield_request (tw_vcpu k' current)
      else if v = current then stack' = stack
      else v_state (tw_vcpu k v) = VREADY \<and> stack' = vsched_set_ctx (v_context (tw_vcpu k v)) stack \<and>
        vsched_set_ctx (v_context (tw_vcpu k' current)) stack = stack)"
proof -
  let ?f = "\<lambda>c. c\<lparr>vc_handling_isr := True, vc_vcpu_ctx := stack, vc_sched_timer_armed := False\<rparr>"
  define k1 where "k1 = upd_vcpu_cpu this ?f k"
  have k1: "vcurrent_vcpu k1 this = Some current" "tw_vcpu k1 = tw_vcpu k" "vsched_at k1 this = vsched_at k this"
    "vc_vcpu_ctx (tw_cpu k1 this) = stack"
    using cur by (simp_all add: k1_def vcurrent_vcpu_def vsched_at_def)
  have fired: "vis_sched_timer_done (vi_lapic_count inp) this
      (upd_vcpu_cpu this (\<lambda>c. c\<lparr>vc_handling_isr := True, vc_vcpu_ctx := stack\<rparr>) k) = (True, k1)"
    using timer by (simp add: vis_sched_timer_done_def k1_def upd_vcpu_cpu_def)
  have step: "visr_dispatcher env inp this s stack k =
      map_option (\<lambda>k. (vc_vcpu_ctx (tw_cpu k this), s, upd_vcpu_cpu this (\<lambda>c. c\<lparr>vc_handling_isr := False\<rparr>) k))
        (vsched_preempt_isr (env_cfg env) (env_call env) this k1)"
    using isr vec fired by (simp add: visr_dispatcher_def visr_vector_def Let_def option.map_comp o_def split: option.split)
  have pre: "vsched_is_current_preemptible (env_cfg env) this current k1"
    using other k1 by (subst preemptible_cong [of _ _ k]) simp_all
  show ?thesis
  proof (cases "v_preemption_count (tw_vcpu k current) > 0")
    case True
    have "vsched_preempt_isr (env_cfg env) (env_call env) this k1 = Some (set_vyield True current k1)"
      using True k1 pre by (simp add: vsched_preempt_isr_def vsched_should_request_yield_def)
    then show ?thesis using True k1 by (simp add: step) (simp add: vcurrent_vcpu_def)
  next
    case False
    let ?k2 = "set_vyield False current k1"
    have pre2: "vsched_is_current_preemptible (env_cfg env) this current ?k2"
      using pre by (subst preemptible_cong [of _ _ k1]) simp_all
    have "vcurrent_vcpu ?k2 this = Some current" "v_state (tw_vcpu ?k2 current) \<noteq> VREADY" "\<not> v_terminate (tw_vcpu ?k2 current)"
      using k1 st nt by simp_all
    from vsched_reschedule_core [OF cb mc this] obtain k' v where
      r: "vthis_vsched_reschedule (env_cfg env) (env_call env) this current ?k2 = Some k'" "vcurrent_vcpu k' this = Some v"
        "vswitched ?k2 this current v k'"
      using pre2 by auto
    have isr: "vsched_preempt_isr (env_cfg env) (env_call env) this k1 = Some k'"
      using False k1 r(1) by (simp add: vsched_preempt_isr_def)
    let ?k3 = "upd_vcpu_cpu this (\<lambda>c. c\<lparr>vc_handling_isr := False\<rparr>) k'"
    have "visr_dispatcher env inp this s stack k = Some (vc_vcpu_ctx (tw_cpu k' this), s, ?k3)" by (simp add: step isr)
    moreover have "vcurrent_vcpu ?k3 this = Some v" using r(2) by (simp add: vcurrent_vcpu_def)
    moreover have "if v = current then vc_vcpu_ctx (tw_cpu k' this) = stack
        else v_state (tw_vcpu k v) = VREADY \<and> vc_vcpu_ctx (tw_cpu k' this) = vsched_set_ctx (v_context (tw_vcpu k v)) stack \<and>
          vsched_set_ctx (v_context (tw_vcpu ?k3 current)) stack = stack"
      using r(3) k1 by (simp add: vswitched_def)
    ultimately show ?thesis using False by meson
  qed
qed

section \<open>Model-specific registers\<close>

lemma gp0_event [simp]: "venter_event (tw_vcpu (vqueue_inject_gp0 v k) v) = EXCEPTION 13 INTERRUPT_TYPE_HARDWARE_EXCEPTION"
  by (simp add: vqueue_inject_gp0_def vqueue_synthetic_errcode_def vqueue_idt_vectoring_info_def exception_info_def venter_event_def Let_def)

lemma gp0_keeps [simp]:
  "w \<noteq> v \<Longrightarrow> tw_vcpu (vqueue_inject_gp0 v k) w = tw_vcpu k w"
  "v_vmcs (tw_vcpu (vqueue_inject_gp0 v k) w) = v_vmcs (tw_vcpu k w)"
  "vq_should_advance (v_queue (tw_vcpu (vqueue_inject_gp0 v k) w)) = vq_should_advance (v_queue (tw_vcpu k w))"
  "vcurrent_vcpu (vqueue_inject_gp0 v k) = vcurrent_vcpu k"
  by (auto simp: vqueue_inject_gp0_def vqueue_synthetic_errcode_def vqueue_idt_vectoring_info_def exception_info_def)

text \<open>The registers that the handlers emulate.\<close>

definition emulated_msrs :: "u32 set" where
  "emulated_msrs = {IA32_ARCH_CAPABILITIES, IA32_VIRTUAL_ENUMERATION, IA32_VIRTUAL_MITIGATION_ENUM, IA32_VIRTUAL_MITIGATION_CTRL,
     IA32_FEATURE_CONTROL}"

text \<open>C31: A guest reaches a register of the processor through an exit only if it is of the root partition and the register
  is not on the blocklist: every other access, reading or writing, of a register that is not emulated leaves the
  registers of the guest and of the processor alone, and the next entry injects a general-protection fault at the
  instruction. The root partition reads the value of the processor, in halves, or gets the fault that the
  processor raised.\<close>

theorem vexit_msr_access:
  assumes "enable_preemption_in (xe_env xe) this k = Some k1" and "vcur k1 this = v"
    and msr: "ucast (rg_rcx r) = msr" "msr \<notin> emulated_msrs"
  shows "if \<not> v_root (tw_vcpu k1 v) \<or> vis_msr_blocked msr \<or> xe_rdmsr xe msr = None
     then \<exists>k'. vexit_rdmsr xe this xi r k = Some (Inr (r, k')) \<and> (\<forall>w. w \<noteq> v \<longrightarrow> tw_vcpu k' w = tw_vcpu k1 w) \<and>
       venter_event (tw_vcpu k' v) = EXCEPTION 13 INTERRUPT_TYPE_HARDWARE_EXCEPTION \<and>
       vq_should_advance (v_queue (tw_vcpu k' v)) = vq_should_advance (v_queue (tw_vcpu k1 v)) \<and>
       (\<not> v_root (tw_vcpu k1 v) \<or> vis_msr_blocked msr \<longrightarrow> vexit_wrmsr xe this xi r k = Some (Inr (r, k')))
     else \<exists>val. xe_rdmsr xe msr = Some val \<and> vexit_rdmsr xe this xi r k =
       Some (Inr (r\<lparr>rg_rax := low32 val, rg_rdx := drop_bit 32 val\<rparr>, vqueue_advance_guest v k1))"
proof -
  have m: "msr \<noteq> IA32_ARCH_CAPABILITIES" "msr \<noteq> IA32_VIRTUAL_ENUMERATION" "msr \<noteq> IA32_VIRTUAL_MITIGATION_ENUM"
    "msr \<noteq> IA32_VIRTUAL_MITIGATION_CTRL" "msr \<noteq> IA32_FEATURE_CONTROL"
    using msr(2) by (auto simp: emulated_msrs_def)
  have rd: "vexit_rdmsr xe this xi r k =
      (if \<not> v_root (tw_vcpu k1 v) \<or> vis_msr_blocked msr \<or> xe_rdmsr xe msr = None then Some (Inr (r, vqueue_inject_gp0 v k1))
       else Some (Inr (set_msr_value (the (xe_rdmsr xe msr)) r, vqueue_advance_guest v k1)))"
    using assms(1,2) m by (simp add: vexit_rdmsr_def Let_def msr(1) vshielded_iff)
  have wr: "vexit_wrmsr xe this xi r k = Some (Inr (r, vqueue_inject_gp0 v k1))" if "\<not> v_root (tw_vcpu k1 v) \<or> vis_msr_blocked msr"
    using assms(1,2) m that by (simp add: vexit_wrmsr_def Let_def msr(1))
  show ?thesis
  proof (cases "\<not> v_root (tw_vcpu k1 v) \<or> vis_msr_blocked msr \<or> xe_rdmsr xe msr = None")
    case True
    have "vexit_rdmsr xe this xi r k = Some (Inr (r, vqueue_inject_gp0 v k1))" by (simp only: rd if_P [OF True])
    then show ?thesis unfolding if_P [OF True] using wr by (intro exI [of _ "vqueue_inject_gp0 v k1"]) simp
  next
    case False
    then obtain val where val: "xe_rdmsr xe msr = Some val" by blast
    have "vexit_rdmsr xe this xi r k = Some (Inr (set_msr_value val r, vqueue_advance_guest v k1))"
      using rd False val by simp
    then show ?thesis unfolding if_not_P [OF False] using val by (simp add: set_msr_value_def)
  qed
qed

section \<open>Control registers\<close>

lemma cr4_valid_pke: "\<not> ff_pke f \<Longrightarrow> cr4_valid f (set_bit 22 w) = cr4_valid f w" "ff_pke f \<Longrightarrow> \<not> cr4_valid f w"
proof -
  assume n: "\<not> ff_pke f"
  have b: "bit (set_bit 22 w) n = bit w n" if "n \<noteq> 22" for n using that by (auto simp: bit_simps dest: bit_imp_le_length)
  have d: "and (drop_bit 29 (set_bit 22 w)) 7 = and (drop_bit 29 w) (7 :: u64)" "drop_bit 33 (set_bit 22 w) = drop_bit 33 w"
    by (rule bit_word_eqI; auto simp: bit_simps dest: bit_imp_le_length)+
  show "cr4_valid f (set_bit 22 w) = cr4_valid f w" unfolding cr4_valid_def d by (simp add: b n)
qed (simp add: cr4_valid_def)

text \<open>The check of the protection-key bit looks at the processor and not at the value that the guest writes: on a processor
  with protection keys every write of CR4 raises a general-protection fault, also one that changes nothing, and on
  one without them the bit is accepted.\<close>

theorem vexit_cr4_pke:
  assumes "enable_preemption_in (xe_env xe) this k = Some k1" and "vcur k1 this = v" and "and (xi_qualification xi) 15 = 4"
    and "vgpr_val xi r (and (drop_bit 8 (xi_qualification xi)) 15) = val"
  shows "if ff_pke (xe_features xe)
     then \<exists>k'. vexit_cr_access xe this xi r k = Some (Inr (r, k')) \<and>
       venter_event (tw_vcpu k' v) = EXCEPTION 13 INTERRUPT_TYPE_HARDWARE_EXCEPTION
     else cr4_valid (xe_features xe) (set_bit 13 (unset_bit 22 val)) \<longrightarrow>
       (\<exists>k'. vexit_cr_access xe this xi r k = Some (Inr (r, k')) \<and> vq_vmwrite_cr4 (v_queue (tw_vcpu k' v)) \<and>
          vq_cr4 (v_queue (tw_vcpu k' v)) = set_bit 13 val)"
proof (cases "ff_pke (xe_features xe)")
  case True
  then show ?thesis using assms cr4_valid_pke(2) [OF True] by (simp add: vexit_cr_access_def Let_def)
next
  case False
  have "cr4_valid (xe_features xe) (set_bit 13 val)" if v: "cr4_valid (xe_features xe) (set_bit 13 (unset_bit 22 val))"
  proof (cases "bit val 22")
    case True
    have "set_bit 22 (set_bit 13 (unset_bit 22 val)) = set_bit 13 val"
      using True by (intro bit_word_eqI) (auto simp: bit_simps)
    then show ?thesis using cr4_valid_pke(1) [OF False, of "set_bit 13 (unset_bit 22 val)"] v by simp
  next
    case nb: False
    have "unset_bit 22 val = val" by (intro bit_word_eqI) (use nb in \<open>auto simp: bit_simps\<close>)
    then show ?thesis using v by simp
  qed
  then show ?thesis using assms False
    by (auto simp: vexit_cr_access_def Let_def vqueue_advance_guest_def vqueue_vmwrite_cr4_def)
qed

section \<open>Identification\<close>

lemma bit_clear_bits: "bit (clear_bits ns w) n \<longleftrightarrow> bit w n \<and> n \<notin> set ns"
  unfolding clear_bits_def by (induction ns arbitrary: w) (auto simp: bit_simps)

text \<open>What the processor says of itself reaches the guest except for the hidden features: in leaf 1 those of the local
  APIC, of virtualisation, of extended states and of monitoring, with the bit of a hypervisor set; in leaf 7
  protection keys, user interrupts and the others listed; in leaf 0x80000001 the time-stamp instruction with an
  identifier. Topology and extended states read as zero, for the root partition except the caches.\<close>

theorem vcpuid_filter_spec:
  assumes "vcpuid_filter root leaf subleaf (a, b, c, d) = (a', b', c', d')"
  shows "(leaf = 1 \<longrightarrow> a' = a \<and> (\<forall>n. bit b' n \<longleftrightarrow> bit b n \<and> n < 16) \<and>
           (\<forall>n. bit c' n \<longleftrightarrow> n = 31 \<or> bit c n \<and> n \<notin> {3, 5, 6, 21, 26, 27}) \<and> (\<forall>n. bit d' n \<longleftrightarrow> bit d n \<and> n \<notin> {7, 9, 28})) \<and>
     (leaf = 7 \<and> subleaf = 0 \<longrightarrow> a' = a \<and> (\<forall>n. bit b' n \<longleftrightarrow> bit b n \<and> n \<noteq> 14) \<and>
           (\<forall>n. bit c' n \<longleftrightarrow> bit c n \<and> n \<notin> {3, 5, 17, 18, 19, 20, 21, 22}) \<and> (\<forall>n. bit d' n \<longleftrightarrow> bit d n \<and> n \<notin> {5, 15, 18})) \<and>
     (leaf = 0x80000001 \<longrightarrow> (a', b', c') = (a, b, c) \<and> (\<forall>n. bit d' n \<longleftrightarrow> bit d n \<and> n \<noteq> 27)) \<and>
     (leaf \<in> {5, 0x0b, 0x0d, 0x1f} \<or> leaf = 4 \<and> \<not> root \<longrightarrow> (a', b', c', d') = (0, 0, 0, 0)) \<and>
     (leaf \<notin> {1, 7, 0x80000001, 5, 0x0b, 0x0d, 0x1f} \<and> (leaf = 4 \<longrightarrow> root) \<longrightarrow> (a', b', c', d') = (a, b, c, d))"
proof -
  have lt: "n < 32" if "bit (w :: u32) n" for w n using bit_imp_le_length [OF that] by simp
  have r: "[17..<22] = [17, 18, 19, 20, 21]" by (simp add: upt_rec)
  note e = assms [symmetric, unfolded vcpuid_filter_def prod.case]
  consider "leaf = 1" | "leaf = 7" | "leaf = 0x80000001" | "leaf = 4" | "leaf \<in> {5, 0x0b, 0x0d, 0x1f}"
    | "leaf \<notin> {1, 7, 0x80000001, 4, 5, 0x0b, 0x0d, 0x1f}" by blast
  then show ?thesis
  proof cases
    case 1
    have e1: "a' = a" "b' = clear_bits [16..<32] b" "c' = set_bit 31 (clear_bits [3, 5, 6, 26, 27, 21] c)" "d' = clear_bits [7, 9, 28] d"
      using e 1 by (simp_all del: upt_rec_numeral)
    have "bit b' n \<longleftrightarrow> bit b n \<and> n < 16" for n
      using lt [of b n] by (auto simp: e1(2) bit_clear_bits simp del: upt_rec_numeral)
    moreover have "bit c' n \<longleftrightarrow> n = 31 \<or> bit c n \<and> n \<notin> {3, 5, 6, 21, 26, 27}" for n
      by (auto simp: e1(3) bit_clear_bits bit_simps)
    moreover have "bit d' n \<longleftrightarrow> bit d n \<and> n \<notin> {7, 9, 28}" for n by (simp add: e1(4) bit_clear_bits)
    ultimately show ?thesis using 1 e1(1) by simp
  next
    case 2
    then show ?thesis using e by (auto simp: bit_clear_bits r)
  next
    case 3
    then show ?thesis using e by (auto simp: bit_clear_bits)
  next
    case 4
    then show ?thesis using e by (auto split: if_splits)
  next
    case 5
    then show ?thesis using e by (elim insertE emptyE) simp_all
  next
    case 6
    then show ?thesis using e by simp
  qed
qed

section \<open>Hypercalls from user mode\<close>

lemma inject_rip [simp]:
  "vm_guest_rip (vinject_interrupt v t b e c l m) = vm_guest_rip m" "vm_guest_rip (vinject_interrupt_external v n m) = vm_guest_rip m"
  "vm_guest_rip (v_vmcs (snd (vinject_vectoring q x))) = vm_guest_rip (v_vmcs x)"
  "vm_guest_rip (v_vmcs (snd (snd (vinject_nmi s x)))) = vm_guest_rip (v_vmcs x)"
  "vm_guest_rip (v_vmcs (snd (snd (vinject_pending s i x)))) = vm_guest_rip (v_vmcs x)"
  "vm_guest_rip (v_vmcs (vinject_windows s x)) = vm_guest_rip (v_vmcs x)"
proof -
  show r: "vm_guest_rip (vinject_interrupt v t b e c l m) = vm_guest_rip m" for v t b e c l m
    by (simp add: vinject_interrupt_def Let_def)
  then show x: "vm_guest_rip (vinject_interrupt_external v n m) = vm_guest_rip m" for v n m
    by (simp add: vinject_interrupt_external_def)
  show "vm_guest_rip (v_vmcs (snd (vinject_vectoring q x))) = vm_guest_rip (v_vmcs x)"
    by (simp add: vinject_vectoring_def Let_def r)
  show "vm_guest_rip (v_vmcs (snd (snd (vinject_nmi s x)))) = vm_guest_rip (v_vmcs x)" by (simp add: vinject_nmi_def x)
  show "vm_guest_rip (v_vmcs (snd (snd (vinject_pending s i x)))) = vm_guest_rip (v_vmcs x)"
    by (simp add: vinject_pending_def Let_def x)
  show "vm_guest_rip (v_vmcs (vinject_windows s x)) = vm_guest_rip (v_vmcs x)" by (simp add: vinject_windows_def Let_def)
qed

lemma venter_inject_rip: "vm_guest_rip (v_vmcs (snd (venter_inject x))) = vm_guest_rip (v_vmcs (voperations x))"
  by (simp add: venter_inject_def split_beta)

text \<open>A hypercall from user mode raises a general-protection fault in the guest, but the guest is also advanced: the
  fault is delivered with the address behind the instruction and not with that of the instruction.\<close>

theorem vmcall_fault_advances:
  assumes "vis_guest_cpl0 (v_vmcs (tw_vcpu k (vcur k this))) = None" and "enable_preemption_in (xe_env xe) this k = Some k1"
    and "vcur k1 this = v" and "\<not> vq_vmwrite_cr0 (v_queue (tw_vcpu k1 v))" and "vget_guest_mode (v_vmcs (tw_vcpu k1 v)) = VOP_64_BIT"
  shows "\<exists>k'. vexit_vmcall xe this xi r k = Some (Inr (r, k')) \<and>
     venter_event (tw_vcpu k' v) = EXCEPTION 13 INTERRUPT_TYPE_HARDWARE_EXCEPTION \<and>
     vm_guest_rip (v_vmcs (snd (venter_inject (tw_vcpu k' v)))) =
       vm_guest_rip (v_vmcs (tw_vcpu k1 v)) + ucast (vm_exit_length (v_vmcs (tw_vcpu k1 v)))"
proof -
  define k2 where "k2 = vqueue_inject_gp0 v k1"
  define k' where "k' = vqueue_advance_guest v k2"
  have "vcall_dispatcher (xe_env xe) this r k = Some (r, k2)" using assms(1,2,3) by (simp add: vcall_dispatcher_def k2_def)
  then have e: "vexit_vmcall xe this xi r k = Some (Inr (r, k'))"
    using assms(3) by (simp add: vexit_vmcall_def k'_def) (simp add: k2_def assms(3))
  have q: "vq_should_advance (v_queue (tw_vcpu k' v))" "v_vmcs (tw_vcpu k' v) = v_vmcs (tw_vcpu k1 v)"
    "\<not> vq_vmwrite_cr0 (v_queue (tw_vcpu k' v))"
    using assms(4) by (auto simp: k'_def k2_def vqueue_advance_guest_def vqueue_inject_gp0_def vqueue_synthetic_errcode_def
        vqueue_idt_vectoring_info_def exception_info_def)
  have m: "vget_guest_mode (m\<lparr>vm_guest_cr4 := c\<rparr>) = vget_guest_mode m" for m c by (simp add: vget_guest_mode_def)
  have rip: "vm_guest_rip (v_vmcs (voperations (tw_vcpu k' v))) =
      vm_guest_rip (v_vmcs (tw_vcpu k1 v)) + ucast (vm_exit_length (v_vmcs (tw_vcpu k1 v)))"
    using q assms(5) by (simp add: voperations_def vadvance_guest_rip_def Let_def m)
  have "venter_event (tw_vcpu k' v) = EXCEPTION 13 INTERRUPT_TYPE_HARDWARE_EXCEPTION"
    by (simp add: k'_def k2_def vqueue_advance_guest_def vqueue_inject_gp0_def vqueue_synthetic_errcode_def
        vqueue_idt_vectoring_info_def exception_info_def venter_event_def Let_def)
  then show ?thesis using e rip by (auto simp: venter_inject_rip)
qed

section \<open>Interrupt windows\<close>

lemma venter_event_cong:
  assumes "v_queue y = v_queue x" "v_vmcs y = v_vmcs x" "v_delivery y = v_delivery x"
    "v_pending_external_interrupts y = v_pending_external_interrupts x"
  shows "venter_event y = venter_event x"
proof -
  have "v_vmcs (voperations y) = v_vmcs (voperations x)" using assms by (simp add: voperations_def Let_def)
  moreover have "deliverable y = deliverable x" using assms by (simp add: deliverable_def)
  ultimately show ?thesis using assms by (simp add: venter_event_def Let_def)
qed

lemma sender_dq_keeps [simp]:
  "tw_ipi_node (vsched_arm_timer c t k) = tw_ipi_node k"
  "vc_vcpu_sender_dq (tw_cpu (vsched_arm_timer c t k) e) = vc_vcpu_sender_dq (tw_cpu k e)"
  "tw_ipi_node (venter_requeue c v x k) = tw_ipi_node k"
  "vc_vcpu_sender_dq (tw_cpu (venter_requeue c v x k) e) = vc_vcpu_sender_dq (tw_cpu k e)"
  by (auto simp: vsched_arm_timer_def vsched_timer_reload_def venter_requeue_def on_dispatch_def Let_def split_beta)

lemma venter_entered:
  assumes "vcurrent_vcpu k this = Some v" and "\<not> v_preempted (tw_vcpu k v)" and "\<not> v_terminate (tw_vcpu k v)" and "senders_repr k F"
  shows "\<exists>inv k'. venter cfg call vmptrld this k = Some (VENTERED inv, k') \<and>
     tw_vcpu k' v = snd (venter_inject ((tw_vcpu k v)\<lparr>v_preempted := False, v_state := VRUNNING, v_tlb_flush_pending := False, v_rearm := False\<rparr>)) \<and>
     senders_repr k' F"
  using assms by (auto simp: venter_def Let_def split_beta senders_repr_def)

text \<open>The exit that a window requested injects the interrupt that was waiting for it: when the guest can take interrupts
  again, the dispatcher enters it with the highest pending vector, and every CPU that waits for an
  acknowledgement of this one has it.\<close>

theorem window_exit_injects:
  assumes cur: "vcurrent_vcpu k this = Some v" and ok: "\<not> v_terminate (tw_vcpu k v)" "\<not> v_yield_request (tw_vcpu k v)" "\<not> v_preempted (tw_vcpu k v)"
    and xi: "\<not> xi_vmentry_failure xi" "xi_basic_reason xi \<in> {7, 8}" "\<not> ve_valid (xi_idt_vectoring_info xi)"
    and F: "senders_repr k F" and ev: "venter_event (tw_vcpu k v) = EXTERNAL vec"
  shows "\<exists>inv k'. vexit_dispatcher xe this xi r k = Some (r, VENTERED inv, k') \<and> v_state (tw_vcpu k' v) = VRUNNING \<and>
     ei_valid (vm_entry_info (v_vmcs (tw_vcpu k' v))) \<and> ei_vector (vm_entry_info (v_vmcs (tw_vcpu k' v))) = vec \<and>
     ei_type (vm_entry_info (v_vmcs (tw_vcpu k' v))) = INTERRUPT_TYPE_EXTERNAL \<and>
     \<not> bmp256_test (v_pending_external_interrupts (tw_vcpu k' v)) vec \<and> senders_repr k' (F(this := []))"
proof -
  let ?k1 = "set_vstate VTRANSITIONING v (vcurrent_vcpu_disable_preemption this k)"
  have F1: "senders_repr ?k1 F" using F by (simp add: senders_repr_def vcurrent_vcpu_disable_preemption_def)
  obtain k2 where k2: "vipi_ack this ?k1 = Some k2" "senders_repr k2 (F(this := []))" "tw_vcpu k2 = tw_vcpu ?k1"
    "vcurrent_vcpu k2 = vcurrent_vcpu ?k1"
    using vipi_ack_spec [OF F1] by (fastforce simp: vipi_ack_def split: option.splits)
  let ?x = "(tw_vcpu k v)\<lparr>v_state := VTRANSITIONING\<rparr>"
  have x2: "tw_vcpu k2 v = ?x\<lparr>v_preemption_count := v_preemption_count ?x + 1\<rparr>"
    using cur by (simp add: k2(3) vcurrent_vcpu_disable_preemption_def)
  have c2: "vcurrent_vcpu k2 this = Some v" using cur by (simp add: k2(4) vcurrent_vcpu_disable_preemption_def)
  define k3 where "k3 = upd_vcpu v (\<lambda>x. x\<lparr>v_preemption_count := v_preemption_count x - 1\<rparr>) k2"
  have en: "enable_preemption_in (xe_env xe) this k2 = Some k3"
    unfolding k3_def using ok(2) x2 by (intro enable_preemption_quiet [OF c2]) simp
  have x3: "tw_vcpu k3 v = ?x" using x2 by (simp add: k3_def)
  have h: "vexit_handler xi = Some vexit_nop" using xi(1,2) by (auto simp: vexit_handler_def vexit_table_def)
  have d: "vexit_dispatcher xe this xi r k =
      map_option (Pair r) (venter (env_cfg (xe_env xe)) (env_call (xe_env xe)) (xe_vmptrld xe) this k3)"
    using cur h k2(1) x2 ok(1) en xi(3) by (simp add: vexit_dispatcher_def Let_def vexit_nop_def)
  let ?y = "?x\<lparr>v_preempted := False, v_state := VRUNNING, v_tlb_flush_pending := False, v_rearm := False\<rparr>"
  have c3: "vcurrent_vcpu k3 this = Some v" using c2 by (simp add: k3_def)
  have F3: "senders_repr k3 (F(this := []))" using k2(2) by (simp add: k3_def senders_repr_def)
  have t3: "\<not> v_preempted (tw_vcpu k3 v)" "\<not> v_terminate (tw_vcpu k3 v)" unfolding x3 using ok by simp_all
  obtain inv k' where ent: "venter (env_cfg (xe_env xe)) (env_call (xe_env xe)) (xe_vmptrld xe) this k3 = Some (VENTERED inv, k')"
    and k': "tw_vcpu k' v = snd (venter_inject ?y)" "senders_repr k' (F(this := []))"
    using venter_entered [OF c3 t3 F3] unfolding x3 by blast
  have "venter_event ?y = EXTERNAL vec" using ev by (subst venter_event_cong [of _ "tw_vcpu k v"]) simp_all
  then have eff: "event_effect (EXTERNAL vec) ?y (venter_inject ?y)" using event_effect_inject [of ?y] by simp
  have run: "v_state (snd (venter_inject ?y)) = VRUNNING" by (simp add: venter_inject_keeps)
  show ?thesis
    using d ent k' run eff by (auto simp: event_effect_def Let_def split_beta)
qed

section \<open>Applications\<close>

definition plain_info :: vper_cpu_info where
  "plain_info = \<lparr>pi_lapic_frequency_hz = 0, pi_lapic_period_fs = 0, pi_vmx_preempt_frequency_hz = 0, pi_vmx_preempt_period_fs = 0,
     pi_ia32_arch_capabilities_r = True, pi_ia32_feature_control_rw = True, pi_via32_feature_ctrl_low = 1, pi_via32_feature_ctrl_high = 0,
     pi_its_no = False, pi_wbinvd_exiting = True, pi_ept_pml4 = True, pi_ept_pml5 = False, pi_ept_2mb = True, pi_ept_1gb = True,
     pi_ept_wb = True, pi_ept_uc = True, pi_ept_accessed_dirty = True, pi_pt_use_gpa = False\<rparr>"

text \<open>A processor with protection keys.\<close>

definition pke_env :: vexit_env where
  "pke_env = \<lparr>xe_env = quiet_env, xe_vmptrld = (\<lambda>_. True),
     xe_features = \<lparr>ff_umip = True, ff_la57 = True, ff_fsgsbase = True, ff_pcid = True, ff_kl = True, ff_smep = True, ff_smap = True,
       ff_pke = True, ff_cet = True, ff_pks = True, ff_lass = True, ff_lam = True\<rparr>,
     xe_info = plain_info, xe_cpuid = id, xe_rdmsr = (\<lambda>_. Some 0), xe_wrmsr = (\<lambda>_ _ k. Some k),
     xe_shield = \<lparr>sh_active = False, sh_exception_vector = 0, sh_faulted = False, sh_recover_by_length = False, sh_len = 0,
       sh_recovery_rip = 0\<rparr>\<rparr>"

definition exit_info :: "u16 \<Rightarrow> u32 \<Rightarrow> vexit_info" where
  "exit_info reason qual = \<lparr>xi_basic_reason = reason, xi_vmentry_failure = False, xi_interrupt_info = exception_info INTERRUPT_TYPE_EXTERNAL 0,
     xi_nmi_unblocking = False, xi_qualification = qual, xi_guest_rsp = 0,
     xi_idt_vectoring_info = exception_info INTERRUPT_TYPE_EXTERNAL 0,
     xi_visr = \<lparr>vi_lapic_isr_set = False, vi_lapic_count = 0, vi_dead = False, vi_is_self_ipi = False, vi_self_ipi = None\<rparr>\<rparr>"

lemma pke_env_simps [simp]:
  "xe_env pke_env = quiet_env" "ff_pke (xe_features pke_env)" "env_call quiet_env = (\<lambda>_ _ k. k)" "env_cfg quiet_env = mcfs_config"
  by (simp_all add: pke_env_def quiet_env_def no_env_def)

lemma vrunning_10_enable:
  "enable_preemption_in quiet_env 1 vrunning_10 = Some (upd_vcpu 10 (\<lambda>x. x\<lparr>v_preemption_count := v_preemption_count x - 1\<rparr>) vrunning_10)"
  by (rule enable_preemption_quiet [OF vrunning_10_facts(1) vrunning_10_timers(2)])

text \<open>The virtual CPU 10 interrupted by the timer in a section that can be preempted.\<close>

definition timer_fired :: vtwan where
  "timer_fired = upd_vcpu 10 (\<lambda>x. x\<lparr>v_preemption_count := 0\<rparr>) (upd_vcpu_cpu 1 (\<lambda>c. c\<lparr>vc_sched_timer_armed := True\<rparr>) vrunning_10)"

theorem visr_timer_spec_witness:
  "\<exists>stack' k' v. visr_dispatcher quiet_env (xi_visr (exit_info 0 0)) 1 (xe_shield pke_env)
     (zero_interrupt_info\<lparr>ii_dispatch_info := ucast VSCHED_TIMER_VECTOR\<rparr>) timer_fired = Some (stack', xe_shield pke_env, k') \<and>
     vcurrent_vcpu k' 1 = Some v"
proof -
  let ?st = "zero_interrupt_info\<lparr>ii_dispatch_info := ucast VSCHED_TIMER_VECTOR\<rparr>"
  have at: "vsched_at timer_fired 1 = vsched_at vrunning_10 1" by (simp add: timer_fired_def vsched_at_def)
  have pre: "vsched_is_current_preemptible (env_cfg quiet_env) 1 10 timer_fired"
    using vrunning_10_preemptible by (subst preemptible_cong [OF at]) (simp_all add: timer_fired_def)
  have vec: "ucast (ii_dispatch_info ?st) = VSCHED_TIMER_VECTOR" by (simp add: VSCHED_TIMER_VECTOR_def)
  have f: "vcurrent_vcpu timer_fired 1 = Some 10" "v_state (tw_vcpu timer_fired 10) \<noteq> VREADY" "\<not> v_terminate (tw_vcpu timer_fired 10)"
    using vrunning_10_facts by (simp_all add: timer_fired_def vcurrent_vcpu_def)
  have c: "\<not> vc_handling_isr (tw_cpu timer_fired 1)" "vc_sched_timer_armed (tw_cpu timer_fired 1)"
    by (simp_all add: timer_fired_def vrunning_10_def framed_defs upd_vsched_def zero_vcpu_cpu_def)
  have "cb_quiet (env_call quiet_env)" "vcf_mcfs (env_cfg quiet_env)" "vi_lapic_count (xi_visr (exit_info 0 0)) = 0"
    by (simp_all add: cb_quiet_def mcfs_config_def exit_info_def)
  from visr_timer_spec [OF this(1,2) f vec c this(3) pre, of "xe_shield pke_env"] show ?thesis by blast
qed

theorem vexit_msr_access_witness:
  "\<exists>k'. vexit_rdmsr pke_env 1 (exit_info 31 0) (regs_of 0 0 0 0 0x174 0) vrunning_10 = Some (Inr (regs_of 0 0 0 0 0x174 0, k')) \<and>
     venter_event (tw_vcpu k' 10) = EXCEPTION 13 INTERRUPT_TYPE_HARDWARE_EXCEPTION"
proof -
  let ?k1 = "upd_vcpu 10 (\<lambda>x. x\<lparr>v_preemption_count := v_preemption_count x - 1\<rparr>) vrunning_10"
  have en: "enable_preemption_in (xe_env pke_env) 1 vrunning_10 = Some ?k1" using vrunning_10_enable by simp
  have v: "vcur ?k1 1 = 10" "\<not> v_root (tw_vcpu ?k1 10)"
    using vrunning_10_facts(1) vrunning_10_unprivileged by (simp_all add: unprivileged_def)
  have m: "ucast (rg_rcx (regs_of 0 0 0 0 0x174 0)) = (0x174 :: u32)" "(0x174 :: u32) \<notin> emulated_msrs"
    by (simp_all add: regs_of_def emulated_msrs_def IA32_ARCH_CAPABILITIES_def IA32_VIRTUAL_ENUMERATION_def
        IA32_VIRTUAL_MITIGATION_ENUM_def IA32_VIRTUAL_MITIGATION_CTRL_def IA32_FEATURE_CONTROL_def)
  from vexit_msr_access [OF en v(1) m, of "exit_info 31 0"] v(2) show ?thesis by auto
qed

theorem vexit_cr4_pke_witness:
  "\<exists>k'. vexit_cr_access pke_env 1 (exit_info 28 4) (regs_of 0x20 0 0 0 0 0) vrunning_10 = Some (Inr (regs_of 0x20 0 0 0 0 0, k')) \<and>
     venter_event (tw_vcpu k' 10) = EXCEPTION 13 INTERRUPT_TYPE_HARDWARE_EXCEPTION"
proof -
  let ?k1 = "upd_vcpu 10 (\<lambda>x. x\<lparr>v_preemption_count := v_preemption_count x - 1\<rparr>) vrunning_10"
  have en: "enable_preemption_in (xe_env pke_env) 1 vrunning_10 = Some ?k1" using vrunning_10_enable by simp
  have v: "vcur ?k1 1 = 10" using vrunning_10_facts(1) by simp
  have q: "and (xi_qualification (exit_info 28 4)) 15 = 4" by (simp add: exit_info_def)
  from vexit_cr4_pke [OF en v q refl, of "regs_of 0x20 0 0 0 0 0"] show ?thesis by simp
qed

theorem vcpuid_filter_spec_witness:
  "\<exists>c'. vcpuid_filter False 1 0 (0, 0, 0xffffffff, 0) = (0, 0, c', 0) \<and> \<not> bit c' 5 \<and> bit c' 31"
proof -
  obtain a' b' c' d' where e: "vcpuid_filter False 1 0 (0, 0, 0xffffffff, 0) = (a', b', c', d')" by (cases "vcpuid_filter False 1 0 (0, 0, 0xffffffff, 0)")
  from vcpuid_filter_spec [OF e] have "a' = 0" "\<forall>n. \<not> bit b' n" "\<forall>n. \<not> bit d' n" "\<not> bit c' 5" "bit c' 31" by simp_all
  moreover from this have "b' = 0" "d' = 0" by (auto intro: bit_word_eqI)
  ultimately show ?thesis using e by simp
qed

text \<open>A guest in user mode of a 64-bit program.\<close>

definition user_10 :: vtwan where
  "user_10 = upd_vcpu 10 (upd_vmcs (\<lambda>m. m\<lparr>vm_guest_cr0 := 1, vm_cs_dpl := 3, vm_guest_efer := 0x400, vm_cs_longmode := True,
     vm_guest_rip := 0x1000, vm_exit_length := 3\<rparr>)) vrunning_10"

theorem vmcall_fault_advances_witness:
  "\<exists>k'. vexit_vmcall pke_env 1 (exit_info 18 0) (regs_of 11 0 0 0 0 0) user_10 = Some (Inr (regs_of 11 0 0 0 0 0, k')) \<and>
     vm_guest_rip (v_vmcs (snd (venter_inject (tw_vcpu k' 10)))) = 0x1003"
proof -
  let ?k1 = "upd_vcpu 10 (\<lambda>x. x\<lparr>v_preemption_count := v_preemption_count x - 1\<rparr>) user_10"
  have cur: "vcurrent_vcpu user_10 1 = Some 10" and ny: "\<not> v_yield_request (tw_vcpu user_10 10)"
    using vrunning_10_facts(1) vrunning_10_timers(2) by (simp_all add: user_10_def)
  have en: "enable_preemption_in (xe_env pke_env) 1 user_10 = Some ?k1"
    unfolding pke_env_simps by (rule enable_preemption_quiet [OF cur ny])
  have u: "vis_guest_cpl0 (v_vmcs (tw_vcpu user_10 (vcur user_10 1))) = None" unfolding cur by (simp add: vis_guest_cpl0_def user_10_def)
  have v: "vcur ?k1 1 = 10" using cur by simp
  have q: "\<not> vq_vmwrite_cr0 (v_queue (tw_vcpu ?k1 10))" by (simp add: user_10_def vrunning_10_def framed_defs zero_queue_def)
  have g: "vget_guest_mode (v_vmcs (tw_vcpu ?k1 10)) = VOP_64_BIT" by (simp add: vget_guest_mode_def user_10_def)
  from vmcall_fault_advances [OF u en v q g, of "exit_info 18 0" "regs_of 11 0 0 0 0 0"] show ?thesis
    by (auto simp: user_10_def)
qed

theorem window_exit_injects_witness:
  "\<exists>k inv k'. vexit_dispatcher pke_env 1 (exit_info 7 0) (regs_of 0 0 0 0 0 0) k = Some (regs_of 0 0 0 0 0 0, VENTERED inv, k') \<and>
     ei_vector (vm_entry_info (v_vmcs (tw_vcpu k' 10))) = 40"
proof -
  let ?k = "upd_vcpu 10 (\<lambda>_. vcpu_40) vrunning_10"
  have cur: "vcurrent_vcpu ?k 1 = Some 10" using vrunning_10_facts(1) by simp
  have x: "tw_vcpu ?k 10 = vcpu_40" by simp
  have o: "\<not> v_terminate (tw_vcpu ?k 10)" "\<not> v_yield_request (tw_vcpu ?k 10)" "\<not> v_preempted (tw_vcpu ?k 10)"
    by (simp_all add: vcpu_40_def zero_vcpu_def)
  have i: "\<not> xi_vmentry_failure (exit_info 7 0)" "xi_basic_reason (exit_info 7 0) \<in> {7, 8}" "\<not> ve_valid (xi_idt_vectoring_info (exit_info 7 0))"
    by (simp_all add: exit_info_def exception_info_def)
  have F: "senders_repr ?k (\<lambda>_. [])"
    by (simp add: senders_repr_def vrunning_10_def framed_def two_partitions_def zero_vcpu_cpu_def unlinked_def upd_vsched_def)
  have e: "venter_event (tw_vcpu ?k 10) = EXTERNAL 40" unfolding x by (rule vcpu_40_facts(4))
  from window_exit_injects [OF cur o i F e, of pke_env "regs_of 0 0 0 0 0 0"] show ?thesis by blast
qed

end
