(* ===== verification/Twan_Vdelivery.thy ===== *)
theory Twan_Vdelivery
  imports Twan_Vexit
begin

text \<open>
  Delivery of device interrupts across the hypervisor: the subscription calls (\<open>vportal/vcalls.c\<close>), the
  permission call (\<open>vemulate/vemulate_utils.c\<close>), the dispatch of an interrupt that arrives
  (\<open>visr/visr_dispatcher.c\<close>) and the injection at an entry (\<open>vportal/venter.c\<close>) work on the dispatch queues
  of a CPU. A virtual CPU waits in the queue of a vector until an interrupt arrives, which takes it out and
  makes the vector pending, and it is put back when the vector is injected. Shown: a subscribed virtual CPU is always in
  the queue or has the vector pending, whatever sequence of these operations happens, so that no interrupt for
  it is lost.
\<close>

section \<open>The dispatch queues\<close>

text \<open>Queue \<open>vec\<close> of CPU \<open>c\<close> holds the virtual CPUs \<open>F c vec\<close>, all of that CPU; other nodes are unlinked.\<close>

definition dispatch_repr :: "vtwan \<Rightarrow> (u32 \<Rightarrow> u8 \<Rightarrow> vcpu_ptr list) \<Rightarrow> bool" where
  "dispatch_repr k F \<longleftrightarrow>
     (\<forall>c vec. dq_repr (tw_dispatch_node k) (vc_dispatch_vectors (tw_cpu k c) vec) (map (\<lambda>v. (v, vec)) (F c vec))) \<and>
     (\<forall>c vec v. v \<in> set (F c vec) \<longrightarrow> vcpu_cpu k v = c) \<and>
     (\<forall>v vec. v \<notin> set (F (vcpu_cpu k v) vec) \<longrightarrow> unlinked (tw_dispatch_node k) (v, vec))"

lemma dispatch_reprD:
  assumes "dispatch_repr k F"
  shows "dq_repr (tw_dispatch_node k) (vc_dispatch_vectors (tw_cpu k c) vec) (map (\<lambda>v. (v, vec)) (F c vec))"
    and "v \<in> set (F c vec) \<Longrightarrow> vcpu_cpu k v = c"
    and "v \<notin> set (F (vcpu_cpu k v) vec) \<Longrightarrow> unlinked (tw_dispatch_node k) (v, vec)"
  using assms by (auto simp: dispatch_repr_def)

lemma dispatch_repr_cong:
  assumes "tw_dispatch_node k' = tw_dispatch_node k" and "\<And>c. vc_dispatch_vectors (tw_cpu k' c) = vc_dispatch_vectors (tw_cpu k c)"
    and "\<And>v. vcpu_cpu k' v = vcpu_cpu k v"
  shows "dispatch_repr k' F = dispatch_repr k F"
  by (simp add: dispatch_repr_def assms)

lemma vcpu_cpu_on_dispatch [simp]: "vcpu_cpu (on_dispatch c x g k) v = vcpu_cpu k v"
  by (simp add: vcpu_cpu_def)

lemma on_dispatch_const:
  "g (tw_dispatch_node k, vc_dispatch_vectors (tw_cpu k c) x) = (h, d) \<Longrightarrow> on_dispatch c x g k = on_dispatch c x (\<lambda>_. (h, d)) k"
  by (simp add: on_dispatch_def)

lemma dispatch_queued:
  assumes "dispatch_repr k F" and "vcpu_cpu k v = c"
  shows "dq_is_queued (tw_dispatch_node k) (vc_dispatch_vectors (tw_cpu k c) vec) (v, vec) \<longleftrightarrow> v \<in> set (F c vec)"
proof -
  have "(v, vec) \<notin> set (map (\<lambda>v. (v, vec)) (F c vec)) \<Longrightarrow> unlinked (tw_dispatch_node k) (v, vec)"
    using dispatch_reprD(3) [OF assms(1), of v vec] assms(2) by auto
  from dq_is_queued_repr [OF dispatch_reprD(1) [OF assms(1)] this] show ?thesis by auto
qed

lemma dispatch_repr_upd:
  assumes r: "dispatch_repr k F" and d: "dq_repr h d (map (\<lambda>v. (v, vec)) xs)" and c: "\<And>v. v \<in> set xs \<Longrightarrow> vcpu_cpu k v = c"
    and u: "\<And>v. v \<notin> set xs \<Longrightarrow> vcpu_cpu k v = c \<Longrightarrow> unlinked h (v, vec)"
    and o: "\<And>v e. e \<noteq> vec \<or> vcpu_cpu k v \<noteq> c \<Longrightarrow> h (v, e) = tw_dispatch_node k (v, e)"
  shows "dispatch_repr (on_dispatch c vec (\<lambda>_. (h, d)) k) (F(c := (F c)(vec := xs)))"
proof -
  have "dq_repr h (vc_dispatch_vectors (tw_cpu k e) w) (map (\<lambda>v. (v, w)) (F e w))" if "\<not> (e = c \<and> w = vec)" for e w
    by (rule dq_repr_frame [OF dispatch_reprD(1) [OF r]]) (use o that dispatch_reprD(2) [OF r] in auto)
  moreover have "unlinked h (v, w)" if "v \<notin> set (F (vcpu_cpu k v) w)" "\<not> (vcpu_cpu k v = c \<and> w = vec)" for v w
    using dispatch_reprD(3) [OF r that(1)] o [of w v] that(2) by (auto simp: unlinked_def)
  ultimately show ?thesis
    using d u c dispatch_reprD(2) [OF r] by (auto simp: dispatch_repr_def)
qed

lemma dispatch_push:
  assumes r: "dispatch_repr k F" and v: "vcpu_cpu k v = c" "v \<notin> set (F c vec)"
  shows "dispatch_repr (on_dispatch c vec (\<lambda>s. dq_pushback s (v, vec)) k) (F(c := (F c)(vec := F c vec @ [v])))"
proof -
  obtain h d where p: "dq_pushback (tw_dispatch_node k, vc_dispatch_vectors (tw_cpu k c) vec) (v, vec) = (h, d)" by fastforce
  have n: "(v, vec) \<notin> set (map (\<lambda>v. (v, vec)) (F c vec))" using v(2) by auto
  note pb = dq_pushback_repr [OF dispatch_reprD(1) [OF r] n p]
  have same: "h (w, e) = tw_dispatch_node k (w, e)" if "w \<notin> insert v (set (F c vec)) \<or> e \<noteq> vec" for w e
    using pb that by (auto simp: image_iff)
  show ?thesis
    unfolding on_dispatch_const [where g = "\<lambda>s. dq_pushback s (v, vec)", OF p]
  proof (rule dispatch_repr_upd [OF r])
    show "dq_repr h d (map (\<lambda>v. (v, vec)) (F c vec @ [v]))" using pb by simp
    show "unlinked h (w, vec)" if "w \<notin> set (F c vec @ [v])" "vcpu_cpu k w = c" for w
      using same [of w vec] that dispatch_reprD(3) [OF r, of w vec] by (simp add: unlinked_def)
    show "h (w, e) = tw_dispatch_node k (w, e)" if "e \<noteq> vec \<or> vcpu_cpu k w \<noteq> c" for w e
      using that same [of w e] v(1) dispatch_reprD(2) [OF r, of w c vec] by auto
  qed (use v(1) dispatch_reprD(2) [OF r] in auto)
qed

lemma dispatch_remove:
  assumes r: "dispatch_repr k F" and v: "v \<in> set (F c vec)"
  shows "dispatch_repr (on_dispatch c vec (\<lambda>s. dq_dequeue s (v, vec)) k) (F(c := (F c)(vec := remove1 v (F c vec))))"
proof -
  let ?xs = "map (\<lambda>v. (v, vec)) (F c vec)"
  obtain h d where p: "dq_dequeue (tw_dispatch_node k, vc_dispatch_vectors (tw_cpu k c) vec) (v, vec) = (h, d)" by fastforce
  have n: "(v, vec) \<in> set ?xs" using v by auto
  note rm = dq_dequeue_remove1 [OF dispatch_reprD(1) [OF r] n p]
  have xs: "remove1 (v, vec) (map (\<lambda>v. (v, vec)) ys) = map (\<lambda>v. (v, vec)) (remove1 v ys)" for ys by (induction ys) auto
  have same: "h (w, e) = tw_dispatch_node k (w, e)" if "w \<notin> set (F c vec) \<or> e \<noteq> vec" for w e
    using rm that by (auto simp: image_iff)
  have dist: "distinct (F c vec)" using dq_repr_distinct [OF dispatch_reprD(1) [OF r]] by (simp add: distinct_map)
  show ?thesis
    unfolding on_dispatch_const [where g = "\<lambda>s. dq_dequeue s (v, vec)", OF p]
  proof (rule dispatch_repr_upd [OF r])
    show "dq_repr h d (map (\<lambda>v. (v, vec)) (remove1 v (F c vec)))" using rm unfolding xs by blast
    show "unlinked h (w, vec)" if "w \<notin> set (remove1 v (F c vec))" "vcpu_cpu k w = c" for w
      using rm same [of w vec] that dist dispatch_reprD(3) [OF r, of w vec] by (cases "w = v") (auto simp: unlinked_def)
    show "h (w, e) = tw_dispatch_node k (w, e)" if "e \<noteq> vec \<or> vcpu_cpu k w \<noteq> c" for w e
      using that same [of w e] dispatch_reprD(2) [OF r, of w c vec] by auto
  qed (use dispatch_reprD(2) [OF r] set_remove1_subset in fastforce)
qed

section \<open>Subscribers wait or have the vector pending\<close>

abbreviation subscribed :: "vtwan \<Rightarrow> vcpu_ptr \<Rightarrow> u8 \<Rightarrow> bool" where
  "subscribed k v vec \<equiv> bmp256_test (v_subscribed_vectors (tw_vcpu k v)) vec"

abbreviation is_pend :: "vtwan \<Rightarrow> vcpu_ptr \<Rightarrow> u8 \<Rightarrow> bool" where
  "is_pend k v vec \<equiv> vemu_is_interrupt_pending v vec (vec = NMI) k"

definition waiting_ok :: "vtwan \<Rightarrow> (u32 \<Rightarrow> u8 \<Rightarrow> vcpu_ptr list) \<Rightarrow> bool" where
  "waiting_ok k F \<longleftrightarrow> dispatch_repr k F \<and>
     (\<forall>c v vec. v \<in> set (F c vec) \<longrightarrow> subscribed k v vec) \<and>
     (\<forall>v vec. subscribed k v vec \<longrightarrow> v \<in> set (F (vcpu_cpu k v) vec) \<or> is_pend k v vec)"

lemma waiting_okD:
  assumes "waiting_ok k F"
  shows "dispatch_repr k F" "v \<in> set (F c vec) \<Longrightarrow> subscribed k v vec"
    "subscribed k v vec \<Longrightarrow> v \<notin> set (F (vcpu_cpu k v) vec) \<Longrightarrow> is_pend k v vec"
  using assms by (auto simp: waiting_ok_def)

lemma waiting_upd:
  assumes w: "waiting_ok k F" and r: "dispatch_repr k' (F(c := (F c)(vec := xs)))" and cpu: "\<And>u. vcpu_cpu k' u = vcpu_cpu k u"
    and xs: "\<And>u. u \<in> set xs \<Longrightarrow> subscribed k' u vec"
    and sub: "\<And>u e. e \<noteq> vec \<or> vcpu_cpu k u \<noteq> c \<Longrightarrow> subscribed k' u e = subscribed k u e"
    and pend: "\<And>u e. e \<noteq> vec \<or> vcpu_cpu k u \<noteq> c \<Longrightarrow> is_pend k u e \<Longrightarrow> is_pend k' u e"
    and own: "\<And>u. vcpu_cpu k u = c \<Longrightarrow> subscribed k' u vec \<Longrightarrow> u \<in> set xs \<or> is_pend k' u vec"
  shows "waiting_ok k' (F(c := (F c)(vec := xs)))"
proof -
  let ?F = "F(c := (F c)(vec := xs))"
  have "subscribed k' u e" if u: "u \<in> set (?F d e)" for u d e
  proof (cases "d = c \<and> e = vec")
    case False
    then have "u \<in> set (F d e)" using u by (auto split: if_splits)
    then show ?thesis
      using False sub [of e u] waiting_okD(2) [OF w, of u d e] dispatch_reprD(2) [OF waiting_okD(1) [OF w], of u d e] by auto
  qed (use u xs in simp)
  moreover have "u \<in> set (?F (vcpu_cpu k u) e) \<or> is_pend k' u e" if s: "subscribed k' u e" for u e
  proof (cases "vcpu_cpu k u = c \<and> e = vec")
    case False
    then have "u \<in> set (F (vcpu_cpu k u) e) \<or> is_pend k' u e"
      using s sub [of e u] pend [of e u] waiting_okD(3) [OF w, of u e] by blast
    then show ?thesis using False by auto
  qed (use s own in simp)
  ultimately show ?thesis using r unfolding waiting_ok_def cpu by blast
qed

lemma dispatch_keep: "dispatch_repr k F \<Longrightarrow> dispatch_repr (on_dispatch c vec (\<lambda>s. s) k) (F(c := (F c)(vec := F c vec)))"
  using dispatch_repr_cong [of "on_dispatch c vec (\<lambda>s. s) k" k F] by (simp add: fun_eq_iff)

text \<open>A virtual CPU enters the queue of a vector it is subscribed to, unless it is there or need not wait.\<close>

lemma waiting_enter:
  assumes w: "waiting_ok k F" and r: "dispatch_repr k1 F" and cpu: "\<And>u. vcpu_cpu k1 u = vcpu_cpu k u" "vcpu_cpu k v = c"
    and sub: "\<And>u e. subscribed k1 u e \<longleftrightarrow> subscribed k u e \<or> u = v \<and> e = vec \<and> enter"
    and pend: "\<And>u e. u \<noteq> v \<or> e \<noteq> vec \<Longrightarrow> is_pend k u e \<Longrightarrow> is_pend k1 u e"
    and go: "enter \<longleftrightarrow> subscribed k1 v vec" "stay \<Longrightarrow> is_pend k1 v vec"
  shows "\<exists>F'. waiting_ok (on_dispatch c vec (\<lambda>(h, d). if enter \<and> \<not> stay \<and> \<not> dq_is_queued h d (v, vec)
     then dq_pushback (h, d) (v, vec) else (h, d)) k1) F'"
proof -
  let ?k2 = "on_dispatch c vec (\<lambda>(h, d). if enter \<and> \<not> stay \<and> \<not> dq_is_queued h d (v, vec) then dq_pushback (h, d) (v, vec) else (h, d)) k1"
  have q: "dq_is_queued (tw_dispatch_node k1) (vc_dispatch_vectors (tw_cpu k1 c) vec) (v, vec) \<longleftrightarrow> v \<in> set (F c vec)"
    by (rule dispatch_queued [OF r]) (simp add: cpu)
  let ?xs = "if enter \<and> \<not> stay \<and> v \<notin> set (F c vec) then F c vec @ [v] else F c vec"
  have "dispatch_repr ?k2 (F(c := (F c)(vec := ?xs)))"
  proof (cases "enter \<and> \<not> stay \<and> v \<notin> set (F c vec)")
    case True
    then have "?k2 = on_dispatch c vec (\<lambda>s. dq_pushback s (v, vec)) k1" using q by (simp add: on_dispatch_def)
    then show ?thesis using dispatch_push [OF r, of v c vec] True cpu by simp
  next
    case False
    then have "?k2 = on_dispatch c vec (\<lambda>s. s) k1" using q by (auto simp: on_dispatch_def)
    then show ?thesis unfolding if_not_P [OF False] using dispatch_keep [OF r] by simp
  qed
  then have "waiting_ok ?k2 (F(c := (F c)(vec := ?xs)))"
  proof (rule waiting_upd [OF w])
    show "subscribed ?k2 u vec" if u: "u \<in> set ?xs" for u
    proof (cases "u \<in> set (F c vec)")
      case True
      then show ?thesis using waiting_okD(2) [OF w True] sub [of u vec] by simp
    next
      case False
      then have "u = v" "enter" using u by (auto split: if_splits)
      then show ?thesis using go(1) by simp
    qed
    show "u \<in> set ?xs \<or> is_pend ?k2 u vec" if "vcpu_cpu k u = c" "subscribed ?k2 u vec" for u
    proof (cases "u = v")
      case True
      then show ?thesis using that(2) go by auto
    next
      case False
      then show ?thesis using that waiting_okD(3) [OF w, of u vec] sub [of u vec] pend [of u vec] by auto
    qed
    show "vcpu_cpu ?k2 u = vcpu_cpu k u" for u by (simp add: cpu)
    show "subscribed ?k2 u e = subscribed k u e" if "e \<noteq> vec \<or> vcpu_cpu k u \<noteq> c" for u e using that sub [of u e] cpu(2) by auto
    show "is_pend ?k2 u e" if "e \<noteq> vec \<or> vcpu_cpu k u \<noteq> c" "is_pend k u e" for u e using that pend [of u e] cpu(2) by auto
  qed
  then show ?thesis by blast
qed

text \<open>A virtual CPU that gives a vector up leaves its queue.\<close>

lemma waiting_leave:
  assumes w: "waiting_ok k F" and r: "dispatch_repr k1 F" and cpu: "\<And>u. vcpu_cpu k1 u = vcpu_cpu k u" "vcpu_cpu k v = c"
    and sub: "\<And>u e. subscribed k1 u e \<longleftrightarrow> subscribed k u e \<and> \<not> (u = v \<and> e = vec)" and pend: "\<And>u e. is_pend k1 u e = is_pend k u e"
  shows "\<exists>F'. waiting_ok (on_dispatch c vec (\<lambda>(h, d). if dq_is_queued h d (v, vec) then dq_dequeue (h, d) (v, vec) else (h, d)) k1) F'"
proof -
  let ?k2 = "on_dispatch c vec (\<lambda>(h, d). if dq_is_queued h d (v, vec) then dq_dequeue (h, d) (v, vec) else (h, d)) k1"
  have q: "dq_is_queued (tw_dispatch_node k1) (vc_dispatch_vectors (tw_cpu k1 c) vec) (v, vec) \<longleftrightarrow> v \<in> set (F c vec)"
    by (rule dispatch_queued [OF r]) (simp add: cpu)
  have dist: "distinct (F c vec)" using dq_repr_distinct [OF dispatch_reprD(1) [OF r]] by (simp add: distinct_map)
  have "dispatch_repr ?k2 (F(c := (F c)(vec := remove1 v (F c vec))))"
  proof (cases "v \<in> set (F c vec)")
    case True
    then have "?k2 = on_dispatch c vec (\<lambda>s. dq_dequeue s (v, vec)) k1" using q by (simp add: on_dispatch_def)
    then show ?thesis using dispatch_remove [OF r True] by simp
  next
    case False
    then have "?k2 = on_dispatch c vec (\<lambda>s. s) k1" using q by (simp add: on_dispatch_def)
    then show ?thesis using dispatch_keep [OF r] False by (simp add: remove1_idem)
  qed
  then have "waiting_ok ?k2 (F(c := (F c)(vec := remove1 v (F c vec))))"
  proof (rule waiting_upd [OF w])
    show "subscribed ?k2 u vec" if "u \<in> set (remove1 v (F c vec))" for u
      using that dist waiting_okD(2) [OF w, of u c vec] sub by auto
    show "u \<in> set (remove1 v (F c vec)) \<or> is_pend ?k2 u vec" if "vcpu_cpu k u = c" "subscribed ?k2 u vec" for u
      using that dist waiting_okD(3) [OF w, of u vec] sub [of u vec] pend [of u vec] by auto
    show "vcpu_cpu ?k2 u = vcpu_cpu k u" for u by (simp add: cpu)
    show "subscribed ?k2 u e = subscribed k u e" if "e \<noteq> vec \<or> vcpu_cpu k u \<noteq> c" for u e using that sub [of u e] cpu(2) by auto
    show "is_pend ?k2 u e" if "e \<noteq> vec \<or> vcpu_cpu k u \<noteq> c" "is_pend k u e" for u e using that pend [of u e] by simp
  qed
  then show ?thesis by blast
qed

text \<open>A state with the same queues, in which subscriptions have not changed and no pending vector of a subscriber outside
  the queues is gone.\<close>

lemma waiting_ok_mono:
  assumes w: "waiting_ok k F" and "tw_dispatch_node k' = tw_dispatch_node k"
    and "\<And>c. vc_dispatch_vectors (tw_cpu k' c) = vc_dispatch_vectors (tw_cpu k c)"
    and cpu: "\<And>v. vcpu_cpu k' v = vcpu_cpu k v" and sub: "\<And>v vec. subscribed k' v vec = subscribed k v vec"
    and pend: "\<And>v vec. is_pend k v vec \<Longrightarrow> v \<notin> set (F (vcpu_cpu k v) vec) \<Longrightarrow> is_pend k' v vec"
  shows "waiting_ok k' F"
  using w dispatch_repr_cong [OF assms(2,3) cpu] pend unfolding waiting_ok_def cpu sub by blast

section \<open>Arrival of an interrupt\<close>

lemma set_pending_view:
  "v_subscribed_vectors (tw_vcpu (snd (vemu_set_interrupt_pending v vec nmi k)) w) = v_subscribed_vectors (tw_vcpu k w)"
  "v_vqueue_id (tw_vcpu (snd (vemu_set_interrupt_pending v vec nmi k)) w) = v_vqueue_id (tw_vcpu k w)"
  "vemu_is_interrupt_pending w x b k \<Longrightarrow> vemu_is_interrupt_pending w x b (snd (vemu_set_interrupt_pending v vec nmi k))"
  "tw_dispatch_node (snd (vemu_set_interrupt_pending v vec nmi k)) = tw_dispatch_node k"
  "tw_cpu (snd (vemu_set_interrupt_pending v vec nmi k)) = tw_cpu k"
  by (auto simp: vemu_set_interrupt_pending_def vemu_do_set_interrupt_pending_def vemu_is_interrupt_pending_def)

lemma vdispatch_loop_keeps:
  "vdispatch_loop vec cur k = Some k' \<Longrightarrow>
   v_subscribed_vectors (tw_vcpu k' w) = v_subscribed_vectors (tw_vcpu k w) \<and> v_vqueue_id (tw_vcpu k' w) = v_vqueue_id (tw_vcpu k w) \<and>
   (vemu_is_interrupt_pending w x b k \<longrightarrow> vemu_is_interrupt_pending w x b k')"
proof (induction rule: vdispatch_loop.raw_induct [rotated, consumes 1, case_names step])
  case (step loop vec' cur' k1 k2)
  show ?case
  proof (cases cur')
    case None
    then show ?thesis using step by simp
  next
    case (Some n)
    from step.IH [OF step.hyps [unfolded Some option.case Let_def]] show ?thesis
      by (auto simp: set_pending_view)
  qed
qed

lemma waiting_dispatch:
  assumes w: "waiting_ok k F"
  shows "\<exists>k'. vdispatch_interrupt this vec k = Some k' \<and> waiting_ok k' (F(this := (F this)(vec := []))) \<and>
     (\<forall>v. vcpu_cpu k v = this \<and> subscribed k v vec \<longrightarrow> is_pend k' v vec)"
proof -
  note r = waiting_okD(1) [OF w]
  let ?ns = "map (\<lambda>v. (v, vec)) (F this vec)"
  have dq: "dq_repr (tw_dispatch_node k) (vc_dispatch_vectors (tw_cpu k this) vec) ?ns" by (rule dispatch_reprD(1) [OF r])
  have f: "dq_peekfront (vc_dispatch_vectors (tw_cpu k this) vec) = first_or ?ns None"
    using dq_repr_front [OF dq] by (simp add: dq_peekfront_def)
  obtain k1 where k1: "vdispatch_loop vec (first_or ?ns None) k = Some k1" "tw_cpu k1 = tw_cpu k"
     "\<forall>n \<in> set ?ns. unlinked (tw_dispatch_node k1) n" "\<forall>n. n \<notin> set ?ns \<longrightarrow> tw_dispatch_node k1 n = tw_dispatch_node k n"
     "\<forall>w. is_pend k1 w vec \<longleftrightarrow> w \<in> fst ` set ?ns \<or> is_pend k w vec"
    using vdispatch_loop_spec [of k None ?ns vec] dq by (auto simp: dq_repr_def)
  note keep = vdispatch_loop_keeps [OF k1(1)]
  define k' where "k' = on_dispatch this vec (\<lambda>(h, d). (h, d\<lparr>dq_front := None, dq_rear := None\<rparr>)) k1"
  have e: "vdispatch_interrupt this vec k = Some k'" by (simp add: vdispatch_interrupt_def f k1(1) k'_def)
  have cpu: "vcpu_cpu k' v = vcpu_cpu k v" for v using keep [of v] by (simp add: vcpu_cpu_def k'_def)
  have same: "tw_dispatch_node k1 (u, e) = tw_dispatch_node k (u, e)" if "e \<noteq> vec \<or> u \<notin> set (F this vec)" for u e
    using k1(4) that by auto
  have q: "dispatch_repr k' (F(this := (F this)(vec := [])))"
  proof -
    have "dq_repr (tw_dispatch_node k1) (vc_dispatch_vectors (tw_cpu k c) x) (map (\<lambda>v. (v, x)) (F c x))" if n: "\<not> (c = this \<and> x = vec)" for c x
    proof (rule dq_repr_frame [OF dispatch_reprD(1) [OF r]])
      fix m assume "m \<in> set (map (\<lambda>v. (v, x)) (F c x))"
      then obtain v where v: "m = (v, x)" "v \<in> set (F c x)" by auto
      then have "x \<noteq> vec \<or> v \<notin> set (F this vec)" using n dispatch_reprD(2) [OF r, of v] by blast
      then show "tw_dispatch_node k1 m = tw_dispatch_node k m" using same v(1) by simp
    qed
    moreover have "unlinked (tw_dispatch_node k1) (v, x)"
      if "v \<notin> set ((F(this := (F this)(vec := []))) (vcpu_cpu k v) x)" for v x
    proof (cases "x = vec \<and> v \<in> set (F this vec)")
      case True
      then show ?thesis using k1(3) by auto
    next
      case False
      then have "v \<notin> set (F (vcpu_cpu k v) x)" using that dispatch_reprD(2) [OF r, of v] by (auto split: if_splits)
      then show ?thesis using dispatch_reprD(3) [OF r, of v x] same [of x v] False by (simp add: unlinked_def)
    qed
    ultimately show ?thesis
      using dispatch_reprD(2) [OF r] unfolding dispatch_repr_def cpu by (auto simp: k'_def k1(2) dq_repr_def)
  qed
  have sub: "subscribed k' v x = subscribed k v x" for v x using keep [of v] by (simp add: k'_def)
  have pend: "is_pend k v x \<Longrightarrow> is_pend k' v x" for v x using keep [of v x "x = NMI"] by (simp add: k'_def)
  have own: "is_pend k' v vec" if "vcpu_cpu k v = this" "subscribed k v vec" for v
  proof (cases "v \<in> set (F this vec)")
    case True
    then show ?thesis using k1(5) by (auto simp: k'_def image_iff)
  next
    case False
    then show ?thesis using waiting_okD(3) [OF w that(2)] that(1) pend by simp
  qed
  have "waiting_ok k' (F(this := (F this)(vec := [])))"
    by (rule waiting_upd [OF w q cpu]) (use sub pend own in simp_all)
  then show ?thesis using e own by blast
qed

section \<open>Injection at an entry\<close>

definition sub_view :: "vcpu \<Rightarrow> _" where
  "sub_view x = (v_subscribed_vectors x, v_vqueue_id x)"

lemma sub_view_inject: "sub_view (snd (venter_inject x)) = sub_view x"
proof -
  have "sub_view (voperations x) = sub_view x" "sub_view (snd (vinject_vectoring q x)) = sub_view x"
    "sub_view (snd (snd (vinject_nmi s x))) = sub_view x" "sub_view (snd (snd (vinject_pending s e x))) = sub_view x"
    "sub_view (vinject_windows s x) = sub_view x" for q s e x
    by (simp_all add: sub_view_def voperations_def vinject_vectoring_def vinject_nmi_def vinject_pending_def vinject_windows_def Let_def)
  then show ?thesis by (simp add: venter_inject_def split_beta)
qed

lemma waiting_entry:
  assumes w: "waiting_ok k F" and c: "vcpu_cpu k v = this" and inj: "venter_inject (tw_vcpu k v) = (ext, x')"
  shows "\<exists>F'. waiting_ok (venter_requeue this v ext (upd_vcpu v (\<lambda>_. x') k)) F'"
proof -
  let ?k1 = "upd_vcpu v (\<lambda>_. x') k"
  have sv: "v_subscribed_vectors x' = v_subscribed_vectors (tw_vcpu k v)" "v_vqueue_id x' = v_vqueue_id (tw_vcpu k v)"
    using sub_view_inject [of "tw_vcpu k v"] inj by (simp_all add: sub_view_def)
  have cpu: "vcpu_cpu ?k1 u = vcpu_cpu k u" for u by (simp add: vcpu_cpu_def sv)
  have sub: "subscribed ?k1 u e = subscribed k u e" for u e by (simp add: sv)
  have r: "dispatch_repr ?k1 F" using dispatch_repr_cong [of ?k1 k F] waiting_okD(1) [OF w] cpu by simp
  have eff: "event_effect (venter_event (tw_vcpu k v)) (tw_vcpu k v) (ext, x')"
    using event_effect_inject [of "tw_vcpu k v"] inj by simp
  have neg: "uint (w :: u8) \<noteq> -1" "-1 \<noteq> uint (w :: u8)" for w using uint_nonnegative [of w] by linarith+
  have other: "is_pend ?k1 u e = is_pend k u e" if "u \<noteq> v" for u e using that by (simp add: vemu_is_interrupt_pending_def)
  show ?thesis
  proof (cases "ext = -1")
    case True
    have "is_pend ?k1 v e = is_pend k v e" for e
      using eff True by (auto simp: event_effect_def Let_def vemu_is_interrupt_pending_def neg split: vevent.splits)
    then have "waiting_ok ?k1 F" using waiting_ok_mono [OF w, of ?k1] cpu sub other by (metis upd_vcpu_simps(3,8))
    then show ?thesis using True by (auto simp: venter_requeue_def)
  next
    case False
    then obtain vec where vec: "ext = uint vec" "\<And>e. e \<noteq> vec \<Longrightarrow> is_pend k v e \<Longrightarrow> is_pend ?k1 v e"
      using eff by (auto simp: event_effect_def Let_def vemu_is_interrupt_pending_def split: vevent.splits)
    have "venter_requeue this v ext ?k1 = on_dispatch this vec (\<lambda>(h, d).
        if subscribed k v vec \<and> \<not> False \<and> \<not> dq_is_queued h d (v, vec) then dq_pushback (h, d) (v, vec) else (h, d)) ?k1"
      using False vec(1) by (simp add: venter_requeue_def Let_def sv)
    moreover have "\<exists>F'. waiting_ok (on_dispatch this vec (\<lambda>(h, d).
        if subscribed k v vec \<and> \<not> False \<and> \<not> dq_is_queued h d (v, vec) then dq_pushback (h, d) (v, vec) else (h, d)) ?k1) F'"
    proof (rule waiting_enter [OF w r cpu c])
      show "is_pend ?k1 u e" if "u \<noteq> v \<or> e \<noteq> vec" "is_pend k u e" for u e
        using that vec(2) other [of u e] by (cases "u = v") auto
      show "subscribed ?k1 u e = (subscribed k u e \<or> u = v \<and> e = vec \<and> subscribed k v vec)" for u e using sub by auto
    qed (simp_all add: sv)
    ultimately show ?thesis by metis
  qed
qed

section \<open>All operations\<close>

text \<open>The operations on the dispatch queues of any CPU: a call of the virtual CPU that runs there, the permission call of the
  root partition, an interrupt that arrives, a vector made pending in another way, an entry.\<close>

inductive delivery_step :: "venv \<Rightarrow> vtwan \<Rightarrow> vtwan \<Rightarrow> bool" for env where
  subscribe: "vcurrent_vcpu k this = Some v \<Longrightarrow> vcpu_cpu k v = this \<Longrightarrow> \<not> v_yield_request (tw_vcpu k v) \<Longrightarrow>
    vsubscribe_external_interrupt_vector env this r k = Some (ret, k') \<Longrightarrow> delivery_step env k k'"
| unsubscribe: "vcurrent_vcpu k this = Some v \<Longrightarrow> vcpu_cpu k v = this \<Longrightarrow> \<not> v_yield_request (tw_vcpu k v) \<Longrightarrow>
    vunsubscribe_external_interrupt_vector env this r k = Some (ret, k') \<Longrightarrow> delivery_step env k k'"
| permission: "vemu_set_vcpu_subscription_perms vid processor_id vector allow k = (ret, k') \<Longrightarrow> delivery_step env k k'"
| arrival: "vdispatch_interrupt this vector k = Some k' \<Longrightarrow> delivery_step env k k'"
| pending: "vemu_set_interrupt_pending v vector nmi k = (ret, k') \<Longrightarrow> delivery_step env k k'"
| entry: "vcpu_cpu k v = this \<Longrightarrow> venter_inject (tw_vcpu k v) = (ext, x') \<Longrightarrow>
    delivery_step env k (venter_requeue this v ext (upd_vcpu v (\<lambda>_. x') k))"

lemma waiting_enabled:
  assumes "waiting_ok k F" and "vcurrent_vcpu k this = Some v" and "\<not> v_yield_request (tw_vcpu k v)"
  shows "\<exists>k1. enable_preemption_in env this k = Some k1 \<and> waiting_ok k1 F \<and> vcurrent_vcpu k1 this = Some v \<and> vcpu_cpu k1 = vcpu_cpu k"
proof -
  let ?k1 = "upd_vcpu v (\<lambda>x. x\<lparr>v_preemption_count := v_preemption_count x - 1\<rparr>) k"
  have "waiting_ok ?k1 F"
    by (rule waiting_ok_mono [OF assms(1)]) (auto simp: vcpu_cpu_def vemu_is_interrupt_pending_def)
  then show ?thesis using enable_preemption_quiet [OF assms(2,3)] assms(2) by (auto simp: vcpu_cpu_def fun_eq_iff)
qed

lemma waiting_subscribe:
  assumes w: "waiting_ok k F" and cur: "vcurrent_vcpu k this = Some v" "vcpu_cpu k v = this"
  shows "\<exists>F'. waiting_ok (on_dispatch this vec (\<lambda>(h, d). if \<not> is_pend k v vec \<and> \<not> dq_is_queued h d (v, vec)
     then dq_pushback (h, d) (v, vec) else (h, d))
     (upd_vcpu v (\<lambda>x. x\<lparr>v_subscribed_vectors := bmp256_set (v_subscribed_vectors x) vec\<rparr>) k)) F'"
proof -
  let ?k1 = "upd_vcpu v (\<lambda>x. x\<lparr>v_subscribed_vectors := bmp256_set (v_subscribed_vectors x) vec\<rparr>) k"
  have cpu: "vcpu_cpu ?k1 u = vcpu_cpu k u" for u by (simp add: vcpu_cpu_def)
  have r: "dispatch_repr ?k1 F" using dispatch_repr_cong [of ?k1 k F] waiting_okD(1) [OF w] cpu by simp
  have p: "is_pend ?k1 u e = is_pend k u e" for u e by (simp add: vemu_is_interrupt_pending_def)
  have "\<exists>F'. waiting_ok (on_dispatch this vec (\<lambda>(h, d). if True \<and> \<not> is_pend k v vec \<and> \<not> dq_is_queued h d (v, vec)
     then dq_pushback (h, d) (v, vec) else (h, d)) ?k1) F'"
    by (rule waiting_enter [OF w r cpu cur(2)]) (auto simp: p)
  then show ?thesis by simp
qed

lemma waiting_unsubscribe:
  assumes w: "waiting_ok k F" and cur: "vcpu_cpu k v = c"
    and f: "\<And>x. v_subscribed_vectors (f x) = bmp256_unset (v_subscribed_vectors x) vec" "\<And>x. v_vqueue_id (f x) = v_vqueue_id x"
      "\<And>x. v_delivery (f x) = v_delivery x" "\<And>x. v_pending_external_interrupts (f x) = v_pending_external_interrupts x"
  shows "\<exists>F'. waiting_ok (on_dispatch c vec (\<lambda>(h, d). if dq_is_queued h d (v, vec) then dq_dequeue (h, d) (v, vec) else (h, d))
     (upd_vcpu v f k)) F'"
proof -
  have cpu: "vcpu_cpu (upd_vcpu v f k) u = vcpu_cpu k u" for u by (simp add: vcpu_cpu_def f)
  have r: "dispatch_repr (upd_vcpu v f k) F" using dispatch_repr_cong [of "upd_vcpu v f k" k F] waiting_okD(1) [OF w] cpu by simp
  show ?thesis by (rule waiting_leave [OF w r cpu cur]) (auto simp: vemu_is_interrupt_pending_def f)
qed

lemma waiting_permission:
  assumes w: "waiting_ok k F" and e: "vemu_set_vcpu_subscription_perms vid i vec allow k = (ret, k')"
  shows "\<exists>F'. waiting_ok k' F'"
proof -
  have allow: "\<exists>F'. waiting_ok (upd_vcpu v (\<lambda>x. x\<lparr>v_allowed_external_vectors := f x\<rparr>) k) F'" for v f
    by (rule exI, rule waiting_ok_mono [OF w]) (auto simp: vcpu_cpu_def vemu_is_interrupt_pending_def)
  show ?thesis
    using e w
    by (auto simp: vemu_set_vcpu_subscription_perms_def Let_def split: option.splits if_splits
        intro!: waiting_unsubscribe [OF w refl] allow)
qed

lemma subscription_eqs:
  assumes "enable_preemption_in env this k = Some k1" and "vcur k1 this = v" and "vcall_arg1_8 r = vec"
  shows "vsubscribe_external_interrupt_vector env this r k =
      (if bmp256_test (v_allowed_external_vectors (tw_vcpu k1 v)) vec
       then Some (0, on_dispatch this vec (\<lambda>(h, d). if \<not> is_pend k1 v vec \<and> \<not> dq_is_queued h d (v, vec)
              then dq_pushback (h, d) (v, vec) else (h, d))
            (upd_vcpu v (\<lambda>x. x\<lparr>v_subscribed_vectors := bmp256_set (v_subscribed_vectors x) vec\<rparr>) k1))
       else Some (- EPERM, k1))"
    and "vunsubscribe_external_interrupt_vector env this r k =
      (if bmp256_test (v_allowed_external_vectors (tw_vcpu k1 v)) vec
       then Some (0, on_dispatch this vec (\<lambda>(h, d). if dq_is_queued h d (v, vec) then dq_dequeue (h, d) (v, vec) else (h, d))
            (upd_vcpu v (\<lambda>x. x\<lparr>v_subscribed_vectors := bmp256_unset (v_subscribed_vectors x) vec\<rparr>) k1))
       else Some (- EPERM, k1))"
  unfolding vsubscribe_external_interrupt_vector_def vunsubscribe_external_interrupt_vector_def Let_def assms Option.bind.simps
  by (rule refl)+

lemma delivery_step_waiting:
  assumes "delivery_step env k k'" and w: "waiting_ok k F"
  shows "\<exists>F'. waiting_ok k' F'"
  using assms(1)
proof cases
  case (subscribe this v r ret)
  obtain k1 where k1: "enable_preemption_in env this k = Some k1" "waiting_ok k1 F" "vcurrent_vcpu k1 this = Some v" "vcpu_cpu k1 v = this"
    using waiting_enabled [OF w subscribe(1,3)] subscribe(2) by (metis)
  show ?thesis
    using subscribe(4) k1 waiting_subscribe [OF k1(2,3,4)] subscription_eqs(1) [OF k1(1) _ refl, of v r]
    by (auto split: if_splits)
next
  case (unsubscribe this v r ret)
  obtain k1 where k1: "enable_preemption_in env this k = Some k1" "waiting_ok k1 F" "vcurrent_vcpu k1 this = Some v" "vcpu_cpu k1 v = this"
    using waiting_enabled [OF w unsubscribe(1,3)] unsubscribe(2) by (metis)
  have "\<exists>F'. waiting_ok (on_dispatch this vec (\<lambda>(h, d). if dq_is_queued h d (v, vec) then dq_dequeue (h, d) (v, vec) else (h, d))
      (upd_vcpu v (\<lambda>x. x\<lparr>v_subscribed_vectors := bmp256_unset (v_subscribed_vectors x) vec\<rparr>) k1)) F'" for vec
    by (rule waiting_unsubscribe [OF k1(2,4)]) simp_all
  then show ?thesis
    using unsubscribe(4) k1 subscription_eqs(2) [OF k1(1) _ refl, of v r]
    by (auto split: if_splits)
next
  case (permission vid processor_id vector allow ret)
  then show ?thesis by (rule waiting_permission [OF w])
next
  case (arrival this vector)
  then show ?thesis using waiting_dispatch [OF w, of this vector] by auto
next
  case (pending v vector nmi ret)
  have k': "k' = snd (vemu_set_interrupt_pending v vector nmi k)" using pending by simp
  have "waiting_ok k' F" by (rule waiting_ok_mono [OF w]) (simp_all add: k' set_pending_view vcpu_cpu_def)
  then show ?thesis by blast
next
  case (entry v this ext x')
  then show ?thesis using waiting_entry [OF w entry(2,3)] by simp
qed

text \<open>C32: No device interrupt is lost: after any sequence of subscriptions, withdrawals, changes of permissions, arrivals, other
  interrupts and entries, on any CPUs, an interrupt that arrives on a CPU becomes pending for every virtual CPU of
  that CPU that is subscribed to its vector.\<close>

theorem no_lost_device_interrupt:
  assumes "waiting_ok k0 F0" and "(delivery_step env)\<^sup>*\<^sup>* k0 k"
  shows "\<exists>k'. vdispatch_interrupt this vec k = Some k' \<and>
     (\<forall>v. vcpu_cpu k v = this \<and> bmp256_test (v_subscribed_vectors (tw_vcpu k v)) vec \<longrightarrow>
        vemu_is_interrupt_pending v vec (vec = NMI) k')"
proof -
  have "\<exists>F. waiting_ok k F" using assms(2)
    by (induction rule: rtranclp_induct) (use assms(1) delivery_step_waiting in blast)+
  then show ?thesis using waiting_dispatch by blast
qed

section \<open>Applications\<close>

lemma waiting_initial: "waiting_ok vrunning_10 (\<lambda>_ _. [])"
  by (simp add: waiting_ok_def dispatch_repr_def unlinked_def vrunning_10_def framed_defs zero_vcpu_cpu_def upd_vsched_def)

text \<open>The virtual CPU 10 subscribes to vector 40 on CPU 1; then the interrupt arrives.\<close>

theorem no_lost_device_interrupt_witness:
  "\<exists>k k1 k'. vsubscribe_external_interrupt_vector quiet_env 1 (regs_of 0 40 0 0 0 0) k = Some (0, k1) \<and>
     vdispatch_interrupt 1 40 k1 = Some k' \<and> vemu_is_interrupt_pending 10 40 False k'"
proof -
  let ?k = "upd_vcpu 10 (\<lambda>x. x\<lparr>v_allowed_external_vectors := bmp256_set zero_bmp 40\<rparr>) vrunning_10"
  let ?r = "regs_of 0 40 0 0 0 0"
  have w: "waiting_ok ?k (\<lambda>_ _. [])"
    by (rule waiting_ok_mono [OF waiting_initial]) (auto simp: vcpu_cpu_def vemu_is_interrupt_pending_def)
  have cur: "vcurrent_vcpu ?k 1 = Some 10" "vcpu_cpu ?k 10 = 1" "\<not> v_yield_request (tw_vcpu ?k 10)"
    using vrunning_10_facts(1) vrunning_10_timers(2) by (simp_all add: vcpu_cpu_def) (simp add: vrunning_10_def framed_defs)
  have r: "vcall_arg1_8 ?r = 40" by (simp add: vcall_arg1_8_def regs_of_def)
  obtain k1 where k1: "vsubscribe_external_interrupt_vector quiet_env 1 ?r ?k = Some (0, k1)" "vcpu_cpu k1 10 = 1" "subscribed k1 10 40"
    using enable_preemption_quiet [OF cur(1,3)] cur(1,2)
    by (simp add: vsubscribe_external_interrupt_vector_def Let_def r) (simp add: vcpu_cpu_def)
  have "delivery_step quiet_env ?k k1" using delivery_step.subscribe [OF cur k1(1)] .
  from no_lost_device_interrupt [OF w r_into_rtranclp [of "delivery_step quiet_env", OF this], of 1 40] k1 show ?thesis
    by (auto simp: NMI_def)
qed

end
