(* ===== verification/Twan_Queue_Lock.thy ===== *)
theory Twan_Queue_Lock
  imports Twan_Prelude
begin

text \<open>
  The contract that the queueing locks of \<open>src/subsys/sync\<close> share: the agents that asked for the lock form a queue
  without repetitions, a step of the lock appends an agent, removes the first one or leaves the queue, and only
  the first one can be inside. Mutual exclusion and the order of service follow from the contract alone; the ticket
  lock and the list-based lock are its instances.
\<close>

section \<open>Definitions: protecting the caller\<close>

text \<open>How the caller of a lock is protected while it has it: \<open>spin_lock\<close> and its like disable preemption of the task,
  \<open>spin_lock_isr_save\<close> and its like disable the interrupts of the CPU and keep the flags that the caller had, first in
  a local variable and then in the lock. Bit 9 of the flags register enables interrupts.\<close>

datatype lock_mode = DISABLE_PREEMPTION | ISR_SAVE

record lock_cpu =
  sa_mode :: lock_mode
  sa_preemption_count :: u32
  sa_flags :: u64
  sa_saved :: u64

definition interrupts_on :: "u64 \<Rightarrow> bool" where
  "interrupts_on flags \<longleftrightarrow> bit flags 9"

definition protect :: "lock_mode \<Rightarrow> 'b lock_cpu_scheme \<Rightarrow> 'b lock_cpu_scheme" where
  "protect mode a = (case mode of
     DISABLE_PREEMPTION \<Rightarrow> a\<lparr>sa_mode := mode, sa_preemption_count := sa_preemption_count a + 1\<rparr>
   | ISR_SAVE \<Rightarrow> a\<lparr>sa_mode := mode, sa_saved := sa_flags a, sa_flags := unset_bit 9 (sa_flags a)\<rparr>)"

definition unprotect :: "u64 \<Rightarrow> 'b lock_cpu_scheme \<Rightarrow> 'b lock_cpu_scheme" where
  "unprotect flags a = (case sa_mode a of
     DISABLE_PREEMPTION \<Rightarrow> a\<lparr>sa_preemption_count := sa_preemption_count a - 1\<rparr>
   | ISR_SAVE \<Rightarrow> a\<lparr>sa_flags := flags\<rparr>)"

section \<open>Tickets that wrap around\<close>

lemma of_nat_eq_u32: "of_nat a = (of_nat b :: u32) \<Longrightarrow> a \<le> b \<Longrightarrow> b < a + 2 ^ 32 \<Longrightarrow> a = b"
  by (auto simp: word_unat_eq_iff unat_of_nat mod_eq_iff_dvd_symdiff_nat dest!: dvd_imp_le)

section \<open>Moves of the queue\<close>

definition queue_move :: "'a list \<Rightarrow> 'a list \<Rightarrow> bool" where
  "queue_move q q' \<longleftrightarrow> q' = q \<or> (\<exists>t. t \<notin> set q \<and> q' = q @ [t]) \<or> (\<exists>t. q = t # q')"

lemma queue_move_ahead:
  assumes "queue_move q q'" and "distinct q" and "u \<in> set q" and "u \<in> set q'" and "t \<noteq> u"
    and "t \<notin> set (takeWhile (\<lambda>x. x \<noteq> u) q)"
  shows "t \<notin> set (takeWhile (\<lambda>x. x \<noteq> u) q')"
proof -
  consider "q' = q" | w where "q' = q @ [w]" | w where "q = w # q'" using assms(1) by (auto simp: queue_move_def)
  then show ?thesis
  proof cases
    case 2
    then show ?thesis using assms(3,6) by (simp add: takeWhile_append1 [of u])
  next
    case 3
    then have "w \<noteq> u" using assms(2,4) by auto
    then show ?thesis using 3 assms(6) by simp
  qed (use assms in simp)
qed

section \<open>The contract\<close>

locale queue_lock =
  fixes step :: "'s \<Rightarrow> 's \<Rightarrow> bool" and repr :: "'s \<Rightarrow> 'a list \<Rightarrow> bool" and inside :: "'s \<Rightarrow> 'a \<Rightarrow> bool"
    and waiting :: "'s \<Rightarrow> 'a \<Rightarrow> bool"
  assumes repr_distinct: "repr s q \<Longrightarrow> distinct q"
    and repr_step: "repr s q \<Longrightarrow> step s s' \<Longrightarrow> \<exists>q'. repr s' q' \<and> queue_move q q'"
    and repr_inside: "repr s q \<Longrightarrow> inside s t \<Longrightarrow> \<exists>r. q = t # r"
    and repr_waiting: "repr s q \<Longrightarrow> waiting s t \<Longrightarrow> t \<in> set q"
begin

lemma repr_steps: "step\<^sup>*\<^sup>* s s' \<Longrightarrow> repr s q \<Longrightarrow> \<exists>q'. repr s' q'"
  by (induction rule: rtranclp_induct) (auto dest: repr_step)

lemma mutual_exclusion:
  assumes "repr s q" and "step\<^sup>*\<^sup>* s s'" and "inside s' t" and "inside s' u"
  shows "t = u"
proof -
  obtain q' where "repr s' q'" using repr_steps [OF assms(2,1)] by blast
  from repr_inside [OF this assms(3)] repr_inside [OF this assms(4)] show ?thesis by auto
qed

text \<open>While an agent waits, the agents ahead of it only become fewer.\<close>

lemma ahead_shrinks:
  assumes "(\<lambda>a b. step a b \<and> waiting b u)\<^sup>*\<^sup>* s s'" and "repr s q" and "waiting s u" and "t \<noteq> u"
    and "t \<notin> set (takeWhile (\<lambda>x. x \<noteq> u) q)"
  shows "\<exists>q'. repr s' q' \<and> u \<in> set q' \<and> t \<notin> set (takeWhile (\<lambda>x. x \<noteq> u) q')"
  using assms(1)
proof (induction rule: rtranclp_induct)
  case base
  then show ?case using assms(2,3,5) repr_waiting by blast
next
  case (step a b)
  then obtain qa where qa: "repr a qa" "u \<in> set qa" "t \<notin> set (takeWhile (\<lambda>x. x \<noteq> u) qa)" by blast
  moreover obtain qb where qb: "repr b qb" "queue_move qa qb" using repr_step [OF qa(1)] step(2) by blast
  moreover have "u \<in> set qb" using repr_waiting [OF qb(1)] step(2) by blast
  ultimately show ?case using queue_move_ahead [OF qb(2) repr_distinct [OF qa(1)] qa(2) _ assms(4) qa(3)] by blast
qed

lemma no_overtaking:
  assumes "(\<lambda>a b. step a b \<and> waiting b u)\<^sup>*\<^sup>* s s'" and "repr s q" and "waiting s u" and "t \<noteq> u"
    and "t \<notin> set (takeWhile (\<lambda>x. x \<noteq> u) q)"
  shows "\<not> inside s' t"
proof
  assume "inside s' t"
  moreover obtain q' where "repr s' q'" "u \<in> set q'" "t \<notin> set (takeWhile (\<lambda>x. x \<noteq> u) q')"
    using ahead_shrinks [OF assms] by blast
  moreover from this obtain r where "q' = t # r" using repr_inside [OF _ \<open>inside s' t\<close>] by blast
  ultimately show False using assms(4) by simp
qed

end

end
