(* ===== verification/Twan_Spinlock.thy ===== *)
theory Twan_Spinlock
  imports Twan_Queue_Lock
begin

text \<open>
  The ticket lock of \<open>src/subsys/sync/spinlock.c\<close>, step by step: every agent (a task, or an interrupt handler of a CPU)
  has a program counter inside the code of the lock, and a step executes the code up to and including its next access
  to the shared words. Agents interleave in any order. The tickets are 32-bit words and wrap around. Three entries of
  the state are not in the code and are never read by it: the numbers of tickets ever taken and ever released, and,
  for an agent that tries the lock, the number of tickets released when it read the current one.
\<close>

section \<open>Definitions: the lock\<close>

record spinlock =
  next_ticket :: u32
  current_ticket :: u32

record spinlock_isr =
  lock_word :: spinlock
  lock_flags :: u64

datatype spin_pc =
  SPIN_IDLE
| SPIN_FETCH
| SPIN_UNTIL u32
| SPIN_SAVE
| SPIN_HELD
| SPIN_INC u64
| SPIN_LEAVE u64
| SPIN_TRY
| SPIN_TRY_NEXT u32
| SPIN_TRY_CMPXCHG u32
| SPIN_TRY_FAILED

record spin_agent = lock_cpu +
  sa_pc :: spin_pc

record 'a spin_state =
  ss_lock :: spinlock_isr
  ss_agent :: "'a \<Rightarrow> spin_agent"
  ss_taken :: nat
  ss_released :: nat
  ss_read :: "'a \<Rightarrow> nat"

definition spinlock_init :: "spinlock \<Rightarrow> spinlock" where
  "spinlock_init l = l\<lparr>next_ticket := 0, current_ticket := 0\<rparr>"

definition spinlock_isr_init :: "spinlock_isr \<Rightarrow> spinlock_isr" where
  "spinlock_isr_init l = l\<lparr>lock_word := spinlock_init (lock_word l), lock_flags := 0\<rparr>"

section \<open>Definitions: the steps of an agent\<close>

definition upd_agent :: "'a \<Rightarrow> (spin_agent \<Rightarrow> spin_agent) \<Rightarrow> 'a spin_state \<Rightarrow> 'a spin_state" where
  "upd_agent t f s = s\<lparr>ss_agent := (ss_agent s)(t := f (ss_agent s t))\<rparr>"

abbreviation goto :: "'a \<Rightarrow> spin_pc \<Rightarrow> 'a spin_state \<Rightarrow> 'a spin_state" where
  "goto t pc \<equiv> upd_agent t (\<lambda>a. a\<lparr>sa_pc := pc\<rparr>)"

definition upd_word :: "(spinlock \<Rightarrow> spinlock) \<Rightarrow> 'a spin_state \<Rightarrow> 'a spin_state" where
  "upd_word f s = s\<lparr>ss_lock := (ss_lock s)\<lparr>lock_word := f (lock_word (ss_lock s))\<rparr>\<rparr>"

text \<open>Calling \<open>spin_lock\<close>, \<open>spin_trylock\<close> or their interrupt variants.\<close>

definition spin_call :: "lock_mode \<Rightarrow> bool \<Rightarrow> 'a \<Rightarrow> 'a spin_state \<Rightarrow> 'a spin_state option" where
  "spin_call mode try t s =
     (if sa_pc (ss_agent s t) = SPIN_IDLE
      then Some (goto t (if try then SPIN_TRY else SPIN_FETCH) (upd_agent t (protect mode) s)) else None)"

text \<open>Calling the unlock function that belongs to the lock call; the flags are read before the lock is released.\<close>

definition spin_uncall :: "'a \<Rightarrow> 'a spin_state \<Rightarrow> 'a spin_state option" where
  "spin_uncall t s =
     (if sa_pc (ss_agent s t) = SPIN_HELD then Some (goto t (SPIN_INC (lock_flags (ss_lock s))) s) else None)"

definition spin_acquired :: "'a \<Rightarrow> 'a spin_state \<Rightarrow> 'a spin_state" where
  "spin_acquired t s = goto t (case sa_mode (ss_agent s t) of DISABLE_PREEMPTION \<Rightarrow> SPIN_HELD | ISR_SAVE \<Rightarrow> SPIN_SAVE) s"

definition spin_step :: "'a \<Rightarrow> 'a spin_state \<Rightarrow> 'a spin_state option" where
  "spin_step t s = (let l = lock_word (ss_lock s); a = ss_agent s t in
     case sa_pc a of
       SPIN_IDLE \<Rightarrow> None
     | SPIN_FETCH \<Rightarrow> Some (goto t (SPIN_UNTIL (next_ticket l))
         (upd_word (\<lambda>l. l\<lparr>next_ticket := next_ticket l + 1\<rparr>) (s\<lparr>ss_taken := Suc (ss_taken s)\<rparr>)))
     | SPIN_UNTIL ticket \<Rightarrow> Some (if current_ticket l = ticket then spin_acquired t s else s)
     | SPIN_SAVE \<Rightarrow> Some (goto t SPIN_HELD (s\<lparr>ss_lock := (ss_lock s)\<lparr>lock_flags := sa_saved a\<rparr>\<rparr>))
     | SPIN_HELD \<Rightarrow> None
     | SPIN_INC flags \<Rightarrow> Some (goto t (SPIN_LEAVE flags) 
         (upd_word (\<lambda>l. l\<lparr>current_ticket := current_ticket l + 1\<rparr>) (s\<lparr>ss_released := Suc (ss_released s)\<rparr>)))
     | SPIN_LEAVE flags \<Rightarrow> Some (goto t SPIN_IDLE (upd_agent t (unprotect flags) s))
     | SPIN_TRY \<Rightarrow> Some (goto t (SPIN_TRY_NEXT (current_ticket l))
         (s\<lparr>ss_read := (ss_read s)(t := ss_released s)\<rparr>))
     | SPIN_TRY_NEXT current \<Rightarrow>
         Some (goto t (if current \<noteq> next_ticket l then SPIN_TRY_FAILED else SPIN_TRY_CMPXCHG (next_ticket l)) s)
     | SPIN_TRY_CMPXCHG expected \<Rightarrow>
         Some (if next_ticket l = expected
               then spin_acquired t (upd_word (\<lambda>l. l\<lparr>next_ticket := expected + 1\<rparr>) (s\<lparr>ss_taken := Suc (ss_taken s)\<rparr>))
               else goto t SPIN_TRY_FAILED s)
     | SPIN_TRY_FAILED \<Rightarrow> Some (goto t SPIN_IDLE (upd_agent t (unprotect (sa_saved a)) s)))"

section \<open>Executions\<close>

inductive spin_trans :: "'a set \<Rightarrow> 'a spin_state \<Rightarrow> 'a spin_state \<Rightarrow> bool" for A where
  call: "t \<in> A \<Longrightarrow> spin_call mode try t s = Some s' \<Longrightarrow> spin_trans A s s'"
| uncall: "spin_uncall t s = Some s' \<Longrightarrow> spin_trans A s s'"
| step: "t \<in> A \<Longrightarrow> spin_step t s = Some s' \<Longrightarrow> spin_trans A s s'"

text \<open>The properties below are about timely executions: an agent that tries the lock is not delayed, between its read of the ticket
  that is served and its exchange, until the others have taken the lock 2 ^ 32 times since. Otherwise the words that it compares have
  wrapped around, \<^verbatim>\<open>__spin_trylock\<close> cannot tell, and exclusion fails. The code has no check against this; it relies on
  preemption or interrupts being off meanwhile. Locking, as opposed to trying, needs no such condition.\<close>

definition not_overrun :: "'a spin_state \<Rightarrow> bool" where
  "not_overrun s \<longleftrightarrow> (\<forall>t c. sa_pc (ss_agent s t) \<in> {SPIN_TRY_NEXT c, SPIN_TRY_CMPXCHG c} \<longrightarrow> ss_taken s < ss_read s t + 2 ^ 32)"

definition spin_timely :: "'a set \<Rightarrow> 'a spin_state \<Rightarrow> 'a spin_state \<Rightarrow> bool" where
  "spin_timely A s s' \<longleftrightarrow> spin_trans A s s' \<and> not_overrun s'"

lemma spin_timelyI: "spin_trans A s s' \<Longrightarrow> not_overrun s' \<Longrightarrow> spin_timely A s s'"
  by (simp add: spin_timely_def)

definition spin_initial :: "'a spin_state \<Rightarrow> bool" where
  "spin_initial s \<longleftrightarrow> (\<exists>l. ss_lock s = spinlock_isr_init l) \<and> ss_taken s = 0 \<and> ss_released s = 0 \<and> (\<forall>t. sa_pc (ss_agent s t) = SPIN_IDLE)"

definition spin_inside :: "'a spin_state \<Rightarrow> 'a \<Rightarrow> bool" where
  "spin_inside s t \<longleftrightarrow> (\<exists>f. sa_pc (ss_agent s t) \<in> {SPIN_SAVE, SPIN_HELD, SPIN_INC f})"

definition spin_waiting :: "'a spin_state \<Rightarrow> 'a \<Rightarrow> bool" where
  "spin_waiting s t \<longleftrightarrow> (\<exists>ticket. sa_pc (ss_agent s t) = SPIN_UNTIL ticket)"

section \<open>The queue of tickets\<close>

text \<open>The agents in the order of their tickets: the first one has the current ticket and may be inside, the others
  compare with the tickets that follow.\<close>

definition spin_tickets :: "'a spin_state \<Rightarrow> nat \<Rightarrow> bool" where
  "spin_tickets s n \<longleftrightarrow> ss_taken s = ss_released s + n \<and>
     next_ticket (lock_word (ss_lock s)) = of_nat (ss_taken s) \<and> current_ticket (lock_word (ss_lock s)) = of_nat (ss_released s)"

definition spin_places :: "'a spin_state \<Rightarrow> 'a list \<Rightarrow> bool" where
  "spin_places s q \<longleftrightarrow>
     (\<forall>i < length q. sa_pc (ss_agent s (q ! i)) = SPIN_UNTIL (of_nat (ss_released s + i)) \<or> i = 0 \<and> spin_inside s (q ! i)) \<and>
     (\<forall>t. spin_inside s t \<or> spin_waiting s t \<longrightarrow> t \<in> set q)"

definition spin_tries :: "'a spin_state \<Rightarrow> bool" where
  "spin_tries s \<longleftrightarrow> (\<forall>t c. sa_pc (ss_agent s t) \<in> {SPIN_TRY_NEXT c, SPIN_TRY_CMPXCHG c} \<longrightarrow>
     c = of_nat (ss_read s t) \<and> ss_read s t \<le> ss_released s)"

definition spin_flags :: "'a spin_state \<Rightarrow> bool" where
  "spin_flags s \<longleftrightarrow> (\<forall>t. sa_mode (ss_agent s t) = ISR_SAVE \<longrightarrow>
     (sa_pc (ss_agent s t) = SPIN_HELD \<longrightarrow> lock_flags (ss_lock s) = sa_saved (ss_agent s t)) \<and>
     (\<forall>f. sa_pc (ss_agent s t) \<in> {SPIN_INC f, SPIN_LEAVE f} \<longrightarrow> f = sa_saved (ss_agent s t)))"

definition spin_repr :: "'a set \<Rightarrow> 'a spin_state \<Rightarrow> 'a list \<Rightarrow> bool" where
  "spin_repr A s q \<longleftrightarrow> distinct q \<and> set q \<subseteq> A \<and> not_overrun s \<and> spin_tickets s (length q) \<and> spin_places s q \<and> spin_tries s \<and> spin_flags s"

lemma spin_reprD:
  assumes "spin_repr A s q"
  shows "distinct q" and "set q \<subseteq> A" and "not_overrun s" and "spin_tickets s (length q)" and "spin_places s q"
    and "spin_tries s" and "spin_flags s"
  using assms by (simp_all add: spin_repr_def)

lemma upd_word_simps [simp]:
  "ss_agent (upd_word f s) = ss_agent s" "ss_taken (upd_word f s) = ss_taken s" "ss_released (upd_word f s) = ss_released s"
  "ss_read (upd_word f s) = ss_read s" "lock_word (ss_lock (upd_word f s)) = f (lock_word (ss_lock s))"
  "lock_flags (ss_lock (upd_word f s)) = lock_flags (ss_lock s)"
  by (simp_all add: upd_word_def)

lemma spin_placesD:
  assumes "spin_places s q"
  shows "i < length q \<Longrightarrow> sa_pc (ss_agent s (q ! i)) = SPIN_UNTIL (of_nat (ss_released s + i)) \<or> i = 0 \<and> spin_inside s (q ! i)"
    and "spin_inside s t \<Longrightarrow> t \<in> set q" and "spin_waiting s t \<Longrightarrow> t \<in> set q"
  using assms unfolding spin_places_def by (meson, simp_all)

lemma spin_repr_length: "spin_repr A s q \<Longrightarrow> finite A \<Longrightarrow> length q \<le> card A"
  using card_mono [of A "set q"] distinct_card [of q] spin_reprD(1,2) [of A s q] by simp

lemma spin_place:
  assumes "spin_repr A s q" and "t \<in> set q"
  obtains i where "i < length q" "q ! i = t" "sa_pc (ss_agent s t) = SPIN_UNTIL (of_nat (ss_released s + i)) \<or> i = 0 \<and> spin_inside s t"
  using assms spin_reprD(5) [OF assms(1)] by (auto simp: spin_places_def in_set_conv_nth)

lemma spin_in_queue: "spin_repr A s q \<Longrightarrow> t \<in> set q \<longleftrightarrow> spin_inside s t \<or> spin_waiting s t"
proof
  assume r: "spin_repr A s q" and "t \<in> set q"
  then obtain i where "sa_pc (ss_agent s t) = SPIN_UNTIL (of_nat (ss_released s + i)) \<or> i = 0 \<and> spin_inside s t" by (rule spin_place)
  then show "spin_inside s t \<or> spin_waiting s t" unfolding spin_waiting_def by blast
next
  assume r: "spin_repr A s q" and "spin_inside s t \<or> spin_waiting s t"
  then show "t \<in> set q" using spin_placesD(2,3) [OF spin_reprD(5) [OF r]] by blast
qed

lemma spin_inside_head: "spin_repr A s q \<Longrightarrow> spin_inside s t \<Longrightarrow> \<exists>r. q = t # r"
proof -
  assume r: "spin_repr A s q" and t: "spin_inside s t"
  then have "t \<in> set q" using spin_in_queue [OF r] by simp
  with r obtain i where i: "i < length q" "q ! i = t"
    "sa_pc (ss_agent s t) = SPIN_UNTIL (of_nat (ss_released s + i)) \<or> i = 0 \<and> spin_inside s t" by (rule spin_place)
  then have "i = 0" using t by (auto simp: spin_inside_def)
  then show ?thesis using i by (cases q) auto
qed

lemma spin_until_head:
  assumes r: "spin_repr A s q" and A: "finite A" "card A < 2 ^ 32"
    and t: "sa_pc (ss_agent s t) = SPIN_UNTIL (current_ticket (lock_word (ss_lock s)))"
  shows "\<exists>r. q = t # r"
proof -
  have "t \<in> set q" using spin_in_queue [OF r] t unfolding spin_waiting_def by blast
  with r obtain i where i: "i < length q" "q ! i = t"
    "sa_pc (ss_agent s t) = SPIN_UNTIL (of_nat (ss_released s + i)) \<or> i = 0 \<and> spin_inside s t" by (rule spin_place)
  have "i = 0"
  proof (rule ccontr)
    assume "i \<noteq> 0"
    then have "of_nat (ss_released s) = (of_nat (ss_released s + i) :: u32)"
      using spin_reprD(4) [OF r] i t by (simp add: spin_tickets_def)
    then have "ss_released s = ss_released s + i"
      by (rule of_nat_eq_u32) (use i spin_repr_length [OF r A(1)] A(2) in simp_all)
    then show False using \<open>i \<noteq> 0\<close> by simp
  qed
  then show ?thesis using i by (cases q) auto
qed

text \<open>A change of one agent that is not in the queue, neither before nor after it.\<close>

lemma spin_repr_outside:
  assumes r: "spin_repr A s q" and t: "t \<notin> set q" and a: "\<And>ticket. sa_pc a \<noteq> SPIN_UNTIL ticket"
    "\<And>f. sa_pc a \<notin> {SPIN_SAVE, SPIN_HELD, SPIN_INC f}"
    and tr: "\<And>c. sa_pc a \<in> {SPIN_TRY_NEXT c, SPIN_TRY_CMPXCHG c} \<Longrightarrow> c = of_nat n \<and> n \<le> ss_released s \<and> ss_taken s < n + 2 ^ 32"
    and leave: "\<And>f. sa_pc a = SPIN_LEAVE f \<Longrightarrow> sa_mode a = ISR_SAVE \<Longrightarrow> f = sa_saved a"
  shows "spin_repr A (s\<lparr>ss_agent := (ss_agent s)(t := a), ss_read := (ss_read s)(t := n)\<rparr>) q" (is "spin_repr A ?s q")
proof -
  note d = spin_reprD [OF r]
  have n: "q ! i \<noteq> t" if "i < length q" for i using t that by (metis nth_mem)
  have ins: "spin_inside ?s u \<longleftrightarrow> u \<noteq> t \<and> spin_inside s u" "spin_waiting ?s u \<longleftrightarrow> u \<noteq> t \<and> spin_waiting s u" for u
    using a by (auto simp: spin_inside_def spin_waiting_def)
  have "spin_places ?s q" using d(5) n by (auto simp: spin_places_def ins)
  moreover have "spin_tickets ?s (length q)" using d(4) by (simp add: spin_tickets_def)
  moreover have "spin_tries ?s" using d(6) tr by (simp add: spin_tries_def)
  moreover have "not_overrun ?s" using d(3) tr by (simp add: not_overrun_def)
  moreover have "spin_flags ?s" using d(7) a leave by (auto simp: spin_flags_def)
  ultimately show ?thesis using d(1,2) by (simp add: spin_repr_def)
qed

text \<open>A change of the first agent while it is inside, or when it comes inside.\<close>

lemma spin_repr_head:
  assumes r: "spin_repr A s (t # r)" and a: "sa_pc a \<in> {SPIN_SAVE, SPIN_HELD, SPIN_INC f}"
    and held: "sa_pc a = SPIN_HELD \<Longrightarrow> sa_mode a = ISR_SAVE \<Longrightarrow> F = sa_saved a"
    and inc: "sa_pc a = SPIN_INC f \<Longrightarrow> sa_mode a = ISR_SAVE \<Longrightarrow> f = sa_saved a"
  shows "spin_repr A (s\<lparr>ss_agent := (ss_agent s)(t := a), ss_lock := (ss_lock s)\<lparr>lock_flags := F\<rparr>\<rparr>) (t # r)"
    (is "spin_repr A ?s _")
proof -
  note d = spin_reprD [OF r]
  have h: "spin_inside s u \<Longrightarrow> u = t" for u using spin_inside_head [OF r, of u] by auto
  have ins: "spin_inside ?s u \<longleftrightarrow> u = t" "spin_waiting ?s u \<longleftrightarrow> u \<noteq> t \<and> spin_waiting s u" for u
    using a h by (auto simp: spin_inside_def spin_waiting_def)
  have "spin_places ?s (t # r)"
    unfolding spin_places_def
  proof (intro conjI allI impI)
    fix i assume i: "i < length (t # r)"
    show "sa_pc (ss_agent ?s ((t # r) ! i)) = SPIN_UNTIL (of_nat (ss_released ?s + i)) \<or> i = 0 \<and> spin_inside ?s ((t # r) ! i)"
    proof (cases i)
      case (Suc j)
      then have "r ! j \<noteq> t" using d(1) i by auto
      then show ?thesis using d(5) i Suc by (auto simp: spin_places_def)
    qed (simp add: ins)
  qed (use d(5) in \<open>auto simp: ins spin_places_def\<close>)
  moreover have "spin_tickets ?s (length (t # r))" using d(4) by (simp add: spin_tickets_def)
  moreover have "spin_tries ?s" using d(6) a by (auto simp: spin_tries_def)
  moreover have "not_overrun ?s" using d(3) a by (auto simp: not_overrun_def)
  moreover have "spin_flags ?s" unfolding spin_flags_def
  proof (intro allI impI)
    fix u assume u: "sa_mode (ss_agent ?s u) = ISR_SAVE"
    show "(sa_pc (ss_agent ?s u) = SPIN_HELD \<longrightarrow> lock_flags (ss_lock ?s) = sa_saved (ss_agent ?s u)) \<and>
       (\<forall>f. sa_pc (ss_agent ?s u) \<in> {SPIN_INC f, SPIN_LEAVE f} \<longrightarrow> f = sa_saved (ss_agent ?s u))"
    proof (cases "u = t")
      case True
      then show ?thesis using u a held inc by auto
    next
      case False
      then have "sa_pc (ss_agent s u) \<noteq> SPIN_HELD" using h [of u] by (auto simp: spin_inside_def)
      then show ?thesis using False u d(7) by (auto simp: spin_flags_def)
    qed
  qed
  ultimately show ?thesis using d(1,2) by (simp add: spin_repr_def)
qed

text \<open>A new ticket is the last one.\<close>

lemma spin_repr_take:
  assumes r: "spin_repr A s q" and t: "t \<notin> set q" "t \<in> A"
    and a: "sa_pc a = SPIN_UNTIL (of_nat (ss_taken s)) \<or> q = [] \<and> sa_pc a = SPIN_SAVE \<or>
      q = [] \<and> sa_pc a = SPIN_HELD \<and> sa_mode a = DISABLE_PREEMPTION"
    and o: "not_overrun (upd_word (\<lambda>l. l\<lparr>next_ticket := next_ticket l + 1\<rparr>) (s\<lparr>ss_agent := (ss_agent s)(t := a), ss_taken := Suc (ss_taken s)\<rparr>))"
  shows "spin_repr A (upd_word (\<lambda>l. l\<lparr>next_ticket := next_ticket l + 1\<rparr>) (s\<lparr>ss_agent := (ss_agent s)(t := a), ss_taken := Suc (ss_taken s)\<rparr>)) (q @ [t])"
    (is "spin_repr A ?s _")
proof -
  note d = spin_reprD [OF r]
  have n: "q ! i \<noteq> t" if "i < length q" for i using t that by (metis nth_mem)
  have ins: "spin_inside ?s u \<longleftrightarrow> (if u = t then sa_pc a \<in> {SPIN_SAVE, SPIN_HELD} else spin_inside s u)"
    "spin_waiting ?s u \<longleftrightarrow> (if u = t then \<exists>c. sa_pc a = SPIN_UNTIL c else spin_waiting s u)" for u
    using a by (auto simp: spin_inside_def spin_waiting_def)
  have "spin_places ?s (q @ [t])"
    unfolding spin_places_def
  proof (intro conjI allI impI)
    fix i assume i: "i < length (q @ [t])"
    show "sa_pc (ss_agent ?s ((q @ [t]) ! i)) = SPIN_UNTIL (of_nat (ss_released ?s + i)) \<or> i = 0 \<and> spin_inside ?s ((q @ [t]) ! i)"
    proof (cases "i < length q")
      case True
      then show ?thesis using spin_placesD(1) [OF d(5) True] n [OF True] by (simp add: ins nth_append)
    next
      case False
      then have "i = length q" using i by simp
      then show ?thesis using a d(4) by (auto simp: spin_inside_def nth_append spin_tickets_def)
    qed
  qed (use d(5) in \<open>auto simp: ins spin_places_def split: if_splits\<close>)
  moreover have "spin_tickets ?s (length (q @ [t]))" using d(4) by (simp add: spin_tickets_def)
  moreover have "spin_tries ?s" using d(6) a by (auto simp: spin_tries_def)
  moreover have "spin_flags ?s" using d(7) a by (auto simp: spin_flags_def)
  ultimately show ?thesis using d(1,2) o t by (simp add: spin_repr_def)
qed

text \<open>The first agent leaves the queue.\<close>

lemma spin_repr_release:
  assumes r: "spin_repr A s (t # q)" and a: "sa_pc a = SPIN_LEAVE f" and leave: "sa_mode a = ISR_SAVE \<Longrightarrow> f = sa_saved a"
  shows "spin_repr A (upd_word (\<lambda>l. l\<lparr>current_ticket := current_ticket l + 1\<rparr>) (s\<lparr>ss_agent := (ss_agent s)(t := a), ss_released := Suc (ss_released s)\<rparr>)) q"
    (is "spin_repr A ?s _")
proof -
  note d = spin_reprD [OF r]
  have h: "spin_inside s u \<Longrightarrow> u = t" for u using spin_inside_head [OF r, of u] by auto
  have out: "\<not> spin_inside s u" if "u \<noteq> t" for u using h that by blast
  have ins: "\<not> spin_inside ?s u" "spin_waiting ?s u \<longleftrightarrow> u \<noteq> t \<and> spin_waiting s u" for u
    using a out [of u] by (cases "u = t"; simp add: spin_inside_def spin_waiting_def)+
  have "spin_places ?s q"
    unfolding spin_places_def
  proof (intro conjI allI impI)
    fix i assume i: "i < length q"
    then have "q ! i \<noteq> t" using d(1) by auto
    moreover have "sa_pc (ss_agent s (q ! i)) = SPIN_UNTIL (of_nat (ss_released s + Suc i))"
      using spin_placesD(1) [OF d(5), of "Suc i"] i by simp
    ultimately show "sa_pc (ss_agent ?s (q ! i)) = SPIN_UNTIL (of_nat (ss_released ?s + i)) \<or> i = 0 \<and> spin_inside ?s (q ! i)"
      by simp
  qed (use d(5) in \<open>auto simp: ins spin_places_def\<close>)
  moreover have "spin_tickets ?s (length q)" using d(4) by (simp add: spin_tickets_def)
  moreover have "spin_tries ?s" using d(6) a by (fastforce simp: spin_tries_def)
  moreover have "not_overrun ?s" using d(3) a by (auto simp: not_overrun_def)
  moreover have "spin_flags ?s" using d(7) a leave by (auto simp: spin_flags_def)
  ultimately show ?thesis using d(1,2) by (simp add: spin_repr_def)
qed

section \<open>Every step moves the queue\<close>

lemma spin_repr_outside':
  assumes "spin_repr A s q" and "t \<notin> set q" and "sa_pc a \<in> {SPIN_IDLE, SPIN_FETCH, SPIN_TRY, SPIN_TRY_FAILED}"
  shows "spin_repr A (s\<lparr>ss_agent := (ss_agent s)(t := a)\<rparr>) q"
proof -
  have "spin_repr A (s\<lparr>ss_agent := (ss_agent s)(t := a), ss_read := (ss_read s)(t := ss_read s t)\<rparr>) q"
    by (rule spin_repr_outside [OF assms(1,2)]) (use assms(3) in auto)
  then show ?thesis by simp
qed

lemma spin_not_queued: "spin_repr A s q \<Longrightarrow> \<not> spin_inside s t \<Longrightarrow> \<not> spin_waiting s t \<Longrightarrow> t \<notin> set q"
  by (simp add: spin_in_queue)

lemma spin_step_acquire:
  assumes r: "spin_repr A s q" and A: "finite A" "card A < 2 ^ 32"
    and pc: "sa_pc (ss_agent s t) = SPIN_UNTIL (current_ticket (lock_word (ss_lock s)))"
  shows "spin_repr A (spin_acquired t s) q"
proof -
  obtain r where q: "q = t # r" using spin_until_head [OF r A pc] by blast
  define a where "a = (ss_agent s t)\<lparr>sa_pc := case sa_mode (ss_agent s t) of DISABLE_PREEMPTION \<Rightarrow> SPIN_HELD | ISR_SAVE \<Rightarrow> SPIN_SAVE\<rparr>"
  have "spin_repr A (s\<lparr>ss_agent := (ss_agent s)(t := a), ss_lock := (ss_lock s)\<lparr>lock_flags := lock_flags (ss_lock s)\<rparr>\<rparr>) (t # r)"
    by (rule spin_repr_head [OF assms(1) [unfolded q], where f = 0]) (auto simp: a_def split: lock_mode.splits)
  then show ?thesis by (simp add: q spin_acquired_def upd_agent_def a_def)
qed

lemma spin_try_free:
  assumes r: "spin_repr A s q" and c: "c = next_ticket (lock_word (ss_lock s))"
    and pc: "sa_pc (ss_agent s t) \<in> {SPIN_TRY_NEXT c, SPIN_TRY_CMPXCHG c}"
  shows "q = []"
proof -
  have c': "c = of_nat (ss_read s t)" "ss_read s t \<le> ss_released s" using spin_reprD(6) [OF r] pc by (auto simp: spin_tries_def)
  have k: "ss_taken s = ss_released s + length q" "c = of_nat (ss_taken s)" using spin_reprD(4) [OF r] c by (simp_all add: spin_tickets_def)
  have "ss_read s t = ss_taken s"
    by (rule of_nat_eq_u32) (use c' k spin_reprD(3) [OF r] pc in \<open>auto simp: not_overrun_def\<close>)
  then show ?thesis using c'(2) k(1) by simp
qed

lemma spin_step_repr:
  assumes r: "spin_repr A s q" and A: "finite A" "card A < 2 ^ 32" "t \<in> A" and step: "spin_step t s = Some s'" and o: "not_overrun s'"
  shows "\<exists>q'. spin_repr A s' q' \<and> queue_move q q'"
proof -
  let ?a = "ss_agent s t" and ?l = "lock_word (ss_lock s)"
  have out: "t \<notin> set q" if "\<not> spin_inside s t" "\<not> spin_waiting s t" using spin_not_queued [OF r that] .
  have same: ?thesis if "spin_repr A s' q" using that by (auto simp: queue_move_def)
  show ?thesis
  proof (cases "sa_pc ?a")
    case SPIN_FETCH
    then have t: "t \<notin> set q" using out by (simp add: spin_inside_def spin_waiting_def)
    define a where "a = ?a\<lparr>sa_pc := SPIN_UNTIL (next_ticket ?l)\<rparr>"
    have s': "s' = upd_word (\<lambda>l. l\<lparr>next_ticket := next_ticket l + 1\<rparr>) (s\<lparr>ss_agent := (ss_agent s)(t := a), ss_taken := Suc (ss_taken s)\<rparr>)"
      using step SPIN_FETCH by (auto simp: spin_step_def Let_def upd_agent_def upd_word_def a_def)
    have "spin_repr A s' (q @ [t])" unfolding s'
      by (rule spin_repr_take [OF r t A(3)]) (use o s' spin_reprD(4) [OF r] in \<open>simp_all add: a_def spin_tickets_def\<close>)
    then show ?thesis using t by (auto simp: queue_move_def)
  next
    case (SPIN_UNTIL c)
    then show ?thesis using step spin_step_acquire [OF r A(1,2), of t] r same
      by (auto simp: spin_step_def Let_def split: if_splits)
  next
    case SPIN_SAVE
    then obtain r' where q: "q = t # r'" using spin_inside_head [OF r, of t] by (auto simp: spin_inside_def)
    have s': "s' = s\<lparr>ss_agent := (ss_agent s)(t := ?a\<lparr>sa_pc := SPIN_HELD\<rparr>), ss_lock := (ss_lock s)\<lparr>lock_flags := sa_saved ?a\<rparr>\<rparr>"
      using step SPIN_SAVE by (auto simp: spin_step_def Let_def upd_agent_def)
    have "spin_repr A s' (t # r')"
      unfolding s' by (rule spin_repr_head [OF r [unfolded q], where f = 0]) simp_all
    then show ?thesis using same q by simp
  next
    case (SPIN_INC f)
    then obtain r' where q: "q = t # r'" using spin_inside_head [OF r, of t] by (auto simp: spin_inside_def)
    define a where "a = ?a\<lparr>sa_pc := SPIN_LEAVE f\<rparr>"
    have s': "s' = upd_word (\<lambda>l. l\<lparr>current_ticket := current_ticket l + 1\<rparr>) (s\<lparr>ss_agent := (ss_agent s)(t := a), ss_released := Suc (ss_released s)\<rparr>)"
      using step SPIN_INC by (auto simp: spin_step_def Let_def upd_agent_def upd_word_def a_def)
    have "spin_repr A s' r'" unfolding s'
      by (rule spin_repr_release [OF r [unfolded q], where f = f])
         (use spin_reprD(7) [OF r] SPIN_INC in \<open>simp_all add: a_def spin_flags_def\<close>)
    then show ?thesis by (auto simp: queue_move_def q)
  next
    case (SPIN_LEAVE f)
    then show ?thesis using step spin_repr_outside' [OF r out] same
      by (auto simp: spin_step_def Let_def upd_agent_def spin_inside_def spin_waiting_def)
  next
    case SPIN_TRY
    then have t: "t \<notin> set q" using out by (simp add: spin_inside_def spin_waiting_def)
    have s': "s' = s\<lparr>ss_agent := (ss_agent s)(t := ?a\<lparr>sa_pc := SPIN_TRY_NEXT (current_ticket ?l)\<rparr>), ss_read := (ss_read s)(t := ss_released s)\<rparr>"
      using step SPIN_TRY by (auto simp: spin_step_def Let_def upd_agent_def)
    have "spin_repr A s' q" unfolding s'
      by (rule spin_repr_outside [OF r t])
         (use spin_reprD(4) [OF r] spin_repr_length [OF r A(1)] A(2) in \<open>auto simp: spin_tickets_def\<close>)
    then show ?thesis by (rule same)
  next
    case (SPIN_TRY_NEXT c)
    then have t: "t \<notin> set q" using out by (simp add: spin_inside_def spin_waiting_def)
    have n: "c = of_nat (ss_read s t)" "ss_read s t \<le> ss_released s" "ss_taken s < ss_read s t + 2 ^ 32"
      using spin_reprD(3,6) [OF r] SPIN_TRY_NEXT by (simp_all add: spin_tries_def not_overrun_def)
    have "spin_repr A (s\<lparr>ss_agent := (ss_agent s)(t := ?a\<lparr>sa_pc := SPIN_TRY_CMPXCHG c\<rparr>), ss_read := (ss_read s)(t := ss_read s t)\<rparr>) q"
      by (rule spin_repr_outside [OF r t]) (use n in auto)
    then show ?thesis using step SPIN_TRY_NEXT same spin_repr_outside' [OF r t]
      by (auto simp: spin_step_def Let_def upd_agent_def split: if_splits)
  next
    case (SPIN_TRY_CMPXCHG c)
    then have t: "t \<notin> set q" using out by (simp add: spin_inside_def spin_waiting_def)
    show ?thesis
    proof (cases "next_ticket ?l = c")
      case True
      have q: "q = []" using spin_try_free [OF r True [symmetric], of t] SPIN_TRY_CMPXCHG by simp
      define a where "a = ?a\<lparr>sa_pc := case sa_mode ?a of DISABLE_PREEMPTION \<Rightarrow> SPIN_HELD | ISR_SAVE \<Rightarrow> SPIN_SAVE\<rparr>"
      have s': "s' = upd_word (\<lambda>l. l\<lparr>next_ticket := next_ticket l + 1\<rparr>) (s\<lparr>ss_agent := (ss_agent s)(t := a), ss_taken := Suc (ss_taken s)\<rparr>)"
        using step SPIN_TRY_CMPXCHG True by (auto simp: spin_step_def Let_def upd_agent_def upd_word_def spin_acquired_def a_def)
      have "spin_repr A s' (q @ [t])" unfolding s'
        by (rule spin_repr_take [OF r t A(3)]) (use o s' q in \<open>auto simp: a_def split: lock_mode.splits\<close>)
      then show ?thesis using t by (auto simp: queue_move_def)
    next
      case False
      then show ?thesis using step SPIN_TRY_CMPXCHG same spin_repr_outside' [OF r t]
        by (auto simp: spin_step_def Let_def upd_agent_def)
    qed
  next
    case SPIN_TRY_FAILED
    then show ?thesis using step spin_repr_outside' [OF r out] same
      by (auto simp: spin_step_def Let_def upd_agent_def spin_inside_def spin_waiting_def)
  qed (use step in \<open>simp_all add: spin_step_def Let_def\<close>)
qed

lemma spin_trans_repr:
  assumes r: "spin_repr A s q" and A: "finite A" "card A < 2 ^ 32" and "spin_trans A s s'" and o: "not_overrun s'"
  shows "\<exists>q'. spin_repr A s' q' \<and> queue_move q q'"
  using assms(4)
proof cases
  case (call t mode tr)
  then have idle: "sa_pc (ss_agent s t) = SPIN_IDLE" by (simp add: spin_call_def split: if_splits)
  then have "t \<notin> set q" by (intro spin_not_queued [OF r]) (simp_all add: spin_inside_def spin_waiting_def)
  then have "spin_repr A s' q" using call(2) idle spin_repr_outside' [OF r] by (auto simp: spin_call_def upd_agent_def)
  then show ?thesis by (auto simp: queue_move_def)
next
  case (uncall t)
  then have held: "sa_pc (ss_agent s t) = SPIN_HELD" by (simp add: spin_uncall_def split: if_splits)
  then obtain r' where q: "q = t # r'" using spin_inside_head [OF r, of t] by (auto simp: spin_inside_def)
  let ?F = "lock_flags (ss_lock s)" and ?a = "(ss_agent s t)\<lparr>sa_pc := SPIN_INC (lock_flags (ss_lock s))\<rparr>"
  have "spin_repr A (s\<lparr>ss_agent := (ss_agent s)(t := ?a), ss_lock := (ss_lock s)\<lparr>lock_flags := ?F\<rparr>\<rparr>) (t # r')"
    by (rule spin_repr_head [OF r [unfolded q], where f = ?F]) (use spin_reprD(7) [OF r] held in \<open>simp_all add: spin_flags_def\<close>)
  then show ?thesis using uncall(1) held by (auto simp: spin_uncall_def upd_agent_def q queue_move_def)
qed (use spin_step_repr [OF r A _ _ o] in blast)

lemma spin_initial_repr: "spin_initial s \<Longrightarrow> spin_repr A s []"
  by (auto simp: spin_initial_def spin_repr_def spin_tickets_def spin_places_def spin_tries_def spin_flags_def not_overrun_def
      spin_inside_def spin_waiting_def spinlock_isr_init_def spinlock_init_def)

text \<open>When somebody waits, somebody is inside or comes inside with its next step.\<close>

lemma spin_repr_progress:
  assumes r: "spin_repr A s q" and u: "spin_waiting s u"
  shows "\<exists>h \<in> A. spin_inside s h \<or> (\<exists>s'. spin_step h s = Some s' \<and> spin_inside s' h)"
proof -
  obtain h q' where q: "q = h # q'" using u spin_in_queue [OF r, of u] by (cases q) auto
  have "sa_pc (ss_agent s h) = SPIN_UNTIL (of_nat (ss_released s)) \<or> spin_inside s h"
    using spin_placesD(1) [OF spin_reprD(5) [OF r], of 0] q by simp
  moreover have "\<exists>s'. spin_step h s = Some s' \<and> spin_inside s' h" if "sa_pc (ss_agent s h) = SPIN_UNTIL (of_nat (ss_released s))"
    using that spin_reprD(4) [OF r]
    by (simp add: spin_step_def Let_def spin_tickets_def spin_acquired_def upd_agent_def spin_inside_def split: lock_mode.split)
  ultimately show ?thesis using spin_reprD(2) [OF r] q by auto
qed

interpretation spin: queue_lock "spin_timely A" "\<lambda>s q. finite A \<and> card A < 2 ^ 32 \<and> spin_repr A s q" spin_inside spin_waiting
  by unfold_locales (auto dest: spin_reprD(1) spin_trans_repr spin_inside_head simp: spin_in_queue spin_timely_def)

lemma spin_reachable:
  assumes "finite A" and "card A < 2 ^ 32" and "spin_initial s0" and "(spin_timely A)\<^sup>*\<^sup>* s0 s"
  obtains q where "spin_repr A s q"
  using spin.repr_steps [OF assms(4), of "[]"] assms(1,2) spin_initial_repr [OF assms(3)] by blast

section \<open>Properties\<close>

text \<open>C33: Mutual exclusion: starting from a fresh lock, in every timely execution (no trylock is delayed across 2 ^ 32
  acquisitions) of fewer than 2 ^ 32 agents that lock, try and unlock in any interleaving, at most one agent is inside. The tickets may
  wrap around any number of times.\<close>

theorem spin_mutual_exclusion:
  assumes "finite A" and "card A < 2 ^ 32" and "spin_initial s0" and "(spin_timely A)\<^sup>*\<^sup>* s0 s"
  shows "spin_inside s t \<Longrightarrow> spin_inside s u \<Longrightarrow> t = u"
  using spin.mutual_exclusion [of A s0 "[]" s t u] assms spin_initial_repr by blast

text \<open>First come, first served: while an agent that has taken its ticket spins, no agent that was not in the queue before it
  comes inside, and there is always an agent that is inside or comes inside with its next step.\<close>

theorem spin_fair:
  assumes "finite A" and "card A < 2 ^ 32" and "spin_initial s0" and "(spin_timely A)\<^sup>*\<^sup>* s0 s"
    and "spin_waiting s u" and "\<not> spin_waiting s t" and "\<not> spin_inside s t"
    and "(\<lambda>a b. spin_timely A a b \<and> spin_waiting b u)\<^sup>*\<^sup>* s s'"
  shows "\<not> spin_inside s' t \<and> (\<exists>h \<in> A. spin_inside s' h \<or> (\<exists>s''. spin_step h s' = Some s'' \<and> spin_inside s'' h))"
proof -
  obtain q where q: "spin_repr A s q" using spin_reachable [OF assms(1-4)] .
  have "t \<notin> set q" using spin_not_queued [OF q assms(7,6)] .
  then have t: "t \<notin> set (takeWhile (\<lambda>x. x \<noteq> u) q)" by (meson set_takeWhileD)
  have ne: "t \<noteq> u" using assms(5,6) by blast
  obtain q' where q': "spin_repr A s' q'" "u \<in> set q'" using spin.ahead_shrinks [OF assms(8) _ assms(5) ne t] q assms(1,2) by blast
  have "spin_waiting s' u" using assms(8) by (cases rule: rtranclp.cases) (use assms(5) in auto)
  then have "\<exists>h \<in> A. spin_inside s' h \<or> (\<exists>s''. spin_step h s' = Some s'' \<and> spin_inside s'' h)" by (rule spin_repr_progress [OF q'(1)])
  moreover have "\<not> spin_inside s' t" by (rule spin.no_overtaking [OF assms(8) _ assms(5) ne t]) (use q assms(1,2) in simp)
  ultimately show ?thesis by simp
qed

text \<open>The interrupt variants give back the flags that the caller had: the flags kept in the lock are those of the agent that
  is inside, and when it leaves they are the flags that it saved when it called.\<close>

theorem spin_flags_restored:
  assumes "finite A" and "card A < 2 ^ 32" and "spin_initial s0" and "(spin_timely A)\<^sup>*\<^sup>* s0 s"
    and "sa_mode (ss_agent s t) = ISR_SAVE" and "sa_pc (ss_agent s t) = SPIN_LEAVE f" and "spin_step t s = Some s'"
  shows "sa_flags (ss_agent s' t) = sa_saved (ss_agent s t) \<and> sa_pc (ss_agent s' t) = SPIN_IDLE"
proof -
  obtain q where q: "spin_repr A s q" using spin_reachable [OF assms(1-4)] .
  then have "f = sa_saved (ss_agent s t)" using spin_reprD(7) [OF q] assms(5,6) by (auto simp: spin_flags_def)
  then show ?thesis using assms(5,6,7) by (auto simp: spin_step_def Let_def unprotect_def upd_agent_def)
qed

section \<open>Applications\<close>

definition spin_start :: "nat spin_state" where
  "spin_start = \<lparr>ss_lock = \<lparr>lock_word = \<lparr>next_ticket = 0, current_ticket = 0\<rparr>, lock_flags = 0\<rparr>,
     ss_agent = (\<lambda>_. \<lparr>sa_mode = ISR_SAVE, sa_preemption_count = 0, sa_flags = 0x202, sa_saved = 0, sa_pc = SPIN_IDLE\<rparr>),
     ss_taken = 0, ss_released = 0, ss_read = (\<lambda>_. 0)\<rparr>"

lemma spin_start_initial: "spin_initial spin_start"
  by (auto simp: spin_initial_def spin_start_def spinlock_isr_init_def spinlock_init_def
      intro!: exI [of _ "ss_lock spin_start"])

text \<open>Agent 0 calls and takes its ticket, agent 1 does the same, agent 0 comes inside.\<close>

definition spin_two :: "nat spin_state" where
  "spin_two = the (spin_step 1 (the (spin_call ISR_SAVE False 1 (the (spin_step 0 (the (spin_call ISR_SAVE False 0 spin_start)))))))"

definition spin_one_in :: "nat spin_state" where
  "spin_one_in = the (spin_step 0 spin_two)"

lemmas spin_eval = spin_call_def spin_uncall_def spin_step_def Let_def upd_agent_def upd_word_def protect_def unprotect_def spin_acquired_def

lemma spin_two_reached: "(spin_timely {0, 1})\<^sup>*\<^sup>* spin_start spin_two"
proof -
  let ?s1 = "the (spin_call ISR_SAVE False 0 spin_start)"
  let ?s2 = "the (spin_step 0 ?s1)"
  let ?s3 = "the (spin_call ISR_SAVE False 1 ?s2)"
  note d = spin_eval spin_start_def not_overrun_def
  have "spin_timely {0, 1} spin_start ?s1" by (rule spin_timelyI, rule spin_trans.call [of 0 _ ISR_SAVE False]) (simp_all add: d)
  moreover have "spin_timely {0, 1} ?s1 ?s2" by (rule spin_timelyI, rule spin_trans.step [of 0]) (simp_all add: d)
  moreover have "spin_timely {0, 1} ?s2 ?s3" by (rule spin_timelyI, rule spin_trans.call [of 1 _ ISR_SAVE False]) (simp_all add: d)
  moreover have "spin_timely {0, 1} ?s3 spin_two" unfolding spin_two_def by (rule spin_timelyI, rule spin_trans.step [of 1]) (simp_all add: d)
  ultimately show ?thesis by (meson converse_rtranclp_into_rtranclp rtranclp.rtrancl_refl)
qed

lemma spin_one_in_step: "spin_timely {0, 1} spin_two spin_one_in"
  unfolding spin_one_in_def by (rule spin_timelyI, rule spin_trans.step [of 0]) (simp_all add: spin_two_def spin_eval spin_start_def not_overrun_def)

lemma spin_one_in_facts:
  "spin_inside spin_one_in 0" "spin_waiting spin_two 1" "spin_waiting spin_one_in 1" "\<not> spin_waiting spin_two 2" "\<not> spin_inside spin_two 2"
  by (simp_all add: spin_one_in_def spin_two_def spin_eval spin_start_def spin_inside_def spin_waiting_def)

theorem spin_mutual_exclusion_witness: "spin_inside spin_one_in 0 \<and> \<not> spin_inside spin_one_in 1"
proof -
  have "(spin_timely {0, 1})\<^sup>*\<^sup>* spin_start spin_one_in" using spin_two_reached spin_one_in_step by (rule rtranclp.rtrancl_into_rtrancl)
  from spin_mutual_exclusion [OF _ _ spin_start_initial this spin_one_in_facts(1), of 1] spin_one_in_facts(1) show ?thesis by auto
qed

theorem spin_fair_witness:
  "\<not> spin_inside spin_one_in 2 \<and> (\<exists>h \<in> {0, 1}. spin_inside spin_one_in h \<or> (\<exists>s. spin_step h spin_one_in = Some s \<and> spin_inside s h))"
  by (rule spin_fair [OF _ _ spin_start_initial spin_two_reached spin_one_in_facts(2,4,5) r_into_rtranclp])
     (use spin_one_in_step spin_one_in_facts(3) in simp_all)

text \<open>Agent 0 saves its flags, with interrupts on, unlocks and leaves with interrupts on.\<close>

definition spin_leaving :: "nat spin_state" where
  "spin_leaving = the (spin_step 0 (the (spin_uncall 0 (the (spin_step 0 spin_one_in)))))"

theorem spin_flags_restored_witness:
  "\<not> interrupts_on (sa_flags (ss_agent spin_leaving 0)) \<and> (\<exists>s. spin_step 0 spin_leaving = Some s \<and> interrupts_on (sa_flags (ss_agent s 0)))"
proof -
  let ?s1 = "the (spin_step 0 spin_one_in)"
  let ?s2 = "the (spin_uncall 0 ?s1)"
  note d = spin_one_in_def spin_two_def spin_eval spin_start_def not_overrun_def
  have "spin_timely {0, 1} spin_one_in ?s1" by (rule spin_timelyI, rule spin_trans.step [of 0]) (simp_all add: d)
  moreover have "spin_timely {0, 1} ?s1 ?s2" by (rule spin_timelyI, rule spin_trans.uncall [of 0]) (simp_all add: d)
  moreover have "spin_timely {0, 1} ?s2 spin_leaving" unfolding spin_leaving_def by (rule spin_timelyI, rule spin_trans.step [of 0]) (simp_all add: d)
  ultimately have r: "(spin_timely {0, 1})\<^sup>*\<^sup>* spin_start spin_leaving"
    using spin_two_reached spin_one_in_step by (meson rtranclp.rtrancl_into_rtrancl)
  have f: "sa_mode (ss_agent spin_leaving 0) = ISR_SAVE" "sa_pc (ss_agent spin_leaving 0) = SPIN_LEAVE 0x202"
    "sa_saved (ss_agent spin_leaving 0) = 0x202" "sa_flags (ss_agent spin_leaving 0) = 2" "\<exists>s. spin_step 0 spin_leaving = Some s"
    by (simp_all add: spin_leaving_def d unset_bit_eq_and_not)
  then obtain s where s: "spin_step 0 spin_leaving = Some s" by blast
  from spin_flags_restored [OF _ _ spin_start_initial r f(1,2) s] f s show ?thesis by (simp add: interrupts_on_def)
qed

end
