(* ===== verification/Twan_Mcslock.thy ===== *)
theory Twan_Mcslock
  imports Twan_Queue_Lock Twan_Vsched
begin

text \<open>
  The list-based lock of \<open>src/subsys/sync/mcslock.c\<close> with its paravirtual variant, step by step. An agent is a processor
  of the kernel, which has preemption or interrupts off while it is in the code of the lock; its node is addressed
  by the agent. A step executes the code up to and including its next access to shared memory, or a hypercall. The
  kernel may find out at any time that it runs on the hypervisor (\<open>twanvisor_on\<close>); every call decides by that flag
  which variant it runs. A pause in the hypervisor and a kick act on the spin state of the virtual CPU exactly as
  \<open>vsched_put_paused\<close> and \<open>vemu_do_pv_spin_kick\<close> do.
\<close>

section \<open>Definitions: lock, nodes and agents\<close>

datatype mcs_node_state = MCS_LOCKED | MCS_UNLOCKED | MCS_PAUSED

text \<open>The processor number of a node is \<open>None\<close> when it is negative.\<close>

record 'a mcsnode =
  mn_next :: "'a option"
  mn_state :: mcs_node_state
  mn_processor_id :: "'a option"

datatype 'a mcs_pc =
  MCS_IDLE
| MCS_XCHG bool
| MCS_PREV 'a
| MCS_LINK bool 'a "'a option"
| MCS_SPIN
| MCS_PV_SPIN nat "'a option"
| MCS_PV_ACTIVE "'a option"
| MCS_PV_CMPXCHG "'a option"
| MCS_PV_CALL "'a option"
| MCS_PV_BLOCKED "'a option"
| MCS_HELD
| MCS_NEXT bool
| MCS_CMPXCHG bool
| MCS_UNTIL_NEXT bool
| MCS_SET 'a
| MCS_PV_HANDOFF 'a
| MCS_PV_READ 'a
| MCS_PV_SET 'a "'a option"
| MCS_PV_KICK "'a option"

record 'a mcs_state =
  ms_tail :: "'a option"
  ms_node :: "'a \<Rightarrow> 'a mcsnode"
  ms_pc :: "'a \<Rightarrow> 'a mcs_pc"
  ms_twanvisor_on :: bool
  ms_vspin :: "'a \<Rightarrow> vcpu_pv_spin_state"

definition mcsnode_init :: "'a mcsnode \<Rightarrow> 'a mcsnode" where
  "mcsnode_init n = n\<lparr>mn_next := None, mn_state := MCS_LOCKED\<rparr>"

definition mcslock_init :: "'a mcs_state \<Rightarrow> 'a mcs_state" where
  "mcslock_init s = s\<lparr>ms_tail := None\<rparr>"

section \<open>Definitions: the hypercalls on the spin state\<close>

text \<open>Whether the virtual CPU is paused, and its spin state after the call.\<close>

definition vspin_pause :: "vcpu_pv_spin_state \<Rightarrow> bool \<times> vcpu_pv_spin_state" where
  "vspin_pause x = (case x of VSPIN_NONE \<Rightarrow> (True, VSPIN_PAUSED) | VSPIN_KICKED \<Rightarrow> (False, VSPIN_NONE) | VSPIN_PAUSED \<Rightarrow> (False, VSPIN_PAUSED))"

definition vspin_kick :: "vcpu_pv_spin_state \<Rightarrow> vcpu_pv_spin_state" where
  "vspin_kick x = (if x = VSPIN_PAUSED then VSPIN_NONE else VSPIN_KICKED)"

section \<open>Definitions: the steps of an agent\<close>

abbreviation mcs_goto :: "'a \<Rightarrow> 'a mcs_pc \<Rightarrow> 'a mcs_state \<Rightarrow> 'a mcs_state" where
  "mcs_goto t pc s \<equiv> s\<lparr>ms_pc := (ms_pc s)(t := pc)\<rparr>"

abbreviation upd_node :: "'a \<Rightarrow> ('a mcsnode \<Rightarrow> 'a mcsnode) \<Rightarrow> 'a mcs_state \<Rightarrow> 'a mcs_state" where
  "upd_node x f s \<equiv> s\<lparr>ms_node := (ms_node s)(x := f (ms_node s x))\<rparr>"

text \<open>The call of \<open>__pv_mcs_lock\<close>: a fresh node, and the variant.\<close>

definition mcs_call :: "'a \<Rightarrow> 'a mcs_state \<Rightarrow> 'a mcs_state option" where
  "mcs_call t s = (if ms_pc s t = MCS_IDLE
     then Some (mcs_goto t (MCS_XCHG (ms_twanvisor_on s))
       (upd_node t (\<lambda>n. (mcsnode_init n)\<lparr>mn_processor_id := if ms_twanvisor_on s then Some t else None\<rparr>) s))
     else None)"

text \<open>The call of \<open>__pv_mcs_unlock\<close>.\<close>

definition mcs_uncall :: "'a \<Rightarrow> 'a mcs_state \<Rightarrow> 'a mcs_state option" where
  "mcs_uncall t s = (if ms_pc s t = MCS_HELD then Some (mcs_goto t (MCS_NEXT (ms_twanvisor_on s)) s) else None)"

definition mcs_handoff :: "bool \<Rightarrow> 'a \<Rightarrow> 'a mcs_pc" where
  "mcs_handoff pv x = (if pv then MCS_PV_HANDOFF x else MCS_SET x)"

text \<open>A step of agent \<open>t\<close>; \<open>threshold\<close> is \<open>CONFIG_TWANVISOR_PV_LOCK_THRESHOLD\<close>, \<open>active\<close> the answer of \<open>tv_vis_vcpu_active\<close>.\<close>

definition mcs_step :: "nat \<Rightarrow> bool \<Rightarrow> 'a \<Rightarrow> 'a mcs_state \<Rightarrow> 'a mcs_state option" where
  "mcs_step threshold active t s = (let n = ms_node s t in
     case ms_pc s t of
       MCS_IDLE \<Rightarrow> None
     | MCS_HELD \<Rightarrow> None
     | MCS_XCHG pv \<Rightarrow> Some ((mcs_goto t (case ms_tail s of
           None \<Rightarrow> MCS_HELD
         | Some prev \<Rightarrow> if pv then MCS_PREV prev else MCS_LINK False prev None) s)\<lparr>ms_tail := Some t\<rparr>)
     | MCS_PREV prev \<Rightarrow> Some (mcs_goto t (MCS_LINK True prev (mn_processor_id (ms_node s prev))) s)
     | MCS_LINK pv prev pid \<Rightarrow>
         Some (mcs_goto t (if pv then MCS_PV_SPIN 0 pid else MCS_SPIN) (upd_node prev (\<lambda>n. n\<lparr>mn_next := Some t\<rparr>) s))
     | MCS_SPIN \<Rightarrow> Some (if mn_state n = MCS_UNLOCKED then mcs_goto t MCS_HELD s else s)
     | MCS_PV_SPIN iterations pid \<Rightarrow>
         Some (if mn_state n = MCS_UNLOCKED then mcs_goto t MCS_HELD s
               else if pid = None then s
               else if iterations \<noteq> threshold then mcs_goto t (MCS_PV_SPIN (iterations + 1) pid) s
               else mcs_goto t (MCS_PV_ACTIVE pid) s)
     | MCS_PV_ACTIVE pid \<Rightarrow> Some (mcs_goto t (if active then MCS_PV_SPIN 0 pid else MCS_PV_CMPXCHG pid) s)
     | MCS_PV_CMPXCHG pid \<Rightarrow>
         Some (if mn_state n = MCS_LOCKED
               then mcs_goto t (MCS_PV_CALL pid) (upd_node t (\<lambda>n. n\<lparr>mn_state := MCS_PAUSED\<rparr>) s)
               else mcs_goto t (MCS_PV_SPIN 0 pid) s)
     | MCS_PV_CALL pid \<Rightarrow> (let (paused, x) = vspin_pause (ms_vspin s t) in
         Some ((mcs_goto t (if paused then MCS_PV_BLOCKED pid else MCS_PV_SPIN 0 pid) s)\<lparr>ms_vspin := (ms_vspin s)(t := x)\<rparr>))
     | MCS_PV_BLOCKED pid \<Rightarrow> if ms_vspin s t = VSPIN_PAUSED then None else Some (mcs_goto t (MCS_PV_SPIN 0 pid) s)
     | MCS_NEXT pv \<Rightarrow> Some (mcs_goto t (case mn_next n of None \<Rightarrow> MCS_CMPXCHG pv | Some x \<Rightarrow> mcs_handoff pv x) s)
     | MCS_CMPXCHG pv \<Rightarrow> Some (if ms_tail s = Some t then (mcs_goto t MCS_IDLE s)\<lparr>ms_tail := None\<rparr> else mcs_goto t (MCS_UNTIL_NEXT pv) s)
     | MCS_UNTIL_NEXT pv \<Rightarrow> Some (case mn_next n of None \<Rightarrow> s | Some x \<Rightarrow> mcs_goto t (mcs_handoff pv x) s)
     | MCS_SET x \<Rightarrow> Some (mcs_goto t MCS_IDLE (upd_node x (\<lambda>n. n\<lparr>mn_state := MCS_UNLOCKED\<rparr>) s))
     | MCS_PV_HANDOFF x \<Rightarrow>
         Some (if mn_state (ms_node s x) = MCS_LOCKED
               then mcs_goto t MCS_IDLE (upd_node x (\<lambda>n. n\<lparr>mn_state := MCS_UNLOCKED\<rparr>) s)
               else mcs_goto t (MCS_PV_READ x) s)
     | MCS_PV_READ x \<Rightarrow> Some (mcs_goto t (MCS_PV_SET x (mn_processor_id (ms_node s x))) s)
     | MCS_PV_SET x pid \<Rightarrow> Some (mcs_goto t (MCS_PV_KICK pid) (upd_node x (\<lambda>n. n\<lparr>mn_state := MCS_UNLOCKED\<rparr>) s))
     | MCS_PV_KICK pid \<Rightarrow> Some ((mcs_goto t MCS_IDLE s)\<lparr>ms_vspin := (case pid of
           None \<Rightarrow> ms_vspin s | Some p \<Rightarrow> (ms_vspin s)(p := vspin_kick (ms_vspin s p)))\<rparr>))"

section \<open>Executions\<close>

text \<open>Besides the steps of the agents, the kernel finds the hypervisor.\<close>

inductive mcs_trans :: "nat \<Rightarrow> 'a mcs_state \<Rightarrow> 'a mcs_state \<Rightarrow> bool" for threshold where
  call: "mcs_call t s = Some s' \<Longrightarrow> mcs_trans threshold s s'"
| uncall: "mcs_uncall t s = Some s' \<Longrightarrow> mcs_trans threshold s s'"
| step: "mcs_step threshold active t s = Some s' \<Longrightarrow> mcs_trans threshold s s'"
| twanvisor: "mcs_trans threshold s (s\<lparr>ms_twanvisor_on := True\<rparr>)"

definition mcs_initial :: "'a mcs_state \<Rightarrow> bool" where
  "mcs_initial s \<longleftrightarrow> ms_tail s = None \<and> (\<forall>t. ms_pc s t = MCS_IDLE) \<and> (\<forall>t. ms_vspin s t = VSPIN_NONE)"

text \<open>Where an agent is: waiting for its node to change, or past that and not yet gone.\<close>

fun pc_waiting :: "'a mcs_pc \<Rightarrow> bool" where
  "pc_waiting (MCS_PREV _) = True"
| "pc_waiting (MCS_LINK _ _ _) = True"
| "pc_waiting MCS_SPIN = True"
| "pc_waiting (MCS_PV_SPIN _ _) = True"
| "pc_waiting (MCS_PV_ACTIVE _) = True"
| "pc_waiting (MCS_PV_CMPXCHG _) = True"
| "pc_waiting (MCS_PV_CALL _) = True"
| "pc_waiting (MCS_PV_BLOCKED _) = True"
| "pc_waiting _ = False"

fun pc_owner :: "'a mcs_pc \<Rightarrow> bool" where
  "pc_owner MCS_HELD = True"
| "pc_owner (MCS_NEXT _) = True"
| "pc_owner (MCS_CMPXCHG _) = True"
| "pc_owner (MCS_UNTIL_NEXT _) = True"
| "pc_owner (MCS_SET _) = True"
| "pc_owner (MCS_PV_HANDOFF _) = True"
| "pc_owner (MCS_PV_READ _) = True"
| "pc_owner (MCS_PV_SET _ _) = True"
| "pc_owner _ = False"

definition mcs_inside :: "'a mcs_state \<Rightarrow> 'a \<Rightarrow> bool" where
  "mcs_inside s t \<longleftrightarrow> pc_owner (ms_pc s t)"

definition mcs_waiting :: "'a mcs_state \<Rightarrow> 'a \<Rightarrow> bool" where
  "mcs_waiting s t \<longleftrightarrow> pc_waiting (ms_pc s t)"

section \<open>The hypervisor side\<close>

text \<open>The hypervisor treats the spin state of a virtual CPU as the hypercalls above say.\<close>

lemma vspin_pause_refines:
  assumes "vsched_put_paused cfg this v True put_ctx ctx k = Some (paused, k')" and "\<not> v_terminate (tw_vcpu k v)"
  shows "(paused, v_pv_spin_state (tw_vcpu k' v)) = vspin_pause (v_pv_spin_state (tw_vcpu k v))"
  using assms by (auto simp: vsched_put_paused_def vspin_pause_def split: vcpu_pv_spin_state.splits)

lemma vspin_kick_refines: "v_pv_spin_state (tw_vcpu (vemu_do_pv_spin_kick cfg v k) v) = vspin_kick (v_pv_spin_state (tw_vcpu k v))"
  by (simp add: vemu_do_pv_spin_kick_def vspin_kick_def)

section \<open>The queue of nodes\<close>

text \<open>Agent \<open>b\<close> follows agent \<open>a\<close>.\<close>

definition mcs_link :: "'a mcs_state \<Rightarrow> 'a \<Rightarrow> 'a \<Rightarrow> bool" where
  "mcs_link s a b \<longleftrightarrow> (let next = mn_next (ms_node s a); state = mn_state (ms_node s b); apid = mn_processor_id (ms_node s a) in
     case ms_pc s b of
       MCS_PREV p \<Rightarrow> p = a \<and> next = None \<and> state = MCS_LOCKED
     | MCS_LINK pv p pid \<Rightarrow> p = a \<and> next = None \<and> state = MCS_LOCKED \<and> (pv \<longrightarrow> pid = apid)
     | MCS_SPIN \<Rightarrow> next = Some b \<and> state = MCS_LOCKED
     | MCS_PV_SPIN _ pid \<Rightarrow> next = Some b \<and> state \<noteq> MCS_UNLOCKED \<and> pid = apid \<and> (state = MCS_PAUSED \<longrightarrow> pid \<noteq> None)
     | MCS_PV_ACTIVE pid \<Rightarrow> next = Some b \<and> state \<noteq> MCS_UNLOCKED \<and> pid = apid \<and> pid \<noteq> None
     | MCS_PV_CMPXCHG pid \<Rightarrow> next = Some b \<and> state \<noteq> MCS_UNLOCKED \<and> pid = apid \<and> pid \<noteq> None
     | MCS_PV_CALL pid \<Rightarrow> next = Some b \<and> state = MCS_PAUSED \<and> pid = apid \<and> pid \<noteq> None
     | MCS_PV_BLOCKED pid \<Rightarrow> next = Some b \<and> state = MCS_PAUSED \<and> pid = apid \<and> pid \<noteq> None
     | _ \<Rightarrow> False)"

text \<open>The first agent has the lock, or its node says so.\<close>

definition mcs_head :: "'a mcs_state \<Rightarrow> 'a \<Rightarrow> bool" where
  "mcs_head s h \<longleftrightarrow> (let next = mn_next (ms_node s h) in
     case ms_pc s h of
       MCS_HELD \<Rightarrow> True | MCS_NEXT _ \<Rightarrow> True | MCS_CMPXCHG _ \<Rightarrow> True | MCS_UNTIL_NEXT _ \<Rightarrow> True
     | MCS_SET x \<Rightarrow> next = Some x
     | MCS_PV_HANDOFF x \<Rightarrow> next = Some x
     | MCS_PV_READ x \<Rightarrow> next = Some x \<and> mn_state (ms_node s x) = MCS_PAUSED
     | MCS_PV_SET x pid \<Rightarrow> next = Some x \<and> mn_state (ms_node s x) = MCS_PAUSED \<and> pid = mn_processor_id (ms_node s x)
     | pc \<Rightarrow> pc_waiting pc \<and> (\<forall>p. pc \<noteq> MCS_PREV p) \<and> (\<forall>pv p pid. pc \<noteq> MCS_LINK pv p pid) \<and> mn_state (ms_node s h) = MCS_UNLOCKED)"

definition mcs_queue :: "'a mcs_state \<Rightarrow> 'a list \<Rightarrow> bool" where
  "mcs_queue s q \<longleftrightarrow> distinct q \<and> ms_tail s = last_or None q \<and> (\<forall>t. t \<in> set q \<longleftrightarrow> mcs_inside s t \<or> mcs_waiting s t) \<and>
     successively (mcs_link s) q \<and> (\<forall>h r. q = h # r \<longrightarrow> mcs_head s h) \<and> (\<forall>t. last_or None q = Some t \<longrightarrow> mn_next (ms_node s t) = None)"

text \<open>Agents that run the paravirtual variant, and agents that run the plain one while they unlock.\<close>

fun pc_pv :: "'a mcs_pc \<Rightarrow> bool" where
  "pc_pv (MCS_XCHG pv) = pv"
| "pc_pv (MCS_PREV _) = True"
| "pc_pv (MCS_LINK pv _ _) = pv"
| "pc_pv (MCS_PV_SPIN _ _) = True"
| "pc_pv (MCS_PV_ACTIVE _) = True"
| "pc_pv (MCS_PV_CMPXCHG _) = True"
| "pc_pv (MCS_PV_CALL _) = True"
| "pc_pv (MCS_PV_BLOCKED _) = True"
| "pc_pv _ = False"

fun pc_plain_unlock :: "'a mcs_pc \<Rightarrow> bool" where
  "pc_plain_unlock (MCS_NEXT pv) = (\<not> pv)"
| "pc_plain_unlock (MCS_CMPXCHG pv) = (\<not> pv)"
| "pc_plain_unlock (MCS_UNTIL_NEXT pv) = (\<not> pv)"
| "pc_plain_unlock (MCS_SET _) = True"
| "pc_plain_unlock _ = False"

definition mcs_pv :: "'a mcs_state \<Rightarrow> bool" where
  "mcs_pv s \<longleftrightarrow> (\<forall>t.
     (ms_pc s t \<noteq> MCS_IDLE \<and> (\<forall>p. ms_pc s t \<noteq> MCS_PV_KICK p) \<and> mn_processor_id (ms_node s t) \<noteq> None \<longrightarrow> ms_twanvisor_on s) \<and>
     (\<forall>pv. ms_pc s t = MCS_XCHG pv \<longrightarrow> mn_state (ms_node s t) = MCS_LOCKED \<and> mn_next (ms_node s t) = None) \<and>
     (pc_pv (ms_pc s t) \<longrightarrow> mn_processor_id (ms_node s t) = Some t) \<and>
     (pc_plain_unlock (ms_pc s t) \<longrightarrow> mn_processor_id (ms_node s t) = None) \<and>
     (ms_vspin s t = VSPIN_PAUSED \<longrightarrow> (\<exists>p. ms_pc s t = MCS_PV_BLOCKED p)))"

text \<open>A virtual CPU that is paused, or about to be, is still marked in its node, or a kick for it is under way.\<close>

definition mcs_will_sleep :: "'a mcs_state \<Rightarrow> 'a \<Rightarrow> bool" where
  "mcs_will_sleep s t \<longleftrightarrow> (\<exists>p. ms_pc s t = MCS_PV_BLOCKED p \<and> ms_vspin s t = VSPIN_PAUSED \<or> ms_pc s t = MCS_PV_CALL p \<and> ms_vspin s t = VSPIN_NONE)"

definition mcs_wakes :: "'a mcs_state \<Rightarrow> bool" where
  "mcs_wakes s \<longleftrightarrow> (\<forall>t. mcs_will_sleep s t \<longrightarrow> mn_state (ms_node s t) = MCS_PAUSED \<or> (\<exists>u. ms_pc s u = MCS_PV_KICK (Some t)))"

definition mcs_repr :: "'a mcs_state \<Rightarrow> 'a list \<Rightarrow> bool" where
  "mcs_repr s q \<longleftrightarrow> mcs_queue s q \<and> mcs_pv s \<and> mcs_wakes s"

section \<open>Places in the queue\<close>

lemma successively_pred: "successively P (x # xs) \<Longrightarrow> t \<in> set xs \<Longrightarrow> \<exists>a \<in> set (x # xs). P a t"
  by (induction xs arbitrary: x) fastforce+

lemma mcs_queueD:
  assumes "mcs_queue s q"
  shows "distinct q" and "ms_tail s = last_or None q" and "t \<in> set q \<longleftrightarrow> mcs_inside s t \<or> mcs_waiting s t"
    and "successively (mcs_link s) q" and "q = h # r \<Longrightarrow> mcs_head s h" and "last_or None q = Some t \<Longrightarrow> mn_next (ms_node s t) = None"
  using assms by (simp_all add: mcs_queue_def)

lemma mcs_link_waiting: "mcs_link s a b \<Longrightarrow> mcs_waiting s b \<and> mn_state (ms_node s b) \<noteq> MCS_UNLOCKED"
  by (auto simp: mcs_link_def mcs_waiting_def Let_def split: mcs_pc.splits)

lemma mcs_place:
  assumes "mcs_queue s q" and "t \<in> set q"
  shows "(\<exists>r. q = t # r) \<or> (\<exists>a \<in> set q. mcs_link s a t)"
  using assms mcs_queueD(4) [OF assms(1)] successively_pred [of "mcs_link s" _ _ t] by (cases q) auto

lemma mcs_predecessor:
  assumes "mcs_queue s q" and "mcs_waiting s t" and "\<not> mcs_head s t"
  obtains j where "Suc j < length q" "q ! Suc j = t" "q ! j \<noteq> t" "mcs_link s (q ! j) t"
proof -
  obtain k where k: "k < length q" "q ! k = t" using assms(2) mcs_queueD(3) [OF assms(1), of t] by (auto simp: in_set_conv_nth)
  have "k \<noteq> 0"
  proof
    assume "k = 0"
    then have "q = t # tl q" using k by (cases q) auto
    then show False using assms(3) mcs_queueD(5) [OF assms(1)] by blast
  qed
  then obtain j where j: "Suc j < length q" "q ! Suc j = t" using k by (cases k) auto
  have "q ! j \<noteq> t" using mcs_queueD(1) [OF assms(1)] j by (metis Suc_lessD n_not_Suc_n nth_eq_iff_index_eq)
  then show thesis using that j successively_nth [OF mcs_queueD(4) [OF assms(1)] j(1)] by simp
qed

lemma mcs_inside_head:
  assumes "mcs_queue s q" and "mcs_inside s t"
  shows "\<exists>r. q = t # r"
proof -
  have "\<not> mcs_link s a t" for a
    using assms(2) mcs_link_waiting [of s a t] by (auto simp: mcs_inside_def mcs_waiting_def elim: pc_owner.elims)
  then show ?thesis using mcs_place [OF assms(1), of t] mcs_queueD(3) [OF assms(1), of t] assms(2) by blast
qed

lemma mcs_granted_head:
  assumes "mcs_queue s q" and "mcs_waiting s t" and "mn_state (ms_node s t) = MCS_UNLOCKED"
  shows "\<exists>r. q = t # r"
  using mcs_place [OF assms(1), of t] mcs_queueD(3) [OF assms(1), of t] assms(2,3) mcs_link_waiting [of s _ t] by blast

lemma mcs_locked_link:
  assumes "mcs_queue s q" and "mcs_waiting s t" and "mn_state (ms_node s t) \<noteq> MCS_UNLOCKED \<or> (\<exists>p. ms_pc s t = MCS_PREV p) \<or> (\<exists>pv p pid. ms_pc s t = MCS_LINK pv p pid)"
  shows "\<exists>a \<in> set q. mcs_link s a t"
proof -
  have "\<not> mcs_head s t" using assms(2,3) by (auto simp: mcs_head_def mcs_waiting_def Let_def split: mcs_pc.splits)
  then show ?thesis using mcs_place [OF assms(1), of t] mcs_queueD(3) [OF assms(1), of t] mcs_queueD(5) [OF assms(1)] assms(2) by blast
qed

section \<open>Changes inside the queue\<close>

text \<open>A step that leaves the queue, the links and the processor numbers.\<close>

lemma mcs_queue_frame:
  assumes q: "mcs_queue s q" and tail: "ms_tail s' = ms_tail s"
    and member: "\<And>t. mcs_inside s' t \<or> mcs_waiting s' t \<longleftrightarrow> mcs_inside s t \<or> mcs_waiting s t"
    and link: "\<And>a b. a \<in> set q \<Longrightarrow> b \<in> set q \<Longrightarrow> mcs_link s a b \<Longrightarrow> mcs_link s' a b"
    and head: "\<And>h r. q = h # r \<Longrightarrow> mcs_head s h \<Longrightarrow> mcs_head s' h"
    and nxt: "\<And>t. last_or None q = Some t \<Longrightarrow> mn_next (ms_node s t) = None \<Longrightarrow> mn_next (ms_node s' t) = None"
  shows "mcs_queue s' q"
proof -
  have "successively (mcs_link s') q" by (rule successively_mono [OF mcs_queueD(4) [OF q]]) (use link in auto)
  then show ?thesis using q tail member head nxt by (auto simp: mcs_queue_def)
qed

text \<open>The next pointer of the first agent points to the second one, which waits.\<close>

lemma mcs_second:
  assumes q: "mcs_queue s (t # r)" and x: "mn_next (ms_node s t) = Some x"
  shows "\<exists>r'. r = x # r' \<and> mcs_link s t x"
proof (cases r)
  case Nil
  then show ?thesis using mcs_queueD(6) [OF q, of t] x by simp
next
  case (Cons b r')
  then have "mcs_link s t b" using mcs_queueD(4) [OF q] by simp
  then show ?thesis using x Cons by (auto simp: mcs_link_def Let_def split: mcs_pc.splits)
qed

text \<open>A waiting agent goes on waiting; at most it marks its node as paused.\<close>

lemma mcs_wait_queue:
  assumes q: "mcs_queue s q" and t: "mcs_waiting s t" "pc_waiting pc" and pc: "\<And>p. pc \<noteq> MCS_PREV p" "\<And>pv p pid. pc \<noteq> MCS_LINK pv p pid"
    and old: "\<And>p. ms_pc s t \<noteq> MCS_PREV p" "\<And>pv p pid. ms_pc s t \<noteq> MCS_LINK pv p pid"
    and st: "st = mn_state (ms_node s t) \<or> mn_state (ms_node s t) = MCS_LOCKED \<and> st = MCS_PAUSED"
    and link: "\<And>a. mcs_link s a t \<Longrightarrow> mcs_link (mcs_goto t pc (upd_node t (\<lambda>n. n\<lparr>mn_state := st\<rparr>) s)\<lparr>ms_vspin := vs\<rparr>) a t"
  shows "mcs_queue (mcs_goto t pc (upd_node t (\<lambda>n. n\<lparr>mn_state := st\<rparr>) s)\<lparr>ms_vspin := vs\<rparr>) q" (is "mcs_queue ?s q")
proof (rule mcs_queue_frame [OF q])
  have no: "\<not> pc_owner (ms_pc s t)" "\<not> pc_owner pc" using t by (auto simp: mcs_waiting_def elim: pc_owner.elims)
  show "mcs_inside ?s u \<or> mcs_waiting ?s u \<longleftrightarrow> mcs_inside s u \<or> mcs_waiting s u" for u
    using t no by (auto simp: mcs_inside_def mcs_waiting_def)
  show "mcs_link ?s a b" if "mcs_link s a b" for a b
    using that link by (cases "b = t") (auto simp: mcs_link_def Let_def split: mcs_pc.splits)
  show "mcs_head ?s h" if "mcs_head s h" for h
  proof (cases "h = t")
    case True
    then have "mn_state (ms_node s t) = MCS_UNLOCKED"
      using that t(1) by (auto simp: mcs_head_def Let_def mcs_waiting_def split: mcs_pc.splits)
    then show ?thesis using True pc t(2) st no by (cases pc) (auto simp: mcs_head_def)
  next
    case False
    then show ?thesis using that st by (auto simp: mcs_head_def Let_def split: mcs_pc.splits)
  qed
qed auto

lemma mcs_pvD:
  assumes "mcs_pv s"
  shows "ms_pc s t \<noteq> MCS_IDLE \<Longrightarrow> \<forall>p. ms_pc s t \<noteq> MCS_PV_KICK p \<Longrightarrow> mn_processor_id (ms_node s t) = Some y \<Longrightarrow> ms_twanvisor_on s"
    and "ms_pc s t = MCS_XCHG pv \<Longrightarrow> mn_state (ms_node s t) = MCS_LOCKED \<and> mn_next (ms_node s t) = None"
    and "pc_pv (ms_pc s t) \<Longrightarrow> mn_processor_id (ms_node s t) = Some t"
    and "pc_plain_unlock (ms_pc s t) \<Longrightarrow> mn_processor_id (ms_node s t) = None"
    and "ms_vspin s t = VSPIN_PAUSED \<Longrightarrow> \<exists>p. ms_pc s t = MCS_PV_BLOCKED p"
  using assms by (auto simp: mcs_pv_def)

text \<open>Agent \<open>t\<close> moves to \<open>pc\<close>.\<close>

lemma mcs_pv_frame:
  assumes s: "mcs_pv s" and pcs: "ms_pc s' = (ms_pc s)(t := pc)" and on: "ms_twanvisor_on s' = ms_twanvisor_on s"
    and pid: "\<And>u. mn_processor_id (ms_node s' u) = mn_processor_id (ms_node s u)"
    and xchg: "\<And>u pv. ms_pc s u = MCS_XCHG pv \<Longrightarrow> u \<noteq> t \<Longrightarrow> mn_state (ms_node s' u) = mn_state (ms_node s u) \<and> mn_next (ms_node s' u) = mn_next (ms_node s u)"
    and vspin: "\<And>u. ms_vspin s' u = VSPIN_PAUSED \<Longrightarrow> u \<noteq> t \<and> ms_vspin s u = VSPIN_PAUSED \<or> u = t \<and> (\<exists>p. pc = MCS_PV_BLOCKED p)"
    and old: "ms_pc s t \<noteq> MCS_IDLE" "\<And>p. ms_pc s t \<noteq> MCS_PV_KICK p" and new: "\<And>pv. pc \<noteq> MCS_XCHG pv"
    and pv: "pc_pv pc \<Longrightarrow> mn_processor_id (ms_node s t) = Some t" and plain: "pc_plain_unlock pc \<Longrightarrow> mn_processor_id (ms_node s t) = None"
  shows "mcs_pv s'"
  unfolding mcs_pv_def
proof (intro allI)
  fix u
  show "(ms_pc s' u \<noteq> MCS_IDLE \<and> (\<forall>p. ms_pc s' u \<noteq> MCS_PV_KICK p) \<and> mn_processor_id (ms_node s' u) \<noteq> None \<longrightarrow> ms_twanvisor_on s') \<and>
     (\<forall>pv. ms_pc s' u = MCS_XCHG pv \<longrightarrow> mn_state (ms_node s' u) = MCS_LOCKED \<and> mn_next (ms_node s' u) = None) \<and>
     (pc_pv (ms_pc s' u) \<longrightarrow> mn_processor_id (ms_node s' u) = Some u) \<and>
     (pc_plain_unlock (ms_pc s' u) \<longrightarrow> mn_processor_id (ms_node s' u) = None) \<and>
     (ms_vspin s' u = VSPIN_PAUSED \<longrightarrow> (\<exists>p. ms_pc s' u = MCS_PV_BLOCKED p))"
  proof (cases "u = t")
    case True
    then show ?thesis using mcs_pvD(1) [OF s, of t] old new pv plain vspin [of t] by (auto simp: pcs on pid)
  next
    case False
    then show ?thesis using s vspin [of u] xchg [of u] by (auto simp: mcs_pv_def pcs on pid)
  qed
qed

lemma mcs_wait_repr:
  assumes r: "mcs_repr s q" and t: "mcs_waiting s t" "pc_waiting pc" and pc: "\<And>p. pc \<noteq> MCS_PREV p" "\<And>pv p pid. pc \<noteq> MCS_LINK pv p pid"
    and old: "\<And>p. ms_pc s t \<noteq> MCS_PREV p" "\<And>pv p pid. ms_pc s t \<noteq> MCS_LINK pv p pid"
    and st: "st = mn_state (ms_node s t) \<or> mn_state (ms_node s t) = MCS_LOCKED \<and> st = MCS_PAUSED"
    and link: "\<And>a. mcs_link s a t \<Longrightarrow> mcs_link (mcs_goto t pc (upd_node t (\<lambda>n. n\<lparr>mn_state := st\<rparr>) s)\<lparr>ms_vspin := vs\<rparr>) a t"
    and pv: "pc_pv pc \<Longrightarrow> pc_pv (ms_pc s t)"
    and vs: "vs = (ms_vspin s)(t := y)" "y = VSPIN_PAUSED \<Longrightarrow> \<exists>p. pc = MCS_PV_BLOCKED p"
    and sleep: "mcs_will_sleep (mcs_goto t pc (upd_node t (\<lambda>n. n\<lparr>mn_state := st\<rparr>) s)\<lparr>ms_vspin := vs\<rparr>) t \<Longrightarrow> mcs_will_sleep s t \<or> st = MCS_PAUSED"
  shows "mcs_repr (mcs_goto t pc (upd_node t (\<lambda>n. n\<lparr>mn_state := st\<rparr>) s)\<lparr>ms_vspin := vs\<rparr>) q" (is "mcs_repr ?s q")
proof -
  have q: "mcs_queue s q" "mcs_pv s" "mcs_wakes s" using r by (simp_all add: mcs_repr_def)
  have w: "ms_pc s t \<noteq> MCS_IDLE" "\<And>p. ms_pc s t \<noteq> MCS_PV_KICK p" "\<And>p. pc \<noteq> MCS_XCHG p" "\<not> pc_plain_unlock pc" "\<And>p. pc \<noteq> MCS_PV_KICK p"
    using t by (auto simp: mcs_waiting_def elim: pc_plain_unlock.elims)
  have "mcs_queue ?s q" by (rule mcs_wait_queue [OF q(1) t pc old st link])
  moreover have "mcs_pv ?s"
    by (rule mcs_pv_frame [OF q(2), where t = t and pc = pc]) (use w pv vs mcs_pvD(3) [OF q(2), of t] in \<open>auto split: if_splits\<close>)
  moreover have "mcs_wakes ?s" unfolding mcs_wakes_def
  proof (intro allI impI)
    fix u assume u: "mcs_will_sleep ?s u"
    have "mcs_will_sleep s u \<or> u = t \<and> st = MCS_PAUSED" using u sleep vs(1) by (cases "u = t") (auto simp: mcs_will_sleep_def)
    then consider "mn_state (ms_node s u) = MCS_PAUSED" | w where "ms_pc s w = MCS_PV_KICK (Some u)" | "u = t" "st = MCS_PAUSED"
      using q(3) by (auto simp: mcs_wakes_def)
    then show "mn_state (ms_node ?s u) = MCS_PAUSED \<or> (\<exists>w. ms_pc ?s w = MCS_PV_KICK (Some u))"
    proof cases
      case 2
      then have "w \<noteq> t" using \<open>\<And>p. ms_pc s t \<noteq> MCS_PV_KICK p\<close> by auto
      then show ?thesis using 2 by auto
    qed (use st in auto)
  qed
  ultimately show ?thesis by (simp add: mcs_repr_def)
qed

lemma mcs_wait_goto:
  assumes r: "mcs_repr s q" and t: "mcs_waiting s t" "pc_waiting pc" and pc: "\<And>p. pc \<noteq> MCS_PREV p" "\<And>pv p pid. pc \<noteq> MCS_LINK pv p pid"
    and old: "\<And>p. ms_pc s t \<noteq> MCS_PREV p" "\<And>pv p pid. ms_pc s t \<noteq> MCS_LINK pv p pid"
    and link: "\<And>a. mcs_link s a t \<Longrightarrow> mcs_link (mcs_goto t pc s) a t" and pv: "pc_pv pc \<Longrightarrow> pc_pv (ms_pc s t)"
    and vs: "ms_vspin s t = VSPIN_PAUSED \<Longrightarrow> \<exists>p. pc = MCS_PV_BLOCKED p" and sleep: "mcs_will_sleep (mcs_goto t pc s) t \<Longrightarrow> mcs_will_sleep s t"
  shows "mcs_repr (mcs_goto t pc s) q"
proof -
  let ?s = "mcs_goto t pc (upd_node t (\<lambda>n. n\<lparr>mn_state := mn_state (ms_node s t)\<rparr>) s)\<lparr>ms_vspin := (ms_vspin s)(t := ms_vspin s t)\<rparr>"
  have e: "?s = mcs_goto t pc s" by simp
  have "mcs_repr ?s q"
    by (rule mcs_wait_repr [OF r t pc old, where y = "ms_vspin s t"]) (use link pv vs sleep in \<open>simp_all\<close>)
  then show ?thesis by (simp only: e)
qed

text \<open>A step of a waiting agent that is linked and not let in.\<close>

lemma mcs_vspin_call: "mcs_pv s \<Longrightarrow> (\<And>p. ms_pc s t \<noteq> MCS_PV_BLOCKED p) \<Longrightarrow> ms_vspin s t \<noteq> VSPIN_PAUSED"
  using mcs_pvD(5) [of s t] by blast

lemma mcs_step_wait:
  assumes r: "mcs_repr s q" and step: "mcs_step threshold active t s = Some s'"
    and pc: "(\<exists>i p. ms_pc s t = MCS_PV_SPIN i p \<and> mn_state (ms_node s t) \<noteq> MCS_UNLOCKED) \<or> (\<exists>p. ms_pc s t \<in> {MCS_PV_ACTIVE p, MCS_PV_CMPXCHG p, MCS_PV_CALL p, MCS_PV_BLOCKED p})"
  shows "mcs_repr s' q"
proof -
  have t: "mcs_waiting s t" using pc by (auto simp: mcs_waiting_def)
  have q: "mcs_pv s" using r by (simp add: mcs_repr_def)
  have go: "mcs_repr (mcs_goto t pc' s) q"
    if "\<And>a. mcs_link s a t \<Longrightarrow> mcs_link (mcs_goto t pc' s) a t" "(\<exists>i p. pc' = MCS_PV_SPIN i p) \<or> (\<exists>p. pc' \<in> {MCS_PV_ACTIVE p, MCS_PV_CMPXCHG p})"
      "ms_vspin s t \<noteq> VSPIN_PAUSED" for pc'
    by (rule mcs_wait_goto [OF r t]) (use that pc in \<open>auto simp: mcs_will_sleep_def\<close>)
  note d = mcs_step_def Let_def mcs_link_def
  consider i p where "ms_pc s t = MCS_PV_SPIN i p" "mn_state (ms_node s t) \<noteq> MCS_UNLOCKED" | p where "ms_pc s t = MCS_PV_ACTIVE p"
    | p where "ms_pc s t = MCS_PV_CMPXCHG p" | p where "ms_pc s t = MCS_PV_CALL p" | p where "ms_pc s t = MCS_PV_BLOCKED p"
    using pc by auto
  then show ?thesis
  proof cases
    case (1 i p)
    then have v: "ms_vspin s t \<noteq> VSPIN_PAUSED" by (intro mcs_vspin_call [OF q]) simp
    consider "s' = s" | "p \<noteq> None" "s' = mcs_goto t (MCS_PV_SPIN (Suc i) p) s" | "p \<noteq> None" "s' = mcs_goto t (MCS_PV_ACTIVE p) s"
      using step 1 by (auto simp: mcs_step_def Let_def split: if_splits)
    then show ?thesis
    proof cases
      case 2
      show ?thesis unfolding 2(2) by (rule go) (use 1 v in \<open>auto simp: d\<close>)
    next
      case 3
      show ?thesis unfolding 3(2) by (rule go) (use 1 v 3(1) in \<open>auto simp: d\<close>)
    qed (use r in simp)
  next
    case (2 p)
    then have v: "ms_vspin s t \<noteq> VSPIN_PAUSED" by (intro mcs_vspin_call [OF q]) simp
    have s': "s' = mcs_goto t (if active then MCS_PV_SPIN 0 p else MCS_PV_CMPXCHG p) s" using step 2 by (simp add: mcs_step_def)
    show ?thesis unfolding s' by (rule go) (use 2 v in \<open>auto simp: d\<close>)
  next
    case (3 p)
    then have v: "ms_vspin s t \<noteq> VSPIN_PAUSED" by (intro mcs_vspin_call [OF q]) simp
    show ?thesis
    proof (cases "mn_state (ms_node s t) = MCS_LOCKED")
      case True
      let ?s = "mcs_goto t (MCS_PV_CALL p) (upd_node t (\<lambda>n. n\<lparr>mn_state := MCS_PAUSED\<rparr>) s)\<lparr>ms_vspin := (ms_vspin s)(t := ms_vspin s t)\<rparr>"
      have "mcs_repr ?s q" by (rule mcs_wait_repr [OF r t]) (use 3 True v in \<open>auto simp: d\<close>)
      then show ?thesis using step 3 True by (auto simp: mcs_step_def)
    next
      case False
      then have s': "s' = mcs_goto t (MCS_PV_SPIN 0 p) s" using step 3 by (simp add: mcs_step_def)
      show ?thesis unfolding s' by (rule go) (use 3 v in \<open>auto simp: d\<close>)
    qed
  next
    case (4 p)
    then have v: "ms_vspin s t \<noteq> VSPIN_PAUSED" by (intro mcs_vspin_call [OF q]) simp
    let ?b = "ms_vspin s t = VSPIN_NONE"
    let ?pc = "if ?b then MCS_PV_BLOCKED p else MCS_PV_SPIN 0 p" and ?y = "if ?b then VSPIN_PAUSED else VSPIN_NONE"
    let ?s = "mcs_goto t ?pc (upd_node t (\<lambda>n. n\<lparr>mn_state := mn_state (ms_node s t)\<rparr>) s)\<lparr>ms_vspin := (ms_vspin s)(t := ?y)\<rparr>"
    have "mcs_repr ?s q" by (rule mcs_wait_repr [OF r t]) (use 4 in \<open>auto simp: d mcs_will_sleep_def split: if_splits\<close>)
    then show ?thesis using step 4 v by (cases "ms_vspin s t") (auto simp: mcs_step_def vspin_pause_def)
  next
    case (5 p)
    then have v: "ms_vspin s t \<noteq> VSPIN_PAUSED" and s': "s' = mcs_goto t (MCS_PV_SPIN 0 p) s"
      using step by (auto simp: mcs_step_def split: if_splits)
    show ?thesis unfolding s' by (rule go) (use 5 v in \<open>auto simp: d\<close>)
  qed
qed

section \<open>Steps of the owner\<close>

lemma mcs_owner_goto:
  assumes r: "mcs_repr s (t # r)" and pc: "pc_owner pc" and head: "mcs_head (mcs_goto t pc s) t"
    and first: "\<And>a. \<not> mcs_link s a t" and plain: "pc_plain_unlock pc \<Longrightarrow> mn_processor_id (ms_node s t) = None"
    and vs: "ms_vspin s t \<noteq> VSPIN_PAUSED"
  shows "mcs_repr (mcs_goto t pc s) (t # r)" (is "mcs_repr ?s _")
proof -
  have q: "mcs_queue s (t # r)" "mcs_pv s" "mcs_wakes s" using r by (simp_all add: mcs_repr_def)
  have t: "mcs_inside s t \<or> mcs_waiting s t" using mcs_queueD(3) [OF q(1), of t] by simp
  have n: "\<not> pc_waiting pc" "\<not> pc_pv pc" "\<And>p. pc \<noteq> MCS_XCHG p" using pc by (auto elim: pc_owner.elims)
  have o: "ms_pc s t \<noteq> MCS_IDLE" "\<And>p. ms_pc s t \<noteq> MCS_PV_KICK p" using t by (auto simp: mcs_inside_def mcs_waiting_def)
  have "mcs_queue ?s (t # r)"
  proof (rule mcs_queue_frame [OF q(1)])
    show "mcs_inside ?s u \<or> mcs_waiting ?s u \<longleftrightarrow> mcs_inside s u \<or> mcs_waiting s u" for u
      using t pc by (auto simp: mcs_inside_def mcs_waiting_def)
    show "mcs_link ?s a b" if "mcs_link s a b" for a b
      using that first [of a] by (cases "b = t") (auto simp: mcs_link_def Let_def)
  qed (use head in auto)
  moreover have "mcs_pv ?s" by (rule mcs_pv_frame [OF q(2), where t = t and pc = pc]) (use n o plain vs in auto)
  moreover have "mcs_wakes ?s" unfolding mcs_wakes_def
  proof (intro allI impI)
    fix u assume u: "mcs_will_sleep ?s u"
    then have "u \<noteq> t" using n by (auto simp: mcs_will_sleep_def)
    then have "mcs_will_sleep s u" using u by (simp add: mcs_will_sleep_def)
    then consider "mn_state (ms_node s u) = MCS_PAUSED" | w where "ms_pc s w = MCS_PV_KICK (Some u)" using q(3) by (auto simp: mcs_wakes_def)
    then show "mn_state (ms_node ?s u) = MCS_PAUSED \<or> (\<exists>w. ms_pc ?s w = MCS_PV_KICK (Some u))"
    proof cases
      case 2
      then have "w \<noteq> t" using o by auto
      then show ?thesis using 2 by auto
    qed simp
  qed
  ultimately show ?thesis by (simp add: mcs_repr_def)
qed

lemma mcs_owner_unlinked: "mcs_inside s t \<Longrightarrow> \<not> mcs_link s a t"
  using mcs_link_waiting [of s a t] by (auto simp: mcs_inside_def mcs_waiting_def elim: pc_owner.elims)

lemma mcs_owner_awake: "mcs_pv s \<Longrightarrow> mcs_inside s t \<Longrightarrow> ms_vspin s t \<noteq> VSPIN_PAUSED"
  using mcs_pvD(5) [of s t] by (auto simp: mcs_inside_def)

lemma mcs_uncall_repr:
  assumes r: "mcs_repr s q" and "mcs_uncall t s = Some s'"
  shows "mcs_repr s' q"
proof -
  have h: "ms_pc s t = MCS_HELD" "s' = mcs_goto t (MCS_NEXT (ms_twanvisor_on s)) s"
    using assms(2) by (auto simp: mcs_uncall_def split: if_splits)
  have q: "mcs_queue s q" "mcs_pv s" using r by (simp_all add: mcs_repr_def)
  have i: "mcs_inside s t" using h by (simp add: mcs_inside_def)
  obtain r' where q': "q = t # r'" using mcs_inside_head [OF q(1) i] by blast
  have "\<not> ms_twanvisor_on s \<Longrightarrow> mn_processor_id (ms_node s t) = None"
    using mcs_pvD(1) [OF q(2), of t] h(1) by (cases "mn_processor_id (ms_node s t)") auto
  then show ?thesis unfolding h(2) q'
    by (intro mcs_owner_goto) (use r q' mcs_owner_unlinked [OF i] mcs_owner_awake [OF q(2) i] in \<open>auto simp: mcs_head_def\<close>)
qed

text \<open>The steps of an owner that stays in the queue.\<close>

lemma mcs_step_owner:
  assumes r: "mcs_repr s q" and i: "mcs_inside s t" and s': "s' = mcs_goto t pc s" and pc: "pc_owner pc"
    and head: "mcs_head (mcs_goto t pc s) t" and plain: "pc_plain_unlock pc \<Longrightarrow> pc_plain_unlock (ms_pc s t)"
  shows "mcs_repr s' q"
proof -
  have q: "mcs_queue s q" "mcs_pv s" using r by (simp_all add: mcs_repr_def)
  obtain r' where q': "q = t # r'" using mcs_inside_head [OF q(1) i] by blast
  show ?thesis unfolding s' q'
    by (rule mcs_owner_goto) (use r q' pc head plain mcs_pvD(4) [OF q(2), of t] mcs_owner_unlinked [OF i] mcs_owner_awake [OF q(2) i] in auto)
qed

text \<open>An agent whose node says so comes inside.\<close>

lemma mcs_step_enter:
  assumes r: "mcs_repr s q" and t: "mcs_waiting s t" "mn_state (ms_node s t) = MCS_UNLOCKED" and b: "\<And>p. ms_pc s t \<noteq> MCS_PV_BLOCKED p"
  shows "mcs_repr (mcs_goto t MCS_HELD s) q"
proof -
  have q: "mcs_queue s q" "mcs_pv s" using r by (simp_all add: mcs_repr_def)
  obtain r' where q': "q = t # r'" using mcs_granted_head [OF q(1) t] by blast
  have "\<not> mcs_link s a t" for a using mcs_link_waiting [of s a t] t(2) by blast
  then show ?thesis unfolding q'
    by (intro mcs_owner_goto) (use r q' mcs_vspin_call [OF q(2) b] in \<open>auto simp: mcs_head_def\<close>)
qed

section \<open>Joining and leaving the queue\<close>

lemma successively_pairs:
  assumes "successively P q" and "distinct q" and "Suc j < length q"
    and "\<And>c d. c \<in> set q \<Longrightarrow> d \<in> set q \<Longrightarrow> P c d \<Longrightarrow> c = q ! j \<longleftrightarrow> d = q ! Suc j \<Longrightarrow> Q c d"
  shows "successively Q q"
  using assms by (auto simp: successively_conv_nth nth_eq_iff_index_eq)

lemma mcs_pop_repr:
  assumes r: "mcs_repr s q" and i: "mcs_inside s t" and x: "mn_next (ms_node s t) = Some x"
    and pc: "pc = MCS_IDLE \<and> mn_state (ms_node s x) = MCS_LOCKED \<or> pc = MCS_PV_KICK (Some x)"
  shows "\<exists>q'. mcs_repr (mcs_goto t pc (upd_node x (\<lambda>n. n\<lparr>mn_state := MCS_UNLOCKED\<rparr>) s)) q' \<and> queue_move q q'" (is "\<exists>q'. mcs_repr ?s q' \<and> _")
proof -
  have q: "mcs_queue s q" "mcs_pv s" "mcs_wakes s" using r by (simp_all add: mcs_repr_def)
  obtain r' where q0: "q = t # r'" using mcs_inside_head [OF q(1) i] by blast
  then obtain r where q': "q = t # x # r" and l: "mcs_link s t x" using mcs_second [OF q(1) [unfolded q0] x] by blast
  note d = mcs_queueD [OF q(1) [unfolded q']]
  have ne: "x \<noteq> t" "t \<notin> set (x # r)" "x \<notin> set r" using d(1) by auto
  have w: "mcs_waiting s x" using mcs_link_waiting [OF l] by simp
  have o: "ms_pc s t \<noteq> MCS_IDLE" "\<And>p. ms_pc s t \<noteq> MCS_PV_KICK p" "\<not> mcs_waiting s t"
    using i by (auto simp: mcs_inside_def mcs_waiting_def elim: pc_owner.elims)
  have "successively (mcs_link s) (x # r)" using d(4) by simp
  then have "successively (mcs_link ?s) (x # r)" unfolding successively_conv_nth
  proof (intro allI impI)
    fix j assume "\<forall>j. Suc j < length (x # r) \<longrightarrow> mcs_link s ((x # r) ! j) ((x # r) ! Suc j)" and j: "Suc j < length (x # r)"
    then have "mcs_link s ((x # r) ! j) (r ! j)" by simp
    moreover have "r ! j \<in> set r" "r ! j \<noteq> x" "r ! j \<noteq> t" using j ne nth_mem [of j r] by auto
    moreover have "(x # r) ! j \<noteq> t" using j ne nth_mem [of j "x # r"] by (metis Suc_lessD)
    ultimately show "mcs_link ?s ((x # r) ! j) ((x # r) ! Suc j)" using ne(1) by (auto simp: mcs_link_def Let_def split: mcs_pc.splits)
  qed
  moreover have "mcs_head ?s x" using l ne x w by (auto simp: mcs_link_def mcs_head_def Let_def mcs_waiting_def split: mcs_pc.splits)
  moreover have "u \<in> set (x # r) \<longleftrightarrow> mcs_inside ?s u \<or> mcs_waiting ?s u" for u
    using d(3) [of u] ne o pc by (auto simp: mcs_inside_def mcs_waiting_def)
  moreover have "last_or None (x # r) = Some u \<Longrightarrow> mn_next (ms_node ?s u) = None" for u
    using d(6) [of u] by auto
  ultimately have "mcs_queue ?s (x # r)" using d(1,2) by (simp add: mcs_queue_def)
  moreover have "mcs_pv ?s"
    by (rule mcs_pv_frame [OF q(2), where t = t and pc = pc])
      (use pc o mcs_owner_awake [OF q(2) i] w mcs_pvD(5) [OF q(2)] in \<open>auto simp: mcs_waiting_def\<close>)
  moreover have "mcs_wakes ?s" unfolding mcs_wakes_def
  proof (intro allI impI)
    fix u assume u: "mcs_will_sleep ?s u"
    then have "u \<noteq> t" using pc by (auto simp: mcs_will_sleep_def)
    then have us: "mcs_will_sleep s u" using u by (simp add: mcs_will_sleep_def)
    then consider "mn_state (ms_node s u) = MCS_PAUSED" | w where "ms_pc s w = MCS_PV_KICK (Some u)" using q(3) by (auto simp: mcs_wakes_def)
    then show "mn_state (ms_node ?s u) = MCS_PAUSED \<or> (\<exists>w. ms_pc ?s w = MCS_PV_KICK (Some u))"
    proof cases
      case 1
      then show ?thesis using pc by (cases "u = x") auto
    next
      case 2
      then have "w \<noteq> t" using o by auto
      then show ?thesis using 2 by auto
    qed
  qed
  ultimately have "mcs_repr ?s (x # r)" by (simp add: mcs_repr_def)
  then show ?thesis using q' by (auto simp: queue_move_def)
qed

lemma mcs_leave_repr:
  assumes r: "mcs_repr s q" and i: "mcs_inside s t" and tail: "ms_tail s = Some t"
  shows "q = [t]" and "mcs_repr ((mcs_goto t MCS_IDLE s)\<lparr>ms_tail := None\<rparr>) []" (is "mcs_repr ?s []")
proof -
  have q: "mcs_queue s q" "mcs_pv s" "mcs_wakes s" using r by (simp_all add: mcs_repr_def)
  obtain r' where q': "q = t # r'" using mcs_inside_head [OF q(1) i] by blast
  have "last_or (Some t) r' = Some t" using mcs_queueD(2) [OF q(1)] tail by (simp add: q')
  then show "q = [t]" using mcs_queueD(1) [OF q(1)] q' last_or_set [of None r' t] by (cases r') auto
  then have out: "mcs_inside s u \<or> mcs_waiting s u \<longleftrightarrow> u = t" for u using mcs_queueD(3) [OF q(1), of u] by simp
  have o: "ms_pc s t \<noteq> MCS_IDLE" "\<And>p. ms_pc s t \<noteq> MCS_PV_KICK p" using i by (auto simp: mcs_inside_def)
  have "mcs_queue ?s []" using out by (auto simp: mcs_queue_def mcs_inside_def mcs_waiting_def)
  moreover have "mcs_pv ?s" by (rule mcs_pv_frame [OF q(2), where t = t and pc = MCS_IDLE]) (use o mcs_owner_awake [OF q(2) i] in auto)
  moreover have "\<not> mcs_will_sleep ?s u" for u
    using out [of u] by (auto simp: mcs_will_sleep_def mcs_waiting_def)
  ultimately show "mcs_repr ?s []" by (simp add: mcs_repr_def mcs_wakes_def)
qed

lemma mcs_wakes_frame:
  assumes "mcs_wakes s" and "\<And>u. mcs_will_sleep s' u \<Longrightarrow> mcs_will_sleep s u"
    and "\<And>u. mn_state (ms_node s u) = MCS_PAUSED \<Longrightarrow> mn_state (ms_node s' u) = MCS_PAUSED \<or> \<not> mcs_will_sleep s' u"
    and "\<And>u v. ms_pc s v = MCS_PV_KICK (Some u) \<Longrightarrow> ms_pc s' v = MCS_PV_KICK (Some u) \<or> \<not> mcs_will_sleep s' u"
  shows "mcs_wakes s'"
  using assms unfolding mcs_wakes_def by meson

lemma mcs_xchg_repr:
  assumes r: "mcs_repr s q" and pc0: "ms_pc s t = MCS_XCHG pv"
    and pc: "pc = (case ms_tail s of None \<Rightarrow> MCS_HELD | Some prev \<Rightarrow> if pv then MCS_PREV prev else MCS_LINK False prev None)"
  shows "t \<notin> set q" and "mcs_repr ((mcs_goto t pc s)\<lparr>ms_tail := Some t\<rparr>) (q @ [t])" (is "mcs_repr ?s _")
proof -
  have q: "mcs_queue s q" "mcs_pv s" "mcs_wakes s" using r by (simp_all add: mcs_repr_def)
  note d = mcs_queueD [OF q(1)]
  show t: "t \<notin> set q" using d(3) [of t] pc0 by (simp add: mcs_inside_def mcs_waiting_def)
  have n: "mn_state (ms_node s t) = MCS_LOCKED" "mn_next (ms_node s t) = None" using mcs_pvD(2) [OF q(2) pc0] by simp_all
  have new: "\<And>p. pc \<noteq> MCS_XCHG p" "\<not> pc_plain_unlock pc" "pc_owner pc \<or> pc_waiting pc" "\<And>p. pc \<noteq> MCS_PV_KICK p" "pc_pv pc \<Longrightarrow> pv"
    "\<And>p. pc \<noteq> MCS_PV_CALL p" "\<And>p. pc \<noteq> MCS_PV_BLOCKED p"
    by (auto simp: pc split: option.splits if_splits)
  have link: "mcs_link ?s a b" if "mcs_link s a b" "b \<in> set q" for a b
    using that t by (auto simp: mcs_link_def Let_def split: mcs_pc.splits)
  have "successively (mcs_link ?s) q" by (rule successively_mono [OF d(4)]) (use link in auto)
  moreover have "mcs_link ?s (last q) t" if "q \<noteq> []"
  proof -
    have l: "last_or None q = Some (last q)" using that by (induction q rule: rev_induct) auto
    then have "mn_next (ms_node s (last q)) = None" using d(6) by blast
    then show ?thesis using n(1) l d(2) by (auto simp: mcs_link_def pc)
  qed
  ultimately have "successively (mcs_link ?s) (q @ [t])" by (auto simp: successively_append_iff)
  moreover have "mcs_head ?s h" if "q @ [t] = h # r'" for h r'
  proof (cases q)
    case Nil
    then show ?thesis using that d(2) by (auto simp: mcs_head_def pc)
  next
    case (Cons a q')
    then show ?thesis using that d(5) [of h q'] t by (auto simp: mcs_head_def Let_def split: mcs_pc.splits)
  qed
  moreover have "u \<in> set (q @ [t]) \<longleftrightarrow> mcs_inside ?s u \<or> mcs_waiting ?s u" for u
    using d(3) [of u] new(3) by (auto simp: mcs_inside_def mcs_waiting_def)
  ultimately have "mcs_queue ?s (q @ [t])" using d(1) t n(2) by (simp add: mcs_queue_def)
  moreover have "mcs_pv ?s"
    by (rule mcs_pv_frame [OF q(2), where t = t and pc = pc])
      (use pc0 new mcs_pvD(3) [OF q(2), of t] mcs_pvD(5) [OF q(2), of t] in auto)
  moreover have "mcs_wakes ?s"
    by (rule mcs_wakes_frame [OF q(3)]) (use new(6,7) pc0 in \<open>auto simp: mcs_will_sleep_def split: if_splits\<close>)
  ultimately show "mcs_repr ?s (q @ [t])" by (simp add: mcs_repr_def)
qed

lemma mcs_prev_repr:
  assumes r: "mcs_repr s q" and pc: "ms_pc s t = MCS_PREV p"
  shows "mcs_repr (mcs_goto t (MCS_LINK True p (mn_processor_id (ms_node s p))) s) q" (is "mcs_repr ?s q")
proof -
  have q: "mcs_queue s q" "mcs_pv s" "mcs_wakes s" using r by (simp_all add: mcs_repr_def)
  have "mcs_queue ?s q"
  proof (rule mcs_queue_frame [OF q(1)])
    show "mcs_inside ?s u \<or> mcs_waiting ?s u \<longleftrightarrow> mcs_inside s u \<or> mcs_waiting s u" for u using pc by (auto simp: mcs_inside_def mcs_waiting_def)
    show "mcs_link ?s a b" if "mcs_link s a b" for a b
      using that pc by (cases "b = t") (auto simp: mcs_link_def Let_def split: mcs_pc.splits)
    show "mcs_head ?s h" if "mcs_head s h" for h
      using that pc by (cases "h = t") (auto simp: mcs_head_def Let_def split: mcs_pc.splits)
  qed auto
  moreover have "mcs_pv ?s"
    by (rule mcs_pv_frame [OF q(2), where t = t and pc = "MCS_LINK True p (mn_processor_id (ms_node s p))"])
      (use pc mcs_pvD(3) [OF q(2), of t] mcs_pvD(5) [OF q(2), of t] in auto)
  moreover have "mcs_wakes ?s"
    by (rule mcs_wakes_frame [OF q(3)]) (use pc in \<open>auto simp: mcs_will_sleep_def split: if_splits\<close>)
  ultimately show ?thesis by (simp add: mcs_repr_def)
qed

lemma mcs_link_repr:
  assumes r: "mcs_repr s q" and pc0: "ms_pc s t = MCS_LINK pv p pid" and pc: "pc = (if pv then MCS_PV_SPIN 0 pid else MCS_SPIN)"
  shows "mcs_repr (mcs_goto t pc (upd_node p (\<lambda>n. n\<lparr>mn_next := Some t\<rparr>) s)) q" (is "mcs_repr ?s q")
proof -
  have q: "mcs_queue s q" "mcs_pv s" "mcs_wakes s" using r by (simp_all add: mcs_repr_def)
  note d = mcs_queueD [OF q(1)]
  have w: "mcs_waiting s t" using pc0 by (simp add: mcs_waiting_def)
  have nh: "\<not> mcs_head s t" using pc0 by (simp add: mcs_head_def)
  obtain j where j: "Suc j < length q" "q ! Suc j = t" "q ! j \<noteq> t" and l: "mcs_link s (q ! j) t" using mcs_predecessor [OF q(1) w nh] .
  have p: "q ! j = p" "mn_next (ms_node s p) = None" "mn_state (ms_node s t) = MCS_LOCKED"
    using l pc0 by (auto simp: mcs_link_def Let_def)
  have pt: "p \<noteq> t" using p(1) j(3) by simp
  have lt: "mcs_link ?s p t" using l p pc0 pt by (auto simp: mcs_link_def Let_def pc)
  have "successively (mcs_link ?s) q"
  proof (rule successively_pairs [OF d(4,1) j(1)])
    fix c b assume "mcs_link s c b" and cb: "c = q ! j \<longleftrightarrow> b = q ! Suc j"
    show "mcs_link ?s c b"
    proof (cases "b = t")
      case True
      then show ?thesis using lt cb p(1) j(2) by simp
    next
      case False
      then have "c \<noteq> p" using cb p(1) j(2) by simp
      then show ?thesis using \<open>mcs_link s c b\<close> False by (cases "b = p") (simp_all add: mcs_link_def)
    qed
  qed
  moreover have "mcs_head ?s h" if "q = h # r'" for h r'
  proof -
    have "mcs_head s h" "h \<noteq> t" using d(5) [OF that] nh by auto
    then show ?thesis using p(2) by (auto simp: mcs_head_def Let_def split: mcs_pc.splits)
  qed
  moreover have "u \<in> set q \<longleftrightarrow> mcs_inside ?s u \<or> mcs_waiting ?s u" for u
    using d(3) [of u] pc0 by (auto simp: mcs_inside_def mcs_waiting_def pc)
  moreover have "mn_next (ms_node ?s u) = None" if u: "last_or None q = Some u" for u
  proof -
    have "u = q ! (length q - 1)" using u by (induction q rule: rev_induct) auto
    then have "u \<noteq> p" using p(1) j d(1) by (metis Suc_diff_1 Suc_inject Suc_lessD bot_nat_0.not_eq_extremum less_nat_zero_code less_not_refl2 nth_eq_iff_index_eq diff_less zero_less_one)
    then show ?thesis using d(6) [OF u] by simp
  qed
  ultimately have "mcs_queue ?s q" using d(1,2) by (simp add: mcs_queue_def)
  moreover have "mcs_pv ?s"
    by (rule mcs_pv_frame [OF q(2), where t = t and pc = pc])
      (use pc0 p(1) j(1) d(3) [of p] nth_mem [of j q] mcs_pvD(3) [OF q(2), of t] mcs_pvD(5) [OF q(2), of t] in \<open>auto simp: pc mcs_inside_def mcs_waiting_def split: if_splits\<close>)
  moreover have "mcs_wakes ?s"
    by (rule mcs_wakes_frame [OF q(3)]) (use pc0 in \<open>auto simp: pc mcs_will_sleep_def split: if_splits\<close>)
  ultimately show ?thesis by (simp add: mcs_repr_def)
qed

lemma mcs_kick_repr:
  assumes r: "mcs_repr s q" and pc0: "ms_pc s t = MCS_PV_KICK pid"
  shows "mcs_repr ((mcs_goto t MCS_IDLE s)\<lparr>ms_vspin := (case pid of None \<Rightarrow> ms_vspin s | Some p \<Rightarrow> (ms_vspin s)(p := vspin_kick (ms_vspin s p)))\<rparr>) q"
    (is "mcs_repr ?s q")
proof -
  have q: "mcs_queue s q" "mcs_pv s" "mcs_wakes s" using r by (simp_all add: mcs_repr_def)
  have v: "ms_vspin ?s u = VSPIN_PAUSED \<Longrightarrow> ms_vspin s u = VSPIN_PAUSED" for u
    by (auto simp: vspin_kick_def split: option.splits if_splits)
  have "mcs_queue ?s q"
  proof (rule mcs_queue_frame [OF q(1)])
    show "mcs_inside ?s u \<or> mcs_waiting ?s u \<longleftrightarrow> mcs_inside s u \<or> mcs_waiting s u" for u using pc0 by (auto simp: mcs_inside_def mcs_waiting_def)
    show "mcs_link ?s a b" if "mcs_link s a b" for a b
      using that pc0 by (cases "b = t") (auto simp: mcs_link_def Let_def split: mcs_pc.splits)
    show "mcs_head ?s h" if "mcs_head s h" for h
      using that pc0 by (cases "h = t") (auto simp: mcs_head_def Let_def split: mcs_pc.splits)
  qed auto
  moreover have "mcs_pv ?s" unfolding mcs_pv_def
  proof (intro allI)
    fix u
    show "(ms_pc ?s u \<noteq> MCS_IDLE \<and> (\<forall>p. ms_pc ?s u \<noteq> MCS_PV_KICK p) \<and> mn_processor_id (ms_node ?s u) \<noteq> None \<longrightarrow> ms_twanvisor_on ?s) \<and>
       (\<forall>pv. ms_pc ?s u = MCS_XCHG pv \<longrightarrow> mn_state (ms_node ?s u) = MCS_LOCKED \<and> mn_next (ms_node ?s u) = None) \<and>
       (pc_pv (ms_pc ?s u) \<longrightarrow> mn_processor_id (ms_node ?s u) = Some u) \<and>
       (pc_plain_unlock (ms_pc ?s u) \<longrightarrow> mn_processor_id (ms_node ?s u) = None) \<and>
       (ms_vspin ?s u = VSPIN_PAUSED \<longrightarrow> (\<exists>p. ms_pc ?s u = MCS_PV_BLOCKED p))"
      using q(2) v [of u] pc0 unfolding mcs_pv_def by (cases "u = t") auto
  qed
  moreover have "mcs_wakes ?s"
  proof (rule mcs_wakes_frame [OF q(3)])
    show "mcs_will_sleep s u" if "mcs_will_sleep ?s u" for u
      using that by (auto simp: mcs_will_sleep_def vspin_kick_def split: if_splits option.splits)
         (use mcs_pvD(5) [OF q(2), of u] in auto)
    show "ms_pc ?s w = MCS_PV_KICK (Some u) \<or> \<not> mcs_will_sleep ?s u" if "ms_pc s w = MCS_PV_KICK (Some u)" for u w
      using that pc0 mcs_pvD(5) [OF q(2), of u] by (cases "w = t") (auto simp: mcs_will_sleep_def vspin_kick_def split: if_splits)
  qed simp
  ultimately show ?thesis by (simp add: mcs_repr_def)
qed

lemma mcs_call_repr:
  assumes r: "mcs_repr s q" and call: "mcs_call t s = Some s'"
  shows "mcs_repr s' q"
proof -
  have q: "mcs_queue s q" "mcs_pv s" "mcs_wakes s" using r by (simp_all add: mcs_repr_def)
  have idle: "ms_pc s t = MCS_IDLE" and s': "s' = mcs_goto t (MCS_XCHG (ms_twanvisor_on s))
      (upd_node t (\<lambda>n. (mcsnode_init n)\<lparr>mn_processor_id := if ms_twanvisor_on s then Some t else None\<rparr>) s)"
    using call by (auto simp: mcs_call_def split: if_splits)
  have t: "t \<notin> set q" using mcs_queueD(3) [OF q(1), of t] idle by (simp add: mcs_inside_def mcs_waiting_def)
  have nt: "x \<noteq> t" if "mcs_head s h" "h \<in> set q" "mn_next (ms_node s h) = Some x" "q = h # r'" for h x r'
    using mcs_second [of s h r' x] q(1) that t by auto
  have "mcs_queue s' q"
  proof (rule mcs_queue_frame [OF q(1)])
    show "mcs_inside s' u \<or> mcs_waiting s' u \<longleftrightarrow> mcs_inside s u \<or> mcs_waiting s u" for u
      using idle by (auto simp: s' mcs_inside_def mcs_waiting_def)
    show "mcs_link s' a b" if "a \<in> set q" "b \<in> set q" "mcs_link s a b" for a b
      using that t by (auto simp: s' mcs_link_def Let_def split: mcs_pc.splits)
    show "mcs_head s' h" if "q = h # r'" "mcs_head s h" for h r'
    proof -
      have h: "h \<noteq> t" "h \<in> set q" using that t by auto
      have "mn_next (ms_node s h) = Some x \<Longrightarrow> x \<noteq> t" for x using nt [OF that(2) h(2) _ that(1)] .
      then show ?thesis using that(2) h(1) by (auto simp: s' mcs_head_def Let_def split: mcs_pc.splits)
    qed
    show "mn_next (ms_node s' u) = None" if "last_or None q = Some u" "mn_next (ms_node s u) = None" for u
      using that by (simp add: s' mcsnode_init_def)
  qed (simp add: s')
  moreover have "mcs_pv s'" unfolding mcs_pv_def
  proof (intro allI)
    fix u
    show "(ms_pc s' u \<noteq> MCS_IDLE \<and> (\<forall>p. ms_pc s' u \<noteq> MCS_PV_KICK p) \<and> mn_processor_id (ms_node s' u) \<noteq> None \<longrightarrow> ms_twanvisor_on s') \<and>
       (\<forall>pv. ms_pc s' u = MCS_XCHG pv \<longrightarrow> mn_state (ms_node s' u) = MCS_LOCKED \<and> mn_next (ms_node s' u) = None) \<and>
       (pc_pv (ms_pc s' u) \<longrightarrow> mn_processor_id (ms_node s' u) = Some u) \<and>
       (pc_plain_unlock (ms_pc s' u) \<longrightarrow> mn_processor_id (ms_node s' u) = None) \<and>
       (ms_vspin s' u = VSPIN_PAUSED \<longrightarrow> (\<exists>p. ms_pc s' u = MCS_PV_BLOCKED p))"
      using q(2) mcs_pvD(5) [OF q(2), of t] idle unfolding mcs_pv_def by (cases "u = t") (auto simp: s' mcsnode_init_def)
  qed
  moreover have "mcs_wakes s'"
    by (rule mcs_wakes_frame [OF q(3)]) (use idle in \<open>auto simp: s' mcs_will_sleep_def split: if_splits\<close>)
  ultimately show ?thesis by (simp add: mcs_repr_def)
qed

section \<open>Every step moves the queue\<close>

lemma mcs_step_repr:
  assumes r: "mcs_repr s q" and step: "mcs_step threshold active t s = Some s'"
  shows "\<exists>q'. mcs_repr s' q' \<and> queue_move q q'"
proof -
  have same: ?thesis if "mcs_repr s' q" using that by (auto simp: queue_move_def)
  have q: "mcs_queue s q" "mcs_pv s" using r by (simp_all add: mcs_repr_def)
  note d = mcs_step_def Let_def
  have head: "mcs_head s t" if "mcs_inside s t" using mcs_inside_head [OF q(1) that] mcs_queueD(5) [OF q(1)] by blast
  have hand: "mcs_repr s' q" if "mcs_inside s t" "mn_next (ms_node s t) = Some x" "s' = mcs_goto t (mcs_handoff pv x) s" "pc_plain_unlock (ms_pc s t) \<longleftrightarrow> \<not> pv" for x pv
    by (rule mcs_step_owner [OF r that(1,3)]) (use that in \<open>auto simp: mcs_handoff_def mcs_head_def\<close>)
  show ?thesis
  proof (cases "ms_pc s t")
    case (MCS_XCHG pv)
    let ?pc = "case ms_tail s of None \<Rightarrow> MCS_HELD | Some prev \<Rightarrow> if pv then MCS_PREV prev else MCS_LINK False prev None"
    have s': "s' = (mcs_goto t ?pc s)\<lparr>ms_tail := Some t\<rparr>" using step MCS_XCHG by (auto simp: d)
    show ?thesis using mcs_xchg_repr [OF r MCS_XCHG refl] unfolding s' by (auto simp: queue_move_def)
  next
    case (MCS_PREV p)
    then show ?thesis using step mcs_prev_repr [OF r MCS_PREV] same by (auto simp: d)
  next
    case (MCS_LINK pv p pid)
    then show ?thesis using step mcs_link_repr [OF r MCS_LINK refl] same by (auto simp: d)
  next
    case MCS_SPIN
    then have "mcs_waiting s t" by (simp add: mcs_waiting_def)
    then show ?thesis using step mcs_step_enter [OF r, of t] r same MCS_SPIN by (auto simp: d split: if_splits)
  next
    case (MCS_PV_SPIN i p)
    show ?thesis
    proof (cases "mn_state (ms_node s t) = MCS_UNLOCKED")
      case True
      have "mcs_waiting s t" using MCS_PV_SPIN by (simp add: mcs_waiting_def)
      then show ?thesis using step mcs_step_enter [OF r _ True] same True MCS_PV_SPIN by (auto simp: d)
    qed (rule same, rule mcs_step_wait [OF r step], use MCS_PV_SPIN in simp)
  next
    case (MCS_NEXT pv)
    have i: "mcs_inside s t" using MCS_NEXT by (simp add: mcs_inside_def)
    show ?thesis
    proof (cases "mn_next (ms_node s t)")
      case None
      have "mcs_repr s' q" by (rule mcs_step_owner [OF r i]) (use step MCS_NEXT None in \<open>auto simp: d mcs_head_def\<close>)
      then show ?thesis by (rule same)
    next
      case (Some x)
      then show ?thesis using hand [OF i Some, of pv] step MCS_NEXT same by (auto simp: d)
    qed
  next
    case (MCS_CMPXCHG pv)
    have i: "mcs_inside s t" using MCS_CMPXCHG by (simp add: mcs_inside_def)
    show ?thesis
    proof (cases "ms_tail s = Some t")
      case True
      then show ?thesis using step MCS_CMPXCHG mcs_leave_repr [OF r i True] by (auto simp: d queue_move_def)
    next
      case False
      have "mcs_repr s' q" by (rule mcs_step_owner [OF r i]) (use step MCS_CMPXCHG False in \<open>auto simp: d mcs_head_def\<close>)
      then show ?thesis by (rule same)
    qed
  next
    case (MCS_UNTIL_NEXT pv)
    have i: "mcs_inside s t" using MCS_UNTIL_NEXT by (simp add: mcs_inside_def)
    show ?thesis
    proof (cases "mn_next (ms_node s t)")
      case None
      then show ?thesis using step MCS_UNTIL_NEXT same r by (simp add: d)
    next
      case (Some x)
      then show ?thesis using hand [OF i Some, of pv] step MCS_UNTIL_NEXT same by (auto simp: d)
    qed
  next
    case (MCS_SET x)
    have i: "mcs_inside s t" using MCS_SET by (simp add: mcs_inside_def)
    have x: "mn_next (ms_node s t) = Some x" using head [OF i] MCS_SET by (simp add: mcs_head_def)
    obtain r' where q': "q = t # r'" using mcs_inside_head [OF q(1) i] by blast
    have "mcs_link s t x" using mcs_second [OF q(1) [unfolded q'] x] by blast
    moreover have "mn_processor_id (ms_node s t) = None" using mcs_pvD(4) [OF q(2), of t] MCS_SET by simp
    ultimately have "mn_state (ms_node s x) = MCS_LOCKED"
      by (cases "mn_state (ms_node s x)") (auto simp: mcs_link_def Let_def split: mcs_pc.splits)
    then show ?thesis using mcs_pop_repr [OF r i x] step MCS_SET by (auto simp: d)
  next
    case (MCS_PV_HANDOFF x)
    have i: "mcs_inside s t" using MCS_PV_HANDOFF by (simp add: mcs_inside_def)
    have x: "mn_next (ms_node s t) = Some x" using head [OF i] MCS_PV_HANDOFF by (simp add: mcs_head_def)
    show ?thesis
    proof (cases "mn_state (ms_node s x) = MCS_LOCKED")
      case True
      then show ?thesis using mcs_pop_repr [OF r i x] step MCS_PV_HANDOFF by (auto simp: d)
    next
      case False
      obtain r' where q': "q = t # r'" using mcs_inside_head [OF q(1) i] by blast
      have "mn_state (ms_node s x) \<noteq> MCS_UNLOCKED" using mcs_second [OF q(1) [unfolded q'] x] mcs_link_waiting [of s t x] by blast
      then have "mn_state (ms_node s x) = MCS_PAUSED" using False by (cases "mn_state (ms_node s x)") auto
      then have "mcs_repr s' q" by (intro mcs_step_owner [OF r i]) (use step MCS_PV_HANDOFF False x in \<open>auto simp: d mcs_head_def\<close>)
      then show ?thesis by (rule same)
    qed
  next
    case (MCS_PV_READ x)
    have i: "mcs_inside s t" using MCS_PV_READ by (simp add: mcs_inside_def)
    have "mcs_repr s' q" by (rule mcs_step_owner [OF r i]) (use step MCS_PV_READ head [OF i] in \<open>auto simp: d mcs_head_def\<close>)
    then show ?thesis by (rule same)
  next
    case (MCS_PV_SET x pid)
    have i: "mcs_inside s t" using MCS_PV_SET by (simp add: mcs_inside_def)
    have x: "mn_next (ms_node s t) = Some x" "mn_state (ms_node s x) = MCS_PAUSED" "pid = mn_processor_id (ms_node s x)"
      using head [OF i] MCS_PV_SET by (simp_all add: mcs_head_def)
    obtain r' where q': "q = t # r'" using mcs_inside_head [OF q(1) i] by blast
    have "mcs_link s t x" using mcs_second [OF q(1) [unfolded q'] x(1)] by blast
    then have "pc_pv (ms_pc s x)" using x(2) by (auto simp: mcs_link_def Let_def split: mcs_pc.splits)
    then have "pid = Some x" using mcs_pvD(3) [OF q(2), of x] x(3) by simp
    then show ?thesis using mcs_pop_repr [OF r i x(1)] step MCS_PV_SET by (auto simp: d)
  next
    case (MCS_PV_KICK pid)
    then show ?thesis using step mcs_kick_repr [OF r MCS_PV_KICK] same by (auto simp: d)
  qed (use step mcs_step_wait [OF r step] same in \<open>auto simp: d\<close>)
qed

lemma mcs_on_repr:
  assumes "mcs_repr s q"
  shows "mcs_repr (s\<lparr>ms_twanvisor_on := True\<rparr>) q" (is "mcs_repr ?s q")
proof -
  have "mcs_link ?s a b = mcs_link s a b" for a b by (cases "ms_pc s b") (simp_all add: mcs_link_def)
  moreover have "mcs_head ?s h = mcs_head s h" for h by (cases "ms_pc s h") (simp_all add: mcs_head_def)
  ultimately show ?thesis
    using assms by (simp add: mcs_repr_def mcs_queue_def mcs_pv_def mcs_wakes_def mcs_inside_def mcs_waiting_def mcs_will_sleep_def)
qed

lemma mcs_trans_repr: "mcs_repr s q \<Longrightarrow> mcs_trans threshold s s' \<Longrightarrow> \<exists>q'. mcs_repr s' q' \<and> queue_move q q'"
  by (erule mcs_trans.cases)
     (use mcs_call_repr mcs_uncall_repr mcs_step_repr mcs_on_repr in \<open>fastforce simp: queue_move_def\<close>)+

lemma mcs_initial_repr: "mcs_initial s \<Longrightarrow> mcs_repr s []"
  by (auto simp: mcs_initial_def mcs_repr_def mcs_queue_def mcs_pv_def mcs_wakes_def mcs_will_sleep_def mcs_inside_def mcs_waiting_def)

interpretation mcs: queue_lock "mcs_trans threshold" mcs_repr mcs_inside mcs_waiting
proof
  fix s :: "'a mcs_state" and q s' t
  assume r: "mcs_repr s q"
  then have q: "mcs_queue s q" by (simp add: mcs_repr_def)
  show "distinct q" using mcs_queueD(1) [OF q] .
  show "mcs_trans threshold s s' \<Longrightarrow> \<exists>q'. mcs_repr s' q' \<and> queue_move q q'" using mcs_trans_repr [OF r] .
  show "mcs_inside s t \<Longrightarrow> \<exists>r. q = t # r" using mcs_inside_head [OF q] .
  show "mcs_waiting s t \<Longrightarrow> t \<in> set q" using mcs_queueD(3) [OF q] by blast
qed

lemma mcs_reachable:
  assumes "mcs_initial s0" and "(mcs_trans threshold)\<^sup>*\<^sup>* s0 s"
  obtains q where "mcs_repr s q"
  using mcs.repr_steps [OF assms(2) mcs_initial_repr [OF assms(1)]] by blast

section \<open>Properties\<close>

text \<open>C34: Mutual exclusion: whatever the interleaving, and whenever the kernel finds the hypervisor, at most one agent is past the
  wait of its lock call and not yet through with its unlock call.\<close>

theorem mcs_mutual_exclusion:
  assumes "mcs_initial s0" and "(mcs_trans threshold)\<^sup>*\<^sup>* s0 s" and "mcs_inside s t" and "mcs_inside s u"
  shows "t = u"
  using mcs.mutual_exclusion [OF mcs_initial_repr [OF assms(1)] assms(2-4)] .

text \<open>First come, first served: while an agent waits, no agent that was not in the queue when it began to wait gets the lock.\<close>

theorem mcs_fair:
  assumes "mcs_initial s0" and "(mcs_trans threshold)\<^sup>*\<^sup>* s0 s" and "mcs_waiting s u" and "\<not> mcs_waiting s t" and "\<not> mcs_inside s t"
    and "(\<lambda>a b. mcs_trans threshold a b \<and> mcs_waiting b u)\<^sup>*\<^sup>* s s'"
  shows "\<not> mcs_inside s' t"
proof -
  obtain q where r: "mcs_repr s q" using mcs_reachable [OF assms(1,2)] .
  then have "t \<notin> set q" using mcs_queueD(3) [of s q t] assms(4,5) by (simp add: mcs_repr_def)
  then have "t \<notin> set (takeWhile (\<lambda>x. x \<noteq> u) q)" by (meson set_takeWhileD)
  moreover have "t \<noteq> u" using assms(3,4) by blast
  ultimately show ?thesis using mcs.no_overtaking [OF assms(6) r assms(3)] by blast
qed

text \<open>C35: No wakeup is lost: for a virtual CPU that sleeps in the hypervisor while it waits for the lock, a kick is already under
  way, or its node is still marked as paused and the agent before it in the queue, whose node points to it and has the number of a
  processor, has the lock or itself still waits for it.\<close>

theorem pv_mcs_no_lost_wakeup:
  assumes "mcs_initial s0" and "(mcs_trans threshold)\<^sup>*\<^sup>* s0 s" and "ms_pc s t = MCS_PV_BLOCKED p" and "ms_vspin s t = VSPIN_PAUSED"
  shows "(\<exists>u. ms_pc s u = MCS_PV_KICK (Some t)) \<or>
     mn_state (ms_node s t) = MCS_PAUSED \<and>
     (\<exists>a. a \<noteq> t \<and> mn_next (ms_node s a) = Some t \<and> mn_processor_id (ms_node s a) \<noteq> None \<and> (mcs_inside s a \<or> mcs_waiting s a))"
proof -
  obtain q where r: "mcs_repr s q" using mcs_reachable [OF assms(1,2)] .
  then have q: "mcs_queue s q" "mcs_pv s" "mcs_wakes s" by (simp_all add: mcs_repr_def)
  have "mn_state (ms_node s t) = MCS_PAUSED \<or> (\<exists>u. ms_pc s u = MCS_PV_KICK (Some t))"
    using q(3) assms(3,4) by (auto simp: mcs_wakes_def mcs_will_sleep_def)
  moreover have "\<exists>a. a \<noteq> t \<and> mn_next (ms_node s a) = Some t \<and> mn_processor_id (ms_node s a) \<noteq> None \<and> (mcs_inside s a \<or> mcs_waiting s a)"
    if st: "mn_state (ms_node s t) = MCS_PAUSED"
  proof -
    have w: "mcs_waiting s t" using assms(3) by (simp add: mcs_waiting_def)
    have "\<not> mcs_head s t" using assms(3) st by (simp add: mcs_head_def)
    then obtain j where j: "Suc j < length q" "q ! j \<noteq> t" "mcs_link s (q ! j) t"
      by (rule mcs_predecessor [OF q(1) w])
    have "mcs_inside s (q ! j) \<or> mcs_waiting s (q ! j)" using mcs_queueD(3) [OF q(1), of "q ! j"] j(1) by simp
    then show ?thesis using assms(3) j(2,3) by (intro exI [of _ "q ! j"]) (auto simp: mcs_link_def Let_def)
  qed
  ultimately show ?thesis by blast
qed

text \<open>The node that a step reads or writes belongs to an agent that has not left the code of the lock: no node is touched after
  the function that has it on its stack can have returned.\<close>

theorem mcs_nodes_live:
  assumes "mcs_initial s0" and "(mcs_trans threshold)\<^sup>*\<^sup>* s0 s"
    and "ms_pc s t \<in> {MCS_PREV x, MCS_LINK pv x pid, MCS_SET x, MCS_PV_HANDOFF x, MCS_PV_READ x, MCS_PV_SET x pid}"
  shows "mcs_inside s x \<or> mcs_waiting s x"
proof -
  obtain q where r: "mcs_repr s q" using mcs_reachable [OF assms(1,2)] .
  then have q: "mcs_queue s q" by (simp add: mcs_repr_def)
  show ?thesis
  proof (cases "mcs_inside s t")
    case True
    then obtain r' where q': "q = t # r'" using mcs_inside_head [OF q] by blast
    have "mcs_head s t" using mcs_queueD(5) [OF q q'] .
    then have "mn_next (ms_node s t) = Some x" using assms(3) True by (auto simp: mcs_head_def mcs_inside_def Let_def)
    then show ?thesis using mcs_second [OF q [unfolded q']] mcs_link_waiting [of s t x] by blast
  next
    case False
    then have w: "mcs_waiting s t" "\<not> mcs_head s t" using assms(3) by (auto simp: mcs_inside_def mcs_waiting_def mcs_head_def)
    then obtain a where "a \<in> set q" "mcs_link s a t"
      using mcs_place [OF q, of t] mcs_queueD(3) [OF q, of t] mcs_queueD(5) [OF q] by blast
    then show ?thesis using mcs_queueD(3) [OF q, of a] assms(3) False by (auto simp: mcs_link_def mcs_inside_def Let_def)
  qed
qed

section \<open>Applications\<close>

datatype 'a mcs_op = MCALL 'a | MUNCALL 'a | MSTEP bool 'a | MTWANVISOR

fun mcs_exec :: "nat \<Rightarrow> 'a mcs_op \<Rightarrow> 'a mcs_state \<Rightarrow> 'a mcs_state option" where
  "mcs_exec threshold (MCALL t) s = mcs_call t s"
| "mcs_exec threshold (MUNCALL t) s = mcs_uncall t s"
| "mcs_exec threshold (MSTEP active t) s = mcs_step threshold active t s"
| "mcs_exec threshold MTWANVISOR s = Some (s\<lparr>ms_twanvisor_on := True\<rparr>)"

fun mcs_run :: "nat \<Rightarrow> 'a mcs_op list \<Rightarrow> 'a mcs_state \<Rightarrow> 'a mcs_state option" where
  "mcs_run threshold [] s = Some s"
| "mcs_run threshold (x # xs) s = (case mcs_exec threshold x s of None \<Rightarrow> None | Some s \<Rightarrow> mcs_run threshold xs s)"

lemma mcs_exec_trans: "mcs_exec threshold x s = Some s' \<Longrightarrow> mcs_trans threshold s s'"
  by (cases x) (auto intro: mcs_trans.intros)

lemma mcs_run_trans: "mcs_run threshold xs s = Some s' \<Longrightarrow> (mcs_trans threshold)\<^sup>*\<^sup>* s s'"
  by (induction xs arbitrary: s)
     (auto split: option.splits dest!: mcs_exec_trans intro: converse_rtranclp_into_rtranclp)

definition mcs_start :: "nat mcs_state" where
  "mcs_start = \<lparr>ms_tail = None, ms_node = (\<lambda>_. \<lparr>mn_next = None, mn_state = MCS_LOCKED, mn_processor_id = None\<rparr>),
     ms_pc = (\<lambda>_. MCS_IDLE), ms_twanvisor_on = True, ms_vspin = (\<lambda>_. VSPIN_NONE)\<rparr>"

text \<open>Processor 0 takes the lock; processor 1 queues, finds it inactive and sleeps; processor 0 hands over.\<close>

definition mcs_ops :: "nat mcs_op list" where
  "mcs_ops = [MCALL 0, MSTEP True 0, MCALL 1, MSTEP True 1, MSTEP True 1, MSTEP True 1, MSTEP True 1, MSTEP False 1, MSTEP True 1, MSTEP True 1]"

definition mcs_sleeping :: "nat mcs_state" where
  "mcs_sleeping = the (mcs_run 0 mcs_ops mcs_start)"

definition mcs_handing :: "nat mcs_state" where
  "mcs_handing = the (mcs_run 0 [MUNCALL 0, MSTEP True 0] mcs_sleeping)"

lemmas mcs_eval = mcs_sleeping_def mcs_handing_def mcs_ops_def mcs_start_def mcs_call_def mcs_uncall_def mcs_step_def mcsnode_init_def
  mcs_handoff_def vspin_pause_def vspin_kick_def

lemma mcs_start_initial: "mcs_initial mcs_start"
  by (simp add: mcs_initial_def mcs_start_def)

lemma mcs_sleeping_reached: "(mcs_trans 0)\<^sup>*\<^sup>* mcs_start mcs_sleeping"
  by (rule mcs_run_trans [of _ mcs_ops]) (simp add: mcs_eval)

lemma mcs_handing_reached: "(mcs_trans 0)\<^sup>*\<^sup>* mcs_start mcs_handing"
  using mcs_sleeping_reached mcs_run_trans [of 0 "[MUNCALL 0, MSTEP True 0]" mcs_sleeping mcs_handing]
  by (rule rtranclp_trans) (simp add: mcs_eval)

lemma mcs_sleeping_facts:
  "ms_pc mcs_sleeping 0 = MCS_HELD" "ms_pc mcs_sleeping 1 = MCS_PV_BLOCKED (Some 0)" "ms_vspin mcs_sleeping 1 = VSPIN_PAUSED"
  "ms_pc mcs_sleeping 2 = MCS_IDLE" "ms_pc mcs_handing 0 = MCS_PV_HANDOFF 1" "ms_pc mcs_handing 1 = MCS_PV_BLOCKED (Some 0)"
  by (simp_all add: mcs_eval)

theorem mcs_mutual_exclusion_witness: "mcs_inside mcs_sleeping 0 \<and> \<not> mcs_inside mcs_sleeping 1"
  using mcs_mutual_exclusion [OF mcs_start_initial mcs_sleeping_reached, of 0 1] mcs_sleeping_facts(1)
  by (auto simp: mcs_inside_def)

theorem mcs_fair_witness: "\<not> mcs_inside mcs_sleeping 2"
  by (rule mcs_fair [OF mcs_start_initial mcs_sleeping_reached _ _ _ rtranclp.rtrancl_refl, of 1])
     (use mcs_sleeping_facts(2,4) in \<open>simp_all add: mcs_inside_def mcs_waiting_def\<close>)

theorem pv_mcs_no_lost_wakeup_witness:
  "ms_vspin mcs_sleeping 1 = VSPIN_PAUSED \<and> ((\<exists>u. ms_pc mcs_sleeping u = MCS_PV_KICK (Some 1)) \<or>
     mn_state (ms_node mcs_sleeping 1) = MCS_PAUSED \<and> (\<exists>a. a \<noteq> 1 \<and> mn_next (ms_node mcs_sleeping a) = Some 1))"
  using pv_mcs_no_lost_wakeup [OF mcs_start_initial mcs_sleeping_reached mcs_sleeping_facts(2,3)] mcs_sleeping_facts(3) by blast

theorem mcs_nodes_live_witness: "ms_pc mcs_handing 0 = MCS_PV_HANDOFF 1 \<and> (mcs_inside mcs_handing 1 \<or> mcs_waiting mcs_handing 1)"
  using mcs_nodes_live [OF mcs_start_initial mcs_handing_reached, of 0 1] mcs_sleeping_facts(5) by simp

end
