(* ===== verification/Twan_Rwlock.thy ===== *)
theory Twan_Rwlock
  imports Twan_Queue_Lock
begin

text \<open>
  The phase-fair reader-writer lock of \<open>src/subsys/sync/rwlock.c\<close>, step by step, with its interrupt variants, which
  \<open>vsched/vsync.c\<close> uses for the partition table. As for the other locks, a step of an agent ends with an access
  to a shared word, and agents interleave in any order. The words wrap around: readers count in units of 0x100 above
  the two bits of a writer. The counters \<open>rs_ri\<close>, \<open>rs_ro\<close>, \<open>rs_wi\<close>, \<open>rs_wo\<close> (readers and writers that ever arrived and
  left) and \<open>rs_base\<close> (readers that had arrived when the present writer announced itself) are not in the code.
\<close>

section \<open>Definitions: the lock\<close>

record rwlock =
  rin :: u32
  rout :: u32
  win :: u32
  wout :: u32

record rwlock_isr =
  rw_word :: rwlock
  rw_flags :: u64

definition rwlock_init :: "rwlock \<Rightarrow> rwlock" where
  "rwlock_init l = l\<lparr>rin := 0, rout := 0, win := 0, wout := 0\<rparr>"

definition rwlock_isr_init :: "rwlock_isr \<Rightarrow> rwlock_isr" where
  "rwlock_isr_init l = l\<lparr>rw_word := rwlock_init (rw_word l), rw_flags := 0\<rparr>"

definition PF_LSB :: u32 where "PF_LSB = 0xFFFFFFF0"
definition PF_READER_INC :: u32 where "PF_READER_INC = 0x100"
definition PF_WRITER_BITS :: u32 where "PF_WRITER_BITS = 0x3"
definition PF_WRITER_PRESENT :: u32 where "PF_WRITER_PRESENT = 0x2"
definition PF_PHASE_ID :: u32 where "PF_PHASE_ID = 0x1"

datatype rw_pc =
  RW_IDLE
| RW_READ_ADD
| RW_READ_UNTIL u32
| RW_READ_SAVE
| RW_READING
| RW_READ_OUT u64
| RW_WRITE_IN
| RW_WRITE_TURN u32
| RW_WRITE_ADD u32
| RW_WRITE_DRAIN u32
| RW_WRITE_SAVE
| RW_WRITING
| RW_WRITE_CLEAR u64
| RW_WRITE_OUT u64
| RW_LEAVE u64

record rw_agent = lock_cpu +
  ra_pc :: rw_pc

record 'a rw_state =
  rs_lock :: rwlock_isr
  rs_agent :: "'a \<Rightarrow> rw_agent"
  rs_ri :: nat
  rs_ro :: nat
  rs_wi :: nat
  rs_wo :: nat
  rs_base :: nat

section \<open>Definitions: the steps of an agent\<close>

definition upd_rw_agent :: "'a \<Rightarrow> (rw_agent \<Rightarrow> rw_agent) \<Rightarrow> 'a rw_state \<Rightarrow> 'a rw_state" where
  "upd_rw_agent t f s = s\<lparr>rs_agent := (rs_agent s)(t := f (rs_agent s t))\<rparr>"

abbreviation rw_goto :: "'a \<Rightarrow> rw_pc \<Rightarrow> 'a rw_state \<Rightarrow> 'a rw_state" where
  "rw_goto t pc \<equiv> upd_rw_agent t (\<lambda>a. a\<lparr>ra_pc := pc\<rparr>)"

definition upd_rw :: "(rwlock \<Rightarrow> rwlock) \<Rightarrow> 'a rw_state \<Rightarrow> 'a rw_state" where
  "upd_rw f s = s\<lparr>rs_lock := (rs_lock s)\<lparr>rw_word := f (rw_word (rs_lock s))\<rparr>\<rparr>"

text \<open>Calling \<open>rw_lock_read\<close>, \<open>rw_lock_write\<close> or their interrupt variants, and the unlock functions that belong to them; those
  read the flags in the lock first.\<close>

definition rw_call :: "lock_mode \<Rightarrow> bool \<Rightarrow> 'a \<Rightarrow> 'a rw_state \<Rightarrow> 'a rw_state option" where
  "rw_call mode write t s =
     (if ra_pc (rs_agent s t) = RW_IDLE
      then Some (rw_goto t (if write then RW_WRITE_IN else RW_READ_ADD) (upd_rw_agent t (protect mode) s)) else None)"

definition rw_uncall :: "'a \<Rightarrow> 'a rw_state \<Rightarrow> 'a rw_state option" where
  "rw_uncall t s = (case ra_pc (rs_agent s t) of
     RW_READING \<Rightarrow> Some (rw_goto t (RW_READ_OUT (rw_flags (rs_lock s))) s)
   | RW_WRITING \<Rightarrow> Some (rw_goto t (RW_WRITE_CLEAR (rw_flags (rs_lock s))) s)
   | _ \<Rightarrow> None)"

definition rw_read_acquired :: "'a \<Rightarrow> 'a rw_state \<Rightarrow> 'a rw_state" where
  "rw_read_acquired t s = rw_goto t (case sa_mode (rs_agent s t) of DISABLE_PREEMPTION \<Rightarrow> RW_READING | ISR_SAVE \<Rightarrow> RW_READ_SAVE) s"

definition rw_write_acquired :: "'a \<Rightarrow> 'a rw_state \<Rightarrow> 'a rw_state" where
  "rw_write_acquired t s = rw_goto t (case sa_mode (rs_agent s t) of DISABLE_PREEMPTION \<Rightarrow> RW_WRITING | ISR_SAVE \<Rightarrow> RW_WRITE_SAVE) s"

definition rw_step :: "'a \<Rightarrow> 'a rw_state \<Rightarrow> 'a rw_state option" where
  "rw_step t s = (let l = rw_word (rs_lock s); a = rs_agent s t in
     case ra_pc a of
       RW_IDLE \<Rightarrow> None
     | RW_READ_ADD \<Rightarrow>
         (let wp = rin l AND PF_WRITER_BITS;
              s' = upd_rw (\<lambda>l. l\<lparr>rin := rin l + PF_READER_INC\<rparr>) (s\<lparr>rs_ri := Suc (rs_ri s)\<rparr>)
          in Some (if wp = 0 then rw_read_acquired t s' else rw_goto t (RW_READ_UNTIL wp) s'))
     | RW_READ_UNTIL wp \<Rightarrow> Some (if rin l AND PF_WRITER_BITS \<noteq> wp then rw_read_acquired t s else s)
     | RW_READ_SAVE \<Rightarrow> Some (rw_goto t RW_READING (s\<lparr>rs_lock := (rs_lock s)\<lparr>rw_flags := sa_saved a\<rparr>\<rparr>))
     | RW_READING \<Rightarrow> None
     | RW_READ_OUT flags \<Rightarrow>
         Some (rw_goto t (RW_LEAVE flags) (upd_rw (\<lambda>l. l\<lparr>rout := rout l + PF_READER_INC\<rparr>) (s\<lparr>rs_ro := Suc (rs_ro s)\<rparr>)))
     | RW_WRITE_IN \<Rightarrow>
         Some (rw_goto t (RW_WRITE_TURN (win l)) (upd_rw (\<lambda>l. l\<lparr>win := win l + 1\<rparr>) (s\<lparr>rs_wi := Suc (rs_wi s)\<rparr>)))
     | RW_WRITE_TURN ticket \<Rightarrow> Some (if ticket = wout l then rw_goto t (RW_WRITE_ADD ticket) s else s)
     | RW_WRITE_ADD ticket \<Rightarrow>
         Some (rw_goto t (RW_WRITE_DRAIN (rin l))
           (upd_rw (\<lambda>l. l\<lparr>rin := rin l + ((ticket AND PF_PHASE_ID) OR PF_WRITER_PRESENT)\<rparr>) (s\<lparr>rs_base := rs_ri s\<rparr>)))
     | RW_WRITE_DRAIN ticket \<Rightarrow> Some (if ticket = rout l then rw_write_acquired t s else s)
     | RW_WRITE_SAVE \<Rightarrow> Some (rw_goto t RW_WRITING (s\<lparr>rs_lock := (rs_lock s)\<lparr>rw_flags := sa_saved a\<rparr>\<rparr>))
     | RW_WRITING \<Rightarrow> None
     | RW_WRITE_CLEAR flags \<Rightarrow> Some (rw_goto t (RW_WRITE_OUT flags) (upd_rw (\<lambda>l. l\<lparr>rin := rin l AND PF_LSB\<rparr>) s))
     | RW_WRITE_OUT flags \<Rightarrow>
         Some (rw_goto t (RW_LEAVE flags) (upd_rw (\<lambda>l. l\<lparr>wout := wout l + 1\<rparr>) (s\<lparr>rs_wo := Suc (rs_wo s)\<rparr>)))
     | RW_LEAVE flags \<Rightarrow> Some (rw_goto t RW_IDLE (upd_rw_agent t (unprotect flags) s)))"

section \<open>Executions\<close>

inductive rw_trans :: "'a set \<Rightarrow> 'a rw_state \<Rightarrow> 'a rw_state \<Rightarrow> bool" for A where
  call: "t \<in> A \<Longrightarrow> rw_call mode write t s = Some s' \<Longrightarrow> rw_trans A s s'"
| uncall: "t \<in> A \<Longrightarrow> rw_uncall t s = Some s' \<Longrightarrow> rw_trans A s s'"
| step: "t \<in> A \<Longrightarrow> rw_step t s = Some s' \<Longrightarrow> rw_trans A s s'"

definition rw_initial :: "'a rw_state \<Rightarrow> bool" where
  "rw_initial s \<longleftrightarrow> (\<exists>l. rs_lock s = rwlock_isr_init l) \<and> rs_ri s = 0 \<and> rs_ro s = 0 \<and> rs_wi s = 0 \<and> rs_wo s = 0 \<and>
     (\<forall>t. ra_pc (rs_agent s t) = RW_IDLE)"

fun pc_reading :: "rw_pc \<Rightarrow> bool" where
  "pc_reading RW_READ_SAVE = True"
| "pc_reading RW_READING = True"
| "pc_reading (RW_READ_OUT _) = True"
| "pc_reading _ = False"

fun pc_writing :: "rw_pc \<Rightarrow> bool" where
  "pc_writing RW_WRITE_SAVE = True"
| "pc_writing RW_WRITING = True"
| "pc_writing (RW_WRITE_CLEAR _) = True"
| "pc_writing _ = False"

definition rw_reads :: "'a rw_state \<Rightarrow> 'a \<Rightarrow> bool" where
  "rw_reads s t \<longleftrightarrow> pc_reading (ra_pc (rs_agent s t))"

definition rw_writes :: "'a rw_state \<Rightarrow> 'a \<Rightarrow> bool" where
  "rw_writes s t \<longleftrightarrow> pc_writing (ra_pc (rs_agent s t))"

section \<open>The words\<close>

definition phase :: "nat \<Rightarrow> u32" where
  "phase n = (of_nat n AND PF_PHASE_ID) OR PF_WRITER_PRESENT"

lemma phase_cases: "phase n = (if even n then 2 else 3)"
proof -
  have "(of_nat n AND 1 :: u32) = (if even n then 0 else 1)"
    by (rule bit_word_eqI) (auto simp: bit_simps bit_1_iff bit_of_nat_iff bit_0)
  then show ?thesis by (simp add: phase_def PF_PHASE_ID_def PF_WRITER_PRESENT_def)
qed

lemma phase_simps [simp]: "phase n \<noteq> 0" "phase (Suc n) \<noteq> phase n" "phase n \<noteq> phase (Suc n)" "phase (Suc (Suc n)) = phase n"
  by (simp_all add: phase_cases)

lemma phase_low: "b = 0 \<or> b = phase n \<Longrightarrow> bit b i \<Longrightarrow> i < 2"
proof -
  assume "b = 0 \<or> b = phase n" "bit b i"
  then have "b = b AND mask 2" by (auto simp: phase_cases mask_eq_exp_minus_1 split: if_splits)
  then have "bit (b AND mask 2) i" using \<open>bit b i\<close> by simp
  then show "i < 2" by (simp add: bit_simps)
qed

lemma bit_units:
  fixes w b :: u32
  assumes "b = 0 \<or> b = phase n"
  shows "bit (256 * w + b) i \<longleftrightarrow> i < 32 \<and> (if i < 8 then bit b i else bit w (i - 8))"
proof -
  have "push_bit 8 w AND b = 0" by (rule bit_word_eqI) (auto simp: bit_simps dest: phase_low [OF assms])
  then have "256 * w + b = push_bit 8 w OR b" by (simp add: disjunctive_add_eq_or push_bit_eq_mult mult.commute)
  then show ?thesis using phase_low [OF assms, of i] bit_imp_le_length [of b i] by (auto simp: bit_simps)
qed

lemma units_bits:
  fixes w b :: u32
  assumes b: "b = 0 \<or> b = phase n"
  shows "(256 * w + b) AND PF_WRITER_BITS = b" and "(256 * w + b) AND PF_LSB = 256 * w"
proof -
  have m: "PF_WRITER_BITS = mask 2" "PF_LSB = NOT (mask 4)" by (simp_all add: PF_WRITER_BITS_def PF_LSB_def mask_eq_exp_minus_1)
  show "(256 * w + b) AND PF_WRITER_BITS = b"
    by (rule bit_word_eqI) (auto simp: m bit_and_iff bit_units [OF b] bit_mask_iff dest: phase_low [OF b])
  show "(256 * w + b) AND PF_LSB = 256 * w"
  proof (rule bit_word_eqI)
    fix i assume "i < LENGTH(32)"
    moreover have "bit (256 * w) i \<longleftrightarrow> i < 32 \<and> i \<ge> 8 \<and> bit w (i - 8)" using bit_units [of 0 0 w i] by auto
    ultimately show "bit ((256 * w + b) AND PF_LSB) i = bit (256 * w) i"
      using phase_low [OF b, of i] by (auto simp: m bit_and_iff bit_not_iff bit_units [OF b] bit_mask_iff)
  qed
qed

lemma units_eq:
  assumes "256 * of_nat a = (256 * of_nat b :: u32)" and "a \<le> b" and "b < a + 2 ^ 24"
  shows "a = b"
proof -
  have "of_nat (256 * a) = (of_nat (256 * b) :: u32)" using assms(1) by simp
  then have "256 * a = 256 * b"
    using assms(2,3) by (auto simp: word_unat_eq_iff unat_of_nat mod_eq_iff_dvd_symdiff_nat simp del: of_nat_mult dest!: dvd_imp_le)
  then show ?thesis by simp
qed

section \<open>The invariant\<close>

fun pc_reader :: "rw_pc \<Rightarrow> bool" where
  "pc_reader (RW_READ_UNTIL _) = True"
| "pc_reader pc = pc_reading pc"

fun pc_present :: "rw_pc \<Rightarrow> bool" where
  "pc_present (RW_WRITE_DRAIN _) = True"
| "pc_present pc = pc_writing pc"

fun pc_writer :: "rw_pc \<Rightarrow> bool" where
  "pc_writer (RW_WRITE_TURN _) = True"
| "pc_writer (RW_WRITE_ADD _) = True"
| "pc_writer (RW_WRITE_OUT _) = True"
| "pc_writer pc = pc_present pc"

text \<open>All of it over the program counters \<open>P\<close>, so that the step of an agent is an update of \<open>P\<close>: the readers, those of them that
  do not wait for writer number \<open>n\<close>, whether a writer has announced itself and whether one has withdrawn but not yet
  passed on the turn.\<close>

definition readers :: "('a \<Rightarrow> rw_pc) \<Rightarrow> 'a set" where
  "readers P = {t. pc_reader (P t)}"

definition free :: "nat \<Rightarrow> ('a \<Rightarrow> rw_pc) \<Rightarrow> 'a set" where
  "free n P = {t. pc_reader (P t) \<and> P t \<noteq> RW_READ_UNTIL (phase n)}"

definition present :: "('a \<Rightarrow> rw_pc) \<Rightarrow> bool" where
  "present P \<longleftrightarrow> (\<exists>t. pc_present (P t))"

definition leaving :: "('a \<Rightarrow> rw_pc) \<Rightarrow> bool" where
  "leaving P \<longleftrightarrow> (\<exists>t f. P t = RW_WRITE_OUT f)"

text \<open>The writers in the order of their tickets.\<close>

definition pc_place :: "nat \<Rightarrow> nat \<Rightarrow> rw_pc \<Rightarrow> bool" where
  "pc_place wo i pc \<longleftrightarrow> pc = RW_WRITE_TURN (of_nat (wo + i)) \<or> i = 0 \<and> (pc = RW_WRITE_ADD (of_nat wo) \<or> pc_present pc \<or> (\<exists>f. pc = RW_WRITE_OUT f))"

definition rw_writers :: "'a set \<Rightarrow> ('a \<Rightarrow> rw_pc) \<Rightarrow> nat \<Rightarrow> 'a list \<Rightarrow> bool" where
  "rw_writers A P wo W \<longleftrightarrow> distinct W \<and> set W \<subseteq> A \<and> (\<forall>t. t \<in> set W \<longleftrightarrow> pc_writer (P t)) \<and>
     (\<forall>i < length W. pc_place wo i (P (W ! i)))"

text \<open>The readers that wait do so for the present writer or for the one before it.\<close>

definition rw_untils :: "('a \<Rightarrow> rw_pc) \<Rightarrow> nat \<Rightarrow> bool" where
  "rw_untils P wo \<longleftrightarrow> (\<forall>t wp. P t = RW_READ_UNTIL wp \<longrightarrow>
     (if present P then wp \<in> {phase wo, phase (Suc wo)} else if leaving P then wp = phase wo else wp = phase (Suc wo)))"

definition rw_inv :: "'a set \<Rightarrow> ('a \<Rightarrow> rw_pc) \<Rightarrow> rwlock \<Rightarrow> nat \<Rightarrow> nat \<Rightarrow> nat \<Rightarrow> nat \<Rightarrow> nat \<Rightarrow> 'a list \<Rightarrow> bool" where
  "rw_inv A P l ri ro wi wo base W \<longleftrightarrow> rw_writers A P wo W \<and> readers P \<subseteq> A \<and>
     wi = wo + length W \<and> ri = ro + card (readers P) \<and>
     win l = of_nat wi \<and> wout l = of_nat wo \<and> rout l = 256 * of_nat ro \<and>
     rin l = 256 * of_nat ri + (if present P then phase wo else 0) \<and>
     (present P \<longrightarrow> base = ro + card (free wo P)) \<and>
     (\<forall>t v. P t = RW_WRITE_DRAIN v \<longrightarrow> v = 256 * of_nat base) \<and>
     ((\<exists>t. pc_writing (P t)) \<longrightarrow> free wo P = {}) \<and> rw_untils P wo"

definition rw_pcs :: "'a rw_state \<Rightarrow> 'a \<Rightarrow> rw_pc" where
  "rw_pcs s = (\<lambda>t. ra_pc (rs_agent s t))"

definition rw_repr :: "'a set \<Rightarrow> 'a rw_state \<Rightarrow> 'a list \<Rightarrow> bool" where
  "rw_repr A s W \<longleftrightarrow> rw_inv A (rw_pcs s) (rw_word (rs_lock s)) (rs_ri s) (rs_ro s) (rs_wi s) (rs_wo s) (rs_base s) W"

lemma readers_upd: "readers (P(t := pc)) = (if pc_reader pc then insert t (readers P) else readers P - {t})"
  by (auto simp: readers_def)

lemma free_upd: "free n (P(t := pc)) = (if pc_reader pc \<and> pc \<noteq> RW_READ_UNTIL (phase n) then insert t (free n P) else free n P - {t})"
  by (auto simp: free_def)

lemma free_readers: "free n P \<subseteq> readers P"
  by (auto simp: free_def readers_def)

lemma reader_not_writer: "pc_reader pc \<Longrightarrow> \<not> pc_writer pc" "pc_present pc \<Longrightarrow> pc_writer pc" "pc_writing pc \<Longrightarrow> pc_present pc" "pc_reading pc \<Longrightarrow> pc_reader pc"
  by (cases pc; simp)+

lemma present_upd: "\<not> pc_writer (P t) \<Longrightarrow> \<not> pc_writer pc \<Longrightarrow> present (P(t := pc)) = present P"
  "\<not> pc_writer (P t) \<Longrightarrow> \<not> pc_writer pc \<Longrightarrow> leaving (P(t := pc)) = leaving P"
  unfolding present_def leaving_def by (metis fun_upd_apply reader_not_writer(2)) (metis fun_upd_apply pc_writer.simps(3))

lemma rw_writers_upd:
  assumes "rw_writers A P wo W" and "\<not> pc_writer (P t)" and "\<not> pc_writer pc"
  shows "rw_writers A (P(t := pc)) wo W"
proof -
  have "t \<notin> set W" using assms(1,2) by (simp add: rw_writers_def)
  then have "W ! i \<noteq> t" if "i < length W" for i using that by (metis nth_mem)
  then show ?thesis using assms by (simp add: rw_writers_def)
qed

lemma rw_invD:
  assumes "rw_inv A P l ri ro wi wo base W"
  shows "rw_writers A P wo W" and "readers P \<subseteq> A" and "wi = wo + length W" and "ri = ro + card (readers P)"
    and "win l = of_nat wi" and "wout l = of_nat wo" and "rout l = 256 * of_nat ro" and "rin l = 256 * of_nat ri + (if present P then phase wo else 0)"
    and "present P \<Longrightarrow> base = ro + card (free wo P)" and "P t = RW_WRITE_DRAIN v \<Longrightarrow> v = 256 * of_nat base"
    and "pc_writing (P t) \<Longrightarrow> free wo P = {}"
    and "rw_untils P wo"
  using assms unfolding rw_inv_def by (simp_all, blast)

lemma rw_invI:
  assumes "rw_writers A P wo W" and "readers P \<subseteq> A" and "wi = wo + length W" and "ri = ro + card (readers P)"
    and "win l = of_nat wi" and "wout l = of_nat wo" and "rout l = 256 * of_nat ro" and "rin l = 256 * of_nat ri + (if present P then phase wo else 0)"
    and "present P \<Longrightarrow> base = ro + card (free wo P)" and "\<And>t v. P t = RW_WRITE_DRAIN v \<Longrightarrow> v = 256 * of_nat base"
    and "\<And>t. pc_writing (P t) \<Longrightarrow> free wo P = {}" and "rw_untils P wo"
  shows "rw_inv A P l ri ro wi wo base W"
  using assms unfolding rw_inv_def by blast

lemma rw_inv_bits: "rw_inv A P l ri ro wi wo base W \<Longrightarrow> rin l AND PF_WRITER_BITS = (if present P then phase wo else 0)"
  by (simp add: rw_invD(8) units_bits(1) [where n = wo])

lemma rw_writersD:
  assumes "rw_writers A P wo W"
  shows "distinct W" and "set W \<subseteq> A" and "t \<in> set W \<longleftrightarrow> pc_writer (P t)"
    and "i < length W \<Longrightarrow> pc_place wo i (P (W ! i))"
  using assms unfolding rw_writers_def by simp_all

text \<open>A writer that is past its turn is the first one.\<close>

lemma rw_writer_head:
  assumes "rw_writers A P wo W" and "pc_writer (P t)" and "\<And>k. P t \<noteq> RW_WRITE_TURN k"
  obtains r where "W = t # r"
proof -
  obtain i where i: "i < length W" "W ! i = t" using assms(2) rw_writersD(3) [OF assms(1), of t] by (metis in_set_conv_nth)
  then have "i = 0" using rw_writersD(4) [OF assms(1) i(1)] assms(3) by (auto simp: pc_place_def)
  then show thesis using i that by (cases W) auto
qed

lemma rw_untils_upd:
  assumes "rw_untils P wo" and "\<not> pc_writer (P t)" "\<not> pc_writer pc" and "\<And>wp. pc = RW_READ_UNTIL wp \<Longrightarrow> present P \<and> wp = phase wo"
  shows "rw_untils (P(t := pc)) wo"
  unfolding rw_untils_def present_upd [of P t, OF assms(2,3)]
proof (intro allI impI)
  fix u wp assume u: "(P(t := pc)) u = RW_READ_UNTIL wp"
  show "if present P then wp \<in> {phase wo, phase (Suc wo)} else if leaving P then wp = phase wo else wp = phase (Suc wo)"
  proof (cases "u = t")
    case True
    then show ?thesis using u assms(4) by simp
  next
    case False
    then have "P u = RW_READ_UNTIL wp" using u by simp
    with assms(1) show ?thesis unfolding rw_untils_def by blast
  qed
qed

text \<open>A step outside the queue of writers that neither arrives nor leaves as a reader.\<close>

lemma rw_inv_neutral:
  assumes r: "rw_inv A P l ri ro wi wo base W" and w: "\<not> pc_writer (P t)" "\<not> pc_writer pc" and rd: "pc_reading (P t) \<longleftrightarrow> pc_reading pc"
    and u: "\<And>wp. P t \<noteq> RW_READ_UNTIL wp" "\<And>wp. pc \<noteq> RW_READ_UNTIL wp"
  shows "rw_inv A (P(t := pc)) l ri ro wi wo base W"
proof -
  have e: "pc_reader (P t) \<longleftrightarrow> pc_reading (P t)" "pc_reader pc \<longleftrightarrow> pc_reading pc" using u by (cases "P t"; auto) (cases pc; auto simp: u)
  have rs: "readers (P(t := pc)) = readers P" using rd e by (auto simp: readers_def)
  have fr: "free wo (P(t := pc)) = free wo P" using rd e u by (auto simp: free_def)
  have "\<not> pc_writing pc" "\<forall>v. pc \<noteq> RW_WRITE_DRAIN v" using w(2) by (auto dest: reader_not_writer)
  moreover have "rw_untils (P(t := pc)) wo" by (rule rw_untils_upd [OF rw_invD(12) [OF r]]) (use w u in \<open>auto split: if_splits\<close>)
  moreover have "free wo P = {}" if "pc_writing ((P(t := pc)) v)" for v
    using that rw_invD(11) [OF r, of v] calculation(1) by (auto split: if_splits)
  ultimately show ?thesis
    by (intro rw_invI rw_writers_upd [OF rw_invD(1) [OF r], of t, OF w])
       (use rw_invD [OF r] in \<open>auto simp: rs fr present_upd [of P t, OF w] split: if_splits\<close>)
qed

section \<open>Steps of readers\<close>

lemma rw_inv_arrive:
  assumes r: "rw_inv A P l ri ro wi wo base W" and A: "finite A" "t \<in> A" and t: "P t = RW_READ_ADD"
    and pc: "pc = (if present P then RW_READ_UNTIL (phase wo) else pc')" "pc' \<in> {RW_READ_SAVE, RW_READING}"
  shows "rw_inv A (P(t := pc)) (l\<lparr>rin := rin l + PF_READER_INC\<rparr>) (Suc ri) ro wi wo base W"
proof -
  note d = rw_invD [OF r]
  have w: "\<not> pc_writer (P t)" "\<not> pc_writer pc" "pc_reader pc" using t pc by (auto split: if_splits)
  have nr: "t \<notin> readers P" "t \<notin> free wo P" using t by (auto simp: readers_def free_def)
  have "finite (readers P)" using d(2) A(1) finite_subset by blast
  then have c: "card (readers (P(t := pc))) = Suc (card (readers P))" using nr w(3) by (simp add: readers_upd)
  have fr: "present P \<Longrightarrow> free wo (P(t := pc)) = free wo P" using nr pc by (simp add: free_upd)
  have wr: "present P" if "pc_writing (P v)" for v using that by (auto simp: present_def dest: reader_not_writer)
  have nw: "\<not> pc_writing pc" "\<forall>v. pc \<noteq> RW_WRITE_DRAIN v" using w(2) by (auto dest: reader_not_writer)
  have "rw_untils (P(t := pc)) wo" by (rule rw_untils_upd [OF d(12)]) (use w pc in \<open>auto split: if_splits\<close>)
  moreover have "free wo (P(t := pc)) = {}" if "pc_writing ((P(t := pc)) v)" for v
  proof -
    have "pc_writing (P v)" using that nw by (cases "v = t") auto
    then show ?thesis using d(11) [of v] fr [OF wr [of v]] by simp
  qed
  ultimately show ?thesis
    by (intro rw_invI rw_writers_upd [OF d(1), of t, OF w(1,2)])
       (use d(2-10) A(2) w(3) nw c fr in \<open>auto simp: PF_READER_INC_def algebra_simps present_upd [of P t, OF w(1,2)] readers_upd split: if_splits\<close>)
qed

text \<open>A reader comes in when the bits are not those that it saw: it does not wait for the present writer.\<close>

lemma rw_inv_read:
  assumes r: "rw_inv A P l ri ro wi wo base W" and t: "P t = RW_READ_UNTIL wp" "rin l AND PF_WRITER_BITS \<noteq> wp"
    and pc: "pc \<in> {RW_READ_SAVE, RW_READING}"
  shows "rw_inv A (P(t := pc)) l ri ro wi wo base W"
proof -
  note d = rw_invD [OF r]
  have w: "\<not> pc_writer (P t)" "\<not> pc_writer pc" "pc_reader pc" using t pc by auto
  have rs: "readers (P(t := pc)) = readers P" using t w(3) by (auto simp: readers_def)
  have ne: "present P \<Longrightarrow> wp \<noteq> phase wo" using t(2) rw_inv_bits [OF r] by auto
  have fr: "present P \<Longrightarrow> free wo (P(t := pc)) = free wo P" using t ne pc by (auto simp: free_def)
  have wr: "present P" if "pc_writing (P v)" for v using that by (auto simp: present_def dest: reader_not_writer)
  have nw: "\<not> pc_writing pc" "\<forall>v. pc \<noteq> RW_WRITE_DRAIN v" "\<forall>v. pc \<noteq> RW_READ_UNTIL v" using pc by auto
  have "rw_untils (P(t := pc)) wo" by (rule rw_untils_upd [OF d(12)]) (use w nw in \<open>auto split: if_splits\<close>)
  moreover have "free wo (P(t := pc)) = {}" if "pc_writing ((P(t := pc)) v)" for v
  proof -
    have "pc_writing (P v)" using that nw by (cases "v = t") auto
    then show ?thesis using d(11) [of v] fr [OF wr [of v]] by simp
  qed
  ultimately show ?thesis
    by (intro rw_invI rw_writers_upd [OF d(1), of t, OF w(1,2)])
       (use d(2-10) nw fr in \<open>auto simp: present_upd [of P t, OF w(1,2)] rs split: if_splits\<close>)
qed

lemma rw_inv_depart:
  assumes r: "rw_inv A P l ri ro wi wo base W" and A: "finite A" and t: "P t = RW_READ_OUT f"
  shows "rw_inv A (P(t := RW_LEAVE f)) (l\<lparr>rout := rout l + PF_READER_INC\<rparr>) ri (Suc ro) wi wo base W"
proof -
  note d = rw_invD [OF r]
  let ?pc = "RW_LEAVE f"
  have w: "\<not> pc_writer (P t)" "\<not> pc_writer ?pc" using t by auto
  have fin: "finite (readers P)" using d(2) A finite_subset by blast
  have m: "t \<in> readers P" "t \<in> free wo P" using t by (simp_all add: readers_def free_def)
  then have c: "card (readers P) = Suc (card (readers P - {t}))" "card (free wo P) = Suc (card (free wo P - {t}))"
    using fin finite_subset [OF free_readers [of wo P] fin] by (simp_all only: card_Suc_Diff1)
  have nw: "\<not> pc_writing (P v)" for v using d(11) [of v] m(2) by blast
  have "rw_untils (P(t := ?pc)) wo" by (rule rw_untils_upd [OF d(12)]) (use w in \<open>auto split: if_splits\<close>)
  then show ?thesis
    by (intro rw_invI rw_writers_upd [OF d(1), of t, OF w])
       (use d(2-10) nw c in \<open>auto simp: PF_READER_INC_def algebra_simps present_upd [of P t, OF w] readers_upd free_upd split: if_splits\<close>)
qed

section \<open>Steps of writers\<close>

lemma rw_solo:
  assumes "rw_writers A P wo (t # r)" and "u \<noteq> t"
  shows "\<not> pc_present (P u)" and "P u \<noteq> RW_WRITE_OUT f"
proof -
  have "\<exists>k. P u = RW_WRITE_TURN k" if "pc_writer (P u)"
  proof -
    have "u \<in> set (t # r)" using that rw_writersD(3) [OF assms(1), of u] by blast
    then obtain i where i: "i < length (t # r)" "(t # r) ! i = u" by (metis in_set_conv_nth)
    then have "i \<noteq> 0" using assms(2) by (cases i) auto
    then show ?thesis using rw_writersD(4) [OF assms(1) i(1)] i(2) by (auto simp: pc_place_def)
  qed
  note turn = this
  show "\<not> pc_present (P u)"
  proof
    assume p: "pc_present (P u)"
    then obtain k where "P u = RW_WRITE_TURN k" using turn reader_not_writer(2) by blast
    then show False using p by simp
  qed
  show "P u \<noteq> RW_WRITE_OUT f"
  proof
    assume p: "P u = RW_WRITE_OUT f"
    then obtain k where "P u = RW_WRITE_TURN k" using turn by auto
    then show False using p by simp
  qed
qed

lemma rw_head_upd:
  assumes "rw_writers A P wo (t # r)"
  shows "present (P(t := pc)) \<longleftrightarrow> pc_present pc" and "leaving (P(t := pc)) \<longleftrightarrow> (\<exists>f. pc = RW_WRITE_OUT f)"
    and "present P \<longleftrightarrow> pc_present (P t)" and "leaving P \<longleftrightarrow> (\<exists>f. P t = RW_WRITE_OUT f)"
proof -
  note solo = rw_solo [OF assms]
  show "present (P(t := pc)) \<longleftrightarrow> pc_present pc" using solo(1) by (auto simp: present_def split: if_splits)
  show "leaving (P(t := pc)) \<longleftrightarrow> (\<exists>f. pc = RW_WRITE_OUT f)" using solo(2) by (auto simp: leaving_def)
  show "present P \<longleftrightarrow> pc_present (P t)" using solo(1) by (metis present_def)
  show "leaving P \<longleftrightarrow> (\<exists>f. P t = RW_WRITE_OUT f)" using solo(2) by (metis leaving_def)
qed

lemma rw_writers_head:
  assumes w: "rw_writers A P wo (t # r)" and pc: "pc_place wo 0 pc"
  shows "rw_writers A (P(t := pc)) wo (t # r)"
  unfolding rw_writers_def
proof (intro conjI allI impI)
  note d = rw_writersD [OF w]
  show "distinct (t # r)" "set (t # r) \<subseteq> A" using d(1,2) .
  have "pc_writer pc" using pc by (auto simp: pc_place_def dest: reader_not_writer)
  then show "u \<in> set (t # r) \<longleftrightarrow> pc_writer ((P(t := pc)) u)" for u using d(3) [of u] by auto
  fix i assume i: "i < length (t # r)"
  show "pc_place wo i ((P(t := pc)) ((t # r) ! i))"
  proof (cases i)
    case (Suc j)
    then have "(t # r) ! i \<noteq> t" using d(1) i by auto
    then show ?thesis using d(4) [OF i] by simp
  qed (use pc in simp)
qed

lemma rw_inv_writer_sets:
  assumes "pc_writer (P t)" and "\<not> pc_reader pc"
  shows "readers (P(t := pc)) = readers P" and "free n (P(t := pc)) = free n P"
proof -
  have "\<not> pc_reader (P t)" using assms(1) reader_not_writer(1) by blast
  then show "readers (P(t := pc)) = readers P" "free n (P(t := pc)) = free n P" using assms(2) by (auto simp: readers_def free_def)
qed

text \<open>The untils after a step of the first writer.\<close>

lemma rw_untils_head:
  assumes "rw_writers A P wo (t # r)" and "\<And>u wp. P u = RW_READ_UNTIL wp \<Longrightarrow>
      (if pc_present pc then wp \<in> {phase wo, phase (Suc wo)} else if \<exists>f. pc = RW_WRITE_OUT f then wp = phase wo else wp = phase (Suc wo))"
    and "\<And>wp. pc \<noteq> RW_READ_UNTIL wp"
  shows "rw_untils (P(t := pc)) wo"
  using assms(2,3) unfolding rw_untils_def rw_head_upd(1,2) [OF assms(1)] by (metis fun_upd_apply)

lemma rw_untilsD:
  assumes "rw_untils P wo" and "P u = RW_READ_UNTIL wp"
  shows "present P \<Longrightarrow> wp \<in> {phase wo, phase (Suc wo)}" and "\<not> present P \<Longrightarrow> leaving P \<Longrightarrow> wp = phase wo"
    and "\<not> present P \<Longrightarrow> \<not> leaving P \<Longrightarrow> wp = phase (Suc wo)"
  using assms unfolding rw_untils_def by metis+

lemma rw_inv_enqueue:
  assumes r: "rw_inv A P l ri ro wi wo base W" and A: "t \<in> A" and t: "P t = RW_WRITE_IN" and k: "k = win l"
  shows "t \<notin> set W" and "rw_inv A (P(t := RW_WRITE_TURN k)) (l\<lparr>win := win l + 1\<rparr>) ri ro (Suc wi) wo base (W @ [t])"
proof -
  note d = rw_invD [OF r]
  let ?pc = "RW_WRITE_TURN k"
  show nt: "t \<notin> set W" using rw_writersD(3) [OF d(1), of t] t by simp
  have n: "W ! i \<noteq> t" if "i < length W" for i using nt that by (metis nth_mem)
  have "pc_present ((P(t := ?pc)) u) \<longleftrightarrow> pc_present (P u)" "(P(t := ?pc)) u = RW_WRITE_OUT f \<longleftrightarrow> P u = RW_WRITE_OUT f"
    "pc_writing ((P(t := ?pc)) u) \<longleftrightarrow> pc_writing (P u)" "(P(t := ?pc)) u = RW_WRITE_DRAIN v \<longleftrightarrow> P u = RW_WRITE_DRAIN v"
    "(P(t := ?pc)) u = RW_READ_UNTIL v \<longleftrightarrow> P u = RW_READ_UNTIL v" for u f v using t by (cases "u = t"; simp)+
  note same = this
  have p: "present (P(t := ?pc)) = present P" "leaving (P(t := ?pc)) = leaving P" unfolding present_def leaving_def same by simp_all
  have sets: "readers (P(t := ?pc)) = readers P" "free wo (P(t := ?pc)) = free wo P" using t by (auto simp: readers_def free_def)
  have "rw_writers A (P(t := ?pc)) wo (W @ [t])" unfolding rw_writers_def
  proof (intro conjI allI impI)
    note w = rw_writersD [OF d(1)]
    show "distinct (W @ [t])" "set (W @ [t]) \<subseteq> A" using w(1,2) nt A by simp_all
    show "u \<in> set (W @ [t]) \<longleftrightarrow> pc_writer ((P(t := ?pc)) u)" for u using w(3) [of u] by auto
    show "pc_place wo i ((P(t := ?pc)) ((W @ [t]) ! i))" if "i < length (W @ [t])" for i
      using that w(4) [of i] n [of i] d(3,5) k by (cases "i < length W") (auto simp: nth_append pc_place_def less_Suc_eq)
  qed
  moreover have "rw_untils (P(t := ?pc)) wo" using d(12) unfolding rw_untils_def p same .
  ultimately show "rw_inv A (P(t := ?pc)) (l\<lparr>win := win l + 1\<rparr>) ri ro (Suc wi) wo base (W @ [t])"
  proof (intro rw_invI)
    show "v = 256 * of_nat base" if "(P(t := ?pc)) u = RW_WRITE_DRAIN v" for u v using that d(10) unfolding same by blast
    show "free wo (P(t := ?pc)) = {}" if "pc_writing ((P(t := ?pc)) u)" for u using that d(11) unfolding same sets by blast
  qed (use d(2-9) in \<open>auto simp: p sets\<close>)
qed

lemma rw_inv_head:
  assumes r: "rw_inv A P l ri ro wi wo base (t # r)" and pc: "pc_place wo 0 pc"
    and l: "win l' = win l" "wout l' = wout l" "rout l' = rout l" "rin l' = 256 * of_nat ri + (if pc_present pc then phase wo else 0)"
    and base: "pc_present pc \<Longrightarrow> base' = ro + card (free wo P)" "\<And>v. pc = RW_WRITE_DRAIN v \<Longrightarrow> v = 256 * of_nat base'"
    and inside: "pc_writing pc \<Longrightarrow> free wo P = {}"
    and untils: "\<And>u wp. P u = RW_READ_UNTIL wp \<Longrightarrow>
      (if pc_present pc then wp \<in> {phase wo, phase (Suc wo)} else if \<exists>f. pc = RW_WRITE_OUT f then wp = phase wo else wp = phase (Suc wo))"
  shows "rw_inv A (P(t := pc)) l' ri ro wi wo base' (t # r)"
proof (rule rw_invI)
  note d = rw_invD [OF r]
  note h = rw_head_upd [OF d(1)]
  have w: "pc_writer (P t)" using rw_writersD(3) [OF d(1), of t] by simp
  have wpc: "pc_writer pc" using pc by (auto simp: pc_place_def dest: reader_not_writer)
  then have nr: "\<not> pc_reader pc" using reader_not_writer(1) by blast
  note sets = rw_inv_writer_sets [of P t, OF w nr]
  show "rw_writers A (P(t := pc)) wo (t # r)" by (rule rw_writers_head [OF d(1) pc])
  show "rw_untils (P(t := pc)) wo" by (rule rw_untils_head [OF d(1) untils]) (use nr in auto)
  show "readers (P(t := pc)) \<subseteq> A" "ri = ro + card (readers (P(t := pc)))" using d(2,4) by (simp_all only: sets)
  show "rin l' = 256 * of_nat ri + (if present (P(t := pc)) then phase wo else 0)" using l(4) by (simp only: h)
  show "present (P(t := pc)) \<Longrightarrow> base' = ro + card (free wo (P(t := pc)))" using base(1) by (simp only: h sets)
  show "v = 256 * of_nat base'" if "(P(t := pc)) u = RW_WRITE_DRAIN v" for u v
    using that base(2) rw_solo(1) [OF d(1), of u] by (cases "u = t") auto
  show "free wo (P(t := pc)) = {}" if "pc_writing ((P(t := pc)) u)" for u
    using that inside rw_solo(1) [OF d(1), of u] reader_not_writer(3) by (cases "u = t") (auto simp: sets)
qed (use rw_invD(3,5-7) [OF r] l in simp_all)

text \<open>The first writer takes its turn, announces itself, comes inside, moves inside and withdraws.\<close>

lemma rw_inv_turn:
  assumes r: "rw_inv A P l ri ro wi wo base W" and A: "finite A" "card A < 2 ^ 24" and t: "P t = RW_WRITE_TURN (wout l)"
  shows "rw_inv A (P(t := RW_WRITE_ADD (wout l))) l ri ro wi wo base W"
proof -
  note d = rw_invD [OF r]
  obtain i where i: "i < length W" "W ! i = t" using t rw_writersD(3) [OF d(1), of t] by (auto simp: in_set_conv_nth)
  have len: "length W \<le> card A" using rw_writersD(1,2) [OF d(1)] A(1) by (metis card_mono distinct_card)
  have "i = 0"
  proof (rule ccontr)
    assume "i \<noteq> 0"
    then have "(of_nat (wo + i) :: u32) = of_nat wo" using rw_writersD(4) [OF d(1) i(1)] i(2) t d(6) by (auto simp: pc_place_def)
    then have "wo = wo + i" by (intro of_nat_eq_u32) (use i(1) len A(2) in simp_all)
    then show False using \<open>i \<noteq> 0\<close> by simp
  qed
  then obtain r' where W: "W = t # r'" using i by (cases W) auto
  note h = rw_head_upd [OF d(1) [unfolded W]]
  show ?thesis unfolding W
    by (rule rw_inv_head [OF r [unfolded W]]) (use d(8) rw_untilsD(3) [OF d(12)] t h(3,4) in \<open>auto simp: pc_place_def d(6)\<close>)
qed

lemma rw_inv_announce:
  assumes r: "rw_inv A P l ri ro wi wo base W" and t: "P t = RW_WRITE_ADD k"
  shows "rw_inv A (P(t := RW_WRITE_DRAIN (rin l))) (l\<lparr>rin := rin l + ((k AND PF_PHASE_ID) OR PF_WRITER_PRESENT)\<rparr>) ri ro wi wo ri W"
proof -
  note d = rw_invD [OF r]
  obtain r' where W: "W = t # r'" by (rule rw_writer_head [OF d(1), of t]) (simp_all add: t)
  note h = rw_head_upd [OF d(1) [unfolded W]]
  have k: "k = of_nat wo" using rw_writersD(4) [OF d(1), of 0] W t by (simp add: pc_place_def)
  have np: "\<not> present P" "\<not> leaving P" using h(3,4) t by simp_all
  have "free wo P = readers P" using rw_untilsD(3) [OF d(12) _ np] by (fastforce simp: free_def readers_def)
  moreover have "rin l = 256 * of_nat ri" using d(8) np by simp
  moreover have "(k AND PF_PHASE_ID) OR PF_WRITER_PRESENT = phase wo" by (simp add: k phase_def)
  ultimately show ?thesis unfolding W
    by (intro rw_inv_head [OF r [unfolded W]]) (use d(4) rw_untilsD(3) [OF d(12) _ np] in \<open>auto simp: pc_place_def\<close>)
qed

lemma rw_inv_enter:
  assumes r: "rw_inv A P l ri ro wi wo base W" and A: "finite A" "card A < 2 ^ 24"
    and t: "P t = RW_WRITE_DRAIN (rout l) \<or> pc_writing (P t)" and pc: "pc_writing pc"
  shows "rw_inv A (P(t := pc)) l ri ro wi wo base W"
proof -
  note d = rw_invD [OF r]
  have pr: "pc_present (P t)" "pc_present pc" using t pc by (auto dest: reader_not_writer)
  have wr: "pc_writer (P t)" "\<And>k. P t \<noteq> RW_WRITE_TURN k" using pr by (auto dest: reader_not_writer)
  obtain r' where W: "W = t # r'" by (rule rw_writer_head [OF d(1) wr])
  have p: "present P" using rw_head_upd(3) [OF d(1) [unfolded W]] pr by simp
  have fin: "finite (readers P)" using d(2) A(1) finite_subset by blast
  have "card (free wo P) < 2 ^ 24" using card_mono [OF fin free_readers [of wo P]] card_mono [OF A(1) d(2)] A(2) by linarith
  then have "ro = base" if "P t = RW_WRITE_DRAIN (rout l)"
    using d(7,9) d(10) [OF that] p by (intro units_eq) auto
  then have f: "free wo P = {}" using t d(9) p d(11) [of t] finite_subset [OF free_readers fin] by auto
  have nd: "\<And>k. pc \<noteq> RW_WRITE_DRAIN k" using pc by auto
  show ?thesis unfolding W
    by (rule rw_inv_head [OF r [unfolded W]])
       (use d(8,9) p pr f nd rw_untilsD(1) [OF d(12) _ p] in \<open>auto simp: pc_place_def\<close>)
qed

lemma rw_inv_withdraw:
  assumes r: "rw_inv A P l ri ro wi wo base W" and t: "P t = RW_WRITE_CLEAR f"
  shows "rw_inv A (P(t := RW_WRITE_OUT f)) (l\<lparr>rin := rin l AND PF_LSB\<rparr>) ri ro wi wo base W"
proof -
  note d = rw_invD [OF r]
  obtain r' where W: "W = t # r'" by (rule rw_writer_head [OF d(1), of t]) (simp_all add: t)
  have p: "present P" using rw_head_upd(3) [OF d(1) [unfolded W]] t by simp
  have fe: "free wo P = {}" using d(11) [of t] t by simp
  have u: "wp = phase wo" if "P u = RW_READ_UNTIL wp" for u wp
  proof (rule ccontr)
    assume "wp \<noteq> phase wo"
    then have "u \<in> free wo P" using that by (simp add: free_def)
    then show False using fe by simp
  qed
  have "rin l AND PF_LSB = 256 * of_nat ri" using d(8) p by (simp add: units_bits(2) [where n = wo] del: of_nat_add)
  then show ?thesis unfolding W
    by (intro rw_inv_head [OF r [unfolded W]]) (use u in \<open>auto simp: pc_place_def\<close>)
qed

lemma rw_inv_pass:
  assumes r: "rw_inv A P l ri ro wi wo base W" and t: "P t = RW_WRITE_OUT f"
  shows "\<exists>r'. W = t # r' \<and> rw_inv A (P(t := RW_LEAVE f)) (l\<lparr>wout := wout l + 1\<rparr>) ri ro wi (Suc wo) base r'"
proof -
  note d = rw_invD [OF r]
  let ?P = "P(t := RW_LEAVE f)"
  obtain r' where W: "W = t # r'" by (rule rw_writer_head [OF d(1), of t]) (simp_all add: t)
  note h = rw_head_upd [OF d(1) [unfolded W]] and w = d(1) [unfolded W]
  have np: "\<not> present P" "leaving P" "\<not> present ?P" "\<not> leaving ?P" using h t by simp_all
  have sets: "readers ?P = readers P" by (rule rw_inv_writer_sets; simp add: t)+
  have "rw_writers A ?P (Suc wo) r'" unfolding rw_writers_def
  proof (intro conjI allI impI)
    note wd = rw_writersD [OF w]
    show "distinct r'" "set r' \<subseteq> A" using wd(1,2) by simp_all
    show "u \<in> set r' \<longleftrightarrow> pc_writer (?P u)" for u using wd(3) [of u] wd(1) by auto
    show "pc_place (Suc wo) i (?P (r' ! i))" if "i < length r'" for i
    proof -
      have "r' ! i \<noteq> t" using wd(1) that by auto
      then show ?thesis using wd(4) [of "Suc i"] that by (simp add: pc_place_def)
    qed
  qed
  moreover have "rw_untils ?P (Suc wo)" using rw_untilsD(2) [OF d(12) _ np(1,2)] unfolding rw_untils_def
    by (simp add: np)
  ultimately have "rw_inv A ?P (l\<lparr>wout := wout l + 1\<rparr>) ri ro wi (Suc wo) base r'"
  proof (intro rw_invI)
    have no: "\<not> pc_present (?P u)" for u using np(3) by (simp add: present_def)
    show "v = 256 * of_nat base" if "?P u = RW_WRITE_DRAIN v" for u v using that no [of u] by simp
    show "free (Suc wo) ?P = {}" if "pc_writing (?P u)" for u using that no [of u] reader_not_writer(3) by blast
  qed (use d(2-8) np W in \<open>auto simp: sets\<close>)
  then show ?thesis using W by blast
qed

section \<open>Every step keeps the invariant\<close>

lemma upd_rw_simps [simp]:
  "rs_agent (upd_rw f s) = rs_agent s" "rs_ri (upd_rw f s) = rs_ri s" "rs_ro (upd_rw f s) = rs_ro s" "rs_wi (upd_rw f s) = rs_wi s"
  "rs_wo (upd_rw f s) = rs_wo s" "rs_base (upd_rw f s) = rs_base s" "rw_word (rs_lock (upd_rw f s)) = f (rw_word (rs_lock s))"
  "rw_flags (rs_lock (upd_rw f s)) = rw_flags (rs_lock s)"
  by (simp_all add: upd_rw_def)

lemma upd_rw_agent_simps [simp]:
  "rs_ri (upd_rw_agent t g s) = rs_ri s" "rs_ro (upd_rw_agent t g s) = rs_ro s" "rs_wi (upd_rw_agent t g s) = rs_wi s"
  "rs_wo (upd_rw_agent t g s) = rs_wo s" "rs_base (upd_rw_agent t g s) = rs_base s" "rs_lock (upd_rw_agent t g s) = rs_lock s"
  "rs_agent (upd_rw_agent t g s) t = g (rs_agent s t)"
  by (simp_all add: upd_rw_agent_def)

lemma rw_pcs_simps [simp]:
  "rw_pcs (upd_rw_agent t g s) = (rw_pcs s)(t := ra_pc (g (rs_agent s t)))" "rw_pcs (upd_rw f s) = rw_pcs s"
  "rw_pcs (s\<lparr>rs_ri := n\<rparr>) = rw_pcs s" "rw_pcs (s\<lparr>rs_ro := n\<rparr>) = rw_pcs s" "rw_pcs (s\<lparr>rs_wi := n\<rparr>) = rw_pcs s"
  "rw_pcs (s\<lparr>rs_wo := n\<rparr>) = rw_pcs s" "rw_pcs (s\<lparr>rs_base := n\<rparr>) = rw_pcs s" "rw_pcs (s\<lparr>rs_lock := x\<rparr>) = rw_pcs s"
  by (auto simp: rw_pcs_def upd_rw_agent_def upd_rw_def)

lemma rw_pcs_goto [simp]: "(rw_pcs s)(t := pc, t := pc') = (rw_pcs s)(t := pc')"
  by simp

lemma protect_pc [simp]: "ra_pc (unprotect f a) = ra_pc a" "ra_pc (protect mode a) = ra_pc a"
  by (simp_all add: protect_def unprotect_def split: lock_mode.split)

lemma rw_step_repr:
  assumes r: "rw_repr A s W" and A: "finite A" "card A < 2 ^ 24" "t \<in> A" and step: "rw_step t s = Some s'"
  shows "\<exists>W'. rw_repr A s' W'"
proof -
  let ?P = "rw_pcs s"
  note r' = r [unfolded rw_repr_def]
  note d = rw_step_def Let_def rw_repr_def rw_pcs_def [THEN fun_cong, symmetric]
  show ?thesis
  proof (cases "rw_pcs s t")
    case RW_READ_ADD
    let ?pc' = "case sa_mode (rs_agent s t) of DISABLE_PREEMPTION \<Rightarrow> RW_READING | ISR_SAVE \<Rightarrow> RW_READ_SAVE"
    have "rw_repr A s' W"
      using step RW_READ_ADD rw_inv_arrive [OF r' A(1,3), of "if present ?P then RW_READ_UNTIL (phase (rs_wo s)) else ?pc'" ?pc'] rw_inv_bits [OF r']
      by (auto simp: d rw_read_acquired_def split: lock_mode.splits if_splits)
    then show ?thesis ..
  next
    case (RW_READ_UNTIL wp)
    have "rw_repr A s' W"
      using step RW_READ_UNTIL r rw_inv_read [OF r' RW_READ_UNTIL] by (auto simp: d rw_read_acquired_def split: lock_mode.splits if_splits)
    then show ?thesis ..
  next
    case RW_READ_SAVE
    have "rw_repr A s' W" using step RW_READ_SAVE rw_inv_neutral [OF r', of t RW_READING] by (auto simp: d)
    then show ?thesis ..
  next
    case (RW_READ_OUT f)
    have "rw_repr A s' W" using step RW_READ_OUT rw_inv_depart [OF r' A(1) RW_READ_OUT] by (auto simp: d)
    then show ?thesis ..
  next
    case RW_WRITE_IN
    have "rw_repr A s' (W @ [t])" using step RW_WRITE_IN rw_inv_enqueue(2) [OF r' A(3) RW_WRITE_IN refl] by (auto simp: d)
    then show ?thesis ..
  next
    case (RW_WRITE_TURN k)
    have "rw_repr A s' W" using step RW_WRITE_TURN r rw_inv_turn [OF r' A(1,2), of t] by (auto simp: d split: if_splits)
    then show ?thesis ..
  next
    case (RW_WRITE_ADD k)
    have "rw_repr A s' W" using step RW_WRITE_ADD rw_inv_announce [OF r' RW_WRITE_ADD] by (auto simp: d)
    then show ?thesis ..
  next
    case (RW_WRITE_DRAIN k)
    have "rw_repr A s' W"
      using step RW_WRITE_DRAIN r rw_inv_enter [OF r' A(1,2), of t] by (auto simp: d rw_write_acquired_def split: lock_mode.splits if_splits)
    then show ?thesis ..
  next
    case RW_WRITE_SAVE
    have "rw_repr A s' W" using step RW_WRITE_SAVE rw_inv_enter [OF r' A(1,2), of t RW_WRITING] by (auto simp: d)
    then show ?thesis ..
  next
    case (RW_WRITE_CLEAR f)
    have "rw_repr A s' W" using step RW_WRITE_CLEAR rw_inv_withdraw [OF r' RW_WRITE_CLEAR] by (auto simp: d)
    then show ?thesis ..
  next
    case (RW_WRITE_OUT f)
    then show ?thesis using step rw_inv_pass [OF r' RW_WRITE_OUT] by (auto simp: d)
  next
    case (RW_LEAVE f)
    have "rw_repr A s' W" using step RW_LEAVE rw_inv_neutral [OF r', of t RW_IDLE] by (auto simp: d)
    then show ?thesis ..
  qed (use step in \<open>simp_all add: d\<close>)
qed

lemma rw_trans_repr:
  assumes r: "rw_repr A s W" and A: "finite A" "card A < 2 ^ 24" and "rw_trans A s s'"
  shows "\<exists>W'. rw_repr A s' W'"
  using assms(4)
proof cases
  case (call t mode wr)
  then have "rw_pcs s t = RW_IDLE" by (simp add: rw_call_def rw_pcs_def split: if_splits)
  then have "rw_repr A s' W" using call(2) rw_inv_neutral [OF r [unfolded rw_repr_def], of t]
    by (auto simp: rw_call_def rw_repr_def split: if_splits)
  then show ?thesis ..
next
  case (uncall t)
  then have "rw_repr A s' W"
    using rw_inv_neutral [OF r [unfolded rw_repr_def], of t] rw_inv_enter [OF r [unfolded rw_repr_def] A, of t]
    by (cases "rw_pcs s t") (auto simp: rw_uncall_def rw_repr_def rw_pcs_def [THEN fun_cong, symmetric])
  then show ?thesis ..
qed (use rw_step_repr [OF r A] in blast)

lemma rw_initial_repr: "rw_initial s \<Longrightarrow> rw_repr A s []"
  by (auto simp: rw_initial_def rw_repr_def rw_inv_def rw_writers_def readers_def present_def leaving_def rw_untils_def rw_pcs_def
      rwlock_isr_init_def rwlock_init_def)

lemma rw_reachable:
  assumes "finite A" and "card A < 2 ^ 24" and "rw_initial s0" and "(rw_trans A)\<^sup>*\<^sup>* s0 s"
  obtains W where "rw_repr A s W"
  using assms(4) rw_initial_repr [OF assms(3)] rw_trans_repr [OF _ assms(1,2)]
  by (induction rule: rtranclp_induct) blast+

section \<open>Properties\<close>

text \<open>C36: Exclusion: starting from a fresh lock, whatever the interleaving of fewer than 2 ^ 24 agents and however often the words
  wrap around, at most one agent is inside as a writer, and then no agent is inside as a reader.\<close>

theorem rw_exclusion:
  assumes "finite A" and "card A < 2 ^ 24" and "rw_initial s0" and "(rw_trans A)\<^sup>*\<^sup>* s0 s" and "rw_writes s t"
  shows "(rw_writes s u \<longrightarrow> u = t) \<and> \<not> rw_reads s u"
proof -
  obtain W where r: "rw_repr A s W" using rw_reachable [OF assms(1-4)] .
  note d = rw_invD [OF r [unfolded rw_repr_def]]
  have t: "pc_writing (rw_pcs s t)" using assms(5) by (simp add: rw_writes_def rw_pcs_def)
  then have "pc_writer (rw_pcs s t)" "\<And>k. rw_pcs s t \<noteq> RW_WRITE_TURN k" by (auto dest: reader_not_writer)
  then obtain r' where W: "W = t # r'" by (rule rw_writer_head [OF d(1)])
  have "u = t" if "rw_writes s u"
    using that rw_solo(1) [OF d(1) [unfolded W], of u] by (auto simp: rw_writes_def rw_pcs_def dest: reader_not_writer)
  moreover have "\<not> rw_reads s u"
  proof
    assume "rw_reads s u"
    then have "u \<in> free (rs_wo s) (rw_pcs s)" by (auto simp: free_def rw_reads_def rw_pcs_def dest: reader_not_writer)
    then show False using d(11) [OF t] by simp
  qed
  ultimately show ?thesis by simp
qed

text \<open>While a writer is announced after a step, it is the one whose turn it was before the step.\<close>

lemma rw_trans_present:
  assumes r: "rw_repr A s W" and step: "rw_trans A s s'" and p: "present (rw_pcs s')"
  shows "rs_wo s' = rs_wo s \<and> (present (rw_pcs s) \<or> \<not> leaving (rw_pcs s))"
proof -
  note d = rw_invD [OF r [unfolded rw_repr_def]]
  note e = rw_pcs_def [THEN fun_cong, symmetric]
  have old: "present (rw_pcs s)" if "\<forall>v. v \<noteq> u \<longrightarrow> rw_pcs s' v = rw_pcs s v" "pc_present (rw_pcs s' u) \<longrightarrow> pc_present (rw_pcs s u)" for u
    using p that unfolding present_def by metis
  show ?thesis using step
  proof cases
    case (call u mode wr)
    then have "rs_wo s' = rs_wo s" "rw_pcs s' = (rw_pcs s)(u := if wr then RW_WRITE_IN else RW_READ_ADD)" by (auto simp: rw_call_def split: if_splits)
    then show ?thesis using old [of u] by simp
  next
    case (uncall u)
    then show ?thesis using old [of u] by (cases "rw_pcs s u") (auto simp: rw_uncall_def e)
  next
    case (step u)
    note st = step(2) [unfolded rw_step_def Let_def e]
    show ?thesis
    proof (cases "rw_pcs s u")
      case (RW_WRITE_OUT f)
      then obtain r' where "W = u # r'" using rw_writer_head [OF d(1), of u] by auto
      then have "\<not> present ((rw_pcs s)(u := RW_LEAVE f))" using rw_head_upd(1) [of A "rw_pcs s" "rs_wo s" u r'] d(1) by simp
      then show ?thesis using st RW_WRITE_OUT p by auto
    next
      case (RW_WRITE_ADD k)
      then obtain r' where "W = u # r'" using rw_writer_head [OF d(1), of u] by auto
      then have "\<not> leaving (rw_pcs s)" using rw_head_upd(4) [of A "rw_pcs s" "rs_wo s" u r'] d(1) RW_WRITE_ADD by simp
      then show ?thesis using st RW_WRITE_ADD by auto
    qed (use st p old [of u] in \<open>auto simp: rw_read_acquired_def rw_write_acquired_def split: if_splits lock_mode.splits\<close>)
  qed
qed

text \<open>C37: Phase fairness: a reader waits for one writer at most. From the moment the writer that it saw has withdrawn, its next step
  brings it inside, whenever it takes it and however many writers arrive in the meantime.\<close>

theorem rw_phase_fair:
  assumes A: "finite A" "card A < 2 ^ 24" and "rw_initial s0" and "(rw_trans A)\<^sup>*\<^sup>* s0 s"
    and "ra_pc (rs_agent s t) = RW_READ_UNTIL wp" and "rin (rw_word (rs_lock s)) AND PF_WRITER_BITS \<noteq> wp"
    and "(\<lambda>a b. rw_trans A a b \<and> ra_pc (rs_agent b t) = RW_READ_UNTIL wp)\<^sup>*\<^sup>* s s'"
  shows "\<exists>s''. rw_step t s' = Some s'' \<and> rw_reads s'' t"
proof -
  have "(\<exists>W. rw_repr A s' W) \<and> rw_pcs s' t = RW_READ_UNTIL wp \<and> rin (rw_word (rs_lock s')) AND PF_WRITER_BITS \<noteq> wp"
    using assms(7)
  proof (induction rule: rtranclp_induct)
    case base
    then show ?case using rw_reachable [OF assms(1-4)] assms(5,6) by (auto simp: rw_pcs_def)
  next
    case (step a b)
    then obtain W where r: "rw_repr A a W" and a: "rw_pcs a t = RW_READ_UNTIL wp" "rin (rw_word (rs_lock a)) AND PF_WRITER_BITS \<noteq> wp" by blast
    obtain W' where r': "rw_repr A b W'" using rw_trans_repr [OF r A] step(2) by blast
    have bt: "rw_pcs b t = RW_READ_UNTIL wp" using step(2) by (simp add: rw_pcs_def)
    note ia = r [unfolded rw_repr_def] and ib = r' [unfolded rw_repr_def]
    have "wp \<noteq> 0" using rw_untilsD [OF rw_invD(12) [OF ia] a(1)] by (cases "present (rw_pcs a)"; cases "leaving (rw_pcs a)") auto
    moreover have "wp \<noteq> phase (rs_wo b)" if p: "present (rw_pcs b)"
    proof (cases "present (rw_pcs a)")
      case True
      then show ?thesis using rw_trans_present [OF r _ p] step(2) a(2) rw_inv_bits [OF ia] by auto
    next
      case False
      then have "\<not> leaving (rw_pcs a)" "rs_wo b = rs_wo a" using rw_trans_present [OF r _ p] step(2) by auto
      then show ?thesis using rw_untilsD(3) [OF rw_invD(12) [OF ia] a(1) False] by simp
    qed
    ultimately have "rin (rw_word (rs_lock b)) AND PF_WRITER_BITS \<noteq> wp" using rw_inv_bits [OF ib] by auto
    then show ?case using r' bt by blast
  qed
  then show ?thesis
    by (auto simp: rw_step_def Let_def rw_pcs_def rw_read_acquired_def rw_reads_def upd_rw_agent_def split: lock_mode.splits)
qed

section \<open>Applications\<close>

datatype 'a rw_op = RCALL lock_mode bool 'a | RUNCALL 'a | RSTEP 'a

fun rw_exec :: "'a rw_op \<Rightarrow> 'a rw_state \<Rightarrow> 'a rw_state option" where
  "rw_exec (RCALL mode wr t) s = rw_call mode wr t s"
| "rw_exec (RUNCALL t) s = rw_uncall t s"
| "rw_exec (RSTEP t) s = rw_step t s"

fun rw_agent_of :: "'a rw_op \<Rightarrow> 'a" where
  "rw_agent_of (RCALL _ _ t) = t"
| "rw_agent_of (RUNCALL t) = t"
| "rw_agent_of (RSTEP t) = t"

fun rw_run :: "'a rw_op list \<Rightarrow> 'a rw_state \<Rightarrow> 'a rw_state option" where
  "rw_run [] s = Some s"
| "rw_run (x # xs) s = (case rw_exec x s of None \<Rightarrow> None | Some s \<Rightarrow> rw_run xs s)"

lemma rw_exec_trans: "rw_exec x s = Some s' \<Longrightarrow> rw_agent_of x \<in> A \<Longrightarrow> rw_trans A s s'"
  by (cases x) (auto intro: rw_trans.intros)

lemma rw_run_trans: "rw_run xs s = Some s' \<Longrightarrow> set (map rw_agent_of xs) \<subseteq> A \<Longrightarrow> (rw_trans A)\<^sup>*\<^sup>* s s'"
  by (induction xs arbitrary: s)
     (auto split: option.splits dest!: rw_exec_trans [where A = A] intro: converse_rtranclp_into_rtranclp)

text \<open>Agent 0 runs with interrupts on, agent 1 with interrupts off.\<close>

definition rw_start :: "nat rw_state" where
  "rw_start = \<lparr>rs_lock = \<lparr>rw_word = \<lparr>rin = 0, rout = 0, win = 0, wout = 0\<rparr>, rw_flags = 0\<rparr>,
     rs_agent = (\<lambda>t. \<lparr>sa_mode = ISR_SAVE, sa_preemption_count = 0, sa_flags = (if t = 1 then 2 else 0x202), sa_saved = 0, ra_pc = RW_IDLE\<rparr>),
     rs_ri = 0, rs_ro = 0, rs_wi = 0, rs_wo = 0, rs_base = 0\<rparr>"

lemma rw_start_initial: "rw_initial rw_start"
  by (auto simp: rw_initial_def rw_start_def rwlock_isr_init_def rwlock_init_def intro!: exI [of _ "rs_lock rw_start"])

text \<open>Agent 0 is inside as a writer, agent 1 has come as a reader and waits; then agent 0 withdraws.\<close>

definition rw_write_ops :: "nat rw_op list" where
  "rw_write_ops = [RCALL ISR_SAVE True 0, RSTEP 0, RSTEP 0, RSTEP 0, RSTEP 0, RSTEP 0, RCALL ISR_SAVE False 1, RSTEP 1]"

definition rw_written :: "nat rw_state" where
  "rw_written = the (rw_run rw_write_ops rw_start)"

definition rw_withdrawn :: "nat rw_state" where
  "rw_withdrawn = the (rw_run (rw_write_ops @ [RUNCALL 0, RSTEP 0]) rw_start)"

lemmas rw_eval = rw_write_ops_def rw_start_def rw_call_def rw_uncall_def rw_step_def Let_def upd_rw_agent_def upd_rw_def protect_def unprotect_def
  rw_read_acquired_def rw_write_acquired_def PF_WRITER_BITS_def PF_READER_INC_def PF_PHASE_ID_def PF_WRITER_PRESENT_def PF_LSB_def

lemma rw_written_reached: "(rw_trans {0, 1})\<^sup>*\<^sup>* rw_start rw_written"
  unfolding rw_written_def by (rule rw_run_trans [of rw_write_ops]) (simp_all add: rw_eval)

lemma rw_withdrawn_reached: "(rw_trans {0, 1})\<^sup>*\<^sup>* rw_start rw_withdrawn"
  unfolding rw_withdrawn_def by (rule rw_run_trans [of "rw_write_ops @ [RUNCALL 0, RSTEP 0]"]) (simp_all add: rw_eval)

theorem rw_exclusion_witness: "rw_writes rw_written 0 \<and> \<not> rw_reads rw_written 1"
proof -
  have "rw_writes rw_written 0" by (simp add: rw_written_def rw_writes_def rw_eval)
  from rw_exclusion [OF _ _ rw_start_initial rw_written_reached this, of 1] this show ?thesis by simp
qed

theorem rw_phase_fair_witness: "\<not> rw_reads rw_withdrawn 1 \<and> (\<exists>s. rw_step 1 rw_withdrawn = Some s \<and> rw_reads s 1)"
proof -
  have "ra_pc (rs_agent rw_withdrawn 1) = RW_READ_UNTIL 2" "rin (rw_word (rs_lock rw_withdrawn)) AND PF_WRITER_BITS \<noteq> 2" "\<not> rw_reads rw_withdrawn 1"
    by (simp_all add: rw_withdrawn_def rw_reads_def rw_eval)
  with rw_phase_fair [OF _ _ rw_start_initial rw_withdrawn_reached this(1,2) rtranclp.rtrancl_refl] show ?thesis by simp
qed

text \<open>The interrupt variants keep the flags of all readers in one place: when another reader has stored its flags in the meantime,
  a reader that unlocks gets the flags of the other one, and with them its interrupt flag.\<close>

theorem rw_isr_flags_shared:
  assumes "ra_pc (rs_agent s t) = RW_READING" and "sa_mode (rs_agent s t) = ISR_SAVE" and "ra_pc (rs_agent s u) = RW_READ_SAVE"
  shows "\<exists>s'. rw_run [RSTEP u, RUNCALL t, RSTEP t, RSTEP t] s = Some s' \<and> ra_pc (rs_agent s' t) = RW_IDLE \<and>
     sa_flags (rs_agent s' t) = sa_saved (rs_agent s u)"
proof -
  have "t \<noteq> u" using assms(1,3) by auto
  then show ?thesis using assms
    by (simp add: rw_step_def rw_uncall_def Let_def upd_rw_agent_def upd_rw_def unprotect_def)
qed

text \<open>Agent 1, whose interrupts were off, reads; agent 0, whose interrupts were on, comes too; agent 1 leaves with interrupts on.\<close>

definition rw_two_ops :: "nat rw_op list" where
  "rw_two_ops = [RCALL ISR_SAVE False 1, RSTEP 1, RSTEP 1, RCALL ISR_SAVE False 0, RSTEP 0]"

theorem rw_isr_flags_shared_witness:
  "\<exists>s. (rw_trans {0, 1})\<^sup>*\<^sup>* rw_start s \<and> \<not> interrupts_on (sa_flags (rs_agent rw_start 1)) \<and> ra_pc (rs_agent s 1) = RW_IDLE \<and>
     interrupts_on (sa_flags (rs_agent s 1))"
proof -
  let ?s = "the (rw_run rw_two_ops rw_start)"
  note ev = rw_two_ops_def rw_eval
  have r: "(rw_trans {0, 1})\<^sup>*\<^sup>* rw_start ?s" by (rule rw_run_trans [of rw_two_ops]) (simp_all add: ev)
  have f: "ra_pc (rs_agent ?s 1) = RW_READING" "sa_mode (rs_agent ?s 1) = ISR_SAVE" "ra_pc (rs_agent ?s 0) = RW_READ_SAVE"
    "sa_saved (rs_agent ?s 0) = 0x202" by (simp_all add: ev)
  obtain s' where s': "rw_run [RSTEP 0, RUNCALL 1, RSTEP 1, RSTEP 1] ?s = Some s'" "ra_pc (rs_agent s' 1) = RW_IDLE" "sa_flags (rs_agent s' 1) = 0x202"
    using rw_isr_flags_shared [OF f(1-3)] f(4) by auto
  have "(rw_trans {0, 1})\<^sup>*\<^sup>* ?s s'" by (rule rw_run_trans [OF s'(1)]) simp
  then have "(rw_trans {0, 1})\<^sup>*\<^sup>* rw_start s'" using r by (rule rtranclp_trans [rotated])
  moreover have "interrupts_on 0x202" "\<not> interrupts_on (sa_flags (rs_agent rw_start 1))" by (simp_all add: interrupts_on_def rw_start_def)
  ultimately show ?thesis using s'(2,3) by auto
qed

end
