(* ===== verification/Spec2Isabelle.thy ===== *)
theory Spec2Isabelle
  imports Twan_Mutex Twan_Vdelivery Twan_Spinlock Twan_Mcslock Twan_Rwlock
begin

text \<open>
  Verification of Twan, a separation kernel for x86: the kernel TwanRTOS, which runs as the root partition, and the
  hypervisor Twanvisor, which isolates the partitions and lets them share the CPUs.

  \<^bold>\<open>The program.\<close> The kernel schedules tasks on run queues with 256 priorities and several criticalities
  (\<open>src/kernel/sched\<close>); a timer interrupt preempts them. Twanvisor (\<open>src/subsys/twanvisor\<close>) does the same one level
  below with virtual CPUs: a virtual CPU leaves the guest by an exit (\<open>vportal/vexit.c\<close>), a hypercall is one of the exits
  (\<open>vportal/vcalls.c\<close>), the services behind the hypercalls work on the partition table and on other CPUs by
  inter-processor interrupts (\<open>vemulate/vemulate_utils.c\<close>, \<open>visr\<close>), the scheduler chooses the next virtual CPU
  (\<open>vsched\<close>), and the entry injects at most one pending event (\<open>vportal/venter.c\<close>). Both levels rest on the same intrusive
  data structures (\<open>include/lib/dsa\<close>) and on the same locks (\<open>src/subsys/sync\<close>).

  \<^bold>\<open>How C is modelled.\<close> A struct is a record, an enumeration or a program counter a datatype, an integer a word of its
  width, an array a function on its indices, a pointer an option of the name of what it points to. Intrusive nodes live in
  one store that maps names to their links, so that a node linked twice, or unlinked while it is somewhere else, does in
  the model what it does in the code. An operation is a function from the state to the new state, in the order of
  the statements of the source. Dereferencing null, reaching a state that the source asserts against, and an endless loop
  are the value \<^term>\<open>None\<close>; a theorem that an operation succeeds says that it returns \<^term>\<open>Some s\<close>. Code that the
  repository does not have, or that only the processor executes, is an argument of the definitions: the instructions cpuid,
  rdmsr and wrmsr, the exit information, page-fault-free access to the memory of a caller, the configuration
  (\<open>cfg\<close>). Code protected by a lock is one step; the locks themselves are modelled access by access.

  \<^bold>\<open>Theories, in the order of their imports.\<close>
  \<^item> \<open>Twan_Prelude\<close>: integer types, error numbers, generic lemmas on words, lists and maps.
  \<^item> \<open>Twan_Bits\<close> (\<open>include/std.h\<close>, \<open>include/compiler.h\<close>): bit scans, alignment, decimal conversions, against
    mathematical definitions.
  \<^item> \<open>Twan_Bitmap\<close> (\<open>bmp256.h\<close>, \<open>bmp512.h\<close>): the locale \<open>bitset\<close> is the contract of a bitmap as a set with its least
    and greatest elements; both bitmaps are instances.
  \<^item> \<open>Twan_Dq\<close> (\<open>dq.h\<close>): the locale \<open>node_queue\<close> is the contract of a queue of named nodes with frame laws for the rest of
    the store; the doubly linked queue is an instance.
  \<^item> \<open>Twan_Priorityq\<close> (\<open>priorityq.h\<close>), \<open>Twan_Delta\<close> (\<open>delta_chain.h\<close>): 256 queues and a bitmap as one priority
    queue; the chain of time differences as the sorted list of absolute times.
  \<^item> \<open>Twan_Task\<close> (\<open>task.h\<close>, \<open>kernel.h\<close>, \<open>arch.h\<close>), \<open>Twan_Sched_Queue\<close> (\<open>sched_dsa.c\<close>, \<open>sched_queue.c\<close>,
    \<open>sched_mcs.c\<close>), \<open>Twan_Sched\<close> (\<open>sched_ctx.c\<close>, \<open>sched_timer.c\<close>, \<open>sched_yield.c\<close>, \<open>sched.c\<close>, \<open>task.c\<close>): the kernel
    scheduler. The run queues refine sets of tasks with their arrival order; a tick loses and duplicates no task.
  \<^item> \<open>Twan_Listq\<close> (\<open>listq.h\<close>), \<open>Twan_Avl\<close> (\<open>linked_tree.h\<close>, \<open>avl_tree.h\<close>, \<open>avl_tree.c\<close>), \<open>Twan_Flatq\<close>
    (\<open>flat_priorityq.h\<close>): the tree of lists under the wait queues. The locale \<open>fifo_queue\<close> is the contract of a queue; for nodes
    of one priority the flat queue is an instance. For several priorities it is not: updating a height erases a key.
  \<^item> \<open>Twan_Waitq\<close> (\<open>waitq.h\<close>, \<open>waitq.c\<close>, \<open>sched_yield.c\<close>, \<open>timeout.c\<close>, \<open>sleep.c\<close>, \<open>initcalls/late/pv/twanvisor.c\<close>): blocking,
    waking, sleeping and time-outs of tasks. \<open>Twan_Semaphore\<close> (\<open>semaphore.c\<close>), \<open>Twan_Mutex\<close> (\<open>mutex.c\<close>): the semaphore and the
    mutex as transition systems whose agents are tasks; interrupts may be on or off, and a task may yield when it enables
    preemption. No token and no wake-up is lost, and the mutex excludes.
  \<^item> \<open>Twan_Vpartition\<close> (\<open>vcpu.h\<close>, \<open>vpartition.h\<close>, \<open>twanvisor.h\<close>, \<open>vpartition.c\<close>, \<open>vsched_mcs.c\<close>): the state of the
    hypervisor and the partition table.
  \<^item> \<open>Twan_Vsched_Dsa\<close> (\<open>vsched_dsa.c\<close>, both configurations; \<open>vsched_ctx.c\<close>, \<open>vsched_timer.c\<close>), \<open>Twan_Vsched\<close>
    (\<open>vsched.c\<close>, \<open>vsched_yield.c\<close>, \<open>vcpu.c\<close>): the frame scheduler picks by a clock within a bounded number of picks;
    rescheduling saves and loads contexts exactly.
  \<^item> \<open>Twan_Visr\<close> (\<open>visr_index.c\<close>, \<open>visr_dispatcher.c\<close>), \<open>Twan_Vemu\<close> (\<open>vemulate_utils.c\<close>), \<open>Twan_Vrecovery\<close>
    (\<open>vrecovery.c\<close>), \<open>Twan_Vcreate\<close> (\<open>vcreate.c\<close>): interrupts, the services behind the hypercalls, teardown (the locale
    \<open>unwinding\<close> states the contract of a pair of opposite routes once, for all routes in both directions) and creation.
  \<^item> \<open>Twan_Vtrap\<close> (\<open>vtrap.c\<close>, \<open>vemulate_utils.h\<close>), \<open>Twan_Venter\<close> (\<open>venter.c\<close>), \<open>Twan_Vtimer\<close> (\<open>vcalls.c\<close>,
    \<open>vexit.c\<close>), \<open>Twan_Vcalls\<close> (\<open>vcalls.c\<close>), \<open>Twan_Vexit\<close> (\<open>vexit.c\<close>, \<open>vinfo.c\<close>, \<open>vshield.c\<close>), \<open>Twan_Vdelivery\<close>: the
    portal of the guests. The entry is proved equal to a list of precedences, the timers refine absolute times, the
    hypercall dispatcher keeps everything that only the root may change, and no subscribed device interrupt is lost.
  \<^item> \<open>Twan_Queue_Lock\<close>, \<open>Twan_Spinlock\<close>, \<open>Twan_Mcslock\<close>, \<open>Twan_Rwlock\<close> (\<open>src/subsys/sync\<close>): the locks as transition
    systems with one transition per atomic access. The locale \<open>queue_lock\<close> derives mutual exclusion and the order of service
    from four laws on the queue of waiters; the ticket lock and the list-based lock are instances.

  \<^bold>\<open>Bounds.\<close> Ticket counters wrap around at their width: the ticket lock is correct for fewer than 2^32 callers, the
  reader-writer lock for fewer than 2^24, and the former only if no trylock is delayed across 2^32 acquisitions, which the code does
  not check. The properties of blocking, of the semaphore and of the mutex hold for tasks that wait with one priority, in queues that
  were initialised statically: the theories prove that other priorities and the initialisation at run time break the queues. Those of the
  paravirtual kick hold for both schedulers of the hypervisor, those of rescheduling for the frame scheduler. Pointer-chasing loops are \<^theory_text>\<open>partial_function (option)\<close>; the theorems about them
  say that they return on well-formed chains. Loops with a counter of the source are structural recursion.

  \<^bold>\<open>Not modelled.\<close> Assembly and bring-up (\<open>src/boot\<close>, \<open>vmain.c\<close>, \<open>*.s\<close>), device and register access (\<open>apic.c\<close>,
  \<open>hpet.c\<close>, the drivers), page tables, the demos, and vendored headers (\<open>nanoprintf.h\<close>, \<open>elf.h\<close>): they order accesses to
  hardware whose behaviour the repository does not have. \<open>vcpu_entry\<close> and \<open>vsched_idle\<close> are such code too. The memory allocators, the
  dispatch of the interrupts of the kernel and the registration of devices are left for later.
\<close>

end
